(* ===== verification/Prelude.thy ===== *)
theory Prelude
  imports Main "HOL-Library.AList" "HOL-Library.List_Lexorder" "HOL-Library.Char_ord"
begin

text \<open>
  Shared vocabulary of the development.

  A JavaScript \<^verbatim>\<open>Map\<close> (and a plain object used as a dictionary) iterates in insertion order:
  setting an existing key replaces its value in place, setting a new key appends. It is an
  association list with distinct keys; \<open>jm_set\<close> is the library's in-place update. A
  JavaScript \<^verbatim>\<open>Set\<close> is a distinct list, \<open>js_add\<close> appends an element that is new.

  Strings are \<^typ>\<open>string\<close>, read as UTF-8 bytes; the operations that look inside a string
  (case folding, trimming, slicing) agree with JavaScript's on ASCII.
\<close>

named_theorems js_simps \<open>evaluation of the JavaScript primitives\<close>

subsection \<open>Maps and sets in insertion order\<close>

type_synonym ('k, 'v) jsmap = "('k \<times> 'v) list"

definition jm_get :: "('k, 'v) jsmap \<Rightarrow> 'k \<Rightarrow> 'v option" where
  "jm_get m k = map_of m k"

definition jm_has :: "('k, 'v) jsmap \<Rightarrow> 'k \<Rightarrow> bool" where
  "jm_has m k \<longleftrightarrow> k \<in> set (map fst m)"

definition jm_set :: "'k \<Rightarrow> 'v \<Rightarrow> ('k, 'v) jsmap \<Rightarrow> ('k, 'v) jsmap" where
  "jm_set k v m = AList.update k v m"

definition jm_delete :: "'k \<Rightarrow> ('k, 'v) jsmap \<Rightarrow> ('k, 'v) jsmap" where
  "jm_delete k m = filter (\<lambda>p. fst p \<noteq> k) m"

definition jm_keys :: "('k, 'v) jsmap \<Rightarrow> 'k list" where
  "jm_keys m = map fst m"

definition jm_ok :: "('k, 'v) jsmap \<Rightarrow> bool" where
  "jm_ok m \<longleftrightarrow> distinct (map fst m)"

definition js_add :: "'a \<Rightarrow> 'a list \<Rightarrow> 'a list" where
  "js_add x xs = (if x \<in> set xs then xs else xs @ [x])"

lemma jm_get_set: "jm_get (jm_set k v m) = (jm_get m)(k \<mapsto> v)"
  by (simp add: jm_get_def jm_set_def fun_eq_iff update_conv')

lemma jm_get_delete: "jm_get (jm_delete k m) = (jm_get m)(k := None)"
  by (induction m) (auto simp: jm_get_def jm_delete_def fun_eq_iff)

lemma jm_ok_set: "jm_ok m \<Longrightarrow> jm_ok (jm_set k v m)"
  by (simp add: jm_ok_def jm_set_def distinct_update)

lemma jm_ok_delete: "jm_ok m \<Longrightarrow> jm_ok (jm_delete k m)"
  by (simp add: jm_ok_def jm_delete_def distinct_map_filter)

lemma jm_ok_filter: "jm_ok m \<Longrightarrow> jm_ok (filter P m)"
  by (simp add: jm_ok_def distinct_map_filter)

lemma jm_ok_Nil [simp]: "jm_ok []"
  by (simp add: jm_ok_def)

lemma jm_has_iff: "jm_has m k \<longleftrightarrow> jm_get m k \<noteq> None"
  by (simp add: jm_has_def jm_get_def map_of_eq_None_iff)

lemma jm_get_filter:
  "jm_ok m \<Longrightarrow> jm_get (filter P m) k =
     (case jm_get m k of None \<Rightarrow> None | Some v \<Rightarrow> if P (k, v) then Some v else None)"
  by (induction m)
     (auto simp: jm_get_def jm_ok_def map_of_eq_None_iff rev_image_eqI split: option.splits)

lemma set_jm_keys: "set (jm_keys m) = dom (jm_get m)"
  by (simp add: jm_keys_def jm_get_def [abs_def] dom_map_of_conv_image_fst)

lemma length_jm_set_new: "jm_get m k = None \<Longrightarrow> length (jm_set k v m) = Suc (length m)"
  by (induction m) (auto simp: jm_get_def jm_set_def split: if_splits)

lemma length_jm_set_old: "jm_get m k = Some w \<Longrightarrow> length (jm_set k v m) = length m"
  by (induction m) (auto simp: jm_get_def jm_set_def split: if_splits)

lemma keys_jm_set_old: "jm_get m k = Some w \<Longrightarrow> map fst (jm_set k v m) = map fst m"
  by (induction m) (auto simp: jm_get_def jm_set_def split: if_splits)

lemma length_jm_delete_le: "length (jm_delete k m) \<le> length m"
  by (simp add: jm_delete_def)

lemma jm_get_in_set: "jm_get m k = Some v \<Longrightarrow> (k, v) \<in> set m"
  by (simp add: jm_get_def map_of_SomeD)

lemma in_set_jm_get: "jm_ok m \<Longrightarrow> (k, v) \<in> set m \<Longrightarrow> jm_get m k = Some v"
  by (simp add: jm_get_def jm_ok_def)

lemma distinct_js_add: "distinct xs \<Longrightarrow> distinct (js_add x xs)"
  by (simp add: js_add_def)

lemma set_js_add [simp]: "set (js_add x xs) = insert x (set xs)"
  by (auto simp: js_add_def)

lemma option_ext: "(\<And>v. a = Some v \<longleftrightarrow> b = Some v) \<Longrightarrow> a = b"
  by (cases a; cases b) auto

lemma in_map_fst: "k \<in> set (map fst m) \<Longrightarrow> \<exists>v. (k, v) \<in> set m"
  by auto

lemmas jm_laws = jm_get_set jm_get_delete jm_ok_set jm_ok_delete

subsection \<open>The contract of a keyed collection\<close>

text \<open>
  What the components rely on when they keep a \<^verbatim>\<open>Map\<close>: a lookup after a write, a lookup after
  a delete, and the well-formedness both keep. A run of writes is summarised once, here.
\<close>

locale keyed_store =
  fixes lookup :: "'m \<Rightarrow> 'k \<Rightarrow> 'v option"
    and store :: "'k \<Rightarrow> 'v \<Rightarrow> 'm \<Rightarrow> 'm"
    and remove :: "'k \<Rightarrow> 'm \<Rightarrow> 'm"
    and wf :: "'m \<Rightarrow> bool"
  assumes lookup_store: "lookup (store k v m) = (lookup m)(k \<mapsto> v)"
    and lookup_remove: "lookup (remove k m) = (lookup m)(k := None)"
    and wf_store: "wf m \<Longrightarrow> wf (store k v m)"
    and wf_remove: "wf m \<Longrightarrow> wf (remove k m)"
begin

lemma fold_store_wf: "wf m \<Longrightarrow> wf (fold (\<lambda>x. store (key x) (val x)) xs m)"
  by (induction xs arbitrary: m) (simp_all add: wf_store)

lemma fold_remove_wf: "wf m \<Longrightarrow> wf (fold (\<lambda>x. remove (key x)) xs m)"
  by (induction xs arbitrary: m) (simp_all add: wf_remove)

lemma fold_store_other:
  "k \<notin> key ` set xs \<Longrightarrow> lookup (fold (\<lambda>x. store (key x) (val x)) xs m) k = lookup m k"
  by (induction xs arbitrary: m) (simp_all add: lookup_store)

lemma fold_store_dom:
  "dom (lookup (fold (\<lambda>x. store (key x) (val x)) xs m)) = dom (lookup m) \<union> key ` set xs"
  by (induction xs arbitrary: m) (auto simp: lookup_store)

lemma fold_store_distinct:
  "distinct (map key xs) \<Longrightarrow> x \<in> set xs \<Longrightarrow>
     lookup (fold (\<lambda>x. store (key x) (val x)) xs m) (key x) = Some (val x)"
proof (induction xs arbitrary: m)
  case (Cons y ys)
  then show ?case
    by (cases "x = y") (auto simp: fold_store_other lookup_store)
qed simp

end

interpretation jm: keyed_store jm_get jm_set jm_delete jm_ok
  by unfold_locales (auto simp: jm_laws)

subsection \<open>Lists\<close>

definition last_n :: "nat \<Rightarrow> 'a list \<Rightarrow> 'a list" where
  "last_n n xs = drop (length xs - n) xs"

lemma length_last_n [simp]: "length (last_n n xs) = min n (length xs)"
  by (simp add: last_n_def)

lemma last_n_snoc: "0 < n \<Longrightarrow> last_n n (last_n n xs @ [x]) = last_n n (xs @ [x])"
  by (cases "length xs < n") (auto simp: last_n_def drop_drop Suc_diff_le)

end
