(* ===== verification/JsNumber.thy ===== *)
theory JsNumber
  imports Complex_Main Prelude
begin

text \<open>
  JavaScript numbers and their text forms.

  A number is an exact rational, \<open>NaN\<close> or an infinity: comparison, \<^verbatim>\<open>NaN\<close> propagation, division
  by zero, \<^verbatim>\<open>Math.floor\<close>, \<^verbatim>\<open>Math.round\<close>, \<^verbatim>\<open>toFixed\<close> and \<^verbatim>\<open>Number(text)\<close> follow ECMAScript;
  the rounding of a double after each operation, the overflow of a finite operation and the
  sign of zero are not represented.
\<close>

datatype jsnum = JFin rat | JNaN | JPInf | JNInf

definition js_finite :: "jsnum \<Rightarrow> bool" where
  "js_finite x = (case x of JFin _ \<Rightarrow> True | _ \<Rightarrow> False)"

definition js_val :: "jsnum \<Rightarrow> rat" where
  "js_val x = (case x of JFin r \<Rightarrow> r | _ \<Rightarrow> 0)"

lemma js_finite_iff: "js_finite x \<longleftrightarrow> (\<exists>r. x = JFin r)"
  by (cases x) (auto simp: js_finite_def)

lemma js_finite_simps [simp]:
  "js_finite (JFin r)" "\<not> js_finite JNaN" "\<not> js_finite JPInf" "\<not> js_finite JNInf"
  by (simp_all add: js_finite_def)

lemma js_val_JFin [simp]: "js_val (JFin r) = r"
  by (simp add: js_val_def)

subsection \<open>Arithmetic\<close>

definition js_inf :: "rat \<Rightarrow> jsnum" where
  "js_inf s = (if s > 0 then JPInf else if s < 0 then JNInf else JNaN)"

definition js_sgn :: "jsnum \<Rightarrow> rat" where
  "js_sgn x = (case x of JFin a \<Rightarrow> (if a > 0 then 1 else if a < 0 then -1 else 0)
               | JPInf \<Rightarrow> 1 | JNInf \<Rightarrow> -1 | JNaN \<Rightarrow> 0)"

instantiation jsnum :: "{zero, one, plus, uminus, minus, times, inverse}"
begin

definition zero_jsnum :: jsnum where "zero_jsnum = JFin 0"

definition one_jsnum :: jsnum where "one_jsnum = JFin 1"

fun plus_jsnum :: "jsnum \<Rightarrow> jsnum \<Rightarrow> jsnum" where
  "plus_jsnum (JFin a) (JFin b) = JFin (a + b)"
| "plus_jsnum JNaN _ = JNaN"
| "plus_jsnum _ JNaN = JNaN"
| "plus_jsnum JPInf JNInf = JNaN"
| "plus_jsnum JNInf JPInf = JNaN"
| "plus_jsnum JPInf _ = JPInf"
| "plus_jsnum JNInf _ = JNInf"
| "plus_jsnum _ y = y"

fun uminus_jsnum :: "jsnum \<Rightarrow> jsnum" where
  "uminus_jsnum (JFin a) = JFin (- a)"
| "uminus_jsnum JNaN = JNaN"
| "uminus_jsnum JPInf = JNInf"
| "uminus_jsnum JNInf = JPInf"

definition minus_jsnum :: "jsnum \<Rightarrow> jsnum \<Rightarrow> jsnum" where
  "minus_jsnum x y = x + (- y)"

fun times_jsnum :: "jsnum \<Rightarrow> jsnum \<Rightarrow> jsnum" where
  "times_jsnum (JFin a) (JFin b) = JFin (a * b)"
| "times_jsnum JNaN _ = JNaN"
| "times_jsnum _ JNaN = JNaN"
| "times_jsnum x y = js_inf (js_sgn x * js_sgn y)"

fun divide_jsnum :: "jsnum \<Rightarrow> jsnum \<Rightarrow> jsnum" where
  "divide_jsnum (JFin a) (JFin b) = (if b = 0 then js_inf a else JFin (a / b))"
| "divide_jsnum JNaN _ = JNaN"
| "divide_jsnum _ JNaN = JNaN"
| "divide_jsnum (JFin a) _ = JFin 0"
| "divide_jsnum x (JFin b) = js_inf (js_sgn x * (if b < 0 then -1 else 1))"
| "divide_jsnum _ _ = JNaN"

definition inverse_jsnum :: "jsnum \<Rightarrow> jsnum" where
  "inverse_jsnum x = divide (JFin 1) x"

instance ..

end

instantiation jsnum :: ord
begin

fun less_jsnum :: "jsnum \<Rightarrow> jsnum \<Rightarrow> bool" where
  "less_jsnum (JFin a) (JFin b) = (a < b)"
| "less_jsnum JNaN _ = False"
| "less_jsnum _ JNaN = False"
| "less_jsnum JNInf JNInf = False"
| "less_jsnum JNInf _ = True"
| "less_jsnum _ JNInf = False"
| "less_jsnum JPInf _ = False"
| "less_jsnum _ JPInf = True"

definition less_eq_jsnum :: "jsnum \<Rightarrow> jsnum \<Rightarrow> bool" where
  "less_eq_jsnum x y \<longleftrightarrow> x < y \<or> (x = y \<and> x \<noteq> JNaN)"

instance ..

end

text \<open>\<^verbatim>\<open>===\<close> on numbers: \<open>NaN\<close> equals nothing.\<close>

definition js_eq :: "jsnum \<Rightarrow> jsnum \<Rightarrow> bool" where
  "js_eq x y \<longleftrightarrow> x = y \<and> x \<noteq> JNaN"

lemma minus_JFin [simp]: "JFin a - JFin b = JFin (a - b)"
  by (simp add: minus_jsnum_def)

lemma less_eq_JFin [simp]: "JFin a \<le> JFin b \<longleftrightarrow> a \<le> b"
  by (auto simp: less_eq_jsnum_def)

lemma js_eq_JFin [simp]: "js_eq (JFin a) (JFin b) \<longleftrightarrow> a = b"
  by (simp add: js_eq_def)

lemma less_eq_NaN [simp]: "\<not> JNaN \<le> x" "\<not> x \<le> JNaN"
  by (cases x; simp add: less_eq_jsnum_def)+

lemma less_NaN [simp]: "\<not> (x :: jsnum) < JNaN"
  by (cases x) simp_all

definition js_abs :: "jsnum \<Rightarrow> jsnum" where
  "js_abs x = (case x of JFin a \<Rightarrow> JFin \<bar>a\<bar> | JNaN \<Rightarrow> JNaN | _ \<Rightarrow> JPInf)"

text \<open>\<^verbatim>\<open>Math.max\<close> and \<^verbatim>\<open>Math.min\<close> of two arguments: \<open>NaN\<close> wins.\<close>

definition js_max :: "jsnum \<Rightarrow> jsnum \<Rightarrow> jsnum" where
  "js_max x y = (if x = JNaN \<or> y = JNaN then JNaN else if x < y then y else x)"

definition js_min :: "jsnum \<Rightarrow> jsnum \<Rightarrow> jsnum" where
  "js_min x y = (if x = JNaN \<or> y = JNaN then JNaN else if y < x then y else x)"

definition js_max_list :: "jsnum list \<Rightarrow> jsnum" where
  "js_max_list xs = foldl js_max JNInf xs"

lemma js_max_JFin [simp]: "js_max (JFin a) (JFin b) = JFin (max a b)"
  by (simp add: js_max_def max_def)

lemma js_min_JFin [simp]: "js_min (JFin a) (JFin b) = JFin (min a b)"
  by (simp add: js_min_def min_def)

definition js_floor :: "jsnum \<Rightarrow> jsnum" where
  "js_floor x = (case x of JFin a \<Rightarrow> JFin (of_int \<lfloor>a\<rfloor>) | _ \<Rightarrow> x)"

text \<open>\<^verbatim>\<open>Math.round\<close>: the nearest integer, halves up.\<close>

definition rat_round :: "rat \<Rightarrow> int" where
  "rat_round r = \<lfloor>r + 1 / 2\<rfloor>"

lemma rat_floor_numeral [js_simps]:
  "\<lfloor>(numeral a :: rat) / numeral b\<rfloor> = numeral a div numeral b"
  "\<lfloor>(1 :: rat) / numeral b\<rfloor> = 1 div numeral b"
  "\<lfloor>- ((numeral a :: rat) / numeral b)\<rfloor> = - numeral a div numeral b"
  "\<lfloor>- ((1 :: rat) / numeral b)\<rfloor> = - 1 div numeral b"
  using floor_divide_of_int_eq [of "numeral a" "numeral b", where ?'a = rat]
    floor_divide_of_int_eq [of 1 "numeral b", where ?'a = rat]
    floor_divide_of_int_eq [of "- numeral a" "numeral b", where ?'a = rat]
    floor_divide_of_int_eq [of "- 1" "numeral b", where ?'a = rat]
  by simp_all

definition js_round :: "jsnum \<Rightarrow> jsnum" where
  "js_round x = (case x of JFin a \<Rightarrow> JFin (of_int (rat_round a)) | _ \<Rightarrow> x)"

definition clamp_rat :: "rat \<Rightarrow> rat \<Rightarrow> rat \<Rightarrow> rat" where
  "clamp_rat lo hi x = max lo (min hi x)"

lemma clamp_rat_bounds: "lo \<le> hi \<Longrightarrow> lo \<le> clamp_rat lo hi x \<and> clamp_rat lo hi x \<le> hi"
  by (simp add: clamp_rat_def)

lemma clamp_rat_id: "lo \<le> x \<Longrightarrow> x \<le> hi \<Longrightarrow> clamp_rat lo hi x = x"
  by (simp add: clamp_rat_def)

subsection \<open>Decimal text\<close>

definition digit_char :: "nat \<Rightarrow> char" where
  "digit_char d = char_of (48 + d)"

definition is_digit :: "char \<Rightarrow> bool" where
  "is_digit c \<longleftrightarrow> 48 \<le> (of_char c :: nat) \<and> (of_char c :: nat) \<le> 57"

definition digit_val :: "char \<Rightarrow> nat" where
  "digit_val c = of_char c - 48"

fun nat_text :: "nat \<Rightarrow> string" where
  "nat_text n = (if n < 10 then [digit_char n] else nat_text (n div 10) @ [digit_char (n mod 10)])"

declare nat_text.simps [simp del]

definition int_text :: "int \<Rightarrow> string" where
  "int_text i = (if i < 0 then ''-'' @ nat_text (nat (- i)) else nat_text (nat i))"

definition digits_val :: "string \<Rightarrow> nat" where
  "digits_val s = foldl (\<lambda>a c. 10 * a + digit_val c) 0 s"

lemma of_char_digit: "d < 10 \<Longrightarrow> of_char (digit_char d) = 48 + d"
  by (simp add: digit_char_def)

lemma is_digit_digit_char: "d < 10 \<Longrightarrow> is_digit (digit_char d)"
  by (simp add: is_digit_def of_char_digit)

lemma digit_val_digit_char: "d < 10 \<Longrightarrow> digit_val (digit_char d) = d"
  by (simp add: digit_val_def of_char_digit)

lemma digit_chars [js_simps]:
  "digit_char 0 = CHR ''0''" "digit_char 1 = CHR ''1''" "digit_char (Suc 0) = CHR ''1''"
  "digit_char 2 = CHR ''2''" "digit_char 3 = CHR ''3''" "digit_char 4 = CHR ''4''"
  "digit_char 5 = CHR ''5''" "digit_char 6 = CHR ''6''" "digit_char 7 = CHR ''7''"
  "digit_char 8 = CHR ''8''" "digit_char 9 = CHR ''9''"
  by code_simp+

lemma nat_text_small [js_simps]: "n < 10 \<Longrightarrow> nat_text n = [digit_char n]"
  by (simp add: nat_text.simps [of n])

lemma nat_text_step [js_simps]: "10 \<le> n \<Longrightarrow> nat_text n = nat_text (n div 10) @ [digit_char (n mod 10)]"
  by (simp add: nat_text.simps [of n])

lemma nat_text_digits: "list_all is_digit (nat_text n)"
proof (induction n rule: nat_text.induct)
  case (1 n)
  then show ?case
    by (cases "n < 10") (simp_all add: nat_text.simps [of n] is_digit_digit_char)
qed

lemma nat_text_not_Nil: "nat_text n \<noteq> []"
  by (simp add: nat_text.simps [of n])

lemma digits_val_snoc: "digits_val (s @ [c]) = 10 * digits_val s + digit_val c"
  by (simp add: digits_val_def)

text \<open>Printing a natural number and reading its digits back is the identity.\<close>

lemma digits_val_nat_text: "digits_val (nat_text n) = n"
proof (induction n rule: nat_text.induct)
  case (1 n)
  show ?case
  proof (cases "n < 10")
    case True
    then show ?thesis
      by (simp add: nat_text.simps [of n] digits_val_def digit_val_digit_char)
  next
    case False
    then show ?thesis
      by (simp add: nat_text.simps [of n] digits_val_snoc digit_val_digit_char 1)
  qed
qed

lemma nat_text_inject [simp]: "nat_text m = nat_text n \<longleftrightarrow> m = n"
  by (metis digits_val_nat_text)

lemma nat_text_no_minus: "hd (nat_text n) \<noteq> CHR ''-''"
proof -
  have "is_digit (hd (nat_text n))"
    using nat_text_digits [of n] nat_text_not_Nil [of n] by (cases "nat_text n") auto
  then show ?thesis by (auto simp: is_digit_def)
qed

lemma int_text_inject [simp]: "int_text i = int_text j \<longleftrightarrow> i = j"
proof -
  have ne: "''-'' @ nat_text a \<noteq> nat_text b" for a b
    using nat_text_no_minus [of b] by (metis append_Cons list.sel(1))
  show ?thesis
    using ne ne [symmetric] by (auto simp: int_text_def nat_eq_iff)
qed

text \<open>\<^verbatim>\<open>padStart(n, '0')\<close>.\<close>

definition pad_start :: "nat \<Rightarrow> char \<Rightarrow> string \<Rightarrow> string" where
  "pad_start n c s = replicate (n - length s) c @ s"

lemma length_pad_start [simp]: "length (pad_start n c s) = max n (length s)"
  by (simp add: pad_start_def)

text \<open>
  \<^verbatim>\<open>x.toFixed(d)\<close> (for \<open>|x| < 10\<^sup>2\<^sup>1\<close>): the integer nearest to \<open>x \<cdot> 10\<^sup>d\<close>, the larger of two, with a
  point before its last \<open>d\<close> digits; a negative \<open>x\<close> is printed by its absolute value.
\<close>

definition fixed_nat :: "nat \<Rightarrow> rat \<Rightarrow> nat" where
  "fixed_nat d r = nat (rat_round (r * 10 ^ d))"

definition fixed_pos :: "nat \<Rightarrow> rat \<Rightarrow> string" where
  "fixed_pos d r =
     (let m = pad_start (d + 1) (CHR ''0'') (nat_text (fixed_nat d r)); k = length m - d
      in if d = 0 then nat_text (fixed_nat d r) else take k m @ ''.'' @ drop k m)"

definition rat_to_fixed :: "nat \<Rightarrow> rat \<Rightarrow> string" where
  "rat_to_fixed d r = (if r < 0 then ''-'' @ fixed_pos d (- r) else fixed_pos d r)"

definition to_fixed :: "nat \<Rightarrow> jsnum \<Rightarrow> string" where
  "to_fixed d x = (case x of JFin r \<Rightarrow> rat_to_fixed d r
     | JNaN \<Rightarrow> ''NaN'' | JPInf \<Rightarrow> ''Infinity'' | JNInf \<Rightarrow> ''-Infinity'')"

lemma rat_round_error: "\<bar>of_int (rat_round r) - r\<bar> \<le> 1 / 2"
  unfolding rat_round_def by linarith

lemma rat_round_int [simp]: "rat_round (of_int i) = i"
  unfolding rat_round_def by linarith

text \<open>The printed digits are within half a unit of the last place.\<close>

lemma fixed_nat_error: "0 \<le> r \<Longrightarrow> \<bar>of_nat (fixed_nat d r) - r * 10 ^ d\<bar> \<le> 1 / 2"
proof -
  assume r: "0 \<le> r"
  then have "0 \<le> rat_round (r * 10 ^ d)"
    unfolding rat_round_def by (simp add: add_nonneg_nonneg)
  then have "rat_of_nat (fixed_nat d r) = of_int (rat_round (r * 10 ^ d))"
    by (simp add: fixed_nat_def)
  then show ?thesis
    using rat_round_error [of "r * 10 ^ d"] by simp
qed

end
