(* ===== verification/JsText.thy ===== *)
theory JsText
  imports JsNumber
begin

text \<open>
  The string operations of ECMAScript the sources use, on the ASCII range: case folding,
  \<^verbatim>\<open>trim\<close>, \<^verbatim>\<open>split\<close>, \<^verbatim>\<open>join\<close>, \<^verbatim>\<open>includes\<close>, \<^verbatim>\<open>startsWith\<close>, \<^verbatim>\<open>endsWith\<close>, and the grammar of
  \<^verbatim>\<open>Number(text)\<close>.
\<close>

definition lower_char :: "char \<Rightarrow> char" where
  "lower_char c = (let n = of_char c :: nat in if 65 \<le> n \<and> n \<le> 90 then char_of (n + 32) else c)"

definition upper_char :: "char \<Rightarrow> char" where
  "upper_char c = (let n = of_char c :: nat in if 97 \<le> n \<and> n \<le> 122 then char_of (n - 32) else c)"

definition lower :: "string \<Rightarrow> string" where
  "lower s = map lower_char s"

definition upper :: "string \<Rightarrow> string" where
  "upper s = map upper_char s"

definition is_lower :: "char \<Rightarrow> bool" where
  "is_lower c \<longleftrightarrow> 97 \<le> (of_char c :: nat) \<and> (of_char c :: nat) \<le> 122"

definition is_upper :: "char \<Rightarrow> bool" where
  "is_upper c \<longleftrightarrow> 65 \<le> (of_char c :: nat) \<and> (of_char c :: nat) \<le> 90"

definition is_alnum :: "char \<Rightarrow> bool" where
  "is_alnum c \<longleftrightarrow> is_lower c \<or> is_upper c \<or> is_digit c"

text \<open>Tab, line feed, vertical tab, form feed, carriage return and space.\<close>

definition is_space :: "char \<Rightarrow> bool" where
  "is_space c \<longleftrightarrow> (let n = of_char c :: nat in n = 32 \<or> (9 \<le> n \<and> n \<le> 13))"

definition trim_left :: "(char \<Rightarrow> bool) \<Rightarrow> string \<Rightarrow> string" where
  "trim_left P s = dropWhile P s"

definition trim_right :: "(char \<Rightarrow> bool) \<Rightarrow> string \<Rightarrow> string" where
  "trim_right P s = rev (dropWhile P (rev s))"

definition trim_chars :: "(char \<Rightarrow> bool) \<Rightarrow> string \<Rightarrow> string" where
  "trim_chars P s = trim_right P (trim_left P s)"

definition trim :: "string \<Rightarrow> string" where
  "trim s = trim_chars is_space s"

definition starts_with :: "string \<Rightarrow> string \<Rightarrow> bool" where
  "starts_with p s \<longleftrightarrow> take (length p) s = p"

definition ends_with :: "string \<Rightarrow> string \<Rightarrow> bool" where
  "ends_with p s \<longleftrightarrow> length p \<le> length s \<and> drop (length s - length p) s = p"

fun str_includes :: "string \<Rightarrow> string \<Rightarrow> bool" where
  "str_includes p [] = (p = [])"
| "str_includes p (c # s) = (starts_with p (c # s) \<or> str_includes p s)"

text \<open>\<^verbatim>\<open>s.split(c)\<close> for a one-character separator: always at least one piece.\<close>

fun split_on :: "char \<Rightarrow> string \<Rightarrow> string list" where
  "split_on d [] = [[]]"
| "split_on d (c # s) =
     (if c = d then [] # split_on d s
      else (case split_on d s of [] \<Rightarrow> [[c]] | p # ps \<Rightarrow> (c # p) # ps))"

fun join :: "string \<Rightarrow> string list \<Rightarrow> string" where
  "join d [] = []"
| "join d [s] = s"
| "join d (s # ss) = s @ d @ join d ss"

definition replace_char :: "char \<Rightarrow> string \<Rightarrow> string \<Rightarrow> string" where
  "replace_char d r s = concat (map (\<lambda>c. if c = d then r else [c]) s)"

lemma split_on_not_Nil: "split_on d s \<noteq> []"
  by (induction s) (auto split: list.splits)

lemma join_Cons: "ss \<noteq> [] \<Longrightarrow> join d (s # ss) = s @ d @ join d ss"
  by (cases ss) simp_all

lemma join_split_on: "join [d] (split_on d s) = s"
proof (induction s)
  case (Cons c s)
  obtain p ps where sp: "split_on d s = p # ps"
    using split_on_not_Nil by (cases "split_on d s") auto
  show ?case
    using Cons sp by (cases ps) auto
qed simp

lemma split_on_no_sep: "p \<in> set (split_on d s) \<Longrightarrow> d \<notin> set p"
proof (induction s arbitrary: p)
  case (Cons c s)
  then show ?case
    by (cases "split_on d s") (auto split: if_splits)
qed simp

lemma split_on_single: "d \<notin> set s \<Longrightarrow> split_on d s = [s]"
  by (induction s) auto

lemma split_on_append: "d \<notin> set p \<Longrightarrow> split_on d (p @ d # s) = p # split_on d s"
  by (induction p) auto

lemma split_on_join:
  "ps \<noteq> [] \<Longrightarrow> (\<forall>p \<in> set ps. d \<notin> set p) \<Longrightarrow> split_on d (join [d] ps) = ps"
proof (induction "[d]" ps rule: join.induct)
  case (3 s v va)
  then show ?case by (simp add: split_on_append)
qed (simp_all add: split_on_single)

lemma trim_right_last: "trim_right P s \<noteq> [] \<Longrightarrow> \<not> P (last (trim_right P s))"
  unfolding trim_right_def
  by (metis hd_dropWhile last_rev rev_is_Nil_conv)

lemma lower_char_idem [simp]: "lower_char (lower_char c) = lower_char c"
proof -
  have "of_char (char_of (n + 32) :: char) = n + 32" if "n \<le> 90" for n :: nat
    using that by simp
  then show ?thesis
    by (auto simp: lower_char_def Let_def)
qed

lemma lower_idem [simp]: "lower (lower s) = lower s"
  by (simp add: lower_def)

subsection \<open>\<^verbatim>\<open>Number(text)\<close>\<close>

text \<open>
  Surrounding white space is dropped and the empty text is 0; a binary, octal or hexadecimal
  literal takes no sign; a decimal literal is an optional sign, digits with an optional
  point (at least one digit), and an optional exponent, or \<^verbatim>\<open>Infinity\<close>. Anything else is
  \<open>NaN\<close>. A magnitude of at least \<open>2\<^sup>1\<^sup>0\<^sup>2\<^sup>4 - 2\<^sup>9\<^sup>7\<^sup>0\<close> is an infinity.
\<close>

definition js_big :: rat where
  "js_big =
     179769313486231580793728971405303415079934132710037826936173778980444968292764750946649017977587207096330286416692887910946555547851940402630657488671505820681908902000708383676273854845817711531764475730270069855571366959622842914819860834936475292719074168444365510704342711559699508093042880177904174497792"

lemma js_big_eq: "js_big = 2 ^ 1024 - 2 ^ 970"
  by (simp add: js_big_def)

definition js_of_rat :: "rat \<Rightarrow> jsnum" where
  "js_of_rat r =
     (if r \<ge> js_big then JPInf else if r \<le> - js_big then JNInf else JFin r)"

definition exponent_part :: "string \<Rightarrow> int option" where
  "exponent_part s =
     (let (neg, ds) = (case s of c # t \<Rightarrow> if c = CHR ''-'' then (True, t)
                                  else if c = CHR ''+'' then (False, t) else (False, s)
                        | [] \<Rightarrow> (False, []))
      in if ds = [] \<or> \<not> list_all is_digit ds then None
         else Some (if neg then - int (digits_val ds) else int (digits_val ds)))"

definition scale10 :: "rat \<Rightarrow> int \<Rightarrow> rat" where
  "scale10 r e = (if e < 0 then r / 10 ^ nat (- e) else r * 10 ^ nat e)"

definition unsigned_decimal :: "string \<Rightarrow> rat option" where
  "unsigned_decimal s =
     (let ip = takeWhile is_digit s; r = dropWhile is_digit s;
          (fp, r2) = (case r of c # t \<Rightarrow> if c = CHR ''.'' then (takeWhile is_digit t, dropWhile is_digit t)
                                  else ([], r)
                       | [] \<Rightarrow> ([], []));
          m = of_nat (digits_val (ip @ fp)) / 10 ^ length fp
      in if ip = [] \<and> fp = [] then None
         else (case r2 of [] \<Rightarrow> Some m
           | c # t \<Rightarrow> if c = CHR ''e'' \<or> c = CHR ''E''
                     then map_option (scale10 m) (exponent_part t) else None))"

definition unsigned_number :: "string \<Rightarrow> jsnum option" where
  "unsigned_number s = (if s = ''Infinity'' then Some JPInf else map_option js_of_rat (unsigned_decimal s))"

definition radix_digit :: "char \<Rightarrow> nat" where
  "radix_digit c = (if is_digit c then digit_val c
     else if is_lower c then of_char c - 87 else if is_upper c then of_char c - 55 else 99)"

definition radix_number :: "nat \<Rightarrow> string \<Rightarrow> jsnum" where
  "radix_number b s = (if s = [] \<or> list_ex (\<lambda>c. b \<le> radix_digit c) s then JNaN
     else js_of_rat (of_nat (foldl (\<lambda>a c. b * a + radix_digit c) 0 s)))"

definition text_number :: "string \<Rightarrow> jsnum" where
  "text_number text =
     (let s = trim text
      in if s = [] then JFin 0
         else if take 2 s \<in> {''0x'', ''0X''} then radix_number 16 (drop 2 s)
         else if take 2 s \<in> {''0o'', ''0O''} then radix_number 8 (drop 2 s)
         else if take 2 s \<in> {''0b'', ''0B''} then radix_number 2 (drop 2 s)
         else if hd s = CHR ''-'' then (case unsigned_number (tl s) of None \<Rightarrow> JNaN | Some x \<Rightarrow> - x)
         else if hd s = CHR ''+'' then (case unsigned_number (tl s) of None \<Rightarrow> JNaN | Some x \<Rightarrow> x)
         else (case unsigned_number s of None \<Rightarrow> JNaN | Some x \<Rightarrow> x))"

lemmas text_number_eval =
  text_number_def trim_def trim_chars_def trim_right_def trim_left_def is_space_def
  unsigned_number_def unsigned_decimal_def exponent_part_def scale10_def radix_number_def
  radix_digit_def is_digit_def is_lower_def is_upper_def digits_val_def digit_val_def
  js_of_rat_def js_big_def Let_def

declare text_number_eval [js_simps]

lemma text_number_decimal: "text_number '' 12.50 '' = JFin (25 / 2)"
  by (simp add: js_simps)

lemma text_number_hex: "text_number ''0x2ee1'' = JFin 12001"
  by (simp add: js_simps)

lemma text_number_junk: "text_number ''12abc'' = JNaN"
  by (simp add: js_simps)

lemma text_number_exponent: "text_number ''-1e3'' = JFin (- 1000)"
  by (simp add: js_simps)


end
