(* ===== verification/JsonValue.thy ===== *)
theory JsonValue
  imports JsText
begin

text \<open>
  JavaScript values as the sources meet them after \<^verbatim>\<open>JSON.parse\<close>, with \<open>undefined\<close> added for a
  missing property, and the coercions the sources apply to them. An object is an association
  list in insertion order with distinct keys; properties inherited from the prototypes are
  not represented.
\<close>

datatype json =
    JUndef
  | JNull
  | JBool bool
  | JNum jsnum
  | JStr string
  | JArr "json list"
  | JObj "(string \<times> json) list"

datatype js_error = TypeError | RangeError | Thrown string

definition is_object :: "json \<Rightarrow> bool" where
  \<comment> \<open>\<^verbatim>\<open>v && typeof v === "object"\<close>\<close>
  "is_object v = (case v of JArr _ \<Rightarrow> True | JObj _ \<Rightarrow> True | _ \<Rightarrow> False)"

definition is_plain_object :: "json \<Rightarrow> bool" where
  "is_plain_object v = (case v of JObj _ \<Rightarrow> True | _ \<Rightarrow> False)"

definition nullish :: "json \<Rightarrow> bool" where
  "nullish v = (case v of JUndef \<Rightarrow> True | JNull \<Rightarrow> True | _ \<Rightarrow> False)"

definition truthy :: "json \<Rightarrow> bool" where
  "truthy v = (case v of JUndef \<Rightarrow> False | JNull \<Rightarrow> False | JBool b \<Rightarrow> b
     | JNum x \<Rightarrow> \<not> (x = JFin 0 \<or> x = JNaN) | JStr s \<Rightarrow> s \<noteq> [] | _ \<Rightarrow> True)"

text \<open>An array answers a canonical index below its length, and \<^verbatim>\<open>length\<close>.\<close>

definition array_field :: "json list \<Rightarrow> string \<Rightarrow> json" where
  "array_field xs k =
     (if k = ''length'' then JNum (JFin (of_nat (length xs)))
      else if k \<noteq> [] \<and> list_all is_digit k \<and> k = nat_text (digits_val k) \<and> digits_val k < length xs
      then xs ! digits_val k else JUndef)"

definition field :: "json \<Rightarrow> string \<Rightarrow> json" where
  "field v k = (case v of
       JObj m \<Rightarrow> (case jm_get m k of None \<Rightarrow> JUndef | Some w \<Rightarrow> w)
     | JArr xs \<Rightarrow> array_field xs k
     | _ \<Rightarrow> JUndef)"

definition has_field :: "json \<Rightarrow> string \<Rightarrow> bool" where
  "has_field v k = (case v of
       JObj m \<Rightarrow> jm_has m k
     | JArr xs \<Rightarrow> k = ''length'' \<or> array_field xs k \<noteq> JUndef
     | _ \<Rightarrow> False)"

text \<open>A property read that throws on \<open>null\<close> and \<open>undefined\<close>.\<close>

definition read_field :: "json \<Rightarrow> string \<Rightarrow> js_error + json" where
  "read_field v k = (if nullish v then Inl TypeError else Inr (field v k))"

fun as_str :: "json \<Rightarrow> string option" where
  "as_str (JStr s) = Some s"
| "as_str _ = None"

fun as_num :: "json \<Rightarrow> jsnum option" where
  "as_num (JNum x) = Some x"
| "as_num _ = None"

fun as_arr :: "json \<Rightarrow> json list option" where
  "as_arr (JArr xs) = Some xs"
| "as_arr _ = None"

fun as_bool :: "json \<Rightarrow> bool option" where
  "as_bool (JBool b) = Some b"
| "as_bool _ = None"

definition str_or :: "string \<Rightarrow> json \<Rightarrow> string" where
  "str_or d v = (case v of JStr s \<Rightarrow> s | _ \<Rightarrow> d)"

text \<open>\<^verbatim>\<open>Object.entries\<close> of an object or an array.\<close>

definition entries :: "json \<Rightarrow> (string \<times> json) list" where
  "entries v = (case v of JObj m \<Rightarrow> m
     | JArr xs \<Rightarrow> map (\<lambda>i. (nat_text i, xs ! i)) [0..<length xs] | _ \<Rightarrow> [])"

text \<open>
  \<^verbatim>\<open>Number(v)\<close>. An array is joined to text first: no element gives 0, one element its own
  text (empty for a nullish one), two or more contain a comma.
\<close>

fun element_number :: "json \<Rightarrow> jsnum" where
  "element_number JUndef = JFin 0"
| "element_number JNull = JFin 0"
| "element_number (JBool b) = JNaN"
| "element_number (JNum x) = x"
| "element_number (JStr s) = text_number s"
| "element_number (JArr []) = JFin 0"
| "element_number (JArr [v]) = element_number v"
| "element_number (JArr _) = JNaN"
| "element_number (JObj _) = JNaN"

fun to_number :: "json \<Rightarrow> jsnum" where
  "to_number JUndef = JNaN"
| "to_number JNull = JFin 0"
| "to_number (JBool b) = (if b then JFin 1 else JFin 0)"
| "to_number (JNum x) = x"
| "to_number (JStr s) = text_number s"
| "to_number (JArr xs) = element_number (JArr xs)"
| "to_number (JObj _) = JNaN"

lemma is_object_simps [simp]:
  "is_object (JArr xs)" "is_object (JObj m)" "\<not> is_object JUndef" "\<not> is_object JNull"
  "\<not> is_object (JBool b)" "\<not> is_object (JNum x)" "\<not> is_object (JStr s)"
  by (simp_all add: is_object_def)

lemma nullish_simps [simp]:
  "nullish JUndef" "nullish JNull" "\<not> nullish (JBool b)" "\<not> nullish (JNum x)"
  "\<not> nullish (JStr s)" "\<not> nullish (JArr xs)" "\<not> nullish (JObj m)"
  by (simp_all add: nullish_def)

lemma truthy_simps [simp]:
  "\<not> truthy JUndef" "\<not> truthy JNull" "truthy (JBool b) = b" "truthy (JStr s) = (s \<noteq> [])"
  "truthy (JArr xs)" "truthy (JObj m)"
  by (simp_all add: truthy_def)

lemma field_JObj: "field (JObj m) k = (case jm_get m k of None \<Rightarrow> JUndef | Some w \<Rightarrow> w)"
  by (simp add: field_def)

lemma has_field_JObj: "has_field (JObj m) p \<longleftrightarrow> jm_get m p \<noteq> None"
  by (simp add: has_field_def jm_has_iff)

lemma field_JObj_Nil [simp]: "field (JObj []) k = JUndef"
  by (simp add: field_JObj jm_get_def)

lemma field_JObj_Cons [simp]:
  "field (JObj ((a, v) # m)) k = (if k = a then v else field (JObj m) k)"
  by (simp add: field_JObj jm_get_def)

lemma field_other [simp]:
  "field JUndef k = JUndef" "field JNull k = JUndef" "field (JBool b) k = JUndef"
  "field (JNum x) k = JUndef" "field (JStr s) k = JUndef"
  by (simp_all add: field_def)

lemma as_str_iff [simp]: "as_str v = Some s \<longleftrightarrow> v = JStr s"
  by (cases v) auto

lemma as_num_iff [simp]: "as_num v = Some x \<longleftrightarrow> v = JNum x"
  by (cases v) auto

lemma as_arr_iff [simp]: "as_arr v = Some xs \<longleftrightarrow> v = JArr xs"
  by (cases v) auto


subsection \<open>Through \<^verbatim>\<open>JSON.stringify\<close> and back\<close>

text \<open>
  A property that is \<open>undefined\<close> is left out, an \<open>undefined\<close> array element and a number that is
  not finite become \<open>null\<close>. A value that is unchanged is \<open>sendable\<close>.
\<close>

fun wire :: "json \<Rightarrow> json" where
  "wire (JNum x) = (if js_finite x then JNum x else JNull)"
| "wire (JArr xs) = JArr (map (\<lambda>v. if v = JUndef then JNull else wire v) xs)"
| "wire (JObj m) = JObj (map (\<lambda>(k, v). (k, wire v)) (filter (\<lambda>(k, v). v \<noteq> JUndef) m))"
| "wire v = v"

definition sendable :: "json \<Rightarrow> bool" where
  "sendable v \<longleftrightarrow> wire v = v"

lemma wire_undef [simp]: "wire v = JUndef \<longleftrightarrow> v = JUndef"
  by (cases v) auto

lemma field_wire: "jm_ok m \<Longrightarrow> field (wire (JObj m)) k = wire (field (JObj m) k)"
  using jm_get_filter [of m "\<lambda>(_, v). v \<noteq> JUndef" k]
  by (auto simp: field_JObj jm_get_def map_of_map split: option.splits)

lemma wire_idem [simp]: "wire (wire v) = wire v"
proof (induction v rule: wire.induct)
  case (2 xs)
  then show ?case by auto
next
  case (3 m)
  then show ?case by (auto simp: filter_map comp_def case_prod_unfold intro!: map_cong)
qed auto

lemma sendable_num [simp]: "sendable (JNum x) \<longleftrightarrow> js_finite x"
  by (simp add: sendable_def)

lemma sendable_obj: "sendable (JObj m) \<Longrightarrow> (k, v) \<in> set m \<Longrightarrow> sendable v"
proof -
  assume s: "sendable (JObj m)" and kv: "(k, v) \<in> set m"
  let ?f = "filter (\<lambda>(k, v). v \<noteq> JUndef) m"
  have eq: "map (\<lambda>(k, v). (k, wire v)) ?f = m" using s by (simp add: sendable_def)
  have "length ?f = length m" using arg_cong [OF eq, of length] by simp
  then have "?f = m" by (metis (no_types, lifting) filter_id_conv length_filter_less less_irrefl)
  then have "map (\<lambda>(k, v). (k, wire v)) m = map id m" using eq by simp
  then have "(\<lambda>(k, v). (k, wire v)) (k, v) = id (k, v)" using kv by (simp only: map_eq_conv)
  then show "sendable v" by (simp add: sendable_def)
qed

lemma sendable_objI: "(\<And>k v. (k, v) \<in> set m \<Longrightarrow> v \<noteq> JUndef \<and> sendable v) \<Longrightarrow> sendable (JObj m)"
proof -
  assume a: "\<And>k v. (k, v) \<in> set m \<Longrightarrow> v \<noteq> JUndef \<and> sendable v"
  then have "filter (\<lambda>(k, v). v \<noteq> JUndef) m = m" by (auto simp: filter_id_conv)
  moreover have "map (\<lambda>(k, v). (k, wire v)) m = m"
    using a by (intro map_idI) (auto simp: sendable_def)
  ultimately show "sendable (JObj m)" by (simp add: sendable_def)
qed

lemma sendable_obj_defined: "sendable (JObj m) \<Longrightarrow> (k, v) \<in> set m \<Longrightarrow> v \<noteq> JUndef"
proof
  assume s: "sendable (JObj m)" and kv: "(k, v) \<in> set m" and u: "v = JUndef"
  have "map (\<lambda>(k, v). (k, wire v)) (filter (\<lambda>(k, v). v \<noteq> JUndef) m) = m"
    using s by (simp add: sendable_def)
  then have "length (filter (\<lambda>(k, v). v \<noteq> JUndef) m) = length m" by (metis length_map)
  moreover have "length (filter (\<lambda>(k, v). v \<noteq> JUndef) m) < length m"
    using kv u by (intro length_filter_less [of "(k, v)"]) auto
  ultimately show False by simp
qed

lemma sendable_arrI: "(\<And>v. v \<in> set xs \<Longrightarrow> v \<noteq> JUndef \<and> sendable v) \<Longrightarrow> sendable (JArr xs)"
  by (auto simp: sendable_def intro!: map_idI)

lemma sendable_arr: "sendable (JArr xs) \<Longrightarrow> v \<in> set xs \<Longrightarrow> sendable v"
proof -
  assume s: "sendable (JArr xs)" and v: "v \<in> set xs"
  have "map (\<lambda>v. if v = JUndef then JNull else wire v) xs = map id xs"
    using s by (simp add: sendable_def)
  then have "(if v = JUndef then JNull else wire v) = v" using v by (simp only: map_eq_conv) simp
  then show "sendable v" by (auto simp: sendable_def split: if_splits)
qed

lemma sendable_undef [simp]: "sendable JUndef"
  by (simp add: sendable_def)

lemma sendable_field: "sendable v \<Longrightarrow> sendable (field v k)"
proof (cases v)
  case (JObj m)
  assume "sendable v"
  then show ?thesis
    using sendable_obj [of m k] by (auto simp: JObj field_JObj dest!: jm_get_in_set split: option.splits)
next
  case (JArr xs)
  assume "sendable v"
  then show ?thesis
    using sendable_arr [of xs] by (auto simp: JArr field_def array_field_def)
qed auto

lemma sendable_wire: "sendable (wire v)"
  by (simp add: sendable_def)

subsection \<open>Validators of stored values\<close>

text \<open>
  A component that keeps values as JSON reads them back through a lenient validator. The
  contract: what the validator returns is well formed, and a well-formed value survives
  printing, the transport and the validator.
\<close>

locale stored_value =
  fixes parse :: "json \<Rightarrow> 'a option"
    and print_value :: "'a \<Rightarrow> json"
    and ok :: "'a \<Rightarrow> bool"
  assumes parse_print: "ok x \<Longrightarrow> parse (wire (print_value x)) = Some x"
    and parse_ok: "sendable j \<Longrightarrow> parse j = Some x \<Longrightarrow> ok x"
begin

lemma parse_stable: "sendable j \<Longrightarrow> parse j = Some x \<Longrightarrow> parse (wire (print_value x)) = Some x"
  using parse_ok parse_print by blast

lemma parse_list:
  "list_all ok xs \<Longrightarrow> List.map_filter parse (map (\<lambda>x. wire (print_value x)) xs) = xs"
  by (induction xs) (auto simp: parse_print)

lemma parsed_list_ok: "list_all sendable js \<Longrightarrow> list_all ok (List.map_filter parse js)"
  by (induction js) (auto simp: parse_ok split: option.splits)

lemma reparse_list:
  "list_all sendable js \<Longrightarrow>
     List.map_filter parse (map (\<lambda>x. wire (print_value x)) (List.map_filter parse js)) = List.map_filter parse js"
  using parse_list parsed_list_ok by blast

end

end
