(* ===== verification/Presence.thy ===== *)
theory Presence
  imports JsonValue
begin

text \<open>
  Presence and leadership of the trackside clients, from
  \<^verbatim>\<open>app/api/motec/live/presence/route.ts\<close> (the server) and \<^verbatim>\<open>lib/trackside/usePresence.ts\<close>
  (what a browser makes of an answer).

  The server keeps the clients and the pending control requests in insertion order, an
  optional designated leader and a lock. A POST is one step, except \<^verbatim>\<open>force\<close>: the handler
  suspends while the session token is looked up, other requests may run in between, and
  \<open>force_resume\<close> is the rest of the handler. The clock is an argument of every step and is
  not assumed to be monotone.
\<close>

subsection \<open>State\<close>

record client =
  client_id :: string
  firstSeen :: int
  lastSeen :: int
  client_name :: string

record presence =
  clients :: "(string, client) jsmap"
  requests :: "(string, int) jsmap"
  designated :: "string option"
  locked :: bool

definition TTL_MS :: int where "TTL_MS = 12000"

definition MAX_CLIENTS :: nat where "MAX_CLIENTS = 3"

definition init_presence :: presence where
  "init_presence = \<lparr>clients = [], requests = [], designated = None, locked = False\<rparr>"

definition away :: "client option \<Rightarrow> int \<Rightarrow> bool" where
  "away c now = (case c of None \<Rightarrow> True | Some x \<Rightarrow> now - lastSeen x > TTL_MS)"

text \<open>\<^verbatim>\<open>state.designated\<close> in a condition: a string that is not empty.\<close>

definition designee :: "presence \<Rightarrow> string option" where
  "designee s = (case designated s of Some d \<Rightarrow> if d = [] then None else Some d | None \<Rightarrow> None)"

text \<open>The three statements of \<^verbatim>\<open>prune\<close>: silent clients go (the locked seat stays), requests of
  clients that are gone go, a designated leader that is gone is demoted.\<close>

definition prune_clients :: "int \<Rightarrow> presence \<Rightarrow> presence" where
  "prune_clients now s = s\<lparr>clients := filter
     (\<lambda>(i, c). \<not> (away (Some c) now \<and> \<not> (locked s \<and> designated s = Some i))) (clients s)\<rparr>"

definition prune_requests :: "presence \<Rightarrow> presence" where
  "prune_requests s = s\<lparr>requests := filter (\<lambda>(i, _). jm_has (clients s) i) (requests s)\<rparr>"

definition demote :: "presence \<Rightarrow> presence" where
  "demote s = (case designee s of
       Some d \<Rightarrow> if \<not> jm_has (clients s) d then s\<lparr>designated := None, locked := False\<rparr> else s
     | None \<Rightarrow> s)"

definition prune :: "int \<Rightarrow> presence \<Rightarrow> presence" where
  "prune now s = demote (prune_requests (prune_clients now s))"

definition earlier :: "client \<Rightarrow> client \<Rightarrow> bool" where
  "earlier c l \<longleftrightarrow> firstSeen c < firstSeen l
     \<or> (firstSeen c = firstSeen l \<and> client_id c < client_id l)"

fun first_claim :: "client option \<Rightarrow> client list \<Rightarrow> client option" where
  "first_claim l [] = l"
| "first_claim None (c # cs) = first_claim (Some c) cs"
| "first_claim (Some l) (c # cs) = first_claim (Some (if earlier c l then c else l)) cs"

definition leaderId :: "presence \<Rightarrow> string option" where
  "leaderId s = (case designee s of
       Some d \<Rightarrow> if jm_has (clients s) d then Some d
               else map_option client_id (first_claim None (map snd (clients s)))
     | None \<Rightarrow> map_option client_id (first_claim None (map snd (clients s))))"

subsection \<open>Answers\<close>

datatype role = RLeader | RMirror

record snapshot =
  snap_role :: role
  snap_leader :: "string option"
  snap_clients :: nat
  snap_max :: nat
  snap_requests :: "(string \<times> string) list"
  snap_requested :: bool
  snap_locked :: bool
  snap_leaderName :: string
  snap_leaderAway :: bool

datatype answer =
    ClientIdRequired
  | AnswerLeft nat "string option"
  | AnswerFull nat "string option"
  | Answer snapshot
  | Suspended string

definition name_of :: "presence \<Rightarrow> string \<Rightarrow> string" where
  "name_of s i = (case jm_get (clients s) i of None \<Rightarrow> [] | Some c \<Rightarrow> client_name c)"

definition leader_away :: "presence \<Rightarrow> string option \<Rightarrow> int \<Rightarrow> bool" where
  "leader_away s leader now \<longleftrightarrow> locked s
     \<and> away (case leader of None \<Rightarrow> None | Some l \<Rightarrow> if l = [] then None else jm_get (clients s) l) now"

definition take_snapshot :: "presence \<Rightarrow> string \<Rightarrow> int \<Rightarrow> snapshot" where
  "take_snapshot s clientId now =
     (let leader = leaderId s in
      \<lparr>snap_role = (if leader = Some clientId then RLeader else RMirror),
       snap_leader = leader,
       snap_clients = length (clients s),
       snap_max = MAX_CLIENTS,
       snap_requests = map (\<lambda>i. (i, name_of s i)) (jm_keys (requests s)),
       snap_requested = jm_has (requests s) clientId,
       snap_locked = locked s,
       snap_leaderName = (case leader of None \<Rightarrow> [] | Some l \<Rightarrow> if l = [] then [] else name_of s l),
       snap_leaderAway = leader_away s leader now\<rparr>)"

subsection \<open>The POST handler\<close>

definition unrequest :: "string \<Rightarrow> presence \<Rightarrow> presence" where
  "unrequest i s = s\<lparr>requests := jm_delete i (requests s)\<rparr>"

definition leave :: "string \<Rightarrow> presence \<Rightarrow> presence" where
  "leave i s0 =
     (let s = unrequest i s0 in
      if locked s \<and> designated s = Some i
      then (case jm_get (clients s) i of
              None \<Rightarrow> s
            | Some c \<Rightarrow> s\<lparr>clients := jm_set i (c\<lparr>lastSeen := 0\<rparr>) (clients s)\<rparr>)
      else let s' = s\<lparr>clients := jm_delete i (clients s)\<rparr>
           in if designated s' = Some i then s'\<lparr>designated := None\<rparr> else s')"

text \<open>\<open>None\<close> when the caller is new and the cap is reached.\<close>

definition register :: "string \<Rightarrow> string \<Rightarrow> int \<Rightarrow> presence \<Rightarrow> presence option" where
  "register i nm now s = (case jm_get (clients s) i of
       Some c \<Rightarrow> Some (s\<lparr>clients := jm_set i (c\<lparr>lastSeen := now,
                    client_name := (if nm \<noteq> [] then nm else client_name c)\<rparr>) (clients s)\<rparr>)
     | None \<Rightarrow>
         if length (clients s) < MAX_CLIENTS
         then Some (s\<lparr>clients := jm_set i
                \<lparr>client_id = i, firstSeen = now, lastSeen = now, client_name = nm\<rparr> (clients s)\<rparr>)
         else None)"

definition seize :: "string \<Rightarrow> presence \<Rightarrow> presence" where
  "seize i s = unrequest i (s\<lparr>designated := Some i\<rparr>)"

text \<open>The actions after registration, in the order of the handler's conditions.\<close>

definition act :: "string \<Rightarrow> json \<Rightarrow> json \<Rightarrow> int \<Rightarrow> presence \<Rightarrow> presence" where
  "act i action target now s =
     (let leader = leaderId s; lAway = leader_away s leader now in
      if action = JStr ''request'' then
        (if leader \<noteq> Some i then s\<lparr>requests := jm_set i now (requests s)\<rparr> else s)
      else if action = JStr ''grant'' \<and> as_str target \<noteq> None then
        (let t = the (as_str target) in
         if leader = Some i \<and> jm_has (clients s) t
         then unrequest t (s\<lparr>designated := Some t\<rparr>) else s)
      else if action = JStr ''deny'' \<and> as_str target \<noteq> None then
        (if leader = Some i then unrequest (the (as_str target)) s else s)
      else if action = JStr ''lock'' then
        (if leader = Some i then s\<lparr>designated := Some i, locked := True\<rparr> else s)
      else if action = JStr ''unlock'' then
        (if leader = Some i then s\<lparr>locked := False\<rparr> else s)
      else if action = JStr ''take'' then
        (if lAway then seize i s else s)
      else if action = JStr ''claim_starter'' \<and> (\<not> locked s \<or> lAway) then seize i s
      else s)"

definition post_client_id :: "json \<Rightarrow> string" where
  "post_client_id body = (case field body ''clientId'' of JStr s \<Rightarrow> s | _ \<Rightarrow> [])"

definition post_name :: "json \<Rightarrow> string" where
  "post_name body = take 40 (case field body ''name'' of JStr s \<Rightarrow> s | _ \<Rightarrow> [])"

text \<open>
  \<open>body\<close> is the parsed request, \<open>JObj []\<close> when it did not parse. Reading a property of a
  \<open>null\<close> body throws.
\<close>

definition post :: "json \<Rightarrow> int \<Rightarrow> presence \<Rightarrow> presence \<times> (js_error + answer)" where
  "post body now s0 =
     (if nullish body then (s0, Inl TypeError)
      else let i = post_client_id body; nm = post_name body in
      if i = [] then (s0, Inr ClientIdRequired)
      else let s = prune now s0 in
      if truthy (field body ''leave'')
      then (let s' = leave i s in (s', Inr (AnswerLeft (length (clients s')) (leaderId s'))))
      else case register i nm now s of
        None \<Rightarrow> (s, Inr (AnswerFull (length (clients s)) (leaderId s)))
      | Some s1 \<Rightarrow>
          if field body ''action'' = JStr ''force'' then (s1, Inr (Suspended i))
          else (let s2 = act i (field body ''action'') (field body ''target'') now s1
                in (s2, Inr (Answer (take_snapshot s2 i now)))))"

definition force_resume :: "string \<Rightarrow> bool \<Rightarrow> int \<Rightarrow> presence \<Rightarrow> presence \<times> answer" where
  "force_resume i isAdmin now s =
     (let s' = (if isAdmin then seize i s else s) in (s', Answer (take_snapshot s' i now)))"

subsection \<open>What a browser does with an answer\<close>

datatype client_role = CConnecting | CLeader | CMirror | CFull

record view =
  view_role :: client_role
  view_isMirror :: bool
  view_clients :: jsnum
  view_max :: jsnum
  view_leader :: json
  view_clientId :: string
  view_name :: string
  view_requests :: "json list"
  view_requested :: bool
  view_locked :: bool
  view_leaderName :: string
  view_leaderAway :: bool

definition init_view :: view where
  "init_view = \<lparr>view_role = CConnecting, view_isMirror = False, view_clients = JFin 1,
     view_max = JFin 3, view_leader = JNull, view_clientId = [], view_name = [],
     view_requests = [], view_requested = False, view_locked = False, view_leaderName = [],
     view_leaderAway = False\<rparr>"

definition answer_role :: "json \<Rightarrow> client_role" where
  "answer_role r = (if r = JStr ''leader'' then CLeader else if r = JStr ''mirror'' then CMirror
     else if r = JStr ''full'' then CFull else CLeader)"

definition apply_answer :: "json \<Rightarrow> string \<Rightarrow> string \<Rightarrow> view" where
  "apply_answer j clientId nm =
     (let role = answer_role (field j ''role'') in
      \<lparr>view_role = role,
       view_isMirror = (role = CMirror \<or> role = CFull),
       view_clients = (case field j ''clients'' of JNum x \<Rightarrow> x | _ \<Rightarrow> JFin 1),
       view_max = (case field j ''max'' of JNum x \<Rightarrow> x | _ \<Rightarrow> JFin 3),
       view_leader = (if nullish (field j ''leader'') then JNull else field j ''leader''),
       view_clientId = clientId,
       view_name = nm,
       view_requests = (case field j ''requests'' of JArr xs \<Rightarrow> xs | _ \<Rightarrow> []),
       view_requested = truthy (field j ''requested''),
       view_locked = truthy (field j ''locked''),
       view_leaderName = (case field j ''leaderName'' of JStr s \<Rightarrow> s | _ \<Rightarrow> []),
       view_leaderAway = truthy (field j ''leaderAway'')\<rparr>)"

text \<open>The request failed: the \<^verbatim>\<open>catch\<close> branch of \<^verbatim>\<open>post\<close>.\<close>

definition post_failed :: "view \<Rightarrow> view" where
  "post_failed p = p\<lparr>view_role := (if view_role p = CConnecting then CLeader else view_role p),
                     view_isMirror := False\<rparr>"

text \<open>The JSON text of a snapshot, as \<^verbatim>\<open>NextResponse.json\<close> sends it.\<close>

definition opt_json :: "string option \<Rightarrow> json" where
  "opt_json x = (case x of None \<Rightarrow> JNull | Some s \<Rightarrow> JStr s)"

definition snapshot_json :: "snapshot \<Rightarrow> json" where
  "snapshot_json n = JObj
     [(''role'', JStr (if snap_role n = RLeader then ''leader'' else ''mirror'')),
      (''leader'', opt_json (snap_leader n)),
      (''clients'', JNum (JFin (of_nat (snap_clients n)))),
      (''max'', JNum (JFin (of_nat (snap_max n)))),
      (''requests'', JArr (map (\<lambda>(i, nm). JObj [(''id'', JStr i), (''name'', JStr nm)]) (snap_requests n))),
      (''requested'', JBool (snap_requested n)),
      (''locked'', JBool (snap_locked n)),
      (''leaderName'', JStr (snap_leaderName n)),
      (''leaderAway'', JBool (snap_leaderAway n))]"


subsection \<open>The invariant of the server's state\<close>

definition presence_ok :: "presence \<Rightarrow> bool" where
  "presence_ok s \<longleftrightarrow> jm_ok (clients s) \<and> jm_ok (requests s)
     \<and> length (clients s) \<le> MAX_CLIENTS
     \<and> (\<forall>i c. jm_get (clients s) i = Some c \<longrightarrow> client_id c = i)
     \<and> \<not> jm_has (clients s) []
     \<and> (\<forall>i. jm_has (requests s) i \<longrightarrow> jm_has (clients s) i)
     \<and> (locked s \<longrightarrow> designated s \<noteq> None)
     \<and> designated s \<noteq> Some []"

named_theorems presence_steps \<open>the building blocks of the handler keep the invariant\<close>

lemma presence_okI:
  assumes "jm_ok (clients s)" "jm_ok (requests s)" "length (clients s) \<le> MAX_CLIENTS"
    and "\<And>i c. jm_get (clients s) i = Some c \<Longrightarrow> client_id c = i"
    and "\<not> jm_has (clients s) []"
    and "\<And>i. jm_has (requests s) i \<Longrightarrow> jm_has (clients s) i"
    and "locked s \<Longrightarrow> designated s \<noteq> None" "designated s \<noteq> Some []"
  shows "presence_ok s"
  using assms by (simp add: presence_ok_def)

lemma presence_okD:
  assumes "presence_ok s"
  shows "jm_ok (clients s)" "jm_ok (requests s)" "length (clients s) \<le> MAX_CLIENTS"
    and "jm_get (clients s) i = Some c \<Longrightarrow> client_id c = i"
    and "\<not> jm_has (clients s) []"
    and "jm_has (requests s) i \<Longrightarrow> jm_has (clients s) i"
    and "locked s \<Longrightarrow> designated s \<noteq> None" "designated s \<noteq> Some []"
  using assms by (simp_all add: presence_ok_def)

lemma jm_has_set: "jm_has (jm_set k v m) i \<longleftrightarrow> i = k \<or> jm_has m i"
  by (auto simp: jm_has_iff jm_get_set)

lemma jm_has_delete: "jm_has (jm_delete k m) i \<longleftrightarrow> i \<noteq> k \<and> jm_has m i"
  by (auto simp: jm_has_iff jm_get_delete)

lemma jm_has_filter_key:
  "jm_has (filter (\<lambda>(i, _). Q i) m) i \<longleftrightarrow> Q i \<and> jm_has m i"
  by (auto simp: jm_has_def image_iff split: prod.splits) force

lemma designee_ok: "presence_ok s \<Longrightarrow> designee s = designated s"
  by (auto simp: designee_def presence_ok_def split: option.splits)

lemma presence_ok_init: "presence_ok init_presence"
  by (simp add: presence_ok_def init_presence_def jm_get_def jm_has_def)

lemma presence_ok_unrequest [presence_steps]: "presence_ok s \<Longrightarrow> presence_ok (unrequest i s)"
  by (rule presence_okI)
     (auto simp: unrequest_def jm_ok_delete jm_has_delete dest: presence_okD)

lemma presence_ok_prune_lists:
  assumes ok: "presence_ok s"
  shows "presence_ok (prune_requests (prune_clients now s))"
proof (rule presence_okI, goal_cases)
  case 3
  show ?case
    using presence_okD(3)[OF ok] le_trans [OF length_filter_le]
    by (simp add: prune_requests_def prune_clients_def)
next
  case (4 i c)
  then show ?case
    using presence_okD(1,4)[OF ok]
    by (auto simp: prune_requests_def prune_clients_def jm_get_filter split: option.splits if_splits)
next
  case 5
  show ?case
    using presence_okD(1,5)[OF ok]
    by (auto simp: prune_requests_def prune_clients_def jm_has_iff jm_get_filter split: option.splits)
next
  case (6 i)
  then show ?case by (simp add: prune_requests_def jm_has_filter_key)
qed (use presence_okD[OF ok] in \<open>simp_all add: prune_requests_def prune_clients_def jm_ok_filter\<close>)

lemma presence_ok_demote: "presence_ok s \<Longrightarrow> presence_ok (demote s)"
  by (simp add: demote_def presence_ok_def split: option.splits)

lemma presence_ok_prune [presence_steps]: "presence_ok s \<Longrightarrow> presence_ok (prune now s)"
  by (simp add: prune_def presence_ok_demote presence_ok_prune_lists)

lemma presence_ok_store_client:
  assumes ok: "presence_ok s" and c: "client_id c = i" "i \<noteq> []"
    and len: "length (jm_set i c (clients s)) \<le> MAX_CLIENTS"
  shows "presence_ok (s\<lparr>clients := jm_set i c (clients s)\<rparr>)"
  using presence_okD[OF ok] c len
  by (intro presence_okI) (simp_all add: jm_ok_set jm_get_set jm_has_set split: if_splits)

lemma presence_ok_delete_client:
  assumes ok: "presence_ok s" and gone: "\<not> jm_has (requests s) i"
  shows "presence_ok (s\<lparr>clients := jm_delete i (clients s)\<rparr>)"
  using presence_okD[OF ok] gone order_trans [OF length_jm_delete_le presence_okD(3)[OF ok]]
  by (intro presence_okI) (auto simp: jm_ok_delete jm_get_delete jm_has_delete split: if_splits)

lemma presence_ok_undesignate: "presence_ok s \<Longrightarrow> \<not> locked s \<Longrightarrow> presence_ok (s\<lparr>designated := None\<rparr>)"
  by (simp add: presence_ok_def)

lemma presence_ok_leave [presence_steps]:
  assumes "presence_ok s0" "i \<noteq> []"
  shows "presence_ok (leave i s0)"
proof -
  let ?s = "unrequest i s0" and ?d = "(unrequest i s0)\<lparr>clients := jm_delete i (clients (unrequest i s0))\<rparr>"
  have ok: "presence_ok ?s" using assms(1) by (rule presence_ok_unrequest)
  have del: "presence_ok ?d"
    by (rule presence_ok_delete_client [OF ok]) (simp add: unrequest_def jm_has_delete)
  have keep: "presence_ok (?s\<lparr>clients := jm_set i (c\<lparr>lastSeen := 0\<rparr>) (clients ?s)\<rparr>)"
    if c: "jm_get (clients ?s) i = Some c" for c
    by (rule presence_ok_store_client [OF ok])
       (use c assms(2) presence_okD[OF ok] in \<open>simp_all add: length_jm_set_old\<close>)
  show ?thesis
  proof (cases "locked ?s \<and> designated ?s = Some i")
    case True
    then show ?thesis using ok keep by (simp add: leave_def Let_def split: option.splits)
  next
    case False
    then show ?thesis
      using del presence_ok_undesignate [OF del] by (auto simp: leave_def Let_def)
  qed
qed

lemma register_cases:
  assumes "register i nm now s = Some s'"
  obtains c where "s' = s\<lparr>clients := jm_set i c (clients s)\<rparr>" "lastSeen c = now"
    and "jm_get (clients s) i = None \<and> length (clients s) < MAX_CLIENTS \<and> client_id c = i
       \<or> (\<exists>c0. jm_get (clients s) i = Some c0 \<and> client_id c = client_id c0 \<and> firstSeen c = firstSeen c0)"
  using assms by (fastforce simp: register_def split: option.splits if_splits)

lemma presence_ok_register:
  assumes ok: "presence_ok s" and i: "i \<noteq> []" and r: "register i nm now s = Some s'"
  shows "presence_ok s'"
  using r
proof (cases rule: register_cases)
  case (1 c)
  have "client_id c = i" using 1(3) presence_okD(4)[OF ok] by auto
  moreover have "length (jm_set i c (clients s)) \<le> MAX_CLIENTS"
    using 1(3) presence_okD(3)[OF ok] by (auto simp: length_jm_set_new length_jm_set_old)
  ultimately show ?thesis using presence_ok_store_client [OF ok _ i] 1(1) by simp
qed

lemma register_frame:
  assumes "register i nm now s = Some s'"
  shows "jm_has (clients s') i" "designated s' = designated s" "locked s' = locked s"
    and "k \<noteq> i \<Longrightarrow> jm_get (clients s') k = jm_get (clients s) k"
    and "jm_has (clients s) k \<Longrightarrow> jm_has (clients s') k"
  using assms by (auto elim!: register_cases simp: jm_has_set jm_get_set)

lemma presence_ok_designate [presence_steps]:
  "presence_ok s \<Longrightarrow> i \<noteq> [] \<Longrightarrow> presence_ok (s\<lparr>designated := Some i\<rparr>)"
  by (simp add: presence_ok_def)

lemma presence_ok_seize [presence_steps]: "presence_ok s \<Longrightarrow> i \<noteq> [] \<Longrightarrow> presence_ok (seize i s)"
  by (simp add: seize_def presence_ok_unrequest presence_ok_designate)

lemma presence_ok_request [presence_steps]:
  assumes ok: "presence_ok s" and "jm_has (clients s) i"
  shows "presence_ok (s\<lparr>requests := jm_set i now (requests s)\<rparr>)"
  using presence_okD[OF ok] assms(2)
  by (intro presence_okI) (auto simp: jm_ok_set jm_has_set)

lemma presence_ok_lock [presence_steps]:
  "presence_ok s \<Longrightarrow> i \<noteq> [] \<Longrightarrow> presence_ok (s\<lparr>designated := Some i, locked := True\<rparr>)"
  by (simp add: presence_ok_def)

lemma presence_ok_unlock [presence_steps]: "presence_ok s \<Longrightarrow> presence_ok (s\<lparr>locked := False\<rparr>)"
  by (simp add: presence_ok_def)

lemma has_client_not_Nil: "presence_ok s \<Longrightarrow> jm_has (clients s) t \<Longrightarrow> t \<noteq> []"
  by (auto simp: presence_ok_def)

lemma presence_ok_if:
  "(c \<Longrightarrow> presence_ok a) \<Longrightarrow> (\<not> c \<Longrightarrow> presence_ok b) \<Longrightarrow> presence_ok (if c then a else b)"
  by simp

lemma presence_ok_act [presence_steps]:
  assumes "presence_ok s" "jm_has (clients s) i"
  shows "presence_ok (act i action target now s)"
  unfolding act_def Let_def
  by (intro presence_ok_if presence_steps)
     (use assms has_client_not_Nil [OF assms] has_client_not_Nil [OF assms(1)] in auto)

lemma presence_ok_post:
  assumes ok: "presence_ok s0" and p: "post body now s0 = (s', r)"
  shows "presence_ok s' \<and> (\<forall>i. r = Inr (Suspended i) \<longrightarrow> i \<noteq> [])"
proof -
  let ?i = "post_client_id body" and ?s = "prune now s0"
  have okp: "presence_ok ?s" using ok by (rule presence_ok_prune)
  consider "nullish body \<or> ?i = []" | "\<not> nullish body" "?i \<noteq> []" "truthy (field body ''leave'')"
    | "\<not> nullish body" "?i \<noteq> []" "\<not> truthy (field body ''leave'')" "register ?i (post_name body) now ?s = None"
    | s1 where "\<not> nullish body" "?i \<noteq> []" "\<not> truthy (field body ''leave'')"
        "register ?i (post_name body) now ?s = Some s1"
    by (cases "register ?i (post_name body) now ?s") blast+
  then show ?thesis
  proof cases
    case 4
    have "presence_ok s1" "jm_has (clients s1) ?i"
      using presence_ok_register [OF okp 4(2,4)] register_frame [OF 4(4)] by simp_all
    with 4 p show ?thesis
      by (auto simp: post_def Let_def presence_ok_act split: if_splits)
  qed (use p ok okp in \<open>auto simp: post_def Let_def presence_ok_leave split: if_splits\<close>)
qed


subsection \<open>Leadership\<close>

lemma first_claim_in:
  "first_claim l cs = Some c \<Longrightarrow> c \<in> set cs \<or> l = Some c"
  by (induction l cs rule: first_claim.induct) (auto split: if_splits)

lemma first_claim_Some: "first_claim (Some l) cs \<noteq> None"
  by (induction "Some l" cs arbitrary: l rule: first_claim.induct) auto

lemma first_claim_None: "first_claim None cs = None \<longleftrightarrow> cs = []"
  by (cases cs) (auto simp: first_claim_Some)

lemma first_claim_client:
  assumes "presence_ok s" and "first_claim None (map snd (clients s)) = Some c"
  shows "jm_get (clients s) (client_id c) = Some c"
proof -
  obtain k where k: "(k, c) \<in> set (clients s)"
    using first_claim_in [OF assms(2)] by auto
  then have "jm_get (clients s) k = Some c"
    using presence_okD(1) [OF assms(1)] by (rule in_set_jm_get [rotated])
  with presence_okD(4) [OF assms(1) this] show ?thesis by simp
qed

lemma leader_is_client: "presence_ok s \<Longrightarrow> leaderId s = Some l \<Longrightarrow> jm_has (clients s) l"
  by (auto simp: leaderId_def jm_has_iff dest: first_claim_client split: option.splits if_splits)

lemma first_claim_exists: "cs \<noteq> [] \<Longrightarrow> \<exists>c. first_claim None cs = Some c"
  using first_claim_None [of cs] by blast

lemma leader_exists: "clients s \<noteq> [] \<Longrightarrow> leaderId s \<noteq> None"
  using first_claim_exists [of "map snd (clients s)"]
  by (auto simp: leaderId_def split: option.splits)

lemma leader_designated:
  "presence_ok s \<Longrightarrow> designated s = Some l \<Longrightarrow> jm_has (clients s) l \<Longrightarrow> leaderId s = Some l"
  by (simp add: leaderId_def designee_ok)

text \<open>\<open>leaderId\<close> reads the clients and the designation only.\<close>

lemma leaderId_frame:
  assumes "clients s' = clients s" "designated s' = designated s"
  shows "leaderId s' = leaderId s"
  unfolding leaderId_def designee_def assms ..

lemma unrequest_frame [simp]:
  "clients (unrequest i s) = clients s" "designated (unrequest i s) = designated s"
  "locked (unrequest i s) = locked s"
  by (simp_all add: unrequest_def)

lemma seize_frame [simp]:
  "clients (seize i s) = clients s" "designated (seize i s) = Some i" "locked (seize i s) = locked s"
  by (simp_all add: seize_def)

text \<open>Pruning removes exactly the silent clients that hold no locked seat.\<close>

lemma prune_clients_list:
  "clients (prune now s) = filter
     (\<lambda>(i, c). \<not> (away (Some c) now \<and> \<not> (locked s \<and> designated s = Some i))) (clients s)"
  by (simp add: prune_def demote_def prune_requests_def prune_clients_def split: option.splits)

lemma prune_get:
  "presence_ok s \<Longrightarrow> jm_get (clients (prune now s)) i =
     (case jm_get (clients s) i of None \<Rightarrow> None | Some c \<Rightarrow>
        if away (Some c) now \<and> \<not> (locked s \<and> designated s = Some i) then None else Some c)"
  using presence_okD(1) [of s]
  by (auto simp: prune_clients_list jm_get_filter split: option.splits)

lemma prune_designated:
  "presence_ok s \<Longrightarrow> designated (prune now s) =
     (case designated s of None \<Rightarrow> None
      | Some d \<Rightarrow> if jm_has (clients (prune now s)) d then Some d else None)"
  using designee_ok [of s]
  by (auto simp: prune_def demote_def prune_requests_def prune_clients_def designee_def
      split: option.splits if_splits)

lemma prune_keeps_locked:
  assumes "presence_ok s" "locked s" "designated s = Some l" "jm_has (clients s) l"
  shows "locked (prune now s)" "designated (prune now s) = Some l" "jm_has (clients (prune now s)) l"
proof -
  show h: "jm_has (clients (prune now s)) l"
    using assms by (auto simp: jm_has_iff prune_get split: option.splits)
  show "designated (prune now s) = Some l"
    using assms h by (simp add: prune_designated)
  show "locked (prune now s)"
    using assms h designee_ok [OF assms(1)]
    by (auto simp: prune_def demote_def prune_requests_def prune_clients_def designee_def
        split: option.splits if_splits)
qed

text \<open>The branches of an action, for one that leaves leadership alone.\<close>

lemma act_frame: "clients (act i action target now s) = clients s"
  by (simp add: act_def Let_def)

lemma act_not_leader:
  assumes "leaderId s \<noteq> Some i"
    and "action \<notin> {JStr ''take'', JStr ''claim_starter''} \<or> locked s \<and> \<not> leader_away s (leaderId s) now"
  shows "designated (act i action target now s) = designated s
       \<and> locked (act i action target now s) = locked s"
  using assms by (auto simp: act_def Let_def)

subsection \<open>Runs of the server\<close>

text \<open>
  A configuration is the server's state and the \<^verbatim>\<open>force\<close> requests that wait for their token. A
  POST runs to its answer or suspends; a suspended one resumes at any later point, with
  whatever its token says.
\<close>

type_synonym server = "presence \<times> (string \<times> int) list"

inductive serve :: "server \<Rightarrow> server \<Rightarrow> bool" where
  answered: "post body now s = (s', r) \<Longrightarrow> (\<forall>i. r \<noteq> Inr (Suspended i)) \<Longrightarrow> serve (s, ps) (s', ps)"
| suspended: "post body now s = (s', Inr (Suspended i)) \<Longrightarrow> serve (s, ps) (s', (i, now) # ps)"
| resumed: "(i, now) \<in> set ps \<Longrightarrow> force_resume i isAdmin now s = (s', a) \<Longrightarrow>
     serve (s, ps) (s', remove1 (i, now) ps)"

inductive reachable :: "server \<Rightarrow> bool" where
  start: "reachable (init_presence, [])"
| step: "reachable c \<Longrightarrow> serve c d \<Longrightarrow> reachable d"

lemma serve_ok:
  assumes "serve c d" "presence_ok (fst c)" "\<forall>(i, t) \<in> set (snd c). i \<noteq> []"
  shows "presence_ok (fst d) \<and> (\<forall>(i, t) \<in> set (snd d). i \<noteq> [])"
  using assms
proof (induction rule: serve.induct)
  case (answered body now s s' r ps)
  then show ?case using presence_ok_post by simp
next
  case (suspended body now s s' i ps)
  then show ?case using presence_ok_post by fastforce
next
  case (resumed i now ps isAdmin s s' a)
  have "i \<noteq> []" using resumed(1,4) by auto
  moreover have "\<forall>(i, t) \<in> set (remove1 (i, now) ps). i \<noteq> []"
    using resumed(4) notin_set_remove1 by fastforce
  ultimately show ?case
    using resumed(2,3) by (auto simp: force_resume_def Let_def presence_ok_seize split: if_splits)
qed

lemma reachable_ok: "reachable c \<Longrightarrow> presence_ok (fst c) \<and> (\<forall>(i, t) \<in> set (snd c). i \<noteq> [])"
proof (induction rule: reachable.induct)
  case start
  then show ?case by (simp add: presence_ok_init)
next
  case (step c d)
  then show ?case using serve_ok by blast
qed

subsection \<open>Properties\<close>

lemmas presence_eval =
  post_def post_client_id_def post_name_def prune_def prune_clients_def prune_requests_def
  demote_def designee_def init_presence_def register_def jm_get_def jm_set_def jm_has_def
  jm_delete_def jm_keys_def MAX_CLIENTS_def TTL_MS_def act_def Let_def away_def leader_away_def
  leaderId_def take_snapshot_def seize_def unrequest_def earlier_def

definition alone :: presence where
  "alone = \<lparr>clients = [(''a'', \<lparr>client_id = ''a'', firstSeen = 100, lastSeen = 100, client_name = []\<rparr>)],
     requests = [], designated = None, locked = False\<rparr>"

lemma post_join: "post (JObj [(''clientId'', JStr ''a'')]) 100 init_presence
    = (alone, Inr (Answer (take_snapshot alone ''a'' 100)))"
  by (simp add: presence_eval alone_def)

lemma reachable_alone: "reachable (alone, [])"
  by (rule reachable.step [OF reachable.start serve.answered [OF post_join]]) simp

text \<open>C1: in every reachable configuration the server's state is well formed: at most three
  clients, each under its own non-empty id, requests only from clients, a lock only with a
  designated leader. This holds for every interleaving of suspended \<^verbatim>\<open>force\<close> requests and every
  order of clock readings.\<close>

theorem presence_reachable_ok: "reachable (s, ps) \<Longrightarrow> presence_ok s"
  using reachable_ok by fastforce

theorem presence_reachable_ok_witness: "presence_ok alone \<and> clients alone \<noteq> []"
  using presence_reachable_ok [OF reachable_alone] by (simp add: alone_def)

text \<open>C2: whenever some client is present, exactly one client is told that it leads, whoever
  asks and at whatever time.\<close>

theorem presence_unique_leader:
  assumes "reachable (s, ps)" and "clients s \<noteq> []"
  shows "(\<exists>!i. snap_role (take_snapshot s i now) = RLeader)
       \<and> (\<exists>l. leaderId s = Some l \<and> jm_has (clients s) l
            \<and> snap_role (take_snapshot s l now) = RLeader)"
proof -
  have ok: "presence_ok s" using assms(1) reachable_ok by fastforce
  obtain l where l: "leaderId s = Some l" using leader_exists [OF assms(2)] by auto
  with leader_is_client [OF ok l] show ?thesis by (auto simp: take_snapshot_def Let_def)
qed

theorem presence_unique_leader_witness:
  "(\<exists>!i. snap_role (take_snapshot alone i 200) = RLeader)"
  using presence_unique_leader [OF reachable_alone, of 200] by (simp add: alone_def)


definition lock_body :: json where
  "lock_body = JObj [(''clientId'', JStr ''a''), (''action'', JStr ''lock'')]"

definition alone_locked :: presence where
  "alone_locked = \<lparr>clients = [(''a'', \<lparr>client_id = ''a'', firstSeen = 100, lastSeen = 150, client_name = []\<rparr>)],
     requests = [], designated = Some ''a'', locked = True\<rparr>"

lemma post_lock: "post lock_body 150 alone = (alone_locked, Inr (Answer (take_snapshot alone_locked ''a'' 150)))"
  by (simp add: presence_eval alone_def alone_locked_def lock_body_def)

lemma reachable_alone_locked: "reachable (alone_locked, [])"
  by (rule reachable.step [OF reachable_alone serve.answered [OF post_lock]]) simp

definition ask_body :: json where
  "ask_body = JObj [(''clientId'', JStr ''b''), (''action'', JStr ''request'')]"




text \<open>control changes hands only by the leader's consent. A client that does not lead and
  does not use one of the explicit takeovers leaves the leader as the registration of its
  heartbeat found it: \<^verbatim>\<open>request\<close>, \<^verbatim>\<open>grant\<close>, \<^verbatim>\<open>deny\<close>, \<^verbatim>\<open>lock\<close> and \<^verbatim>\<open>unlock\<close> from it change neither
  the leader nor the lock.\<close>

theorem presence_transfer_needs_leader:
  assumes "presence_ok s" and "register i nm now (prune now s) = Some s1" and "i \<noteq> []"
    and "leaderId s1 \<noteq> Some i"
    and "action \<notin> {JStr ''take'', JStr ''claim_starter''}"
  shows "leaderId (act i action target now s1) = leaderId s1
       \<and> locked (act i action target now s1) = locked s1
       \<and> (\<forall>j. j \<noteq> i \<longrightarrow> jm_get (requests (act i action target now s1)) j = jm_get (requests s1) j)"
proof -
  have fr: "designated (act i action target now s1) = designated s1
      \<and> locked (act i action target now s1) = locked s1"
    using assms(4,5) by (intro act_not_leader) auto
  then have "leaderId (act i action target now s1) = leaderId s1"
    by (intro leaderId_frame) (simp_all add: act_frame)
  moreover have "\<forall>j. j \<noteq> i \<longrightarrow> jm_get (requests (act i action target now s1)) j = jm_get (requests s1) j"
    using assms(4,5) by (auto simp: act_def Let_def jm_get_set)
  ultimately show ?thesis using fr by simp
qed

definition duo :: presence where
  "duo = \<lparr>clients = [(''a'', \<lparr>client_id = ''a'', firstSeen = 100, lastSeen = 100, client_name = []\<rparr>),
                    (''b'', \<lparr>client_id = ''b'', firstSeen = 200, lastSeen = 200, client_name = ''Bo''\<rparr>)],
     requests = [], designated = None, locked = False\<rparr>"

lemma presence_ok_duo: "presence_ok duo"
  by (rule presence_okI) (auto simp: duo_def jm_get_def jm_has_def jm_ok_def MAX_CLIENTS_def split: if_splits)

theorem presence_transfer_needs_leader_witness:
  "leaderId (act ''b'' (JStr ''grant'') (JStr ''b'') 300
      (the (register ''b'' [] 300 (prune 300 duo)))) = Some ''a''"
proof -
  have r: "register ''b'' [] 300 (prune 300 duo) = Some (the (register ''b'' [] 300 (prune 300 duo)))"
    by (simp add: presence_eval duo_def)
  have l: "leaderId (the (register ''b'' [] 300 (prune 300 duo))) = Some ''a''"
    by (simp add: presence_eval duo_def)
  show ?thesis
    using presence_transfer_needs_leader [OF presence_ok_duo r, of "JStr ''grant''"] l by simp
qed

text \<open>server and browsers agree on who may write. A browser that applies the server's answer
  to its own heartbeat is read-only exactly when the server's leader is another client.\<close>

theorem presence_view_agrees:
  "view_isMirror (apply_answer (snapshot_json (take_snapshot s i now)) i nm) \<longleftrightarrow> leaderId s \<noteq> Some i"
  by (simp add: apply_answer_def snapshot_json_def take_snapshot_def answer_role_def Let_def)

text \<open>a failed heartbeat drops the read-only restriction of a client the server has
  explicitly made a mirror; its role still reads mirror.\<close>

theorem presence_failed_post_unlocks_mirror:
  assumes "leaderId s \<noteq> Some i"
  shows "let v = post_failed (apply_answer (snapshot_json (take_snapshot s i now)) i nm)
         in view_role v = CMirror \<and> \<not> view_isMirror v"
  using assms
  by (simp add: post_failed_def apply_answer_def snapshot_json_def take_snapshot_def answer_role_def Let_def)

theorem presence_failed_post_unlocks_mirror_witness:
  "view_role (post_failed (apply_answer (snapshot_json (take_snapshot alone ''b'' 300)) ''b'' [])) = CMirror
   \<and> \<not> view_isMirror (post_failed (apply_answer (snapshot_json (take_snapshot alone ''b'' 300)) ''b'' []))"
  using presence_failed_post_unlocks_mirror [of alone "''b''" 300 "[]"]
  by (simp add: presence_eval alone_def)

end
