(* ===== verification/DashLayout.thy ===== *)
theory DashLayout
  imports JsonValue
begin

text \<open>
  The lap-card layout schema and its rendering rules, from
  \<^verbatim>\<open>viewer_tool/src/lib/dash/dashLayout.ts\<close>: the catalog of bindable fields, value access and
  formatting, the colour rules, the built-in layouts, the screens, and the lenient
  validator of layouts that come from storage or the network.

  A widget is the object itself (a \<^typ>\<open>json\<close> value): the validator lets unknown and missing
  properties through, and the interfaces of the source are the predicates
  \<open>base_widget\<close> \<open>...\<close> \<open>widget_ok\<close>. The number-to-text conversion of a number that is not an
  integer is the parameter \<open>show\<close>.
\<close>

text \<open>The bytes of a character outside ASCII.\<close>

definition u8 :: "nat list \<Rightarrow> string" where
  "u8 bs = map char_of bs"

definition LAP_CARD_W :: rat where "LAP_CARD_W = 800"

definition LAP_CARD_H :: rat where "LAP_CARD_H = 480"

definition DASH_LAYOUT_VERSION :: jsnum where "DASH_LAYOUT_VERSION = JFin 1"

definition DELTA_GOOD :: string where "DELTA_GOOD = ''#2ee06a''"

definition DELTA_BAD :: string where "DELTA_BAD = ''#ff4d4f''"

definition DELTA_ZERO :: string where "DELTA_ZERO = ''#9aa3ab''"

subsection \<open>Themes and colours\<close>

datatype card_theme = Dark | Light

datatype good_sign = GNegative | GPositive

record theme_palette =
  fg :: string
  muted :: string
  cardBg :: string
  track_color :: string

fun CARD_THEMES :: "card_theme \<Rightarrow> theme_palette" where
  "CARD_THEMES Dark = \<lparr>fg = ''#f2f2f2'', muted = ''#9b9b9b'', cardBg = ''rgba(10,10,12,0.94)'',
      track_color = ''rgba(255,255,255,0.12)''\<rparr>"
| "CARD_THEMES Light = \<lparr>fg = ''#16140f'', muted = ''#6a635c'', cardBg = ''rgba(244,241,237,0.96)'',
      track_color = ''rgba(0,0,0,0.13)''\<rparr>"

text \<open>An optional string in a condition: present and not empty.\<close>

definition given :: "string option \<Rightarrow> bool" where
  "given s \<longleftrightarrow> s \<noteq> None \<and> s \<noteq> Some []"

record color_spec =
  color :: "string option"
  colorDark :: "string option"
  colorLight :: "string option"

definition resolveColor :: "color_spec \<Rightarrow> card_theme \<Rightarrow> string \<Rightarrow> string" where
  "resolveColor w theme fallback =
     (let override = (if theme = Light then colorLight w else colorDark w)
      in if given override then the override
         else if given (color w) \<and> color w \<noteq> Some ''auto'' then the (color w)
         else fallback)"

definition resolveBackground :: "string option \<Rightarrow> card_theme \<Rightarrow> string" where
  "resolveBackground bg theme =
     (if given bg \<and> bg \<noteq> Some ''auto'' then the bg else cardBg (CARD_THEMES theme))"

text \<open>A nullable number is \<^typ>\<open>jsnum option\<close>; \<open>usable\<close> is \<^verbatim>\<open>v != null && Number.isFinite(v)\<close>.\<close>

definition usable :: "jsnum option \<Rightarrow> bool" where
  "usable v = (case v of Some (JFin _) \<Rightarrow> True | _ \<Rightarrow> False)"

definition deltaColor :: "jsnum option \<Rightarrow> good_sign \<Rightarrow> string \<Rightarrow> string \<Rightarrow> string \<Rightarrow> string" where
  "deltaColor v goodSign good bad zero =
     (if \<not> usable v \<or> v = Some (JFin 0) then zero
      else let isGood = (if goodSign = GNegative then the v < JFin 0 else JFin 0 < the v)
           in if isGood then good else bad)"

subsection \<open>The widget interfaces\<close>

definition FORMAT_IDS :: "string list" where
  "FORMAT_IDS = [''raw'', ''int'', ''float1'', ''float2'', ''laptime'', ''wh'', ''whSigned'', ''kwh'',
     ''kw'', ''pct'', ''temp'', ''volt'', ''amp'', ''mph'', ''bool'']"

definition is_str :: "json \<Rightarrow> bool" where "is_str v = (case v of JStr _ \<Rightarrow> True | _ \<Rightarrow> False)"

definition is_num :: "json \<Rightarrow> bool" where "is_num v = (case v of JNum _ \<Rightarrow> True | _ \<Rightarrow> False)"

definition is_bool :: "json \<Rightarrow> bool" where "is_bool v = (case v of JBool _ \<Rightarrow> True | _ \<Rightarrow> False)"

definition optional :: "(json \<Rightarrow> bool) \<Rightarrow> json \<Rightarrow> bool" where
  "optional P v \<longleftrightarrow> v = JUndef \<or> P v"

definition one_of :: "string list \<Rightarrow> json \<Rightarrow> bool" where
  "one_of ss v = (case v of JStr s \<Rightarrow> s \<in> set ss | _ \<Rightarrow> False)"

definition base_widget :: "string \<Rightarrow> json \<Rightarrow> bool" where
  "base_widget t w \<longleftrightarrow> is_str (field w ''id'') \<and> field w ''type'' = JStr t
     \<and> list_all (\<lambda>k. is_num (field w k)) [''x'', ''y'', ''w'', ''h'']"

definition ALIGNS :: "string list" where "ALIGNS = [''left'', ''center'', ''right'']"

definition SIGNS :: "string list" where "SIGNS = [''negative'', ''positive'']"

definition text_widget :: "json \<Rightarrow> bool" where
  "text_widget w \<longleftrightarrow> base_widget ''text'' w \<and> is_str (field w ''text'') \<and> is_num (field w ''fontSize'')
     \<and> is_str (field w ''color'')
     \<and> list_all (\<lambda>k. optional is_str (field w k)) [''colorDark'', ''colorLight'']
     \<and> optional (one_of ALIGNS) (field w ''align'') \<and> optional is_bool (field w ''bold'')
     \<and> optional is_num (field w ''letterSpacing'')"

definition color_rule :: "json \<Rightarrow> bool" where
  "color_rule r \<longleftrightarrow> one_of [''lt'', ''gt''] (field r ''cmp'') \<and> is_num (field r ''value'') \<and> is_str (field r ''color'')"

definition value_widget :: "json \<Rightarrow> bool" where
  "value_widget w \<longleftrightarrow> base_widget ''value'' w \<and> is_str (field w ''bind'')
     \<and> one_of FORMAT_IDS (field w ''format'') \<and> optional is_num (field w ''decimals'')
     \<and> is_num (field w ''fontSize'') \<and> is_str (field w ''color'')
     \<and> list_all (\<lambda>k. optional is_str (field w k)) [''colorDark'', ''colorLight'', ''label'', ''labelColor'']
     \<and> optional (one_of ALIGNS) (field w ''align'') \<and> optional is_bool (field w ''bold'')
     \<and> optional (\<lambda>v. case v of JArr rs \<Rightarrow> list_all color_rule rs | _ \<Rightarrow> False) (field w ''thresholds'')
     \<and> optional (\<lambda>v. case v of JObj m \<Rightarrow> list_all (\<lambda>p. is_str (snd p)) m | _ \<Rightarrow> False) (field w ''valueMap'')"

definition bar_widget :: "json \<Rightarrow> bool" where
  "bar_widget w \<longleftrightarrow> base_widget ''bar'' w \<and> is_str (field w ''bind'')
     \<and> is_num (field w ''min'') \<and> is_num (field w ''max'') \<and> is_str (field w ''color'')
     \<and> list_all (\<lambda>k. optional is_str (field w k)) [''bg'', ''label'']
     \<and> list_all (\<lambda>k. optional is_bool (field w k)) [''bidirectional'', ''signColored'']
     \<and> optional (one_of SIGNS) (field w ''goodSign'')"

definition delta_widget :: "json \<Rightarrow> bool" where
  "delta_widget w \<longleftrightarrow> base_widget ''delta'' w \<and> is_str (field w ''bind'')
     \<and> one_of FORMAT_IDS (field w ''format'') \<and> optional is_num (field w ''decimals'')
     \<and> is_num (field w ''fontSize'') \<and> optional (one_of ALIGNS) (field w ''align'')
     \<and> list_all (\<lambda>k. optional is_str (field w k))
         [''label'', ''labelColor'', ''goodColor'', ''badColor'', ''zeroColor'']
     \<and> optional (one_of SIGNS) (field w ''goodSign'')
     \<and> list_all (\<lambda>k. optional is_bool (field w k)) [''bold'', ''showArrow'', ''showSign'']"

definition gauge_widget :: "json \<Rightarrow> bool" where
  "gauge_widget w \<longleftrightarrow> base_widget ''gauge'' w \<and> is_str (field w ''bind'')
     \<and> is_num (field w ''min'') \<and> is_num (field w ''max'')
     \<and> list_all (\<lambda>k. optional is_str (field w k)) [''label'', ''color'', ''colorDark'', ''colorLight'']
     \<and> optional (one_of [''standard'', ''bidirectional'']) (field w ''mode'')
     \<and> optional (one_of FORMAT_IDS) (field w ''format'') \<and> optional is_num (field w ''decimals'')"

definition widget_ok :: "json \<Rightarrow> bool" where
  "widget_ok w \<longleftrightarrow> text_widget w \<or> value_widget w \<or> bar_widget w \<or> gauge_widget w \<or> delta_widget w"

record lap_card_layout =
  l_version :: jsnum
  l_id :: "string option"
  l_name :: string
  l_background :: string
  l_widgets :: "json list"

subsection \<open>The field catalog\<close>

record field_def =
  f_bind :: string
  f_label :: string
  f_group :: string
  f_unit :: "string option"
  f_defaultFormat :: string
  f_min :: "rat option"
  f_max :: "rat option"
  f_bidirectional :: "bool option"
  f_isDelta :: "bool option"
  f_goodSign :: "good_sign option"
  f_enumMap :: "(string \<times> string) list option"
  f_source :: "string option"

definition mk_field :: "string \<Rightarrow> string \<Rightarrow> string \<Rightarrow> string option \<Rightarrow> string \<Rightarrow> rat option \<Rightarrow> rat option
    \<Rightarrow> bool option \<Rightarrow> bool option \<Rightarrow> good_sign option \<Rightarrow> (string \<times> string) list option \<Rightarrow> string option
    \<Rightarrow> field_def" where
  "mk_field b l g u f lo hi bi d s e src =
     \<lparr>f_bind = b, f_label = l, f_group = g, f_unit = u, f_defaultFormat = f, f_min = lo, f_max = hi,
      f_bidirectional = bi, f_isDelta = d, f_goodSign = s, f_enumMap = e, f_source = src\<rparr>"

definition FIELD_CATALOG :: "field_def list" where
  "FIELD_CATALOG = [
   mk_field ''lapCard.lapNumber'' ''Lap number (card only)'' ''Lap'' None ''int''
     (Some (0)) (Some (30)) None None None None
     (Some ''on-car lap counter (GPS gate / trackside lapTrigger)''),
   mk_field ''lapCard.timeS'' ''Lap time'' ''Lap'' (Some ''s'') ''laptime''
     (Some (0)) (Some (120)) None None None None
     (Some ''on-car: wall-clock since lap start''),
   mk_field ''lapCard.energyWh'' ''Lap energy'' ''Lap'' (Some ''Wh'') ''wh''
     (Some (0)) (Some (400)) None None None None
     (Some (''on-car: '' @ u8 [0xE2, 0x88, 0xAB] @ '' CAN power over the lap'')),
   mk_field ''mqtt.bestLapTime'' ''Best lap'' ''Lap'' (Some ''s'') ''laptime''
     (Some (0)) (Some (120)) None None None None
     (Some (''demo-only '' @ u8 [0xE2, 0x80, 0x94] @ '' not emitted by dashd yet'')),
   mk_field ''mqtt.lastLapTime'' ''Last lap'' ''Lap'' (Some ''s'') ''laptime''
     (Some (0)) (Some (120)) None None None None
     (Some (''demo-only '' @ u8 [0xE2, 0x80, 0x94] @ '' not emitted by dashd yet'')),
   mk_field ''mqtt.currentLapTime'' ''Current lap time'' ''Lap'' (Some ''s'') ''laptime''
     (Some (0)) (Some (120)) None None None None
     (Some (''demo-only '' @ u8 [0xE2, 0x80, 0x94] @ '' not emitted by dashd yet'')),
   mk_field ''pacing.lastLapTimeS'' ''Last lap time'' ''Lap'' (Some ''s'') ''laptime''
     (Some (0)) (Some (120)) None None None None
     (Some (''on-car: time of the last completed lap (PacingData '' @ u8 [0xE2, 0x80, 0x94] @ '' any screen)'')),
   mk_field ''pacing.lastLapEnergyWh'' ''Last lap energy'' ''Lap'' (Some ''Wh'') ''wh''
     (Some (0)) (Some (400)) None None None None
     (Some ''on-car: net Wh of the last completed lap (PacingData)''),
   mk_field ''pacing.lastLapNumber'' ''Last lap #'' ''Lap'' None ''int''
     (Some (0)) (Some (30)) None None None None
     (Some ''on-car: number of the last completed lap (PacingData)''),
   mk_field ''mqtt.lapTrigger'' ''Laps completed (live)'' ''Lap'' None ''int''
     (Some (0)) (Some (30)) None None None None
     (Some ''on-car dashd lap_count (lhre/dash/lapCount, corrects up/down with trackside)''),
   mk_field ''pacing.lapEnergyWh'' ''Energy (this lap)'' ''Pacing'' (Some ''Wh'') ''wh''
     (Some (0)) (Some (400)) None None None None
     (Some (''on-car: '' @ u8 [0xE2, 0x88, 0xAB] @ '' CAN power this lap'')),
   mk_field ''pacing.lapBudgetWh'' ''Per-lap budget'' ''Pacing'' (Some ''Wh'') ''wh''
     (Some (0)) (Some (400)) None None None None
     (Some ''trackside (lhre/dash/lapBudgetWh)''),
   mk_field ''pacing.lapElapsedS'' ''Lap elapsed'' ''Pacing'' (Some ''s'') ''laptime''
     (Some (0)) (Some (120)) None None None None
     (Some ''on-car: wall-clock since lap start''),
   mk_field ''pacing.lapNumber'' ''Lap (in progress)'' ''Pacing'' None ''int''
     (Some (0)) (Some (30)) None None None None
     (Some ''on-car: lap_count + 1''),
   mk_field ''mqtt.lapsRemaining'' ''Laps remaining'' ''Pacing'' None ''int''
     (Some (0)) (Some (30)) None None None None
     (Some (''trackside: target laps '' @ u8 [0xE2, 0x88, 0x92] @ '' completed (lhre/dash/lapsRemaining)'')),
   mk_field ''mqtt.targetPower'' ''Target power'' ''Pacing'' (Some ''kW'') ''kw''
     (Some (0)) (Some (80)) None None None None
     (Some ''trackside (lhre/dash/targetPower)''),
   mk_field ''mqtt.lapDelta'' (''Lap '' @ u8 [0xCE, 0x94] @ '' vs best'') ''Deltas'' (Some ''s'') ''float2''
     (Some (- 5)) (Some (5)) (Some True) (Some True) (Some GNegative) None
     (Some (''trackside: last lap '' @ u8 [0xE2, 0x88, 0x92] @ '' best lap (lhre/dash/lapDelta)'')),
   mk_field ''pacing.budgetDeltaWh'' (''Energy budget '' @ u8 [0xCE, 0x94] @ '' (power)'') ''Deltas'' (Some ''Wh'') ''whSigned''
     (Some (- 100)) (Some (100)) (Some True) (Some True) (Some GNegative) None
     (Some (''on-car: lapEnergyWh '' @ u8 [0xE2, 0x88, 0x92] @ '' targetPower'' @ u8 [0xC2, 0xB7] @ ''elapsed (POWER-based, live within lap)'')),
   mk_field ''mqtt.energyDelta'' (''Energy '' @ u8 [0xCE, 0x94] @ '' vs dyn budget'') ''Deltas'' (Some ''Wh'') ''whSigned''
     (Some (- 100)) (Some (100)) (Some True) (Some True) (Some GNegative) None
     (Some (''trackside: last lap '' @ u8 [0xE2, 0x88, 0x92] @ '' DYNAMIC budget (remaining '' @ u8 [0xC3, 0xB7] @ '' laps left); lhre/dash/energyDelta'')),
   mk_field ''mqtt.energyDeltaStatic'' (''Energy '' @ u8 [0xCE, 0x94] @ '' vs plan'') ''Deltas'' (Some ''Wh'') ''whSigned''
     (Some (- 100)) (Some (100)) (Some True) (Some True) (Some GNegative) None
     (Some (''trackside: last lap '' @ u8 [0xE2, 0x88, 0x92] @ '' STATIC plan budget (kWh '' @ u8 [0xC3, 0xB7] @ '' laps); lhre/dash/energyDeltaStatic'')),
   mk_field ''can.soc'' ''State of energy'' ''Energy'' (Some ''%'') ''pct''
     (Some (0)) (Some (100)) None None None None
     (Some ''0x1C7 soc_estimate (VCU State)''),
   mk_field ''can.vcuNetEnergyWh'' ''VCU net energy'' ''Energy'' (Some ''Wh'') ''wh''
     (Some (0)) (Some (8000)) None None None None
     (Some ''0x1C9 net_energy (VCU Energy Estimate)''),
   mk_field ''can.vcuRegenEnergyWh'' ''VCU regen energy'' ''Energy'' (Some ''Wh'') ''wh''
     (Some (0)) (Some (2000)) None None None None
     (Some ''0x1C9 regen_energy (VCU Energy Estimate)''),
   mk_field ''can.power'' ''Pack power'' ''Energy'' (Some ''kW'') ''kw''
     (Some (- 80)) (Some (80)) (Some True) None None None
     (Some (''derived: 0x0A7 dc_bus_v '' @ u8 [0xC3, 0x97] @ '' 0x0A6 dc_bus_current '' @ u8 [0xC3, 0xB7] @ '' 1000'')),
   mk_field ''can.cellVMax'' ''Cell V max'' ''Cells'' (Some ''V'') ''volt''
     (Some (25 / 10)) (Some (43 / 10)) None None None None
     (Some ''max of 0x0D0 cells_v[] (BMS)''),
   mk_field ''can.cellVMin'' ''Cell V min'' ''Cells'' (Some ''V'') ''volt''
     (Some (25 / 10)) (Some (43 / 10)) None None None None
     (Some ''min of 0x0D0 cells_v[] (BMS)''),
   mk_field ''can.cellVSpread'' ''Cell V spread'' ''Cells'' (Some ''V'') ''float2''
     (Some (0)) (Some (5 / 10)) None None None None
     (Some (''derived: max '' @ u8 [0xE2, 0x88, 0x92] @ '' min of 0x0D0 cells_v[]'')),
   mk_field ''can.cellTempMax'' ''Cell T max'' ''Temps'' (Some (u8 [0xC2, 0xB0] @ ''C'')) ''temp''
     (Some (0)) (Some (80)) None None None None
     (Some ''max of 0x100 cells_temps[] (BMS)''),
   mk_field ''can.cellTempAvg'' ''Cell T avg'' ''Temps'' (Some (u8 [0xC2, 0xB0] @ ''C'')) ''temp''
     (Some (0)) (Some (80)) None None None None
     (Some ''mean of 0x100 cells_temps[] (BMS)''),
   mk_field ''can.cellTempMin'' ''Cell T min'' ''Temps'' (Some (u8 [0xC2, 0xB0] @ ''C'')) ''temp''
     (Some (0)) (Some (80)) None None None None
     (Some ''min of 0x100 cells_temps[] (BMS)''),
   mk_field ''can.temperature'' ''Battery temp'' ''Temps'' (Some (u8 [0xC2, 0xB0] @ ''C'')) ''temp''
     (Some (0)) (Some (80)) None None None None
     (Some ''= cell T max (0x100 cells_temps[])''),
   mk_field ''can.motorTemp'' ''Motor temp'' ''Temps'' (Some (u8 [0xC2, 0xB0] @ ''C'')) ''temp''
     (Some (0)) (Some (120)) None None None None
     (Some ''0x0A2 motor_temp (thermal)''),
   mk_field ''can.inverterTemp'' ''Inverter temp'' ''Temps'' (Some (u8 [0xC2, 0xB0] @ ''C'')) ''temp''
     (Some (0)) (Some (100)) None None None None
     (Some ''0x182 inverter_temp (PDU Temps)''),
   mk_field ''can.coolantTemp'' ''Coolant temp'' ''Temps'' (Some (u8 [0xC2, 0xB0] @ ''C'')) ''temp''
     (Some (0)) (Some (80)) None None None None
     (Some ''0x0A2 coolant_temp (thermal)''),
   mk_field ''can.apps'' ''APPS (accel)'' ''Driver'' (Some ''%'') ''pct''
     (Some (0)) (Some (100)) None None None None
     (Some ''0x1C0 apps1_travel (APPS Voltages)''),
   mk_field ''can.bpps'' ''BPPS (brake)'' ''Driver'' (Some ''%'') ''pct''
     (Some (0)) (Some (100)) None None None None
     (Some ''0x1C2 bpps1_travel (BPPS Voltages)''),
   mk_field ''can.brakeBias'' ''Brake bias (front)'' ''Driver'' (Some ''%'') ''pct''
     (Some (0)) (Some (100)) None None None None
     (Some (''derived: 0x1C5 brake_bias '' @ u8 [0xC3, 0x97] @ '' 100'')),
   mk_field ''can.brakePressureFront'' ''Brake pressure F'' ''Driver'' (Some ''psi'') ''int''
     (Some (0)) (Some (1000)) None None None None
     (Some ''0x1C5 brake_pressure_f (Brakes)''),
   mk_field ''can.brakePressureRear'' ''Brake pressure R'' ''Driver'' (Some ''psi'') ''int''
     (Some (0)) (Some (1000)) None None None None
     (Some ''derived: mean of 0x1C5 brake_pressure_rall/rbll''),
   mk_field ''can.hvVoltage'' ''HV voltage'' ''Rails'' (Some ''V'') ''volt''
     (Some (0)) (Some (600)) None None None None
     (Some (''0x132 hv_pack_v (HVC '' @ u8 [0xE2, 0x80, 0x94] @ '' not currently emitted)'')),
   mk_field ''can.hvCurrent'' ''HV current'' ''Rails'' (Some ''A'') ''amp''
     (Some (- 400)) (Some (400)) (Some True) None None None
     (Some (''0x132 hv_c (HVC '' @ u8 [0xE2, 0x80, 0x94] @ '' not currently emitted)'')),
   mk_field ''can.lvVoltage'' ''LV voltage'' ''Rails'' (Some ''V'') ''volt''
     (Some (0)) (Some (30)) None None None None
     (Some ''0x183 lv_batt_v (LV Battery)''),
   mk_field ''can.lvCurrent'' ''LV current'' ''Rails'' (Some ''A'') ''amp''
     (Some (0)) (Some (30)) None None None None
     (Some ''0x183 lv_batt_c (LV Battery)''),
   mk_field ''can.speed'' ''Speed'' ''Dynamics'' (Some ''mph'') ''mph''
     (Some (0)) (Some (100)) None None None None
     (Some (''derived: 0x0A5 motor_speed '' @ u8 [0xC3, 0x97] @ '' 0.0142 '' @ u8 [0xE2, 0x86, 0x92] @ '' mph'')),
   mk_field ''can.eventMode'' ''VCU event mode'' ''Dynamics'' None ''int''
     (Some (0)) (Some (4)) None None None (Some [(''0'', u8 [0xE2, 0x80, 0x94]), (''1'', ''ACCEL''), (''2'', ''SKID''), (''3'', ''AUTOX''), (''4'', ''ENDUR'')])
     (Some ''0x1C7 event_mode (VCU State)''),
   mk_field ''can.wheelSpeedFL'' ''Wheel FL'' ''Wheels'' None ''float1''
     (Some (0)) (Some (100)) None None None None
     (Some ''0x402 fl_wheel_speed (USM)''),
   mk_field ''can.wheelSpeedFR'' ''Wheel FR'' ''Wheels'' None ''float1''
     (Some (0)) (Some (100)) None None None None
     (Some ''0x403 fr_wheel_speed (USM)''),
   mk_field ''can.wheelSpeedRL'' ''Wheel RL'' ''Wheels'' None ''float1''
     (Some (0)) (Some (100)) None None None None
     (Some ''0x404 bl_wheel_speed (USM rear-left)''),
   mk_field ''can.wheelSpeedRR'' ''Wheel RR'' ''Wheels'' None ''float1''
     (Some (0)) (Some (100)) None None None None
     (Some ''0x405 br_wheel_speed (USM rear-right)''),
   mk_field ''can.regenEnabled'' ''Regen'' ''Controls'' None ''bool''
     (Some (0)) (Some (1)) None None None (Some [(''0'', ''OFF''), (''1'', ''ON'')])
     (Some (''0x1C7 byte 5 (VCU State) '' @ u8 [0xE2, 0x80, 0x94] @ '' '' @ [CHR 0x22] @ ''line_lock_enabled'' @ [CHR 0x22] @ '' bit, used as the regen-armed flag'')),
   mk_field ''can.posContactor'' ''HV+ contactor'' ''Contactors'' None ''bool''
     (Some (0)) (Some (1)) None None None (Some [(''0'', ''OPEN''), (''1'', ''CLOSED'')])
     (Some ''0x131 pos contactor (HVC)''),
   mk_field ''can.negContactor'' (''HV'' @ u8 [0xE2, 0x88, 0x92] @ '' contactor'') ''Contactors'' None ''bool''
     (Some (0)) (Some (1)) None None None (Some [(''0'', ''OPEN''), (''1'', ''CLOSED'')])
     (Some ''0x131 neg contactor (HVC)''),
   mk_field ''can.prechargeContactor'' ''Precharge'' ''Contactors'' None ''bool''
     (Some (0)) (Some (1)) None None None (Some [(''0'', ''OPEN''), (''1'', ''CLOSED'')])
     (Some ''0x131 precharge contactor (HVC)'')]"

definition fieldDef :: "string \<Rightarrow> field_def option" where
  "fieldDef b = List.find (\<lambda>f. f_bind f = b) FIELD_CATALOG"

definition bindRoot :: "string \<Rightarrow> string" where
  "bindRoot b = hd (split_on (CHR ''.'') b)"

subsection \<open>Value access and formatting\<close>

fun walk_path :: "json \<Rightarrow> string list \<Rightarrow> json option" where
  "walk_path cur [] = Some cur"
| "walk_path cur (k # ks) = (if \<not> is_object cur then None else walk_path (field cur k) ks)"

definition getByPath :: "json \<Rightarrow> string \<Rightarrow> rat option" where
  "getByPath ctx path = (case walk_path ctx (split_on (CHR ''.'') path) of
       None \<Rightarrow> None
     | Some (JBool b) \<Rightarrow> Some (if b then 1 else 0)
     | Some (JNum (JFin r)) \<Rightarrow> Some r
     | Some _ \<Rightarrow> None)"

datatype cmp = Lt | Gt

record rule =
  r_cmp :: cmp
  r_value :: jsnum
  r_color :: string

definition rule_matches :: "jsnum \<Rightarrow> rule \<Rightarrow> bool" where
  "rule_matches v r \<longleftrightarrow> (r_cmp r = Lt \<and> v < r_value r) \<or> (r_cmp r = Gt \<and> r_value r < v)"

definition valueColor :: "jsnum option \<Rightarrow> string \<Rightarrow> rule list option \<Rightarrow> string" where
  "valueColor v base rules =
     (if \<not> usable v \<or> rules = None \<or> rules = Some [] then base
      else foldl (\<lambda>c r. if rule_matches (the v) r then r_color r else c) base (the rules))"

definition round_text :: "rat \<Rightarrow> string" where
  "round_text v = int_text (rat_round v)"

definition laptime_text :: "rat \<Rightarrow> string" where
  "laptime_text v = (let m = \<lfloor>v / 60\<rfloor>; s = v - of_int m * 60
     in int_text m @ '':'' @ pad_start 5 (CHR ''0'') (rat_to_fixed 2 s))"

definition signed :: "rat \<Rightarrow> string" where
  "signed v = (if v \<ge> 0 then ''+'' else [])"

definition clamp_decimals :: "rat \<Rightarrow> nat" where
  "clamp_decimals d = nat (max 0 (min 6 \<lfloor>d\<rfloor>))"

definition format_default :: "(rat \<Rightarrow> string) \<Rightarrow> string \<Rightarrow> rat \<Rightarrow> string" where
  "format_default show fmt v =
     (if fmt = ''laptime'' then laptime_text v
      else if fmt \<in> {''int'', ''wh'', ''pct'', ''mph''} then round_text v
      else if fmt \<in> {''float1'', ''kw'', ''temp'', ''volt'', ''amp''} then rat_to_fixed 1 v
      else if fmt = ''float2'' then rat_to_fixed 2 v
      else if fmt = ''whSigned'' then signed v @ round_text v
      else if fmt = ''kwh'' then rat_to_fixed 2 (v / 1000)
      else show v)"

definition formatValue :: "(rat \<Rightarrow> string) \<Rightarrow> jsnum option \<Rightarrow> string \<Rightarrow> jsnum option \<Rightarrow> string" where
  "formatValue show v fmt decimals =
     (if \<not> usable v then ''--''
      else let x = js_val (the v) in
      if fmt = ''bool'' then (if x \<ge> 1 / 2 then ''ON'' else ''OFF'')
      else if usable decimals \<and> fmt \<noteq> ''laptime'' then
        (let d = clamp_decimals (js_val (the decimals)) in
         if fmt = ''kwh'' then rat_to_fixed d (x / 1000)
         else if fmt = ''whSigned'' then signed x @ rat_to_fixed d x
         else rat_to_fixed d x)
      else format_default show fmt x)"

definition applyValueMap :: "(rat \<Rightarrow> string) \<Rightarrow> jsnum option \<Rightarrow> string \<Rightarrow> (string \<times> string) list option
    \<Rightarrow> jsnum option \<Rightarrow> string" where
  "applyValueMap show v fmt valueMap decimals =
     (case (if usable v then Option.bind valueMap (\<lambda>m. jm_get m (round_text (js_val (the v)))) else None) of
        Some label \<Rightarrow> label
      | None \<Rightarrow> formatValue show v fmt decimals)"

subsection \<open>Built-in layouts, screens and templates\<close>

definition defaultLapCardLayout :: lap_card_layout where
  "defaultLapCardLayout =
     \<lparr>l_version = DASH_LAYOUT_VERSION, l_id = None, l_name = ''Default lap card'', l_background = ''auto'',
      l_widgets = [
     JObj [(''id'', JStr ''lap''), (''type'', JStr ''value''), (''bind'', JStr ''lapCard.lapNumber''),
     (''format'', JStr ''int''), (''label'', JStr ''LAP''), (''x'', JNum (JFin 250)), (''y'', JNum (JFin 70)),
     (''w'', JNum (JFin 300)), (''h'', JNum (JFin 60)), (''fontSize'', JNum (JFin 34)), (''color'',
     JStr ''#d97757''), (''align'', JStr ''center''), (''bold'', JBool True), (''labelColor'',
     JStr ''#d97757'')],
     JObj [(''id'', JStr ''time''), (''type'', JStr ''value''), (''bind'', JStr ''lapCard.timeS''),
     (''format'', JStr ''laptime''), (''x'', JNum (JFin 100)), (''y'', JNum (JFin 150)), (''w'',
     JNum (JFin 600)), (''h'', JNum (JFin 160)), (''fontSize'', JNum (JFin 112)), (''color'', JStr ''auto''),
     (''align'', JStr ''center''), (''bold'', JBool True)],
     JObj [(''id'', JStr ''energy''), (''type'', JStr ''value''), (''bind'', JStr ''lapCard.energyWh''),
     (''format'', JStr ''wh''), (''label'', JStr ''Wh / LAP''), (''x'', JNum (JFin 250)), (''y'',
     JNum (JFin 330)), (''w'', JNum (JFin 300)), (''h'', JNum (JFin 70)), (''fontSize'', JNum (JFin 48)),
     (''color'', JStr ''auto''), (''align'', JStr ''center''), (''bold'', JBool True)]]\<rparr>"

definition defaultParkLayout :: lap_card_layout where
  "defaultParkLayout =
     \<lparr>l_version = DASH_LAYOUT_VERSION, l_id = None, l_name = ''Default park screen'', l_background = ''auto'',
      l_widgets = [
     JObj [(''id'', JStr ''soe''), (''type'', JStr ''value''), (''bind'', JStr ''can.soc''), (''format'',
     JStr ''pct''), (''label'', JStr ''SoE %''), (''x'', JNum (JFin 30)), (''y'', JNum (JFin 24)), (''w'',
     JNum (JFin 320)), (''h'', JNum (JFin 150)), (''fontSize'', JNum (JFin 110)), (''color'', JStr ''auto''),
     (''align'', JStr ''center''), (''bold'', JBool True)],
     JObj [(''id'', JStr ''vmax''), (''type'', JStr ''value''), (''bind'', JStr ''can.cellVMax''), (''format'',
     JStr ''volt''), (''label'', JStr ''CELL V MAX''), (''x'', JNum (JFin 380)), (''y'', JNum (JFin 30)),
     (''w'', JNum (JFin 180)), (''h'', JNum (JFin 96)), (''fontSize'', JNum (JFin 46)), (''color'',
     JStr ''auto''), (''align'', JStr ''center''), (''bold'', JBool True)],
     JObj [(''id'', JStr ''vmin''), (''type'', JStr ''value''), (''bind'', JStr ''can.cellVMin''), (''format'',
     JStr ''volt''), (''label'', JStr ''CELL V MIN''), (''x'', JNum (JFin 580)), (''y'', JNum (JFin 30)),
     (''w'', JNum (JFin 180)), (''h'', JNum (JFin 96)), (''fontSize'', JNum (JFin 46)), (''color'',
     JStr ''auto''), (''align'', JStr ''center''), (''bold'', JBool True)],
     JObj [(''id'', JStr ''vspread''), (''type'', JStr ''value''), (''bind'', JStr ''can.cellVSpread''),
     (''format'', JStr ''float2''), (''label'', JStr ''SPREAD V''), (''x'', JNum (JFin 380)), (''y'',
     JNum (JFin 140)), (''w'', JNum (JFin 180)), (''h'', JNum (JFin 96)), (''fontSize'', JNum (JFin 46)),
     (''color'', JStr ''auto''), (''align'', JStr ''center''), (''bold'', JBool True), (''thresholds'',
     JArr [JObj [(''cmp'', JStr ''gt''), (''value'', JNum (JFin (5 / 100))), (''color'', JStr ''#FFD700'')],
     JObj [(''cmp'', JStr ''gt''), (''value'', JNum (JFin (1 / 10))), (''color'', JStr ''#FF3333'')]])],
     JObj [(''id'', JStr ''net''), (''type'', JStr ''value''), (''bind'', JStr ''can.vcuNetEnergyWh''),
     (''format'', JStr ''wh''), (''label'', JStr ''NET Wh''), (''x'', JNum (JFin 580)), (''y'',
     JNum (JFin 140)), (''w'', JNum (JFin 180)), (''h'', JNum (JFin 96)), (''fontSize'', JNum (JFin 46)),
     (''color'', JStr ''auto''), (''align'', JStr ''center''), (''bold'', JBool True)],
     JObj [(''id'', JStr ''tmax''), (''type'', JStr ''value''), (''bind'', JStr ''can.cellTempMax''),
     (''format'', JStr ''temp''), (''label'', JStr ''CELL T MAX''), (''x'', JNum (JFin 30)), (''y'',
     JNum (JFin 260)), (''w'', JNum (JFin 180)), (''h'', JNum (JFin 90)), (''fontSize'', JNum (JFin 42)),
     (''color'', JStr ''auto''), (''align'', JStr ''center''), (''bold'', JBool True), (''thresholds'',
     JArr [JObj [(''cmp'', JStr ''gt''), (''value'', JNum (JFin 50)), (''color'', JStr ''#FFD700'')],
     JObj [(''cmp'', JStr ''gt''), (''value'', JNum (JFin 60)), (''color'', JStr ''#FF3333'')]])],
     JObj [(''id'', JStr ''motor''), (''type'', JStr ''value''), (''bind'', JStr ''can.motorTemp''),
     (''format'', JStr ''temp''), (''label'', JStr (''MOTOR '' @ u8 [0xC2, 0xB0] @ ''C'')), (''x'',
     JNum (JFin 230)), (''y'', JNum (JFin 260)), (''w'', JNum (JFin 180)), (''h'', JNum (JFin 90)),
     (''fontSize'', JNum (JFin 42)), (''color'', JStr ''auto''), (''align'', JStr ''center''), (''bold'',
     JBool True)],
     JObj [(''id'', JStr ''inv''), (''type'', JStr ''value''), (''bind'', JStr ''can.inverterTemp''),
     (''format'', JStr ''temp''), (''label'', JStr (''INV '' @ u8 [0xC2, 0xB0] @ ''C'')), (''x'',
     JNum (JFin 430)), (''y'', JNum (JFin 260)), (''w'', JNum (JFin 160)), (''h'', JNum (JFin 90)),
     (''fontSize'', JNum (JFin 42)), (''color'', JStr ''auto''), (''align'', JStr ''center''), (''bold'',
     JBool True)],
     JObj [(''id'', JStr ''hv''), (''type'', JStr ''value''), (''bind'', JStr ''can.hvVoltage''), (''format'',
     JStr ''volt''), (''label'', JStr ''HV V''), (''x'', JNum (JFin 610)), (''y'', JNum (JFin 260)), (''w'',
     JNum (JFin 150)), (''h'', JNum (JFin 90)), (''fontSize'', JNum (JFin 42)), (''color'', JStr ''auto''),
     (''align'', JStr ''center''), (''bold'', JBool True)],
     JObj [(''id'', JStr ''bias''), (''type'', JStr ''value''), (''bind'', JStr ''can.brakeBias''),
     (''format'', JStr ''pct''), (''label'', JStr ''BIAS F %''), (''x'', JNum (JFin 30)), (''y'',
     JNum (JFin 372)), (''w'', JNum (JFin 180)), (''h'', JNum (JFin 84)), (''fontSize'', JNum (JFin 40)),
     (''color'', JStr ''auto''), (''align'', JStr ''center''), (''bold'', JBool True)],
     JObj [(''id'', JStr ''pwr''), (''type'', JStr ''value''), (''bind'', JStr ''can.power''), (''format'',
     JStr ''kw''), (''label'', JStr ''PACK kW''), (''x'', JNum (JFin 230)), (''y'', JNum (JFin 372)), (''w'',
     JNum (JFin 180)), (''h'', JNum (JFin 84)), (''fontSize'', JNum (JFin 40)), (''color'', JStr ''auto''),
     (''align'', JStr ''center''), (''bold'', JBool True)],
     JObj [(''id'', JStr ''regen''), (''type'', JStr ''value''), (''bind'', JStr ''can.vcuRegenEnergyWh''),
     (''format'', JStr ''wh''), (''label'', JStr ''REGEN Wh''), (''x'', JNum (JFin 430)), (''y'',
     JNum (JFin 372)), (''w'', JNum (JFin 330)), (''h'', JNum (JFin 84)), (''fontSize'', JNum (JFin 40)),
     (''color'', JStr ''auto''), (''align'', JStr ''center''), (''bold'', JBool True)]]\<rparr>"

definition defaultDrivingLayout :: lap_card_layout where
  "defaultDrivingLayout =
     \<lparr>l_version = DASH_LAYOUT_VERSION, l_id = None, l_name = ''Default driving screen'', l_background = ''auto'',
      l_widgets = [
     JObj [(''id'', JStr ''soe''), (''type'', JStr ''value''), (''bind'', JStr ''can.soc''), (''format'',
     JStr ''pct''), (''label'', JStr ''SoE''), (''x'', JNum (JFin 300)), (''y'', JNum (JFin 6)), (''w'',
     JNum (JFin 200)), (''h'', JNum (JFin 60)), (''fontSize'', JNum (JFin 40)), (''color'', JStr ''auto''),
     (''align'', JStr ''center''), (''bold'', JBool True), (''thresholds'', JArr [JObj [(''cmp'', JStr ''lt''),
     (''value'', JNum (JFin 20)), (''color'', JStr ''#FFD700'')], JObj [(''cmp'', JStr ''lt''), (''value'',
     JNum (JFin 10)), (''color'', JStr ''#FF3333'')]])],
     JObj [(''id'', JStr ''speed''), (''type'', JStr ''gauge''), (''bind'', JStr ''can.speed''), (''min'',
     JNum (JFin 0)), (''max'', JNum (JFin 80)), (''label'', JStr ''MPH''), (''color'', JStr ''gradient''),
     (''format'', JStr ''int''), (''x'', JNum (JFin 40)), (''y'', JNum (JFin 80)), (''w'', JNum (JFin 320)),
     (''h'', JNum (JFin 300))],
     JObj [(''id'', JStr ''power''), (''type'', JStr ''gauge''), (''bind'', JStr ''can.power''), (''min'',
     JNum (JFin (- 80))), (''max'', JNum (JFin 80)), (''label'', JStr ''kW''), (''mode'',
     JStr ''bidirectional''), (''format'', JStr ''kw''), (''x'', JNum (JFin 440)), (''y'', JNum (JFin 80)),
     (''w'', JNum (JFin 320)), (''h'', JNum (JFin 300))],
     JObj [(''id'', JStr ''delta''), (''type'', JStr ''delta''), (''bind'', JStr ''mqtt.lapDelta''),
     (''format'', JStr ''laptime''), (''label'', JStr (u8 [0xCE, 0x94] @ '' LAP'')), (''fontSize'',
     JNum (JFin 44)), (''x'', JNum (JFin 40)), (''y'', JNum (JFin 396)), (''w'', JNum (JFin 240)), (''h'',
     JNum (JFin 76)), (''goodSign'', JStr ''negative''), (''showArrow'', JBool True)],
     JObj [(''id'', JStr ''used''), (''type'', JStr ''value''), (''bind'', JStr ''pacing.lapEnergyWh''),
     (''format'', JStr ''wh''), (''label'', JStr ''USED Wh''), (''fontSize'', JNum (JFin 40)), (''x'',
     JNum (JFin 300)), (''y'', JNum (JFin 396)), (''w'', JNum (JFin 200)), (''h'', JNum (JFin 76)), (''color'',
     JStr ''auto''), (''align'', JStr ''center''), (''bold'', JBool True)],
     JObj [(''id'', JStr ''budget''), (''type'', JStr ''delta''), (''bind'', JStr ''pacing.budgetDeltaWh''),
     (''format'', JStr ''whSigned''), (''label'', JStr (''BUDGET '' @ u8 [0xCE, 0x94])), (''fontSize'',
     JNum (JFin 40)), (''x'', JNum (JFin 520)), (''y'', JNum (JFin 396)), (''w'', JNum (JFin 240)), (''h'',
     JNum (JFin 76)), (''goodSign'', JStr ''negative''), (''showArrow'', JBool False)]]\<rparr>"

record screen_def =
  s_id :: string
  s_name :: string
  s_topic :: string
  s_libraryKey :: string
  s_contextRoots :: "string list"
  s_build :: lap_card_layout

definition lapCard_screen :: screen_def where
  "lapCard_screen = \<lparr>s_id = ''lapCard'', s_name = ''Lap Card'', s_topic = ''layout'',
     s_libraryKey = ''dash-lap-layouts'', s_contextRoots = [''lapCard'', ''pacing'', ''can'', ''mqtt''],
     s_build = defaultLapCardLayout\<rparr>"

definition driving_screen :: screen_def where
  "driving_screen = \<lparr>s_id = ''driving'', s_name = ''Primary / Driving'', s_topic = ''drivingLayout'',
     s_libraryKey = ''dash-driving-layouts'', s_contextRoots = [''can'', ''pacing'', ''mqtt''],
     s_build = defaultDrivingLayout\<rparr>"

definition park_screen :: screen_def where
  "park_screen = \<lparr>s_id = ''park'', s_name = ''Park / Pit'', s_topic = ''parkLayout'',
     s_libraryKey = ''dash-park-layouts'', s_contextRoots = [''can'', ''pacing'', ''mqtt''],
     s_build = defaultParkLayout\<rparr>"

definition DASH_SCREENS :: "screen_def list" where
  "DASH_SCREENS = [lapCard_screen, driving_screen, park_screen]"

definition screenDef :: "string \<Rightarrow> screen_def" where
  "screenDef i = (case List.find (\<lambda>s. s_id s = i) DASH_SCREENS of Some s \<Rightarrow> s | None \<Rightarrow> DASH_SCREENS ! 0)"

definition fieldsForScreen :: "string \<Rightarrow> field_def list" where
  "fieldsForScreen i = filter (\<lambda>f. bindRoot (f_bind f) \<in> set (s_contextRoots (screenDef i))) FIELD_CATALOG"

definition deltaBoardLayout :: lap_card_layout where
  "deltaBoardLayout =
     \<lparr>l_version = DASH_LAYOUT_VERSION, l_id = None, l_name = ''Delta board'', l_background = ''auto'',
      l_widgets = [
     JObj [(''id'', JStr ''time''), (''type'', JStr ''value''), (''bind'', JStr ''lapCard.timeS''),
     (''format'', JStr ''laptime''), (''x'', JNum (JFin 100)), (''y'', JNum (JFin 40)), (''w'',
     JNum (JFin 600)), (''h'', JNum (JFin 130)), (''fontSize'', JNum (JFin 96)), (''color'', JStr ''auto''),
     (''align'', JStr ''center''), (''bold'', JBool True)],
     JObj [(''id'', JStr ''lapd''), (''type'', JStr ''delta''), (''bind'', JStr ''mqtt.lapDelta''),
     (''format'', JStr ''float2''), (''x'', JNum (JFin 60)), (''y'', JNum (JFin 220)), (''w'',
     JNum (JFin 320)), (''h'', JNum (JFin 130)), (''fontSize'', JNum (JFin 80)), (''align'', JStr ''center''),
     (''bold'', JBool True), (''label'', JStr (''LAP '' @ u8 [0xCE, 0x94])), (''goodSign'', JStr ''negative''),
     (''showArrow'', JBool True), (''showSign'', JBool True)],
     JObj [(''id'', JStr ''budd''), (''type'', JStr ''delta''), (''bind'', JStr ''pacing.budgetDeltaWh''),
     (''format'', JStr ''whSigned''), (''x'', JNum (JFin 420)), (''y'', JNum (JFin 220)), (''w'',
     JNum (JFin 320)), (''h'', JNum (JFin 130)), (''fontSize'', JNum (JFin 80)), (''align'', JStr ''center''),
     (''bold'', JBool True), (''label'', JStr (''BUDGET '' @ u8 [0xCE, 0x94] @ '' Wh'')), (''goodSign'',
     JStr ''negative''), (''showArrow'', JBool True), (''showSign'', JBool True)],
     JObj [(''id'', JStr ''lapn''), (''type'', JStr ''value''), (''bind'', JStr ''lapCard.lapNumber''),
     (''format'', JStr ''int''), (''label'', JStr ''LAP''), (''x'', JNum (JFin 300)), (''y'', JNum (JFin 380)),
     (''w'', JNum (JFin 200)), (''h'', JNum (JFin 60)), (''fontSize'', JNum (JFin 40)), (''color'',
     JStr ''#d97757''), (''align'', JStr ''center''), (''bold'', JBool True)]]\<rparr>"

definition energyStrategyLayout :: lap_card_layout where
  "energyStrategyLayout =
     \<lparr>l_version = DASH_LAYOUT_VERSION, l_id = None, l_name = ''Energy strategy'', l_background = ''auto'',
      l_widgets = [
     JObj [(''id'', JStr ''soc''), (''type'', JStr ''gauge''), (''bind'', JStr ''can.soc''), (''min'',
     JNum (JFin 0)), (''max'', JNum (JFin 100)), (''label'', JStr ''SOC''), (''color'', JStr ''gradient''),
     (''mode'', JStr ''standard''), (''format'', JStr ''pct''), (''x'', JNum (JFin 60)), (''y'',
     JNum (JFin 130)), (''w'', JNum (JFin 220)), (''h'', JNum (JFin 220))],
     JObj [(''id'', JStr ''lapnrg''), (''type'', JStr ''value''), (''bind'', JStr ''lapCard.energyWh''),
     (''format'', JStr ''wh''), (''label'', JStr ''Wh / LAP''), (''x'', JNum (JFin 320)), (''y'',
     JNum (JFin 90)), (''w'', JNum (JFin 420)), (''h'', JNum (JFin 120)), (''fontSize'', JNum (JFin 84)),
     (''color'', JStr ''auto''), (''align'', JStr ''center''), (''bold'', JBool True)],
     JObj [(''id'', JStr ''budbar''), (''type'', JStr ''bar''), (''bind'', JStr ''pacing.budgetDeltaWh''),
     (''min'', JNum (JFin (- 100))), (''max'', JNum (JFin 100)), (''color'', JStr ''#d97757''),
     (''bidirectional'', JBool True), (''signColored'', JBool True), (''goodSign'', JStr ''negative''),
     (''label'', JStr (''BUDGET '' @ u8 [0xCE, 0x94])), (''x'', JNum (JFin 320)), (''y'', JNum (JFin 240)),
     (''w'', JNum (JFin 420)), (''h'', JNum (JFin 56))],
     JObj [(''id'', JStr ''laps''), (''type'', JStr ''value''), (''bind'', JStr ''mqtt.lapsRemaining''),
     (''format'', JStr ''int''), (''label'', JStr ''LAPS LEFT''), (''x'', JNum (JFin 320)), (''y'',
     JNum (JFin 330)), (''w'', JNum (JFin 420)), (''h'', JNum (JFin 100)), (''fontSize'', JNum (JFin 64)),
     (''color'', JStr ''auto''), (''align'', JStr ''center''), (''bold'', JBool True)]]\<rparr>"

definition lapTimeFocusLayout :: lap_card_layout where
  "lapTimeFocusLayout =
     \<lparr>l_version = DASH_LAYOUT_VERSION, l_id = None, l_name = ''Lap-time focus'', l_background = ''auto'',
      l_widgets = [
     JObj [(''id'', JStr ''lapn''), (''type'', JStr ''value''), (''bind'', JStr ''lapCard.lapNumber''),
     (''format'', JStr ''int''), (''label'', JStr ''LAP''), (''x'', JNum (JFin 250)), (''y'', JNum (JFin 50)),
     (''w'', JNum (JFin 300)), (''h'', JNum (JFin 60)), (''fontSize'', JNum (JFin 38)), (''color'',
     JStr ''#d97757''), (''align'', JStr ''center''), (''bold'', JBool True)],
     JObj [(''id'', JStr ''time''), (''type'', JStr ''value''), (''bind'', JStr ''lapCard.timeS''),
     (''format'', JStr ''laptime''), (''x'', JNum (JFin 60)), (''y'', JNum (JFin 140)), (''w'',
     JNum (JFin 680)), (''h'', JNum (JFin 180)), (''fontSize'', JNum (JFin 128)), (''color'', JStr ''auto''),
     (''align'', JStr ''center''), (''bold'', JBool True)],
     JObj [(''id'', JStr ''best''), (''type'', JStr ''value''), (''bind'', JStr ''mqtt.bestLapTime''),
     (''format'', JStr ''laptime''), (''label'', JStr ''BEST''), (''x'', JNum (JFin 250)), (''y'',
     JNum (JFin 350)), (''w'', JNum (JFin 300)), (''h'', JNum (JFin 80)), (''fontSize'', JNum (JFin 44)),
     (''color'', JStr ''auto''), (''align'', JStr ''center''), (''bold'', JBool True)]]\<rparr>"

definition LAYOUT_TEMPLATES :: "(string \<times> string \<times> lap_card_layout) list" where
  "LAYOUT_TEMPLATES =
     [(''default'', ''Default lap card'', defaultLapCardLayout),
      (''delta'', ''Delta board'', deltaBoardLayout),
      (''energy'', ''Energy strategy'', energyStrategyLayout),
      (''laptime'', ''Lap-time focus'', lapTimeFocusLayout)]"

subsection \<open>Lenient validation\<close>

definition WIDGET_TYPES :: "string list" where
  "WIDGET_TYPES = [''text'', ''value'', ''bar'', ''gauge'', ''delta'']"

definition usable_widget :: "json \<Rightarrow> bool" where
  "usable_widget w \<longleftrightarrow> is_object w \<and> is_str (field w ''id'') \<and> one_of WIDGET_TYPES (field w ''type'')
     \<and> is_num (field w ''x'') \<and> is_num (field w ''y'')"

definition validateLapCardLayout :: "json \<Rightarrow> lap_card_layout option" where
  "validateLapCardLayout raw =
     (if \<not> is_object raw then None
      else case field raw ''widgets'' of
        JArr ws \<Rightarrow> Some
          \<lparr>l_version = (case field raw ''version'' of JNum x \<Rightarrow> x | _ \<Rightarrow> DASH_LAYOUT_VERSION),
           l_id = as_str (field raw ''id''),
           l_name = (case field raw ''name'' of JStr s \<Rightarrow> s | _ \<Rightarrow> ''Lap card''),
           l_background = (case field raw ''background'' of JStr s \<Rightarrow> s | _ \<Rightarrow> ''auto''),
           l_widgets = filter usable_widget ws\<rparr>
      | _ \<Rightarrow> None)"

text \<open>The object a layout is, as it is stored and sent.\<close>

definition layout_json :: "lap_card_layout \<Rightarrow> json" where
  "layout_json l = JObj
     [(''version'', JNum (l_version l)),
      (''id'', (case l_id l of None \<Rightarrow> JUndef | Some s \<Rightarrow> JStr s)),
      (''name'', JStr (l_name l)),
      (''background'', JStr (l_background l)),
      (''widgets'', JArr (l_widgets l))]"

definition sampleLapCardData :: json where
  "sampleLapCardData = JObj [(''lapCard'', JObj [(''lapNumber'', JNum (JFin 7)), (''timeS'', JNum (JFin (8436 / 100))), (''energyWh'',
     JNum (JFin 213))]), (''pacing'', JObj [(''lapEnergyWh'', JNum (JFin 213)), (''budgetDeltaWh'',
     JNum (JFin (- 12))), (''lapBudgetWh'', JNum (JFin 225)), (''lapElapsedS'', JNum (JFin (8436 / 100))),
     (''lapNumber'', JNum (JFin 7)), (''lastLapNumber'', JNum (JFin 7)), (''lastLapTimeS'',
     JNum (JFin (8436 / 100))), (''lastLapEnergyWh'', JNum (JFin 213))]), (''can'', JObj [(''soc'',
     JNum (JFin 62)), (''temperature'', JNum (JFin (415 / 10))), (''power'', JNum (JFin 47)), (''speed'',
     JNum (JFin 38)), (''eventMode'', JNum (JFin 4)), (''vcuNetEnergyWh'', JNum (JFin 4120)),
     (''vcuRegenEnergyWh'', JNum (JFin 615)), (''cellVMax'', JNum (JFin (402 / 100))), (''cellVMin'',
     JNum (JFin (391 / 100))), (''cellVSpread'', JNum (JFin (11 / 100))), (''cellTempMax'',
     JNum (JFin (462 / 10))), (''cellTempAvg'', JNum (JFin (428 / 10))), (''cellTempMin'',
     JNum (JFin (384 / 10))), (''motorTemp'', JNum (JFin 64)), (''inverterTemp'', JNum (JFin 52)),
     (''coolantTemp'', JNum (JFin 38)), (''apps'', JNum (JFin 0)), (''bpps'', JNum (JFin 0)), (''brakeBias'',
     JNum (JFin 54)), (''brakePressureFront'', JNum (JFin 0)), (''brakePressureRear'', JNum (JFin 0)),
     (''hvVoltage'', JNum (JFin (4493 / 10))), (''hvCurrent'', JNum (JFin 10)), (''lvVoltage'',
     JNum (JFin 25)), (''lvCurrent'', JNum (JFin (93 / 10))), (''wheelSpeedFL'', JNum (JFin 38)),
     (''wheelSpeedFR'', JNum (JFin 38)), (''wheelSpeedRL'', JNum (JFin 38)), (''wheelSpeedRR'',
     JNum (JFin 38))]), (''mqtt'', JObj [(''lapDelta'', JNum (JFin (- (42 / 100)))), (''energyDelta'',
     JNum (JFin (- 12))), (''lapsRemaining'', JNum (JFin 15)), (''lapsRemainingEnergy'', JNum (JFin 14)),
     (''targetPower'', JNum (JFin 30)), (''bestLapTime'', JNum (JFin (831 / 10))), (''lastLapTime'',
     JNum (JFin (8436 / 100))), (''currentLapTime'', JNum (JFin (8436 / 100))), (''lapDeltaRate'',
     JNum (JFin (8 / 100))), (''lapTrigger'', JNum (JFin 7))])]"

end
