(* ===== verification/DashRender.thy ===== *)
theory DashRender
  imports DashLayout
begin

text \<open>
  What the lap-card renderer computes for each widget, from
  \<^verbatim>\<open>viewer_tool/src/components/dashlayout/LapCardRenderer.tsx\<close>: the value bound, the text, the
  colour and the geometry of bars and gauges. The surrounding markup is left out. An exception
  during rendering is the error value.

  \<^verbatim>\<open>Math.PI\<close> is the exact value of the double.
\<close>

subsection \<open>Reading a widget\<close>

definition color_spec_of :: "json \<Rightarrow> color_spec" where
  "color_spec_of w = \<lparr>color = as_str (field w ''color''), colorDark = as_str (field w ''colorDark''),
     colorLight = as_str (field w ''colorLight'')\<rparr>"

definition rule_of :: "json \<Rightarrow> rule option" where
  "rule_of r =
     (let mk = (\<lambda>c. Some \<lparr>r_cmp = c, r_value = to_number (field r ''value''),
                          r_color = (case field r ''color'' of JStr s \<Rightarrow> s | _ \<Rightarrow> [])\<rparr>)
      in if field r ''cmp'' = JStr ''lt'' then mk Lt
         else if field r ''cmp'' = JStr ''gt'' then mk Gt else None)"

definition rules_of :: "json \<Rightarrow> rule list option" where
  "rules_of v = map_option (List.map_filter rule_of) (as_arr v)"

definition value_map_of :: "json \<Rightarrow> (string \<times> string) list option" where
  "value_map_of v = (case v of
       JObj m \<Rightarrow> Some (List.map_filter (\<lambda>(k, x). map_option (Pair k) (as_str x)) m) | _ \<Rightarrow> None)"

definition format_of :: "json \<Rightarrow> string" where
  "format_of v = (case v of JStr s \<Rightarrow> s | _ \<Rightarrow> [])"

definition sign_of :: "json \<Rightarrow> good_sign" where
  "sign_of v = (if v = JStr ''positive'' then GPositive else GNegative)"

text \<open>\<^verbatim>\<open>getByPath(data, w.bind)\<close>: splitting a bind that is not a string throws.\<close>

definition bound_value :: "json \<Rightarrow> json \<Rightarrow> js_error + rat option" where
  "bound_value data w = (case field w ''bind'' of
       JStr s \<Rightarrow> Inr (getByPath data s) | _ \<Rightarrow> Inl TypeError)"

subsection \<open>Geometry\<close>

definition MATH_PI :: rat where "MATH_PI = 884279719003555 / 281474976710656"

definition gauge_circ :: rat where
  "gauge_circ = (160 - 14) / 2 * (9 * MATH_PI / 4 - 3 * MATH_PI / 4)"

definition unit_clamp :: "jsnum \<Rightarrow> jsnum" where
  "unit_clamp x = js_min (JFin 1) (js_max (JFin 0) x)"

definition gauge_pct :: "jsnum \<Rightarrow> jsnum \<Rightarrow> jsnum \<Rightarrow> jsnum" where
  "gauge_pct v lo hi = unit_clamp ((js_min (js_max v lo) hi - lo) / (hi - lo))"

definition gauge_zero :: "jsnum \<Rightarrow> jsnum \<Rightarrow> jsnum" where
  "gauge_zero lo hi = (JFin 0 - lo) / (hi - lo)"

text \<open>The dash pattern and offset of the arc.\<close>

definition gauge_dash :: "bool \<Rightarrow> jsnum \<Rightarrow> jsnum \<Rightarrow> jsnum \<Rightarrow> jsnum list \<times> jsnum" where
  "gauge_dash bidir v lo hi =
     (let c = JFin gauge_circ; pct = gauge_pct v lo hi; zero = gauge_zero lo hi
      in if bidir
         then (let sg = c * js_min zero pct; fl = c * js_abs (pct - zero)
               in ([JFin 0, sg, fl, c - sg - fl], JFin 0))
         else ([c, c], c - pct * c))"

definition gauge_stroke :: "bool \<Rightarrow> jsnum \<Rightarrow> string \<Rightarrow> string" where
  "gauge_stroke bidir v col =
     (if bidir then (if v < JFin 0 then DELTA_GOOD else ''#d97757'')
      else if col = ''gradient'' then ''url(#lg)'' else col)"

definition bar_span :: "jsnum \<Rightarrow> jsnum \<Rightarrow> jsnum" where
  "bar_span lo hi = (if hi - lo = JFin 0 \<or> hi - lo = JNaN then JFin 1 else hi - lo)"

definition bar_pct :: "jsnum \<Rightarrow> jsnum \<Rightarrow> jsnum \<Rightarrow> jsnum" where
  "bar_pct v lo hi = unit_clamp ((v - lo) / bar_span lo hi)"

text \<open>The left edge and the width of the fill, as shares of the track.\<close>

definition bar_fill :: "bool \<Rightarrow> jsnum \<Rightarrow> jsnum \<Rightarrow> jsnum \<Rightarrow> jsnum \<times> jsnum" where
  "bar_fill bidir v lo hi =
     (let pct = bar_pct v lo hi; zero = bar_pct (JFin 0) lo hi
      in if bidir then (js_min zero pct, js_abs (pct - zero)) else (JFin 0, pct))"

subsection \<open>The views\<close>

datatype drawn =
    DText string json
  | DValue string string
  | DBar string "jsnum \<times> jsnum"
  | DDelta string string
  | DGauge string string "jsnum list \<times> jsnum"

definition value_view :: "(rat \<Rightarrow> string) \<Rightarrow> card_theme \<Rightarrow> rat option \<Rightarrow> json \<Rightarrow> drawn" where
  "value_view show theme val w =
     (let v = map_option JFin val; pal = CARD_THEMES theme
      in DValue (valueColor v (resolveColor (color_spec_of w) theme (fg pal)) (rules_of (field w ''thresholds'')))
                (applyValueMap show v (format_of (field w ''format'')) (value_map_of (field w ''valueMap''))
                               (as_num (field w ''decimals''))))"

definition bar_view :: "card_theme \<Rightarrow> rat option \<Rightarrow> json \<Rightarrow> drawn" where
  "bar_view theme v w =
     (let lo = to_number (field w ''min''); hi = to_number (field w ''max'');
          val = (case v of None \<Rightarrow> lo | Some r \<Rightarrow> JFin r);
          base = resolveColor (color_spec_of w) theme ''#d97757'';
          bidir = truthy (field w ''bidirectional'');
          fill = (if truthy (field w ''signColored'')
                  then deltaColor (Some val) (sign_of (field w ''goodSign'')) DELTA_GOOD DELTA_BAD DELTA_ZERO
                  else if bidir then (if JFin 0 \<le> val then base else DELTA_GOOD) else base)
      in DBar fill (bar_fill bidir val lo hi))"

definition delta_text :: "(rat \<Rightarrow> string) \<Rightarrow> rat option \<Rightarrow> json \<Rightarrow> string" where
  "delta_text show val w =
     (let mag = formatValue show (map_option JFin val) (format_of (field w ''format'')) (as_num (field w ''decimals''));
          pos = (case val of Some r \<Rightarrow> r > 0 | None \<Rightarrow> False);
          signed_mag = (if pos \<and> field w ''showSign'' \<noteq> JBool False then ''+'' @ mag else mag);
          arrow = (case val of
                     Some r \<Rightarrow> if truthy (field w ''showArrow'') \<and> r \<noteq> 0
                              then u8 (if r > 0 then [0xE2, 0x96, 0xB2] else [0xE2, 0x96, 0xBC]) @ '' '' else []
                   | None \<Rightarrow> [])
      in arrow @ signed_mag)"

definition delta_view :: "(rat \<Rightarrow> string) \<Rightarrow> card_theme \<Rightarrow> rat option \<Rightarrow> json \<Rightarrow> drawn" where
  "delta_view show theme val w =
     DDelta (deltaColor (map_option JFin val) (sign_of (field w ''goodSign''))
               (str_or DELTA_GOOD (field w ''goodColor'')) (str_or DELTA_BAD (field w ''badColor''))
               (str_or (muted (CARD_THEMES theme)) (field w ''zeroColor'')))
            (delta_text show val w)"

definition gauge_view :: "(rat \<Rightarrow> string) \<Rightarrow> card_theme \<Rightarrow> rat option \<Rightarrow> json \<Rightarrow> drawn" where
  "gauge_view show theme val w =
     (let lo = to_number (field w ''min''); hi = to_number (field w ''max'');
          v = (case val of None \<Rightarrow> lo | Some r \<Rightarrow> JFin r);
          bidir = (field w ''mode'' = JStr ''bidirectional'');
          col = resolveColor (color_spec_of w) theme (str_or ''gradient'' (field w ''color''))
      in DGauge (gauge_stroke bidir v col)
           (formatValue show (map_option JFin val) (str_or ''int'' (field w ''format'')) (as_num (field w ''decimals'')))
           (gauge_dash bidir v lo hi))"

definition render_widget :: "(rat \<Rightarrow> string) \<Rightarrow> card_theme \<Rightarrow> json \<Rightarrow> json \<Rightarrow> js_error + drawn" where
  "render_widget show theme data w =
     (if field w ''type'' = JStr ''text''
      then Inr (DText (resolveColor (color_spec_of w) theme (fg (CARD_THEMES theme))) (field w ''text''))
      else case bound_value data w of
        Inl e \<Rightarrow> Inl e
      | Inr val \<Rightarrow>
          if field w ''type'' = JStr ''value'' then Inr (value_view show theme val w)
          else if field w ''type'' = JStr ''bar'' then Inr (bar_view theme val w)
          else if field w ''type'' = JStr ''delta'' then Inr (delta_view show theme val w)
          else Inr (gauge_view show theme val w))"


subsection \<open>The validator\<close>

lemma field_layout_json:
  "field (layout_json l) ''widgets'' = JArr (l_widgets l)"
  "field (layout_json l) ''version'' = JNum (l_version l)"
  "field (layout_json l) ''id'' = (case l_id l of None \<Rightarrow> JUndef | Some s \<Rightarrow> JStr s)"
  "field (layout_json l) ''name'' = JStr (l_name l)"
  "field (layout_json l) ''background'' = JStr (l_background l)"
  by (simp_all add: layout_json_def)

lemma validate_layout_json:
  "validateLapCardLayout (layout_json l) = Some (l\<lparr>l_widgets := filter usable_widget (l_widgets l)\<rparr>)"
  by (simp add: validateLapCardLayout_def field_layout_json) (simp add: layout_json_def split: option.splits)

lemma validate_widgets:
  "validateLapCardLayout raw = Some l \<Longrightarrow>
     \<exists>ws. field raw ''widgets'' = JArr ws \<and> l_widgets l = filter usable_widget ws"
  by (auto simp: validateLapCardLayout_def split: if_splits json.splits)

lemma widget_ok_usable: "widget_ok w \<Longrightarrow> usable_widget w"
proof -
  assume ok: "widget_ok w"
  have base: "usable_widget w" if "base_widget t w" "t \<in> set WIDGET_TYPES" for t
    using that by (cases w)
      (auto simp: base_widget_def usable_widget_def is_str_def is_num_def one_of_def split: json.splits)
  from ok obtain t where "base_widget t w" "t \<in> set WIDGET_TYPES"
    unfolding widget_ok_def
    by (auto simp: text_widget_def value_widget_def bar_widget_def gauge_widget_def delta_widget_def WIDGET_TYPES_def)
  then show ?thesis by (rule base)
qed

subsection \<open>The built-in layouts\<close>

definition inside_card :: "json \<Rightarrow> bool" where
  "inside_card w = (case (field w ''x'', field w ''y'', field w ''w'', field w ''h'') of
     (JNum (JFin x), JNum (JFin y), JNum (JFin ww), JNum (JFin hh)) \<Rightarrow>
        0 \<le> x \<and> 0 \<le> y \<and> 0 < ww \<and> 0 < hh \<and> x + ww \<le> LAP_CARD_W \<and> y + hh \<le> LAP_CARD_H
   | _ \<Rightarrow> False)"

definition bind_in :: "string list \<Rightarrow> json \<Rightarrow> bool" where
  "bind_in bs w = (case field w ''bind'' of JUndef \<Rightarrow> True | JStr b \<Rightarrow> b \<in> set bs | _ \<Rightarrow> False)"

definition layout_sound :: "string \<Rightarrow> lap_card_layout \<Rightarrow> bool" where
  "layout_sound screen l \<longleftrightarrow> list_all widget_ok (l_widgets l) \<and> list_all inside_card (l_widgets l)
     \<and> distinct (map (\<lambda>w. field w ''id'') (l_widgets l))
     \<and> list_all (bind_in (map f_bind (fieldsForScreen screen))) (l_widgets l)"

lemmas widget_simps =
  text_widget_def value_widget_def bar_widget_def gauge_widget_def delta_widget_def
  base_widget_def is_str_def is_num_def is_bool_def optional_def one_of_def FORMAT_IDS_def ALIGNS_def
  SIGNS_def color_rule_def

lemma widget_ok_type:
  "widget_ok w \<longleftrightarrow>
     (let t = field w ''type'' in
      if t = JStr ''value'' then value_widget w else if t = JStr ''delta'' then delta_widget w
      else if t = JStr ''gauge'' then gauge_widget w else if t = JStr ''bar'' then bar_widget w
      else text_widget w)"
  unfolding widget_ok_def Let_def
  by (auto simp: text_widget_def value_widget_def bar_widget_def gauge_widget_def delta_widget_def base_widget_def)

definition CATALOG_BINDS :: "string list" where
  "CATALOG_BINDS =
     [''lapCard.lapNumber'', ''lapCard.timeS'', ''lapCard.energyWh'', ''mqtt.bestLapTime'',
      ''mqtt.lastLapTime'', ''mqtt.currentLapTime'', ''pacing.lastLapTimeS'',
      ''pacing.lastLapEnergyWh'', ''pacing.lastLapNumber'', ''mqtt.lapTrigger'',
      ''pacing.lapEnergyWh'', ''pacing.lapBudgetWh'', ''pacing.lapElapsedS'',
      ''pacing.lapNumber'', ''mqtt.lapsRemaining'', ''mqtt.targetPower'', ''mqtt.lapDelta'',
      ''pacing.budgetDeltaWh'', ''mqtt.energyDelta'', ''mqtt.energyDeltaStatic'', ''can.soc'',
      ''can.vcuNetEnergyWh'', ''can.vcuRegenEnergyWh'', ''can.power'', ''can.cellVMax'',
      ''can.cellVMin'', ''can.cellVSpread'', ''can.cellTempMax'', ''can.cellTempAvg'',
      ''can.cellTempMin'', ''can.temperature'', ''can.motorTemp'', ''can.inverterTemp'',
      ''can.coolantTemp'', ''can.apps'', ''can.bpps'', ''can.brakeBias'',
      ''can.brakePressureFront'', ''can.brakePressureRear'', ''can.hvVoltage'',
      ''can.hvCurrent'', ''can.lvVoltage'', ''can.lvCurrent'', ''can.speed'',
      ''can.eventMode'', ''can.wheelSpeedFL'', ''can.wheelSpeedFR'', ''can.wheelSpeedRL'',
      ''can.wheelSpeedRR'', ''can.regenEnabled'', ''can.posContactor'', ''can.negContactor'',
      ''can.prechargeContactor'']"

lemma catalog_binds: "map f_bind FIELD_CATALOG = CATALOG_BINDS"
  by (simp add: FIELD_CATALOG_def mk_field_def CATALOG_BINDS_def)

lemma fields_of_screen:
  "map f_bind (fieldsForScreen s) =
     filter (\<lambda>b. bindRoot b \<in> set (s_contextRoots (screenDef s))) (map f_bind FIELD_CATALOG)"
  by (simp add: fieldsForScreen_def filter_map comp_def)

lemma screen_roots:
  "s_contextRoots (screenDef ''lapCard'') = [''lapCard'', ''pacing'', ''can'', ''mqtt'']"
  "s_contextRoots (screenDef ''driving'') = [''can'', ''pacing'', ''mqtt'']"
  "s_contextRoots (screenDef ''park'') = [''can'', ''pacing'', ''mqtt'']"
  by (simp_all add: screenDef_def DASH_SCREENS_def lapCard_screen_def driving_screen_def park_screen_def)

definition bound_to :: "string list \<Rightarrow> json \<Rightarrow> bool" where
  "bound_to roots b = (case b of JUndef \<Rightarrow> True
     | JStr s \<Rightarrow> List.member CATALOG_BINDS s \<and> List.member roots (bindRoot s) | _ \<Rightarrow> False)"

lemma bind_in_fields:
  "list_all (bind_in (map f_bind (fieldsForScreen s))) ws \<longleftrightarrow>
     list_all (bound_to (s_contextRoots (screenDef s))) (map (\<lambda>w. field w ''bind'') ws)"
  unfolding bind_in_def fields_of_screen catalog_binds
  by (auto simp: bound_to_def list_all_iff split: json.splits)

lemmas inside_simps = inside_card_def LAP_CARD_W_def LAP_CARD_H_def

lemma layout_soundI:
  assumes "list_all widget_ok (l_widgets l)" "list_all inside_card (l_widgets l)"
    "distinct (map (\<lambda>w. field w ''id'') (l_widgets l))"
    "list_all (bound_to (s_contextRoots (screenDef s))) (map (\<lambda>w. field w ''bind'') (l_widgets l))"
  shows "layout_sound s l"
  using assms by (simp add: layout_sound_def bind_in_fields)

lemma lapCard_sound: "layout_sound ''lapCard'' defaultLapCardLayout"
  by (rule layout_soundI; simp add: defaultLapCardLayout_def screen_roots widget_ok_type widget_simps inside_simps) code_simp

lemma park_sound: "layout_sound ''park'' defaultParkLayout"
  by (rule layout_soundI; simp add: defaultParkLayout_def screen_roots widget_ok_type widget_simps inside_simps) code_simp

lemma driving_sound: "layout_sound ''driving'' defaultDrivingLayout"
  by (rule layout_soundI; simp add: defaultDrivingLayout_def screen_roots widget_ok_type widget_simps inside_simps) code_simp

lemma deltaBoard_sound: "layout_sound ''lapCard'' deltaBoardLayout"
  by (rule layout_soundI; simp add: deltaBoardLayout_def screen_roots widget_ok_type widget_simps inside_simps) code_simp

lemma energyStrategy_sound: "layout_sound ''lapCard'' energyStrategyLayout"
  by (rule layout_soundI; simp add: energyStrategyLayout_def screen_roots widget_ok_type widget_simps inside_simps) code_simp

lemma lapTimeFocus_sound: "layout_sound ''lapCard'' lapTimeFocusLayout"
  by (rule layout_soundI; simp add: lapTimeFocusLayout_def screen_roots widget_ok_type widget_simps inside_simps) code_simp


subsection \<open>Geometry stays on the card\<close>

lemma unit_clamp_JFin: "unit_clamp (JFin r) = JFin (clamp_rat 0 1 (max 0 r))"
  by (simp add: unit_clamp_def clamp_rat_def max_def min_def)

lemma unit_clamp_range: "\<exists>p. unit_clamp (JFin r) = JFin p \<and> 0 \<le> p \<and> p \<le> 1"
  using clamp_rat_bounds [of 0 1] by (auto simp: unit_clamp_JFin)

lemma bar_span_JFin: "bar_span (JFin lo) (JFin hi) = JFin (if hi = lo then 1 else hi - lo)"
  by (simp add: bar_span_def)

lemma bar_pct_range: "\<exists>p. bar_pct (JFin v) (JFin lo) (JFin hi) = JFin p \<and> 0 \<le> p \<and> p \<le> 1"
  using unit_clamp_range by (simp add: bar_pct_def bar_span_JFin)

lemma bar_pct_inside:
  "lo < hi \<Longrightarrow> lo \<le> v \<Longrightarrow> v \<le> hi \<Longrightarrow> bar_pct (JFin v) (JFin lo) (JFin hi) = JFin ((v - lo) / (hi - lo))"
  by (simp add: bar_pct_def bar_span_JFin unit_clamp_JFin clamp_rat_def)

lemma gauge_pct_JFin:
  assumes "lo < hi"
  shows "\<exists>p. gauge_pct (JFin v) (JFin lo) (JFin hi) = JFin p \<and> 0 \<le> p \<and> p \<le> 1"
  using assms unit_clamp_range by (simp add: gauge_pct_def)

lemma gauge_pct_inside:
  "lo < hi \<Longrightarrow> lo \<le> v \<Longrightarrow> v \<le> hi \<Longrightarrow> gauge_pct (JFin v) (JFin lo) (JFin hi) = JFin ((v - lo) / (hi - lo))"
  by (simp add: gauge_pct_def unit_clamp_JFin clamp_rat_def)

lemma gauge_circ_pos: "0 < gauge_circ"
  by (simp add: gauge_circ_def MATH_PI_def)

text \<open>The fill of a bar lies on its track, for any finite value and limits, and an unclamped
  value fills its share.\<close>

theorem bar_fill_on_track:
  "(\<exists>a b. bar_fill bidir (JFin v) (JFin lo) (JFin hi) = (JFin a, JFin b) \<and> 0 \<le> a \<and> 0 \<le> b \<and> a + b \<le> 1)
   \<and> (lo < hi \<and> lo \<le> v \<and> v \<le> hi \<longrightarrow>
        bar_fill False (JFin v) (JFin lo) (JFin hi) = (JFin 0, JFin ((v - lo) / (hi - lo))))"
proof -
  obtain p z where p: "bar_pct (JFin v) (JFin lo) (JFin hi) = JFin p" "0 \<le> p" "p \<le> 1"
    and z: "bar_pct (JFin 0) (JFin lo) (JFin hi) = JFin z" "0 \<le> z" "z \<le> 1"
    using bar_pct_range by meson
  have "min z p + \<bar>p - z\<bar> \<le> 1" "0 \<le> min z p" using p z by (auto simp: min_def)
  then show ?thesis
    using p z by (auto simp: bar_fill_def js_abs_def bar_pct_inside Let_def)
qed

theorem bar_fill_on_track_witness:
  "bar_fill False (JFin 30) (JFin 0) (JFin 120) = (JFin 0, JFin (1 / 4))"
  using bar_fill_on_track [of False 30 0 120] by simp

text \<open>The arc of a gauge whose limits are in order. A standard gauge leaves a gap between nothing
  and the whole arc; a bidirectional gauge whose range contains zero draws a dash pattern of
  non-negative pieces that add up to the arc.\<close>

theorem gauge_dash_on_arc:
  assumes "lo < hi"
  shows "(\<exists>off. gauge_dash False (JFin v) (JFin lo) (JFin hi) = ([JFin gauge_circ, JFin gauge_circ], JFin off)
             \<and> 0 \<le> off \<and> off \<le> gauge_circ)
       \<and> (lo \<le> 0 \<and> 0 \<le> hi \<longrightarrow>
            (\<exists>a b c. gauge_dash True (JFin v) (JFin lo) (JFin hi) = ([JFin 0, JFin a, JFin b, JFin c], JFin 0)
                 \<and> 0 \<le> a \<and> 0 \<le> b \<and> 0 \<le> c \<and> a + b + c = gauge_circ))"
proof -
  obtain p where p: "gauge_pct (JFin v) (JFin lo) (JFin hi) = JFin p" "0 \<le> p" "p \<le> 1"
    using gauge_pct_JFin [OF assms] by auto
  define z where "z = (0 - lo) / (hi - lo)"
  have gz: "gauge_zero (JFin lo) (JFin hi) = JFin z"
    using assms by (simp add: gauge_zero_def z_def)
  have std: "\<exists>off. gauge_dash False (JFin v) (JFin lo) (JFin hi) = ([JFin gauge_circ, JFin gauge_circ], JFin off)
             \<and> 0 \<le> off \<and> off \<le> gauge_circ"
    using p gauge_circ_pos mult_right_mono [of p 1 gauge_circ] by (simp add: gauge_dash_def Let_def)
  have "\<exists>a b c. gauge_dash True (JFin v) (JFin lo) (JFin hi) = ([JFin 0, JFin a, JFin b, JFin c], JFin 0)
                 \<and> 0 \<le> a \<and> 0 \<le> b \<and> 0 \<le> c \<and> a + b + c = gauge_circ"
    if "lo \<le> 0" "0 \<le> hi"
  proof -
    have z: "0 \<le> z" "z \<le> 1"
      using that assms by (simp_all add: z_def divide_nonpos_pos pos_le_divide_eq)
    have m: "min z p + \<bar>p - z\<bar> \<le> 1" "0 \<le> min z p" using p z by (auto simp: min_def)
    have "gauge_circ * (min z p + \<bar>p - z\<bar>) \<le> gauge_circ * 1"
      using m gauge_circ_pos by (intro mult_left_mono) auto
    then have rest: "0 \<le> gauge_circ - gauge_circ * min z p - gauge_circ * \<bar>p - z\<bar>"
      by (simp add: algebra_simps)
    show ?thesis
      using m gauge_circ_pos rest
      by (intro exI [of _ "gauge_circ * min z p"] exI [of _ "gauge_circ * \<bar>p - z\<bar>"]
            exI [of _ "gauge_circ - gauge_circ * min z p - gauge_circ * \<bar>p - z\<bar>"])
         (simp add: gauge_dash_def Let_def p gz js_abs_def)
  qed
  with std show ?thesis by blast
qed

theorem gauge_dash_on_arc_witness:
  "\<exists>a b c. gauge_dash True (JFin (- 20)) (JFin (- 80)) (JFin 80) = ([JFin 0, JFin a, JFin b, JFin c], JFin 0)
     \<and> 0 \<le> a \<and> 0 \<le> b \<and> 0 \<le> c \<and> a + b + c = gauge_circ"
  using gauge_dash_on_arc [of "- 80" 80 "- 20"] by simp

subsection \<open>Colour rules\<close>

text \<open>The colour of a value is that of the last rule it meets, the base colour when it meets
  none or is not a usable number.\<close>

theorem valueColor_last_rule:
  "valueColor v base (Some rs) =
     (if usable v then case List.find (rule_matches (the v)) (rev rs) of
        None \<Rightarrow> base | Some r \<Rightarrow> r_color r else base)"
proof -
  have "foldl (\<lambda>c r. if rule_matches x r then r_color r else c) base rs =
          (case List.find (rule_matches x) (rev rs) of None \<Rightarrow> base | Some r \<Rightarrow> r_color r)" for x
    by (induction rs rule: rev_induct) simp_all
  then show ?thesis by (simp add: valueColor_def)
qed

subsection \<open>Rendering\<close>

lemma render_bound:
  "field w ''type'' = JStr ''text'' \<or> is_str (field w ''bind'') \<Longrightarrow> \<exists>d. render_widget show theme data w = Inr d"
  by (auto simp: render_widget_def bound_value_def is_str_def split: json.splits)

lemma widget_ok_bound: "widget_ok w \<Longrightarrow> field w ''type'' = JStr ''text'' \<or> is_str (field w ''bind'')"
  by (auto simp: widget_ok_def text_widget_def value_widget_def bar_widget_def gauge_widget_def
      delta_widget_def base_widget_def)


definition bindless :: json where
  "bindless = JObj [(''id'', JStr ''a''), (''type'', JStr ''value''), (''x'', JNum (JFin 0)), (''y'', JNum (JFin 0))]"

lemma bindless_usable: "usable_widget bindless"
  by (simp add: bindless_def usable_widget_def is_str_def is_num_def one_of_def WIDGET_TYPES_def)


subsection \<open>What the built-in layouts promise\<close>

text \<open>Every built-in screen and every template is well formed: each widget has the type its
  interface promises and lies on the 800 by 480 card, the ids are distinct, and each bind is a
  catalog field the screen receives.\<close>

theorem builtin_layouts_sound:
  "list_all (\<lambda>s. layout_sound (s_id s) (s_build s)) DASH_SCREENS
   \<and> list_all (\<lambda>(_, _, l). layout_sound ''lapCard'' l) LAYOUT_TEMPLATES"
  by (simp add: DASH_SCREENS_def LAYOUT_TEMPLATES_def lapCard_screen_def driving_screen_def park_screen_def
      lapCard_sound driving_sound park_sound deltaBoard_sound energyStrategy_sound lapTimeFocus_sound)

text \<open>A layout survives storage: the validator keeps exactly the usable widgets, in their order,
  and reading back the object it returns gives the same layout. The built-in layouts lose nothing.\<close>

theorem layout_storage_roundtrip:
  "validateLapCardLayout (layout_json l) = Some (l\<lparr>l_widgets := filter usable_widget (l_widgets l)\<rparr>)
   \<and> (validateLapCardLayout raw = Some k \<longrightarrow> validateLapCardLayout (layout_json k) = Some k)
   \<and> (layout_sound s l \<longrightarrow> validateLapCardLayout (layout_json l) = Some l)"
proof -
  have "filter usable_widget (l_widgets k) = l_widgets k" if "validateLapCardLayout raw = Some k"
    using validate_widgets [OF that] by auto
  moreover have "filter usable_widget (l_widgets l) = l_widgets l" if "layout_sound s l"
    using that widget_ok_usable by (auto simp: layout_sound_def list_all_iff filter_id_conv)
  ultimately show ?thesis by (simp add: validate_layout_json)
qed

theorem layout_storage_roundtrip_witness:
  "validateLapCardLayout (layout_json defaultParkLayout) = Some defaultParkLayout"
  using layout_storage_roundtrip [of defaultParkLayout JNull defaultParkLayout "''park''"] park_sound by blast

definition lap_delta_widget :: json where
  "lap_delta_widget = l_widgets defaultDrivingLayout ! 3"

definition budget_delta_widget :: json where
  "budget_delta_widget = l_widgets defaultDrivingLayout ! 5"

lemma driving_delta_fields:
  "field lap_delta_widget ''bind'' = JStr ''mqtt.lapDelta''" "field lap_delta_widget ''format'' = JStr ''laptime''"
  "field lap_delta_widget ''showArrow'' = JBool True" "field lap_delta_widget ''decimals'' = JUndef"
  "field budget_delta_widget ''bind'' = JStr ''pacing.budgetDeltaWh''"
  "field budget_delta_widget ''format'' = JStr ''whSigned''"
  "field budget_delta_widget ''showArrow'' = JBool False" "field budget_delta_widget ''decimals'' = JUndef"
  "field budget_delta_widget ''showSign'' = JUndef"
  by (simp_all add: lap_delta_widget_def budget_delta_widget_def defaultDrivingLayout_def)

text \<open>The two delta readouts of the default driving screen. A positive budget delta is printed
  with its sign twice. A lap that is less than a minute faster than the best one is printed as
  minus one minute and the rest of the minute.\<close>

theorem driving_delta_texts:
  assumes "0 < r" and "r < 60"
  shows "delta_text show (Some r) budget_delta_widget = ''++'' @ round_text r
       \<and> delta_text show (Some (- r)) lap_delta_widget
           = u8 [0xE2, 0x96, 0xBC] @ '' -1:'' @ pad_start 5 (CHR ''0'') (rat_to_fixed 2 (60 - r))"
proof -
  have "\<lfloor>- r / 60\<rfloor> = - 1"
    using assms by (simp add: floor_eq_iff)
  then have "laptime_text (- r) = ''-1:'' @ pad_start 5 (CHR ''0'') (rat_to_fixed 2 (60 - r))"
    by (simp add: laptime_text_def Let_def int_text_def js_simps)
  then show ?thesis
    using assms by (simp add: delta_text_def driving_delta_fields Let_def formatValue_def format_of_def
        usable_def format_default_def signed_def)
qed

theorem driving_delta_texts_witness:
  "delta_text (\<lambda>_. []) (Some 12) budget_delta_widget = ''++12''
   \<and> delta_text (\<lambda>_. []) (Some (- (42 / 100))) lap_delta_widget = u8 [0xE2, 0x96, 0xBC] @ '' -1:59.58''"
  using driving_delta_texts [of 12 "\<lambda>_. []"] driving_delta_texts [of "42 / 100" "\<lambda>_. []"]
  by (simp add: round_text_def rat_round_def int_text_def js_simps rat_to_fixed_def
      fixed_pos_def fixed_nat_def pad_start_def Let_def)

text \<open>The leaves of a two-level object of numbers, as bind paths.\<close>

definition leaf_paths :: "json \<Rightarrow> string list" where
  "leaf_paths d = concat (map (\<lambda>(r, v). map (\<lambda>(k, _). r @ ''.'' @ k) (entries v)) (entries d))"

definition is_number :: "json \<Rightarrow> bool" where
  "is_number x = (case x of JNum (JFin _) \<Rightarrow> True | _ \<Rightarrow> False)"

lemma is_number_iff: "is_number x \<longleftrightarrow> (\<exists>q. x = JNum (JFin q))"
  by (auto simp: is_number_def split: json.splits jsnum.splits)

definition two_level :: "json \<Rightarrow> bool" where
  "two_level d \<longleftrightarrow> (\<exists>m. d = JObj m \<and> distinct (map fst m) \<and> list_all (\<lambda>(r, v). CHR ''.'' \<notin> set r \<and>
     (\<exists>n. v = JObj n \<and> list_all (\<lambda>(k, x). CHR ''.'' \<notin> set k \<and> is_number x) n)) m)"

lemma getByPath_two_level:
  assumes "two_level d"
  shows "getByPath d b = None \<longleftrightarrow> b \<notin> set (leaf_paths d)"
proof -
  obtain m where d: "d = JObj m" and dm: "distinct (map fst m)"
    and m: "\<And>r v. (r, v) \<in> set m \<Longrightarrow> CHR ''.'' \<notin> set r \<and>
     (\<exists>n. v = JObj n \<and> list_all (\<lambda>(k, x). CHR ''.'' \<notin> set k \<and> is_number x) n)"
    using assms by (force simp: two_level_def list_all_iff)
  have leaf: "b \<in> set (leaf_paths d) \<longleftrightarrow>
      (\<exists>r n k x. (r, JObj n) \<in> set m \<and> (k, x) \<in> set n \<and> b = r @ ''.'' @ k)"
    using m by (fastforce simp: leaf_paths_def d entries_def)
  have walk: "walk_path v ks = None" if "\<not> is_object v" "ks \<noteq> []" for v ks
    using that by (cases ks) auto
  show ?thesis
  proof
    assume none: "getByPath d b = None"
    show "b \<notin> set (leaf_paths d)"
    proof
      assume "b \<in> set (leaf_paths d)"
      then obtain r n k x where *: "(r, JObj n) \<in> set m" "(k, x) \<in> set n" "b = r @ ''.'' @ k"
        using leaf by auto
      have dots: "CHR ''.'' \<notin> set r" "CHR ''.'' \<notin> set k" using m [OF *(1)] *(2) by (auto simp: list_all_iff)
      have r: "field d r = JObj n" using * dm by (simp add: d field_JObj jm_get_def)
      obtain y where y: "map_of n k = Some y" using *(2) weak_map_of_SomeI by fastforce
      then have "\<exists>q. y = JNum (JFin q)"
        using m [OF *(1)] map_of_SomeD [OF y] by (auto simp: list_all_iff is_number_iff)
      then show False
        using none dots r y
        by (auto simp: getByPath_def *(3) split_on_append split_on_single field_JObj jm_get_def d)
    qed
  next
    assume no: "b \<notin> set (leaf_paths d)"
    obtain r ks where sp: "split_on (CHR ''.'') b = r # ks"
      using split_on_not_Nil by (cases "split_on (CHR ''.'') b") auto
    show "getByPath d b = None"
    proof (cases "map_of m r")
      case None
      then show ?thesis
        using walk [of JUndef ks] by (cases ks) (auto simp: getByPath_def sp d field_JObj jm_get_def)
    next
      case (Some v)
      obtain n where v: "v = JObj n" "list_all (\<lambda>(k, x). CHR ''.'' \<notin> set k \<and> is_number x) n"
        using m [OF map_of_SomeD [OF Some]] by auto
      have fr: "field d r = JObj n" using Some v by (simp add: d field_JObj jm_get_def)
      show ?thesis
      proof (cases ks)
        case Nil
        then show ?thesis using fr by (simp add: getByPath_def sp d)
      next
        case (Cons k ls)
        have dot: "b = r @ ''.'' @ k" if "ls = []"
          using join_split_on [of "CHR ''.''" b] sp Cons that by simp
        show ?thesis
        proof (cases "map_of n k")
          case None
          then show ?thesis
            using fr walk [of JUndef ls]
            by (cases ls) (auto simp: getByPath_def sp Cons d field_JObj jm_get_def)
        next
          case (Some x)
          then have "ls \<noteq> []"
            using no dot leaf v(1) map_of_SomeD [OF \<open>map_of m r = Some v\<close>] map_of_SomeD [OF Some] by blast
          moreover have "\<not> is_object x"
            using v(2) map_of_SomeD [OF Some] by (auto simp: list_all_iff is_number_iff)
          ultimately show ?thesis
            using fr Some walk [of x ls] by (simp add: getByPath_def sp Cons d field_JObj jm_get_def)
        qed
      qed
    qed
  qed
qed

definition SAMPLE_PATHS :: "string list" where
  "SAMPLE_PATHS =
     [''lapCard.lapNumber'', ''lapCard.timeS'', ''lapCard.energyWh'', ''pacing.lapEnergyWh'',
      ''pacing.budgetDeltaWh'', ''pacing.lapBudgetWh'', ''pacing.lapElapsedS'',
      ''pacing.lapNumber'', ''pacing.lastLapNumber'', ''pacing.lastLapTimeS'',
      ''pacing.lastLapEnergyWh'', ''can.soc'', ''can.temperature'', ''can.power'',
      ''can.speed'', ''can.eventMode'', ''can.vcuNetEnergyWh'', ''can.vcuRegenEnergyWh'',
      ''can.cellVMax'', ''can.cellVMin'', ''can.cellVSpread'', ''can.cellTempMax'',
      ''can.cellTempAvg'', ''can.cellTempMin'', ''can.motorTemp'', ''can.inverterTemp'',
      ''can.coolantTemp'', ''can.apps'', ''can.bpps'', ''can.brakeBias'',
      ''can.brakePressureFront'', ''can.brakePressureRear'', ''can.hvVoltage'',
      ''can.hvCurrent'', ''can.lvVoltage'', ''can.lvCurrent'', ''can.wheelSpeedFL'',
      ''can.wheelSpeedFR'', ''can.wheelSpeedRL'', ''can.wheelSpeedRR'', ''mqtt.lapDelta'',
      ''mqtt.energyDelta'', ''mqtt.lapsRemaining'', ''mqtt.lapsRemainingEnergy'',
      ''mqtt.targetPower'', ''mqtt.bestLapTime'', ''mqtt.lastLapTime'', ''mqtt.currentLapTime'',
      ''mqtt.lapDeltaRate'', ''mqtt.lapTrigger'']"

lemma sample_two_level: "two_level sampleLapCardData"
  by (simp add: two_level_def sampleLapCardData_def is_number_def)

text \<open>The preview data against its description: the catalog fields for which the sample
  yields no value.\<close>

theorem sample_data_gaps:
  "filter (\<lambda>b. getByPath sampleLapCardData b = None) (map f_bind FIELD_CATALOG) =
     [''mqtt.energyDeltaStatic'', ''can.regenEnabled'', ''can.posContactor'', ''can.negContactor'',
      ''can.prechargeContactor'']"
proof -
  have "leaf_paths sampleLapCardData = SAMPLE_PATHS"
    by (simp add: leaf_paths_def sampleLapCardData_def entries_def SAMPLE_PATHS_def)
  moreover have "filter (\<lambda>b. \<not> List.member SAMPLE_PATHS b) CATALOG_BINDS =
     [''mqtt.energyDeltaStatic'', ''can.regenEnabled'', ''can.posContactor'', ''can.negContactor'',
      ''can.prechargeContactor'']"
    by code_simp
  ultimately show ?thesis
    by (simp add: getByPath_two_level [OF sample_two_level] catalog_binds)
qed

end
