(* ===== verification/LapTime.thy ===== *)
theory LapTime
  imports DashLayout
begin

text \<open>
  The lap time a person types, from \<^verbatim>\<open>viewer_tool/src/lib/trackside/lapTime.ts\<close>, against the lap
  time the dash prints (\<open>laptime_text\<close> in \<open>DashLayout\<close>).
\<close>

definition MAX_LAP_MS :: rat where "MAX_LAP_MS = 24 * 3600000"

definition lapMs :: "jsnum \<Rightarrow> rat option" where
  "lapMs seconds = (case js_round (seconds * JFin 1000) of
       JFin ms \<Rightarrow> if 0 \<le> ms \<and> ms \<le> MAX_LAP_MS then Some ms else None
     | _ \<Rightarrow> None)"

text \<open>The pattern: digits, a colon, one or two digits, optionally a point and digits.\<close>

definition seconds_pattern :: "string \<Rightarrow> bool" where
  "seconds_pattern b =
     (let i = takeWhile is_digit b; r = dropWhile is_digit b
      in (length i = 1 \<or> length i = 2)
         \<and> (case r of [] \<Rightarrow> True | c # f \<Rightarrow> c = CHR ''.'' \<and> f \<noteq> [] \<and> list_all is_digit f))"

definition colon_match :: "string \<Rightarrow> (string \<times> string) option" where
  "colon_match s = (case split_on (CHR '':'') s of
       [a, b] \<Rightarrow> if a \<noteq> [] \<and> list_all is_digit a \<and> seconds_pattern b then Some (a, b) else None
     | _ \<Rightarrow> None)"

definition parseLapTimeInput :: "string \<Rightarrow> rat option" where
  "parseLapTimeInput text =
     (let s = trim text
      in if s = [] then None
         else case colon_match s of
           Some (a, b) \<Rightarrow>
             (let mn = text_number a; sec = text_number b
              in if \<not> js_finite mn \<or> \<not> js_finite sec \<or> JFin 60 \<le> sec then None
                 else lapMs (mn * JFin 60 + sec))
         | None \<Rightarrow> (let n = text_number s in if js_finite n then lapMs n else None))"

lemma lapMs_int:
  assumes "r * 1000 = of_int k" "0 \<le> k" "k \<le> 86400000"
  shows "lapMs (JFin r) = Some (of_int k)"
proof -
  have "js_round (JFin r * JFin 1000) = JFin (of_int k)"
    by (simp add: js_round_def assms(1))
  then show ?thesis using assms(2,3) by (simp add: lapMs_def MAX_LAP_MS_def)
qed

subsection \<open>Reading printed digits\<close>

lemma digits_val_zeros: "digits_val (replicate n (CHR ''0'') @ s) = digits_val s"
  by (induction n) (simp_all add: digits_val_def digit_val_def)

lemma digits_val_append: "digits_val (s @ t) = digits_val s * 10 ^ length t + digits_val t"
proof (induction t rule: rev_induct)
  case (snoc c t)
  have "digits_val (s @ t @ [c]) = 10 * digits_val (s @ t) + digit_val c"
    by (metis append_assoc digits_val_snoc)
  then show ?case using snoc by (simp add: digits_val_snoc algebra_simps)
qed (simp add: digits_val_def)

lemma digits_val_less: "list_all is_digit s \<Longrightarrow> digits_val s < 10 ^ length s"
proof (induction s rule: rev_induct)
  case (snoc c s)
  have "is_digit c" using snoc.prems by simp
  then have "digit_val c \<le> 9" unfolding is_digit_def digit_val_def by linarith
  then show ?case using snoc by (simp add: digits_val_snoc)
qed (simp add: digits_val_def)

lemma is_digit_not_space: "is_digit c \<Longrightarrow> \<not> is_space c"
  by (auto simp: is_digit_def is_space_def Let_def)

lemma trim_id: "s \<noteq> [] \<Longrightarrow> \<not> is_space (hd s) \<Longrightarrow> \<not> is_space (last s) \<Longrightarrow> trim s = s"
proof -
  assume s: "s \<noteq> []" "\<not> is_space (hd s)" "\<not> is_space (last s)"
  have "dropWhile is_space s = s" using s by (cases s) auto
  moreover have "dropWhile is_space (rev s) = rev s"
    using s by (cases "rev s") (auto simp: hd_rev [symmetric])
  ultimately show ?thesis by (simp add: trim_def trim_chars_def trim_left_def trim_right_def)
qed

lemma digits_hd: "s \<noteq> [] \<Longrightarrow> list_all is_digit s \<Longrightarrow> is_digit (hd s) \<and> is_digit (last s)"
  by (simp add: list_all_iff)

lemma takeWhile_digits:
  "list_all is_digit s \<Longrightarrow> takeWhile is_digit s = s" "list_all is_digit s \<Longrightarrow> dropWhile is_digit s = []"
  by (simp_all add: list_all_iff)

lemma takeWhile_point:
  "list_all is_digit s \<Longrightarrow> takeWhile is_digit (s @ CHR ''.'' # t) = s \<and> dropWhile is_digit (s @ CHR ''.'' # t) = CHR ''.'' # t"
  by (simp add: list_all_iff is_digit_def)

lemma radix_prefix:
  assumes "is_digit c" "\<forall>d t. s = d # t \<longrightarrow> is_digit d \<or> d = CHR ''.''"
  shows "take 2 (c # s) \<notin> {''0x'', ''0X'', ''0o'', ''0O'', ''0b'', ''0B''}"
  using assms by (cases s) (auto simp: is_digit_def)

lemma text_number_unsigned:
  assumes "trim s = s" "s \<noteq> []" "is_digit (hd s)"
    "take 2 s \<notin> {''0x'', ''0X'', ''0o'', ''0O'', ''0b'', ''0B''}" "unsigned_decimal s = Some r"
  shows "text_number s = js_of_rat r"
proof -
  have "hd s \<noteq> CHR ''-''" "hd s \<noteq> CHR ''+''" "s \<noteq> ''Infinity''"
    using assms(3) by (auto simp: is_digit_def)
  then show ?thesis
    using assms(2,4,5) by (simp add: text_number_def assms(1) Let_def unsigned_number_def)
qed

lemma text_number_digits:
  assumes "s \<noteq> []" "list_all is_digit s"
  shows "text_number s = js_of_rat (of_nat (digits_val s))"
proof -
  obtain c t where s: "s = c # t" using assms(1) by (cases s) auto
  have t: "trim s = s"
    using digits_hd [OF assms] assms(1) by (intro trim_id) (auto dest: is_digit_not_space)
  have "is_digit c" "\<forall>d \<in> set t. is_digit d" using assms(2) s by (auto simp: list_all_iff)
  then have pre: "take 2 s \<notin> {''0x'', ''0X'', ''0o'', ''0O'', ''0b'', ''0B''}"
    using radix_prefix [of c t] s by auto
  have "unsigned_decimal s = Some (of_nat (digits_val s))"
    using assms(1) by (simp add: unsigned_decimal_def takeWhile_digits [OF assms(2)] Let_def)
  then show ?thesis
    using text_number_unsigned [OF t assms(1) _ pre] s \<open>is_digit c\<close> by simp
qed

lemma text_number_point:
  assumes "a \<noteq> []" "list_all is_digit a" "b \<noteq> []" "list_all is_digit b"
  shows "text_number (a @ CHR ''.'' # b) = js_of_rat (of_nat (digits_val (a @ b)) / 10 ^ length b)"
proof -
  let ?s = "a @ CHR ''.'' # b"
  obtain c t where a: "a = c # t" using assms(1) by (cases a) auto
  have t: "trim ?s = ?s"
    using digits_hd [OF assms(1,2)] digits_hd [OF assms(3,4)] assms(1,3)
    by (intro trim_id) (auto dest: is_digit_not_space)
  have c: "is_digit c" "\<forall>d \<in> set t. is_digit d" using assms(2) a by (auto simp: list_all_iff)
  then have pre: "take 2 ?s \<notin> {''0x'', ''0X'', ''0o'', ''0O'', ''0b'', ''0B''}"
    using radix_prefix [of c "t @ CHR ''.'' # b"] a by (cases t) auto
  have "unsigned_decimal ?s = Some (of_nat (digits_val (a @ b)) / 10 ^ length b)"
    using takeWhile_point [OF assms(2), of b] assms(1)
    by (simp add: unsigned_decimal_def takeWhile_digits [OF assms(4)] Let_def)
  then show ?thesis
    using text_number_unsigned [OF t _ _ pre] a c by simp
qed

lemma length_nat_text: "n < 10 ^ Suc k \<Longrightarrow> length (nat_text n) \<le> Suc k"
proof (induction k arbitrary: n)
  case (Suc k)
  show ?case
  proof (cases "n < 10")
    case False
    have "n div 10 < 10 ^ Suc k" using Suc.prems by (simp add: less_mult_imp_div_less mult.commute)
    then show ?thesis using Suc.IH [of "n div 10"] False by (simp add: nat_text_step)
  qed (simp add: nat_text_small)
qed (simp add: nat_text_small)

lemma digits_of_parts: "list_all is_digit (replicate n (CHR ''0'')) \<and> (list_all is_digit s \<longrightarrow>
    list_all is_digit (take k s) \<and> list_all is_digit (drop k s))"
  by (auto simp: list_all_iff is_digit_def dest: in_set_takeD in_set_dropD)

text \<open>The printed seconds: two digits, a point, two digits, which together are the hundredths.\<close>

lemma seconds_shape:
  assumes "c = fixed_nat 2 s" "c < 10000"
  obtains a b where "pad_start 5 (CHR ''0'') (fixed_pos 2 s) = a @ CHR ''.'' # b"
    "length a = 2" "length b = 2" "list_all is_digit a" "list_all is_digit b" "digits_val (a @ b) = c"
proof -
  define m where "m = pad_start 3 (CHR ''0'') (nat_text c)"
  have len: "length m = 3 \<or> length m = 4"
    using length_nat_text [of c 3] assms(2) by (auto simp: m_def)
  define k where "k = length m - 2"
  define z where "z = replicate (4 - length m) (CHR ''0'')"
  have dm: "list_all is_digit m"
    using nat_text_digits [of c] digits_of_parts by (simp add: m_def pad_start_def)
  have fp: "fixed_pos 2 s = take k m @ ''.'' @ drop k m"
    using assms(1) by (simp add: fixed_pos_def m_def k_def Let_def numeral_3_eq_3)
  have "length (fixed_pos 2 s) = Suc (length m)" using fp by simp
  then have "pad_start 5 (CHR ''0'') (fixed_pos 2 s) = (z @ take k m) @ CHR ''.'' # drop k m"
    unfolding pad_start_def z_def using fp by simp
  moreover have "length (z @ take k m) = 2" "length (drop k m) = 2"
    using len by (auto simp: z_def k_def)
  moreover have "list_all is_digit (z @ take k m)" "list_all is_digit (drop k m)"
    using dm digits_of_parts by (simp_all add: z_def)
  moreover have "digits_val ((z @ take k m) @ drop k m) = c"
    unfolding append_assoc append_take_drop_id
    by (simp add: z_def digits_val_zeros m_def pad_start_def digits_val_nat_text)
  ultimately show ?thesis using that by blast
qed

lemma parse_minutes_seconds:
  assumes "A \<noteq> []" "list_all is_digit A" "digits_val A \<le> 2000"
    and "length a = 2" "length b = 2" "list_all is_digit a" "list_all is_digit b" "digits_val (a @ b) = c"
  shows "parseLapTimeInput (A @ '':'' @ a @ CHR ''.'' # b) =
     (if 6000 \<le> c then None else lapMs (JFin (of_nat (digits_val A) * 60 + of_nat c / 100)))"
proof -
  let ?b = "a @ CHR ''.'' # b"
  have ne: "a \<noteq> []" "b \<noteq> []" using assms(4,5) by auto
  note dA = digits_hd [OF assms(1,2)] and db = digits_hd [OF ne(2) assms(7)]
  have t: "trim (A @ '':'' @ ?b) = A @ '':'' @ ?b"
    using dA db assms(1) ne by (intro trim_id) (auto dest: is_digit_not_space)
  have no_colon: "CHR '':'' \<notin> set A" "CHR '':'' \<notin> set ?b"
    using assms(2,6,7) by (auto simp: list_all_iff is_digit_def)
  have "seconds_pattern ?b"
    using takeWhile_point [OF assms(6), of b] assms(4,7) ne by (simp add: seconds_pattern_def Let_def)
  then have "colon_match (A @ '':'' @ ?b) = Some (A, ?b)"
    using no_colon assms(1,2) by (simp add: colon_match_def split_on_append split_on_single)
  moreover have "text_number A = JFin (of_nat (digits_val A))"
  proof -
    have "rat_of_nat (digits_val A) \<le> 2000" using assms(3) by simp
    then show ?thesis
      using text_number_digits [OF assms(1,2)] by (simp add: js_of_rat_def js_big_def)
  qed
  moreover have "text_number ?b = JFin (of_nat c / 100)"
  proof -
    have "c < 10000"
      using digits_val_less [of "a @ b"] assms(4-8) by simp
    then have "rat_of_nat c / 100 \<le> 10000" by simp
    then show ?thesis
      using text_number_point [OF ne(1) assms(6) ne(2) assms(7)] assms(5,8)
      by (simp add: js_of_rat_def js_big_def)
  qed
  moreover have "(60 \<le> rat_of_nat c / 100) = (6000 \<le> c)" by linarith
  ultimately show ?thesis
    using assms(1) t by (simp add: parseLapTimeInput_def Let_def)
qed

text \<open>What the dash prints as a lap time, a person can type back: a time of less than a day is
  read with an error of at most 5 ms, except when its seconds print as 60.00; that text is
  rejected.\<close>

theorem laptime_parse_roundtrip:
  assumes "0 \<le> v" and "v \<le> 86399"
  shows "let text = formatValue show (Some (JFin v)) ''laptime'' decimals in
         if fixed_nat 2 (v - of_int \<lfloor>v / 60\<rfloor> * 60) = 6000 then parseLapTimeInput text = None
         else \<exists>ms. parseLapTimeInput text = Some ms \<and> \<bar>ms - 1000 * v\<bar> \<le> 5"
proof -
  define m where "m = \<lfloor>v / 60\<rfloor>"
  define s where "s = v - of_int m * 60"
  define c where "c = fixed_nat 2 s"
  have m: "0 \<le> m" "m \<le> 1440" using assms by (auto simp: m_def le_floor_iff floor_le_iff)
  have s: "0 \<le> s" "s < 60" unfolding s_def m_def by linarith+
  have cs: "\<bar>of_nat c - s * 100\<bar> \<le> 1 / 2"
    using fixed_nat_error [OF s(1), of 2] by (simp add: c_def)
  then have c: "c \<le> 6000" using s by linarith
  obtain a b where sh: "pad_start 5 (CHR ''0'') (fixed_pos 2 s) = a @ CHR ''.'' # b"
    "length a = 2" "length b = 2" "list_all is_digit a" "list_all is_digit b" "digits_val (a @ b) = c"
    using seconds_shape [OF c_def] c by auto
  have lt: "laptime_text v = int_text m @ '':'' @ pad_start 5 (CHR ''0'') (rat_to_fixed 2 s)"
    by (simp add: laptime_text_def Let_def m_def s_def)
  have printed: "formatValue show (Some (JFin v)) ''laptime'' decimals = nat_text (nat m) @ '':'' @ a @ CHR ''.'' # b"
    using m s sh(1) by (simp add: formatValue_def usable_def format_default_def lt int_text_def rat_to_fixed_def)
  have p: "parseLapTimeInput (nat_text (nat m) @ '':'' @ a @ CHR ''.'' # b) =
      (if 6000 \<le> c then None else lapMs (JFin (of_nat (nat m) * 60 + of_nat c / 100)))"
    using parse_minutes_seconds [OF nat_text_not_Nil nat_text_digits _ sh(2-6), of "nat m"] m
    by (simp add: digits_val_nat_text)
  have ms: "(rat_of_nat (nat m) * 60 + of_nat c / 100) * 1000 = of_int (60000 * m + 10 * int c)"
    using m by simp
  have "lapMs (JFin (of_nat (nat m) * 60 + of_nat c / 100)) = Some (of_int (60000 * m + 10 * int c))
      \<and> \<bar>of_int (60000 * m + 10 * int c) - 1000 * v\<bar> \<le> 5"
  proof -
    have "of_int (60000 * m + 10 * int c) - 1000 * v = 10 * (of_nat c - s * 100)"
      by (simp add: s_def)
    then have e: "\<bar>of_int (60000 * m + 10 * int c) - 1000 * v\<bar> \<le> 5"
      using cs by (simp only: abs_mult) simp
    then have "rat_of_int (60000 * m + 10 * int c) \<le> of_int 86400000"
      using assms(2) by linarith
    then have "60000 * m + 10 * int c \<le> 86400000" by (simp only: of_int_le_iff)
    then show ?thesis using e lapMs_int [OF ms] m by simp
  qed
  then show ?thesis
    using printed p c by (auto simp: Let_def c_def [symmetric] s_def [symmetric] m_def [symmetric])
qed

theorem laptime_parse_roundtrip_witness:
  "parseLapTimeInput (formatValue (\<lambda>_. []) (Some (JFin (119996 / 1000))) ''laptime'' None) = None
   \<and> formatValue (\<lambda>_. []) (Some (JFin (119996 / 1000))) ''laptime'' None = ''1:60.00''"
proof -
  have f: "\<lfloor>(119996 / 1000 :: rat) / 60\<rfloor> = 1" by (simp add: floor_eq_iff)
  have "fixed_nat 2 (119996 / 1000 - of_int \<lfloor>(119996 / 1000 :: rat) / 60\<rfloor> * 60) = 6000"
    unfolding f by (simp add: fixed_nat_def rat_round_def js_simps)
  moreover have "formatValue (\<lambda>_. []) (Some (JFin (119996 / 1000))) ''laptime'' None = ''1:60.00''"
    by (simp add: formatValue_def usable_def format_default_def laptime_text_def Let_def int_text_def js_simps
        rat_to_fixed_def fixed_pos_def fixed_nat_def rat_round_def pad_start_def)
  ultimately show ?thesis
    using laptime_parse_roundtrip [of "119996 / 1000" "\<lambda>_. []" None] by (simp add: Let_def)
qed

end
