(* ===== verification/DashMessages.thy ===== *)
theory DashMessages
  imports DashLayout
begin

text \<open>
  The driver-message library, from \<^verbatim>\<open>viewer_tool/src/lib/dash/dashMessages.ts\<close> (schema, validation,
  the active set) and \<^verbatim>\<open>viewer_tool/src/lib/dash/useMessageLibrary.ts\<close> (the editing operations).

  \<^verbatim>\<open>genMessageId\<close> reads the clock and a random number: an operation that needs one new id takes
  it as an argument, the validator of a library takes one per entry.
\<close>

definition DASH_MESSAGE_VERSION :: nat where "DASH_MESSAGE_VERSION = 1"

definition MAX_ACTIVE_MESSAGES :: nat where "MAX_ACTIVE_MESSAGES = 8"

datatype message_icon = INone | IDown | IUp | IBolt | IFlag | IWarning | ICheck

definition MESSAGE_ICONS :: "(string \<times> message_icon) list" where
  "MESSAGE_ICONS = [(''none'', INone), (''down'', IDown), (''up'', IUp), (''bolt'', IBolt),
     (''flag'', IFlag), (''warning'', IWarning), (''check'', ICheck)]"

fun icon_id :: "message_icon \<Rightarrow> string" where
  "icon_id INone = ''none''"
| "icon_id IDown = ''down''"
| "icon_id IUp = ''up''"
| "icon_id IBolt = ''bolt''"
| "icon_id IFlag = ''flag''"
| "icon_id IWarning = ''warning''"
| "icon_id ICheck = ''check''"

fun MESSAGE_ICON_GLYPH :: "message_icon \<Rightarrow> string" where
  "MESSAGE_ICON_GLYPH INone = []"
| "MESSAGE_ICON_GLYPH IDown = u8 [0xE2, 0x96, 0xBC]"
| "MESSAGE_ICON_GLYPH IUp = u8 [0xE2, 0x96, 0xB2]"
| "MESSAGE_ICON_GLYPH IBolt = u8 [0xE2, 0x9A, 0xA1]"
| "MESSAGE_ICON_GLYPH IFlag = u8 [0xE2, 0x9A, 0x91]"
| "MESSAGE_ICON_GLYPH IWarning = u8 [0xE2, 0x9A, 0xA0]"
| "MESSAGE_ICON_GLYPH ICheck = u8 [0xE2, 0x9C, 0x93]"

record dash_message =
  m_id :: string
  m_label :: string
  m_text :: string
  m_subtext :: "string option"
  m_icon :: message_icon
  m_color :: string
  m_colorDark :: "string option"
  m_colorLight :: "string option"
  m_durationS :: jsnum

record message_library =
  items :: "dash_message list"
  activeIds :: "string list"

definition messageColor :: "dash_message \<Rightarrow> card_theme \<Rightarrow> string" where
  "messageColor m theme = resolveColor
     \<lparr>color = Some (m_color m), colorDark = m_colorDark m, colorLight = m_colorLight m\<rparr>
     theme (fg (CARD_THEMES theme))"

definition newMessage :: "string \<Rightarrow> dash_message" where
  "newMessage i = \<lparr>m_id = i, m_label = ''New message'', m_text = ''MESSAGE'', m_subtext = None,
     m_icon = INone, m_color = ''auto'', m_colorDark = None, m_colorLight = None, m_durationS = JFin 6\<rparr>"

definition default_message :: "string \<Rightarrow> string \<Rightarrow> message_icon \<Rightarrow> string \<Rightarrow> rat \<Rightarrow> string option \<Rightarrow> string
    \<Rightarrow> dash_message" where
  "default_message label txt icon col duration subtext i =
     \<lparr>m_id = i, m_label = label, m_text = txt, m_subtext = subtext, m_icon = icon, m_color = col,
      m_colorDark = None, m_colorLight = None, m_durationS = JFin duration\<rparr>"

definition defaultMessages :: "(nat \<Rightarrow> string) \<Rightarrow> dash_message list" where
  "defaultMessages gen =
     [default_message ''Use less'' ''USE LESS ENERGY'' IDown ''#5cb87a'' 6 (Some ''Ease off the throttle'') (gen 0),
      default_message ''Use more'' ''USE MORE ENERGY'' IUp ''#6ea8fe'' 6 (Some ''You have margin'') (gen 1),
      default_message ''Push'' ''PUSH'' IBolt ''#d97757'' 5 None (gen 2),
      default_message ''Hold'' ''HOLD POSITION'' IFlag ''#f2c14e'' 0 None (gen 3),
      default_message ''Box this lap'' ''BOX THIS LAP'' IWarning ''#ff8d85'' 0 None (gen 4),
      default_message ''Box now'' ''BOX NOW'' IWarning ''#ff4d4f'' 0 None (gen 5),
      default_message ''OK / copy'' ''OK'' ICheck ''#5cb87a'' 4 None (gen 6)]"

definition defaultMessageLibrary :: "(nat \<Rightarrow> string) \<Rightarrow> message_library" where
  "defaultMessageLibrary gen =
     (let its = defaultMessages gen
      in \<lparr>items = its, activeIds = map m_id (take MAX_ACTIVE_MESSAGES its)\<rparr>)"

subsection \<open>Lenient validation\<close>

definition icon_of :: "json \<Rightarrow> message_icon" where
  "icon_of v = (case v of JStr s \<Rightarrow> (case map_of MESSAGE_ICONS s of Some i \<Rightarrow> i | None \<Rightarrow> INone) | _ \<Rightarrow> INone)"

definition message_label :: "string \<Rightarrow> json \<Rightarrow> string" where
  "message_label t v = (if str_or [] v \<noteq> [] then str_or [] v else if t \<noteq> [] then t else ''Message'')"

definition message_duration :: "json \<Rightarrow> jsnum" where
  "message_duration v = (case v of JNum d \<Rightarrow> if JFin 0 \<le> d then d else JFin 6 | _ \<Rightarrow> JFin 6)"

definition validateMessage :: "string \<Rightarrow> json \<Rightarrow> dash_message option" where
  "validateMessage fresh raw =
     (if \<not> is_object raw then None
      else case field raw ''text'' of
        JStr t \<Rightarrow> Some
          \<lparr>m_id = str_or fresh (field raw ''id''),
           m_label = message_label t (field raw ''label''),
           m_text = t,
           m_subtext = as_str (field raw ''subtext''),
           m_icon = icon_of (field raw ''icon''),
           m_color = str_or ''auto'' (field raw ''color''),
           m_colorDark = as_str (field raw ''colorDark''),
           m_colorLight = as_str (field raw ''colorLight''),
           m_durationS = message_duration (field raw ''durationS'')\<rparr>
      | _ \<Rightarrow> None)"

definition valid_items :: "(nat \<Rightarrow> string) \<Rightarrow> json list \<Rightarrow> dash_message list" where
  "valid_items gen raws = List.map_filter (\<lambda>(i, r). validateMessage (gen i) r) (enumerate 0 raws)"

definition validateMessageLibrary :: "(nat \<Rightarrow> string) \<Rightarrow> json \<Rightarrow> message_library option" where
  "validateMessageLibrary gen raw =
     (if \<not> is_object raw then None
      else case field raw ''items'' of
        JArr raws \<Rightarrow>
          (let its = valid_items gen raws; ids = map m_id its;
               acts = (case field raw ''activeIds'' of JArr xs \<Rightarrow> xs | _ \<Rightarrow> [])
           in Some \<lparr>items = its,
                    activeIds = take MAX_ACTIVE_MESSAGES
                      (filter (\<lambda>i. i \<in> set ids) (List.map_filter as_str acts))\<rparr>)
      | _ \<Rightarrow> None)"

text \<open>\<^verbatim>\<open>new Map(items.map(m => [m.id, m]))\<close>: a later item with the same id wins.\<close>

definition by_id :: "dash_message list \<Rightarrow> (string, dash_message) jsmap" where
  "by_id its = fold (\<lambda>m. jm_set (m_id m) m) its []"

definition activeMessages :: "message_library \<Rightarrow> dash_message list" where
  "activeMessages lib = List.map_filter (jm_get (by_id (items lib))) (activeIds lib)"

subsection \<open>Stored form\<close>

definition opt_str :: "string option \<Rightarrow> json" where
  "opt_str x = (case x of None \<Rightarrow> JUndef | Some s \<Rightarrow> JStr s)"

definition message_json :: "dash_message \<Rightarrow> json" where
  "message_json m = JObj
     [(''id'', JStr (m_id m)), (''label'', JStr (m_label m)), (''text'', JStr (m_text m)),
      (''subtext'', opt_str (m_subtext m)), (''icon'', JStr (icon_id (m_icon m))),
      (''color'', JStr (m_color m)), (''colorDark'', opt_str (m_colorDark m)),
      (''colorLight'', opt_str (m_colorLight m)), (''durationS'', JNum (m_durationS m))]"

definition library_json :: "message_library \<Rightarrow> json" where
  "library_json lib = JObj [(''items'', JArr (map message_json (items lib))),
     (''activeIds'', JArr (map JStr (activeIds lib)))]"

subsection \<open>Editing\<close>

text \<open>\<^verbatim>\<open>loadLibrary\<close>: \<open>stored\<close> is the local copy, when there is one that parses.\<close>

definition loadLibrary :: "(nat \<Rightarrow> string) \<Rightarrow> json option \<Rightarrow> message_library" where
  "loadLibrary gen stored = (case Option.bind stored (validateMessageLibrary gen) of
       Some v \<Rightarrow> if items v \<noteq> [] then v else defaultMessageLibrary gen
     | None \<Rightarrow> defaultMessageLibrary gen)"

definition addMessage :: "string \<Rightarrow> message_library \<Rightarrow> message_library" where
  "addMessage fresh p = p\<lparr>items := items p @ [newMessage fresh]\<rparr>"

definition duplicateMessage :: "string \<Rightarrow> string \<Rightarrow> message_library \<Rightarrow> message_library" where
  "duplicateMessage fresh i p = (case List.find (\<lambda>m. m_id m = i) (items p) of
       None \<Rightarrow> p
     | Some src \<Rightarrow> p\<lparr>items := items p @ [src\<lparr>m_id := fresh, m_label := m_label src @ '' copy''\<rparr>]\<rparr>)"

text \<open>A patch gives new values to some of the properties.\<close>

record message_patch =
  p_label :: "string option"
  p_text :: "string option"
  p_subtext :: "string option option"
  p_icon :: "message_icon option"
  p_color :: "string option"
  p_colorDark :: "string option option"
  p_colorLight :: "string option option"
  p_durationS :: "jsnum option"

definition patched :: "'a option \<Rightarrow> 'a \<Rightarrow> 'a" where
  "patched p x = (case p of None \<Rightarrow> x | Some y \<Rightarrow> y)"

definition apply_patch :: "message_patch \<Rightarrow> dash_message \<Rightarrow> dash_message" where
  "apply_patch p m = m\<lparr>m_label := patched (p_label p) (m_label m), m_text := patched (p_text p) (m_text m),
     m_subtext := patched (p_subtext p) (m_subtext m), m_icon := patched (p_icon p) (m_icon m),
     m_color := patched (p_color p) (m_color m), m_colorDark := patched (p_colorDark p) (m_colorDark m),
     m_colorLight := patched (p_colorLight p) (m_colorLight m),
     m_durationS := patched (p_durationS p) (m_durationS m)\<rparr>"

definition updateMessage :: "string \<Rightarrow> message_patch \<Rightarrow> message_library \<Rightarrow> message_library" where
  "updateMessage i patch p = p\<lparr>items := map (\<lambda>m. if m_id m = i then apply_patch patch m else m) (items p)\<rparr>"

definition removeMessage :: "string \<Rightarrow> message_library \<Rightarrow> message_library" where
  "removeMessage i p = \<lparr>items = filter (\<lambda>m. m_id m \<noteq> i) (items p),
     activeIds = filter (\<lambda>a. a \<noteq> i) (activeIds p)\<rparr>"

definition toggleActive :: "string \<Rightarrow> message_library \<Rightarrow> message_library" where
  "toggleActive i p =
     (if i \<in> set (activeIds p) then p\<lparr>activeIds := filter (\<lambda>a. a \<noteq> i) (activeIds p)\<rparr>
      else if length (activeIds p) \<ge> MAX_ACTIVE_MESSAGES then p
      else p\<lparr>activeIds := activeIds p @ [i]\<rparr>)"

definition isActive :: "message_library \<Rightarrow> string \<Rightarrow> bool" where
  "isActive lib i \<longleftrightarrow> i \<in> set (activeIds lib)"

definition atActiveCap :: "message_library \<Rightarrow> bool" where
  "atActiveCap lib \<longleftrightarrow> length (activeIds lib) \<ge> MAX_ACTIVE_MESSAGES"

text \<open>What \<^verbatim>\<open>pullFromServer\<close> does with the server's copy: the library, the status line, and whether
  the local library is pushed to seed an empty server.\<close>

datatype sync_status = Syncing | OfflineLocal | Synced

definition pullFromServer :: "message_library option \<Rightarrow> message_library
    \<Rightarrow> message_library \<times> sync_status \<times> message_library option" where
  "pullFromServer server local = (case server of
       None \<Rightarrow> (local, OfflineLocal, None)
     | Some s \<Rightarrow> if items s \<noteq> [] then (s, Synced, None) else (local, Synced, Some local))"


subsection \<open>A message survives storage\<close>

definition message_ok :: "dash_message \<Rightarrow> bool" where
  "message_ok m \<longleftrightarrow> m_label m \<noteq> [] \<and> js_finite (m_durationS m) \<and> JFin 0 \<le> m_durationS m"

definition library_ok :: "message_library \<Rightarrow> bool" where
  "library_ok lib \<longleftrightarrow> list_all message_ok (items lib) \<and> set (activeIds lib) \<subseteq> m_id ` set (items lib)
     \<and> length (activeIds lib) \<le> MAX_ACTIVE_MESSAGES"

lemma icon_of_id [simp]: "icon_of (JStr (icon_id i)) = i"
  by (cases i) (simp_all add: icon_of_def MESSAGE_ICONS_def)

lemma wire_opt_str [simp]: "wire (opt_str x) = opt_str x"
  by (cases x) (simp_all add: opt_str_def)

lemma as_str_opt_str [simp]: "as_str (opt_str x) = x"
  by (cases x) (simp_all add: opt_str_def)

lemma message_json_fields:
  assumes "js_finite (m_durationS m)"
  shows "field (wire (message_json m)) ''id'' = JStr (m_id m)"
    "field (wire (message_json m)) ''label'' = JStr (m_label m)"
    "field (wire (message_json m)) ''text'' = JStr (m_text m)"
    "field (wire (message_json m)) ''subtext'' = opt_str (m_subtext m)"
    "field (wire (message_json m)) ''icon'' = JStr (icon_id (m_icon m))"
    "field (wire (message_json m)) ''color'' = JStr (m_color m)"
    "field (wire (message_json m)) ''colorDark'' = opt_str (m_colorDark m)"
    "field (wire (message_json m)) ''colorLight'' = opt_str (m_colorLight m)"
    "field (wire (message_json m)) ''durationS'' = JNum (m_durationS m)"
    "is_object (wire (message_json m))" "wire (message_json m) \<noteq> JUndef"
  using assms unfolding message_json_def
  by (simp_all add: field_wire jm_ok_def del: wire.simps(3)) (simp_all)

lemma message_parse_print: "message_ok m \<Longrightarrow> validateMessage fresh (wire (message_json m)) = Some m"
  by (simp add: validateMessage_def message_json_fields message_ok_def message_label_def message_duration_def
      str_or_def)

lemma message_label_not_Nil: "message_label t v \<noteq> []"
  by (simp add: message_label_def)

lemma message_duration_ok: "sendable v \<Longrightarrow> js_finite (message_duration v) \<and> JFin 0 \<le> message_duration v"
  by (auto simp: message_duration_def split: json.splits)

lemma message_parse_ok: "sendable j \<Longrightarrow> validateMessage fresh j = Some m \<Longrightarrow> message_ok m"
  using message_duration_ok [OF sendable_field, of j "''durationS''"]
  by (auto simp: validateMessage_def message_ok_def message_label_not_Nil split: if_splits json.splits)

interpretation message_store: stored_value "validateMessage fresh" message_json message_ok
  by unfold_locales (simp_all add: message_parse_print message_parse_ok)

subsection \<open>The library survives storage\<close>

lemma valid_items_print:
  "list_all message_ok its \<Longrightarrow>
     List.map_filter (\<lambda>(i, r). validateMessage (gen i) r) (enumerate n (map (\<lambda>m. wire (message_json m)) its)) = its"
  by (induction its arbitrary: n) (simp_all add: message_parse_print)

lemma valid_items_in:
  "m \<in> set (valid_items gen raws) \<Longrightarrow> \<exists>i r. r \<in> set raws \<and> validateMessage (gen i) r = Some m"
  by (auto simp: valid_items_def List.map_filter_def in_set_enumerate_eq) (metis nth_mem)

lemma map_filter_strings [simp]: "List.map_filter as_str (map JStr xs) = xs"
  by (induction xs) simp_all

lemma library_json_fields:
  "is_object (wire (library_json lib))"
  "field (wire (library_json lib)) ''items'' = JArr (map (\<lambda>m. wire (message_json m)) (items lib))"
  "field (wire (library_json lib)) ''activeIds'' = JArr (map JStr (activeIds lib))"
  by (simp_all add: library_json_def comp_def) (simp_all add: message_json_def)

lemma library_parse_print:
  "library_ok lib \<Longrightarrow> validateMessageLibrary gen (wire (library_json lib)) = Some lib"
proof -
  assume ok: "library_ok lib"
  have acts: "filter (\<lambda>i. i \<in> m_id ` set (items lib)) (activeIds lib) = activeIds lib"
    using ok by (auto simp: library_ok_def filter_id_conv)
  have its: "valid_items gen (map (\<lambda>m. wire (message_json m)) (items lib)) = items lib"
    unfolding valid_items_def using ok by (intro valid_items_print) (simp add: library_ok_def)
  show ?thesis
    using ok by (simp add: validateMessageLibrary_def library_json_fields its acts library_ok_def)
qed

lemma library_parse_ok: "sendable j \<Longrightarrow> validateMessageLibrary gen j = Some lib \<Longrightarrow> library_ok lib"
proof -
  assume j: "sendable j" and v: "validateMessageLibrary gen j = Some lib"
  obtain raws where raws: "field j ''items'' = JArr raws" "items lib = valid_items gen raws"
    using v by (auto simp: validateMessageLibrary_def Let_def split: if_splits json.splits)
  have "message_ok m" if "m \<in> set (items lib)" for m
    using valid_items_in that raws sendable_arr sendable_field [OF j, of "''items''"] message_parse_ok
    by metis
  moreover have "set (activeIds lib) \<subseteq> m_id ` set (items lib) \<and> length (activeIds lib) \<le> MAX_ACTIVE_MESSAGES"
    using v by (auto simp: validateMessageLibrary_def Let_def dest!: in_set_takeD split: if_splits json.splits)
  ultimately show ?thesis by (simp add: library_ok_def list_all_iff)
qed

interpretation library_store: stored_value "validateMessageLibrary gen" library_json library_ok
  by unfold_locales (simp_all add: library_parse_print library_parse_ok)

subsection \<open>Editing keeps the active set sound\<close>

definition active_ok :: "message_library \<Rightarrow> bool" where
  "active_ok lib \<longleftrightarrow> set (activeIds lib) \<subseteq> m_id ` set (items lib) \<and> length (activeIds lib) \<le> MAX_ACTIVE_MESSAGES"

text \<open>One change of the shared library: an editing operation, for \<^verbatim>\<open>toggleActive\<close> on a message of
  the library, or the adoption of a copy the validator returned. A patch does not change ids.\<close>

inductive edits :: "message_library \<Rightarrow> message_library \<Rightarrow> bool" where
  edit_add: "edits p (addMessage fresh p)"
| edit_duplicate: "edits p (duplicateMessage fresh i p)"
| edit_update: "edits p (updateMessage i patch p)"
| edit_remove: "edits p (removeMessage i p)"
| edit_toggle: "i \<in> m_id ` set (items p) \<Longrightarrow> edits p (toggleActive i p)"
| edit_pull: "validateMessageLibrary gen j = Some s \<Longrightarrow> pullFromServer (Some s) p = (q, st, push) \<Longrightarrow> edits p q"

inductive_cases edits_cases: "edits p q"

lemma m_id_apply_patch [simp]: "m_id (apply_patch p m) = m_id m"
  by (simp add: apply_patch_def)

lemma validated_active_ok: "validateMessageLibrary gen j = Some s \<Longrightarrow> active_ok s"
  by (auto simp: validateMessageLibrary_def active_ok_def Let_def dest!: in_set_takeD split: if_splits json.splits)

lemma default_active_ok: "active_ok (defaultMessageLibrary gen)"
  by (auto simp: active_ok_def defaultMessageLibrary_def Let_def dest!: in_set_takeD)

lemma load_active_ok: "active_ok (loadLibrary gen stored)"
  using validated_active_ok default_active_ok
  by (cases stored) (auto simp: loadLibrary_def bind_eq_Some_conv split: option.splits)

lemma edits_active_ok: "edits p q \<Longrightarrow> active_ok p \<Longrightarrow> active_ok q"
proof (induction rule: edits.induct)
  case (edit_update p i patch)
  have "map m_id (items (updateMessage i patch p)) = map m_id (items p)"
    by (simp add: updateMessage_def)
  then have "m_id ` set (items (updateMessage i patch p)) = m_id ` set (items p)"
    by (metis set_map)
  then show ?case using edit_update by (simp add: active_ok_def) (simp add: updateMessage_def)
next
  case (edit_remove p i)
  have "length (filter (\<lambda>a. a \<noteq> i) (activeIds p)) \<le> length (activeIds p)" by simp
  moreover have "set (activeIds (removeMessage i p)) \<subseteq> m_id ` set (items (removeMessage i p))"
    using edit_remove by (auto simp: active_ok_def removeMessage_def)
  ultimately show ?case using edit_remove
    by (simp add: active_ok_def) (auto simp: removeMessage_def intro: order_trans [OF length_filter_le])
next
  case (edit_toggle i p)
  then show ?case
    by (auto simp: active_ok_def toggleActive_def intro: order_trans [OF length_filter_le])
next
  case (edit_pull gen j s p q st push)
  then show ?case
    using validated_active_ok by (auto simp: pullFromServer_def split: if_splits)
qed (auto simp: active_ok_def addMessage_def duplicateMessage_def split: option.splits)

lemma get_by_id:
  "jm_get (by_id its) i = map_option id (List.find (\<lambda>m. m_id m = i) (rev its))"
proof (induction its rule: rev_induct)
  case (snoc m its)
  then show ?case by (auto simp: by_id_def jm_get_set)
qed (simp add: by_id_def jm_get_def)

lemma active_messages_ids:
  assumes "set (activeIds lib) \<subseteq> m_id ` set (items lib)"
  shows "map m_id (activeMessages lib) = activeIds lib \<and> set (activeMessages lib) \<subseteq> set (items lib)"
proof -
  have found: "\<exists>m. jm_get (by_id (items lib)) i = Some m \<and> m_id m = i \<and> m \<in> set (items lib)"
    if "i \<in> m_id ` set (items lib)" for i
  proof (cases "List.find (\<lambda>m. m_id m = i) (rev (items lib))")
    case None
    then show ?thesis using that by (auto simp: find_None_iff)
  next
    case (Some m)
    then show ?thesis by (auto simp: get_by_id find_Some_iff) (metis nth_mem set_rev length_rev)
  qed
  have "map m_id (List.map_filter (jm_get (by_id (items lib))) ids) = ids
      \<and> set (List.map_filter (jm_get (by_id (items lib))) ids) \<subseteq> set (items lib)"
    if "set ids \<subseteq> m_id ` set (items lib)" for ids
    using that
  proof (induction ids)
    case (Cons i ids)
    obtain m where "jm_get (by_id (items lib)) i = Some m" "m_id m = i" "m \<in> set (items lib)"
      using found [of i] Cons.prems by auto
    then show ?case using Cons by simp
  qed simp
  then show ?thesis using assms by (simp add: activeMessages_def)
qed

text \<open>C26: However the library is edited, starting from what the page loads, the set the car holds is
  sound: at most eight messages, one for each active id, in the order of the quick-send row, all
  taken from the library.\<close>

theorem active_set_sound:
  assumes "edits\<^sup>*\<^sup>* (loadLibrary gen stored) lib"
  shows "length (activeMessages lib) \<le> 8 \<and> map m_id (activeMessages lib) = activeIds lib
       \<and> set (activeMessages lib) \<subseteq> set (items lib)"
proof -
  have "active_ok lib"
    using assms by (induction rule: rtranclp_induct) (auto intro: load_active_ok edits_active_ok)
  then show ?thesis
    using active_messages_ids [of lib] by (metis active_ok_def length_map MAX_ACTIVE_MESSAGES_def)
qed

definition load_ids :: "nat \<Rightarrow> string" where
  "load_ids k = ''msg-'' @ nat_text k"

theorem active_set_sound_witness:
  "length (activeMessages (toggleActive ''msg-3'' (loadLibrary load_ids None))) \<le> 8
   \<and> activeIds (toggleActive ''msg-3'' (loadLibrary load_ids None))
       = [''msg-0'', ''msg-1'', ''msg-2'', ''msg-4'', ''msg-5'', ''msg-6'']"
proof -
  have i: "activeIds (loadLibrary load_ids None)
      = [''msg-0'', ''msg-1'', ''msg-2'', ''msg-3'', ''msg-4'', ''msg-5'', ''msg-6'']"
    by (simp add: loadLibrary_def defaultMessageLibrary_def defaultMessages_def default_message_def
        load_ids_def MAX_ACTIVE_MESSAGES_def js_simps Let_def)
  have "''msg-3'' \<in> m_id ` set (items (loadLibrary load_ids None))"
    using i load_active_ok [of load_ids None] by (auto simp: active_ok_def)
  then have "edits\<^sup>*\<^sup>* (loadLibrary load_ids None) (toggleActive ''msg-3'' (loadLibrary load_ids None))"
    by (intro r_into_rtranclp edit_toggle)
  then show ?thesis
    using active_set_sound i by (simp add: toggleActive_def)
qed

text \<open>A library round-trips through the server's file and the local cache, and whatever those hold, the
  validator's result is well formed: every message has a label and a finite duration of at least
  zero, and the active ids name items.\<close>

theorem library_storage_roundtrip:
  "(library_ok lib \<longrightarrow> validateMessageLibrary gen (wire (library_json lib)) = Some lib)
   \<and> (validateMessageLibrary gen (wire raw) = Some l \<longrightarrow>
        library_ok l \<and> validateMessageLibrary gen' (wire (library_json l)) = Some l)"
  using library_store.parse_print library_store.parse_ok [OF sendable_wire] by blast

theorem library_storage_roundtrip_witness:
  "validateMessageLibrary load_ids (wire (library_json (loadLibrary load_ids None)))
     = Some (loadLibrary load_ids None)"
proof -
  have "library_ok (defaultMessageLibrary load_ids)"
    using default_active_ok [of load_ids]
    by (simp add: library_ok_def active_ok_def defaultMessageLibrary_def defaultMessages_def
        default_message_def message_ok_def Let_def)
  then have "library_ok (loadLibrary load_ids None)" by (simp add: loadLibrary_def)
  then show ?thesis
    using library_storage_roundtrip [of "loadLibrary load_ids None" load_ids JNull "loadLibrary load_ids None" load_ids]
    by blast
qed

end
