(* ===== verification/DashStore.thy ===== *)
theory DashStore
  imports DashMessages
begin

text \<open>
  The shared files of the dash: the routes \<^verbatim>\<open>app/api/dash/layouts\<close>, \<^verbatim>\<open>app/api/dash/messages\<close>,
  \<^verbatim>\<open>app/api/dash/raceplan\<close> and \<^verbatim>\<open>app/api/motec/live/session-cache\<close>, and their browser side in
  \<^verbatim>\<open>lib/dash/layoutStore.ts\<close>, \<^verbatim>\<open>lib/dash/messageStore.ts\<close> and \<^verbatim>\<open>lib/dash/useRacePlan.ts\<close>.

  The disk maps a file name to the document the file parses to; a file that is missing or does
  not parse has none. Writing a file is one step. A document is what \<^verbatim>\<open>JSON.parse\<close> gives for what
  \<^verbatim>\<open>JSON.stringify\<close> wrote (\<open>wire\<close>). A PUT of layouts is also modelled by its three suspension
  points, so that requests interleave.
\<close>

type_synonym disk = "string \<Rightarrow> json option"

record response =
  status :: nat
  rbody :: json

definition num :: "int \<Rightarrow> json" where
  "num n = JNum (JFin (of_int n))"

definition count_json :: "'a list \<Rightarrow> json" where
  "count_json xs = JNum (JFin (of_nat (length xs)))"

definition tmp :: "string \<Rightarrow> string" where
  "tmp p = p @ ''.tmp''"

subsection \<open>Layouts\<close>

definition slug_char :: "char \<Rightarrow> bool" where
  "slug_char c \<longleftrightarrow> is_alnum c \<or> c = CHR ''_'' \<or> c = CHR ''-''"

definition screen_slug :: "string \<Rightarrow> string" where
  "screen_slug screen =
     (let s = take 40 (filter slug_char (if screen = [] then ''lapCard'' else screen))
      in if s = [] then ''lapCard'' else s)"

definition libPath :: "string \<Rightarrow> string" where
  "libPath screen = (let slug = screen_slug screen
     in ''dash_layouts/'' @ (if slug = ''lapCard'' then ''library.json'' else ''library.'' @ slug @ ''.json''))"

definition get_layouts :: "string \<Rightarrow> disk \<Rightarrow> response" where
  "get_layouts screen d = (case d (libPath screen) of
       Some doc \<Rightarrow> \<lparr>status = 200, rbody = doc\<rparr>
     | None \<Rightarrow> \<lparr>status = 200, rbody = JObj [(''items'', JArr []), (''savedAt'', num 0)]\<rparr>)"

definition arr_or_empty :: "json \<Rightarrow> json list" where
  "arr_or_empty v = (case v of JArr xs \<Rightarrow> xs | _ \<Rightarrow> [])"

text \<open>The base version differs from the stored one, and both are numbers.\<close>

definition stale :: "json \<Rightarrow> json option \<Rightarrow> bool" where
  "stale body current = (case (as_num (field body ''baseSavedAt''),
                                Option.bind current (\<lambda>c. as_num (field c ''savedAt''))) of
       (Some base, Some cur) \<Rightarrow> \<not> js_eq base cur
     | _ \<Rightarrow> False)"

definition conflict_response :: "json option \<Rightarrow> response" where
  "conflict_response current =
     (let c = (case current of None \<Rightarrow> JUndef | Some v \<Rightarrow> v)
      in \<lparr>status = 409, rbody = JObj [(''conflict'', JBool True), (''items'', JArr (arr_or_empty (field c ''items''))),
            (''savedAt'', field c ''savedAt'')]\<rparr>)"

definition layouts_doc :: "json \<Rightarrow> int \<Rightarrow> json" where
  "layouts_doc body now = wire (JObj [(''items'', JArr (arr_or_empty (field body ''items''))), (''savedAt'', num now)])"

definition saved_response :: "json \<Rightarrow> int \<Rightarrow> response" where
  "saved_response body now = \<lparr>status = 200, rbody = JObj [(''ok'', JBool True),
     (''count'', count_json (arr_or_empty (field body ''items''))), (''savedAt'', num now)]\<rparr>"

definition write_tmp :: "string \<Rightarrow> json \<Rightarrow> disk \<Rightarrow> disk" where
  "write_tmp p doc d = d(tmp p \<mapsto> doc)"

text \<open>\<^verbatim>\<open>fs.rename\<close>: \<open>None\<close> when the source is gone, which throws.\<close>

definition rename_tmp :: "string \<Rightarrow> disk \<Rightarrow> disk option" where
  "rename_tmp p d = (case d (tmp p) of None \<Rightarrow> None | Some doc \<Rightarrow> Some (d(p \<mapsto> doc, tmp p := None)))"

definition write_file :: "string \<Rightarrow> json \<Rightarrow> disk \<Rightarrow> disk" where
  "write_file p doc d = (case rename_tmp p (write_tmp p doc d) of None \<Rightarrow> d | Some d' \<Rightarrow> d')"

text \<open>A PUT that is not interleaved with another.\<close>

definition put_layouts :: "string \<Rightarrow> json \<Rightarrow> int \<Rightarrow> disk \<Rightarrow> disk \<times> (js_error + response)" where
  "put_layouts screen body now d =
     (if nullish body then (d, Inl TypeError)
      else let p = libPath screen; current = d p in
      if stale body current then (d, Inr (conflict_response current))
      else (write_file p (layouts_doc body now) d, Inr (saved_response body now)))"

text \<open>
  A PUT by its suspension points: the check against the stored version and the choice of the
  version are one step after the file was read, then the temporary file is written, then it is
  renamed.
\<close>

datatype put_phase =
    Checked string json int
  | Written string json int
  | PutDone response
  | PutFailed

fun put_resume :: "put_phase \<Rightarrow> disk \<Rightarrow> put_phase \<times> disk" where
  "put_resume (Checked p body now) d = (Written p body now, write_tmp p (layouts_doc body now) d)"
| "put_resume (Written p body now) d = (case rename_tmp p d of
       None \<Rightarrow> (PutFailed, d)
     | Some d' \<Rightarrow> (PutDone (saved_response body now), d'))"
| "put_resume (PutDone r) d = (PutDone r, d)"
| "put_resume PutFailed d = (PutFailed, d)"

definition put_begin :: "string \<Rightarrow> json \<Rightarrow> int \<Rightarrow> disk \<Rightarrow> put_phase" where
  "put_begin screen body now d =
     (if nullish body then PutFailed
      else if stale body (d (libPath screen)) then PutDone (conflict_response (d (libPath screen)))
      else Checked (libPath screen) body now)"

text \<open>The server: the disk and the PUTs in progress.\<close>

inductive put_step :: "disk \<times> put_phase list \<Rightarrow> disk \<times> put_phase list \<Rightarrow> bool" where
  put_arrives: "put_step (d, ps) (d, ps @ [put_begin screen body now d])"
| put_resumes: "k < length ps \<Longrightarrow> put_resume (ps ! k) d = (ph, d') \<Longrightarrow> put_step (d, ps) (d', ps[k := ph])"

subsection \<open>Messages\<close>

definition messages_file :: string where "messages_file = ''dash_messages/library.json''"

definition get_messages :: "disk \<Rightarrow> response" where
  "get_messages d = (case d messages_file of
       Some doc \<Rightarrow> \<lparr>status = 200, rbody = doc\<rparr>
     | None \<Rightarrow> \<lparr>status = 200, rbody = JObj [(''items'', JArr []), (''activeIds'', JArr []), (''savedAt'', num 0)]\<rparr>)"

definition messages_doc :: "json \<Rightarrow> int \<Rightarrow> json" where
  "messages_doc body now = wire (JObj [(''items'', JArr (arr_or_empty (field body ''items''))),
     (''activeIds'', JArr (arr_or_empty (field body ''activeIds''))), (''savedAt'', num now)])"

definition put_messages :: "json \<Rightarrow> int \<Rightarrow> disk \<Rightarrow> disk \<times> (js_error + response)" where
  "put_messages body now d =
     (if nullish body then (d, Inl TypeError)
      else (write_file messages_file (messages_doc body now) d,
            Inr \<lparr>status = 200, rbody = JObj [(''ok'', JBool True),
                  (''count'', count_json (arr_or_empty (field body ''items'')))]\<rparr>))"

subsection \<open>The race plan\<close>

definition plan_file :: string where "plan_file = ''dash_raceplan/plan.json''"

definition get_plan :: "disk \<Rightarrow> response" where
  "get_plan d = (case d plan_file of
       Some doc \<Rightarrow> \<lparr>status = 200, rbody = doc\<rparr>
     | None \<Rightarrow> \<lparr>status = 200, rbody = JObj [(''totalLaps'', num 0), (''budgetKwh'', num 0),
         (''soeCutoffCellV'', num 0), (''savedAt'', num 0)]\<rparr>)"

definition non_negative :: "jsnum \<Rightarrow> jsnum" where
  "non_negative x = (if js_finite x then js_max (JFin 0) x else JFin 0)"

definition plan_doc :: "json \<Rightarrow> int \<Rightarrow> json" where
  "plan_doc body now = wire (JObj
     [(''totalLaps'', JNum (non_negative (js_floor (to_number (field body ''totalLaps''))))),
      (''budgetKwh'', JNum (non_negative (to_number (field body ''budgetKwh'')))),
      (''soeCutoffCellV'', JNum (non_negative (to_number (field body ''soeCutoffCellV'')))),
      (''savedAt'', num now)])"

definition put_plan :: "json \<Rightarrow> int \<Rightarrow> disk \<Rightarrow> disk \<times> (js_error + response)" where
  "put_plan body now d =
     (if nullish body then (d, Inl TypeError)
      else (write_file plan_file (plan_doc body now) d, Inr \<lparr>status = 200, rbody = JObj [(''ok'', JBool True)]\<rparr>))"

subsection \<open>The session cache\<close>

definition session_file :: string where "session_file = ''live_sessions/latest.json''"

definition get_session :: "disk \<Rightarrow> response" where
  "get_session d = (case d session_file of
       Some doc \<Rightarrow> \<lparr>status = 200, rbody = doc\<rparr>
     | None \<Rightarrow> \<lparr>status = 404, rbody = JObj [(''detail'', JStr ''No saved live session.'')]\<rparr>)"

text \<open>\<^verbatim>\<open>{ ...payload }\<close>.\<close>

definition spread :: "json \<Rightarrow> (string \<times> json) list" where
  "spread v = (case v of
       JStr s \<Rightarrow> map (\<lambda>i. (nat_text i, JStr [s ! i])) [0..<length s]
     | _ \<Rightarrow> entries v)"

definition session_saved_at :: "json \<Rightarrow> int \<Rightarrow> jsnum" where
  "session_saved_at payload now =
     (let n = to_number (field (JObj (spread payload)) ''savedAt'')
      in if n = JFin 0 \<or> n = JNaN then JFin (of_int now) else n)"

definition session_doc :: "json \<Rightarrow> int \<Rightarrow> json" where
  "session_doc payload now = wire (JObj (jm_set ''savedAt'' (JNum (session_saved_at payload now)) (spread payload)))"

text \<open>\<open>None\<close> is a body that does not parse.\<close>

definition post_session :: "json option \<Rightarrow> int \<Rightarrow> disk \<Rightarrow> disk \<times> response" where
  "post_session payload now d = (case payload of
       None \<Rightarrow> (d, \<lparr>status = 400, rbody = JObj [(''detail'', JStr ''Invalid JSON body.'')]\<rparr>)
     | Some v \<Rightarrow> (write_file session_file (session_doc v now) d,
         \<lparr>status = 200, rbody = JObj [(''ok'', JBool True), (''savedAt'', JNum (session_saved_at v now))]\<rparr>))"

definition delete_session :: "disk \<Rightarrow> disk \<times> response" where
  "delete_session d = (d(session_file := None, tmp session_file := None),
     \<lparr>status = 200, rbody = JObj [(''ok'', JBool True)]\<rparr>)"

subsection \<open>The browser side\<close>

definition response_ok :: "response \<Rightarrow> bool" where
  "response_ok r \<longleftrightarrow> 200 \<le> status r \<and> status r \<le> 299"

text \<open>\<open>None\<close> is a request that failed or whose answer does not parse. A body that is \<open>null\<close>, or an
  \<^verbatim>\<open>items\<close> that is neither nullish nor an array, throws inside the \<^verbatim>\<open>try\<close>. For a save, an answer
  that does not parse counts as an empty object.\<close>

definition response_items :: "json \<Rightarrow> lap_card_layout list option" where
  "response_items body = (case field body ''items'' of
       JArr xs \<Rightarrow> Some (List.map_filter validateLapCardLayout xs)
     | v \<Rightarrow> if nullish v then Some [] else None)"

definition fetchServerLayouts :: "response option \<Rightarrow> (lap_card_layout list \<times> jsnum option) option" where
  "fetchServerLayouts res = (case res of
       None \<Rightarrow> None
     | Some r \<Rightarrow> if \<not> response_ok r \<or> nullish (rbody r) then None
               else map_option (\<lambda>its. (its, as_num (field (rbody r) ''savedAt''))) (response_items (rbody r)))"

datatype save_result =
    SaveOk "jsnum option"
  | SaveConflict "lap_card_layout list" "jsnum option"
  | SaveFailed

definition saveServerLayouts :: "response option \<Rightarrow> save_result" where
  "saveServerLayouts res = (case res of
       None \<Rightarrow> SaveFailed
     | Some r \<Rightarrow>
         if nullish (rbody r) then SaveFailed
         else let savedAt = as_num (field (rbody r) ''savedAt'') in
         if status r = 409 \<or> truthy (field (rbody r) ''conflict'')
         then (case response_items (rbody r) of Some its \<Rightarrow> SaveConflict its savedAt | None \<Rightarrow> SaveFailed)
         else if response_ok r \<and> field (rbody r) ''ok'' \<noteq> JBool False then SaveOk savedAt
         else SaveFailed)"

definition save_body :: "lap_card_layout list \<Rightarrow> jsnum option \<Rightarrow> json" where
  "save_body its base = wire (JObj [(''items'', JArr (map layout_json its)),
     (''baseSavedAt'', (case base of None \<Rightarrow> JNull | Some x \<Rightarrow> JNum x))])"

definition fetchServerMessages :: "(nat \<Rightarrow> string) \<Rightarrow> response option \<Rightarrow> message_library option" where
  "fetchServerMessages gen res = (case res of
       None \<Rightarrow> None
     | Some r \<Rightarrow> if \<not> response_ok r then None else validateMessageLibrary gen (rbody r))"

definition LOCAL_EDIT_GRACE_MS :: int where "LOCAL_EDIT_GRACE_MS = 6000"

text \<open>\<^verbatim>\<open>useRacePlan\<close>: the state is the time of the last local edit; a poll answers the plan to adopt.\<close>

definition plan_push :: "int \<Rightarrow> int \<Rightarrow> int" where
  "plan_push now lastEdit = now"

definition plan_poll :: "response option \<Rightarrow> bool \<Rightarrow> int \<Rightarrow> int \<Rightarrow> json option" where
  "plan_poll res alive now lastEdit = (case res of
       None \<Rightarrow> None
     | Some r \<Rightarrow>
         if \<not> response_ok r \<or> \<not> alive \<or> \<not> truthy (rbody r) \<or> as_num (field (rbody r) ''totalLaps'') = None then None
         else if now - lastEdit < LOCAL_EDIT_GRACE_MS then None else Some (rbody r))"


subsection \<open>Files\<close>

lemma tmp_neq [simp]: "tmp p \<noteq> p" "p \<noteq> tmp p"
  by (simp_all add: tmp_def)

lemma write_file_get: "write_file p doc d f = (if f = p then Some doc else if f = tmp p then None else d f)"
  by (simp add: write_file_def write_tmp_def rename_tmp_def)

lemma slug_chars: "c \<in> set (screen_slug s) \<Longrightarrow> slug_char c"
  by (auto simp: screen_slug_def Let_def dest!: in_set_takeD split: if_splits)
     (simp_all add: slug_char_def is_alnum_def is_lower_def is_upper_def)

lemma slug_char_safe: "slug_char c \<Longrightarrow> c \<noteq> CHR ''.'' \<and> c \<noteq> CHR ''/''"
  by (auto simp: slug_char_def is_alnum_def is_lower_def is_upper_def is_digit_def)

lemma slug_not_Nil: "screen_slug s \<noteq> []"
  by (simp add: screen_slug_def Let_def)

lemma libPath_slug: "libPath s = libPath t \<longleftrightarrow> screen_slug s = screen_slug t"
  by (auto simp: libPath_def Let_def)

text \<open>A screen name reaches only its own file. The name of the file has no directory separator
  beyond the library's own, it is at most 53 characters long, screens share a file exactly when their slugs
  agree, and no screen's file is the temporary file of another.\<close>

theorem libPath_safe:
  "(\<exists>name. libPath screen = ''dash_layouts/'' @ name \<and> CHR ''/'' \<notin> set name \<and> length name \<le> 53)
   \<and> (libPath screen = libPath screen' \<longleftrightarrow> screen_slug screen = screen_slug screen')
   \<and> libPath screen \<noteq> tmp (libPath screen')"
proof -
  have "length (screen_slug screen) \<le> 40" by (auto simp: screen_slug_def Let_def)
  moreover have "CHR ''/'' \<notin> set (screen_slug screen)" using slug_chars slug_char_safe by blast
  ultimately have 1: "\<exists>name. libPath screen = ''dash_layouts/'' @ name \<and> CHR ''/'' \<notin> set name \<and> length name \<le> 53"
    by (simp add: libPath_def Let_def)
  have "last (libPath screen) \<noteq> last (tmp (libPath screen'))"
    by (simp add: libPath_def Let_def tmp_def)
  then have "libPath screen \<noteq> tmp (libPath screen')" by metis
  with 1 libPath_slug show ?thesis by blast
qed

subsection \<open>Routes that keep one document\<close>

text \<open>
  The contract the four routes share: an accepted write replaces the file, a rejected one
  changes nothing, no other file is touched, and a read returns the file.
\<close>

locale document_route =
  fixes put :: "'b \<Rightarrow> int \<Rightarrow> disk \<Rightarrow> disk"
    and get :: "disk \<Rightarrow> response"
    and accepts :: "'b \<Rightarrow> disk \<Rightarrow> bool"
    and doc :: "'b \<Rightarrow> int \<Rightarrow> json"
    and doc_file :: string
  assumes put_accepted: "accepts b d \<Longrightarrow> put b now d doc_file = Some (doc b now)"
    and put_rejected: "\<not> accepts b d \<Longrightarrow> put b now d = d"
    and put_frame: "f \<noteq> doc_file \<Longrightarrow> f \<noteq> tmp doc_file \<Longrightarrow> put b now d f = d f"
    and get_file: "d doc_file = Some v \<Longrightarrow> get d = \<lparr>status = 200, rbody = v\<rparr>"
begin

definition run :: "('b \<times> int) list \<Rightarrow> disk \<Rightarrow> disk" where
  "run reqs d = fold (\<lambda>(b, now). put b now) reqs d"

lemma run_snoc: "run (reqs @ [(b, now)]) d = put b now (run reqs d)"
  by (simp add: run_def)

lemma get_after_put: "accepts b d \<Longrightarrow> get (put b now d) = \<lparr>status = 200, rbody = doc b now\<rparr>"
  by (simp add: get_file put_accepted)

lemma run_frame: "f \<noteq> doc_file \<Longrightarrow> f \<noteq> tmp doc_file \<Longrightarrow> run reqs d f = d f"
  by (induction reqs arbitrary: d) (auto simp: run_def put_frame)

lemma last_writer:
  "accepts b (run reqs d) \<Longrightarrow> get (run (reqs @ [(b, now)]) d) = \<lparr>status = 200, rbody = doc b now\<rparr>"
  by (simp add: run_snoc get_after_put)

lemma run_keeps:
  assumes "\<And>b now. P (doc b now)" "\<And>v. d doc_file = Some v \<Longrightarrow> P v"
  shows "run reqs d doc_file = Some v \<Longrightarrow> P v"
proof (induction reqs arbitrary: v rule: rev_induct)
  case Nil
  then show ?case using assms(2) by (simp add: run_def)
next
  case (snoc r reqs)
  obtain b now where r: "r = (b, now)" by (cases r)
  show ?case
    using snoc assms(1) put_accepted put_rejected unfolding r run_snoc
    by (metis option.inject)
qed

end

interpretation layouts_route: document_route
  "\<lambda>body now d. fst (put_layouts screen body now d)" "get_layouts screen"
  "\<lambda>body d. \<not> nullish body \<and> \<not> stale body (d (libPath screen))" layouts_doc "libPath screen"
  by unfold_locales (auto simp: put_layouts_def get_layouts_def write_file_get Let_def)

interpretation messages_route: document_route
  "\<lambda>body now d. fst (put_messages body now d)" get_messages "\<lambda>body d. \<not> nullish body" messages_doc messages_file
  by unfold_locales (auto simp: put_messages_def get_messages_def write_file_get)

interpretation plan_route: document_route
  "\<lambda>body now d. fst (put_plan body now d)" get_plan "\<lambda>body d. \<not> nullish body" plan_doc plan_file
  by unfold_locales (auto simp: put_plan_def get_plan_def write_file_get)

interpretation session_route: document_route
  "\<lambda>payload now d. fst (post_session payload now d)" get_session "\<lambda>payload d. payload \<noteq> None"
  "\<lambda>payload. session_doc (the payload)" session_file
  by unfold_locales (auto simp: post_session_def get_session_def write_file_get split: option.splits)

subsection \<open>Layouts through the server\<close>

definition layout_ok :: "lap_card_layout \<Rightarrow> bool" where
  "layout_ok l \<longleftrightarrow> js_finite (l_version l) \<and> list_all usable_widget (l_widgets l) \<and> sendable (JArr (l_widgets l))"

lemma usable_not_undef: "usable_widget w \<Longrightarrow> w \<noteq> JUndef"
  by (auto simp: usable_widget_def)

lemma layout_wire:
  "js_finite (l_version l) \<Longrightarrow> sendable (JArr (l_widgets l)) \<Longrightarrow>
     field (wire (layout_json l)) k = field (layout_json l) k \<and> is_object (wire (layout_json l))"
  by (cases "l_id l") (simp_all add: layout_json_def sendable_def)

lemma layout_parse_print: "layout_ok l \<Longrightarrow> validateLapCardLayout (wire (layout_json l)) = Some l"
proof -
  assume ok: "layout_ok l"
  note w = layout_wire [of l] and f = layout_json_def
  have "filter usable_widget (l_widgets l) = l_widgets l"
    using ok by (simp add: layout_ok_def list_all_iff)
  then show ?thesis
    using ok w by (simp add: validateLapCardLayout_def layout_ok_def) (simp add: f split: option.splits)
qed

lemma sendable_filter: "sendable (JArr xs) \<Longrightarrow> sendable (JArr (filter P xs))"
proof -
  assume s: "sendable (JArr xs)"
  have "v \<noteq> JUndef \<and> wire v = v" if "v \<in> set xs" for v
  proof -
    have "map (\<lambda>v. if v = JUndef then JNull else wire v) xs = map id xs" using s by (simp add: sendable_def)
    then have "(if v = JUndef then JNull else wire v) = v" using that by (simp only: map_eq_conv) simp
    then show ?thesis by (auto split: if_splits)
  qed
  then show ?thesis by (auto simp: sendable_def intro!: map_idI)
qed

lemma layout_parse_ok: "sendable j \<Longrightarrow> validateLapCardLayout j = Some l \<Longrightarrow> layout_ok l"
proof -
  assume j: "sendable j" and v: "validateLapCardLayout j = Some l"
  obtain ws where ws: "field j ''widgets'' = JArr ws" "l_widgets l = filter usable_widget ws"
    "l_version l = (case field j ''version'' of JNum x \<Rightarrow> x | _ \<Rightarrow> DASH_LAYOUT_VERSION)"
    using v by (auto simp: validateLapCardLayout_def split: if_splits json.split_asm)
  have "sendable (JArr ws)" "sendable (field j ''version'')"
    using sendable_field [OF j, of "''widgets''"] sendable_field [OF j, of "''version''"] ws(1) by simp_all
  then show ?thesis
    using ws by (auto simp: layout_ok_def list_all_iff sendable_filter DASH_LAYOUT_VERSION_def split: json.splits)
qed

interpretation layout_store: stored_value validateLapCardLayout layout_json layout_ok
  by unfold_locales (simp_all add: layout_parse_print layout_parse_ok)

lemma response_items_print:
  "list_all layout_ok its \<Longrightarrow>
     response_items (JObj [(''items'', JArr (map (\<lambda>l. wire (layout_json l)) its)), (''savedAt'', v)]) = Some its"
  using layout_store.parse_list by (simp add: response_items_def)

lemma save_body_fields:
  "js_finite b \<Longrightarrow> field (save_body its (Some b)) ''baseSavedAt'' = JNum b"
  "field (save_body its None) ''baseSavedAt'' = JNull"
  "field (save_body its base) ''items'' = JArr (map (\<lambda>l. wire (layout_json l)) its)"
  "\<not> nullish (save_body its base)"
  by (auto simp: save_body_def layout_json_def comp_def split: option.splits)

lemma layouts_doc_save:
  "layouts_doc (save_body its base) now =
     JObj [(''items'', JArr (map (\<lambda>l. wire (layout_json l)) its)), (''savedAt'', num now)]"
  by (simp add: layouts_doc_def save_body_fields arr_or_empty_def num_def comp_def) (simp add: layout_json_def)

definition base_of :: "string \<Rightarrow> disk \<Rightarrow> jsnum option" where
  "base_of screen d = as_num (field (rbody (get_layouts screen d)) ''savedAt'')"

text \<open>Documents on disk came from \<^verbatim>\<open>JSON.parse\<close>.\<close>

definition disk_ok :: "disk \<Rightarrow> bool" where
  "disk_ok d \<longleftrightarrow> (\<forall>f v. d f = Some v \<longrightarrow> sendable v)"

lemma sendable_layouts_doc: "sendable (layouts_doc b t)"
  unfolding layouts_doc_def by (rule sendable_wire)

lemma own_base_not_stale: "\<not> stale (save_body its (base_of screen d)) (d (libPath screen))"
  if "disk_ok d"
proof (cases "d (libPath screen)")
  case None
  then show ?thesis by (simp add: stale_def split: option.splits)
next
  case (Some v)
  show ?thesis
  proof (cases "as_num (field v ''savedAt'')")
    case (Some x)
    then have "field v ''savedAt'' = JNum x" by simp
    moreover have "sendable (field v ''savedAt'')"
      using that \<open>d (libPath screen) = Some v\<close> sendable_field unfolding disk_ok_def by blast
    ultimately have "js_finite x" by simp
    then show ?thesis
      using \<open>d (libPath screen) = Some v\<close> \<open>field v ''savedAt'' = JNum x\<close>
      by (auto simp: stale_def base_of_def get_layouts_def save_body_fields js_finite_iff)
  qed (simp add: stale_def \<open>d (libPath screen) = Some v\<close> split: option.splits)
qed

text \<open>C24: Save and fetch, by one editor on top of the version it fetched: the save succeeds, and the
  next fetch by anyone returns the saved layouts and the version the save reported.\<close>

theorem layouts_save_fetch:
  assumes "disk_ok d" and "list_all layout_ok its"
    and "put_layouts screen (save_body its (base_of screen d)) now d = (d', r)"
  shows "\<exists>res. r = Inr res \<and> saveServerLayouts (Some res) = SaveOk (Some (JFin (of_int now)))
       \<and> fetchServerLayouts (Some (get_layouts screen d')) = Some (its, Some (JFin (of_int now)))"
proof -
  let ?b = "save_body its (base_of screen d)"
  have acc: "\<not> nullish ?b \<and> \<not> stale ?b (d (libPath screen))"
    using own_base_not_stale [OF assms(1)] save_body_fields(4) by simp
  have d': "get_layouts screen d' = \<lparr>status = 200, rbody = layouts_doc ?b now\<rparr>"
    using layouts_route.get_after_put [where d = d and screen = screen and now = now, OF acc] assms(3)
    by simp
  have r: "r = Inr (saved_response ?b now)"
    using assms(3) acc by (simp add: put_layouts_def Let_def)
  show ?thesis
    using assms(2) by (simp add: r d' saved_response_def saveServerLayouts_def response_ok_def
        fetchServerLayouts_def layouts_doc_save response_items_print num_def)
qed

theorem layouts_save_fetch_witness:
  "fetchServerLayouts (Some (get_layouts ''park'' (fst (put_layouts ''park''
      (save_body [] (base_of ''park'' Map.empty)) 1700 Map.empty)))) = Some ([], Some (JFin 1700))"
  using layouts_save_fetch [of Map.empty "[]" "''park''" 1700, OF _ _ surjective_pairing]
  by (auto simp: disk_ok_def)

text \<open>A save on top of an outdated version changes nothing: the editor is told of the conflict and
  given the stored layouts and their version, on top of which it can save again.\<close>

theorem stale_save_rejected:
  assumes "disk_ok d" and "list_all layout_ok stored"
    and "d (libPath screen) = Some (layouts_doc (save_body stored base') cur)"
    and "base \<noteq> cur"
  shows "\<exists>res. put_layouts screen (save_body its (Some (JFin (of_int base)))) now d = (d, Inr res)
       \<and> saveServerLayouts (Some res) = SaveConflict stored (Some (JFin (of_int cur)))
       \<and> base_of screen d = Some (JFin (of_int cur))"
  using assms(2-4) layout_store.parse_list [OF assms(2)]
  by (simp add: put_layouts_def stale_def save_body_fields layouts_doc_save Let_def conflict_response_def
      arr_or_empty_def saveServerLayouts_def response_items_def base_of_def get_layouts_def num_def)

definition other_saved :: disk where
  "other_saved = Map.empty(libPath ''park'' \<mapsto> layouts_doc (save_body [defaultParkLayout] None) 5)"

theorem stale_save_rejected_witness:
  "saveServerLayouts (case snd (put_layouts ''park'' (save_body [] (Some (JFin 3))) 9 other_saved) of Inr r \<Rightarrow> Some r)
     = SaveConflict [defaultParkLayout] (Some (JFin 5))
   \<and> fst (put_layouts ''park'' (save_body [] (Some (JFin 3))) 9 other_saved) = other_saved"
proof -
  have "layout_ok defaultParkLayout"
    by (simp add: layout_ok_def defaultParkLayout_def DASH_LAYOUT_VERSION_def sendable_def usable_widget_def
        is_str_def is_num_def one_of_def WIDGET_TYPES_def)
  then have "list_all layout_ok [defaultParkLayout]" by simp
  moreover have "disk_ok other_saved"
    by (auto simp: disk_ok_def other_saved_def sendable_layouts_doc split: if_splits)
  ultimately show ?thesis
    using stale_save_rejected [of other_saved "[defaultParkLayout]" "''park''" None 5 3 "[]" 9]
    by (auto simp: other_saved_def)
qed

subsection \<open>Interleaved saves\<close>

lemma put_step_run: "put_step\<^sup>*\<^sup>* (d, ps) (d', ps[k := ph])"
  if "k < length ps" "put_resume (ps ! k) d = (ph, d')"
  using that by (intro r_into_rtranclp put_resumes)

definition two_puts :: "string \<Rightarrow> json \<Rightarrow> int \<Rightarrow> json \<Rightarrow> int \<Rightarrow> disk \<Rightarrow> put_phase list" where
  "two_puts screen b1 t1 b2 t2 d = [put_begin screen b1 t1 d, put_begin screen b2 t2 d]"

lemma two_puts_arrive: "put_step\<^sup>*\<^sup>* (d, []) (d, two_puts screen b1 t1 b2 t2 d)"
  using put_arrives [of d "[]" screen b1 t1] put_arrives [of d "[put_begin screen b1 t1 d]" screen b2 t2]
  by (auto simp: two_puts_def)

lemma resume_write:
  "put_resume (Checked p b t) d = (Written p b t, d(tmp p \<mapsto> layouts_doc b t))"
  by (simp add: write_tmp_def)

text \<open>C25: 
  The version check does not cover saves that overlap. Two editors that save on top of the same
  version are both answered with success when the first has not renamed its file before the
  second is checked, and the first editor's layouts are gone. When both write the temporary file
  before either renames it, the first editor is told that its layouts were saved while the file holds the
  second's, and the second editor is told that its save failed.
\<close>

theorem overlapping_saves_lose_update:
  assumes "\<not> nullish b1" "\<not> nullish b2"
    and "\<not> stale b1 (d (libPath screen))" "\<not> stale b2 (d (libPath screen))"
  shows "(\<exists>d'. put_step\<^sup>*\<^sup>* (d, []) (d', [PutDone (saved_response b1 t1), PutDone (saved_response b2 t2)])
            \<and> d' (libPath screen) = Some (layouts_doc b2 t2))
       \<and> (\<exists>d'. put_step\<^sup>*\<^sup>* (d, []) (d', [PutDone (saved_response b1 t1), PutFailed])
            \<and> d' (libPath screen) = Some (layouts_doc b2 t2))"
proof -
  let ?p = "libPath screen"
  have both_checked: "put_step\<^sup>*\<^sup>* (d, []) (d, [Checked ?p b1 t1, Checked ?p b2 t2])"
    using two_puts_arrive [of d screen b1 t1 b2 t2] assms by (simp add: two_puts_def put_begin_def)
  have ren: "rename_tmp ?p (e(tmp ?p \<mapsto> v)) = Some (e(?p \<mapsto> v, tmp ?p := None))" for e v
    by (auto simp: rename_tmp_def fun_eq_iff)
  define d1 where "d1 = d(?p \<mapsto> layouts_doc b1 t1, tmp ?p := None)"
  define d2 where "d2 = d1(?p \<mapsto> layouts_doc b2 t2, tmp ?p := None)"
  define d3 where "d3 = d(?p \<mapsto> layouts_doc b2 t2, tmp ?p := None)"
  note st = put_step_run [where k = 0] put_step_run [where k = 1]
  have "put_step\<^sup>*\<^sup>* (d, [Checked ?p b1 t1, Checked ?p b2 t2]) (d(tmp ?p \<mapsto> layouts_doc b1 t1), [Written ?p b1 t1, Checked ?p b2 t2])"
    using put_step_run [of 0 "[Checked ?p b1 t1, Checked ?p b2 t2]", OF _ _] resume_write by simp
  note w1 = rtranclp_trans [OF both_checked this]
  have "put_step\<^sup>*\<^sup>* (d(tmp ?p \<mapsto> layouts_doc b1 t1), [Written ?p b1 t1, Checked ?p b2 t2])
      (d1, [PutDone (saved_response b1 t1), Checked ?p b2 t2])"
    using put_step_run [of 0 "[Written ?p b1 t1, Checked ?p b2 t2]"] by (simp add: ren d1_def)
  note r1 = rtranclp_trans [OF w1 this]
  have "put_step\<^sup>*\<^sup>* (d1, [PutDone (saved_response b1 t1), Checked ?p b2 t2])
      (d1(tmp ?p \<mapsto> layouts_doc b2 t2), [PutDone (saved_response b1 t1), Written ?p b2 t2])"
    using put_step_run [of 1 "[PutDone (saved_response b1 t1), Checked ?p b2 t2]"] by (simp add: write_tmp_def)
  note w2 = rtranclp_trans [OF r1 this]
  have "put_step\<^sup>*\<^sup>* (d1(tmp ?p \<mapsto> layouts_doc b2 t2), [PutDone (saved_response b1 t1), Written ?p b2 t2])
      (d2, [PutDone (saved_response b1 t1), PutDone (saved_response b2 t2)])"
    using put_step_run [of 1 "[PutDone (saved_response b1 t1), Written ?p b2 t2]"] by (simp add: ren d2_def)
  note both = rtranclp_trans [OF w2 this]
  have "put_step\<^sup>*\<^sup>* (d(tmp ?p \<mapsto> layouts_doc b1 t1), [Written ?p b1 t1, Checked ?p b2 t2])
      (d(tmp ?p \<mapsto> layouts_doc b2 t2), [Written ?p b1 t1, Written ?p b2 t2])"
    using put_step_run [of 1 "[Written ?p b1 t1, Checked ?p b2 t2]" "d(tmp ?p \<mapsto> layouts_doc b1 t1)"] by (simp add: write_tmp_def)
  note v2 = rtranclp_trans [OF w1 this]
  have "put_step\<^sup>*\<^sup>* (d(tmp ?p \<mapsto> layouts_doc b2 t2), [Written ?p b1 t1, Written ?p b2 t2])
      (d3, [PutDone (saved_response b1 t1), Written ?p b2 t2])"
    using put_step_run [of 0 "[Written ?p b1 t1, Written ?p b2 t2]"] by (simp add: ren d3_def)
  note v3 = rtranclp_trans [OF v2 this]
  have "put_step\<^sup>*\<^sup>* (d3, [PutDone (saved_response b1 t1), Written ?p b2 t2]) (d3, [PutDone (saved_response b1 t1), PutFailed])"
    using put_step_run [of 1 "[PutDone (saved_response b1 t1), Written ?p b2 t2]"] by (simp add: rename_tmp_def d3_def)
  note swapped = rtranclp_trans [OF v3 this]
  show ?thesis
    using both swapped by (metis d2_def d3_def fun_upd_apply tmp_neq(2))
qed

theorem overlapping_saves_lose_update_witness:
  "\<exists>d'. put_step\<^sup>*\<^sup>* (other_saved, [])
      (d', [PutDone (saved_response (save_body [] (Some (JFin 5))) 6),
            PutDone (saved_response (save_body [defaultDrivingLayout] (Some (JFin 5))) 7)])
    \<and> d' (libPath ''park'') = Some (layouts_doc (save_body [defaultDrivingLayout] (Some (JFin 5))) 7)"
proof -
  have "\<not> stale (save_body its (Some (JFin 5))) (other_saved (libPath ''park''))" for its
    by (simp add: stale_def other_saved_def save_body_fields layouts_doc_save num_def)
  then show ?thesis
    using overlapping_saves_lose_update [of "save_body [] (Some (JFin 5))"
        "save_body [defaultDrivingLayout] (Some (JFin 5))" other_saved "''park''" 6 7]
      save_body_fields(4) by blast
qed

text \<open>Every interleaving keeps the files complete: if each layouts file on disk holds a document
  with an items array and a numeric version, temporary files included, then so it stays.\<close>

definition layouts_shaped :: "json \<Rightarrow> bool" where
  "layouts_shaped v \<longleftrightarrow> as_arr (field v ''items'') \<noteq> None \<and> as_num (field v ''savedAt'') \<noteq> None"

lemma layouts_doc_shaped: "layouts_shaped (layouts_doc b t)"
  by (simp add: layouts_shaped_def layouts_doc_def num_def)

lemma put_step_shaped:
  "put_step c c' \<Longrightarrow> (\<And>f v. fst c f = Some v \<Longrightarrow> layouts_shaped v) \<Longrightarrow> fst c' f = Some v \<Longrightarrow> layouts_shaped v"
proof (induction rule: put_step.induct)
  case (put_resumes k ps d ph d')
  show ?case
  proof (cases "ps ! k")
    case (Checked p b t)
    then show ?thesis using put_resumes layouts_doc_shaped by (auto simp: write_tmp_def split: if_splits)
  next
    case (Written p b t)
    then show ?thesis using put_resumes by (auto simp: rename_tmp_def split: option.splits if_splits)
  qed (use put_resumes in auto)
qed simp

theorem layouts_files_complete:
  assumes "put_step\<^sup>*\<^sup>* (d, ps) (d', ps')" and "\<And>f v. d f = Some v \<Longrightarrow> layouts_shaped v"
  shows "layouts_shaped (rbody (get_layouts screen d')) \<and> status (get_layouts screen d') = 200"
proof -
  have "fst c f = Some v \<longrightarrow> layouts_shaped v" if "put_step\<^sup>*\<^sup>* (d, ps) c" for c f v
    using that
  proof (induction arbitrary: f v rule: rtranclp_induct)
    case (step c e)
    then show ?case using put_step_shaped by blast
  qed (use assms(2) in simp)
  from this [OF assms(1)] show ?thesis
    by (auto simp: get_layouts_def num_def layouts_shaped_def split: option.splits)
qed

theorem layouts_files_complete_witness:
  "layouts_shaped (rbody (get_layouts ''park'' other_saved))"
proof -
  have "layouts_shaped v" if "other_saved f = Some v" for f v
    using that layouts_doc_shaped by (auto simp: other_saved_def split: if_splits)
  then show ?thesis
    using layouts_files_complete [of other_saved "[]" other_saved "[]" "''park''"] by simp
qed

subsection \<open>The race plan and the session\<close>

text \<open>A plan is stored as three finite non-negative numbers, whole laps included, and reads back as it was
  stored. A request that omits the cell-voltage cutoff stores a cutoff of zero, whatever was
  stored before.\<close>

lemma non_negative_fin: "\<exists>r. non_negative x = JFin r \<and> 0 \<le> r"
  by (cases x) (auto simp: non_negative_def)

theorem plan_put_get:
  assumes "\<not> nullish body"
  shows "\<exists>laps kwh cut. rbody (get_plan (fst (put_plan body now d))) = JObj
          [(''totalLaps'', JNum (JFin (of_int laps))), (''budgetKwh'', JNum (JFin kwh)),
           (''soeCutoffCellV'', JNum (JFin cut)), (''savedAt'', num now)]
        \<and> 0 \<le> laps \<and> 0 \<le> kwh \<and> 0 \<le> cut \<and> (field body ''soeCutoffCellV'' = JUndef \<longrightarrow> cut = 0)"
proof -
  obtain kwh where k: "non_negative (to_number (field body ''budgetKwh'')) = JFin kwh" "0 \<le> kwh"
    using non_negative_fin by blast
  obtain cut where c: "non_negative (to_number (field body ''soeCutoffCellV'')) = JFin cut" "0 \<le> cut"
    using non_negative_fin by blast
  have "\<exists>laps. non_negative (js_floor x) = JFin (of_int laps) \<and> 0 \<le> laps" for x
    by (cases x) (auto simp: non_negative_def js_floor_def max_def intro: exI [of _ 0])
  then obtain laps where l: "non_negative (js_floor (to_number (field body ''totalLaps''))) = JFin (of_int laps)" "0 \<le> laps"
    by blast
  have "cut = 0" if "field body ''soeCutoffCellV'' = JUndef"
    using c(1) that by (simp add: non_negative_def)
  then show ?thesis
    using plan_route.get_after_put [where d = d and now = now, OF assms] k c l by (simp add: plan_doc_def num_def)
qed

theorem plan_put_get_witness:
  "field (rbody (get_plan (fst (put_plan (JObj [(''totalLaps'', JNum (JFin 22)), (''budgetKwh'', JNum (JFin 6))]) 9
      (Map.empty(plan_file \<mapsto> JObj [(''soeCutoffCellV'', JNum (JFin 3))])))))) ''soeCutoffCellV'' = JNum (JFin 0)"
  using plan_put_get [of "JObj [(''totalLaps'', JNum (JFin 22)), (''budgetKwh'', JNum (JFin 6))]" 9
      "Map.empty(plan_file \<mapsto> JObj [(''soeCutoffCellV'', JNum (JFin 3))])"]
  by auto

text \<open>The session cache: a valid request is stored with a version of its own, and after any number
  of later valid requests the cache holds the last; a request that does not parse is answered with 400 and
  changes nothing; deleting empties the cache.\<close>

theorem session_cache_last_writer:
  "get_session (fold (\<lambda>(p, t) d. fst (post_session p t d)) (reqs @ [(Some v, now)]) d)
     = \<lparr>status = 200, rbody = session_doc v now\<rparr>
   \<and> fst (post_session None now d) = d \<and> status (snd (post_session None now d)) = 400
   \<and> status (get_session (fst (delete_session d))) = 404"
  using session_route.last_writer [where b = "Some v" and reqs = reqs and d = d and now = now] unfolding session_route.run_def
  by (simp add: post_session_def delete_session_def get_session_def)

text \<open>A poll within six seconds of a local edit adopts nothing; a later one adopts a plan with a numeric lap
  count, and nothing else.\<close>

theorem plan_poll_grace:
  "plan_poll (Some \<lparr>status = 200, rbody = p\<rparr>) alive now (plan_push t e) =
     (if alive \<and> LOCAL_EDIT_GRACE_MS \<le> now - t \<and> truthy p \<and> (\<exists>n. field p ''totalLaps'' = JNum n)
      then Some p else None)"
  by (cases "as_num (field p ''totalLaps'')") (auto simp: plan_poll_def plan_push_def response_ok_def)

end
