(* ===== verification/SessionRegistry.thy ===== *)
theory SessionRegistry
  imports JsonValue
begin

text \<open>
  The registry of trackside sessions, from \<^verbatim>\<open>viewer_tool/src/lib/trackside/sessionRegistry.ts\<close>:
  the list a browser keeps, its reconciliation with the server by last writer, the retries of a
  push, and the matching of a log file's start time.

  A session is the object itself; reading the registry admits every object with a text id and a
  numeric start. The local list is what \<^verbatim>\<open>localStorage\<close> parses to. The reply of the server to a
  push is an argument.
\<close>

definition MAX_SESSIONS :: nat where "MAX_SESSIONS = 60"

definition OPEN_SESSION_MAX_MS :: rat where "OPEN_SESSION_MAX_MS = 6 * 60 * 60 * 1000"

definition EVENT_TYPES :: "string list" where
  "EVENT_TYPES = [''Practice'', ''Acceleration'', ''Skidpad'', ''Autocross'', ''Endurance'',
     ''Efficiency'', ''Test'', ''Other'']"

text \<open>The numbers of a session read from JSON are finite.\<close>

definition is_session :: "json \<Rightarrow> bool" where
  "is_session s \<longleftrightarrow> is_object s \<and> as_str (field s ''id'') \<noteq> None \<and> as_num (field s ''startedAt'') \<noteq> None"

definition session_id :: "json \<Rightarrow> string" where
  "session_id s = the (as_str (field s ''id''))"

definition finite_num :: "json \<Rightarrow> rat" where
  "finite_num v = (case v of JNum x \<Rightarrow> js_val x | _ \<Rightarrow> 0)"

definition startedAt :: "json \<Rightarrow> rat" where
  "startedAt s = finite_num (field s ''startedAt'')"

text \<open>\<^verbatim>\<open>s.updatedAt ?? 0\<close>.\<close>

definition updatedAt :: "json \<Rightarrow> rat" where
  "updatedAt s = finite_num (field s ''updatedAt'')"

subsection \<open>The local list\<close>

definition loadSessionRegistry :: "json option \<Rightarrow> json list" where
  "loadSessionRegistry stored = (case stored of Some (JArr xs) \<Rightarrow> filter is_session xs | _ \<Rightarrow> [])"

definition trimmed :: "json list \<Rightarrow> json list" where
  "trimmed xs = take MAX_SESSIONS (sort_key (\<lambda>s. - startedAt s) xs)"

definition saveSessionRegistry :: "json list \<Rightarrow> json option" where
  "saveSessionRegistry xs = Some (wire (JArr (trimmed xs)))"

definition set_field :: "string \<Rightarrow> json \<Rightarrow> json \<Rightarrow> json" where
  "set_field k v s = (case s of JObj m \<Rightarrow> JObj (jm_set k v m) | _ \<Rightarrow> s)"

definition stamp :: "int \<Rightarrow> json \<Rightarrow> json" where
  "stamp now s = set_field ''updatedAt'' (JNum (JFin (of_int now))) s"

definition upsertSession :: "json \<Rightarrow> int \<Rightarrow> json option \<Rightarrow> json option \<times> json" where
  "upsertSession info now stored =
     (let stamped = stamp now info;
          xs = filter (\<lambda>s. session_id s \<noteq> session_id info) (loadSessionRegistry stored)
      in (saveSessionRegistry (xs @ [stamped]), stamped))"

definition merge_fields :: "json \<Rightarrow> (string \<times> json) list \<Rightarrow> json" where
  "merge_fields s patch = fold (\<lambda>(k, v). set_field k v) patch s"

text \<open>The record to push is \<open>None\<close> when the session is unknown.\<close>

definition patchSession :: "string \<Rightarrow> (string \<times> json) list \<Rightarrow> int \<Rightarrow> json option \<Rightarrow> json option \<times> json option" where
  "patchSession i patch now stored =
     (let xs = loadSessionRegistry stored
      in case List.find (\<lambda>k. session_id (xs ! k) = i) [0..<length xs] of
        None \<Rightarrow> (stored, None)
      | Some k \<Rightarrow>
          (let s = stamp now (merge_fields (xs ! k) patch) in (saveSessionRegistry (xs[k := s]), Some s)))"

subsection \<open>Reconciliation with the server\<close>

definition record_of :: "json list \<Rightarrow> string \<Rightarrow> json option" where
  "record_of xs i = List.find (\<lambda>s. session_id s = i) xs"

definition adopt :: "json \<Rightarrow> (string, json) jsmap \<Rightarrow> (string, json) jsmap" where
  "adopt srv m = (case jm_get m (session_id srv) of
       None \<Rightarrow> jm_set (session_id srv) srv m
     | Some loc \<Rightarrow> if updatedAt loc \<le> updatedAt srv then jm_set (session_id srv) srv m else m)"

definition merged_map :: "json list \<Rightarrow> json list \<Rightarrow> (string, json) jsmap" where
  "merged_map local server = fold adopt server (fold (\<lambda>s. jm_set (session_id s) s) local [])"

definition to_push :: "json list \<Rightarrow> json list \<Rightarrow> json list" where
  "to_push local server = filter (\<lambda>loc. case record_of server (session_id loc) of
       None \<Rightarrow> True | Some srv \<Rightarrow> updatedAt srv < updatedAt loc) local"

text \<open>The merged list, the new local store and the records to push.\<close>

definition syncRegistryWithServer :: "json option \<Rightarrow> json list \<Rightarrow> json list \<times> json option \<times> json list" where
  "syncRegistryWithServer stored server =
     (let local = loadSessionRegistry stored; merged = map snd (merged_map local server)
      in (merged, saveSessionRegistry merged, to_push local server))"

definition fetchSessionsFromServer :: "json option \<Rightarrow> json list" where
  "fetchSessionsFromServer reply = (case reply of
       None \<Rightarrow> []
     | Some v \<Rightarrow> filter (\<lambda>s. truthy s \<and> as_str (field s ''id'') \<noteq> None \<and> as_num (field s ''startedAt'') \<noteq> None)
                   (map snd (entries v)))"

text \<open>The body of a push.\<close>

definition push_body :: "int \<Rightarrow> json \<Rightarrow> json" where
  "push_body now s = (if nullish (field s ''updatedAt'') then stamp now s else s)"

text \<open>A push: \<open>replies\<close> says for each attempt whether the server accepted it. The result is
  whether it was accepted, with the delays waited.\<close>

fun push_attempts :: "nat list \<Rightarrow> bool list \<Rightarrow> bool \<times> nat list" where
  "push_attempts [] _ = (False, [])"
| "push_attempts (d # ds) [] = (False, [d])"
| "push_attempts (d # ds) (r # rs) =
     (if r then (True, [d]) else (let (b, w) = push_attempts ds rs in (b, d # w)))"

definition push_delays :: "nat list" where "push_delays = [0, 1000, 3000, 8000]"

definition pushSessionToServer :: "bool list \<Rightarrow> bool \<times> nat list" where
  "pushSessionToServer replies = push_attempts push_delays replies"

subsection \<open>Matching a log file\<close>

definition session_end :: "json \<Rightarrow> rat" where
  "session_end s = (if nullish (field s ''endedAt'') then startedAt s + OPEN_SESSION_MAX_MS
     else finite_num (field s ''endedAt''))"

definition in_window :: "rat \<Rightarrow> json \<Rightarrow> bool" where
  "in_window ms s \<longleftrightarrow> startedAt s \<le> ms \<and> ms \<le> session_end s"

definition findSessionForTimestampIn :: "json list \<Rightarrow> rat \<Rightarrow> json option" where
  "findSessionForTimestampIn xs ms =
     (case sort_key (\<lambda>s. - startedAt s) (filter (in_window ms) xs) of [] \<Rightarrow> None | s # _ \<Rightarrow> Some s)"

definition findSessionForTimestamp :: "json option \<Rightarrow> rat \<Rightarrow> json option" where
  "findSessionForTimestamp stored ms = findSessionForTimestampIn (loadSessionRegistry stored) ms"

text \<open>The first underscore followed by 10 to 13 digits and a point.\<close>

fun log_digits :: "string \<Rightarrow> string option" where
  "log_digits [] = None"
| "log_digits (c # s) =
     (let ds = takeWhile is_digit s in
      if c = CHR ''_'' \<and> 10 \<le> length ds \<and> length ds \<le> 13 \<and> take 1 (dropWhile is_digit s) = ''.''
      then Some ds else log_digits s)"

definition parseLogStartMs :: "string \<Rightarrow> nat option" where
  "parseLogStartMs fileName = (case log_digits fileName of
       None \<Rightarrow> None
     | Some ds \<Rightarrow> Some (if length ds \<le> 10 then digits_val ds * 1000 else digits_val ds))"

subsection \<open>Merging\<close>

definition newer :: "json option \<Rightarrow> json option \<Rightarrow> json option" where
  "newer loc srv = (case (loc, srv) of
       (None, _) \<Rightarrow> srv
     | (Some l, None) \<Rightarrow> Some l
     | (Some l, Some s) \<Rightarrow> if updatedAt l \<le> updatedAt s then Some s else Some l)"

lemma record_of_None: "record_of xs i = None \<longleftrightarrow> i \<notin> session_id ` set xs"
  by (auto simp: record_of_def find_None_iff)

lemma record_of_Some: "record_of xs i = Some s \<Longrightarrow> s \<in> set xs \<and> session_id s = i"
  by (auto simp: record_of_def find_Some_iff)

lemma record_of_in: "distinct (map session_id xs) \<Longrightarrow> s \<in> set xs \<Longrightarrow> record_of xs (session_id s) = Some s"
  by (induction xs) (auto simp: record_of_def)

lemma record_of_snoc:
  "record_of (xs @ [s]) i = (case record_of xs i of None \<Rightarrow> if session_id s = i then Some s else None | Some r \<Rightarrow> Some r)"
  by (induction xs) (auto simp: record_of_def)

lemma local_map_get:
  "distinct (map session_id xs) \<Longrightarrow> jm_get (fold (\<lambda>s. jm_set (session_id s) s) xs []) i = record_of xs i"
proof (induction xs rule: rev_induct)
  case (snoc s xs)
  then have "record_of xs (session_id s) = None" by (auto simp: record_of_None)
  then show ?case using snoc by (auto simp: jm_get_set record_of_snoc split: option.splits)
qed (simp add: jm_get_def record_of_def)

lemma adopt_get: "jm_get (adopt srv m) i = (if i = session_id srv then newer (jm_get m i) (Some srv) else jm_get m i)"
  by (auto simp: adopt_def newer_def jm_get_set split: option.splits)

lemma adopt_all_get:
  "distinct (map session_id server) \<Longrightarrow> jm_get (fold adopt server m) i = newer (jm_get m i) (record_of server i)"
proof (induction server rule: rev_induct)
  case (snoc s server)
  then have "record_of server (session_id s) = None" by (auto simp: record_of_None)
  then show ?case
    using snoc by (auto simp: adopt_get record_of_snoc newer_def split: option.splits)
qed (simp add: record_of_def newer_def split: option.splits)

lemma merged_get:
  "distinct (map session_id local) \<Longrightarrow> distinct (map session_id server) \<Longrightarrow>
     jm_get (merged_map local server) i = newer (record_of local i) (record_of server i)"
  by (simp add: merged_map_def adopt_all_get local_map_get)

lemma jm_ok_adopt: "jm_ok m \<Longrightarrow> jm_ok (adopt s m)"
  by (auto simp: adopt_def jm_ok_set split: option.splits)

lemma merged_ok: "jm_ok (merged_map local server)"
proof -
  have "jm_ok (fold adopt server m)" if "jm_ok m" for m
    using that by (induction server arbitrary: m) (simp_all add: jm_ok_adopt)
  then show ?thesis unfolding merged_map_def by (simp add: jm.fold_store_wf)
qed

definition keyed :: "(string, json) jsmap \<Rightarrow> bool" where
  "keyed m \<longleftrightarrow> list_all (\<lambda>(k, s). k = session_id s) m"

lemma keyed_set: "keyed m \<Longrightarrow> keyed (jm_set (session_id x) x m)"
  by (induction m) (auto simp: keyed_def jm_set_def)

lemma keyed_adopt: "keyed m \<Longrightarrow> keyed (adopt x m)"
  by (auto simp: adopt_def keyed_set split: option.splits)

lemma merged_keys:
  assumes "(k, s) \<in> set (merged_map local server)"
  shows "k = session_id s"
proof -
  have "keyed (fold (\<lambda>s. jm_set (session_id s) s) xs m)" if "keyed m" for xs m
    using that by (induction xs arbitrary: m) (simp_all add: keyed_set)
  moreover have "keyed (fold adopt xs m)" if "keyed m" for xs m
    using that by (induction xs arbitrary: m) (simp_all add: keyed_adopt)
  moreover have "keyed []" by (simp add: keyed_def)
  ultimately have "keyed (merged_map local server)" by (simp add: merged_map_def)
  then show ?thesis using assms by (auto simp: keyed_def list_all_iff)
qed

lemma merged_record:
  assumes "distinct (map session_id local)" "distinct (map session_id server)"
  shows "distinct (map session_id (map snd (merged_map local server)))
       \<and> record_of (map snd (merged_map local server)) i = newer (record_of local i) (record_of server i)"
proof -
  let ?m = "merged_map local server"
  have ids: "map session_id (map snd ?m) = map fst ?m"
    using merged_keys by (auto intro!: map_cong)
  then have d: "distinct (map session_id (map snd ?m))"
    using merged_ok by (metis jm_ok_def)
  have "record_of (map snd ?m) i = jm_get ?m i"
  proof (cases "jm_get ?m i")
    case None
    then have "i \<notin> fst ` set ?m" by (simp add: jm_get_def map_of_eq_None_iff)
    then show ?thesis using None ids by (metis record_of_None list.set_map)
  next
    case (Some s)
    then have "(i, s) \<in> set ?m" by (rule jm_get_in_set)
    then have "s \<in> set (map snd ?m)" "session_id s = i" using merged_keys by force+
    then show ?thesis using record_of_in [OF d] Some by metis
  qed
  then show ?thesis using d merged_get [OF assms] by simp
qed

text \<open>What the reconciliation needs of the worker: it stores a pushed record under its id.\<close>

definition server_upsert :: "json \<Rightarrow> json list \<Rightarrow> json list" where
  "server_upsert s xs = filter (\<lambda>x. session_id x \<noteq> session_id s) xs @ [s]"

lemma server_upsert_record:
  "record_of (server_upsert s xs) i = (if i = session_id s then Some s else record_of xs i)"
  by (induction xs) (auto simp: server_upsert_def record_of_def)

lemma server_upsert_all:
  "distinct (map session_id ys) \<Longrightarrow>
     record_of (fold server_upsert ys xs) i = (case record_of ys i of None \<Rightarrow> record_of xs i | Some s \<Rightarrow> Some s)"
proof (induction ys rule: rev_induct)
  case (snoc y ys)
  then have "record_of ys (session_id y) = None" by (auto simp: record_of_None)
  then show ?case using snoc by (auto simp: server_upsert_record record_of_snoc split: option.splits)
qed (simp add: record_of_def)

lemma to_push_record:
  assumes "distinct (map session_id local)"
  shows "record_of (to_push local server) i = (case record_of local i of
      None \<Rightarrow> None
    | Some l \<Rightarrow> (case record_of server i of None \<Rightarrow> Some l | Some s \<Rightarrow> if updatedAt s < updatedAt l then Some l else None))"
proof -
  have d: "distinct (map session_id (to_push local server))"
    using assms by (simp add: to_push_def distinct_map_filter)
  have "record_of (to_push local server) i = Some l \<longleftrightarrow>
      record_of local i = Some l \<and> (case record_of server i of None \<Rightarrow> True | Some s \<Rightarrow> updatedAt s < updatedAt l)" for l
  proof
    assume a: "record_of (to_push local server) i = Some l"
    then have "l \<in> set (to_push local server)" "session_id l = i" using record_of_Some by auto
    then show "record_of local i = Some l \<and> (case record_of server i of None \<Rightarrow> True | Some s \<Rightarrow> updatedAt s < updatedAt l)"
      using record_of_in [OF assms, of l] by (auto simp: to_push_def)
  next
    assume a: "record_of local i = Some l \<and> (case record_of server i of None \<Rightarrow> True | Some s \<Rightarrow> updatedAt s < updatedAt l)"
    then have "l \<in> set (to_push local server)" "session_id l = i"
      using record_of_Some [of local i l] by (auto simp: to_push_def)
    then show "record_of (to_push local server) i = Some l" using record_of_in [OF d] by metis
  qed
  then show ?thesis by (intro option_ext) (auto split: option.splits)
qed


definition session_example :: "string \<Rightarrow> rat \<Rightarrow> rat \<Rightarrow> json" where
  "session_example i start upd = JObj [(''id'', JStr i), (''startedAt'', JNum (JFin start)),
     (''endedAt'', JNull), (''updatedAt'', JNum (JFin upd))]"


text \<open>The session a log belongs to: among the sessions whose window contains the time, one that
  started last; none exactly when no window contains it.\<close>

theorem session_match_latest:
  "(case findSessionForTimestampIn xs ms of
      None \<Rightarrow> \<not> list_ex (in_window ms) xs
    | Some s \<Rightarrow> s \<in> set xs \<and> in_window ms s \<and> list_all (\<lambda>x. startedAt x \<le> startedAt s) (filter (in_window ms) xs))"
proof (cases "sort_key (\<lambda>s. - startedAt s) (filter (in_window ms) xs)")
  case Nil
  then have "filter (in_window ms) xs = []" by (metis length_0_conv length_sort)
  then show ?thesis using Nil by (simp add: findSessionForTimestampIn_def filter_empty_conv list_ex_iff)
next
  case (Cons s ss)
  have set: "set (s # ss) = set (filter (in_window ms) xs)" by (metis Cons set_sort)
  have "sorted (map (\<lambda>s. - startedAt s) (s # ss))" by (metis Cons sorted_sort_key)
  then have "\<forall>x \<in> set ss. startedAt x \<le> startedAt s" by simp
  moreover have "s \<in> set xs \<and> in_window ms s" using set by auto
  ultimately show ?thesis
    using Cons set by (auto simp: findSessionForTimestampIn_def list_all_iff)
qed

subsection \<open>The local list\<close>

lemma is_session_not_undef: "is_session s \<Longrightarrow> s \<noteq> JUndef"
  by (auto simp: is_session_def)

lemma trimmed_set: "set (trimmed xs) \<subseteq> set xs"
  unfolding trimmed_def by (metis set_sort set_take_subset)

lemma load_save:
  assumes "list_all (\<lambda>s. is_session s \<and> sendable s) xs"
  shows "loadSessionRegistry (saveSessionRegistry xs) = trimmed xs"
proof -
  have all: "is_session s \<and> sendable s" if "s \<in> set (trimmed xs)" for s
    using that trimmed_set assms by (auto simp: list_all_iff)
  then have "sendable (JArr (trimmed xs))" using is_session_not_undef by (intro sendable_arrI) blast
  then have "saveSessionRegistry xs = Some (JArr (trimmed xs))"
    by (simp add: saveSessionRegistry_def sendable_def)
  then show ?thesis using all by (simp add: loadSessionRegistry_def filter_id_conv)
qed

lemma set_jm_set: "set (jm_set k v m) \<subseteq> insert (k, v) (set m)"
  by (induction m) (auto simp: jm_set_def split: if_splits)

lemma stamp_ok:
  assumes "is_session s" "sendable s" "is_plain_object s"
  shows "is_session (stamp now s) \<and> sendable (stamp now s) \<and> session_id (stamp now s) = session_id s
       \<and> startedAt (stamp now s) = startedAt s"
proof -
  obtain m where m: "s = JObj m" using assms(3) by (cases s) (auto simp: is_plain_object_def)
  have f: "field (stamp now s) k = field s k" if "k \<noteq> ''updatedAt''" for k
    using that by (simp add: m stamp_def set_field_def field_JObj jm_get_set)
  have "sendable (stamp now s)"
    unfolding m stamp_def set_field_def json.case
  proof (rule sendable_objI)
    fix k v assume "(k, v) \<in> set (jm_set ''updatedAt'' (JNum (JFin (of_int now))) m)"
    then have "(k, v) = (''updatedAt'', JNum (JFin (of_int now))) \<or> (k, v) \<in> set m"
      using set_jm_set by fast
    then show "v \<noteq> JUndef \<and> sendable v"
      using assms(2) sendable_obj sendable_obj_defined unfolding m by fastforce
  qed
  then show ?thesis
    using assms(1) f by (simp add: is_session_def session_id_def startedAt_def) (simp add: m stamp_def set_field_def)
qed

lemma trimmed_newest:
  assumes "s \<in> set xs" "s \<notin> set (trimmed xs)"
  shows "length (trimmed xs) = MAX_SESSIONS \<and> list_all (\<lambda>x. startedAt s \<le> startedAt x) (trimmed xs)"
proof -
  let ?k = "\<lambda>s. - startedAt s" and ?ys = "sort_key (\<lambda>s. - startedAt s) xs"
  have "s \<in> set (take MAX_SESSIONS ?ys @ drop MAX_SESSIONS ?ys)" using assms(1) by simp
  then have d: "s \<in> set (drop MAX_SESSIONS ?ys)" using assms(2) unfolding trimmed_def set_append by blast
  have "sorted (map ?k (take MAX_SESSIONS ?ys) @ map ?k (drop MAX_SESSIONS ?ys))"
    by (metis append_take_drop_id map_append sorted_sort_key)
  then have "\<forall>x \<in> set (take MAX_SESSIONS ?ys). ?k x \<le> ?k s" using d by (auto simp: sorted_append)
  moreover have "length (take MAX_SESSIONS ?ys) = MAX_SESSIONS"
    using d by (cases "length ?ys \<le> MAX_SESSIONS") auto
  ultimately show ?thesis by (auto simp: trimmed_def list_all_iff)
qed

text \<open>An upsert keeps the registry well formed: at most sixty sessions, newest first, one per id.
  The new record is in it unless sixty sessions started no earlier; every other record kept is an old one.\<close>

theorem upsert_keeps_registry:
  assumes "sendable (the stored)" and "distinct (map session_id (loadSessionRegistry stored))"
    and "is_session info" "sendable info" "is_plain_object info"
    and "upsertSession info now stored = (stored', rec)"
  shows "let xs = loadSessionRegistry stored' in
         length xs \<le> 60 \<and> sorted (map (\<lambda>s. - startedAt s) xs) \<and> distinct (map session_id xs)
         \<and> set xs \<subseteq> insert rec (set (loadSessionRegistry stored))
         \<and> (rec \<in> set xs \<or> length xs = 60 \<and> list_all (\<lambda>x. startedAt info \<le> startedAt x) xs)"
proof -
  let ?old = "filter (\<lambda>s. session_id s \<noteq> session_id info) (loadSessionRegistry stored)"
  have rec: "rec = stamp now info" and st: "stored' = saveSessionRegistry (?old @ [rec])"
    using assms(6) by (auto simp: upsertSession_def Let_def)
  note ok = stamp_ok [OF assms(3-5), of now, folded rec]
  have "list_all (\<lambda>s. is_session s \<and> sendable s) (?old @ [rec])"
    using ok assms(1) sendable_arr
    by (auto simp: list_all_iff loadSessionRegistry_def split: option.splits json.splits)
  then have l: "loadSessionRegistry stored' = trimmed (?old @ [rec])" by (simp add: st load_save)
  have d: "distinct (map session_id (?old @ [rec]))"
    using assms(2) ok by (auto simp: distinct_map_filter)
  have "distinct (map session_id (sort_key (\<lambda>s. - startedAt s) (?old @ [rec])))"
    using d by (metis distinct_map distinct_sort set_sort)
  then have dt: "distinct (map session_id (trimmed (?old @ [rec])))"
    unfolding trimmed_def by (metis distinct_take take_map)
  have srt: "sorted (map (\<lambda>s. - startedAt s) (trimmed (?old @ [rec])))"
    unfolding trimmed_def by (metis sorted_sort_key sorted_wrt_take take_map)
  have "rec \<in> set (?old @ [rec])" by simp
  from trimmed_newest [OF this] have "rec \<in> set (trimmed (?old @ [rec]))
      \<or> length (trimmed (?old @ [rec])) = 60 \<and> list_all (\<lambda>x. startedAt info \<le> startedAt x) (trimmed (?old @ [rec]))"
    using ok by (auto simp: MAX_SESSIONS_def)
  moreover have "length (trimmed (?old @ [rec])) \<le> 60" by (simp add: trimmed_def MAX_SESSIONS_def)
  ultimately show ?thesis
    using l dt srt trimmed_set [of "?old @ [rec]"] by (auto simp: Let_def)
qed

theorem upsert_keeps_registry_witness:
  "session_id (hd (loadSessionRegistry (fst (upsertSession (session_example ''b'' 200 0) 5
      (Some (JArr [session_example ''a'' 100 1])))))) = ''b''"
proof -
  let ?u = "upsertSession (session_example ''b'' 200 0) 5 (Some (JArr [session_example ''a'' 100 1]))"
  have "let xs = loadSessionRegistry (fst ?u) in
         length xs \<le> 60 \<and> sorted (map (\<lambda>s. - startedAt s) xs) \<and> distinct (map session_id xs)
         \<and> set xs \<subseteq> insert (snd ?u) (set (loadSessionRegistry (Some (JArr [session_example ''a'' 100 1]))))
         \<and> (snd ?u \<in> set xs \<or> length xs = 60 \<and> list_all (\<lambda>x. startedAt (session_example ''b'' 200 0) \<le> startedAt x) xs)"
    by (rule upsert_keeps_registry [where now = 5])
       (simp_all add: session_example_def sendable_def loadSessionRegistry_def is_session_def session_id_def
          is_plain_object_def)
  moreover have "snd ?u = stamp 5 (session_example ''b'' 200 0)" by (simp add: upsertSession_def Let_def)
  ultimately show ?thesis
    by (simp add: upsertSession_def Let_def loadSessionRegistry_def session_example_def is_session_def session_id_def
        saveSessionRegistry_def trimmed_def MAX_SESSIONS_def stamp_def set_field_def jm_set_def startedAt_def finite_num_def)
qed

lemma push_attempts_length: "length (snd (push_attempts ds rs)) \<le> length ds"
  by (induction ds rs rule: push_attempts.induct) (auto split: prod.splits)

lemma push_accepted: "fst (push_attempts ds rs) \<longleftrightarrow> True \<in> set (take (length ds) rs)"
  by (induction ds rs rule: push_attempts.induct) (auto split: prod.splits)

end
