(* ===== verification/CarStatus.thy ===== *)
theory CarStatus
  imports JsonValue
begin

text \<open>
  The car-status feed of the dashboard, from \<^verbatim>\<open>viewer_tool/src/lib/trackside/useCarStatus.ts\<close>: a
  stream with a bounded number of reconnects.

  A machine of one effect (one car): the stream is open, a reconnect is scheduled, or the feed is quiet.
  Its inputs are the callbacks of the browser: a message, an error, the timer, the clean-up. A
  callback that cannot fire in a state leaves it as it is.
\<close>

definition CAR_STATES :: "string list" where
  "CAR_STATES = [''OFF'', ''ON_IDLE'', ''READY'', ''MOVING'']"

record feed =
  f_event :: "json option"
  f_state :: "json option"
  f_faults :: json
  f_available :: bool
  f_lastEventAt :: "int option"

definition MAX_ATTEMPTS :: nat where "MAX_ATTEMPTS = 4"

definition EMPTY_feed :: feed where
  "EMPTY_feed = \<lparr>f_event = None, f_state = None, f_faults = JArr [], f_available = False, f_lastEventAt = None\<rparr>"

datatype link = Open | Retrying nat | Quiet | Cancelled

record car_status =
  the_feed :: feed
  attempts :: nat
  the_link :: link

definition start_status :: car_status where
  "start_status = \<lparr>the_feed = EMPTY_feed, attempts = 0, the_link = Open\<rparr>"

text \<open>\<open>None\<close> is a frame that does not parse.\<close>

definition receive :: "json option \<Rightarrow> int \<Rightarrow> feed \<Rightarrow> feed" where
  "receive frame now prev = (case frame of
       Some v \<Rightarrow>
         if truthy v \<and> as_str (field v ''state'') \<noteq> None
         then \<lparr>f_event = Some v, f_state = Some (field v ''state''),
               f_faults = (if field v ''kind'' = JStr ''heartbeat'' then f_faults prev
                           else if nullish (field v ''active_faults'') then JArr [] else field v ''active_faults''),
               f_available = True, f_lastEventAt = Some now\<rparr>
         else prev
     | None \<Rightarrow> prev)"

definition retry_delay :: "nat \<Rightarrow> nat" where
  "retry_delay n = min 8000 (1000 * 2 ^ (n - 1))"

fun on_message :: "json option \<Rightarrow> int \<Rightarrow> car_status \<Rightarrow> car_status" where
  "on_message frame now s = (if the_link s = Open
     then s\<lparr>the_feed := receive frame now (the_feed s), attempts := 0\<rparr> else s)"

definition on_error :: "car_status \<Rightarrow> car_status" where
  "on_error s = (if the_link s \<noteq> Open then s
     else let n = attempts s + 1 in
       if n \<ge> MAX_ATTEMPTS
       then s\<lparr>attempts := n, the_link := Quiet, the_feed := (the_feed s)\<lparr>f_available := False\<rparr>\<rparr>
       else s\<lparr>attempts := n, the_link := Retrying (retry_delay n)\<rparr>)"

definition on_timer :: "car_status \<Rightarrow> car_status" where
  "on_timer s = (case the_link s of Retrying _ \<Rightarrow> s\<lparr>the_link := Open\<rparr> | _ \<Rightarrow> s)"

definition on_cleanup :: "car_status \<Rightarrow> car_status" where
  "on_cleanup s = s\<lparr>the_link := Cancelled\<rparr>"

datatype callback = Message "json option" int | Error | Timer | Cleanup

fun callback_step :: "callback \<Rightarrow> car_status \<Rightarrow> car_status" where
  "callback_step (Message frame now) s = on_message frame now s"
| "callback_step Error s = on_error s"
| "callback_step Timer s = on_timer s"
| "callback_step Cleanup s = on_cleanup s"

definition run_callbacks :: "callback list \<Rightarrow> car_status \<Rightarrow> car_status" where
  "run_callbacks cs s = fold callback_step cs s"

fun CAR_STATE_META :: "string \<Rightarrow> (string \<times> string) option" where
  "CAR_STATE_META s =
     (if s = ''OFF'' then Some (''Off'', ''stateOff'')
      else if s = ''ON_IDLE'' then Some (''On '' @ map char_of [0xC2, 0xB7 :: nat] @ '' Idle'', ''stateIdle'')
      else if s = ''READY'' then Some (''Ready to Drive'', ''stateReady'')
      else if s = ''MOVING'' then Some (''Moving'', ''stateMoving'') else None)"

text \<open>\<^verbatim>\<open>/\b\w/g\<close>: a word character that does not follow one. After the first replacement no
  underscore is left.\<close>

definition word_char :: "char \<Rightarrow> bool" where
  "word_char c \<longleftrightarrow> is_alnum c \<or> c = CHR ''_''"

fun capitalise :: "bool \<Rightarrow> string \<Rightarrow> string" where
  "capitalise prev [] = []"
| "capitalise prev (c # s) = (if word_char c \<and> \<not> prev then upper_char c else c) # capitalise (word_char c) s"

definition humanizeReason :: "string \<Rightarrow> string" where
  "humanizeReason reason = capitalise False (replace_char (CHR ''_'') '' '' reason)"

subsection \<open>Bounded reconnection\<close>

fun opens :: "callback list \<Rightarrow> car_status \<Rightarrow> nat" where
  "opens [] s = 0"
| "opens (c # cs) s = (if the_link s \<noteq> Open \<and> the_link (callback_step c s) = Open then 1 else 0)
     + opens cs (callback_step c s)"

definition no_message :: "callback \<Rightarrow> bool" where
  "no_message c = (case c of Message _ _ \<Rightarrow> False | _ \<Rightarrow> True)"

definition status_ok :: "car_status \<Rightarrow> bool" where
  "status_ok s \<longleftrightarrow> (case the_link s of
       Open \<Rightarrow> attempts s < MAX_ATTEMPTS
     | Retrying d \<Rightarrow> 0 < attempts s \<and> attempts s < MAX_ATTEMPTS \<and> d = retry_delay (attempts s)
     | Quiet \<Rightarrow> \<not> f_available (the_feed s)
     | Cancelled \<Rightarrow> True)"

lemmas status_steps = on_error_def on_timer_def on_cleanup_def status_ok_def MAX_ATTEMPTS_def Let_def

lemma status_ok_step: "status_ok s \<Longrightarrow> status_ok (callback_step c s)"
  by (cases c) (auto simp: status_steps split: link.splits)

lemma status_ok_run: "status_ok s \<Longrightarrow> status_ok (run_callbacks cs s)"
  by (induction cs arbitrary: s) (simp_all add: run_callbacks_def status_ok_step)

text \<open>Without a message, the reconnects still possible: one for each attempt left.\<close>

definition budget :: "car_status \<Rightarrow> nat" where
  "budget s = (case the_link s of
       Open \<Rightarrow> MAX_ATTEMPTS - 1 - attempts s | Retrying _ \<Rightarrow> MAX_ATTEMPTS - attempts s | _ \<Rightarrow> 0)"

lemma budget_step:
  "status_ok s \<Longrightarrow> no_message c \<Longrightarrow>
     (if the_link s \<noteq> Open \<and> the_link (callback_step c s) = Open then 1 else 0) + budget (callback_step c s) \<le> budget s"
  by (cases c) (auto simp: status_steps no_message_def budget_def split: link.splits)

lemma opens_budget: "status_ok s \<Longrightarrow> list_all no_message cs \<Longrightarrow> opens cs s \<le> budget s"
proof (induction cs arbitrary: s)
  case (Cons c cs)
  have "opens cs (callback_step c s) \<le> budget (callback_step c s)"
    using Cons by (simp add: status_ok_step)
  moreover have "(if the_link s \<noteq> Open \<and> the_link (callback_step c s) = Open then 1 else 0) + budget (callback_step c s) \<le> budget s"
    using Cons.prems by (intro budget_step) simp_all
  ultimately show ?case by simp
qed simp

text \<open>The hook never loops on a dead endpoint: after any history, as long as no message arrives it
  reconnects at most three times, every delay is at most eight seconds, and a feed that has gone quiet is marked
  unavailable and never reconnects.\<close>

theorem car_status_bounded_retries:
  assumes "list_all no_message cs"
  shows "let s = run_callbacks past start_status in
         opens cs s \<le> 3 \<and> (\<forall>d. the_link s = Retrying d \<longrightarrow> d \<le> 8000)
         \<and> (the_link s = Quiet \<longrightarrow> opens cs s = 0 \<and> \<not> f_available (the_feed s))"
proof -
  define s where "s = run_callbacks past start_status"
  have ok: "status_ok s"
    unfolding s_def by (rule status_ok_run) (simp add: start_status_def status_ok_def MAX_ATTEMPTS_def)
  have "budget s \<le> 3" using ok by (auto simp: budget_def status_ok_def MAX_ATTEMPTS_def split: link.splits)
  moreover have "budget s = 0" if "the_link s = Quiet" using that by (simp add: budget_def)
  ultimately show ?thesis
    using opens_budget [OF ok assms] ok unfolding s_def [symmetric] Let_def
    by (auto simp: status_ok_def retry_delay_def split: link.splits)
qed

theorem car_status_bounded_retries_witness:
  "opens [Error, Timer, Error, Timer, Error, Timer, Error, Timer, Timer] start_status \<le> 3
   \<and> opens [Error, Timer, Error, Timer, Error, Timer, Error, Timer, Timer] start_status = 3"
proof
  show "opens [Error, Timer, Error, Timer, Error, Timer, Error, Timer, Timer] start_status \<le> 3"
    using car_status_bounded_retries [of "[Error, Timer, Error, Timer, Error, Timer, Error, Timer, Timer]" "[]"]
    by (simp only: no_message_def run_callbacks_def Let_def list.pred_inject callback.case fold.simps id_apply simp_thms)
  show "opens [Error, Timer, Error, Timer, Error, Timer, Error, Timer, Timer] start_status = 3"
    by code_simp
qed

lemma heartbeat_keeps_faults:
  "truthy v \<Longrightarrow> as_str (field v ''state'') = Some st \<Longrightarrow> field v ''kind'' = JStr ''heartbeat'' \<Longrightarrow>
     f_faults (receive (Some v) now p) = f_faults p \<and> f_available (receive (Some v) now p)"
  by (simp add: receive_def)

lemma humanize_example: "humanizeReason ''hv_pack_low'' = ''Hv Pack Low''"
  by code_simp

end
