(* ===== verification/KafkaRoutes.thy ===== *)
theory KafkaRoutes
  imports JsonValue
begin

text \<open>
  The pure part of the Kafka consumer, \<^verbatim>\<open>viewer_tool/src/lib/kafka/kafkaConsumer.ts\<close>: the routing
  configuration, access by path, the conversions, and the payloads derived from a sensor record.
  Properties inherited from prototypes are not represented, and a picked sub-object is copied
  where the source shares it with the record: the two differ only when a later pick reaches into an
  object an earlier one picked.
\<close>

record route_rule =
  rr_to :: string
  rr_pick :: "string list option"
  rr_rename :: "(string, string) jsmap option"

type_synonym route_config = "(string, route_rule list) jsmap"

definition normalize_rule :: "json \<Rightarrow> route_rule option" where
  "normalize_rule rule =
     (if \<not> is_object rule then None
      else let target = trim (str_or [] (field rule ''to'')) in
      if target = [] then None
      else Some \<lparr>rr_to = target,
        rr_pick = map_option (\<lambda>xs. filter (\<lambda>p. trim p \<noteq> []) (List.map_filter as_str xs)) (as_arr (field rule ''pick'')),
        rr_rename = (if is_object (field rule ''rename'')
          then Some (List.map_filter (\<lambda>(k, v). map_option (Pair k) (as_str v)) (entries (field rule ''rename'')))
          else None)\<rparr>)"

definition rule_list :: "json \<Rightarrow> json list" where
  "rule_list v = (case v of JArr xs \<Rightarrow> xs | _ \<Rightarrow> if truthy v then [v] else [])"

definition normalizeRouteConfig :: "json \<Rightarrow> route_config" where
  "normalizeRouteConfig raw =
     (if is_object raw
      then filter (\<lambda>(_, rules). rules \<noteq> []) (map (\<lambda>(t, v). (t, List.map_filter normalize_rule (rule_list v))) (entries raw))
      else [])"

text \<open>\<^verbatim>\<open>loadRouteConfig\<close>: the cached configuration wins when it is not empty; then the file named by
  the environment, the JSON text of the environment, the default file. A source that is absent or does
  not parse is \<open>None\<close>.\<close>

definition loadRouteConfig :: "route_config \<Rightarrow> json option \<Rightarrow> json option \<Rightarrow> json option \<Rightarrow> route_config" where
  "loadRouteConfig cached env_file env_json default_file =
     (if cached \<noteq> [] then cached
      else case env_file of Some v \<Rightarrow> normalizeRouteConfig v
      | None \<Rightarrow> (case env_json of Some v \<Rightarrow> normalizeRouteConfig v
      | None \<Rightarrow> (case default_file of Some v \<Rightarrow> normalizeRouteConfig v | None \<Rightarrow> cached)))"

subsection \<open>Paths\<close>

definition path_parts :: "string \<Rightarrow> string list" where
  "path_parts p = filter (\<lambda>s. s \<noteq> []) (split_on (CHR ''.'') p)"

fun get_parts :: "json \<Rightarrow> string list \<Rightarrow> json" where
  "get_parts cur [] = cur"
| "get_parts cur (p # ps) = (if \<not> is_object cur \<or> \<not> has_field cur p then JUndef else get_parts (field cur p) ps)"

definition getPath :: "json \<Rightarrow> string \<Rightarrow> json" where
  "getPath v p = get_parts v (path_parts p)"

definition fields_of :: "json \<Rightarrow> (string, json) jsmap" where
  "fields_of v = (case v of JObj m \<Rightarrow> m | _ \<Rightarrow> [])"

fun set_parts :: "(string, json) jsmap \<Rightarrow> string list \<Rightarrow> json \<Rightarrow> (string, json) jsmap" where
  "set_parts t [] v = t"
| "set_parts t [p] v = jm_set p v t"
| "set_parts t (p # q # ps) v = jm_set p (JObj (set_parts (fields_of (field (JObj t) p)) (q # ps) v)) t"

subsection \<open>Key conversion\<close>

fun toCamelCase :: "string \<Rightarrow> string" where
  "toCamelCase (c # d # s) =
     (if c = CHR ''_'' \<and> (is_lower d \<or> is_digit d) then upper_char d # toCamelCase s else c # toCamelCase (d # s))"
| "toCamelCase s = s"

fun camelizeKeysDeep :: "json \<Rightarrow> json" where
  "camelizeKeysDeep (JArr xs) = JArr (map camelizeKeysDeep xs)"
| "camelizeKeysDeep (JObj m) = JObj (fold (\<lambda>(k, v). jm_set k v) (map (\<lambda>(k, v). (toCamelCase k, camelizeKeysDeep v)) m) [])"
| "camelizeKeysDeep v = v"

definition normalizeCarType :: "json \<Rightarrow> string option" where
  "normalizeCarType raw = (case raw of
       JStr s \<Rightarrow> let v = lower (trim s) in if v \<in> {''angelique'', ''orion'', ''nightwatch''} then Some v else None
     | _ \<Rightarrow> None)"

subsection \<open>Values\<close>

definition firstDefined :: "json \<Rightarrow> string list \<Rightarrow> json" where
  "firstDefined obj paths = (case List.find (\<lambda>v. \<not> nullish v) (map (getPath obj) paths) of
       Some v \<Rightarrow> v | None \<Rightarrow> JUndef)"

definition toNumber :: "json \<Rightarrow> rat option" where
  "toNumber v = (case to_number v of JFin r \<Rightarrow> Some r | _ \<Rightarrow> None)"

definition toNumberPair :: "json \<Rightarrow> (rat \<times> rat) option" where
  "toNumberPair v = (case v of
       JArr (a # b # _) \<Rightarrow> (case (toNumber a, toNumber b) of (Some x, Some y) \<Rightarrow> Some (x, y) | _ \<Rightarrow> None)
     | _ \<Rightarrow> None)"

definition toBoolean :: "json \<Rightarrow> bool option" where
  "toBoolean v = (case v of
       JBool b \<Rightarrow> Some b
     | JNum x \<Rightarrow> if x = JFin 1 then Some True else if x = JFin 0 then Some False else None
     | JStr s \<Rightarrow> let n = lower (trim s) in
         if n = ''true'' \<or> n = ''1'' then Some True else if n = ''false'' \<or> n = ''0'' then Some False else None
     | _ \<Rightarrow> None)"

definition toNumberArray :: "json \<Rightarrow> rat list option" where
  "toNumberArray v = (case v of
       JArr xs \<Rightarrow> let out = List.map_filter toNumber xs in if out = [] then None else Some out
     | _ \<Rightarrow> None)"

definition average :: "rat option list \<Rightarrow> rat option" where
  "average vs = (let valid = List.map_filter id vs in
     if valid = [] then None else Some (sum_list valid / of_nat (length valid)))"

definition maxDefined :: "rat option list \<Rightarrow> rat option" where
  "maxDefined vs = (let valid = List.map_filter id vs in if valid = [] then None else Some (Max (set valid)))"

text \<open>\<^verbatim>\<open>a ?? b\<close> on an optional number.\<close>

definition or_else :: "'a option \<Rightarrow> 'a option \<Rightarrow> 'a option" where
  "or_else a b = (case a of None \<Rightarrow> b | Some _ \<Rightarrow> a)"

definition percent_of :: "rat \<Rightarrow> rat \<Rightarrow> rat" where
  "percent_of full v = max 0 (min 100 (v / full * 100))"

definition opt_num :: "rat option \<Rightarrow> json" where
  "opt_num x = (case x of None \<Rightarrow> JUndef | Some r \<Rightarrow> JNum (JFin r))"

definition opt_bool :: "bool option \<Rightarrow> json" where
  "opt_bool x = (case x of None \<Rightarrow> JUndef | Some b \<Rightarrow> JBool b)"

definition subrecord :: "json \<Rightarrow> string \<Rightarrow> json" where
  "subrecord parsed k = (if truthy (field parsed k) then field parsed k else JObj [])"

definition num_at :: "json \<Rightarrow> string list \<Rightarrow> rat option" where
  "num_at obj paths = toNumber (firstDefined obj paths)"

definition bool_at :: "json \<Rightarrow> string \<Rightarrow> bool option" where
  "bool_at obj k = toBoolean (firstDefined obj [k])"

subsection \<open>The payloads derived from a sensor record\<close>

definition battery_pct :: "json \<Rightarrow> rat option" where
  "battery_pct pack = or_else (num_at pack [''hvSoc'']) (map_option (percent_of 600) (num_at pack [''hvPackV'']))"

definition wheel_avg :: "json \<Rightarrow> rat option" where
  "wheel_avg dynamics = average (map (\<lambda>k. num_at dynamics [k]) [''flwSpeed'', ''frwSpeed'', ''blwSpeed'', ''brwSpeed''])"

definition car_speed :: "json \<Rightarrow> rat option" where
  "car_speed dynamics = or_else (num_at dynamics [''dashSpeed'', ''wheelSpeed'']) (wheel_avg dynamics)"

definition throttle_pct :: "json \<Rightarrow> json \<Rightarrow> rat option" where
  "throttle_pct dynamics controls = or_else (num_at dynamics [''accelPedalTravel''])
     (or_else (num_at controls [''apps1Travel'']) (map_option (percent_of 5) (num_at controls [''apps1V''])))"

definition brake_pct :: "json \<Rightarrow> rat option" where
  "brake_pct controls = or_else (num_at controls [''brakePressureF''])
     (map_option (percent_of 5) (num_at controls [''bse1V'']))"

definition coolant_temp :: "json \<Rightarrow> rat option" where
  "coolant_temp thermal = num_at thermal [''coolantTemp'', ''waterMotorTemp'', ''waterInverterTemp'', ''waterRadTemp'']"

definition batt_temp :: "json \<Rightarrow> json \<Rightarrow> rat option" where
  "batt_temp thermal pack =
     (let cells = or_else (toNumberArray (firstDefined thermal [''cellsTemp''])) (toNumberArray (firstDefined pack [''cellsTemps'']))
      in or_else (num_at thermal [''battLoopBattTemp'', ''cellTopTemp'', ''cellBottomTemp''])
                 (map_option (\<lambda>xs. Max (set xs)) cells))"

definition hottest_temp :: "json \<Rightarrow> json \<Rightarrow> rat option" where
  "hottest_temp thermal pack = maxDefined [num_at thermal [''ambientTemp''], num_at thermal [''inverterTemp''],
     num_at thermal [''motorTemp''], coolant_temp thermal, batt_temp thermal pack]"

definition shutdown_legs :: "json \<Rightarrow> bool option list" where
  "shutdown_legs low = map (\<lambda>i. bool_at low (''shutdownLeg'' @ nat_text i)) [1..<13]"

definition shutdown_healthy :: "bool option list \<Rightarrow> bool option" where
  "shutdown_healthy legs = (let vs = List.map_filter id legs in if vs = [] then None else Some (list_all id vs))"

definition gps_json :: "json \<Rightarrow> json" where
  "gps_json v = (case toNumberPair v of None \<Rightarrow> JUndef | Some (x, y) \<Rightarrow> JArr [JNum (JFin x), JNum (JFin y)])"

definition power_kw :: "rat option \<Rightarrow> rat option \<Rightarrow> rat option" where
  "power_kw v c = (case (v, c) of (Some a, Some b) \<Rightarrow> Some (a * b / 1000) | _ \<Rightarrow> None)"

definition shutdown_payload :: "json \<Rightarrow> json \<Rightarrow> json \<Rightarrow> string \<Rightarrow> json" where
  "shutdown_payload pack high low car =
     (let legs = shutdown_legs low in JObj
        [(''car_type'', JStr car), (''contactorState'', opt_num (num_at pack [''contactorState''])),
         (''hvcStateMachine'', opt_num (num_at high [''hvcStateMachine''])),
         (''shutdownCurrent'', opt_num (num_at high [''shutdownCurrent''])),
         (''r2dAuthorized'', opt_bool (bool_at low ''r2dAuthorized'')),
         (''r2dStatus'', opt_bool (bool_at low ''r2dStatus'')),
         (''negHvContactor'', opt_bool (bool_at high ''negHvContactor'')),
         (''posHvContactor'', opt_bool (bool_at high ''posHvContactor'')),
         (''prechargeContactor'', opt_bool (bool_at high ''prechargeContactor'')),
         (''shutdownHealthy'', opt_bool (shutdown_healthy legs)),
         (''legs'', JObj (map (\<lambda>i. (''leg'' @ nat_text i, opt_bool (legs ! (i - 1)))) [1..<13]))])"

definition buildNormalizedSensorRoutes :: "json \<Rightarrow> string \<Rightarrow> (string \<times> json) list" where
  "buildNormalizedSensorRoutes parsed car =
     (let dynamics = subrecord parsed ''dynamics''; controls = subrecord parsed ''controls''; pack = subrecord parsed ''pack'';
          diagnostics = subrecord parsed ''diagnostics''; high = subrecord parsed ''diagnosticsHigh'';
          low = subrecord parsed ''diagnosticsLow''; thermal = subrecord parsed ''thermal'';
          battery = opt_num (battery_pct pack); hv = num_at pack [''hvPackV''];
          cur = num_at pack [''hvC'', ''dcBusCurrent'']; lv = opt_num (num_at pack [''lvV'', ''lvBattV'']);
          steer = opt_num (num_at dynamics [''steerColAngle'']);
          throttle = opt_num (throttle_pct dynamics controls); brake = opt_num (brake_pct controls);
          speed = opt_num (car_speed dynamics);
          pid = opt_num (num_at parsed [''packetId'', ''packet_id'']);
          ambient = opt_num (num_at thermal [''ambientTemp'']); inverter = opt_num (num_at thermal [''inverterTemp'']);
          motor = opt_num (num_at thermal [''motorTemp'']); hottest = hottest_temp thermal pack;
          wheel = (\<lambda>k. (k, opt_num (num_at dynamics [k])))
      in [(''car_visualization'', JObj [(''car_type'', JStr car),
             (''dynamics'', JObj (map wheel [''flwSpeed'', ''frwSpeed'', ''blwSpeed'', ''brwSpeed'']))]),
          (''driver_input_visualizer'', JObj [(''car_type'', JStr car),
             (''controls'', JObj [(''steerV'', opt_num (num_at controls [''steerV''])), (''steerColAngle'', steer),
                (''throttlePct'', throttle), (''brakePct'', brake)])]),
          (''map'', JObj [(''car_type'', JStr car), (''dynamics'', JObj [(''gps'', gps_json (firstDefined dynamics [''gps'']))])]),
          (''live_banner'', JObj [(''car_type'', JStr car), (''battery'', battery),
             (''odometer'', opt_num (num_at diagnostics [''odometer'']))]),
          (''dashboard_screen'', JObj [(''car_type'', JStr car), (''packetId'', pid), (''speed'', speed),
             (''wheelSpeedAvg'', opt_num (wheel_avg dynamics)), (''steerColAngle'', steer), (''throttlePct'', throttle),
             (''brakePct'', brake), (''batteryPct'', battery), (''hvPackV'', opt_num hv), (''hvCurrent'', opt_num cur),
             (''lvV'', lv), (''inverterTempC'', inverter), (''motorTempC'', motor), (''ambientTempC'', ambient)]),
          (''timing_deltas'', JObj [(''car_type'', JStr car), (''packetId'', pid), (''speed'', speed),
             (''throttlePct'', throttle), (''brakePct'', brake)]),
          (''shutdown_screen'', shutdown_payload pack high low car),
          (''thermal_headroom'', JObj [(''car_type'', JStr car), (''ambientTempC'', ambient),
             (''coolantTempC'', opt_num (coolant_temp thermal)), (''inverterTempC'', inverter), (''motorTempC'', motor),
             (''battTempC'', opt_num (batt_temp thermal pack)), (''hottestTempC'', opt_num hottest),
             (''thermalHeadroomC'', opt_num (map_option (\<lambda>h. max (- 20) (90 - h)) hottest)),
             (''fanSpeed'', opt_num (num_at thermal [''radFanRpm'', ''motorLoopRadFanSpeed'', ''battLoopRadFanSpeed'']))]),
          (''energy_budget'', JObj [(''car_type'', JStr car), (''batteryPct'', battery), (''hvPackV'', opt_num hv),
             (''hvCurrent'', opt_num cur), (''powerKw'', opt_num (power_kw hv cur)), (''lvV'', lv),
             (''timeSinceOnS'', opt_num (num_at pack [''timeSinceOn'']))])])"

definition NORMALIZED_SENSOR_TOPICS :: "string list" where
  "NORMALIZED_SENSOR_TOPICS = [''car_visualization'', ''driver_input_visualizer'', ''map'', ''live_banner'',
     ''dashboard_screen'', ''timing_deltas'', ''shutdown_screen'', ''thermal_headroom'', ''energy_budget'']"

subsection \<open>Path laws\<close>

lemma get_set_same: "get_parts (JObj (set_parts t (p # ps) v)) (p # ps) = v"
proof (induction ps arbitrary: t p)
  case (Cons q ps)
  then show ?case by (simp add: has_field_JObj field_JObj jm_get_set)
qed (simp add: has_field_JObj field_JObj jm_get_set)

fun diverge :: "string list \<Rightarrow> string list \<Rightarrow> bool" where
  "diverge (p # ps) (q # qs) = (p \<noteq> q \<or> diverge ps qs)"
| "diverge _ _ = False"

fun plain_parts :: "json \<Rightarrow> string list \<Rightarrow> bool" where
  "plain_parts v [] = True"
| "plain_parts v (q # qs) = (is_plain_object v \<and> has_field v q \<and> plain_parts (field v q) qs)"

text \<open>A value written at a path is read back there (\<open>get_set_same\<close>), and what is read at a path
  through plain objects that departs from it does not change.\<close>

lemma get_set_other:
  "diverge ps qs \<Longrightarrow> plain_parts (JObj t) qs \<Longrightarrow>
     get_parts (JObj (set_parts t ps v)) qs = get_parts (JObj t) qs \<and> plain_parts (JObj (set_parts t ps v)) qs"
proof (induction t ps v arbitrary: qs rule: set_parts.induct)
  case (3 t p r ps v)
  then obtain q rs where qs: "qs = q # rs" by (cases qs) auto
  show ?case
  proof (cases "p = q")
    case True
    with 3(2) qs have d: "diverge (r # ps) rs" by simp
    then obtain a as where rs: "rs = a # as" by (cases rs) auto
    have pl: "plain_parts (field (JObj t) p) rs" using 3(3) qs True by simp
    then obtain m where m: "field (JObj t) p = JObj m"
      using rs by (cases "field (JObj t) p") (auto simp: is_plain_object_def)
    then have "get_parts (JObj (set_parts m (r # ps) v)) rs = get_parts (JObj m) rs
        \<and> plain_parts (JObj (set_parts m (r # ps) v)) rs"
      using 3(1) [of rs] d pl by (simp add: fields_of_def)
    then show ?thesis
      using m qs True 3(3)
      by (simp add: has_field_JObj field_JObj jm_get_set fields_of_def is_plain_object_def split: option.splits)
  next
    case False
    then show ?thesis
      using qs 3(3) by (simp add: has_field_JObj field_JObj jm_get_set is_plain_object_def)
  qed
next
  case (2 t p v)
  then show ?case by (cases qs) (auto simp: has_field_JObj field_JObj jm_get_set is_plain_object_def)
qed simp

lemma get_parts_empty: "qs \<noteq> [] \<Longrightarrow> get_parts (JObj []) qs = JUndef"
  by (cases qs) (simp_all add: has_field_JObj jm_get_def)

lemma get_set_absent:
  "diverge ps qs \<Longrightarrow> get_parts (JObj t) qs = JUndef \<Longrightarrow> get_parts (JObj (set_parts t ps v)) qs = JUndef"
proof (induction t ps v arbitrary: qs rule: set_parts.induct)
  case (3 t p r ps v)
  then obtain q rs where qs: "qs = q # rs" by (cases qs) auto
  show ?case
  proof (cases "p = q")
    case True
    with 3(2) qs have d: "diverge (r # ps) rs" by simp
    then have ne: "rs \<noteq> []" by (cases rs) auto
    have "get_parts (JObj (fields_of (field (JObj t) p))) rs = JUndef"
      using 3(3) qs True ne get_parts_empty [OF ne]
      by (cases "field (JObj t) p") (auto simp: fields_of_def has_field_JObj field_JObj split: if_splits option.splits)
    then show ?thesis
      using 3(1) [OF d] qs True by (simp add: has_field_JObj field_JObj jm_get_set)
  next
    case False
    then show ?thesis
      using qs 3(3) by (auto simp: has_field_JObj field_JObj jm_get_set split: if_splits)
  qed
next
  case (2 t p v)
  then show ?case by (cases qs) (auto simp: has_field_JObj field_JObj jm_get_set split: if_splits)
qed simp

lemma plain_set_same: "plain_parts (JObj (set_parts t (p # ps) v)) (p # ps)"
proof (induction ps arbitrary: t p)
  case (Cons q ps)
  then show ?case by (simp add: has_field_JObj field_JObj jm_get_set is_plain_object_def)
qed (simp add: has_field_JObj field_JObj jm_get_set is_plain_object_def)

lemma diverge_sym: "diverge ps qs \<Longrightarrow> diverge qs ps"
  by (induction ps qs rule: diverge.induct) auto

lemma percent_of_range: "0 \<le> percent_of full v \<and> percent_of full v \<le> 100"
  by (auto simp: percent_of_def)

end
