(* ===== verification/KafkaConsumer.thy ===== *)
theory KafkaConsumer
  imports KafkaRoutes
begin

text \<open>
  Message handling and subscription of \<^verbatim>\<open>viewer_tool/src/lib/kafka/kafkaConsumer.ts\<close>, and the
  buffers of \<^verbatim>\<open>viewer_tool/src/lib/kafka/messageBuffer.ts\<close>.

  A payload text is either the text of a JSON value or a text taken as it is. The protobuf
  decoders and the broker are parameters. The header object of a message is shared by all events made from it and is
  completed after the first event was emitted: an emission carries the headers of its moment, a
  buffered event the final ones.
\<close>

datatype payload = PText string | PJson json

type_synonym headers = "(string, string option) jsmap"

record kafka_event =
  ev_topic :: string
  ev_partition :: int
  ev_payload :: payload
  ev_headers :: headers
  ev_offset :: string
  ev_timestamp :: string

text \<open>A message of the broker. The value is its text and its bytes.\<close>

record kafka_message =
  km_topic :: string
  km_partition :: int
  km_value :: "(payload \<times> nat list) option"
  km_headers :: headers
  km_offset :: string
  km_timestamp :: string

record consumer_env =
  sensor_topic :: string
  max_age :: "jsnum option"
  decode_angelique :: "nat list \<Rightarrow> json option"
  decode_orion :: "nat list \<Rightarrow> json option"
  routes :: route_config

text \<open>\<^verbatim>\<open>KAFKA_MAX_MESSAGE_AGE_MS\<close>; \<open>None\<close> is the 0 that switches the check off.\<close>

definition max_message_age :: "string option \<Rightarrow> jsnum option" where
  "max_message_age env = (let x = (case env of None \<Rightarrow> JFin 5000 | Some s \<Rightarrow> text_number s)
     in if js_finite x \<and> JFin 0 < x then Some x else None)"

definition too_old :: "jsnum option \<Rightarrow> string \<Rightarrow> int \<Rightarrow> bool" where
  "too_old age timestamp now = (case age of
       None \<Rightarrow> False
     | Some a \<Rightarrow> (let t = text_number timestamp in js_finite t \<and> a < JFin (of_int now) - t))"

definition parsePossiblyJson :: "payload \<Rightarrow> json" where
  "parsePossiblyJson p = (case p of PText s \<Rightarrow> JStr s | PJson v \<Rightarrow> v)"

definition tryDecodeOrion :: "consumer_env \<Rightarrow> nat list \<Rightarrow> json option" where
  "tryDecodeOrion env bytes = map_option camelizeKeysDeep (decode_orion env bytes)"

definition decodeSensorMessageByCar :: "consumer_env \<Rightarrow> nat list \<Rightarrow> string option \<Rightarrow> json option" where
  "decodeSensorMessageByCar env bytes preferred =
     (if preferred = Some ''orion'' then or_else (tryDecodeOrion env bytes) (decode_angelique env bytes)
      else or_else (decode_angelique env bytes) (tryDecodeOrion env bytes))"

definition header_car :: "headers \<Rightarrow> string option" where
  "header_car h = (case jm_get h ''car_type'' of Some (Some s) \<Rightarrow> normalizeCarType (JStr s) | _ \<Rightarrow> None)"

definition set_car :: "string option \<Rightarrow> headers \<Rightarrow> headers" where
  "set_car car h = (case car of None \<Rightarrow> h | Some c \<Rightarrow> jm_set ''car_type'' (Some c) h)"

definition payload_of :: "json \<Rightarrow> payload" where
  "payload_of v = (case v of JStr s \<Rightarrow> PText s | _ \<Rightarrow> PJson (wire v))"

definition make_event :: "kafka_message \<Rightarrow> string \<Rightarrow> payload \<Rightarrow> headers \<Rightarrow> kafka_event" where
  "make_event m topic p h = \<lparr>ev_topic = topic, ev_partition = km_partition m, ev_payload = p, ev_headers = h,
     ev_offset = km_offset m, ev_timestamp = km_timestamp m\<rparr>"

subsection \<open>Routing rules\<close>

definition renamed_parts :: "(string, string) jsmap option \<Rightarrow> string list \<Rightarrow> string list" where
  "renamed_parts rename parts = (case rename of
       None \<Rightarrow> parts
     | Some m \<Rightarrow> if parts = [] then parts
               else (case jm_get m (last parts) of
                   Some n \<Rightarrow> if n \<noteq> [] then butlast parts @ [n] else parts
                 | None \<Rightarrow> parts))"

definition pick_fields :: "json \<Rightarrow> (string, string) jsmap option \<Rightarrow> string list \<Rightarrow> (string, json) jsmap" where
  "pick_fields parsed rename picks = fold (\<lambda>key t.
       (let val = getPath parsed key
        in if val = JUndef then t else set_parts t (renamed_parts rename (path_parts key)) val)) picks []"

definition rename_fields :: "(string, string) jsmap \<Rightarrow> (string, json) jsmap \<Rightarrow> (string, json) jsmap" where
  "rename_fields rename m = fold (\<lambda>(k, v). jm_set (case jm_get rename k of Some n \<Rightarrow> if n \<noteq> [] then n else k | None \<Rightarrow> k) v) m []"

definition apply_rule :: "route_rule \<Rightarrow> json \<Rightarrow> json" where
  "apply_rule rule parsed = (case parsed of
       JObj m \<Rightarrow>
         (case rr_pick rule of
            Some (p # ps) \<Rightarrow> JObj (pick_fields parsed (rr_rename rule) (p # ps))
          | _ \<Rightarrow> (case rr_rename rule of
                Some (r # rs) \<Rightarrow> JObj (rename_fields (r # rs) m)
              | _ \<Rightarrow> parsed))
     | _ \<Rightarrow> parsed)"

subsection \<open>The message handler\<close>

text \<open>The emissions on the bus in order (channel and event), and the events appended to the buffers.\<close>

type_synonym handled = "(string \<times> kafka_event) list \<times> kafka_event list"

definition channel :: "string \<Rightarrow> string" where
  "channel topic = ''kafka:'' @ topic"

definition decoded_value :: "consumer_env \<Rightarrow> kafka_message \<Rightarrow> payload \<times> json" where
  "decoded_value env m =
     (let text = (case km_value m of None \<Rightarrow> PText [] | Some (t, _) \<Rightarrow> t)
      in if km_topic m = sensor_topic env
         then (case km_value m of
                 None \<Rightarrow> (text, parsePossiblyJson text)
               | Some (_, bytes) \<Rightarrow> (case decodeSensorMessageByCar env bytes (header_car (km_headers m)) of
                   Some v \<Rightarrow> (PJson (wire v), v)
                 | None \<Rightarrow> (text, parsePossiblyJson text)))
         else (text, parsePossiblyJson text))"

definition payload_car :: "json \<Rightarrow> string option" where
  "payload_car parsed = normalizeCarType (if nullish (field parsed ''carType'') then field parsed ''car_type''
     else field parsed ''carType'')"

definition is_sensor_record :: "consumer_env \<Rightarrow> kafka_message \<Rightarrow> json \<Rightarrow> bool" where
  "is_sensor_record env m parsed \<longleftrightarrow> km_topic m = sensor_topic env \<and> is_plain_object parsed"

definition message_car :: "kafka_message \<Rightarrow> json \<Rightarrow> string option" where
  "message_car m parsed = or_else (header_car (km_headers m)) (payload_car parsed)"

definition derived_events :: "kafka_message \<Rightarrow> headers \<Rightarrow> json \<Rightarrow> kafka_event list" where
  "derived_events m h parsed = map (\<lambda>(t, v). make_event m t (payload_of v) h)
     (buildNormalizedSensorRoutes parsed (case message_car m parsed of None \<Rightarrow> ''unknown'' | Some c \<Rightarrow> c))"

definition routed_events :: "consumer_env \<Rightarrow> kafka_message \<Rightarrow> headers \<Rightarrow> json \<Rightarrow> kafka_event list" where
  "routed_events env m h parsed = (case jm_get (routes env) (km_topic m) of
       None \<Rightarrow> []
     | Some rules \<Rightarrow> map (\<lambda>r. make_event m (rr_to r) (payload_of (apply_rule r parsed)) h) rules)"

definition announce :: "kafka_event \<Rightarrow> string \<times> kafka_event" where
  "announce e = (channel (ev_topic e), e)"

definition eachMessage :: "consumer_env \<Rightarrow> int \<Rightarrow> kafka_message \<Rightarrow> handled" where
  "eachMessage env now m =
     (if too_old (max_age env) (km_timestamp m) now then ([], [])
      else let h1 = set_car (header_car (km_headers m)) (km_headers m);
               (text, parsed) = decoded_value env m; raw = make_event m (km_topic m) text;
               sensor = is_sensor_record env m parsed;
               h2 = (if sensor then set_car (message_car m parsed) h1 else h1);
               out = (if sensor then derived_events m h2 parsed else []) @ routed_events env m h2 parsed
      in ([announce (raw h1), (channel ''*'', raw h1)] @ map announce out, raw h2 # out))"

subsection \<open>Buffers\<close>

text \<open>\<^verbatim>\<open>KAFKA_BUFFER_SIZE\<close>.\<close>

definition buffer_size :: "string option \<Rightarrow> nat" where
  "buffer_size env = (let x = (case env of None \<Rightarrow> JFin 200 | Some s \<Rightarrow> text_number s)
     in case x of JFin r \<Rightarrow> if r > 0 then nat \<lfloor>r\<rfloor> else 200 | _ \<Rightarrow> 200)"

type_synonym buffers = "(string, kafka_event list) jsmap"

definition getBufferedMessages :: "buffers \<Rightarrow> string \<Rightarrow> kafka_event list" where
  "getBufferedMessages b topic = (case jm_get b topic of None \<Rightarrow> [] | Some xs \<Rightarrow> xs)"

definition bufferMessage :: "nat \<Rightarrow> string \<Rightarrow> kafka_event \<Rightarrow> buffers \<Rightarrow> buffers" where
  "bufferMessage cap topic e b =
     (let xs = getBufferedMessages b topic @ [e]
      in jm_set topic (if length xs > cap then drop (length xs - cap) xs else xs) b)"

definition clearBuffer :: "string \<Rightarrow> buffers \<Rightarrow> buffers" where
  "clearBuffer topic b = (if jm_has b topic then jm_set topic [] b else b)"

definition clearAllBuffers :: "buffers \<Rightarrow> buffers" where
  "clearAllBuffers b = []"

definition buffer_all :: "nat \<Rightarrow> kafka_event list \<Rightarrow> buffers \<Rightarrow> buffers" where
  "buffer_all cap es b = fold (\<lambda>e. bufferMessage cap (ev_topic e) e) es b"

subsection \<open>Subscription\<close>

definition resolve_topic :: "consumer_env \<Rightarrow> string \<Rightarrow> string list" where
  "resolve_topic env topic =
     (if topic \<in> set NORMALIZED_SENSOR_TOPICS then [sensor_topic env]
      else if (case jm_get (routes env) topic of Some rs \<Rightarrow> rs \<noteq> [] | None \<Rightarrow> False) then [topic]
      else let sources = map fst (filter (\<lambda>(_, rules). list_ex (\<lambda>r. rr_to r = topic) rules) (routes env))
           in if sources \<noteq> [] then sources else [topic])"

definition resolveRawTopicsForRequested :: "consumer_env \<Rightarrow> string list \<Rightarrow> string list" where
  "resolveRawTopicsForRequested env requested =
     fold (\<lambda>r acc. if trim r = [] then acc else fold js_add (resolve_topic env (trim r)) acc) requested []"

definition topic_list :: "string \<Rightarrow> string list" where
  "topic_list s = filter (\<lambda>t. t \<noteq> []) (map trim (split_on (CHR '','') s))"

text \<open>\<^verbatim>\<open>process.env.A || process.env.B || "..."\<close>.\<close>

definition env_or :: "string option \<Rightarrow> string \<Rightarrow> string" where
  "env_or e d = (case e of None \<Rightarrow> d | Some s \<Rightarrow> if s = [] then d else s)"

definition default_topics :: "string option \<Rightarrow> string option \<Rightarrow> string list" where
  "default_topics topics topic = topic_list (env_or topics (env_or topic []))"

definition live_topics :: "string option \<Rightarrow> string list \<Rightarrow> string list" where
  "live_topics env defaults = filter (\<lambda>t. t \<notin> set defaults)
     (topic_list (env_or env ''grafana_data_orion_derived,grafana_data_angelique_derived,car_status''))"

definition regex_meta :: "char \<Rightarrow> bool" where
  "regex_meta c \<longleftrightarrow> c \<in> set ''.*+?^${}()|[]'' \<or> c = CHR 0x5C"

text \<open>What the broker answers to a subscription.\<close>

datatype sub_answer = SubOk | SubUnknownTopic | SubError

text \<open>The subscribed topics, the topics of the cluster, and whether the administration works.\<close>

record sub_state =
  subscribed :: "string list"
  cluster :: "string list"

definition ensureTopicExists :: "bool \<Rightarrow> string \<Rightarrow> sub_state \<Rightarrow> sub_state" where
  "ensureTopicExists admin_ok topic s =
     (if topic = [] \<or> list_ex regex_meta topic \<or> \<not> admin_ok \<or> topic \<in> set (cluster s) then s
      else s\<lparr>cluster := cluster s @ [topic]\<rparr>)"

text \<open>The two answers are those of the first attempt and of the retry; \<open>None\<close> is an error thrown to the caller.\<close>

definition ensureSubscribe :: "bool \<Rightarrow> sub_answer \<Rightarrow> sub_answer \<Rightarrow> string \<Rightarrow> sub_state \<Rightarrow> bool \<times> sub_state" where
  "ensureSubscribe admin_ok first second topic s =
     (if topic = [] \<or> topic \<in> set (subscribed s) then (True, s)
      else let s1 = ensureTopicExists admin_ok topic s; add = (\<lambda>s. s\<lparr>subscribed := js_add topic (subscribed s)\<rparr>)
      in case first of
        SubOk \<Rightarrow> (True, add s1)
      | SubUnknownTopic \<Rightarrow> (let s2 = ensureTopicExists admin_ok topic s1
          in case second of SubOk \<Rightarrow> (True, add s2) | _ \<Rightarrow> (False, s2))
      | SubError \<Rightarrow> (False, s1))"

definition escapeRegex :: "string \<Rightarrow> string" where
  "escapeRegex s = concat (map (\<lambda>c. if regex_meta c then [CHR 0x5C, c] else [c]) s)"

subsection \<open>Buffers keep the last events\<close>

lemma buffer_step:
  "getBufferedMessages (bufferMessage cap t e b) u =
     (if u = t then last_n cap (getBufferedMessages b t @ [e]) else getBufferedMessages b u)"
  by (auto simp: bufferMessage_def getBufferedMessages_def jm_get_set last_n_def Let_def)

lemma buffer_events:
  assumes "0 < cap" "jm_get b t = None"
  shows "getBufferedMessages (buffer_all cap es b) t = last_n cap (filter (\<lambda>e. ev_topic e = t) es)"
proof (induction es rule: rev_induct)
  case Nil
  then show ?case using assms(2) by (simp add: buffer_all_def getBufferedMessages_def last_n_def)
next
  case (snoc e es)
  have "buffer_all cap (es @ [e]) b = bufferMessage cap (ev_topic e) e (buffer_all cap es b)"
    by (simp add: buffer_all_def)
  moreover have "last_n cap (getBufferedMessages (buffer_all cap es b) (ev_topic e) @ [e])
      = last_n cap (filter (\<lambda>x. ev_topic x = ev_topic e) es @ [e])" if "t = ev_topic e"
    using snoc assms(1) that by (simp add: last_n_snoc)
  ultimately show ?case using snoc by (auto simp: buffer_step)
qed

text \<open>The buffer of a topic holds, in order, the last events of that topic, as many as its size
  allows, whatever the sequence of messages, as long as the configured size is at least one.\<close>

theorem buffers_hold_last:
  assumes "1 \<le> buffer_size conf"
  shows "getBufferedMessages (buffer_all (buffer_size conf) es []) t
       = last_n (buffer_size conf) (filter (\<lambda>e. ev_topic e = t) es)"
  using assms by (intro buffer_events) (auto simp: jm_get_def)

definition sample_event :: kafka_event where
  "sample_event = \<lparr>ev_topic = ''map'', ev_partition = 0, ev_payload = PText [], ev_headers = [],
     ev_offset = ''7'', ev_timestamp = ''100''\<rparr>"

theorem buffers_hold_last_witness:
  "getBufferedMessages (buffer_all (buffer_size (Some ''2'')) [sample_event, sample_event, sample_event] []) ''map''
     = [sample_event, sample_event]"
  using buffers_hold_last [of "Some ''2''" "[sample_event, sample_event, sample_event]" "''map''"]
  by (simp add: buffer_size_def js_simps last_n_def sample_event_def)

subsection \<open>From a request to its events\<close>

lemma normalized_topics: "map fst (buildNormalizedSensorRoutes parsed car) = NORMALIZED_SENSOR_TOPICS"
  by (simp add: buildNormalizedSensorRoutes_def NORMALIZED_SENSOR_TOPICS_def Let_def)

lemma normalized_car:
  "list_all (\<lambda>(t, v). field v ''car_type'' = JStr car) (buildNormalizedSensorRoutes parsed car)"
  by (simp add: buildNormalizedSensorRoutes_def shutdown_payload_def Let_def)

lemma resolve_one: "t \<noteq> [] \<Longrightarrow> trim t = t \<Longrightarrow> set (resolveRawTopicsForRequested env [t]) = set (resolve_topic env t)"
proof -
  have "set (fold js_add xs acc) = set xs \<union> set acc" for xs acc :: "string list"
    by (induction xs arbitrary: acc) auto
  then show "t \<noteq> [] \<Longrightarrow> trim t = t \<Longrightarrow> set (resolveRawTopicsForRequested env [t]) = set (resolve_topic env t)"
    by (simp add: resolveRawTopicsForRequested_def)
qed

lemma make_event_topic [simp]: "ev_topic (make_event m t p h) = t"
  by (simp add: make_event_def)

lemma emitted:
  assumes "\<not> too_old (max_age env) (km_timestamp m) now"
  shows "\<exists>h. set (map announce ((if is_sensor_record env m (snd (decoded_value env m))
               then derived_events m h (snd (decoded_value env m)) else []) @ routed_events env m h (snd (decoded_value env m))))
           \<subseteq> set (fst (eachMessage env now m))"
  using assms unfolding eachMessage_def Let_def
  by (cases "decoded_value env m") (auto intro!: exI)

lemma derived_emitted:
  assumes "\<not> too_old (max_age env) (km_timestamp m) now"
    and "is_sensor_record env m (snd (decoded_value env m))"
    and "(t, v) \<in> set (buildNormalizedSensorRoutes (snd (decoded_value env m))
           (case message_car m (snd (decoded_value env m)) of None \<Rightarrow> ''unknown'' | Some c \<Rightarrow> c))"
  shows "\<exists>h. (channel t, make_event m t (payload_of v) h) \<in> set (fst (eachMessage env now m))"
proof -
  obtain h where h: "announce ` set (derived_events m h (snd (decoded_value env m))) \<subseteq> set (fst (eachMessage env now m))"
    using emitted [OF assms(1)] assms(2) by auto
  have "make_event m t (payload_of v) h \<in> set (derived_events m h (snd (decoded_value env m)))"
    using assms(3) unfolding derived_events_def set_map by (rule rev_image_eqI) simp
  then show ?thesis using h by (force simp: announce_def)
qed

lemma routed_emitted:
  assumes "\<not> too_old (max_age env) (km_timestamp m) now"
    and "jm_get (routes env) (km_topic m) = Some rules" "r \<in> set rules"
  shows "\<exists>h. (channel (rr_to r), make_event m (rr_to r) (payload_of (apply_rule r (snd (decoded_value env m)))) h)
            \<in> set (fst (eachMessage env now m))"
proof -
  obtain h where h: "announce ` set (routed_events env m h (snd (decoded_value env m))) \<subseteq> set (fst (eachMessage env now m))"
    using emitted [OF assms(1)] by auto
  have "make_event m (rr_to r) (payload_of (apply_rule r (snd (decoded_value env m)))) h
      \<in> set (routed_events env m h (snd (decoded_value env m)))"
    using assms(2,3) by (simp add: routed_events_def)
  then show ?thesis using h by (force simp: announce_def)
qed

text \<open>What a page requests, it receives. For one of the nine derived topics the consumer is
  subscribed to the sensor topic, and every recent sensor record is announced on it, with the car it is from. For a
  topic that is only the target of routing rules the consumer is subscribed to every source, and every recent message of a
  source is announced on it in the form the rule gives it.\<close>

theorem requested_topic_delivered:
  assumes fresh: "\<not> too_old (max_age env) (km_timestamp m) now" and t: "t \<noteq> []" "trim t = t"
  shows "(t \<in> set NORMALIZED_SENSOR_TOPICS \<and> is_sensor_record env m (snd (decoded_value env m)) \<longrightarrow>
            km_topic m \<in> set (resolveRawTopicsForRequested env [t])
            \<and> (\<exists>v h car. (channel t, make_event m t (payload_of v) h) \<in> set (fst (eachMessage env now m))
                 \<and> field v ''car_type'' = JStr car))
       \<and> (\<forall>rules. \<forall>r \<in> set rules. t \<notin> set NORMALIZED_SENSOR_TOPICS \<and> jm_get (routes env) t = None
            \<and> jm_get (routes env) (km_topic m) = Some rules \<and> rr_to r = t \<longrightarrow>
            km_topic m \<in> set (resolveRawTopicsForRequested env [t])
            \<and> (\<exists>h. (channel t, make_event m t (payload_of (apply_rule r (snd (decoded_value env m)))) h)
                 \<in> set (fst (eachMessage env now m))))"
proof (intro conjI impI allI ballI; (elim conjE)?)
  let ?car = "case message_car m (snd (decoded_value env m)) of
      None \<Rightarrow> ''unknown'' | Some c \<Rightarrow> c"
  assume n: "t \<in> set NORMALIZED_SENSOR_TOPICS" "is_sensor_record env m (snd (decoded_value env m))"
  show "km_topic m \<in> set (resolveRawTopicsForRequested env [t])"
    using n t by (simp add: resolve_one resolve_topic_def is_sensor_record_def)
  obtain v where v: "(t, v) \<in> set (buildNormalizedSensorRoutes (snd (decoded_value env m)) ?car)"
    using n(1) in_map_fst [of t "buildNormalizedSensorRoutes (snd (decoded_value env m)) ?car"]
    by (auto simp only: normalized_topics)
  then have "field v ''car_type'' = JStr ?car"
    using normalized_car [of ?car "snd (decoded_value env m)"] by (auto simp: list_all_iff)
  then show "\<exists>v h car. (channel t, make_event m t (payload_of v) h) \<in> set (fst (eachMessage env now m))
                 \<and> field v ''car_type'' = JStr car"
    using derived_emitted [OF fresh n(2) v] by blast
next
  fix rules r
  assume r: "r \<in> set rules" "t \<notin> set NORMALIZED_SENSOR_TOPICS" "jm_get (routes env) t = None"
    "jm_get (routes env) (km_topic m) = Some rules" "rr_to r = t"
  show "km_topic m \<in> set (resolveRawTopicsForRequested env [t])"
  proof -
    have "(km_topic m, rules) \<in> set (filter (\<lambda>(_, rules). list_ex (\<lambda>r. rr_to r = t) rules) (routes env))"
      using jm_get_in_set [OF r(4)] r(1,5) by (auto simp: list_ex_iff)
    then have "km_topic m \<in> set (map fst (filter (\<lambda>(_, rules). list_ex (\<lambda>r. rr_to r = t) rules) (routes env)))"
      unfolding set_map by (rule rev_image_eqI) simp
    then show ?thesis
      unfolding resolve_one [OF t] resolve_topic_def Let_def using r(2,3) by (auto simp del: set_map)
  qed
  show "\<exists>h. (channel t, make_event m t (payload_of (apply_rule r (snd (decoded_value env m)))) h)
                 \<in> set (fst (eachMessage env now m))"
    using routed_emitted [OF fresh r(4,1)] r(5) by simp
qed

definition demo_env :: consumer_env where
  "demo_env = \<lparr>sensor_topic = ''sensor_data'', max_age = Some (JFin 5000), decode_angelique = (\<lambda>_. None),
     decode_orion = (\<lambda>_. Some (JObj [(''packet_id'', JNum (JFin 4))])), routes = []\<rparr>"

definition demo_message :: kafka_message where
  "demo_message = \<lparr>km_topic = ''sensor_data'', km_partition = 0, km_value = Some (PText ''x'', [1]),
     km_headers = [], km_offset = ''7'', km_timestamp = ''1000''\<rparr>"

theorem requested_topic_delivered_witness:
  "\<exists>v h. (''kafka:map'', make_event demo_message ''map'' (payload_of v) h) \<in> set (fst (eachMessage demo_env 2000 demo_message))"
proof -
  have "\<not> too_old (max_age demo_env) (km_timestamp demo_message) 2000"
    by (simp add: too_old_def demo_env_def demo_message_def js_simps)
  moreover have "trim ''map'' = ''map''" by (simp add: js_simps)
  moreover have "is_sensor_record demo_env demo_message (snd (decoded_value demo_env demo_message))"
    by (simp add: is_sensor_record_def decoded_value_def demo_env_def demo_message_def decodeSensorMessageByCar_def header_car_def jm_get_def
        or_else_def tryDecodeOrion_def is_plain_object_def)
  ultimately have "\<exists>v h car. (channel ''map'', make_event demo_message ''map'' (payload_of v) h)
      \<in> set (fst (eachMessage demo_env 2000 demo_message)) \<and> field v ''car_type'' = JStr car"
    using conjunct1 [OF requested_topic_delivered [of demo_env demo_message 2000 "''map''"]]
    by (simp only: NORMALIZED_SENSOR_TOPICS_def) simp
  then show ?thesis by (auto simp: channel_def)
qed

subsection \<open>What a rule picks\<close>

lemma pick_step:
  "pick_fields parsed None (ps @ [k]) = (if getPath parsed k = JUndef then pick_fields parsed None ps
     else set_parts (pick_fields parsed None ps) (path_parts k) (getPath parsed k))"
  by (simp add: pick_fields_def renamed_parts_def Let_def)

lemma picked:
  "sorted_wrt (\<lambda>a b. diverge (path_parts a) (path_parts b)) picks \<Longrightarrow> list_all (\<lambda>k. path_parts k \<noteq> []) picks \<Longrightarrow>
     (\<forall>k \<in> set picks. getPath parsed k \<noteq> JUndef \<longrightarrow>
        get_parts (JObj (pick_fields parsed None picks)) (path_parts k) = getPath parsed k
        \<and> plain_parts (JObj (pick_fields parsed None picks)) (path_parts k))
     \<and> (\<forall>qs. qs \<noteq> [] \<and> (\<forall>k \<in> set picks. getPath parsed k \<noteq> JUndef \<longrightarrow> diverge (path_parts k) qs) \<longrightarrow>
        get_parts (JObj (pick_fields parsed None picks)) qs = JUndef)"
proof (induction picks rule: rev_induct)
  case Nil
  then show ?case by (simp add: pick_fields_def get_parts_empty)
next
  case (snoc k ps)
  let ?t = "pick_fields parsed None ps" and ?v = "getPath parsed k"
  have div: "diverge (path_parts k) (path_parts x)" if "x \<in> set ps" for x
    using snoc.prems(1) that by (simp add: sorted_wrt_append diverge_sym)
  obtain p q where k: "path_parts k = p # q" using snoc.prems(2) by (cases "path_parts k") auto
  have IH: "\<forall>x \<in> set ps. getPath parsed x \<noteq> JUndef \<longrightarrow>
        get_parts (JObj ?t) (path_parts x) = getPath parsed x \<and> plain_parts (JObj ?t) (path_parts x)"
    "\<forall>qs. qs \<noteq> [] \<and> (\<forall>x \<in> set ps. getPath parsed x \<noteq> JUndef \<longrightarrow> diverge (path_parts x) qs) \<longrightarrow>
        get_parts (JObj ?t) qs = JUndef"
    using snoc by (simp_all add: sorted_wrt_append)
  show ?case
  proof (cases "?v = JUndef")
    case True
    then show ?thesis using IH by (simp add: pick_step)
  next
    case False
    have new: "get_parts (JObj (set_parts ?t (path_parts k) ?v)) (path_parts k) = ?v
        \<and> plain_parts (JObj (set_parts ?t (path_parts k) ?v)) (path_parts k)"
      unfolding k using get_set_same plain_set_same by blast
    show ?thesis
      using False IH new div get_set_other get_set_absent by (simp add: pick_step)
  qed
qed

text \<open>A rule that picks without renaming: when none of its paths runs through another, the routed
  record holds at each picked path exactly what the record holds there, and nothing where the record has nothing.\<close>

theorem pick_keeps_values:
  assumes "sorted_wrt (\<lambda>a b. diverge (path_parts a) (path_parts b)) picks"
    and "list_all (\<lambda>k. path_parts k \<noteq> []) picks" and "k \<in> set picks"
  shows "getPath (JObj (pick_fields parsed None picks)) k = getPath parsed k"
proof (cases "getPath parsed k = JUndef")
  case False
  then show ?thesis using picked [OF assms(1,2)] assms(3) by (simp add: getPath_def)
next
  case True
  have "diverge (path_parts x) (path_parts k)" if "x \<in> set picks" "getPath parsed x \<noteq> JUndef" for x
  proof -
    have "x \<noteq> k" using that True by auto
    with that(1) assms(1,3) show ?thesis
      by (induction picks) (auto intro: diverge_sym)
  qed
  moreover have "path_parts k \<noteq> []" using assms(2,3) by (simp add: list_all_iff)
  ultimately have "get_parts (JObj (pick_fields parsed None picks)) (path_parts k) = JUndef"
    using picked [OF assms(1,2)] by blast
  then show ?thesis using True by (simp add: getPath_def)
qed

definition demo_record :: json where
  "demo_record = JObj [(''pack'', JObj [(''hvSoc'', JNum (JFin 62)), (''lvV'', JNum (JFin 13))]),
     (''dynamics'', JObj [(''gps'', JNull)])]"

theorem pick_keeps_values_witness:
  "getPath (JObj (pick_fields demo_record None [''pack.hvSoc'', ''dynamics'', ''pack.none''])) ''pack.hvSoc'' = JNum (JFin 62)"
  using pick_keeps_values [of "[''pack.hvSoc'', ''dynamics'', ''pack.none'']" "''pack.hvSoc''" demo_record]
  by (simp add: path_parts_def) (simp add: getPath_def path_parts_def demo_record_def has_field_JObj jm_get_def)

end
