(* ===== verification/KafkaStream.thy ===== *)
theory KafkaStream
  imports KafkaConsumer
begin

text \<open>
  The event stream of the server, \<^verbatim>\<open>viewer_tool/src/app/api/kafka-stream/route.ts\<close>, and the page's
  subscription singleton, \<^verbatim>\<open>viewer_tool/src/lib/kafka/sseBus.ts\<close>.

  A stream lives through bus events, heartbeats, the abort of its request and the cancellation of its
  reader. Writing to a stream that was closed or cancelled throws. A text payload (\<open>PText\<close>) names no car.
\<close>

subsection \<open>The server's stream\<close>

definition normalizeCar :: "string option \<Rightarrow> string option" where
  "normalizeCar v = (case v of
       None \<Rightarrow> None
     | Some s \<Rightarrow> let n = lower (trim s) in if n \<in> {''orion'', ''angelique''} then Some n else None)"

definition payload_car_type :: "json \<Rightarrow> string option" where
  "payload_car_type v = normalizeCar (or_else (as_str (field v ''car_type'')) (as_str (field v ''carType'')))"

definition getMessageCarType :: "kafka_event \<Rightarrow> string option" where
  "getMessageCarType e = (case normalizeCar (Option.bind (jm_get (ev_headers e) ''car_type'') id) of
       Some c \<Rightarrow> Some c
     | None \<Rightarrow> (case ev_payload e of PJson v \<Rightarrow> payload_car_type v | PText _ \<Rightarrow> None))"

datatype history_mode = HNone | HLatest | HAll

definition parseHistoryMode :: "string option \<Rightarrow> history_mode" where
  "parseHistoryMode v = (case map_option (\<lambda>s. lower (trim s)) v of
       Some n \<Rightarrow> if n = ''none'' then HNone else if n = ''all'' then HAll else HLatest
     | None \<Rightarrow> HLatest)"

definition requested_topics :: "string option \<Rightarrow> string option \<Rightarrow> string list" where
  "requested_topics topicsParam rawTopic = filter (\<lambda>t. t \<noteq> []) (map trim
     (case topicsParam of
        Some (c # s) \<Rightarrow> split_on (CHR '','') (c # s)
      | _ \<Rightarrow> (case rawTopic of Some (c # s) \<Rightarrow> [c # s] | _ \<Rightarrow> [])))"

definition wanted :: "string option \<Rightarrow> kafka_event \<Rightarrow> bool" where
  "wanted car e \<longleftrightarrow> \<not> (car \<noteq> None \<and> getMessageCarType e \<noteq> None \<and> getMessageCarType e \<noteq> car)"

definition replay :: "history_mode \<Rightarrow> buffers \<Rightarrow> string list \<Rightarrow> string option \<Rightarrow> kafka_event list" where
  "replay mode b topics car =
     (if mode = HNone then []
      else concat (map (\<lambda>t. let history = getBufferedMessages b t
             in filter (wanted car) (if mode = HAll then history else if history = [] then [] else [last history])) topics))"

record stream =
  st_topics :: "string list"
  st_car :: "string option"
  st_closed :: bool
  st_live :: bool
  st_handlers :: "string list"
  st_timer :: bool
  st_written :: "kafka_event list"
  st_pings :: nat

definition open_stream :: "history_mode \<Rightarrow> buffers \<Rightarrow> string list \<Rightarrow> string option \<Rightarrow> stream" where
  "open_stream mode b topics car = \<lparr>st_topics = topics, st_car = car, st_closed = False, st_live = True,
     st_handlers = topics, st_timer = True, st_written = replay mode b topics car, st_pings = 1\<rparr>"

text \<open>One registered handler: \<open>None\<close> when the write throws into the emitter.\<close>

definition handler_write :: "string \<Rightarrow> kafka_event \<Rightarrow> stream \<Rightarrow> stream option" where
  "handler_write t e s =
     (if ev_topic e \<noteq> t \<or> \<not> wanted (st_car s) e then Some s
      else if st_live s then Some (s\<lparr>st_written := st_written s @ [e]\<rparr>) else None)"

definition cleanup :: "stream \<Rightarrow> stream" where
  "cleanup s = (if st_closed s then s
     else s\<lparr>st_closed := True, st_timer := False, st_handlers := [], st_live := False\<rparr>)"

text \<open>\<^verbatim>\<open>cancel()\<close> of the underlying source; the stream itself is closed by then.\<close>

definition cancel :: "stream \<Rightarrow> stream" where
  "cancel s = s\<lparr>st_closed := True, st_live := False\<rparr>"

datatype stream_input = BusEvent string kafka_event | Heartbeat | Abort | Cancel

fun stream_step :: "stream_input \<Rightarrow> stream \<Rightarrow> stream option" where
  "stream_step (BusEvent t e) s =
     fold (\<lambda>h so. Option.bind so (handler_write h e)) (filter (\<lambda>h. h = t) (st_handlers s)) (Some s)"
| "stream_step Heartbeat s =
     (if \<not> st_timer s then Some s else if st_live s then Some (s\<lparr>st_pings := Suc (st_pings s)\<rparr>) else None)"
| "stream_step Abort s = Some (cleanup s)"
| "stream_step Cancel s = Some (if st_live s then cancel s else s)"

definition stream_run :: "stream_input list \<Rightarrow> stream \<Rightarrow> stream option" where
  "stream_run is s = fold (\<lambda>i so. Option.bind so (stream_step i)) is (Some s)"

definition stream_ok :: "stream \<Rightarrow> bool" where
  "stream_ok s \<longleftrightarrow> list_all (\<lambda>e. ev_topic e \<in> set (st_topics s) \<and> wanted (st_car s) e) (st_written s)
     \<and> set (st_handlers s) \<subseteq> set (st_topics s)"

lemma handler_writes_ok:
  "fold (\<lambda>h so. Option.bind so (handler_write h e)) hs (Some s) = Some s' \<Longrightarrow> stream_ok s \<Longrightarrow> set hs \<subseteq> set (st_topics s) \<Longrightarrow>
     stream_ok s' \<and> st_topics s' = st_topics s \<and> st_car s' = st_car s"
proof (induction hs arbitrary: s)
  case (Cons h hs)
  have none: "fold (\<lambda>h so. Option.bind so (handler_write h e)) xs None = None" for xs
    by (induction xs) simp_all
  obtain t where t: "handler_write h e s = Some t"
    using Cons.prems(1) none by (cases "handler_write h e s") auto
  have "stream_ok t \<and> st_topics t = st_topics s \<and> st_car t = st_car s"
    using t Cons.prems(2,3) by (auto simp: handler_write_def stream_ok_def split: if_splits)
  then show ?case using Cons t by simp
qed simp

lemma stream_step_ok:
  "stream_step i s = Some s' \<Longrightarrow> stream_ok s \<Longrightarrow> stream_ok s' \<and> st_topics s' = st_topics s \<and> st_car s' = st_car s"
proof (cases i)
  case (BusEvent t e)
  assume a: "stream_step i s = Some s'" "stream_ok s"
  have "set (filter (\<lambda>h. h = t) (st_handlers s)) \<subseteq> set (st_topics s)" using a(2) by (auto simp: stream_ok_def)
  then show ?thesis using handler_writes_ok a BusEvent by simp
qed (auto simp: cleanup_def cancel_def stream_ok_def split: if_splits)

lemma stream_run_ok:
  "stream_run is s = Some s' \<Longrightarrow> stream_ok s \<Longrightarrow> stream_ok s' \<and> st_topics s' = st_topics s \<and> st_car s' = st_car s"
proof (induction "is" arbitrary: s)
  case (Cons i "is")
  have none: "fold (\<lambda>i so. Option.bind so (stream_step i)) xs None = None" for xs
    by (induction xs) simp_all
  obtain t where t: "stream_step i s = Some t" "stream_run is t = Some s'"
    using Cons.prems(1) none by (cases "stream_step i s") (auto simp: stream_run_def)
  then show ?case using Cons stream_step_ok by metis
qed (simp add: stream_run_def)

text \<open>What a page receives: only events of the topics it asked for, and none that names another car than the one
  it asked for. This holds for the history and for whatever the bus emits while the stream lives.\<close>

theorem stream_filters_events:
  assumes "\<And>t e. e \<in> set (getBufferedMessages b t) \<Longrightarrow> ev_topic e = t"
    and "stream_run is (open_stream mode b topics (Some car)) = Some s"
  shows "list_all (\<lambda>e. ev_topic e \<in> set topics
            \<and> (case getMessageCarType e of None \<Rightarrow> True | Some c \<Rightarrow> c = car)) (st_written s)"
proof -
  have "ev_topic e \<in> set topics \<and> wanted (Some car) e" if "e \<in> set (replay mode b topics (Some car))" for e
    using that assms(1) by (auto simp: replay_def Let_def split: if_splits) (metis last_in_set)+
  then have "stream_ok (open_stream mode b topics (Some car))"
    by (auto simp: stream_ok_def open_stream_def list_all_iff)
  from stream_run_ok [OF assms(2) this] show ?thesis
    by (auto simp: stream_ok_def open_stream_def wanted_def list_all_iff split: option.splits)
qed

definition orion_event :: kafka_event where
  "orion_event = \<lparr>ev_topic = ''map'', ev_partition = 0, ev_payload = PText [], ev_headers = [(''car_type'', Some ''orion'')],
     ev_offset = ''1'', ev_timestamp = ''5''\<rparr>"

lemmas stream_eval = stream_run_def open_stream_def replay_def handler_write_def wanted_def getMessageCarType_def
  normalizeCar_def jm_get_def lower_def lower_char_def

theorem stream_filters_events_witness:
  "stream_run [BusEvent ''map'' orion_event, Heartbeat] (open_stream HAll [] [''map''] (Some ''angelique'')) \<noteq> None
   \<and> (case stream_run [BusEvent ''map'' orion_event, Heartbeat] (open_stream HAll [] [''map''] (Some ''angelique'')) of
       Some s \<Rightarrow> list_all (\<lambda>e. ev_topic e \<in> {''map''}) (st_written s) | None \<Rightarrow> False)"
proof -
  let ?r = "stream_run [BusEvent ''map'' orion_event, Heartbeat] (open_stream HAll [] [''map''] (Some ''angelique''))"
  have "?r \<noteq> None"
    by (simp add: stream_eval orion_event_def getBufferedMessages_def js_simps)
  then obtain s where s: "?r = Some s" by auto
  have "list_all (\<lambda>e. ev_topic e \<in> set [''map''] \<and> (case getMessageCarType e of None \<Rightarrow> True | Some c \<Rightarrow> c = ''angelique'')) (st_written s)"
    by (rule stream_filters_events [OF _ s]) (simp add: getBufferedMessages_def jm_get_def)
  then show ?thesis using s by (auto simp: list_all_iff)
qed

text \<open>C29: Closing a stream. When the request is aborted first, the timer and every handler go. When the reader
  cancels first, a later abort does nothing: the handlers and the timer stay for good, the next heartbeat
  throws, and so does the next event of a requested topic, into the emitter that announces it.\<close>

theorem stream_cancel_leaks:
  assumes "st_live s" "\<not> st_closed s" "t \<in> set (st_handlers s)" "st_timer s"
    and "ev_topic e = t" "wanted (st_car s) e"
  shows "stream_run [Abort, Cancel] s = Some (cleanup s) \<and> st_handlers (cleanup s) = [] \<and> \<not> st_timer (cleanup s)
       \<and> (\<exists>s'. stream_run [Cancel, Abort] s = Some s' \<and> st_handlers s' = st_handlers s \<and> st_timer s'
            \<and> stream_step Heartbeat s' = None \<and> stream_step (BusEvent t e) s' = None)"
proof -
  have none: "fold (\<lambda>h so. Option.bind so (handler_write h e)) xs None = None" for xs
    by (induction xs) simp_all
  have "handler_write t e (cancel s) = None"
    using assms by (simp add: handler_write_def cancel_def)
  moreover obtain n where "filter (\<lambda>h. h = t) (st_handlers (cancel s)) = t # n"
    using assms(3) by (cases "filter (\<lambda>h. h = t) (st_handlers (cancel s))")
      (auto simp: cancel_def filter_empty_conv dest: filter_eq_ConsD)
  ultimately have "stream_step (BusEvent t e) (cancel s) = None" by (simp add: none)
  then show ?thesis
    using assms by (simp add: stream_run_def cleanup_def cancel_def)
qed

theorem stream_cancel_leaks_witness:
  "\<exists>s'. stream_run [Cancel, Abort] (open_stream HNone [] [''map''] None) = Some s'
     \<and> stream_step (BusEvent ''map'' orion_event) s' = None"
  using stream_cancel_leaks [of "open_stream HNone [] [''map''] None" "''map''" orion_event]
  by (auto simp: open_stream_def wanted_def orion_event_def)

subsection \<open>The page's subscriptions\<close>

text \<open>A handler is a number. A URL is the path with the joined topics.\<close>

type_synonym handler = nat

type_synonym sse_url = "string \<times> string"

record sse =
  listeners :: "(string, handler list) jsmap"
  es :: "sse_url option"
  connected :: bool
  lastMessageAt :: "int option"
  ssePath :: string
  currentUrl :: "sse_url option"

definition init_sse :: sse where
  "init_sse = \<lparr>listeners = [], es = None, connected = False, lastMessageAt = None,
     ssePath = ''/api/kafka-stream'', currentUrl = None\<rparr>"

definition buildUrl :: "sse \<Rightarrow> sse_url" where
  "buildUrl s = (ssePath s, join '','' (jm_keys (listeners s)))"

definition closeEventSource :: "sse \<Rightarrow> sse" where
  "closeEventSource s = s\<lparr>es := None, currentUrl := None, connected := False\<rparr>"

definition openIfNeeded :: "sse \<Rightarrow> sse" where
  "openIfNeeded s =
     (if listeners s = [] then closeEventSource s
      else if es s \<noteq> None \<and> currentUrl s = Some (buildUrl s) then s
      else s\<lparr>es := Some (buildUrl s), currentUrl := Some (buildUrl s), connected := False\<rparr>)"

definition handlers_for :: "sse \<Rightarrow> string \<Rightarrow> handler list" where
  "handlers_for s t = (case jm_get (listeners s) t of None \<Rightarrow> [] | Some hs \<Rightarrow> hs)"

definition subscribeSSE :: "string \<Rightarrow> handler \<Rightarrow> string option \<Rightarrow> sse \<Rightarrow> sse" where
  "subscribeSSE topic h p s =
     (let s1 = (case p of Some (c # q) \<Rightarrow> s\<lparr>ssePath := c # q\<rparr> | _ \<Rightarrow> s)
      in openIfNeeded (s1\<lparr>listeners := jm_set topic (js_add h (handlers_for s1 topic)) (listeners s1)\<rparr>))"

definition unsubscribeSSE :: "string \<Rightarrow> handler \<Rightarrow> sse \<Rightarrow> sse" where
  "unsubscribeSSE topic h s = (case jm_get (listeners s) topic of
       None \<Rightarrow> s
     | Some hs \<Rightarrow> (let hs' = filter (\<lambda>x. x \<noteq> h) hs in
         openIfNeeded (s\<lparr>listeners := (if hs' = [] then jm_delete topic (listeners s) else jm_set topic hs' (listeners s))\<rparr>)))"

definition setSSEPath :: "string \<Rightarrow> sse \<Rightarrow> sse" where
  "setSSEPath nxt s = (if nxt = [] \<or> nxt = ssePath s then s else openIfNeeded (s\<lparr>ssePath := nxt, es := None\<rparr>))"

definition restartSSE :: "sse \<Rightarrow> sse" where
  "restartSSE s = (if es s = None then s else openIfNeeded (s\<lparr>es := None\<rparr>))"

definition stopSSE :: "sse \<Rightarrow> sse" where
  "stopSSE s = closeEventSource s"

definition sse_connection :: "bool \<Rightarrow> sse \<Rightarrow> sse" where
  "sse_connection up s = (if es s = None then s else s\<lparr>connected := up\<rparr>)"

text \<open>A message: the new state and the handlers called, in order. \<open>None\<close> does not parse.\<close>

definition sse_message :: "json option \<Rightarrow> int \<Rightarrow> sse \<Rightarrow> sse \<times> handler list" where
  "sse_message m now s =
     (case m of
        Some v \<Rightarrow> if truthy (field v ''topic'')
          then (s\<lparr>lastMessageAt := Some now\<rparr>,
                concat (map snd (filter (\<lambda>(k, _). JStr k = field v ''topic'') (listeners s))))
          else (s, [])
      | None \<Rightarrow> (s, []))"

datatype sse_op = Subscribe string handler "string option" | Unsubscribe string handler | SetPath string | Restart
  | Connection bool

fun sse_do :: "sse_op \<Rightarrow> sse \<Rightarrow> sse" where
  "sse_do (Subscribe t h p) s = subscribeSSE t h p s"
| "sse_do (Unsubscribe t h) s = unsubscribeSSE t h s"
| "sse_do (SetPath p) s = setSSEPath p s"
| "sse_do Restart s = restartSSE s"
| "sse_do (Connection up) s = sse_connection up s"

text \<open>The abstract view: who is subscribed to what.\<close>

fun subs_do :: "sse_op \<Rightarrow> (string \<times> handler) set \<Rightarrow> (string \<times> handler) set" where
  "subs_do (Subscribe t h p) A = insert (t, h) A"
| "subs_do (Unsubscribe t h) A = A - {(t, h)}"
| "subs_do _ A = A"

definition sse_refines :: "sse \<Rightarrow> (string \<times> handler) set \<Rightarrow> bool" where
  "sse_refines s A \<longleftrightarrow> jm_ok (listeners s) \<and> (\<forall>t h. h \<in> set (handlers_for s t) \<longleftrightarrow> (t, h) \<in> A)
     \<and> (\<forall>t hs. jm_get (listeners s) t = Some hs \<longrightarrow> hs \<noteq> [] \<and> distinct hs)
     \<and> es s = (if A = {} then None else Some (buildUrl s)) \<and> currentUrl s = es s"

lemma subs_empty:
  assumes "\<forall>t h. h \<in> set (handlers_for s t) \<longleftrightarrow> (t, h) \<in> A"
    and "\<forall>t hs. jm_get (listeners s) t = Some hs \<longrightarrow> hs \<noteq> [] \<and> distinct hs"
  shows "A = {} \<longleftrightarrow> listeners s = []"
proof
  assume A: "A = {}"
  show "listeners s = []"
  proof (cases "listeners s")
    case (Cons p ps)
    then have g: "jm_get (listeners s) (fst p) = Some (snd p)" by (cases p) (simp add: jm_get_def)
    then have "snd p \<noteq> []" using assms(2) by blast
    then have "hd (snd p) \<in> set (handlers_for s (fst p))" using g by (simp add: handlers_for_def)
    then show ?thesis using assms(1) A by blast
  qed simp
next
  assume "listeners s = []"
  then show "A = {}" using assms(1) by (auto simp: handlers_for_def jm_get_def)
qed

lemma open_refines:
  assumes "jm_ok (listeners s)" "\<forall>t h. h \<in> set (handlers_for s t) \<longleftrightarrow> (t, h) \<in> A"
    and "\<forall>t hs. jm_get (listeners s) t = Some hs \<longrightarrow> hs \<noteq> [] \<and> distinct hs"
    and "es s \<noteq> None \<Longrightarrow> currentUrl s = es s"
  shows "sse_refines (openIfNeeded s) A"
proof -
  have "handlers_for (openIfNeeded s) = handlers_for s" "listeners (openIfNeeded s) = listeners s"
    by (auto simp: openIfNeeded_def closeEventSource_def handlers_for_def)
  then show ?thesis
    using assms subs_empty [OF assms(2,3)]
    by (auto simp: sse_refines_def openIfNeeded_def closeEventSource_def buildUrl_def)
qed

lemma sse_step_refines: "sse_refines s A \<Longrightarrow> sse_refines (sse_do op s) (subs_do op A)"
proof (cases op)
  case (Subscribe t h p)
  assume r: "sse_refines s A"
  define s1 where "s1 = (case p of Some (c # q) \<Rightarrow> s\<lparr>ssePath := c # q\<rparr> | _ \<Rightarrow> s)"
  have f: "listeners s1 = listeners s" "es s1 = es s" "currentUrl s1 = currentUrl s"
    by (auto simp: s1_def split: option.splits list.splits)
  then have hs: "handlers_for s1 = handlers_for s" by (simp add: handlers_for_def fun_eq_iff)
  let ?s = "s1\<lparr>listeners := jm_set t (js_add h (handlers_for s1 t)) (listeners s1)\<rparr>"
  have h: "handlers_for ?s u = (if u = t then js_add h (handlers_for s t) else handlers_for s u)" for u
    using f hs by (simp add: handlers_for_def jm_get_set)
  have d: "distinct (handlers_for s t)"
    using r by (auto simp: sse_refines_def handlers_for_def split: option.splits)
  have "sse_refines (openIfNeeded ?s) (insert (t, h) A)"
  proof (rule open_refines)
    show "jm_ok (listeners ?s)" using r f by (auto simp: sse_refines_def jm_ok_set)
    show "\<forall>u k. k \<in> set (handlers_for ?s u) \<longleftrightarrow> (u, k) \<in> insert (t, h) A"
      using r unfolding h by (auto simp: sse_refines_def js_add_def)
    have "js_add h (handlers_for s t) \<noteq> [] \<and> distinct (js_add h (handlers_for s t))"
      using d by (cases "handlers_for s t") (auto simp: js_add_def)
    then show "\<forall>u ks. jm_get (listeners ?s) u = Some ks \<longrightarrow> ks \<noteq> [] \<and> distinct ks"
      using r unfolding sse_refines_def by (simp add: f hs jm_get_set)
    show "es ?s \<noteq> None \<Longrightarrow> currentUrl ?s = es ?s" using r f by (simp add: sse_refines_def)
  qed
  then show ?thesis
    unfolding Subscribe sse_do.simps subs_do.simps subscribeSSE_def Let_def s1_def [symmetric] .
next
  case (Unsubscribe t h)
  assume r: "sse_refines s A"
  show ?thesis
  proof (cases "jm_get (listeners s) t")
    case None
    then have "h \<notin> set (handlers_for s t)" by (simp add: handlers_for_def)
    then have "(t, h) \<notin> A" using r by (simp add: sse_refines_def)
    then show ?thesis using r None by (simp add: Unsubscribe unsubscribeSSE_def)
  next
    case (Some hs)
    let ?s = "s\<lparr>listeners := (if filter (\<lambda>x. x \<noteq> h) hs = [] then jm_delete t (listeners s)
        else jm_set t (filter (\<lambda>x. x \<noteq> h) hs) (listeners s))\<rparr>"
    have h: "handlers_for ?s u = (if u = t then filter (\<lambda>x. x \<noteq> h) hs else handlers_for s u)" for u
      by (auto simp: handlers_for_def jm_get_set jm_get_delete)
    have subs: "k \<in> set (handlers_for s u) \<longleftrightarrow> (u, k) \<in> A" for u k using r by (simp add: sse_refines_def)
    have gt: "handlers_for s t = hs" using Some by (simp add: handlers_for_def)
    have "sse_refines (openIfNeeded ?s) (A - {(t, h)})"
    proof (rule open_refines)
      show "jm_ok (listeners ?s)" using r by (auto simp: sse_refines_def jm_ok_set jm_ok_delete)
      show "\<forall>u k. k \<in> set (handlers_for ?s u) \<longleftrightarrow> (u, k) \<in> A - {(t, h)}"
        using gt subs unfolding h by (auto simp: subs [symmetric])
      show "\<forall>u hs. jm_get (listeners ?s) u = Some hs \<longrightarrow> hs \<noteq> [] \<and> distinct hs"
        using r Some by (auto simp: sse_refines_def jm_get_set jm_get_delete split: if_splits)
      show "es ?s \<noteq> None \<Longrightarrow> currentUrl ?s = es ?s" using r by (simp add: sse_refines_def)
    qed
    then show ?thesis using Some by (simp add: Unsubscribe unsubscribeSSE_def Let_def)
  qed
next
  case (SetPath p)
  assume r: "sse_refines s A"
  have "sse_refines (openIfNeeded (s\<lparr>ssePath := p, es := None\<rparr>)) A"
    using r by (intro open_refines) (auto simp: sse_refines_def handlers_for_def)
  then show ?thesis using r by (simp add: SetPath setSSEPath_def)
next
  case Restart
  assume r: "sse_refines s A"
  have "sse_refines (openIfNeeded (s\<lparr>es := None\<rparr>)) A"
    using r by (intro open_refines) (auto simp: sse_refines_def handlers_for_def)
  then show ?thesis using r by (simp add: Restart restartSSE_def)
next
  case (Connection up)
  assume "sse_refines s A"
  then show ?thesis by (auto simp: Connection sse_connection_def sse_refines_def handlers_for_def buildUrl_def)
qed

lemma sse_run_refines: "sse_refines s A \<Longrightarrow> sse_refines (fold sse_do ops s) (fold subs_do ops A)"
  by (induction ops arbitrary: s A) (simp_all add: sse_step_refines)

lemma init_refines: "sse_refines init_sse {}"
  by (simp add: sse_refines_def init_sse_def handlers_for_def jm_get_def)

lemma message_handlers:
  assumes "jm_ok m"
  shows "concat (map snd (filter (\<lambda>(k, _). JStr k = JStr t) m)) = (case jm_get m t of None \<Rightarrow> [] | Some hs \<Rightarrow> hs)"
proof -
  have none: "filter (\<lambda>(k, _). k = t) m = []" if "t \<notin> fst ` set m" for m :: "(string, handler list) jsmap"
    using that by (force simp: filter_empty_conv)
  show ?thesis
    using assms
  proof (induction m)
    case (Cons p m)
    then show ?case
      by (cases "t = fst p") (auto simp: jm_ok_def jm_get_def none map_of_eq_None_iff [THEN iffD2] split: prod.splits)
  qed (simp add: jm_get_def)
qed



end
