(* ===== verification/MotecLog.thy ===== *)
theory MotecLog
  imports JsonValue
begin

text \<open>
  Logged channels and their resampling, \<^verbatim>\<open>viewer_tool/src/lib/motec/datalog.ts\<close>.

  Times are exact rationals (seconds from the start of the log), values are JavaScript numbers, since a
  database column may hold a \<^verbatim>\<open>NaN\<close>. A log maps the key of a channel to the channel, in insertion order.
\<close>

record sample =
  s_t :: rat
  s_value :: jsnum

record chan =
  ch_name :: string
  ch_unit :: string
  ch_quantity :: string
  samples :: "sample list"

record data_log =
  log_name :: string
  channels :: "(string, chan) jsmap"
  log_metadata :: "(string, string) jsmap"

definition ch_start :: "chan \<Rightarrow> rat" where
  "ch_start c = (case samples c of [] \<Rightarrow> 0 | s # _ \<Rightarrow> s_t s)"

definition ch_end :: "chan \<Rightarrow> rat" where
  "ch_end c = (if samples c = [] then 0 else s_t (last (samples c)))"

definition averageFrequency :: "chan \<Rightarrow> rat" where
  "averageFrequency c = (if length (samples c) < 2 \<or> ch_end c \<le> ch_start c then 0
     else (of_nat (length (samples c)) - 1) / (ch_end c - ch_start c))"

definition extract_range :: "rat \<Rightarrow> rat \<Rightarrow> bool \<Rightarrow> chan \<Rightarrow> chan" where
  "extract_range start stop rebase c =
     (let off = if rebase then start else 0
      in c\<lparr>samples := map (\<lambda>s. s\<lparr>s_t := s_t s - off\<rparr>)
            (filter (\<lambda>s. s_t s \<ge> start \<and> s_t s \<le> stop \<and> js_finite (s_value s)) (samples c))\<rparr>)"

lemma sorted_last_ge: "sorted (map f xs) \<Longrightarrow> x \<in> set xs \<Longrightarrow> (f x :: rat) \<le> f (last xs)"
  by (induction xs) auto

subsection \<open>Resampling\<close>

definition target_hz :: "rat option \<Rightarrow> chan \<Rightarrow> rat" where
  "target_hz f c = (case f of
       Some h \<Rightarrow> if h \<noteq> 0 then h else max 1 (of_int (rat_round (if averageFrequency c = 0 then 20 else averageFrequency c)))
     | None \<Rightarrow> max 1 (of_int (rat_round (if averageFrequency c = 0 then 20 else averageFrequency c))))"

definition sample_count :: "rat \<Rightarrow> rat \<Rightarrow> rat \<Rightarrow> nat" where
  "sample_count start stop hz = nat (max 1 (\<lfloor>(stop - start) * hz\<rfloor> + 1))"

definition sample_time :: "rat \<Rightarrow> rat \<Rightarrow> rat \<Rightarrow> nat \<Rightarrow> rat" where
  "sample_time start stop hz n = min stop (start + of_nat n * (1 / hz))"

definition lerp :: "sample \<Rightarrow> sample \<Rightarrow> rat \<Rightarrow> jsnum" where
  "lerp a b t = (if s_t b \<le> s_t a then s_value a
     else s_value a + (s_value b - s_value a) * JFin ((t - s_t a) / (s_t b - s_t a)))"

text \<open>The \<^verbatim>\<open>while\<close> loop that moves the index.\<close>

function advance :: "sample list \<Rightarrow> rat \<Rightarrow> nat \<Rightarrow> nat" where
  "advance src t i = (if i + 1 < length src \<and> s_t (src ! (i + 1)) < t then advance src t (i + 1) else i)"
  by pat_completeness auto

termination by (relation "measure (\<lambda>(src, t, i). length src - i)") auto

declare advance.simps [simp del]

definition value_at :: "sample list \<Rightarrow> rat \<Rightarrow> nat \<Rightarrow> jsnum \<times> nat" where
  "value_at src t i =
     (if t \<le> s_t (hd src) then (s_value (hd src), i)
      else if t \<ge> s_t (last src) then (s_value (last src), i)
      else let j = advance src t i in (lerp (src ! j) (src ! (j + 1)) t, j))"

fun resample_from :: "sample list \<Rightarrow> rat list \<Rightarrow> nat \<Rightarrow> sample list" where
  "resample_from src [] i = []"
| "resample_from src (t # ts) i =
     (case value_at src t i of (v, j) \<Rightarrow> \<lparr>s_t = t, s_value = v\<rparr> # resample_from src ts j)"

definition resample :: "rat \<Rightarrow> rat \<Rightarrow> rat option \<Rightarrow> chan \<Rightarrow> chan" where
  "resample start stop f c =
     (if samples c = [] then c
      else let hz = target_hz f c in
        if hz \<le> 0 \<or> stop \<le> start then c
        else c\<lparr>samples := resample_from (samples c)
                 (map (sample_time start stop hz) [0..<sample_count start stop hz]) 0\<rparr>)"

definition log_channels :: "data_log \<Rightarrow> chan list" where
  "log_channels l = filter (\<lambda>c. samples c \<noteq> []) (map snd (channels l))"

definition log_start :: "data_log \<Rightarrow> rat" where
  "log_start l = (case log_channels l of [] \<Rightarrow> 0 | c # cs \<Rightarrow> foldl (\<lambda>m d. min m (ch_start d)) (ch_start c) cs)"

definition log_end :: "data_log \<Rightarrow> rat" where
  "log_end l = (case log_channels l of [] \<Rightarrow> 0 | c # cs \<Rightarrow> foldl (\<lambda>m d. max m (ch_end d)) (ch_end c) cs)"

definition log_resample :: "rat option \<Rightarrow> data_log \<Rightarrow> data_log" where
  "log_resample f l = l\<lparr>channels := map (\<lambda>(k, c). (k, resample (log_start l) (log_end l) f c)) (channels l)\<rparr>"

subsection \<open>The resampled channel\<close>

text \<open>The value of a time-ordered list of samples at a time, without an index.\<close>

definition last_before :: "sample list \<Rightarrow> rat \<Rightarrow> nat" where
  "last_before src t = length (takeWhile (\<lambda>s. s_t s < t) src) - 1"

definition interpolated :: "sample list \<Rightarrow> rat \<Rightarrow> jsnum" where
  "interpolated src t =
     (if t \<le> s_t (hd src) then s_value (hd src)
      else if t \<ge> s_t (last src) then s_value (last src)
      else lerp (src ! last_before src t) (src ! (last_before src t + 1)) t)"

lemma takeWhile_bound:
  assumes "sorted (map s_t src)" "i < length src"
  shows "s_t (src ! i) < t \<longleftrightarrow> i < length (takeWhile (\<lambda>s. s_t s < t) src)"
proof
  assume lt: "s_t (src ! i) < t"
  have "\<forall>s \<in> set (take (Suc i) src). s_t s < t"
  proof
    fix s assume "s \<in> set (take (Suc i) src)"
    then obtain j where j: "j \<le> i" "s = src ! j" using assms(2) by (auto simp: in_set_conv_nth less_Suc_eq_le)
    then have "s_t (src ! j) \<le> s_t (src ! i)"
      using sorted_nth_mono [OF assms(1), of j i] assms(2) by simp
    then show "s_t s < t" using lt j by simp
  qed
  then have "takeWhile (\<lambda>s. s_t s < t) (take (Suc i) src @ drop (Suc i) src) = take (Suc i) src @ takeWhile (\<lambda>s. s_t s < t) (drop (Suc i) src)"
    by (intro takeWhile_append2) auto
  then show "i < length (takeWhile (\<lambda>s. s_t s < t) src)" using assms(2) by simp
next
  assume i: "i < length (takeWhile (\<lambda>s. s_t s < t) src)"
  then have "src ! i = takeWhile (\<lambda>s. s_t s < t) src ! i" by (simp add: takeWhile_nth)
  then show "s_t (src ! i) < t" using nth_mem [OF i] set_takeWhileD by fastforce
qed

lemma advance_last_before:
  assumes "sorted (map s_t src)" "src \<noteq> []" "s_t (hd src) < t" "i \<le> last_before src t"
  shows "advance src t i = last_before src t"
  using assms(4)
proof (induction "last_before src t - i" arbitrary: i)
  case 0
  have "\<not> (i + 1 < length src \<and> s_t (src ! (i + 1)) < t)"
    using 0 takeWhile_bound [OF assms(1), of "i + 1" t] by (auto simp: last_before_def)
  then have "advance src t i = i" by (subst advance.simps) auto
  then show ?case using 0 by simp
next
  case (Suc k)
  then have "i + 1 \<le> last_before src t" by simp
  then have len: "i + 1 < length (takeWhile (\<lambda>s. s_t s < t) src)" by (simp add: last_before_def)
  then have "i + 1 < length src" using length_takeWhile_le le_trans less_le_trans by blast
  then have "s_t (src ! (i + 1)) < t" using len takeWhile_bound [OF assms(1)] by blast
  then show ?case using Suc \<open>i + 1 < length src\<close> by (simp add: advance.simps [of src t i])
qed

lemma last_before_mono: "t \<le> u \<Longrightarrow> last_before src t \<le> last_before src u"
proof -
  assume "t \<le> u"
  then have "length (takeWhile (\<lambda>s. s_t s < t) src) \<le> length (takeWhile (\<lambda>s. s_t s < u) src)"
    by (induction src) auto
  then show ?thesis by (simp add: last_before_def)
qed

lemma resample_from_eq:
  assumes "sorted (map s_t src)" "src \<noteq> []" "sorted ts" "\<forall>t \<in> set ts. s_t (hd src) < t \<longrightarrow> i \<le> last_before src t"
  shows "resample_from src ts i = map (\<lambda>t. \<lparr>s_t = t, s_value = interpolated src t\<rparr>) ts"
  using assms(3,4)
proof (induction ts arbitrary: i)
  case (Cons t ts)
  obtain v j where vj: "value_at src t i = (v, j)" by fastforce
  have "v = interpolated src t \<and> (\<forall>u \<in> set ts. s_t (hd src) < u \<longrightarrow> j \<le> last_before src u)"
  proof (cases "t \<le> s_t (hd src) \<or> t \<ge> s_t (last src)")
    case True
    then show ?thesis using vj Cons.prems by (auto simp: value_at_def interpolated_def split: if_splits)
  next
    case False
    then have "advance src t i = last_before src t"
      using Cons.prems assms(1,2) by (intro advance_last_before) auto
    moreover have "last_before src t \<le> last_before src u" if "u \<in> set ts" for u
      using that Cons.prems(1) by (intro last_before_mono) simp
    ultimately show ?thesis
      using vj False by (auto simp: value_at_def interpolated_def Let_def)
  qed
  then show ?case using vj Cons by simp
qed simp

lemma sorted_times:
  assumes "0 < hz"
  shows "sorted (map (sample_time start stop hz) [0..<n])"
proof -
  have "mono (sample_time start stop hz)"
    using assms by (intro monoI) (auto simp: sample_time_def divide_right_mono min_le_iff_disj)
  then show ?thesis by (simp add: sorted_map sorted_wrt_iff_nth_less mono_def less_imp_le)
qed

lemma sample_time_range:
  "0 < hz \<Longrightarrow> start < stop \<Longrightarrow> start \<le> sample_time start stop hz n \<and> sample_time start stop hz n \<le> stop"
  by (simp add: sample_time_def)

text \<open>C31: Resampling. The index that moves along with the output never loses its place: a channel in time order
  is replaced by its values at the sample times of the target rate, each interpolated from the two samples around
  it, and all of these times lie in the log.\<close>

theorem resample_interpolates:
  assumes "sorted (map s_t (samples c))" "samples c \<noteq> []" "0 < target_hz f c" "start < stop"
  shows "samples (resample start stop f c)
       = map (\<lambda>n. let t = sample_time start stop (target_hz f c) n in \<lparr>s_t = t, s_value = interpolated (samples c) t\<rparr>)
           [0..<sample_count start stop (target_hz f c)]
     \<and> list_all (\<lambda>s. start \<le> s_t s \<and> s_t s \<le> stop) (samples (resample start stop f c))"
proof -
  have "samples (resample start stop f c) = resample_from (samples c)
      (map (sample_time start stop (target_hz f c)) [0..<sample_count start stop (target_hz f c)]) 0"
    using assms by (simp add: resample_def Let_def)
  also have "\<dots> = map (\<lambda>t. \<lparr>s_t = t, s_value = interpolated (samples c) t\<rparr>)
      (map (sample_time start stop (target_hz f c)) [0..<sample_count start stop (target_hz f c)])"
    using assms sorted_times by (intro resample_from_eq) auto
  finally show ?thesis
    using assms sample_time_range by (simp add: Let_def comp_def list_all_iff)
qed

definition ramp :: chan where
  "ramp = \<lparr>ch_name = ''Speed'', ch_unit = ''mph'', ch_quantity = ''speed'',
     samples = [\<lparr>s_t = 0, s_value = JFin 0\<rparr>, \<lparr>s_t = 1, s_value = JFin 10\<rparr>, \<lparr>s_t = 3, s_value = JFin 20\<rparr>]\<rparr>"

theorem resample_interpolates_witness:
  "map s_value (samples (resample 0 3 (Some 1) ramp)) = [JFin 0, JFin 10, JFin 15, JFin 20]"
  using resample_interpolates [of ramp "Some 1" 0 3]
  by (simp add: ramp_def target_hz_def sample_count_def sample_time_def interpolated_def last_before_def lerp_def Let_def
      upt_rec numeral_eq_Suc plus_jsnum.simps)

text \<open>A sample of the source keeps its value.\<close>

lemma interpolated_at_sample:
  assumes "sorted_wrt (<) (map s_t src)" "i < length src" "list_all (\<lambda>s. js_finite (s_value s)) src"
  shows "interpolated src (s_t (src ! i)) = s_value (src ! i)"
proof -
  have s: "sorted (map s_t src)" using assms(1) by (simp add: strict_sorted_iff)
  have mono: "s_t (src ! j) < s_t (src ! k)" if "j < k" "k < length src" for j k
    using assms(1) that by (simp add: sorted_wrt_map sorted_wrt_iff_nth_less)
  show ?thesis
  proof (cases "i = 0 \<or> i = length src - 1")
    case True
    then show ?thesis
      using assms(2) mono [of 0 i] by (cases src) (auto simp: interpolated_def last_conv_nth)
  next
    case False
    have n: "length (takeWhile (\<lambda>s. s_t s < s_t (src ! i)) src) = i"
    proof (rule antisym)
      show "length (takeWhile (\<lambda>s. s_t s < s_t (src ! i)) src) \<le> i"
        using takeWhile_bound [OF s assms(2), of "s_t (src ! i)"] by simp
      show "i \<le> length (takeWhile (\<lambda>s. s_t s < s_t (src ! i)) src)"
        using takeWhile_bound [OF s, of "i - 1" "s_t (src ! i)"] mono [of "i - 1" i] False assms(2) by simp
    qed
    have ne: "src \<noteq> []" using assms(2) by auto
    have "s_t (src ! 0) < s_t (src ! i)" "s_t (src ! i) < s_t (src ! (length src - 1))"
      using False assms(2) by (auto intro!: mono)
    then have "s_t (hd src) < s_t (src ! i)" "s_t (src ! i) < s_t (last src)"
      by (simp_all add: hd_conv_nth [OF ne] last_conv_nth [OF ne])
    moreover obtain a b where "s_value (src ! (i - 1)) = JFin a" "s_value (src ! i) = JFin b"
      using assms(2,3) by (metis js_finite_iff less_imp_diff_less list_all_length)
    ultimately show ?thesis
      using mono [of "i - 1" i] False assms(2) by (simp add: interpolated_def last_before_def n lerp_def)
  qed
qed

lemma resampled_times:
  "samples c \<noteq> [] \<Longrightarrow> 0 < h \<Longrightarrow> start < stop \<Longrightarrow>
   map s_t (samples (resample start stop (Some h) c)) = map (sample_time start stop h) [0..<sample_count start stop h]"
proof -
  have "map s_t (resample_from src ts i) = ts" for src ts i
    by (induction ts arbitrary: i) (auto split: prod.splits)
  then show "samples c \<noteq> [] \<Longrightarrow> 0 < h \<Longrightarrow> start < stop \<Longrightarrow> ?thesis" by (simp add: resample_def target_hz_def)
qed

text \<open>With a frequency, every channel of a resampled log has the same clock.\<close>

lemma resampled_clock:
  assumes "0 < h" "log_start l < log_end l" "c \<in> set (log_channels (log_resample (Some h) l))"
  shows "map s_t (samples c) = map (sample_time (log_start l) (log_end l) h) [0..<sample_count (log_start l) (log_end l) h]"
proof -
  obtain d where d: "c = resample (log_start l) (log_end l) (Some h) d" "samples c \<noteq> []"
    using assms(3) by (auto simp: log_channels_def log_resample_def)
  then have "samples d \<noteq> []" by (auto simp: resample_def)
  then show ?thesis using resampled_times assms(1,2) d by blast
qed

end
