(* ===== verification/MotecStores.thy ===== *)
theory MotecStores
  imports MotecLog "HOL-Library.List_Lexorder" "HOL-Library.Char_ord"
begin

text \<open>
  The channel registry, the settings and the JSON document stores of the exporter:
  \<^verbatim>\<open>viewer_tool/src/lib/motec/channels.ts\<close>, \<^verbatim>\<open>config.ts\<close> and \<^verbatim>\<open>stores.ts\<close>.

  A directory of documents maps the stem of a \<^verbatim>\<open>.json\<close> file to its parsed content, \<open>None\<close> when the file does
  not parse. The two stores differ in their fallback slug only.
\<close>

subsection \<open>Channels\<close>

record channel_def =
  cd_key :: string
  cd_label :: string
  cd_table :: string
  cd_column :: string
  cd_unit :: string
  cd_quantity :: string
  cd_default :: bool
  cd_split :: bool

definition chan_def :: "string \<Rightarrow> string \<Rightarrow> string \<Rightarrow> string \<Rightarrow> string \<Rightarrow> string \<Rightarrow> bool \<Rightarrow> bool \<Rightarrow> channel_def" where
  "chan_def k l t c u q d s = \<lparr>cd_key = k, cd_label = l, cd_table = t, cd_column = c, cd_unit = u, cd_quantity = q,
     cd_default = d, cd_split = s\<rparr>"

definition ORION_CHANNELS :: "channel_def list" where
  "ORION_CHANNELS = [
     chan_def ''motor_rpm'' ''Motor RPM'' ''controls'' ''motor_speed'' ''rpm'' ''speed'' True True,
     chan_def ''rpm_request'' ''RPM Request'' ''controls'' ''rpm_request'' ''rpm'' ''speed'' False True,
     chan_def ''wheel_speed'' ''Wheel Speed'' ''dynamics'' ''wheel_speed'' ''rad/s'' ''speed'' False True,
     chan_def ''gps_speed'' ''GPS Speed'' ''dynamics'' ''gps_speed'' ''m/s'' ''speed'' False True,
     chan_def ''gps_latitude'' ''GPS Latitude'' ''dynamics'' ''gps[1]'' ''deg'' ''position'' False False,
     chan_def ''gps_longitude'' ''GPS Longitude'' ''dynamics'' ''gps[2]'' ''deg'' ''position'' False False,
     chan_def ''apps1_travel'' ''APPS 1 Travel'' ''controls'' ''apps1_travel'' ''%'' ''position'' False False,
     chan_def ''apps2_travel'' ''APPS 2 Travel'' ''controls'' ''apps2_travel'' ''%'' ''position'' False False,
     chan_def ''brake_pressure_f'' ''Brake Pressure Front'' ''controls'' ''brake_pressure_f'' ''psi'' ''pressure'' False False,
     chan_def ''torque_request'' ''Torque Request'' ''controls'' ''torque_request'' ''Nm'' ''torque'' False False,
     chan_def ''torque_feedback'' ''Torque Feedback'' ''controls'' ''torque_feedback'' ''Nm'' ''torque'' False False,
     chan_def ''commanded_torque'' ''Commanded Torque'' ''controls'' ''commanded_torque'' ''Nm'' ''torque'' False False,
     chan_def ''steer_col_angle'' ''Steering Column Angle'' ''dynamics'' ''steer_col_angle'' ''deg'' ''angle'' False False,
     chan_def ''flw_speed'' ''Front Left Wheel Speed'' ''dynamics'' ''flw_speed'' ''rad/s'' ''speed'' False False,
     chan_def ''frw_speed'' ''Front Right Wheel Speed'' ''dynamics'' ''frw_speed'' ''rad/s'' ''speed'' False False,
     chan_def ''blw_speed'' ''Back Left Wheel Speed'' ''dynamics'' ''blw_speed'' ''rad/s'' ''speed'' False False,
     chan_def ''brw_speed'' ''Back Right Wheel Speed'' ''dynamics'' ''brw_speed'' ''rad/s'' ''speed'' False False,
     chan_def ''hv_pack_v'' ''HV Pack Voltage'' ''pack'' ''hv_pack_v'' ''V'' ''voltage'' False False,
     chan_def ''hv_c'' ''HV Current'' ''pack'' ''hv_c'' ''A'' ''current'' False False,
     chan_def ''hv_soc'' ''HV State of Charge'' ''pack'' ''hv_soc'' ''%'' ''ratio'' False False,
     chan_def ''dc_bus_v'' ''DC Bus Voltage'' ''pack'' ''dc_bus_v'' ''V'' ''voltage'' False False,
     chan_def ''dc_bus_current'' ''DC Bus Current'' ''pack'' ''dc_bus_current'' ''A'' ''current'' False False,
     chan_def ''motor_temp'' ''Motor Temp'' ''thermal'' ''motor_temp'' ''C'' ''temperature'' False False,
     chan_def ''inverter_temp'' ''Inverter Temp'' ''thermal'' ''inverter_temp'' ''C'' ''temperature'' False False,
     chan_def ''coolant_temp'' ''Coolant Temp'' ''thermal'' ''coolant_temp'' ''C'' ''temperature'' False False,
     chan_def ''ambient_temp'' ''Ambient Temp'' ''thermal'' ''ambient_temp'' ''C'' ''temperature'' False False
  ]"

definition channel_lookup :: "channel_def list \<Rightarrow> (string, channel_def) jsmap" where
  "channel_lookup cs = fold (\<lambda>c m. jm_set (cd_key c) c m) cs []"

definition DEFAULT_CHANNEL_KEY :: string where
  "DEFAULT_CHANNEL_KEY = cd_key (the (List.find cd_default ORION_CHANNELS))"

definition getChannel :: "channel_def list \<Rightarrow> string option \<Rightarrow> js_error + channel_def" where
  "getChannel cs key = (let k = (case key of Some (c # s) \<Rightarrow> c # s | _ \<Rightarrow> DEFAULT_CHANNEL_KEY) in
     case jm_get (channel_lookup cs) k of
       Some d \<Rightarrow> Inr d
     | None \<Rightarrow> Inl (Thrown (''Unknown telemetry channel: '' @ (case key of Some s \<Rightarrow> s | None \<Rightarrow> ''null''))))"

subsection \<open>Settings\<close>

type_synonym env = "string \<Rightarrow> string option"

record settings =
  telemetrySource :: string
  dbHost :: string
  dbPort :: rat
  dbName :: string
  dbUser :: string
  dbPassword :: string
  dbSslmode :: string
  dbConnectTimeout :: rat
  exportDir :: string
  trackDir :: string
  channelChartDir :: string
  displayTimezone :: string
  maxPreviewPoints :: rat
  maxPreviewSeconds :: rat
  maxAutoSplitSeconds :: rat
  maxExportSeconds :: rat
  usePostgres :: bool

definition envNum :: "env \<Rightarrow> string \<Rightarrow> rat \<Rightarrow> rat" where
  "envNum env name fallback = (case map_option text_number (env name) of
       Some (JFin r) \<Rightarrow> if r > 0 then r else fallback
     | _ \<Rightarrow> fallback)"

definition env_text :: "env \<Rightarrow> string \<Rightarrow> string \<Rightarrow> string" where
  "env_text env name fallback = (case env name of Some (c # s) \<Rightarrow> c # s | _ \<Rightarrow> fallback)"

definition baseSettings :: "env \<Rightarrow> string \<Rightarrow> settings" where
  "baseSettings env cwd = (let src = lower (trim (env_text env ''TELEMETRY_SOURCE'' ''sample'')) in
     \<lparr>telemetrySource = src,
      dbHost = env_text env ''ORION_DB_HOST'' ''192.168.1.109'',
      dbPort = envNum env ''ORION_DB_PORT'' 5432,
      dbName = env_text env ''ORION_DB_NAME'' ''orion'',
      dbUser = env_text env ''ORION_DB_USER'' ''analysis'',
      dbPassword = env_text env ''ORION_DB_PASSWORD'' [],
      dbSslmode = env_text env ''ORION_DB_SSLMODE'' ''disable'',
      dbConnectTimeout = envNum env ''ORION_DB_CONNECT_TIMEOUT'' 5,
      exportDir = env_text env ''EXPORT_DIR'' (cwd @ ''/exports''),
      trackDir = env_text env ''TRACK_DIR'' (cwd @ ''/tracks''),
      channelChartDir = env_text env ''CHANNEL_CHART_DIR'' (cwd @ ''/channel_charts''),
      displayTimezone = env_text env ''DISPLAY_TIMEZONE'' ''America/Chicago'',
      maxPreviewPoints = envNum env ''MAX_PREVIEW_POINTS'' 5000,
      maxPreviewSeconds = envNum env ''MAX_PREVIEW_SECONDS'' 7200,
      maxAutoSplitSeconds = envNum env ''MAX_AUTO_SPLIT_SECONDS'' 1800,
      maxExportSeconds = envNum env ''MAX_EXPORT_SECONDS'' 1800,
      usePostgres = (src = ''postgres'')\<rparr>)"

definition getSettings :: "env \<Rightarrow> string \<Rightarrow> string option \<Rightarrow> js_error + settings" where
  "getSettings env cwd src =
     (let s = baseSettings env cwd; n = lower (trim (case src of Some (c # t) \<Rightarrow> c # t | _ \<Rightarrow> ''orion'')) in
      if n \<noteq> ''orion'' \<and> n \<noteq> ''angelique''
        then Inl (Thrown (''Unknown telemetry source: '' @ (case src of Some t \<Rightarrow> t | None \<Rightarrow> ''null'')))
      else if n = ''angelique'' then Inr (s\<lparr>
          dbHost := env_text env ''ANGELIQUE_DB_HOST'' (dbHost s),
          dbPort := envNum env ''ANGELIQUE_DB_PORT'' (dbPort s),
          dbName := env_text env ''ANGELIQUE_DB_NAME'' ''angelique'',
          dbUser := env_text env ''ANGELIQUE_DB_USER'' (dbUser s),
          dbPassword := env_text env ''ANGELIQUE_DB_PASSWORD'' (dbPassword s),
          dbSslmode := env_text env ''ANGELIQUE_DB_SSLMODE'' (dbSslmode s)\<rparr>)
      else Inr s)"

subsection \<open>Slugs and names\<close>

text \<open>\<^verbatim>\<open>s.replace(/[P]+/g, d)\<close>.\<close>

function collapse :: "(char \<Rightarrow> bool) \<Rightarrow> char \<Rightarrow> string \<Rightarrow> string" where
  "collapse P d [] = []"
| "collapse P d (c # s) = (if P c then d # collapse P d (dropWhile P s) else c # collapse P d s)"
  by pat_completeness auto

termination by (relation "measure (\<lambda>(P, d, s). length s)") (auto simp: length_dropWhile_le le_imp_less_Suc)

definition slug_letter :: "char \<Rightarrow> bool" where
  "slug_letter c \<longleftrightarrow> is_lower c \<or> is_digit c"

definition slugify :: "string \<Rightarrow> string \<Rightarrow> string" where
  "slugify v fallback =
     (let s = trim_chars (\<lambda>c. c = CHR ''-'') (collapse (\<lambda>c. \<not> slug_letter c) (CHR ''-'') (lower v))
      in if s = [] then fallback else s)"

definition normalizeChannelName :: "string \<Rightarrow> string" where
  "normalizeChannelName v = collapse is_space (CHR '' '') (lower (trim v))"

subsection \<open>Channel charts\<close>

record chart_entry =
  ce_name :: string
  ce_quantity :: string
  ce_unit :: string

definition chart_lookup :: "chart_entry list \<Rightarrow> (string, chart_entry) jsmap" where
  "chart_lookup es = fold (\<lambda>e m. jm_set (normalizeChannelName (ce_name e)) e m) (filter (\<lambda>e. trim (ce_name e) \<noteq> []) es) []"

definition chart_channel :: "chart_entry list \<Rightarrow> chan \<Rightarrow> chan" where
  "chart_channel es c = (case jm_get (chart_lookup es) (normalizeChannelName (ch_name c)) of
       None \<Rightarrow> c
     | Some e \<Rightarrow> c\<lparr>ch_quantity := (if ce_quantity e = [] then ch_quantity c else ce_quantity e),
                    ch_unit := (if ce_unit e = [] then ch_unit c else ce_unit e)\<rparr>)"

definition applyChannelChart :: "data_log \<Rightarrow> chart_entry list option \<Rightarrow> data_log \<times> nat" where
  "applyChannelChart l chart = (case chart of
       None \<Rightarrow> (l, 0)
     | Some es \<Rightarrow> (l\<lparr>channels := map (\<lambda>(k, c). (k, chart_channel es c)) (channels l)\<rparr>,
         length (filter (\<lambda>(k, c). jm_get (chart_lookup es) (normalizeChannelName (ch_name c)) \<noteq> None) (channels l))))"

subsection \<open>Document stores\<close>

type_synonym doc_files = "(string, json option) jsmap"

definition store_load :: "string \<Rightarrow> string \<Rightarrow> doc_files \<Rightarrow> js_error + json" where
  "store_load fb slug files = (case jm_get files (slugify slug fb) of
       None \<Rightarrow> Inl (Thrown ''ENOENT'')
     | Some None \<Rightarrow> Inl (Thrown ''SyntaxError'')
     | Some (Some v) \<Rightarrow> Inr v)"

text \<open>The text a new slug is made from; a value that is not a string has no \<^verbatim>\<open>toLowerCase\<close>.\<close>

definition slug_source :: "json \<Rightarrow> js_error + string" where
  "slug_source doc = (let v = (if truthy (field doc ''slug'') then field doc ''slug'' else field doc ''name'') in
     if truthy v then (case v of JStr s \<Rightarrow> Inr s | _ \<Rightarrow> Inl TypeError) else Inr [])"

definition created_at :: "string \<Rightarrow> string \<Rightarrow> string \<Rightarrow> json \<Rightarrow> doc_files \<Rightarrow> json" where
  "created_at fb slug now doc files =
     (let own = field doc ''created_at'';
          c = (if truthy own then own else case store_load fb slug files of
                 Inr v \<Rightarrow> if nullish v then JStr now else field v ''created_at''
               | Inl _ \<Rightarrow> JStr now)
      in if truthy c then c else JStr now)"

definition store_save :: "string \<Rightarrow> string \<Rightarrow> (string, json) jsmap \<Rightarrow> doc_files \<Rightarrow> js_error + (doc_files \<times> json)" where
  "store_save fb now m files = (case slug_source (JObj m) of
       Inl e \<Rightarrow> Inl e
     | Inr s \<Rightarrow> let slug = slugify s fb;
           out = JObj (jm_set ''updated_at'' (JStr now) (jm_set ''created_at'' (created_at fb slug now (JObj m) files)
                        (jm_set ''slug'' (JStr slug) m)))
         in Inr (jm_set slug (Some (wire out)) files, out))"

fun load_each :: "string \<Rightarrow> string list \<Rightarrow> doc_files \<Rightarrow> js_error + json list" where
  "load_each fb [] files = Inr []"
| "load_each fb (k # ks) files = (case store_load fb k files of
       Inl e \<Rightarrow> Inl e
     | Inr v \<Rightarrow> (case load_each fb ks files of Inl e \<Rightarrow> Inl e | Inr vs \<Rightarrow> Inr (v # vs)))"

text \<open>The directory is sorted by file name, with the extension.\<close>

definition store_list :: "string \<Rightarrow> doc_files \<Rightarrow> js_error + json list" where
  "store_list fb files = load_each fb (sort_key (\<lambda>k. k @ ''.json'') (jm_keys files)) files"

definition TrackStore_save where "TrackStore_save = store_save ''track''"
definition TrackStore_load where "TrackStore_load = store_load ''track''"
definition TrackStore_list where "TrackStore_list = store_list ''track''"
definition ChannelChartStore_save where "ChannelChartStore_save = store_save ''channel-chart''"
definition ChannelChartStore_load where "ChannelChartStore_load = store_load ''channel-chart''"
definition ChannelChartStore_list where "ChannelChartStore_list = store_list ''channel-chart''"

subsection \<open>Slugs are stable\<close>

lemma dropWhile_hd: "dropWhile P s = c # t \<Longrightarrow> \<not> P c"
  by (metis hd_dropWhile list.distinct(1) list.sel(1))

lemma collapse_chars: "set (collapse P d s) \<subseteq> {c \<in> set s. \<not> P c} \<union> {d}"
proof (induction P d s rule: collapse.induct)
  case (2 P d c s)
  show ?case
  proof (cases "P c")
    case True
    have "set (dropWhile P s) \<subseteq> set s" using set_dropWhileD by fast
    then have "set (collapse P d (dropWhile P s)) \<subseteq> {c \<in> set s. \<not> P c} \<union> {d}" using 2(1) [OF True] by blast
    then show ?thesis using True by auto
  next
    case False
    then show ?thesis using 2(2) by auto
  qed
qed simp

lemma collapse_id:
  "successively (\<lambda>a b. \<not> (a = d \<and> b = d)) s \<Longrightarrow> set s \<subseteq> {c. P c \<longrightarrow> c = d} \<Longrightarrow> collapse P d s = s"
proof (induction s)
  case (Cons c s)
  have succ: "successively (\<lambda>a b. \<not> (a = d \<and> b = d)) s" and sub: "set s \<subseteq> {c. P c \<longrightarrow> c = d}"
    and adj: "s \<noteq> [] \<Longrightarrow> \<not> (c = d \<and> hd s = d)"
    using Cons.prems by (auto simp only: successively_Cons successively.simps list.set insert_subset)
  from succ sub have t: "collapse P d s = s" by (rule Cons.IH)
  show ?case
  proof (cases "P c")
    case True
    then have c: "c = d" using Cons.prems(2) by simp
    have "dropWhile P s = s"
    proof (cases s)
      case (Cons b u)
      then have "\<not> P b" using adj c sub by auto
      then show ?thesis using Cons by simp
    qed simp
    then show ?thesis using True c t by simp
  qed (simp add: t)
qed simp

lemma collapse_successive: "P d \<Longrightarrow> successively (\<lambda>a b. \<not> (a = d \<and> b = d)) (collapse P d s)"
proof (induction P d s rule: collapse.induct)
  case (2 P d c s)
  show ?case
  proof (cases "P c")
    case True
    have "\<not> P (hd (collapse P d (dropWhile P s)))" if "collapse P d (dropWhile P s) \<noteq> []"
      using that by (cases "dropWhile P s") (auto dest: dropWhile_hd)
    then show ?thesis using True 2 by (auto simp: successively_Cons)
  next
    case False
    then show ?thesis using 2 by (auto simp: successively_Cons)
  qed
qed simp

lemma successively_dropWhile: "successively R s \<Longrightarrow> successively R (dropWhile P s)"
  by (induction s) (auto simp: successively_Cons)

lemma trim_chars_id: "s = [] \<or> \<not> P (hd s) \<and> \<not> P (last s) \<Longrightarrow> trim_chars P s = s"
proof -
  assume a: "s = [] \<or> \<not> P (hd s) \<and> \<not> P (last s)"
  have "dropWhile P s = s" if "\<not> P (hd s)" for s using that by (cases s) auto
  then show ?thesis using a by (auto simp: trim_chars_def trim_left_def trim_right_def hd_rev)
qed

lemma trim_chars_inner:
  assumes "trim_chars P s \<noteq> []"
  shows "\<not> P (hd (trim_chars P s))" "\<not> P (last (trim_chars P s))"
proof -
  let ?l = "dropWhile P s"
  have t: "trim_chars P s = rev (dropWhile P (rev ?l))" by (simp add: trim_chars_def trim_left_def trim_right_def)
  then have ne: "dropWhile P (rev ?l) \<noteq> []" using assms by auto
  then show "\<not> P (last (trim_chars P s))" unfolding t last_rev by (rule hd_dropWhile)
  have l: "?l \<noteq> []" using ne by (metis dropWhile.simps(1) rev.simps(1))
  obtain u where "rev ?l = u @ dropWhile P (rev ?l)" by (metis takeWhile_dropWhile_id)
  then have "?l = rev (dropWhile P (rev ?l)) @ rev u" by (metis rev_append rev_rev_ident)
  then have "hd ?l = hd (trim_chars P s)" using assms t by (metis hd_append2)
  then show "\<not> P (hd (trim_chars P s))" using hd_dropWhile [OF l] by simp
qed

lemma set_trim_chars: "set (trim_chars P s) \<subseteq> set s"
proof -
  have sub: "set (dropWhile P t) \<subseteq> set t" for t using set_dropWhileD by fast
  have "set (dropWhile P (rev (dropWhile P s))) \<subseteq> set (rev (dropWhile P s))" by (rule sub)
  also have "\<dots> = set (dropWhile P s)" by (rule set_rev)
  also have "\<dots> \<subseteq> set s" by (rule sub)
  finally show ?thesis unfolding trim_chars_def trim_left_def trim_right_def set_rev .
qed

definition slug_ok :: "string \<Rightarrow> bool" where
  "slug_ok s \<longleftrightarrow> s \<noteq> [] \<and> slug_letter (hd s) \<and> slug_letter (last s) \<and> list_all (\<lambda>c. slug_letter c \<or> c = CHR ''-'') s
     \<and> successively (\<lambda>a b. \<not> (a = CHR ''-'' \<and> b = CHR ''-'')) s"

lemma lower_slug: "list_all (\<lambda>c. slug_letter c \<or> c = CHR ''-'') s \<Longrightarrow> lower s = s"
proof -
  have "lower_char c = c" if "slug_letter c \<or> c = CHR ''-''" for c
    using that by (auto simp: lower_char_def slug_letter_def is_lower_def is_digit_def is_upper_def)
  then show "list_all (\<lambda>c. slug_letter c \<or> c = CHR ''-'') s \<Longrightarrow> lower s = s"
    by (simp add: lower_def list_all_iff map_idI)
qed

lemma slugify_ok: "slug_ok fb \<Longrightarrow> slug_ok (slugify v fb)"
proof (cases "trim_chars (\<lambda>c. c = CHR ''-'') (collapse (\<lambda>c. \<not> slug_letter c) (CHR ''-'') (lower v)) = []")
  case False
  let ?c = "collapse (\<lambda>c. \<not> slug_letter c) (CHR ''-'') (lower v)"
  let ?t = "trim_chars (\<lambda>c. c = CHR ''-'') ?c"
  have minus: "\<not> slug_letter (CHR ''-'')" by (simp add: slug_letter_def is_lower_def is_digit_def)
  have chars: "slug_letter c \<or> c = CHR ''-''" if "c \<in> set ?t" for c
    using that collapse_chars [of "\<lambda>c. \<not> slug_letter c" "CHR ''-''" "lower v"] set_trim_chars [of "\<lambda>c. c = CHR ''-''" ?c] by blast
  have "successively (\<lambda>a b. \<not> (a = CHR ''-'' \<and> b = CHR ''-'')) ?t"
    unfolding trim_chars_def trim_left_def trim_right_def successively_rev
    using successively_dropWhile [OF collapse_successive [of "\<lambda>c. \<not> slug_letter c" "CHR ''-''" "lower v", OF minus]]
    by (intro successively_dropWhile) (simp only: successively_rev conj_commute)
  moreover have "slug_letter (hd ?t)" "slug_letter (last ?t)"
    using chars [of "hd ?t"] chars [of "last ?t"] trim_chars_inner [OF False] False by auto
  ultimately have "slug_ok ?t" using False chars by (auto simp: slug_ok_def list_all_iff)
  then show ?thesis using False by (simp add: slugify_def Let_def)
qed (simp add: slugify_def)

lemma slugify_id: "slug_ok s \<Longrightarrow> slugify s fb = s"
proof -
  assume s: "slug_ok s"
  have minus: "\<not> slug_letter (CHR ''-'')" by (simp add: slug_letter_def is_lower_def is_digit_def)
  have "collapse (\<lambda>c. \<not> slug_letter c) (CHR ''-'') s = s"
  proof (rule collapse_id)
    show "successively (\<lambda>a b. \<not> (a = CHR ''-'' \<and> b = CHR ''-'')) s" using s by (simp add: slug_ok_def)
    have "slug_letter c \<or> c = CHR ''-''" if "c \<in> set s" for c using s that by (simp add: slug_ok_def list_all_iff)
    then show "set s \<subseteq> {c. \<not> slug_letter c \<longrightarrow> c = CHR ''-''}" by blast
  qed
  moreover have "trim_chars (\<lambda>c. c = CHR ''-'') s = s"
    using s minus by (intro trim_chars_id) (auto simp: slug_ok_def)
  ultimately show ?thesis
    using s lower_slug [of s] by (simp add: slugify_def slug_ok_def)
qed

text \<open>A stored document. Saving writes one file, named by the slug; loading by that slug returns what
  was written, and saving again without a creation time keeps the one of the file.\<close>

lemma store_save_load:
  assumes "slug_ok fb" "store_save fb now m files = Inr (files', out)"
  shows "\<exists>slug. field out ''slug'' = JStr slug \<and> slug_ok slug \<and> store_load fb slug files' = Inr (wire out)
     \<and> (\<forall>other. slugify other fb \<noteq> slug \<longrightarrow> store_load fb other files' = store_load fb other files)"
proof -
  obtain s where s: "slug_source (JObj m) = Inr s" using assms(2) by (auto simp: store_save_def split: sum.splits)
  let ?slug = "slugify s fb"
  have f: "files' = jm_set ?slug (Some (wire out)) files" and o: "field out ''slug'' = JStr ?slug"
    using assms(2) s by (auto simp: store_save_def Let_def field_JObj jm_get_set)
  have "slug_ok ?slug" using assms(1) by (rule slugify_ok)
  then show ?thesis using f o slugify_id [of ?slug fb] by (auto simp: store_load_def jm_get_set)
qed

end
