(* ===== verification/MotecSplit.thy ===== *)
theory MotecSplit
  imports MotecLog
begin

text \<open>
  Time ranges, the detection of motion, and gate crossings: \<^verbatim>\<open>viewer_tool/src/lib/motec/split.ts\<close>, and the
  range merging of \<^verbatim>\<open>telemetry.ts\<close>, which is the same but for its tolerance.

  The merging is proved once, for any tolerance, in the locale \<open>range_merger\<close>.
\<close>

subsection \<open>Merging ranges\<close>

type_synonym range = "rat \<times> rat"

text \<open>The loop keeps the merged ranges with the last one first.\<close>

fun merge_step :: "rat \<Rightarrow> range \<Rightarrow> range list \<Rightarrow> range list" where
  "merge_step tol (a, b) ((c, d) # rs) = (if a \<le> d + tol then (c, max d b) # rs else (a, b) # (c, d) # rs)"
| "merge_step tol (a, b) [] = [(a, b)]"

definition clean_ranges :: "range list \<Rightarrow> range list" where
  "clean_ranges rs = sort_key fst (filter (\<lambda>(a, b). b > a) rs)"

definition normalizeRanges :: "range list \<Rightarrow> range list" where
  "normalizeRanges rs = rev (fold (merge_step 0) (clean_ranges rs) [])"

definition mergeMsRanges :: "range list \<Rightarrow> range list" where
  "mergeMsRanges rs = rev (fold (merge_step 1) (clean_ranges rs) [])"

definition covers :: "range list \<Rightarrow> rat \<Rightarrow> bool" where
  "covers rs x \<longleftrightarrow> list_ex (\<lambda>(a, b). a \<le> x \<and> x \<le> b) rs"

text \<open>In order, with more than \<open>tol\<close> between any two.\<close>

definition separated :: "rat \<Rightarrow> range list \<Rightarrow> bool" where
  "separated tol rs \<longleftrightarrow> list_all (\<lambda>(a, b). a < b) rs \<and> sorted_wrt (\<lambda>r q. snd r + tol < fst q) rs"

lemma merge_step_starts: "fst ` set (merge_step tol (a, b) acc) \<subseteq> insert a (fst ` set acc)"
  by (cases acc) (auto split: if_splits)

locale range_merger =
  fixes tol :: rat and merge :: "range list \<Rightarrow> range list"
  assumes tol_nonneg: "0 \<le> tol"
    and merge_eq: "merge rs = rev (fold (merge_step tol) (clean_ranges rs) [])"
begin

lemma fold_separated:
  "separated tol (rev acc) \<Longrightarrow> sorted (map fst rs) \<Longrightarrow> list_all (\<lambda>(a, b). a < b) rs \<Longrightarrow>
   \<forall>r \<in> set acc. \<forall>q \<in> set rs. fst r \<le> fst q \<Longrightarrow> separated tol (rev (fold (merge_step tol) rs acc))"
proof (induction rs arbitrary: acc)
  case (Cons q rs)
  obtain a b where q: "q = (a, b)" by (cases q)
  have "separated tol (rev (merge_step tol q acc)) \<and> (\<forall>r \<in> set (merge_step tol q acc). \<forall>q \<in> set rs. fst r \<le> fst q)"
  proof (cases acc)
    case Nil
    then show ?thesis using Cons.prems q by (auto simp: separated_def)
  next
    case (Cons r acc')
    then show ?thesis
      using Cons.prems(1-4) tol_nonneg unfolding q
      by (cases r) (auto simp: separated_def sorted_wrt_append max_def; fastforce)
  qed
  then show ?case using Cons by simp
qed simp

lemma merge_separated: "separated tol (merge rs)"
  unfolding merge_eq
  by (rule fold_separated) (auto simp: separated_def clean_ranges_def list_all_iff)

lemma fold_covers:
  "sorted (map fst rs) \<Longrightarrow> \<forall>r \<in> set acc. \<forall>q \<in> set rs. fst r \<le> fst q \<Longrightarrow>
   list_all (\<lambda>(a, b). a < b) rs \<Longrightarrow> covers rs x \<or> covers acc x \<Longrightarrow> covers (fold (merge_step tol) rs acc) x"
proof (induction rs arbitrary: acc)
  case (Cons q rs)
  obtain a b where q: "q = (a, b)" by (cases q)
  have "covers rs x \<or> covers (merge_step tol q acc) x"
    using Cons.prems unfolding q by (cases acc) (auto simp: covers_def max_def split: if_splits)
  moreover have "\<forall>r \<in> set (merge_step tol q acc). \<forall>q \<in> set rs. fst r \<le> fst q"
  proof (intro ballI)
    fix r p assume "r \<in> set (merge_step tol q acc)" "p \<in> set rs"
    moreover then have "fst r = a \<or> (\<exists>r' \<in> set acc. fst r = fst r')"
      using merge_step_starts [of tol a b acc] q by blast
    ultimately show "fst r \<le> fst p" using Cons.prems(1,2) q by auto
  qed
  ultimately show ?case using Cons by simp
qed (simp add: covers_def)

lemma merge_covers: "covers (filter (\<lambda>(a, b). b > a) rs) x \<Longrightarrow> covers (merge rs) x"
  unfolding merge_eq
proof -
  assume "covers (filter (\<lambda>(a, b). b > a) rs) x"
  then have "covers (clean_ranges rs) x" by (simp add: covers_def clean_ranges_def list_ex_iff)
  then have "covers (fold (merge_step tol) (clean_ranges rs) []) x"
    by (intro fold_covers) (auto simp: clean_ranges_def list_all_iff)
  then show "covers (rev (fold (merge_step tol) (clean_ranges rs) [])) x" by (simp add: covers_def)
qed

text \<open>Nothing is invented: an end of a merged range is an end of a given one.\<close>

lemma merge_step_ends:
  assumes "\<forall>r \<in> set acc. fst r \<in> A \<and> snd r \<in> B" "a \<in> A" "b \<in> B"
  shows "\<forall>r \<in> set (merge_step tol (a, b) acc). fst r \<in> A \<and> snd r \<in> B"
proof (cases acc)
  case (Cons q qs)
  then have "max (snd q) b \<in> B" using assms by (simp add: max_def)
  then show ?thesis using Cons assms by (cases q) simp
qed (simp add: assms)

lemma fold_ends:
  "\<forall>r \<in> set acc. fst r \<in> A \<and> snd r \<in> B \<Longrightarrow> \<forall>r \<in> set rs. fst r \<in> A \<and> snd r \<in> B \<Longrightarrow>
   \<forall>r \<in> set (fold (merge_step tol) rs acc). fst r \<in> A \<and> snd r \<in> B"
proof (induction rs arbitrary: acc)
  case (Cons q rs)
  have "\<forall>r \<in> set (merge_step tol (fst q, snd q) acc). fst r \<in> A \<and> snd r \<in> B"
    by (rule merge_step_ends [OF Cons.prems(1)]; use Cons.prems(2) in simp)
  then have "\<forall>r \<in> set (merge_step tol q acc). fst r \<in> A \<and> snd r \<in> B"
    by (simp only: prod.collapse)
  moreover have "\<forall>r \<in> set rs. fst r \<in> A \<and> snd r \<in> B" using Cons.prems(2) by simp
  ultimately show ?case unfolding fold_simps by (rule Cons.IH)
qed simp

lemma merge_ends: "(a, b) \<in> set (merge rs) \<Longrightarrow> a \<in> fst ` set rs \<and> b \<in> snd ` set rs"
proof -
  assume r: "(a, b) \<in> set (merge rs)"
  have "\<forall>r \<in> set (clean_ranges rs). fst r \<in> fst ` set rs \<and> snd r \<in> snd ` set rs"
    by (simp add: clean_ranges_def)
  then have "\<forall>r \<in> set (fold (merge_step tol) (clean_ranges rs) []). fst r \<in> fst ` set rs \<and> snd r \<in> snd ` set rs"
    by (rule fold_ends [rotated]) simp
  then show ?thesis using r by (metis fst_conv merge_eq set_rev snd_conv)
qed

text \<open>Separated ranges are left alone.\<close>

lemma merge_id: "separated tol rs \<Longrightarrow> merge rs = rs"
proof -
  assume s: "separated tol rs"
  have "fst r \<le> fst q" if "r \<in> set rs" "snd r + tol < fst q" for r q
  proof -
    have "fst r < snd r" using s that(1) by (auto simp: separated_def list_all_iff)
    then show ?thesis using that(2) tol_nonneg by simp
  qed
  moreover have "sorted_wrt (\<lambda>r q. snd r + tol < fst q) rs" using s by (simp add: separated_def)
  ultimately have "sorted_wrt (\<lambda>r q. fst r \<le> fst q) rs" 
    using sorted_wrt_mono_rel [of rs "\<lambda>r q. snd r + tol < fst q" "\<lambda>r q. fst r \<le> fst q"] by blast
  then have "sort_key fst rs = rs" by (intro sort_key_id_if_sorted) (simp add: sorted_wrt_map)
  moreover have "filter (\<lambda>(a, b). b > a) rs = rs"
    using s by (simp add: separated_def list_all_iff filter_id_conv case_prod_beta)
  ultimately have "clean_ranges rs = rs" by (simp add: clean_ranges_def)
  moreover have "separated tol (rev acc @ xs) \<Longrightarrow> fold (merge_step tol) xs acc = rev xs @ acc" for xs acc
  proof (induction xs arbitrary: acc)
    case (Cons q xs)
    then have "merge_step tol q acc = q # acc"
      by (cases q; cases acc) (auto simp: separated_def sorted_wrt_append)
    then show ?case using Cons.IH [of "q # acc"] Cons.prems by simp
  qed simp
  ultimately show ?thesis using s merge_eq [of rs] by (metis append.right_neutral append_Nil rev.simps(1) rev_rev_ident)
qed

end

interpretation split_ranges: range_merger 0 normalizeRanges
  by unfold_locales (simp_all add: normalizeRanges_def)

interpretation ms_ranges: range_merger 1 mergeMsRanges
  by unfold_locales (simp_all add: mergeMsRanges_def)


subsection \<open>Detecting motion\<close>

datatype split_kind = KRpm | KState | KSpeed | KGeneric

definition splitMode :: "chan \<Rightarrow> split_kind" where
  "splitMode c = (let n = lower (ch_name c); u = lower (ch_unit c) in
     if str_includes ''rpm'' n \<or> u = ''rpm'' then KRpm
     else if str_includes ''state'' n \<or> u \<in> {''bool'', ''boolean'', ''state'', ''status''} then KState
     else if str_includes ''speed'' n \<or> u \<in> {''m/s'', ''mph'', ''kph'', ''km/h'', ''rad/s''} then KSpeed
     else KGeneric)"

definition motionThreshold :: "chan \<Rightarrow> jsnum" where
  "motionThreshold c =
     (if samples c = [] then JFin 0
      else let peak = js_max_list (map (\<lambda>s. js_abs (s_value s)) (samples c)); u = lower (ch_unit c) in
        if splitMode c = KState then JFin (1 / 2)
        else if splitMode c = KRpm then js_max (JFin 1200) (peak * JFin (8 / 100))
        else if u = ''mph'' then js_max (JFin 3) (peak * JFin (3 / 100))
        else js_max (JFin 1) (peak * JFin (3 / 100)))"

definition moving :: "chan \<Rightarrow> sample \<Rightarrow> bool" where
  "moving c s = (let m = js_abs (s_value s); th = motionThreshold c in
     if splitMode c = KState then m > th else m \<ge> th)"

definition detectActiveRange :: "chan \<Rightarrow> range option" where
  "detectActiveRange c =
     (if samples c = [] then None
      else let active = map s_t (filter (moving c) (samples c)) in
        if active = [] then Some (ch_start c, ch_end c) else Some (hd active, last active))"

record split_state =
  sp_ranges :: "range list"
  sp_start :: rat
  sp_gap :: "rat option"
  sp_prev :: "rat option"

definition long_gap :: "rat \<Rightarrow> rat \<Rightarrow> rat \<Rightarrow> rat \<Rightarrow> rat \<Rightarrow> bool" where
  "long_gap minGap minSeg gapStart gapEnd segStart \<longleftrightarrow> gapEnd - gapStart \<ge> minGap \<and> gapStart - segStart \<ge> minSeg"

definition split_sample :: "chan \<Rightarrow> rat \<Rightarrow> rat \<Rightarrow> sample \<Rightarrow> split_state \<Rightarrow> split_state" where
  "split_sample c minGap minSeg s st =
     (let before = (case sp_prev st of Some p \<Rightarrow> p | None \<Rightarrow> s_t s) in
      (case sp_gap st of
         None \<Rightarrow> if moving c s then st else st\<lparr>sp_gap := Some before\<rparr>
       | Some g \<Rightarrow> if \<not> moving c s then st
           else if long_gap minGap minSeg g before (sp_start st)
             then st\<lparr>sp_ranges := sp_ranges st @ [(sp_start st, g)], sp_start := s_t s, sp_gap := None\<rparr>
             else st\<lparr>sp_gap := None\<rparr>)\<lparr>sp_prev := Some (s_t s)\<rparr>)"

text \<open>The samples the loop looks at: those before the active range are skipped, the first one after it stops the loop.\<close>

definition split_scan :: "range \<Rightarrow> sample list \<Rightarrow> sample list" where
  "split_scan r ss = (case r of (a, b) \<Rightarrow>
     filter (\<lambda>s. \<not> s_t s < a) (takeWhile (\<lambda>s. s_t s < a \<or> \<not> s_t s > b) ss))"

definition close_split :: "rat \<Rightarrow> rat \<Rightarrow> rat \<Rightarrow> split_state \<Rightarrow> range list" where
  "close_split minGap minSeg activeEnd st =
     (let closing = (case (sp_gap st, sp_prev st) of
          (Some g, Some p) \<Rightarrow> if long_gap minGap minSeg g p (sp_start st) then Some g else None
        | _ \<Rightarrow> None)
      in case closing of
           Some g \<Rightarrow> sp_ranges st @ [(sp_start st, g)]
         | None \<Rightarrow> if activeEnd - sp_start st \<ge> minSeg then sp_ranges st @ [(sp_start st, activeEnd)] else sp_ranges st)"

definition detectSplitRanges :: "chan \<Rightarrow> rat \<Rightarrow> rat \<Rightarrow> range list" where
  "detectSplitRanges c minGap minSeg = (case detectActiveRange c of
       None \<Rightarrow> []
     | Some (activeStart, activeEnd) \<Rightarrow>
         let rs = close_split minGap minSeg activeEnd
               (fold (split_sample c minGap minSeg) (split_scan (activeStart, activeEnd) (samples c))
                  \<lparr>sp_ranges = [], sp_start = activeStart, sp_gap = None, sp_prev = None\<rparr>)
         in if rs = [] \<and> activeEnd > activeStart then [(activeStart, activeEnd)] else normalizeRanges rs)"

subsection \<open>What a split keeps\<close>

definition split_inv :: "chan \<Rightarrow> rat \<Rightarrow> rat \<Rightarrow> rat \<Rightarrow> sample list \<Rightarrow> split_state \<Rightarrow> bool" where
  "split_inv c minGap minSeg a xs st \<longleftrightarrow>
     list_all (\<lambda>r. minSeg \<le> snd r - fst r \<and> a \<le> fst r \<and> snd r + minGap \<le> sp_start st) (sp_ranges st)
     \<and> sorted_wrt (\<lambda>r q. snd r + minGap \<le> fst q) (sp_ranges st)
     \<and> (\<forall>s \<in> set xs. moving c s \<longrightarrow> covers (sp_ranges st) (s_t s)
          \<or> sp_start st \<le> s_t s \<and> (\<forall>g. sp_gap st = Some g \<longrightarrow> s_t s \<le> g))
     \<and> sp_prev st = (if xs = [] then None else Some (s_t (last xs)))
     \<and> a \<le> sp_start st \<and> (xs = [] \<longrightarrow> sp_start st = a) \<and> (xs \<noteq> [] \<longrightarrow> sp_start st \<le> s_t (last xs))
     \<and> (\<forall>g. sp_gap st = Some g \<longrightarrow> xs \<noteq> [] \<and> sp_start st \<le> g \<and> g \<le> s_t (last xs))"

lemma covers_snoc [simp]: "covers (rs @ [r]) x \<longleftrightarrow> covers rs x \<or> fst r \<le> x \<and> x \<le> snd r"
  by (cases r) (auto simp: covers_def)

lemma split_inv_step:
  assumes inv: "split_inv c minGap minSeg a xs st" and s: "sorted (map s_t (xs @ [s]))" "a \<le> s_t s"
    and pos: "0 < minGap" "0 < minSeg"
  shows "split_inv c minGap minSeg a (xs @ [s]) (split_sample c minGap minSeg s st)"
proof -
  let ?before = "case sp_prev st of Some p \<Rightarrow> p | None \<Rightarrow> s_t s"
  have le: "s_t x \<le> ?before" if "x \<in> set xs" for x
  proof -
    have "sorted (map s_t xs)" using s(1) by (simp add: sorted_append)
    from sorted_last_ge [OF this that] show ?thesis using inv that by (auto simp: split_inv_def)
  qed
  have before: "?before \<le> s_t s" "xs \<noteq> [] \<Longrightarrow> ?before = s_t (last xs)" "xs = [] \<Longrightarrow> ?before = s_t s"
    using inv s(1) by (auto simp: split_inv_def sorted_append)
  have start: "sp_start st \<le> ?before" using inv s(2) before by (cases "xs = []") (auto simp: split_inv_def)
  show ?thesis
  proof (cases "sp_gap st")
    case None
    then show ?thesis
      using inv before start le by (auto simp: split_inv_def split_sample_def Let_def)
  next
    case (Some g)
    show ?thesis
    proof (cases "moving c s \<and> long_gap minGap minSeg g ?before (sp_start st)")
      case True
      then have "g + minGap \<le> s_t s" "minSeg \<le> g - sp_start st"
        using before by (auto simp: long_gap_def)
      then show ?thesis
        using inv Some True pos before start
        by (auto simp: split_inv_def split_sample_def Let_def list_all_iff sorted_wrt_append)
    next
      case False
      then show ?thesis
        using inv Some before start
        by (auto simp: split_inv_def split_sample_def Let_def)
    qed
  qed
qed

lemma split_inv_fold:
  assumes "0 < minGap" "0 < minSeg"
  shows "split_inv c minGap minSeg a xs st \<Longrightarrow> sorted (map s_t (xs @ ys)) \<Longrightarrow> \<forall>s \<in> set ys. a \<le> s_t s \<Longrightarrow>
    split_inv c minGap minSeg a (xs @ ys) (fold (split_sample c minGap minSeg) ys st)"
proof (induction ys arbitrary: xs st)
  case (Cons y ys)
  have "split_inv c minGap minSeg a (xs @ [y]) (split_sample c minGap minSeg y st)"
    using Cons.prems assms by (intro split_inv_step) (auto simp: sorted_append)
  moreover have "sorted (map s_t ((xs @ [y]) @ ys))" "\<forall>s \<in> set ys. a \<le> s_t s" using Cons.prems by simp_all
  ultimately have "split_inv c minGap minSeg a ((xs @ [y]) @ ys) (fold (split_sample c minGap minSeg) ys (split_sample c minGap minSeg y st))"
    by (rule Cons.IH)
  then show ?case by simp
qed simp

lemma scan_range: "s \<in> set (split_scan (a, b) ss) \<Longrightarrow> a \<le> s_t s \<and> s_t s \<le> b"
  by (auto simp: split_scan_def dest: set_takeWhileD)

lemma scan_sorted: "sorted (map s_t ss) \<Longrightarrow> sorted (map s_t (split_scan (a, b) ss))"
  by (simp add: split_scan_def sorted_filter sorted_map sorted_wrt_filter sorted_wrt_takeWhile)

lemma scan_complete: "sorted (map s_t ss) \<Longrightarrow> s \<in> set ss \<Longrightarrow> a \<le> s_t s \<Longrightarrow> s_t s \<le> b \<Longrightarrow> s \<in> set (split_scan (a, b) ss)"
  by (induction ss) (auto simp: split_scan_def)

lemma active_range:
  assumes "sorted (map s_t (samples c))" "detectActiveRange c = Some (a, b)"
  shows "a \<le> b \<and> (\<forall>s \<in> set (samples c). moving c s \<longrightarrow> a \<le> s_t s \<and> s_t s \<le> b)"
proof (cases "filter (moving c) (samples c) = []")
  case True
  have "ch_start c \<le> ch_end c"
    using assms(1) sorted_last_ge [of s_t "samples c" "hd (samples c)"] by (cases "samples c") (auto simp: ch_start_def ch_end_def)
  then show ?thesis using True assms(2) by (auto simp: detectActiveRange_def filter_empty_conv split: if_splits)
next
  case False
  let ?m = "filter (moving c) (samples c)"
  have sm: "sorted (map s_t ?m)" using assms(1) by (simp add: sorted_map sorted_wrt_filter)
  have ab: "a = s_t (hd ?m)" "b = s_t (last ?m)"
    using assms(2) False by (auto simp: detectActiveRange_def Let_def hd_map last_map split: if_splits)
  have "s_t (hd ?m) \<le> s_t s" if "s \<in> set ?m" for s
    using that sm False by (cases ?m) auto
  then show ?thesis using sorted_last_ge [OF sm] False hd_in_set [OF False] unfolding ab by fastforce
qed

lemma close_split_sound:
  assumes inv: "split_inv c minGap minSeg a xs st" and xs: "\<forall>s \<in> set xs. s_t s \<le> b" "a \<le> b"
    and pos: "0 < minGap" "0 < minSeg"
  shows "list_all (\<lambda>r. minSeg \<le> snd r - fst r \<and> a \<le> fst r \<and> snd r \<le> b) (close_split minGap minSeg b st)
    \<and> sorted_wrt (\<lambda>r q. snd r + minGap \<le> fst q) (close_split minGap minSeg b st)
    \<and> (\<forall>s \<in> set xs. moving c s \<longrightarrow> covers (close_split minGap minSeg b st) (s_t s) \<or> b - s_t s < minSeg)"
proof -
  have "xs \<noteq> [] \<Longrightarrow> s_t (last xs) \<le> b" using xs(1) by simp
  moreover have "xs = [] \<longrightarrow> sp_start st = a" "xs \<noteq> [] \<longrightarrow> sp_start st \<le> s_t (last xs)" "a \<le> sp_start st"
    using inv by (simp_all add: split_inv_def)
  ultimately have start: "sp_start st \<le> b" "a \<le> sp_start st" using xs(2) by auto
  have old: "list_all (\<lambda>r. minSeg \<le> snd r - fst r \<and> a \<le> fst r \<and> snd r \<le> b) (sp_ranges st)"
    using inv start pos by (fastforce simp: split_inv_def list_all_iff)
  have gaps: "sorted_wrt (\<lambda>r q. snd r + minGap \<le> fst q) (sp_ranges st)"
    "\<forall>r \<in> set (sp_ranges st). snd r + minGap \<le> sp_start st"
    using inv by (auto simp: split_inv_def list_all_iff)
  have in_range: "sp_start st \<le> s_t s" "sp_gap st = Some g \<Longrightarrow> s_t s \<le> g"
    if "s \<in> set xs" "moving c s" "\<not> covers (sp_ranges st) (s_t s)" for s g
    using inv that by (auto simp: split_inv_def)
  have g: "g \<le> b" if "sp_gap st = Some g" for g
  proof -
    have "xs \<noteq> []" "g \<le> s_t (last xs)" using inv that by (auto simp: split_inv_def)
    then show ?thesis using xs(1) by (meson last_in_set order_trans)
  qed
  show ?thesis
  proof (cases "\<exists>g p. sp_gap st = Some g \<and> sp_prev st = Some p \<and> long_gap minGap minSeg g p (sp_start st)")
    case True
    then obtain g p where gp: "sp_gap st = Some g" "sp_prev st = Some p" "long_gap minGap minSeg g p (sp_start st)"
      by blast
    then have "close_split minGap minSeg b st = sp_ranges st @ [(sp_start st, g)]" by (simp add: close_split_def)
    then show ?thesis
      using old gaps in_range gp g start by (auto simp: long_gap_def sorted_wrt_append)
  next
    case False
    then have "close_split minGap minSeg b st
        = (if b - sp_start st \<ge> minSeg then sp_ranges st @ [(sp_start st, b)] else sp_ranges st)"
      by (auto simp: close_split_def split: option.splits)
    moreover have "b - s_t s < minSeg" if "s \<in> set xs" "moving c s" "\<not> covers (sp_ranges st) (s_t s)" "b - sp_start st < minSeg" for s
      using in_range(1) [OF that(1-3)] that(4) by simp
    ultimately show ?thesis
      using old gaps in_range(1) xs(1) start by (cases "b - sp_start st \<ge> minSeg") (auto simp: sorted_wrt_append)
  qed
qed

text \<open>C32: Splitting a run. For a channel in time order, the segments are in order and at least a minimal gap apart,
  lie in the active range and are no shorter than the minimum unless the whole active range is the one segment;
  every sample in motion lies in a segment, but for those of a last piece shorter than the minimum.\<close>

theorem split_ranges_sound:
  assumes "sorted (map s_t (samples c))" "0 < minGap" "0 < minSeg" "detectActiveRange c = Some (a, b)"
  shows "let rs = detectSplitRanges c minGap minSeg in
       (rs = [(a, b)] \<or> list_all (\<lambda>r. minSeg \<le> snd r - fst r) rs)
     \<and> list_all (\<lambda>r. a \<le> fst r \<and> snd r \<le> b) rs
     \<and> sorted_wrt (\<lambda>r q. snd r + minGap \<le> fst q) rs
     \<and> (\<forall>s \<in> set (samples c). moving c s \<longrightarrow> covers rs (s_t s) \<or> b - s_t s < minSeg)"
proof -
  let ?init = "\<lparr>sp_ranges = [], sp_start = a, sp_gap = None, sp_prev = None\<rparr>"
  let ?xs = "split_scan (a, b) (samples c)"
  let ?st = "fold (split_sample c minGap minSeg) ?xs ?init"
  let ?rs = "close_split minGap minSeg b ?st"
  have "split_inv c minGap minSeg a ([] @ ?xs) ?st"
    using assms(2,3) scan_sorted [OF assms(1)] scan_range
    by (intro split_inv_fold) (auto simp: split_inv_def)
  moreover note act = active_range [OF assms(1,4)]
  ultimately have ok: "list_all (\<lambda>r. minSeg \<le> snd r - fst r \<and> a \<le> fst r \<and> snd r \<le> b) ?rs"
      "sorted_wrt (\<lambda>r q. snd r + minGap \<le> fst q) ?rs"
      "\<forall>s \<in> set ?xs. moving c s \<longrightarrow> covers ?rs (s_t s) \<or> b - s_t s < minSeg"
    using close_split_sound [of c minGap minSeg a ?xs ?st b] scan_range assms(2,3) by simp_all
  have "sorted_wrt (\<lambda>r q. snd r + 0 < fst q) ?rs"
    by (rule sorted_wrt_mono_rel [OF _ ok(2)]) (use assms(2) in simp)
  then have "separated 0 ?rs"
    using ok(1) assms(3) by (auto simp: separated_def list_all_iff)
  then have "normalizeRanges ?rs = ?rs" by (rule split_ranges.merge_id)
  then have rs: "detectSplitRanges c minGap minSeg = (if ?rs = [] \<and> b > a then [(a, b)] else ?rs)"
    using assms(4) by (simp add: detectSplitRanges_def Let_def)
  have m: "s \<in> set ?xs" if "s \<in> set (samples c)" "moving c s" for s
    using that act scan_complete [OF assms(1)] by blast
  show ?thesis
  proof (cases "?rs = [] \<and> b > a")
    case True
    then show ?thesis using rs act by (auto simp: covers_def)
  next
    case False
    then show ?thesis using rs ok m by (auto simp: list_all_iff)
  qed
qed

definition short_run :: chan where
  "short_run = \<lparr>ch_name = ''v'', ch_unit = ''mph'', ch_quantity = [],
     samples = map (\<lambda>(t, v). \<lparr>s_t = t, s_value = JFin v\<rparr>) [(0, 10), (1, 10), (2, 0), (5, 0), (6, 10), (8, 10)]\<rparr>"

lemma short_run_threshold: "motionThreshold short_run = JFin 3" "splitMode short_run = KSpeed"
  by (simp_all add: motionThreshold_def splitMode_def short_run_def Let_def lower_def lower_char_def js_max_list_def js_max_def js_abs_def
      starts_with_def js_simps)

lemma short_run_moving: "moving short_run = (\<lambda>s. js_abs (s_value s) \<ge> JFin 3)"
  by (simp add: moving_def short_run_threshold fun_eq_iff)

lemma short_run_samples:
  "samples short_run = [\<lparr>s_t = 0, s_value = JFin 10\<rparr>, \<lparr>s_t = 1, s_value = JFin 10\<rparr>, \<lparr>s_t = 2, s_value = JFin 0\<rparr>,
     \<lparr>s_t = 5, s_value = JFin 0\<rparr>, \<lparr>s_t = 6, s_value = JFin 10\<rparr>, \<lparr>s_t = 8, s_value = JFin 10\<rparr>]"
  by (simp add: short_run_def)

theorem split_ranges_sound_witness:
  "sorted_wrt (\<lambda>r q. snd r + 2 \<le> fst q) (detectSplitRanges short_run 2 1)
   \<and> detectSplitRanges short_run 2 1 = [(0, 1), (6, 8)]"
proof
  have act: "detectActiveRange short_run = Some (0, 8)"
    by (simp add: detectActiveRange_def short_run_moving) (simp add: short_run_def js_abs_def)
  show "sorted_wrt (\<lambda>r q. snd r + 2 \<le> fst q) (detectSplitRanges short_run 2 1)"
    using split_ranges_sound [of short_run 2 1 0 8] act by (simp add: short_run_def Let_def)
  show "detectSplitRanges short_run 2 1 = [(0, 1), (6, 8)]"
    by (simp add: detectSplitRanges_def act split_scan_def split_sample_def short_run_moving short_run_samples Let_def js_abs_def
        close_split_def long_gap_def normalizeRanges_def clean_ranges_def)
qed

subsection \<open>Gate crossings\<close>

record gps_point =
  gp_t :: rat
  gp_lat :: rat
  gp_lon :: rat

record gate =
  g_id :: string
  g_a :: "rat \<times> rat"
  g_b :: "rat \<times> rat"
  g_start_finish :: bool

fun orientation :: "rat \<times> rat \<Rightarrow> rat \<times> rat \<Rightarrow> rat \<times> rat \<Rightarrow> rat" where
  "orientation (ax, ay) (bx, by') (cx, cy) = (by' - ay) * (cx - bx) - (bx - ax) * (cy - by')"

definition segmentsCross :: "rat \<times> rat \<Rightarrow> rat \<times> rat \<Rightarrow> rat \<times> rat \<Rightarrow> rat \<times> rat \<Rightarrow> bool" where
  "segmentsCross a b c d \<longleftrightarrow> orientation a b c * orientation a b d < 0 \<and> orientation c d a * orientation c d b < 0"

definition trace_point :: "gps_point \<Rightarrow> rat \<times> rat" where
  "trace_point p = (gp_lon p, gp_lat p)"

definition crosses :: "gps_point \<times> gps_point \<Rightarrow> gate \<Rightarrow> bool" where
  "crosses pq g = segmentsCross (trace_point (fst pq)) (trace_point (snd pq)) (g_a g) (g_b g)"

text \<open>Crossings of gates with the same id are collected together, in the order of the loops.\<close>

definition gateCrossingTimes :: "gps_point list \<Rightarrow> gate list \<Rightarrow> (string, rat list) jsmap" where
  "gateCrossingTimes ps gs =
     fold (\<lambda>(pq, g) m. if crosses pq g
              then jm_set (g_id g) ((case jm_get m (g_id g) of Some ts \<Rightarrow> ts | None \<Rightarrow> []) @ [gp_t (snd pq)]) m else m)
       (List.product (zip ps (tl ps)) gs)
       (fold (\<lambda>g m. jm_set (g_id g) [] m) gs [])"

end
