(* ===== verification/MotecTelemetry.thy ===== *)
theory MotecTelemetry
  imports MotecStores MotecSplit CarStatus
begin

text \<open>
  Days, sessions and segments of recorded telemetry, \<^verbatim>\<open>viewer_tool/src/lib/motec/telemetry.ts\<close>.

  The rows a query returns are arguments of the operations, and so is the offset of the display
  time zone at a time. Times are whole milliseconds.
\<close>

subsection \<open>Calendar dates\<close>

text \<open>\<^verbatim>\<open>Date.UTC\<close> of a month counted from 1, and the fields of a time, by the proleptic Gregorian calendar.\<close>

definition leap :: "int \<Rightarrow> bool" where
  "leap y \<longleftrightarrow> y mod 4 = 0 \<and> (y mod 100 \<noteq> 0 \<or> y mod 400 = 0)"

definition days_of_civil :: "int \<Rightarrow> int \<Rightarrow> int \<Rightarrow> int" where
  "days_of_civil y m d =
     (let y' = (if m \<le> 2 then y - 1 else y); era = y' div 400; yoe = y' mod 400;
          doy = (153 * (if m > 2 then m - 3 else m + 9) + 2) div 5 + d - 1;
          doe = yoe * 365 + yoe div 4 - yoe div 100 + doy
      in era * 146097 + doe - 719468)"

definition civil_of_days :: "int \<Rightarrow> int \<times> int \<times> int" where
  "civil_of_days z =
     (let z' = z + 719468; era = z' div 146097; doe = z' mod 146097;
          yoe = (doe - doe div 1460 + doe div 36524 - doe div 146096) div 365;
          doy = doe - (365 * yoe + yoe div 4 - yoe div 100);
          mp = (5 * doy + 2) div 153;
          d = doy - (153 * mp + 2) div 5 + 1;
          m = (if mp < 10 then mp + 3 else mp - 9);
          y = yoe + era * 400
      in (if m \<le> 2 then y + 1 else y, m, d))"

definition DAY_MS :: int where "DAY_MS = 86400000"

definition two_digits :: "int \<Rightarrow> string" where
  "two_digits n = pad_start 2 (CHR ''0'') (int_text n)"

definition iso_day :: "int \<Rightarrow> string" where
  "iso_day z = (case civil_of_days z of (y, m, d) \<Rightarrow>
     pad_start 4 (CHR ''0'') (int_text y) @ ''-'' @ two_digits m @ ''-'' @ two_digits d)"

type_synonym zone = "int \<Rightarrow> int"
  \<comment> \<open>the offset in milliseconds of local time at a time\<close>

text \<open>The day numbers of a date text: \<open>None\<close> when a part is not a number.\<close>

definition date_days :: "string \<Rightarrow> int option" where
  "date_days date = (case map text_number (split_on (CHR ''-'') date) of
       JFin y # JFin m # JFin d # _ \<Rightarrow> Some (days_of_civil \<lfloor>y\<rfloor> \<lfloor>m\<rfloor> \<lfloor>d\<rfloor>)
     | _ \<Rightarrow> None)"

definition localDayBoundsMs :: "zone \<Rightarrow> int \<Rightarrow> int \<times> int" where
  "localDayBoundsMs off day =
     (let naive = day * DAY_MS; start0 = naive - off naive; start = naive - off start0
      in (start, start + DAY_MS))"

definition localDay :: "zone \<Rightarrow> int \<Rightarrow> int" where
  "localDay off utc = (utc + off utc) div DAY_MS"

definition localDateOf :: "zone \<Rightarrow> int \<Rightarrow> string" where
  "localDateOf off utc = (case civil_of_days (localDay off utc) of (y, m, d) \<Rightarrow>
     int_text y @ ''-'' @ two_digits m @ ''-'' @ two_digits d)"

definition datesBetweenLocal :: "zone \<Rightarrow> int \<Rightarrow> int \<Rightarrow> int list" where
  "datesBetweenLocal off startMs endMs = [localDay off startMs .. localDay off (max startMs (endMs - 1))]"

definition dayLabel :: "string \<Rightarrow> nat \<Rightarrow> bool \<Rightarrow> string" where
  "dayLabel date n sessions = date @ '' ('' @ nat_text n @ '' '' @ (if sessions then ''session'' else ''source range'')
     @ (if n = 1 then [] else ''s'') @ '')''"

subsection \<open>Sessions of a day\<close>

definition ms_range :: "int \<times> int \<Rightarrow> range" where
  "ms_range r = (of_int (fst r), of_int (snd r))"

record session_summary =
  ss_id :: string
  ss_label :: string
  ss_start :: rat
  ss_end :: rat
  ss_duration :: rat
  ss_source :: string
  ss_preview_safe :: bool
  ss_warning :: "string option"

definition day_ranges :: "int \<times> int \<Rightarrow> (int \<times> int) list \<Rightarrow> range list" where
  "day_ranges day rows = mergeMsRanges (map (\<lambda>r. ms_range (max (fst r) (fst day), min (snd r) (snd day))) rows)"

definition session_of :: "rat \<Rightarrow> string \<Rightarrow> nat \<Rightarrow> range \<Rightarrow> session_summary" where
  "session_of maxPreview date i r =
     (let dur = (snd r - fst r) / 1000; safe = (dur > 0 \<and> dur \<le> maxPreview) in
      \<lparr>ss_id = date @ ''-'' @ nat_text (i + 1) @ ''-'' @ int_text \<lfloor>fst r\<rfloor> @ ''-'' @ int_text \<lfloor>snd r\<rfloor>,
       ss_label = ''Source range '' @ nat_text (i + 1), ss_start = fst r, ss_end = snd r,
       ss_duration = dur, ss_source = ''partition_day_window'', ss_preview_safe = safe,
       ss_warning = (if dur \<le> 0 then Some ''Zero-duration source range'' else if safe then None
         else Some ''Long source range; threshold sessions are generated from this local-day slice'')\<rparr>)"

definition sessionsForDay :: "settings \<Rightarrow> zone \<Rightarrow> string \<Rightarrow> int \<Rightarrow> (int \<times> int) list \<Rightarrow> session_summary list" where
  "sessionsForDay st off date day rows =
     (if \<not> usePostgres st then []
      else let rs = day_ranges (localDayBoundsMs off day) rows in
        map (\<lambda>i. session_of (maxPreviewSeconds st) date i (rs ! i))
          (filter (\<lambda>i. \<not> snd (rs ! i) \<le> fst (rs ! i)) [0..<length rs]))"

record drive_day =
  dd_date :: string
  dd_sessions :: nat
  dd_start :: rat
  dd_end :: rat
  dd_label :: string

text \<open>The source ranges of each local day, keyed by the day's number.\<close>

definition ranges_by_day :: "zone \<Rightarrow> (int \<times> int) list \<Rightarrow> (int, (int \<times> int) list) jsmap" where
  "ranges_by_day off rows = fold (\<lambda>r m. fold (\<lambda>day m.
       (let b = localDayBoundsMs off day; cs = max (fst r) (fst b); ce = min (snd r) (snd b) in
        if ce > cs then jm_set day ((case jm_get m day of Some xs \<Rightarrow> xs | None \<Rightarrow> []) @ [(cs, ce)]) m else m))
     (datesBetweenLocal off (fst r) (snd r)) m) rows []"

text \<open>\<open>counts\<close> are the sessions of each day when only valid days are wanted.\<close>

definition calendar_day :: "(string \<Rightarrow> nat) option \<Rightarrow> int \<times> (int \<times> int) list \<Rightarrow> drive_day option" where
  "calendar_day counts dr =
     (let rs = mergeMsRanges (map ms_range (snd dr)); date = iso_day (fst dr) in
      if rs = [] then None
      else case counts of
        Some c \<Rightarrow> if c date = 0 then None
          else Some \<lparr>dd_date = date, dd_sessions = c date, dd_start = Min (set (map fst rs)), dd_end = Max (set (map snd rs)),
                 dd_label = dayLabel date (c date) True\<rparr>
      | None \<Rightarrow> Some \<lparr>dd_date = date, dd_sessions = length rs, dd_start = Min (set (map fst rs)),
             dd_end = Max (set (map snd rs)), dd_label = dayLabel date (length rs) False\<rparr>)"

definition calendar :: "settings \<Rightarrow> zone \<Rightarrow> (string \<Rightarrow> nat) option \<Rightarrow> (int \<times> int) list \<Rightarrow> drive_day list" where
  "calendar st off counts rows =
     (if \<not> usePostgres st then []
      else take 180 (List.map_filter (calendar_day counts) (rev (sort_key fst (ranges_by_day off rows)))))"

subsection \<open>Threshold segments\<close>

type_synonym point = "int \<times> rat option"

definition is_active :: "rat \<Rightarrow> point \<Rightarrow> bool" where
  "is_active threshold p = (case snd p of Some v \<Rightarrow> v > threshold | None \<Rightarrow> False)"

record threshold_state =
  ts_segments :: "(int \<times> int) list"
  ts_active :: "int option"
  ts_last :: "int option"

definition push_segment :: "rat \<Rightarrow> int \<Rightarrow> int \<Rightarrow> (int \<times> int) list \<Rightarrow> (int \<times> int) list" where
  "push_segment minDur s e segs = (if e > s \<and> of_int (e - s) / 1000 \<ge> minDur then segs @ [(s, e)] else segs)"

definition threshold_point :: "int \<Rightarrow> int \<Rightarrow> rat \<Rightarrow> rat \<Rightarrow> point \<Rightarrow> threshold_state \<Rightarrow> threshold_state" where
  "threshold_point startMs endMs threshold minDur p st =
     (let active = is_active threshold p;
          st1 = (if active \<and> ts_active st = None then st\<lparr>ts_active := Some (max startMs (fst p))\<rparr> else st);
          st2 = (case ts_active st1 of
              Some a \<Rightarrow> if \<not> active then st1\<lparr>ts_segments := push_segment minDur a
                    (min endMs (case ts_last st1 of Some l \<Rightarrow> l | None \<Rightarrow> fst p)) (ts_segments st1), ts_active := None\<rparr> else st1
            | None \<Rightarrow> st1)
      in st2\<lparr>ts_last := Some (fst p)\<rparr>)"

definition threshold_ranges :: "int \<Rightarrow> int \<Rightarrow> rat \<Rightarrow> rat \<Rightarrow> point list \<Rightarrow> (int \<times> int) list" where
  "threshold_ranges startMs endMs threshold minDur ps =
     (let st = fold (threshold_point startMs endMs threshold minDur) ps \<lparr>ts_segments = [], ts_active = None, ts_last = None\<rparr> in
      case ts_active st of
        Some a \<Rightarrow> push_segment minDur a (min endMs (case ts_last st of Some l \<Rightarrow> l | None \<Rightarrow> endMs)) (ts_segments st)
      | None \<Rightarrow> ts_segments st)"

record segment_summary =
  sg_id :: string
  sg_label :: string
  sg_start :: int
  sg_end :: int
  sg_duration :: rat
  sg_channel :: string
  sg_has_gps :: bool
  sg_gps_points :: nat

definition segment_of :: "string \<Rightarrow> string \<Rightarrow> (nat \<Rightarrow> int \<Rightarrow> string) \<Rightarrow> nat \<Rightarrow> int \<times> int \<Rightarrow> segment_summary" where
  "segment_of channel label idOf i r = \<lparr>sg_id = idOf i (fst r), sg_label = label @ '' '' @ nat_text (i + 1),
     sg_start = fst r, sg_end = snd r, sg_duration = of_int (snd r - fst r) / 1000, sg_channel = channel, sg_has_gps = False, sg_gps_points = 0\<rparr>"

text \<open>The coverage query answers with pairs of an index and a count.\<close>

definition withGpsCoverage :: "(nat \<times> nat) list \<Rightarrow> segment_summary list \<Rightarrow> segment_summary list" where
  "withGpsCoverage rows segs =
     (let counts = fold (\<lambda>(i, n) m. jm_set i n m) rows [] in
      map (\<lambda>i. let n = (case jm_get counts i of Some n \<Rightarrow> n | None \<Rightarrow> 0) in
        (segs ! i)\<lparr>sg_has_gps := 0 < n, sg_gps_points := n\<rparr>) [0..<length segs])"

definition thresholdSegments :: "settings \<Rightarrow> channel_def \<Rightarrow> int \<Rightarrow> int \<Rightarrow> rat \<Rightarrow> rat \<Rightarrow> point list \<Rightarrow> (nat \<times> nat) list
    \<Rightarrow> segment_summary list" where
  "thresholdSegments st ch startMs endMs threshold minDur ps gpsRows =
     (if \<not> usePostgres st \<or> endMs \<le> startMs then []
      else let rs = threshold_ranges startMs endMs threshold minDur ps in
        withGpsCoverage gpsRows (map (\<lambda>i. segment_of (cd_key ch) ''Session''
          (\<lambda>i s. ''auto-'' @ cd_key ch @ ''-'' @ int_text s @ ''-'' @ nat_text (i + 1)) i (rs ! i)) [0..<length rs]))"

definition auto_ranges :: "int \<Rightarrow> int \<Rightarrow> channel_def \<Rightarrow> point list \<Rightarrow> (nat \<times> int \<times> int) list" where
  "auto_ranges startMs endMs ch ps =
     (let c = \<lparr>ch_name = cd_label ch, ch_unit = cd_unit ch, ch_quantity = cd_quantity ch,
                samples = map (\<lambda>(t, v). \<lparr>s_t = of_int (t - startMs) / 1000, s_value = JFin (case v of Some x \<Rightarrow> x | None \<Rightarrow> 0)\<rparr>) ps\<rparr>;
          rs = detectSplitRanges c 12 8
      in filter (\<lambda>(i, s, e). \<not> e \<le> s)
           (map (\<lambda>i. (i, max startMs (startMs + \<lfloor>fst (rs ! i) * 1000\<rfloor>), min endMs (startMs + \<lfloor>snd (rs ! i) * 1000\<rfloor>))) [0..<length rs]))"

definition autoSegments :: "settings \<Rightarrow> channel_def \<Rightarrow> string \<Rightarrow> int \<Rightarrow> int \<Rightarrow> point list \<Rightarrow> (nat \<times> nat) list \<Rightarrow> segment_summary list" where
  "autoSegments st ch key startMs endMs ps gpsRows =
     (if \<not> usePostgres st then []
      else withGpsCoverage gpsRows (map (\<lambda>(i, r). segment_of key ''Auto split''
          (\<lambda>i s. ''auto-'' @ int_text startMs @ ''-'' @ nat_text (i + 1)) i r) (auto_ranges startMs endMs ch ps)))"

text \<open>The detail of a day lists its sessions; segments are made only without the database, where there are no sessions.\<close>

definition dayDetail :: "settings \<Rightarrow> zone \<Rightarrow> (session_summary \<Rightarrow> segment_summary list) \<Rightarrow> string \<Rightarrow> int \<Rightarrow> (int \<times> int) list
    \<Rightarrow> session_summary list \<times> segment_summary list" where
  "dayDetail st off auto date day rows =
     (let ss = sessionsForDay st off date day rows in
      if usePostgres st then (ss, [])
      else (ss, concat (map auto (filter (\<lambda>s. ss_preview_safe s \<and> ss_duration s \<le> maxAutoSplitSeconds st) ss))))"

text \<open>The step of the averaging queries, in milliseconds.\<close>

definition step_ms :: "int \<Rightarrow> int \<Rightarrow> int \<Rightarrow> int" where
  "step_ms startMs endMs maxPoints = max 1 (max 1 (endMs - startMs) div max 1 maxPoints)"

definition gps :: "settings \<Rightarrow> (rat \<times> rat option \<times> rat option) list \<Rightarrow> gps_point list" where
  "gps st rows =
     (if \<not> usePostgres st then []
      else List.map_filter (\<lambda>(t, lat, lon). case (lat, lon) of
          (Some a, Some b) \<Rightarrow> Some \<lparr>gp_t = t, gp_lat = a, gp_lon = b\<rparr> | _ \<Rightarrow> None) rows)"

record status_segment =
  st_state :: string
  st_start :: int
  st_end :: "int option"
  st_faults :: "string list"

text \<open>The rows of the status query, or \<open>None\<close> when the query throws.\<close>

definition carStatusSegments :: "settings \<Rightarrow> (string \<times> int \<times> int option \<times> string option) list option \<Rightarrow> status_segment list" where
  "carStatusSegments st answer =
     (if \<not> usePostgres st then []
      else case answer of
        None \<Rightarrow> []
      | Some rows \<Rightarrow> map (\<lambda>(s, a, e, f). \<lparr>st_state = s, st_start = a, st_end = e,
            st_faults = (case f of Some t \<Rightarrow> if t = [] then [] else filter (\<lambda>x. x \<noteq> []) (split_on (CHR '','') t)
              | None \<Rightarrow> [])\<rparr>) rows)"

subsection \<open>Session counts by day\<close>

record count_state =
  cs_counts :: "(string, nat) jsmap"
  cs_active :: "(string, int) jsmap"
  cs_last :: "(string, int) jsmap"

definition count_if :: "rat \<Rightarrow> int \<Rightarrow> int \<Rightarrow> string \<Rightarrow> (string, nat) jsmap \<Rightarrow> (string, nat) jsmap" where
  "count_if minDur a l date m = (if of_int (l - a) / 1000 \<ge> minDur
     then jm_set date ((case jm_get m date of Some n \<Rightarrow> n | None \<Rightarrow> 0) + 1) m else m)"

definition count_row :: "rat \<Rightarrow> rat \<Rightarrow> string \<times> int \<Rightarrow> count_state \<Rightarrow> count_state" where
  "count_row gapMs minDur row st = (case (jm_get (cs_active st) (fst row), jm_get (cs_last st) (fst row)) of
       (Some a, Some l) \<Rightarrow>
         (if of_int (snd row - l) > gapMs
          then st\<lparr>cs_counts := count_if minDur a l (fst row) (cs_counts st), cs_active := jm_set (fst row) (snd row) (cs_active st)\<rparr>
          else st)\<lparr>cs_last := jm_set (fst row) (snd row) (cs_last st)\<rparr>
     | _ \<Rightarrow> st\<lparr>cs_active := jm_set (fst row) (snd row) (cs_active st), cs_last := jm_set (fst row) (snd row) (cs_last st)\<rparr>)"

definition thresholdSessionCountsByDate :: "rat \<Rightarrow> (string \<times> int) list \<Rightarrow> (string, nat) jsmap" where
  "thresholdSessionCountsByDate minDur rows =
     (let stepMs = 4320; gapMs = stepMs * (3 / 2);
          st = fold (count_row gapMs minDur) rows \<lparr>cs_counts = [], cs_active = [], cs_last = []\<rparr>
      in fold (\<lambda>(date, a) m. count_if minDur a (case jm_get (cs_last st) date of Some l \<Rightarrow> l | None \<Rightarrow> a) date m)
           (cs_active st) (cs_counts st))"

subsection \<open>Channels of the database\<close>

definition labelFor :: "string \<Rightarrow> string" where
  "labelFor column = (let spaced = replace_char (CHR ''_'') '' '' column in
     if column = ''rpm_request'' then upper spaced else capitalise False spaced)"

definition unitFor :: "string \<Rightarrow> string" where
  "unitFor column = (let l = lower column in
     if str_includes ''rpm'' l \<or> l = ''motor_speed'' then ''rpm''
     else if ends_with ''_speed'' l \<and> str_includes ''wheel'' l then ''rad/s''
     else if ends_with ''_v'' l \<or> str_includes ''voltage'' l then ''V''
     else if ends_with ''_c'' l \<or> str_includes ''current'' l then ''A''
     else if str_includes ''temp'' l then ''C''
     else if str_includes ''pressure'' l then ''psi''
     else if str_includes ''torque'' l then ''Nm''
     else if str_includes ''gps'' l \<and> str_includes ''speed'' l then ''m/s'' else [])"

definition quantityFor :: "string \<Rightarrow> string" where
  "quantityFor column = (let l = lower column in
     if str_includes ''speed'' l \<or> str_includes ''rpm'' l then ''speed''
     else if str_includes ''temp'' l then ''temperature''
     else if str_includes ''pressure'' l then ''pressure''
     else if str_includes ''torque'' l then ''torque''
     else if ends_with ''_v'' l \<or> str_includes ''voltage'' l then ''voltage''
     else if ends_with ''_c'' l \<or> str_includes ''current'' l then ''current'' else ''value'')"

definition isSplitCandidate :: "string \<Rightarrow> bool" where
  "isSplitCandidate column = list_ex (\<lambda>t. str_includes t (lower column)) [''rpm'', ''speed'', ''torque'', ''apps'', ''gps_velocity'']"

record column_row =
  cr_table :: string
  cr_column :: string
  cr_type :: string

definition column_key :: "string \<Rightarrow> string \<Rightarrow> string" where
  "column_key t c = trim_chars (\<lambda>x. x = CHR ''_'') (collapse (\<lambda>x. \<not> slug_letter x) (CHR ''_'') (lower (t @ ''__'' @ c)))"

definition column_channels :: "column_row \<Rightarrow> channel_def list" where
  "column_channels r =
     (if cr_type r \<in> {''real'', ''double precision'', ''integer'', ''bigint'', ''smallint'', ''numeric''}
      then (let k = column_key (cr_table r) (cr_column r) in
        [chan_def k (labelFor (cr_column r)) (cr_table r) (cr_column r) (unitFor (cr_column r)) (quantityFor (cr_column r))
           (k \<in> {''controls_motor_speed'', ''dynamics_inverter_rpm''}) (isSplitCandidate (cr_column r))])
      else if cr_type r = ''ARRAY'' \<and> cr_column r = ''gps''
      then [chan_def ''dynamics_gps_latitude'' ''GPS Latitude'' (cr_table r) ''gps[1]'' ''deg'' ''position'' False False,
            chan_def ''dynamics_gps_longitude'' ''GPS Longitude'' (cr_table r) ''gps[2]'' ''deg'' ''position'' False False]
      else [])"

definition loadChannels :: "column_row list \<Rightarrow> channel_def list" where
  "loadChannels rows = (let cs = concat (map column_channels rows) in
     case cs of
       [] \<Rightarrow> ORION_CHANNELS
     | c # rest \<Rightarrow> if list_ex cd_default cs then cs else c\<lparr>cd_default := True\<rparr> # rest)"

subsection \<open>Logs\<close>

text \<open>A row of the log query is its time and the values of the selected columns, by channel key.\<close>

definition selected_channels :: "channel_def list \<Rightarrow> string list \<Rightarrow> channel_def list" where
  "selected_channels cs keys =
     List.map_filter (jm_get (channel_lookup cs)) (if keys \<noteq> [] then keys else map cd_key ORION_CHANNELS)"

definition row_samples :: "int \<Rightarrow> (int \<times> (string, json) jsmap) list \<Rightarrow> string \<Rightarrow> sample list" where
  "row_samples startMs rows key = List.map_filter (\<lambda>(t, m). case jm_get m key of
       Some v \<Rightarrow> if nullish v then None else Some \<lparr>s_t = of_int (t - startMs) / 1000, s_value = to_number v\<rparr>
     | None \<Rightarrow> None) rows"

definition datalog :: "settings \<Rightarrow> channel_def list \<Rightarrow> string list \<Rightarrow> int \<Rightarrow> int \<Rightarrow> (int \<times> (string, json) jsmap) list \<Rightarrow> js_error + data_log" where
  "datalog st cs keys startMs endMs rows =
     (if \<not> usePostgres st then Inl (Thrown ''Telemetry database is not connected (set TELEMETRY_SOURCE=postgres).'')
      else Inr \<lparr>log_name = dbName st @ ''_postgres'',
        channels = fold (\<lambda>d m. let ss = row_samples startMs rows (cd_key d) in
            if ss = [] then m
            else jm_set (cd_key d) \<lparr>ch_name = cd_label d, ch_unit = cd_unit d, ch_quantity = cd_quantity d, samples = ss\<rparr> m)
          (selected_channels cs keys) [],
        log_metadata = [(''source'', ''postgres''), (''start_ms'', int_text startMs), (''end_ms'', int_text endMs)]\<rparr>)"

subsection \<open>Sessions and segments\<close>

text \<open>The sessions of a day. They lie in the day, are in order and more than a millisecond apart, and contain every
  instant of the day that a source range of positive length contains.\<close>

theorem sessions_for_day_sound:
  assumes "usePostgres st"
  shows "let day = localDayBoundsMs off d; ss = sessionsForDay st off date d rows in
       sorted_wrt (\<lambda>s t. ss_end s + 1 < ss_start t) ss
     \<and> list_all (\<lambda>s. of_int (fst day) \<le> ss_start s \<and> ss_start s < ss_end s \<and> ss_end s \<le> of_int (snd day)) ss
     \<and> (\<forall>(a, e) \<in> set rows. \<forall>x. max a (fst day) < min e (snd day) \<and> max a (fst day) \<le> x \<and> x \<le> min e (snd day)
          \<longrightarrow> list_ex (\<lambda>s. ss_start s \<le> of_int x \<and> of_int x \<le> ss_end s) ss)"
proof -
  define day where "day = localDayBoundsMs off d"
  define rs where "rs = day_ranges day rows"
  let ?in = "map (\<lambda>r. ms_range (max (fst r) (fst day), min (snd r) (snd day))) rows"
  have rs: "rs = mergeMsRanges ?in" by (simp add: rs_def day_ranges_def)
  have sep: "separated 1 rs" unfolding rs by (rule ms_ranges.merge_separated)
  then have pos: "\<not> snd r \<le> fst r" if "r \<in> set rs" for r using that by (auto simp: separated_def list_all_iff)
  have ss: "sessionsForDay st off date d rows = map (\<lambda>i. session_of (maxPreviewSeconds st) date i (rs ! i)) [0..<length rs]"
    using assms pos by (simp add: sessionsForDay_def day_def [symmetric] rs_def [symmetric] Let_def filter_id_conv)
  have ends: "ss_start (session_of mp date i r) = fst r" "ss_end (session_of mp date i r) = snd r" for mp i r
    by (simp_all add: session_of_def Let_def)
  have order: "sorted_wrt (\<lambda>s t. ss_end s + 1 < ss_start t) (sessionsForDay st off date d rows)"
    using sep by (auto simp: ss ends separated_def sorted_wrt_iff_nth_less)
  have inside: "of_int (fst day) \<le> fst r \<and> fst r < snd r \<and> snd r \<le> of_int (snd day)" if r: "r \<in> set rs" for r
  proof -
    have "fst r \<in> fst ` set ?in" "snd r \<in> snd ` set ?in"
      using ms_ranges.merge_ends [of "fst r" "snd r" ?in] r by (simp_all add: rs)
    then show ?thesis using pos [OF r] by (auto simp: ms_range_def)
  qed
  have cover: "list_ex (\<lambda>s. ss_start s \<le> of_int x \<and> of_int x \<le> ss_end s) (sessionsForDay st off date d rows)"
    if "(a, e) \<in> set rows" "max a (fst day) < min e (snd day)" "max a (fst day) \<le> x" "x \<le> min e (snd day)" for a e x
  proof -
    have "covers (filter (\<lambda>(a, b). b > a) ?in) (of_int x)"
    proof -
      have mem: "ms_range (max a (fst day), min e (snd day)) \<in> set ?in"
        using that(1) by force
      show ?thesis
        using mem that(2,3,4) unfolding covers_def list_ex_iff
        by (intro bexI [of _ "ms_range (max a (fst day), min e (snd day))"]) (auto simp: ms_range_def)
    qed
    from ms_ranges.merge_covers [OF this] have "covers rs (of_int x)" by (simp add: rs)
    then obtain i where "i < length rs" "fst (rs ! i) \<le> of_int x" "of_int x \<le> snd (rs ! i)"
      by (auto simp: covers_def list_ex_iff in_set_conv_nth case_prod_beta)
    then show ?thesis unfolding ss list_ex_iff by (intro bexI [of _ "session_of (maxPreviewSeconds st) date i (rs ! i)"]) (simp_all add: ends)
  qed
  show ?thesis
    unfolding Let_def day_def [symmetric]
    using order inside cover by (auto simp: ss ends list_all_iff)
qed

definition pg_settings :: settings where
  "pg_settings = baseSettings (\<lambda>k. if k = ''TELEMETRY_SOURCE'' then Some ''postgres'' else None) []"

theorem sessions_for_day_sound_witness:
  "list_ex (\<lambda>s. ss_start s \<le> 1500 \<and> 1500 \<le> ss_end s) (sessionsForDay pg_settings (\<lambda>_. 0) ''1970-01-01'' 0 [(1000, 2000), (- 500, 800)])"
proof -
  have "usePostgres pg_settings"
    by (simp add: pg_settings_def baseSettings_def env_text_def Let_def) code_simp
  from sessions_for_day_sound [OF this, of "\<lambda>_. 0" 0 "''1970-01-01''" "[(1000, 2000), (- 500, 800)]"]
  have "\<forall>x. max 1000 0 < min 2000 (DAY_MS :: int) \<and> max 1000 0 \<le> x \<and> x \<le> min 2000 DAY_MS
      \<longrightarrow> list_ex (\<lambda>s. ss_start s \<le> of_int x \<and> of_int x \<le> ss_end s) (sessionsForDay pg_settings (\<lambda>_. 0) ''1970-01-01'' 0 [(1000, 2000), (- 500, 800)])"
    by (simp add: Let_def localDayBoundsMs_def)
  from spec [OF this, of 1500] show ?thesis by (simp add: DAY_MS_def)
qed

text \<open>The maximal runs of a list.\<close>

function runs :: "('a \<Rightarrow> bool) \<Rightarrow> 'a list \<Rightarrow> 'a list list" where
  "runs P [] = []"
| "runs P (x # xs) = (if P x then (x # takeWhile P xs) # runs P (dropWhile P xs) else runs P xs)"
  by pat_completeness auto

termination by (relation "measure (\<lambda>(P, xs). length xs)") (auto simp: length_dropWhile_le le_imp_less_Suc)

definition long_enough :: "rat \<Rightarrow> int \<times> int \<Rightarrow> bool" where
  "long_enough minDur r \<longleftrightarrow> fst r < snd r \<and> of_int (snd r - fst r) / 1000 \<ge> minDur"

definition run_range :: "int \<Rightarrow> int \<Rightarrow> point list \<Rightarrow> int \<times> int" where
  "run_range startMs endMs r = (max startMs (fst (hd r)), min endMs (fst (last r)))"

lemma push_long: "push_segment minDur s e segs = segs @ filter (long_enough minDur) [(s, e)]"
  by (simp add: push_segment_def long_enough_def)

definition close_threshold :: "int \<Rightarrow> rat \<Rightarrow> threshold_state \<Rightarrow> (int \<times> int) list" where
  "close_threshold endMs minDur st = (case ts_active st of
       Some a \<Rightarrow> push_segment minDur a (min endMs (case ts_last st of Some l \<Rightarrow> l | None \<Rightarrow> endMs)) (ts_segments st)
     | None \<Rightarrow> ts_segments st)"

lemma threshold_runs_gen:
  fixes threshold minDur :: rat and startMs endMs :: int
  defines "P \<equiv> is_active threshold" and "F \<equiv> threshold_point startMs endMs threshold minDur"
    and "ref \<equiv> (\<lambda>ps. filter (long_enough minDur) (map (run_range startMs endMs) (runs (is_active threshold) ps)))"
  shows "ts_active st = None \<Longrightarrow> close_threshold endMs minDur (fold F ps st) = ts_segments st @ ref ps"
    and "ts_active st = Some a \<Longrightarrow> ts_last st = Some l \<Longrightarrow> close_threshold endMs minDur (fold F ps st)
      = ts_segments st @ filter (long_enough minDur) [(a, min endMs (if takeWhile P ps = [] then l else fst (last (takeWhile P ps))))]
        @ ref (dropWhile P ps)"
proof (induction ps arbitrary: st a l)
  case Nil
  {
    case 1
    then show ?case by (simp add: close_threshold_def ref_def)
  next
    case 2
    then show ?case by (simp add: close_threshold_def ref_def push_long)
  }
next
  case (Cons p ps)
  {
    case 1
    show ?case
    proof (cases "P p")
      case True
      then have F: "F p st = st\<lparr>ts_active := Some (max startMs (fst p)), ts_last := Some (fst p)\<rparr>"
        using 1 by (simp add: F_def P_def threshold_point_def Let_def)
      show ?thesis
        using Cons.IH(2) [of "F p st" "max startMs (fst p)" "fst p"] True
        by (simp add: F ref_def P_def run_range_def)
    next
      case False
      then have F: "F p st = st\<lparr>ts_last := Some (fst p)\<rparr>"
        using 1 by (simp add: F_def P_def threshold_point_def Let_def)
      show ?thesis using Cons.IH(1) [of "F p st"] False 1 by (simp add: F ref_def P_def)
    qed
  next
    case 2
    show ?case
    proof (cases "P p")
      case True
      then have F: "F p st = st\<lparr>ts_last := Some (fst p)\<rparr>"
        using 2 by (simp add: F_def P_def threshold_point_def Let_def)
      show ?thesis using Cons.IH(2) [of "F p st" a "fst p"] True 2 by (simp add: F)
    next
      case False
      then have F: "F p st = st\<lparr>ts_segments := ts_segments st @ filter (long_enough minDur) [(a, min endMs l)],
          ts_active := None, ts_last := Some (fst p)\<rparr>"
        using 2 by (simp add: F_def P_def threshold_point_def Let_def push_long)
      show ?thesis using Cons.IH(1) [of "F p st"] False by (simp add: F ref_def P_def)
    qed
  }
qed

text \<open>Threshold segments are the maximal runs of points above the threshold, cut to the requested range, without
  those that are empty or too short.\<close>

theorem threshold_segments_runs:
  "threshold_ranges startMs endMs threshold minDur ps
     = filter (long_enough minDur) (map (run_range startMs endMs) (runs (is_active threshold) ps))"
  using threshold_runs_gen(1) [of "\<lparr>ts_segments = [], ts_active = None, ts_last = None\<rparr>"]
  by (simp add: threshold_ranges_def Let_def close_threshold_def)


subsection \<open>Days of 25 hours\<close>

definition us_central_2024 :: zone where
  "us_central_2024 t = (if t < 1730617200000 then - 18000000 else - 21600000)"

text \<open>A local day is taken to have 24 hours. A source range in the last hour of a longer day, when clocks go back, is on
  no day of the calendar.\<close>

theorem dst_hour_lost:
  assumes "snd (localDayBoundsMs off d) \<le> a" "a < e" "localDay off a = d" "localDay off (e - 1) = d"
  shows "calendar st off None [(a, e)] = []"
proof -
  have dates: "datesBetweenLocal off a e = [d]"
    using assms by (simp add: datesBetweenLocal_def max_def)
  have "ranges_by_day off [(a, e)] = []"
    using assms(1) by (simp add: ranges_by_day_def dates Let_def)
  then show ?thesis by (simp add: calendar_def List.map_filter_def)
qed

theorem dst_hour_lost_witness:
  "calendar pg_settings us_central_2024 None [(1730696400000, 1730700000000)] = []"
  by (rule dst_hour_lost [where d = 20030])
    (simp_all add: localDayBoundsMs_def us_central_2024_def localDay_def DAY_MS_def Let_def)

end
