(* ===== verification/Bytes.thy ===== *)
theory Bytes
  imports JsonValue "HOL-Library.Word"
begin

text \<open>
  Byte buffers for the binary writers: little-endian integers, and the reading of a part of a
  buffer. A buffer is a list of bytes; a string of the model is already a list of bytes.
\<close>

type_synonym byte = "8 word"
type_synonym buffer = "byte list"

text \<open>The low \<open>n\<close> bytes of an integer, the lowest first: what each \<^verbatim>\<open>write...LE\<close> of the source stores of its
  masked argument, signed or not.\<close>

fun le_bytes :: "nat \<Rightarrow> int \<Rightarrow> buffer" where
  "le_bytes 0 v = []"
| "le_bytes (Suc n) v = word_of_int v # le_bytes n (v div 256)"

lemma length_le_bytes [simp]: "length (le_bytes n v) = n"
  by (induction n arbitrary: v) simp_all

definition slice :: "nat \<Rightarrow> nat \<Rightarrow> buffer \<Rightarrow> buffer" where
  "slice off n f = take n (drop off f)"

definition le_value :: "buffer \<Rightarrow> nat" where
  "le_value bs = foldr (\<lambda>b a. unat b + 256 * a) bs 0"

definition u32_at :: "buffer \<Rightarrow> nat \<Rightarrow> nat" where
  "u32_at f off = le_value (slice off 4 f)"

lemma unat_byte: "unat (word_of_int v :: byte) = nat (v mod 256)"
  by (simp add: unat_eq_nat_uint uint_word_of_int)

lemma le_value_le_bytes: "0 \<le> v \<Longrightarrow> le_value (le_bytes n v) = nat (v mod 256 ^ n)"
proof (induction n arbitrary: v)
  case (Suc n)
  have "v mod 256 ^ Suc n = v mod 256 + 256 * (v div 256 mod 256 ^ n)"
    by (simp add: zmod_zmult2_eq)
  moreover have "le_value (le_bytes (Suc n) v) = nat (v mod 256) + 256 * nat (v div 256 mod 256 ^ n)"
    using Suc by (simp add: le_value_def unat_byte)
  ultimately show ?case by (simp add: nat_add_distrib nat_mult_distrib)
qed (simp add: le_value_def)

lemma le_value_nat: "v < 2 ^ 32 \<Longrightarrow> le_value (le_bytes 4 (int v)) = v"
  by (simp add: le_value_le_bytes nat_mod_distrib flip: of_nat_power)

lemma slice_within: "a + n \<le> m \<Longrightarrow> slice (p + a) n f = slice a n (slice p m f)"
  by (simp add: slice_def drop_take add.commute min_absorb1)

lemma slice_skip: "length a \<le> off \<Longrightarrow> slice off n (a @ b) = slice (off - length a) n b"
  by (simp add: slice_def)

lemma slice_first: "length a = n \<Longrightarrow> slice 0 n (a @ b) = a"
  by (simp add: slice_def)

lemma slice_last: "length a = n \<Longrightarrow> slice 0 n a = a"
  by (simp add: slice_def)

lemma slice_inside: "off + n \<le> length a \<Longrightarrow> slice off n (a @ b) = slice off n a"
  by (simp add: slice_def)

lemmas slices = slice_skip slice_first slice_last

lemma le_value_uint: "le_value (le_bytes 4 (uint (w :: 32 word))) = unat w"
proof -
  have "uint w < 256 ^ 4" using uint_bounded [of w] by simp
  then have "uint w mod 256 ^ 4 = uint w" by (intro mod_pos_pos_trivial) simp_all
  then show ?thesis by (simp only: le_value_le_bytes [OF uint_ge_0] unat_eq_nat_uint)
qed

lemma char_byte: "char_of (unat (word_of_nat (of_char c) :: byte)) = c" "(word_of_nat (of_char c) :: byte) = 0 \<longleftrightarrow> c = CHR 0x00"
proof -
  have u: "unat (word_of_nat (of_char c) :: byte) = of_char c"
    by (simp add: unat_of_nat)
  then show "char_of (unat (word_of_nat (of_char c) :: byte)) = c" by simp
  have "(word_of_nat (of_char c) :: byte) = 0 \<longleftrightarrow> (of_char c :: nat) = 0"
    using u by (metis unat_eq_zero)
  also have "\<dots> \<longleftrightarrow> (of_char c :: nat) = of_char (CHR 0x00)" by simp
  also have "\<dots> \<longleftrightarrow> c = CHR 0x00" by (rule of_char_eq_iff)
  finally show "(word_of_nat (of_char c) :: byte) = 0 \<longleftrightarrow> c = CHR 0x00" .
qed

lemma slice_take: "off + k \<le> n \<Longrightarrow> slice off k (take n f) = slice off k f"
  by (simp add: slice_def drop_take min_absorb1)

end
