(* ===== verification/MotecLd.thy ===== *)
theory MotecLd
  imports MotecLog Bytes
begin

text \<open>
  The binary log writer, \<^verbatim>\<open>viewer_tool/src/lib/motec/motecLd.ts\<close>.

  A buffer is a list of bytes. The packer follows the format strings of the source. The encoding of a
  number as a 32-bit float is the parameter \<open>f32\<close>, and the parsing of a date the parameter \<open>parse_date\<close>.
  A reader that follows the pointers of a file states what a written file means.
\<close>

definition VEHICLE_PTR :: nat where "VEHICLE_PTR = 1762"
definition VENUE_PTR :: nat where "VENUE_PTR = 5078"
definition EVENT_PTR :: nat where "EVENT_PTR = 8180"
definition HEADER_PTR :: nat where "HEADER_PTR = 11336"

definition HEAD_FMT :: string where
  "HEAD_FMT = ''<I4xII20xI24xHHHI8sHHI4x16s16x16s16x64s64s64x64s64x1024xI66x64s126x64s64s''"

definition VEHICLE_FMT :: string where "VEHICLE_FMT = ''<64s128xI32s32s''"
definition VENUE_FMT :: string where "VENUE_FMT = ''<64s1034xH''"
definition EVENT_FMT :: string where "EVENT_FMT = ''<64s64s1024sH''"
definition CHAN_FMT :: string where "CHAN_FMT = ''<IIIIHHHHHHHh32s8s12s40x''"

subsection \<open>The packer\<close>

datatype pack_value = PNum int | PStr string

datatype token = TPad nat | TStr nat | TNum nat nat
  \<comment> \<open>a number token has the width of its type and a count\<close>

definition type_width :: "char \<Rightarrow> nat option" where
  "type_width c = (if c \<in> {CHR ''I'', CHR ''i''} then Some 4 else if c \<in> {CHR ''H'', CHR ''h''} then Some 2
     else if c \<in> {CHR ''B'', CHR ''b''} then Some 1 else None)"

text \<open>An unknown type, or a format that ends in a count, has no size: \<open>None\<close>.\<close>

definition token_of :: "char \<Rightarrow> nat \<Rightarrow> token option" where
  "token_of c n = (if c = CHR ''x'' then Some (TPad n) else if c = CHR ''s'' then Some (TStr n)
     else map_option (\<lambda>w. TNum w n) (type_width c))"

fun parse_body :: "string \<Rightarrow> string \<Rightarrow> token list option" where
  "parse_body num [] = (if num = [] then Some [] else None)"
| "parse_body num (c # cs) =
     (if is_digit c then parse_body (num @ [c]) cs
      else case (token_of c (if num = [] then 1 else digits_val num), parse_body [] cs) of
          (Some t, Some ts) \<Rightarrow> Some (t # ts)
        | _ \<Rightarrow> None)"

definition parseFormat :: "string \<Rightarrow> token list option" where
  "parseFormat fmt = parse_body [] (case fmt of
       c # cs \<Rightarrow> if c = CHR ''<'' \<or> c = CHR ''>'' then cs else fmt
     | [] \<Rightarrow> [])"

definition token_size :: "token \<Rightarrow> nat" where
  "token_size t = (case t of TPad n \<Rightarrow> n | TStr n \<Rightarrow> n | TNum w n \<Rightarrow> w * n)"

definition sizeOf :: "token list \<Rightarrow> nat" where
  "sizeOf ts = sum_list (map token_size ts)"

definition str_bytes :: "nat \<Rightarrow> string \<Rightarrow> buffer" where
  "str_bytes n s = (let bs = map (\<lambda>c. word_of_nat (of_char c)) (take n s) in bs @ replicate (n - length bs) 0)"

definition trunc_int :: "rat \<Rightarrow> int" where
  "trunc_int r = (if r < 0 then - \<lfloor>- r\<rfloor> else \<lfloor>r\<rfloor>)"

definition value_text :: "pack_value list \<Rightarrow> string" where
  "value_text vs = (case vs of [] \<Rightarrow> [] | PStr s # _ \<Rightarrow> s | PNum i # _ \<Rightarrow> int_text i)"

definition value_int :: "pack_value list \<Rightarrow> int" where
  "value_int vs = (case vs of [] \<Rightarrow> 0 | PNum i # _ \<Rightarrow> i
     | PStr s # _ \<Rightarrow> (case text_number s of JFin r \<Rightarrow> trunc_int r | _ \<Rightarrow> 0))"

fun pack_tokens :: "token list \<Rightarrow> pack_value list \<Rightarrow> buffer" where
  "pack_tokens [] vs = []"
| "pack_tokens (TPad n # ts) vs = replicate n 0 @ pack_tokens ts vs"
| "pack_tokens (TStr n # ts) vs = str_bytes n (value_text vs) @ pack_tokens ts (drop 1 vs)"
| "pack_tokens (TNum w n # ts) vs =
     concat (map (\<lambda>i. le_bytes w (value_int (drop i vs))) [0..<n]) @ pack_tokens ts (drop n vs)"

definition pack :: "string \<Rightarrow> pack_value list \<Rightarrow> buffer option" where
  "pack fmt vs = map_option (\<lambda>ts. pack_tokens ts vs) (parseFormat fmt)"

definition CHANNEL_HEADER_SIZE :: nat where
  "CHANNEL_HEADER_SIZE = sizeOf (the (parseFormat CHAN_FMT))"

definition fixed_text :: "string \<Rightarrow> nat \<Rightarrow> string" where
  "fixed_text t n = (let a = filter (\<lambda>c. (of_char c :: nat) < 128) t in if length a \<ge> n then take (n - 1) a else a)"

definition cleanFloat :: "jsnum \<Rightarrow> rat" where
  "cleanFloat x = (case x of JFin r \<Rightarrow> clamp_rat (- (34 * 10 ^ 37)) (34 * 10 ^ 37) r | _ \<Rightarrow> 0)"

lemma length_str_bytes [simp]: "length (str_bytes n s) = n"
  by (simp add: str_bytes_def Let_def)

lemma length_pack_tokens: "length (pack_tokens ts vs) = sizeOf ts"
  by (induction ts vs rule: pack_tokens.induct)
    (simp_all add: sizeOf_def token_size_def length_concat comp_def sum_list_triv)

subsection \<open>The parts of a file\<close>

record utc_date =
  d_year :: nat
  d_month :: nat
  d_day :: nat
  d_hours :: nat
  d_minutes :: nat
  d_seconds :: nat

definition pad2 :: "nat \<Rightarrow> string" where
  "pad2 n = pad_start 2 (CHR ''0'') (nat_text n)"

definition date_str :: "utc_date \<Rightarrow> string" where
  "date_str d = pad2 (d_day d) @ ''/'' @ pad2 (d_month d) @ ''/'' @ nat_text (d_year d)"

definition time_str :: "utc_date \<Rightarrow> string" where
  "time_str d = pad2 (d_hours d) @ '':'' @ pad2 (d_minutes d) @ '':'' @ pad2 (d_seconds d)"

definition metadataDate :: "(string \<Rightarrow> utc_date option) \<Rightarrow> utc_date \<Rightarrow> (string, string) jsmap \<Rightarrow> utc_date" where
  "metadataDate parse_date now m = (case jm_get m ''datetime'' of
       Some (c # s) \<Rightarrow> (case parse_date (c # s) of Some d \<Rightarrow> d | None \<Rightarrow> now)
     | _ \<Rightarrow> now)"

definition meta_or :: "(string, string) jsmap \<Rightarrow> string \<Rightarrow> string \<Rightarrow> string" where
  "meta_or m k d = (case jm_get m k of Some v \<Rightarrow> v | None \<Rightarrow> d)"

text \<open>\<^verbatim>\<open>parseInt(s, 10) || 0\<close>.\<close>

definition parse_int_or_0 :: "string \<Rightarrow> int" where
  "parse_int_or_0 s = (let t = trim_left is_space s in case t of
       [] \<Rightarrow> 0
     | c # cs \<Rightarrow> if c = CHR ''-'' then - int (digits_val (takeWhile is_digit cs))
                else if c = CHR ''+'' then int (digits_val (takeWhile is_digit cs))
                else int (digits_val (takeWhile is_digit t)))"

definition float_bytes :: "(rat \<Rightarrow> 32 word) \<Rightarrow> sample list \<Rightarrow> buffer" where
  "float_bytes f32 ss = concat (map (\<lambda>s. le_bytes 4 (uint (f32 (cleanFloat (s_value s))))) ss)"

definition channel_freq :: "chan \<Rightarrow> int" where
  "channel_freq c = max 1 (rat_round (if averageFrequency c = 0 then 1 else averageFrequency c))"

definition channel_header :: "nat \<Rightarrow> nat \<Rightarrow> nat \<Rightarrow> nat \<Rightarrow> chan \<Rightarrow> buffer option" where
  "channel_header cnt index metaPtr dataPtr c = pack CHAN_FMT
     [PNum (if index = 0 then 0 else int metaPtr - int CHANNEL_HEADER_SIZE),
      PNum (if int index = int cnt - 1 then 0 else int metaPtr + int CHANNEL_HEADER_SIZE),
      PNum (int dataPtr), PNum (int (length (samples c))), PNum (12001 + int index), PNum 7, PNum 4,
      PNum (channel_freq c), PNum 0, PNum 1, PNum 1, PNum 0,
      PStr (fixed_text (ch_name c) 32), PStr (fixed_text (ch_quantity c) 8), PStr (fixed_text (ch_unit c) 12)]"

text \<open>The loop over the channels: the pair of each header and its data.\<close>

fun channel_blocks :: "(rat \<Rightarrow> 32 word) \<Rightarrow> nat \<Rightarrow> nat \<Rightarrow> nat \<Rightarrow> nat \<Rightarrow> chan list \<Rightarrow> (buffer \<times> buffer) list option" where
  "channel_blocks f32 cnt index metaPtr dataPtr [] = Some []"
| "channel_blocks f32 cnt index metaPtr dataPtr (c # cs) =
     (let values = float_bytes f32 (samples c) in
      case (channel_header cnt index metaPtr dataPtr c,
            channel_blocks f32 cnt (index + 1) (metaPtr + CHANNEL_HEADER_SIZE) (dataPtr + length values) cs) of
        (Some h, Some bs) \<Rightarrow> Some ((h, values) # bs)
      | _ \<Rightarrow> None)"

definition ld_head :: "utc_date \<Rightarrow> string \<Rightarrow> (string, string) jsmap \<Rightarrow> nat \<Rightarrow> buffer option" where
  "ld_head d logName m n = pack HEAD_FMT
     [PNum 64, PNum (int HEADER_PTR), PNum (int (HEADER_PTR + n * CHANNEL_HEADER_SIZE)), PNum (int EVENT_PTR),
      PNum 1, PNum 16960, PNum 15, PNum 8004, PStr ''ADL'', PNum 420, PNum 44464, PNum (int n),
      PStr (fixed_text (date_str d) 16), PStr (fixed_text (time_str d) 16),
      PStr (fixed_text (meta_or m ''driver'' []) 64), PStr (fixed_text (meta_or m ''vehicle_id'' ''Orion'') 64),
      PStr (fixed_text (meta_or m ''venue'' []) 64), PNum 819620,
      PStr (fixed_text (meta_or m ''short_comment'' logName) 64),
      PStr (fixed_text (meta_or m ''event'' ''Telemetry Export'') 64), PStr (fixed_text (meta_or m ''session'' []) 64)]"

definition ld_vehicle :: "(string, string) jsmap \<Rightarrow> buffer option" where
  "ld_vehicle m = pack VEHICLE_FMT
     [PStr (fixed_text (meta_or m ''vehicle_id'' ''Orion'') 64), PNum (parse_int_or_0 (meta_or m ''vehicle_weight'' ''0'')),
      PStr (fixed_text (meta_or m ''vehicle_type'' ''EV'') 32), PStr (fixed_text (meta_or m ''vehicle_comment'' []) 32)]"

definition ld_venue :: "(string, string) jsmap \<Rightarrow> buffer option" where
  "ld_venue m = pack VENUE_FMT [PStr (fixed_text (meta_or m ''venue'' []) 64), PNum (int VEHICLE_PTR)]"

definition ld_event :: "(string, string) jsmap \<Rightarrow> buffer option" where
  "ld_event m = pack EVENT_FMT
     [PStr (fixed_text (meta_or m ''event'' ''Telemetry Export'') 64), PStr (fixed_text (meta_or m ''session'' []) 64),
      PStr (fixed_text (meta_or m ''long_comment'' []) 1024), PNum (int VENUE_PTR)]"

text \<open>\<^verbatim>\<open>src.copy(file, off)\<close>: what does not fit is cut off.\<close>

definition copy_to :: "nat \<Rightarrow> buffer \<Rightarrow> buffer \<Rightarrow> buffer" where
  "copy_to off src file = (if off < length file
     then take off file @ take (length file - off) src @ drop (off + length src) file else file)"

definition copy_all :: "buffer list \<Rightarrow> nat \<times> buffer \<Rightarrow> nat \<times> buffer" where
  "copy_all bs cf = fold (\<lambda>b (cursor, file). (cursor + length b, copy_to cursor b file)) bs cf"

definition writeLd :: "(rat \<Rightarrow> 32 word) \<Rightarrow> (string \<Rightarrow> utc_date option) \<Rightarrow> utc_date \<Rightarrow> data_log
    \<Rightarrow> (string, string) jsmap \<Rightarrow> buffer option" where
  "writeLd f32 parse_date now l m =
     (let cs = log_channels l; n = length cs in
      case (channel_blocks f32 n 0 HEADER_PTR (HEADER_PTR + n * CHANNEL_HEADER_SIZE) cs,
            ld_head (metadataDate parse_date now m) (log_name l) m n, ld_vehicle m, ld_venue m, ld_event m) of
        (Some bs, Some head, Some vehicle, Some venue, Some event) \<Rightarrow>
          let fsize = HEADER_PTR + n * CHANNEL_HEADER_SIZE + sum_list (map (length \<circ> snd) bs);
              file = copy_to EVENT_PTR event (copy_to VENUE_PTR venue (copy_to VEHICLE_PTR vehicle
                       (copy_to 0 head (replicate fsize 0))))
          in Some (snd (copy_all (map fst bs @ map snd bs) (HEADER_PTR, file)))
      | _ \<Rightarrow> None)"

subsection \<open>Reading a file\<close>

definition text_at :: "buffer \<Rightarrow> nat \<Rightarrow> nat \<Rightarrow> string" where
  "text_at f off n = map (\<lambda>b. char_of (unat b)) (takeWhile (\<lambda>b. b \<noteq> 0) (slice off n f))"

definition floats_at :: "buffer \<Rightarrow> nat \<Rightarrow> nat \<Rightarrow> nat list" where
  "floats_at f off n = map (\<lambda>i. u32_at f (off + 4 * i)) [0..<n]"

record ld_channel =
  lc_name :: string
  lc_unit :: string
  lc_values :: "nat list"

text \<open>Follow the channel headers from \<open>p\<close>, at most \<open>k\<close> of them, until the next pointer is 0.\<close>

fun read_channels :: "buffer \<Rightarrow> nat \<Rightarrow> nat \<Rightarrow> ld_channel list" where
  "read_channels f 0 p = []"
| "read_channels f (Suc k) p =
     \<lparr>lc_name = text_at f (p + 32) 32, lc_unit = text_at f (p + 72) 12,
      lc_values = floats_at f (u32_at f (p + 8)) (u32_at f (p + 12))\<rparr>
     # (if u32_at f (p + 4) = 0 then [] else read_channels f k (u32_at f (p + 4)))"

definition readLd :: "buffer \<Rightarrow> ld_channel list" where
  "readLd f = read_channels f (u32_at f 86) (u32_at f 8)"

subsection \<open>Packed values\<close>

lemma length_pack: "pack fmt vs = Some bs \<Longrightarrow> length bs = sizeOf (the (parseFormat fmt))"
  by (auto simp: pack_def length_pack_tokens)

lemmas pack_eval = pack_def parseFormat_def token_of_def type_width_def

lemma chan_tokens: "parseFormat CHAN_FMT = Some [TNum 4 1, TNum 4 1, TNum 4 1, TNum 4 1, TNum 2 1, TNum 2 1, TNum 2 1,
    TNum 2 1, TNum 2 1, TNum 2 1, TNum 2 1, TNum 2 1, TStr 32, TStr 8, TStr 12, TPad 40]"
  by code_simp

lemma head_tokens: "parseFormat HEAD_FMT = Some [TNum 4 1, TPad 4, TNum 4 1, TNum 4 1, TPad 20, TNum 4 1, TPad 24,
    TNum 2 1, TNum 2 1, TNum 2 1, TNum 4 1, TStr 8, TNum 2 1, TNum 2 1, TNum 4 1, TPad 4, TStr 16, TPad 16, TStr 16,
    TPad 16, TStr 64, TStr 64, TPad 64, TStr 64, TPad 64, TPad 1024, TNum 4 1, TPad 66, TStr 64, TPad 126, TStr 64, TStr 64]"
  by code_simp

lemma vehicle_tokens: "parseFormat VEHICLE_FMT = Some [TStr 64, TPad 128, TNum 4 1, TStr 32, TStr 32]"
  by code_simp

lemma venue_tokens: "parseFormat VENUE_FMT = Some [TStr 64, TPad 1034, TNum 2 1]"
  by code_simp

lemma event_tokens: "parseFormat EVENT_FMT = Some [TStr 64, TStr 64, TStr 1024, TNum 2 1]"
  by code_simp

lemma header_size: "CHANNEL_HEADER_SIZE = 124"
  by (simp add: CHANNEL_HEADER_SIZE_def chan_tokens sizeOf_def token_size_def)

subsection \<open>A channel header\<close>

lemma channel_header_eq:
  "channel_header cnt i mp dp c = Some (
     le_bytes 4 (if i = 0 then 0 else int mp - 124) @ le_bytes 4 (if int i = int cnt - 1 then 0 else int mp + 124)
     @ le_bytes 4 (int dp) @ le_bytes 4 (int (length (samples c))) @ le_bytes 2 (12001 + int i) @ le_bytes 2 7 @ le_bytes 2 4
     @ le_bytes 2 (channel_freq c) @ le_bytes 2 0 @ le_bytes 2 1 @ le_bytes 2 1 @ le_bytes 2 0
     @ str_bytes 32 (fixed_text (ch_name c) 32) @ str_bytes 8 (fixed_text (ch_quantity c) 8)
     @ str_bytes 12 (fixed_text (ch_unit c) 12) @ replicate 40 0)"
  by (simp add: channel_header_def pack_def chan_tokens value_int_def value_text_def header_size)

lemma channel_header_fields:
  assumes "channel_header cnt i mp dp c = Some h"
  shows "length h = 124" "slice 4 4 h = le_bytes 4 (if int i = int cnt - 1 then 0 else int mp + 124)"
    "slice 8 4 h = le_bytes 4 (int dp)" "slice 12 4 h = le_bytes 4 (int (length (samples c)))"
    "slice 32 32 h = str_bytes 32 (fixed_text (ch_name c) 32)" "slice 72 12 h = str_bytes 12 (fixed_text (ch_unit c) 12)"
  using assms unfolding channel_header_eq option.inject by (auto simp: slices simp del: le_bytes.simps)

lemma length_float_bytes: "length (float_bytes f32 ss) = 4 * length ss"
  by (induction ss) (simp_all add: float_bytes_def)

lemma float_bytes_nth: "i < length ss \<Longrightarrow> slice (4 * i) 4 (float_bytes f32 ss) = le_bytes 4 (uint (f32 (cleanFloat (s_value (ss ! i)))))"
proof (induction ss arbitrary: i)
  case (Cons s ss)
  show ?case
  proof (cases i)
    case 0
    then show ?thesis by (simp add: float_bytes_def slice_first del: le_bytes.simps)
  next
    case (Suc j)
    then have "slice (4 * i) 4 (float_bytes f32 (s # ss)) = slice (4 * j) 4 (float_bytes f32 ss)"
      by (simp add: float_bytes_def slice_skip del: le_bytes.simps)
    then show ?thesis using Cons Suc by simp
  qed
qed simp

definition c_text :: "string \<Rightarrow> string" where
  "c_text s = takeWhile (\<lambda>c. c \<noteq> CHR 0x00) s"

lemma text_str_bytes:
  "length s \<le> n \<Longrightarrow> map (\<lambda>b. char_of (unat b)) (takeWhile (\<lambda>b. b \<noteq> 0) (str_bytes n s)) = c_text s"
proof -
  assume n: "length s \<le> n"
  let ?f = "\<lambda>c. word_of_nat (of_char c) :: byte"
  have "takeWhile (\<lambda>b. b \<noteq> 0) (map ?f s @ replicate k 0) = map ?f (c_text s)" for k
    by (induction s) (auto simp: c_text_def char_byte)
  then show ?thesis using n by (simp add: str_bytes_def comp_def char_byte)
qed

lemma length_fixed_text: "0 < n \<Longrightarrow> length (fixed_text t n) \<le> n"
  by (auto simp: fixed_text_def Let_def)

text \<open>The channel a reader should see.\<close>

definition ld_view :: "(rat \<Rightarrow> 32 word) \<Rightarrow> chan \<Rightarrow> ld_channel" where
  "ld_view f32 c = \<lparr>lc_name = c_text (fixed_text (ch_name c) 32), lc_unit = c_text (fixed_text (ch_unit c) 12),
     lc_values = map (\<lambda>s. unat (f32 (cleanFloat (s_value s)))) (samples c)\<rparr>"

lemma read_chain:
  assumes "channel_blocks f32 cnt i p dp cs = Some bs" "cs \<noteq> []" "i + length cs = cnt"
    and "slice p (124 * length cs) f = concat (map fst bs)"
    and "slice dp (length (concat (map snd bs))) f = concat (map snd bs)"
    and "p + 124 * length cs \<le> dp" "dp + length (concat (map snd bs)) \<le> length f" "length f < 2 ^ 32"
  shows "read_channels f (length cs) p = map (ld_view f32) cs"
  using assms
proof (induction cs arbitrary: i p dp bs)
  case (Cons c cs)
  let ?v = "float_bytes f32 (samples c)"
  obtain h bs' where h: "channel_header cnt i p dp c = Some h"
    and bs': "channel_blocks f32 cnt (i + 1) (p + 124) (dp + length ?v) cs = Some bs'" and bs: "bs = (h, ?v) # bs'"
    using Cons.prems(1) by (auto simp: Let_def header_size split: option.splits)
  note hf = channel_header_fields [OF h]
  have hd: "slice p 124 f = h"
    using Cons.prems(4) hf(1) slice_within [of 0 124 "124 * length (c # cs)" p f] by (simp add: bs slice_first)
  have "length (slice p (124 * length (c # cs)) f) \<le> 124 * length (c # cs)" by (simp add: slice_def)
  then have len: "length (concat (map fst bs')) \<le> 124 * length cs" using Cons.prems(4) hf(1) by (simp add: bs)
  have tl: "slice (p + 124) (124 * length cs) f = concat (map fst bs')"
    using Cons.prems(4) hf(1) slice_within [of 124 "124 * length cs" "124 * length (c # cs)" p f] len
    by (simp add: bs slice_def)
  have vd: "slice dp (length ?v) f = ?v" and td: "slice (dp + length ?v) (length (concat (map snd bs'))) f = concat (map snd bs')"
    using Cons.prems(5) slice_within [of 0 "length ?v" "length (concat (map snd bs))" dp f]
      slice_within [of "length ?v" "length (concat (map snd bs'))" "length (concat (map snd bs))" dp f]
    by (simp_all add: bs slice_def)
  have field: "slice (p + a) n f = slice a n h" if "a + n \<le> 124" for a n
    using slice_within [OF that, of p f] hd by simp
  have small: "dp < 2 ^ 32" "length (samples c) < 2 ^ 32" "p + 124 < 2 ^ 32"
    using Cons.prems(6-8) by (auto simp: bs length_float_bytes)
  have ptr: "u32_at f (p + 8) = dp" "u32_at f (p + 12) = length (samples c)"
    using hf(3,4) small by (simp_all only: u32_at_def field le_value_nat)
  have "(if int i = int cnt - 1 then 0 else int p + 124) = int (if cs = [] then 0 else p + 124)"
    using Cons.prems(3) by (cases cs) auto
  then have "slice 4 4 h = le_bytes 4 (int (if cs = [] then 0 else p + 124))" using hf(2) by (simp only:)
  moreover have "(if cs = [] then 0 else p + 124) < 2 ^ 32" using small(3) by simp
  ultimately have nxt: "u32_at f (p + 4) = (if cs = [] then 0 else p + 124)"
    by (simp only: u32_at_def field le_value_nat)
  have "u32_at f (dp + 4 * k) = unat (f32 (cleanFloat (s_value (samples c ! k))))" if k: "k < length (samples c)" for k
  proof -
    have "4 * k + 4 \<le> length ?v" using k by (simp add: length_float_bytes)
    from slice_within [OF this, of dp f] have "slice (dp + 4 * k) 4 f = slice (4 * k) 4 ?v" unfolding vd .
    then show ?thesis unfolding u32_at_def float_bytes_nth [OF k] by (metis le_value_uint)
  qed
  then have vals: "floats_at f dp (length (samples c)) = map (\<lambda>s. unat (f32 (cleanFloat (s_value s)))) (samples c)"
    unfolding floats_at_def by (intro nth_equalityI) simp_all
  have view: "\<lparr>lc_name = text_at f (p + 32) 32, lc_unit = text_at f (p + 72) 12,
      lc_values = floats_at f (u32_at f (p + 8)) (u32_at f (p + 12))\<rparr> = ld_view f32 c"
    using hf by (simp add: ld_view_def ptr vals text_at_def field text_str_bytes length_fixed_text)
  show ?case
  proof (cases "cs = []")
    case True
    then show ?thesis by (simp add: view nxt)
  next
    case False
    have "read_channels f (length cs) (p + 124) = map (ld_view f32) cs"
      using Cons.prems td tl bs' False by (intro Cons.IH [OF bs']) (auto simp: bs)
    then show ?thesis using False by (simp add: view nxt)
  qed
qed simp

subsection \<open>The whole file\<close>

lemma length_copy_to [simp]: "length (copy_to off src f) = length f"
  by (auto simp: copy_to_def min_def)

lemma copy_to_fit: "off + length src \<le> length f \<Longrightarrow> copy_to off src f = take off f @ src @ drop (off + length src) f"
  by (cases "off < length f"; cases src) (auto simp: copy_to_def)

lemma take_copy_to: "n \<le> off \<Longrightarrow> take n (copy_to off src f) = take n f"
  by (simp add: copy_to_def)

lemma slice_copy_other: "off + n \<le> p \<Longrightarrow> slice off n (copy_to p src f) = slice off n f"
  unfolding slice_def take_drop by (simp add: take_copy_to)

lemma slice_copy_after: "p + length src \<le> off \<Longrightarrow> slice off n (copy_to p src f) = slice off n f"
proof (cases "p + length src \<le> length f")
  case True
  assume "p + length src \<le> off"
  then show ?thesis using True by (simp add: copy_to_fit slice_def)
next
  case False
  assume "p + length src \<le> off"
  then show ?thesis using False by (simp add: slice_def)
qed

lemma slice_copy_inside:
  "off + n \<le> length src \<Longrightarrow> p + length src \<le> length f \<Longrightarrow> slice (p + off) n (copy_to p src f) = slice off n src"
  by (simp add: copy_to_fit slice_skip slice_inside)

lemma copy_all_fit:
  "cursor + length (concat bs) \<le> length f \<Longrightarrow>
   snd (copy_all bs (cursor, f)) = take cursor f @ concat bs @ drop (cursor + length (concat bs)) f"
proof (induction bs arbitrary: cursor f)
  case (Cons b bs)
  then have "copy_to cursor b f = take cursor f @ b @ drop (cursor + length b) f" by (intro copy_to_fit) simp
  then show ?case using Cons by (simp add: copy_all_def ac_simps)
qed (simp add: copy_all_def)

lemma channel_blocks_some:
  "\<exists>bs. channel_blocks f32 cnt i mp dp cs = Some bs \<and> length (concat (map fst bs)) = 124 * length cs \<and> length bs = length cs"
proof (induction cs arbitrary: i mp dp)
  case (Cons c cs)
  let ?dp = "dp + length (float_bytes f32 (samples c))"
  obtain bs where "channel_blocks f32 cnt (i + 1) (mp + CHANNEL_HEADER_SIZE) ?dp cs = Some bs"
      "length (concat (map fst bs)) = 124 * length cs" "length bs = length cs"
    using Cons by blast
  moreover obtain h where h: "channel_header cnt i mp dp c = Some h" by (simp add: channel_header_eq)
  ultimately show ?case using channel_header_fields(1) [OF h] by (simp add: Let_def h)
qed simp

lemma ld_parts:
  obtains head vehicle venue event where
    "ld_head d nm m n = Some head" "length head = 1890" "slice 8 4 head = le_bytes 4 (int HEADER_PTR)" "slice 86 4 head = le_bytes 4 (int n)"
    "ld_vehicle m = Some vehicle" "length vehicle = 260"
    "slice 0 64 vehicle = str_bytes 64 (fixed_text (meta_or m ''vehicle_id'' ''Orion'') 64)" "slice 64 64 vehicle = replicate 64 0"
    "ld_venue m = Some venue" "length venue = 1100"
    "ld_event m = Some event" "length event = 1154"
    "slice 0 64 event = str_bytes 64 (fixed_text (meta_or m ''event'' ''Telemetry Export'') 64)"
    "slice 64 64 event = str_bytes 64 (fixed_text (meta_or m ''session'' []) 64)"
proof -
  let ?v = "str_bytes 64 (fixed_text (meta_or m ''vehicle_id'' ''Orion'') 64) @ replicate 128 0
    @ le_bytes 4 (parse_int_or_0 (meta_or m ''vehicle_weight'' ''0''))
    @ str_bytes 32 (fixed_text (meta_or m ''vehicle_type'' ''EV'') 32) @ str_bytes 32 (fixed_text (meta_or m ''vehicle_comment'' []) 32)"
  let ?e = "str_bytes 64 (fixed_text (meta_or m ''event'' ''Telemetry Export'') 64) @ str_bytes 64 (fixed_text (meta_or m ''session'' []) 64)
    @ str_bytes 1024 (fixed_text (meta_or m ''long_comment'' []) 1024) @ le_bytes 2 (int VENUE_PTR)"
  let ?n = "str_bytes 64 (fixed_text (meta_or m ''venue'' []) 64) @ replicate 1034 0 @ le_bytes 2 (int VEHICLE_PTR)"
  obtain h where h: "ld_head d nm m n = Some h"
    by (simp add: ld_head_def pack_def head_tokens)
  have len: "length h = 1890"
    using length_pack [OF h [unfolded ld_head_def]] by (simp add: head_tokens sizeOf_def token_size_def)
  have fields: "slice 8 4 h = le_bytes 4 (int HEADER_PTR)" "slice 86 4 h = le_bytes 4 (int n)"
    using h by (auto simp: ld_head_def pack_def head_tokens value_int_def value_text_def slices simp del: le_bytes.simps)
  have v: "ld_vehicle m = Some ?v"
    by (simp add: ld_vehicle_def pack_def vehicle_tokens value_int_def value_text_def del: le_bytes.simps)
  have n: "ld_venue m = Some ?n"
    by (simp add: ld_venue_def pack_def venue_tokens value_int_def value_text_def del: le_bytes.simps)
  have e: "ld_event m = Some ?e"
    by (simp add: ld_event_def pack_def event_tokens value_int_def value_text_def del: le_bytes.simps)
  have zeros: "slice 64 64 ?v = replicate 64 0" by (simp add: slice_skip) (simp add: slice_def)
  show ?thesis
    by (rule that [OF h len fields v _ _ zeros n _ e]) (simp_all add: slices del: le_bytes.simps)
qed

lemma written_file:
  obtains f bs where
    "writeLd f32 parse_date now l m = Some f"
    "channel_blocks f32 (length (log_channels l)) 0 11336 (11336 + 124 * length (log_channels l)) (log_channels l) = Some bs"
    "slice 11336 (124 * length (log_channels l)) f = concat (map fst bs)"
    "slice (11336 + 124 * length (log_channels l)) (length (concat (map snd bs))) f = concat (map snd bs)"
    "length f = 11336 + 124 * length (log_channels l) + length (concat (map snd bs))"
    "u32_at f 8 = 11336" "slice 86 4 f = le_bytes 4 (int (length (log_channels l)))"
    "slice 1762 64 f = str_bytes 64 (fixed_text (meta_or m ''vehicle_id'' ''Orion'') 64)" "slice 1826 64 f = replicate 64 0"
    "slice 8180 64 f = str_bytes 64 (fixed_text (meta_or m ''event'' ''Telemetry Export'') 64)"
    "slice 8244 64 f = str_bytes 64 (fixed_text (meta_or m ''session'' []) 64)"
proof -
  let ?n = "length (log_channels l)"
  obtain bs where bs: "channel_blocks f32 ?n 0 11336 (11336 + 124 * ?n) (log_channels l) = Some bs"
      and hlen: "length (concat (map fst bs)) = 124 * ?n"
    using channel_blocks_some by blast
  obtain head vehicle venue event where p:
    "ld_head (metadataDate parse_date now m) (log_name l) m ?n = Some head" "length head = 1890"
    "slice 8 4 head = le_bytes 4 (int HEADER_PTR)" "slice 86 4 head = le_bytes 4 (int ?n)"
    "ld_vehicle m = Some vehicle" "length vehicle = 260"
    "slice 0 64 vehicle = str_bytes 64 (fixed_text (meta_or m ''vehicle_id'' ''Orion'') 64)" "slice 64 64 vehicle = replicate 64 0"
    "ld_venue m = Some venue" "length venue = 1100" "ld_event m = Some event" "length event = 1154"
    "slice 0 64 event = str_bytes 64 (fixed_text (meta_or m ''event'' ''Telemetry Export'') 64)"
    "slice 64 64 event = str_bytes 64 (fixed_text (meta_or m ''session'' []) 64)"
    by (rule ld_parts)
  define fsize where "fsize = 11336 + 124 * ?n + length (concat (map snd bs))"
  define base where "base = copy_to 8180 event (copy_to 5078 venue (copy_to 1762 vehicle (copy_to 0 head (replicate fsize 0))))"
  define f where "f = snd (copy_all (map fst bs @ map snd bs) (11336, base))"
  have blen: "length base = fsize" by (simp add: base_def)
  have f: "f = take 11336 base @ concat (map fst bs) @ concat (map snd bs)"
    unfolding f_def by (subst copy_all_fit) (simp_all add: blen fsize_def hlen)
  have "sum_list (map (length \<circ> snd) bs) = length (concat (map snd bs))" by (simp add: length_concat)
  then have w: "writeLd f32 parse_date now l m = Some f"
    using bs p by (simp add: writeLd_def Let_def header_size HEADER_PTR_def VEHICLE_PTR_def VENUE_PTR_def EVENT_PTR_def
        f_def base_def fsize_def ac_simps)
  have tlen: "length (take 11336 base) = 11336" by (simp add: blen fsize_def)
  have pre: "slice off k f = slice off k base" if "off + k \<le> 11336" for off k
  proof -
    have "off + k \<le> length (take 11336 base)" using that tlen by simp
    then show ?thesis unfolding f by (simp only: slice_inside slice_take [OF that])
  qed
  have "8 + 4 \<le> length head" "86 + 4 \<le> length head" "0 + length head \<le> length (replicate fsize (0 :: byte))"
    by (simp_all add: p fsize_def)
  note hd = slice_copy_inside [OF this(1,3)] slice_copy_inside [OF this(2,3)]
  have h8: "slice 8 4 f = le_bytes 4 (int 11336)" "slice 86 4 f = le_bytes 4 (int ?n)"
    using hd p(3,4) by (simp_all add: pre base_def slice_copy_other HEADER_PTR_def del: le_bytes.simps)
  have vl: "1762 + length vehicle \<le> length (copy_to 0 head (replicate fsize 0))"
    and el: "8180 + length event \<le> length (copy_to 5078 venue (copy_to 1762 vehicle (copy_to 0 head (replicate fsize 0))))"
    by (simp_all add: p fsize_def)
  have v: "slice 1762 64 f = slice 0 64 vehicle" "slice 1826 64 f = slice 64 64 vehicle"
    using slice_copy_inside [OF _ vl, of 0 64] slice_copy_inside [OF _ vl, of 64 64]
    by (simp_all add: pre base_def slice_copy_other p)
  have e: "slice 8180 64 f = slice 0 64 event" "slice 8244 64 f = slice 64 64 event"
    using slice_copy_inside [OF _ el, of 0 64] slice_copy_inside [OF _ el, of 64 64]
    by (simp_all add: pre base_def p)
  have u: "u32_at f 8 = 11336" unfolding u32_at_def h8 by (rule le_value_nat) simp
  show ?thesis
  proof (rule that [OF w bs])
    show "slice 11336 (124 * ?n) f = concat (map fst bs)"
      unfolding f using hlen tlen by (simp add: slice_skip slice_first)
    show "slice (11336 + 124 * ?n) (length (concat (map snd bs))) f = concat (map snd bs)"
      unfolding f using hlen tlen by (simp add: slice_skip slice_last)
    show "length f = 11336 + 124 * ?n + length (concat (map snd bs))"
      unfolding f using hlen tlen by simp
  qed (simp_all only: u h8 v e p)
qed

lemma ld_total: "\<exists>f. writeLd f32 parse_date now l m = Some f"
  by (rule written_file [of f32 parse_date now l m]) blast

lemma ld_readable:
  assumes "writeLd f32 parse_date now l m = Some file" "length file < 2 ^ 32"
  shows "readLd file = map (ld_view f32) (log_channels l)"
proof -
  obtain f bs where f: "writeLd f32 parse_date now l m = Some f"
    "channel_blocks f32 (length (log_channels l)) 0 11336 (11336 + 124 * length (log_channels l)) (log_channels l) = Some bs"
    "slice 11336 (124 * length (log_channels l)) f = concat (map fst bs)"
    "slice (11336 + 124 * length (log_channels l)) (length (concat (map snd bs))) f = concat (map snd bs)"
    "length f = 11336 + 124 * length (log_channels l) + length (concat (map snd bs))"
    "u32_at f 8 = 11336" "slice 86 4 f = le_bytes 4 (int (length (log_channels l)))"
    by (rule written_file)
  have eq: "file = f" using f(1) assms(1) by simp
  have n: "u32_at f 86 = length (log_channels l)"
    unfolding u32_at_def f(7) using assms(2) eq f(5) by (intro le_value_nat) simp
  show ?thesis
  proof (cases "log_channels l = []")
    case True
    then show ?thesis by (simp add: readLd_def n eq)
  next
    case False
    then have "read_channels f (length (log_channels l)) 11336 = map (ld_view f32) (log_channels l)"
      using assms(2) eq f(5) by (intro read_chain [OF f(2) _ _ f(3,4)]) simp_all
    then show ?thesis by (simp only: readLd_def n f(6) eq)
  qed
qed

lemma channel_blocks_data:
  "channel_blocks f32 cnt i mp dp cs = Some bs \<Longrightarrow> length (concat (map snd bs)) = 4 * sum_list (map (length \<circ> samples) cs)"
  by (induction cs arbitrary: i mp dp bs) (auto simp: Let_def length_float_bytes split: option.splits)

lemma ld_length:
  assumes "writeLd f32 parse_date now l m = Some file"
  shows "length file = 11336 + 124 * length (log_channels l) + 4 * sum_list (map (length \<circ> samples) (log_channels l))"
proof -
  obtain f bs where f: "writeLd f32 parse_date now l m = Some f"
    "channel_blocks f32 (length (log_channels l)) 0 11336 (11336 + 124 * length (log_channels l)) (log_channels l) = Some bs"
    "length f = 11336 + 124 * length (log_channels l) + length (concat (map snd bs))"
    by (rule written_file)
  then show ?thesis using assms channel_blocks_data by simp
qed

text \<open>C33: A written file can be read back. The writer never fails, and for a file of less than 4 GiB a reader that
  starts from the header's pointer and count and follows the next pointers finds every channel of the log that has
  samples, in order, with its name, its unit and all its samples.\<close>

theorem ld_file_readable:
  "\<exists>f. writeLd f32 parse_date now l m = Some f
     \<and> (length f < 2 ^ 32 \<longrightarrow> readLd f = map (ld_view f32) (log_channels l))"
  using ld_total ld_readable by metis

definition ramp_log :: data_log where
  "ramp_log = \<lparr>log_name = ''ramp'', channels = [(''speed'', ramp)], log_metadata = []\<rparr>"

definition noon :: utc_date where
  "noon = \<lparr>d_year = 2026, d_month = 3, d_day = 1, d_hours = 12, d_minutes = 0, d_seconds = 0\<rparr>"

theorem ld_file_readable_witness:
  "\<exists>f. writeLd (\<lambda>r. word_of_int \<lfloor>r\<rfloor>) (\<lambda>_. None) noon ramp_log [] = Some f
     \<and> readLd f = [\<lparr>lc_name = ''Speed'', lc_unit = ''mph'', lc_values = [0, 10, 20]\<rparr>]"
proof -
  let ?f32 = "\<lambda>r. word_of_int \<lfloor>r\<rfloor> :: 32 word"
  have cs: "log_channels ramp_log = [ramp]" by (simp add: log_channels_def ramp_log_def ramp_def)
  obtain f where f: "writeLd ?f32 (\<lambda>_. None) noon ramp_log [] = Some f"
    "length f < 2 ^ 32 \<longrightarrow> readLd f = map (ld_view ?f32) (log_channels ramp_log)"
    using ld_file_readable by blast
  have "length f < 2 ^ 32" using ld_length [OF f(1)] by (simp add: cs ramp_def)
  then show ?thesis
    using f by (simp add: cs ld_view_def ramp_def cleanFloat_def clamp_rat_def c_text_def fixed_text_def)
qed

text \<open>The header's own event and session never reach the file: the vehicle block, which starts where they stand,
  overwrites both, the first with the name of the vehicle and the second with zeros. Only the event block keeps them.\<close>

theorem ld_head_event_lost:
  "\<exists>f. writeLd f32 parse_date now l m = Some f
     \<and> text_at f 1762 64 = c_text (fixed_text (meta_or m ''vehicle_id'' ''Orion'') 64) \<and> text_at f 1826 64 = []
     \<and> text_at f 8180 64 = c_text (fixed_text (meta_or m ''event'' ''Telemetry Export'') 64)
     \<and> text_at f 8244 64 = c_text (fixed_text (meta_or m ''session'' []) 64)"
proof -
  obtain f bs where "writeLd f32 parse_date now l m = Some f"
    "slice 1762 64 f = str_bytes 64 (fixed_text (meta_or m ''vehicle_id'' ''Orion'') 64)" "slice 1826 64 f = replicate 64 0"
    "slice 8180 64 f = str_bytes 64 (fixed_text (meta_or m ''event'' ''Telemetry Export'') 64)"
    "slice 8244 64 f = str_bytes 64 (fixed_text (meta_or m ''session'' []) 64)"
    by (rule written_file)
  then show ?thesis by (auto simp: text_at_def text_str_bytes length_fixed_text)
qed

end
