(* ===== verification/MotecLdx.thy ===== *)
theory MotecLdx
  imports JsonValue "HOL-Library.Product_Lexorder"
begin

text \<open>
  The beacon file beside a log, \<^verbatim>\<open>writeLdx\<close> of \<^verbatim>\<open>viewer_tool/src/lib/motec/motecLd.ts\<close>.
\<close>

fun thin_times :: "rat option \<Rightarrow> rat list \<Rightarrow> rat list" where
  "thin_times prev [] = []"
| "thin_times prev (v # vs) = (case prev of
       Some p \<Rightarrow> if v - p < 1 / 1000 then thin_times prev vs else v # thin_times (Some v) vs
     | None \<Rightarrow> v # thin_times (Some v) vs)"

definition normalTimes :: "rat list \<Rightarrow> rat list" where
  "normalTimes vs = thin_times None (sort vs)"

record marker =
  mk_primary :: bool
  mk_name :: string
  mk_time :: rat

definition escape_char :: "char \<Rightarrow> string" where
  "escape_char c = (if c = CHR ''&'' then ''&amp;'' else if c = CHR ''<'' then ''&lt;''
     else if c = CHR ''>'' then ''&gt;'' else if c = CHR 0x22 then ''&quot;'' else [c])"

definition xmlEscape :: "string \<Rightarrow> string" where
  "xmlEscape s = concat (map escape_char s)"

definition markers :: "rat list \<Rightarrow> rat list \<Rightarrow> marker list" where
  "markers primary split =
     (let ps = normalTimes primary; ss = normalTimes split;
          ms = map (\<lambda>i. \<lparr>mk_primary = True, mk_name = ''Manual.'' @ nat_text (i + 1), mk_time = ps ! i\<rparr>) [0..<length ps]
             @ map (\<lambda>i. \<lparr>mk_primary = False, mk_name = ''Split.'' @ nat_text (i + 1), mk_time = ss ! i\<rparr>) [0..<length ss]
      in sort_key (\<lambda>m. (mk_time m, if mk_primary m then 0 else 1 :: nat)) ms)"

definition attr :: "string \<Rightarrow> string \<Rightarrow> string" where
  "attr k v = '' '' @ k @ ''='' @ [CHR 0x22] @ v @ [CHR 0x22]"

definition marker_xml :: "marker \<Rightarrow> string" where
  "marker_xml m = ''        <Marker'' @ attr ''Version'' ''100'' @ attr ''ClassName'' (if mk_primary m then ''BCN'' else ''SPLTBCN'')
     @ attr ''Name'' (xmlEscape (mk_name m)) @ attr ''Flags'' ''77'' @ attr ''Time'' (to_fixed 6 (JFin (mk_time m * 1000000))) @ '' />''"

definition writeLdx :: "rat list \<Rightarrow> rat list \<Rightarrow> string" where
  "writeLdx primary split = join [CHR 0x0A]
     [''<?xml version='' @ [CHR 0x27] @ ''1.0'' @ [CHR 0x27] @ '' encoding='' @ [CHR 0x27] @ ''utf-8'' @ [CHR 0x27] @ ''?>'',
      ''<LDXFile'' @ attr ''Version'' ''1.6'' @ attr ''Locale'' ''English'' @ ''>'',
      ''  <Layers>'',
      ''    <Layer>'',
      ''      <MarkerBlock>'',
      ''        <MarkerGroup'' @ attr ''Name'' ''Beacons'' @ attr ''Index'' ''3'' @ ''>'',
      join [CHR 0x0A] (map marker_xml (markers primary split)),
      ''        </MarkerGroup>'',
      ''      </MarkerBlock>'',
      ''      <RangeBlock />'',
      ''      <Details>'',
      ''        <String'' @ attr ''Id'' ''Total Laps'' @ attr ''Value'' (nat_text (length (normalTimes primary) + 1)) @ '' />'',
      ''      </Details>'',
      ''    </Layer>'',
      ''  </Layers>'',
      ''</LDXFile>'',
      []]"

lemma thin_spaced:
  "sorted vs \<Longrightarrow> sorted_wrt (\<lambda>a b. a + 1 / 1000 \<le> b) (thin_times p vs)
     \<and> (\<forall>q. p = Some q \<longrightarrow> list_all (\<lambda>b. q + 1 / 1000 \<le> b) (thin_times p vs)) \<and> set (thin_times p vs) \<subseteq> set vs"
proof (induction vs arbitrary: p)
  case (Cons v vs)
  have s: "sorted vs" "\<forall>w \<in> set vs. v \<le> w" using Cons.prems by simp_all
  have keep: "sorted_wrt (\<lambda>a b. a + 1 / 1000 \<le> b) (v # thin_times (Some v) vs)"
    "set (v # thin_times (Some v) vs) \<subseteq> set (v # vs)"
    using Cons.IH [OF s(1), of "Some v"] by (auto simp: list_all_iff)
  show ?case
  proof (cases p)
    case None
    then show ?thesis using keep by simp
  next
    case (Some q)
    show ?thesis
    proof (cases "v - q < 1 / 1000")
      case True
      then show ?thesis using Some Cons.IH [OF s(1), of "Some q"] by auto
    next
      case False
      moreover have "\<forall>b \<in> set (thin_times (Some v) vs). v \<le> b" using keep(2) s(2) by auto
      ultimately have "list_all (\<lambda>b. q + 1 / 1000 \<le> b) (v # thin_times (Some v) vs)"
        by (fastforce simp: list_all_iff)
      then show ?thesis using Some False keep by simp
    qed
  qed
qed simp

lemma thin_close:
  "v \<in> set vs \<Longrightarrow> sorted vs \<Longrightarrow> (\<exists>k \<in> set (thin_times p vs). k \<le> v \<and> v - k < 1 / 1000) \<or> (\<exists>q. p = Some q \<and> v - q < 1 / 1000)"
proof (induction vs arbitrary: p)
  case (Cons u vs)
  show ?case
  proof (cases "v = u")
    case True
    then show ?thesis by (auto split: option.splits)
  next
    case False
    then have v: "v \<in> set vs" "sorted vs" "u \<le> v" using Cons.prems by auto
    then show ?thesis using Cons.IH [of "Some u"] Cons.IH [of p] by (fastforce split: option.splits)
  qed
qed simp

text \<open>Beacons at least a millisecond apart are kept; every beacon is within a millisecond of a kept one.\<close>

lemma normalTimes_sound:
  "sorted_wrt (\<lambda>a b. a + 1 / 1000 \<le> b) (normalTimes vs)" "set (normalTimes vs) \<subseteq> set vs"
  "v \<in> set vs \<Longrightarrow> \<exists>k \<in> set (normalTimes vs). k \<le> v \<and> v - k < 1 / 1000"
  using thin_spaced [of "sort vs" None] thin_close [of v "sort vs" None] by (auto simp: normalTimes_def)

lemma markers_sorted: "sorted (map mk_time (markers primary split))"
proof -
  have "sorted (map (\<lambda>m. (mk_time m, if mk_primary m then 0 else 1 :: nat)) (markers primary split))"
    by (simp add: markers_def Let_def)
  then show ?thesis unfolding sorted_map by (rule sorted_wrt_mono_rel [rotated]) (auto simp: less_eq_prod_def)
qed

end
