(* ===== verification/MotecZip.thy ===== *)
theory MotecZip
  imports Bytes
begin

text \<open>
  The archive writer, \<^verbatim>\<open>viewer_tool/src/lib/motec/zip.ts\<close>. The checksum of the platform is the parameter
  \<open>crc32\<close>; the writes of the source throw when a number does not fit its width, which is \<open>None\<close> here.
  A reader that starts from the end record and follows the central directory states what an archive means.
\<close>

record local_date =
  z_year :: nat
  z_month :: nat
  z_day :: nat
  z_hours :: nat
  z_minutes :: nat
  z_seconds :: nat

unbundle bit_operations_syntax

text \<open>A year before 1980 gives a negative number, which no write takes.\<close>

definition dos_time :: "local_date \<Rightarrow> int" where
  "dos_time d = push_bit 11 (int (z_hours d)) OR push_bit 5 (int (z_minutes d)) OR (int (z_seconds d) div 2)"

definition dos_date :: "local_date \<Rightarrow> int" where
  "dos_date d = push_bit 9 (int (z_year d) - 1980) OR push_bit 5 (int (z_month d)) OR int (z_day d)"

definition checked :: "nat \<Rightarrow> int \<Rightarrow> buffer option" where
  "checked n v = (if 0 \<le> v \<and> v < 256 ^ n then Some (le_bytes n v) else None)"

definition packed :: "(nat \<times> int) list \<Rightarrow> buffer option" where
  "packed fs = map_option concat (those (map (\<lambda>(n, v). checked n v) fs))"

definition utf8 :: "string \<Rightarrow> buffer" where
  "utf8 s = map (\<lambda>c. word_of_nat (of_char c)) s"

type_synonym entry = "string \<times> buffer"

definition local_header :: "int \<Rightarrow> int \<Rightarrow> 32 word \<Rightarrow> entry \<Rightarrow> buffer option" where
  "local_header time date crc e = packed
     [(4, 67324752), (2, 20), (2, 0), (2, 0), (2, time), (2, date), (4, uint crc),
      (4, int (length (snd e))), (4, int (length (snd e))), (2, int (length (utf8 (fst e)))), (2, 0)]"

definition central_header :: "int \<Rightarrow> int \<Rightarrow> 32 word \<Rightarrow> nat \<Rightarrow> entry \<Rightarrow> buffer option" where
  "central_header time date crc off e = packed
     [(4, 33639248), (2, 20), (2, 20), (2, 0), (2, 0), (2, time), (2, date), (4, uint crc),
      (4, int (length (snd e))), (4, int (length (snd e))), (2, int (length (utf8 (fst e)))),
      (2, 0), (2, 0), (2, 0), (2, 0), (4, 0), (4, int off)]"

fun zip_entries :: "(buffer \<Rightarrow> 32 word) \<Rightarrow> int \<Rightarrow> int \<Rightarrow> nat \<Rightarrow> entry list \<Rightarrow> (buffer list \<times> buffer list \<times> nat) option" where
  "zip_entries crc32 time date off [] = Some ([], [], off)"
| "zip_entries crc32 time date off (e # es) =
     (case (local_header time date (crc32 (snd e)) e, central_header time date (crc32 (snd e)) off e) of
        (Some l, Some c) \<Rightarrow>
          (case zip_entries crc32 time date (off + (length l + length (utf8 (fst e)) + length (snd e))) es of
             Some (ls, cs, off') \<Rightarrow> Some (l # utf8 (fst e) # snd e # ls, c # utf8 (fst e) # cs, off')
           | None \<Rightarrow> None)
      | _ \<Rightarrow> None)"

definition end_record :: "nat \<Rightarrow> nat \<Rightarrow> nat \<Rightarrow> buffer option" where
  "end_record n csize off = packed
     [(4, 101010256), (2, 0), (2, 0), (2, int n), (2, int n), (4, int csize), (4, int off), (2, 0)]"

definition buildZip :: "(buffer \<Rightarrow> 32 word) \<Rightarrow> local_date \<Rightarrow> entry list \<Rightarrow> buffer option" where
  "buildZip crc32 now es = (case zip_entries crc32 (dos_time now) (dos_date now) 0 es of
       Some (ls, cs, off) \<Rightarrow>
         map_option (\<lambda>e. concat (ls @ cs @ [e])) (end_record (length es) (sum_list (map length cs)) off)
     | None \<Rightarrow> None)"

subsection \<open>Reading an archive\<close>

definition u16_at :: "buffer \<Rightarrow> nat \<Rightarrow> nat" where
  "u16_at f off = le_value (slice off 2 f)"

definition bytes_text :: "buffer \<Rightarrow> string" where
  "bytes_text b = map (\<lambda>x. char_of (unat x)) b"

record read_entry =
  re_name :: string
  re_data :: buffer
  re_crc :: nat

definition central_entry :: "buffer \<Rightarrow> nat \<Rightarrow> read_entry" where
  "central_entry z p = (let lo = u32_at z (p + 42) in
     \<lparr>re_name = bytes_text (slice (p + 46) (u16_at z (p + 28)) z),
      re_data = slice (lo + 30 + u16_at z (lo + 26) + u16_at z (lo + 28)) (u32_at z (p + 24)) z,
      re_crc = u32_at z (p + 16)\<rparr>)"

fun read_central :: "buffer \<Rightarrow> nat \<Rightarrow> nat \<Rightarrow> read_entry list" where
  "read_central z 0 p = []"
| "read_central z (Suc k) p = central_entry z p
     # read_central z k (p + 46 + u16_at z (p + 28) + u16_at z (p + 30) + u16_at z (p + 32))"

definition readZip :: "buffer \<Rightarrow> read_entry list" where
  "readZip z = (let e = length z - 22 in read_central z (u16_at z (e + 10)) (u32_at z (e + 16)))"

subsection \<open>Headers\<close>

lemma le_value_fits: "0 \<le> v \<Longrightarrow> v < 256 ^ n \<Longrightarrow> le_value (le_bytes n v) = nat v"
  by (simp add: le_value_le_bytes)

lemma packed_Cons: "packed ((n, v) # fs) = Some b \<longleftrightarrow>
   0 \<le> v \<and> v < 256 ^ n \<and> (\<exists>r. packed fs = Some r \<and> b = le_bytes n v @ r)"
  by (auto simp: packed_def checked_def)

lemma packed_Nil: "packed [] = Some b \<longleftrightarrow> b = []"
  by (auto simp: packed_def)

lemma local_header_fields:
  assumes "local_header time date crc e = Some h"
  shows "length h = 30" "slice 26 2 h = le_bytes 2 (int (length (fst e)))" "slice 28 2 h = le_bytes 2 0"
    "length (fst e) < 2 ^ 16" "length (snd e) < 2 ^ 32"
  using assms unfolding local_header_def packed_Cons packed_Nil by (auto simp: slices utf8_def simp del: le_bytes.simps)

lemma central_header_fields:
  assumes "central_header time date crc off e = Some h"
  shows "length h = 46" "slice 16 4 h = le_bytes 4 (uint crc)" "slice 24 4 h = le_bytes 4 (int (length (snd e)))"
    "slice 28 2 h = le_bytes 2 (int (length (fst e)))" "slice 30 2 h = le_bytes 2 0" "slice 32 2 h = le_bytes 2 0"
    "slice 42 4 h = le_bytes 4 (int off)" "off < 2 ^ 32"
  using assms unfolding central_header_def packed_Cons packed_Nil by (auto simp: slices utf8_def simp del: le_bytes.simps)

lemma end_record_fields:
  assumes "end_record n csize off = Some h"
  shows "length h = 22" "slice 10 2 h = le_bytes 2 (int n)" "slice 16 4 h = le_bytes 4 (int off)" "n < 2 ^ 16" "off < 2 ^ 32"
  using assms unfolding end_record_def packed_Cons packed_Nil by (auto simp: slices simp del: le_bytes.simps)

lemma bytes_text_utf8 [simp]: "bytes_text (utf8 s) = s"
  by (simp add: bytes_text_def utf8_def comp_def char_byte)

lemma length_utf8 [simp]: "length (utf8 s) = length s"
  by (simp add: utf8_def)

text \<open>An entry as a reader should see it.\<close>

definition zip_view :: "(buffer \<Rightarrow> 32 word) \<Rightarrow> entry \<Rightarrow> read_entry" where
  "zip_view crc32 e = \<lparr>re_name = fst e, re_data = snd e, re_crc = unat (crc32 (snd e))\<rparr>"

lemma zip_offset: "zip_entries crc32 t d off es = Some (ls, cs, off') \<Longrightarrow> off' = off + length (concat ls)"
  by (induction es arbitrary: off ls cs) (simp, fastforce split: option.splits prod.splits)

lemma read_entries:
  assumes "zip_entries crc32 t d off es = Some (ls, cs, off')"
    and "slice off (length (concat ls)) z = concat ls" "slice p (length (concat cs)) z = concat cs"
  shows "read_central z (length es) p = map (zip_view crc32) es"
  using assms
proof (induction es arbitrary: off p ls cs)
  case (Cons e es)
  obtain l c ls' cs' where lc: "local_header t d (crc32 (snd e)) e = Some l" "central_header t d (crc32 (snd e)) off e = Some c"
    and rest: "zip_entries crc32 t d (off + (length l + length (utf8 (fst e)) + length (snd e))) es = Some (ls', cs', off')"
    and ls: "ls = l # utf8 (fst e) # snd e # ls'" and cs: "cs = c # utf8 (fst e) # cs'"
    using Cons.prems(1) by (auto split: option.splits prod.splits)
  note l = local_header_fields [OF lc(1)] and c = central_header_fields [OF lc(2)]
  let ?nl = "length (fst e)"
  have loc: "slice (off + a) k z = slice a k (concat ls)" if "a + k \<le> length (concat ls)" for a k
    using slice_within [OF that, of off z] Cons.prems(2) by simp
  have cen: "slice (p + a) k z = slice a k (concat cs)" if "a + k \<le> length (concat cs)" for a k
    using slice_within [OF that, of p z] Cons.prems(3) by simp
  have chead: "slice (p + a) k z = slice a k c" if "a + k \<le> 46" for a k
    using that cen [of a k] c(1) by (simp add: cs slice_inside)
  have cname: "slice (p + 46) ?nl z = utf8 (fst e)" using cen [of 46 ?nl] c(1) by (simp add: cs slices)
  have ctail: "slice (p + (46 + ?nl)) (length (concat cs')) z = concat cs'"
    using cen [of "46 + ?nl" "length (concat cs')"] c(1) by (simp add: cs slices)
  have lhead: "slice (off + a) k z = slice a k l" if "a + k \<le> 30" for a k
    using that loc [of a k] l(1) by (simp add: ls slice_inside)
  have ldata: "slice (off + (30 + ?nl)) (length (snd e)) z = snd e"
    using loc [of "30 + ?nl" "length (snd e)"] l(1) by (simp add: ls slices)
  have ltail: "slice (off + (30 + ?nl + length (snd e))) (length (concat ls')) z = concat ls'"
    using loc [of "30 + ?nl + length (snd e)" "length (concat ls')"] l(1) by (simp add: ls slices)
  have n16: "le_value (le_bytes 2 (int ?nl)) = ?nl" "le_value (le_bytes 2 0) = 0"
    using l(4) by (simp_all add: le_value_fits del: le_bytes.simps)
  have at: "u32_at z (p + 42) = off" "u16_at z (p + 28) = ?nl" "u16_at z (p + 30) = 0" "u16_at z (p + 32) = 0"
    "u32_at z (p + 24) = length (snd e)" "u32_at z (p + 16) = unat (crc32 (snd e))"
    "u16_at z (off + 26) = ?nl" "u16_at z (off + 28) = 0"
    by (simp_all only: u32_at_def u16_at_def chead lhead c l n16 le_value_nat le_value_uint)
  have "central_entry z p = zip_view crc32 e"
    using ldata by (simp add: central_entry_def at cname zip_view_def add.assoc)
  moreover have "read_central z (length es) (p + (46 + ?nl)) = map (zip_view crc32) es"
    using Cons.IH [OF rest _ ctail] ltail l(1) by simp
  ultimately show ?case by (simp add: at add.assoc)
qed simp

lemma zip_read:
  assumes "buildZip crc32 now es = Some z"
  shows "readZip z = map (zip_view crc32) es"
proof -
  obtain ls cs off e where z: "zip_entries crc32 (dos_time now) (dos_date now) 0 es = Some (ls, cs, off)"
      "end_record (length es) (sum_list (map length cs)) off = Some e" "z = concat ls @ concat cs @ e"
    using assms by (auto simp: buildZip_def split: option.splits prod.splits)
  note e = end_record_fields [OF z(2)]
  have off: "off = length (concat ls)" using zip_offset [OF z(1)] by simp
  have tail: "length z - 22 = length (concat ls @ concat cs)" by (simp add: z(3) e(1))
  have "slice (length (concat ls @ concat cs) + a) k z = slice a k e" if "a + k \<le> 22" for a k
    using that unfolding z(3) by (simp add: slice_def)
  then have "u16_at z (length z - 22 + 10) = length es" "u32_at z (length z - 22 + 16) = off"
    unfolding tail u16_at_def u32_at_def using e(4,5) by (simp_all add: e le_value_nat le_value_fits del: le_bytes.simps)
  moreover have "read_central z (length es) off = map (zip_view crc32) es"
    by (rule read_entries [OF z(1)]) (simp_all add: z(3) off slices)
  ultimately show ?thesis by (simp add: readZip_def Let_def)
qed

text \<open>An archive can be read back. Whenever the writer returns, a reader that starts from the end record finds
  every entry, in order, with its name, its data and its checksum.\<close>

theorem zip_readable:
  assumes "buildZip crc32 now es = Some z"
  shows "readZip z = map (zip_view crc32) es"
  using assms by (rule zip_read)

definition small_archive :: "entry list" where
  "small_archive = [(''run.ld'', [1, 2, 3]), (''run.ldx'', [])]"

definition march_first :: local_date where
  "march_first = \<lparr>z_year = 2026, z_month = 3, z_day = 1, z_hours = 12, z_minutes = 30, z_seconds = 59\<rparr>"

theorem zip_readable_witness:
  "\<exists>z. buildZip (\<lambda>b. of_nat (length b)) march_first small_archive = Some z
     \<and> readZip z = [\<lparr>re_name = ''run.ld'', re_data = [1, 2, 3], re_crc = 3\<rparr>, \<lparr>re_name = ''run.ldx'', re_data = [], re_crc = 0\<rparr>]"
proof -
  have "buildZip (\<lambda>b. of_nat (length b)) march_first small_archive \<noteq> None"
    by (simp add: buildZip_def small_archive_def march_first_def dos_time_def dos_date_def local_header_def central_header_def
        end_record_def packed_def checked_def utf8_def del: le_bytes.simps)
  then obtain z where z: "buildZip (\<lambda>b. of_nat (length b)) march_first small_archive = Some z" by blast
  then show ?thesis
    using zip_readable [OF z] by (simp add: small_archive_def zip_view_def)
qed

end
