(* ===== verification/MotecLive.thy ===== *)
theory MotecLive
  imports MotecStores MotecLd MotecLdx MotecZip CarStatus
begin

text \<open>
  Live samples and the export of a live lap, \<^verbatim>\<open>viewer_tool/src/lib/motec/live.ts\<close>.

  A payload is the parsed message, \<open>None\<close> when it does not parse. The current time, the text of a date
  and the binary formats' float and checksum are parameters. Writing the files is not modelled; an
  export is the list of the files it writes and the archive.
\<close>

subsection \<open>Topics\<close>

definition kafkaTopicFor :: "env \<Rightarrow> string \<Rightarrow> string option \<Rightarrow> string option \<Rightarrow> string" where
  "kafkaTopicFor env src settingsPrefix requested =
     (let t = trim (case requested of Some r \<Rightarrow> r | None \<Rightarrow> []);
          own = (case settingsPrefix of Some p \<Rightarrow> trim p | None \<Rightarrow> []);
          fromEnv = (case env ''KAFKA_TOPIC_PREFIX'' of Some p \<Rightarrow> trim p | None \<Rightarrow> []);
          prefix = (if own \<noteq> [] then own else if fromEnv \<noteq> [] then fromEnv else ''grafana_data'')
      in if t \<noteq> [] then t else prefix @ ''_'' @ lower (trim src))"

datatype transport = TKafka | TMqtt | TLocal

definition kafkaTransportFor :: "env \<Rightarrow> string option \<Rightarrow> transport" where
  "kafkaTransportFor env requested =
     (let v = lower (trim (case requested of Some (c # s) \<Rightarrow> c # s | _ \<Rightarrow> env_text env ''KAFKA_MODE'' ''local'')) in
      if v \<in> {''kafka'', ''broker'', ''remote''} then TKafka else if v \<in> {''mqtt'', ''mqtt-broker'', ''aws''} then TMqtt else TLocal)"

subsection \<open>Reading a payload\<close>

definition num :: "json \<Rightarrow> rat option" where
  "num v = (case to_number v of JFin r \<Rightarrow> Some r | _ \<Rightarrow> None)"

text \<open>A code point is one byte that is not a continuation byte.\<close>

definition continuation :: "char \<Rightarrow> bool" where
  "continuation c \<longleftrightarrow> 128 \<le> (of_char c :: nat) \<and> (of_char c :: nat) < 192"

definition safeKey :: "string \<Rightarrow> string" where
  "safeKey s = (let k = trim_chars (\<lambda>c. c = CHR ''_'')
       (map (\<lambda>c. if is_alnum c then lower_char c else CHR ''_'') (filter (\<lambda>c. \<not> continuation c) s))
     in if k = [] then ''value'' else k)"

fun live_walk :: "json \<Rightarrow> string list \<Rightarrow> json" where
  "live_walk v [] = v"
| "live_walk v (p # ps) = (if is_object v \<and> has_field v p then live_walk (field v p) ps else JNull)"

definition first_path :: "json \<Rightarrow> string list \<Rightarrow> json" where
  "first_path v paths = (case filter (\<lambda>w. \<not> nullish w) (map (\<lambda>p. live_walk v (split_on (CHR ''.'') p)) paths) of
       [] \<Rightarrow> JNull | w # _ \<Rightarrow> w)"

fun flat_numbers :: "string \<Rightarrow> json \<Rightarrow> (string \<times> rat) list" where
  "flat_numbers prefix (JObj m) =
     concat (map (\<lambda>(k, child). flat_numbers (if prefix = [] then k else prefix @ ''_'' @ k) child) m)"
| "flat_numbers prefix v = (case num v of Some n \<Rightarrow> [(safeKey prefix, n)] | None \<Rightarrow> [])"

definition flattenNumeric :: "json \<Rightarrow> (string, rat) jsmap" where
  "flattenNumeric v = fold (\<lambda>(k, n) m. jm_set k n m) (flat_numbers [] v) []"

definition numArray :: "json \<Rightarrow> rat list option" where
  "numArray v = (case v of
       JArr (x # xs) \<Rightarrow> Some (map (\<lambda>w. case num w of Some n \<Rightarrow> n | None \<Rightarrow> 0) (x # xs))
     | _ \<Rightarrow> None)"

definition LAT_PATHS :: "string list" where
  "LAT_PATHS = [''latitude'', ''lat'', ''gps_latitude'', ''dynamics_gps_latitude'', ''dynamics.latitude'']"

definition LON_PATHS :: "string list" where
  "LON_PATHS = [''longitude'', ''lon'', ''lng'', ''gps_longitude'', ''dynamics_gps_longitude'', ''dynamics.longitude'']"

definition num_pair :: "json \<Rightarrow> (rat \<times> rat) option" where
  "num_pair v = (case v of
       JArr (x # y # _) \<Rightarrow> (case (num x, num y) of (Some a, Some b) \<Rightarrow> Some (a, b) | _ \<Rightarrow> None)
     | _ \<Rightarrow> None)"

definition gpsOf :: "json \<Rightarrow> rat option \<times> rat option" where
  "gpsOf v = (case (num (first_path v LAT_PATHS), num (first_path v LON_PATHS)) of
       (Some a, Some b) \<Rightarrow> (Some a, Some b)
     | _ \<Rightarrow> (case List.map_filter (\<lambda>p. num_pair (first_path v [p])) [''gps'', ''f_gps'', ''b_gps'', ''dynamics.gps''] of
           (a, b) # _ \<Rightarrow> (Some a, Some b)
         | [] \<Rightarrow> (None, None)))"

definition timestampMs :: "int \<Rightarrow> json \<Rightarrow> int" where
  "timestampMs now v = (case num v of
       None \<Rightarrow> now
     | Some n \<Rightarrow> if n \<le> 0 then now else if n < 10000000000 then \<lfloor>n * 1000\<rfloor> else \<lfloor>n\<rfloor>)"

subsection \<open>Live samples\<close>

record live_sample =
  ls_t :: int
  ls_source :: string
  ls_lat :: "rat option"
  ls_lon :: "rat option"
  ls_speed :: "rat option"
  ls_hv_v :: "rat option"
  ls_hv_c :: "rat option"
  ls_power :: "rat option"
  ls_values :: "(string, rat) jsmap"
  ls_cells :: "rat list option"

definition SPEED_PATHS :: "string list" where
  "SPEED_PATHS = [''gps_speed'', ''dynamics.gps_speed'', ''dynamics_gps_speed'', ''gps_velocity'', ''dash_speed'',
     ''wheel_speed_avg'', ''wheel_speed'', ''speed'']"

definition mean :: "rat list \<Rightarrow> rat" where
  "mean xs = sum_list xs / of_nat (length xs)"

definition live_speed :: "json \<Rightarrow> rat option" where
  "live_speed v =
     (let read = List.map_filter (\<lambda>k. num (first_path v [k])) SPEED_PATHS in
      case filter (\<lambda>x. x > 0) read of
        x # _ \<Rightarrow> Some x
      | [] \<Rightarrow>
          let wheels = filter (\<lambda>x. x > 0) (List.map_filter (\<lambda>k. num (first_path v [k, ''dynamics.'' @ k]))
                [''flw_speed'', ''frw_speed'', ''blw_speed'', ''brw_speed''])
          in if wheels \<noteq> [] then Some (mean wheels) else if read \<noteq> [] then Some 0 else None)"

definition or_else :: "'a option \<Rightarrow> 'a option \<Rightarrow> 'a option" where
  "or_else a b = (case a of Some x \<Rightarrow> Some x | None \<Rightarrow> b)"

definition live_hv_v :: "json \<Rightarrow> rat option" where
  "live_hv_v v = or_else (num (first_path v [''hv_pack_v'', ''pack_hv_pack_v'', ''pack.hv_pack_v'']))
     (num (first_path v [''dc_bus_v'', ''bus_voltage'', ''pack.dc_bus_v'', ''pack.bus_voltage'']))"

definition live_hv_c :: "json \<Rightarrow> rat option" where
  "live_hv_c v = or_else (num (first_path v [''hv_c'', ''pack_hv_c'', ''pack.hv_c'']))
     (num (first_path v [''dc_bus_current'', ''pack.dc_bus_current'']))"

definition live_power :: "json \<Rightarrow> rat option" where
  "live_power v = (case num (first_path v [''power_kw'', ''pack.power_kw'']) of
       Some p \<Rightarrow> Some \<bar>p\<bar>
     | None \<Rightarrow> (case (live_hv_v v, live_hv_c v) of (Some a, Some b) \<Rightarrow> Some (\<bar>a * b\<bar> / 1000) | _ \<Rightarrow> None))"

definition set_missing :: "string \<Rightarrow> rat option \<Rightarrow> (string, rat) jsmap \<Rightarrow> (string, rat) jsmap" where
  "set_missing k x m = (case x of Some n \<Rightarrow> if jm_get m k = None then jm_set k n m else m | None \<Rightarrow> m)"

definition normalizeLivePayload :: "int \<Rightarrow> json option \<Rightarrow> string \<Rightarrow> live_sample option" where
  "normalizeLivePayload now raw src = (case raw of
       Some (JObj m) \<Rightarrow>
         let v = JObj m;
             values = set_missing ''power_kw'' (live_power v) (set_missing ''hv_c'' (live_hv_c v)
               (set_missing ''hv_pack_v'' (live_hv_v v) (set_missing ''speed'' (live_speed v) (flattenNumeric v))))
         in Some \<lparr>ls_t = timestampMs now (first_path v [''time'', ''timestamp'', ''packet_time'', ''packet.time'']),
              ls_source = src, ls_lat = fst (gpsOf v), ls_lon = snd (gpsOf v), ls_speed = live_speed v,
              ls_hv_v = live_hv_v v, ls_hv_c = live_hv_c v, ls_power = live_power v, ls_values = values,
              ls_cells = numArray (first_path v [''cells_temps'', ''pack.cells_temps'', ''pack.cellsTemps'', ''pack_cells_temps''])\<rparr>
     | _ \<Rightarrow> None)"

subsection \<open>Enrichment\<close>

definition pickNum :: "json \<Rightarrow> string list \<Rightarrow> rat option" where
  "pickNum v keys = (if \<not> is_object v then None
     else case List.map_filter (\<lambda>k. num (field v k)) keys of n # _ \<Rightarrow> Some n | [] \<Rightarrow> None)"

definition avgNum :: "rat option list \<Rightarrow> rat option" where
  "avgNum xs = (let ok = List.map_filter id xs in if ok = [] then None else Some (mean ok))"

definition set_some :: "string \<Rightarrow> rat option \<Rightarrow> (string, rat) jsmap \<Rightarrow> (string, rat) jsmap" where
  "set_some k x m = (case x of Some n \<Rightarrow> jm_set k n m | None \<Rightarrow> m)"

definition enriched_gps :: "json \<Rightarrow> live_sample \<Rightarrow> rat option \<times> rat option" where
  "enriched_gps dynamics base = (case num_pair (field dynamics ''gps'') of
       Some (a, b) \<Rightarrow> if a \<noteq> 0 \<or> b \<noteq> 0 then (Some a, Some b) else (ls_lat base, ls_lon base)
     | None \<Rightarrow> (ls_lat base, ls_lon base))"

definition enrichOrionLiveSample :: "json \<Rightarrow> live_sample \<Rightarrow> live_sample" where
  "enrichOrionLiveSample payload base =
     (let dynamics = (if nullish (field payload ''dynamics'') then JObj [] else field payload ''dynamics'');
          pack = (if nullish (field payload ''pack'') then JObj [] else field payload ''pack'');
          lat = fst (enriched_gps dynamics base); lon = snd (enriched_gps dynamics base);
          wheelAvg = avgNum [pickNum dynamics [''flwSpeed''], pickNum dynamics [''frwSpeed''],
                             pickNum dynamics [''blwSpeed''], pickNum dynamics [''brwSpeed'']];
          speed = or_else (pickNum dynamics [''dashSpeed'', ''wheelSpeed'', ''gpsSpeed'']) (or_else wheelAvg (ls_speed base));
          hvV = or_else (pickNum pack [''hvPackV'', ''dcBusV'', ''busVoltage'']) (ls_hv_v base);
          hvC = or_else (pickNum pack [''hvC'', ''dcBusCurrent'']) (ls_hv_c base);
          p0 = or_else (pickNum pack [''powerKw'']) (ls_power base);
          power = (if p0 = None \<or> p0 = Some 0
                   then (case (hvV, hvC) of (Some a, Some b) \<Rightarrow> Some (\<bar>a * b\<bar> / 1000) | _ \<Rightarrow> p0) else p0);
          values = set_some ''gps_longitude'' lon (set_some ''gps_latitude'' lat (set_some ''power_kw'' power
            (set_some ''hv_c'' hvC (set_some ''hv_pack_v'' hvV (set_some ''speed'' speed (ls_values base))))))
      in base\<lparr>ls_lat := lat, ls_lon := lon, ls_speed := speed, ls_hv_v := hvV, ls_hv_c := hvC, ls_power := power,
              ls_values := values\<rparr>)"

subsection \<open>Exporting a lap\<close>

definition liveLabel :: "string \<Rightarrow> string" where
  "liveLabel key = capitalise False (replace_char (CHR ''_'') '' '' key)"

definition liveUnit :: "string \<Rightarrow> string" where
  "liveUnit key = (let l = lower key in
     if str_includes ''speed'' l then ''m/s'' else if str_includes ''rpm'' l then ''rpm''
     else if ends_with ''_v'' l \<or> str_includes ''voltage'' l then ''V''
     else if ends_with ''_c'' l \<or> str_includes ''current'' l then ''A''
     else if str_includes ''power'' l then ''kW'' else if str_includes ''temp'' l then ''C'' else [])"

definition liveQuantity :: "string \<Rightarrow> string" where
  "liveQuantity key = (let l = lower key in
     if str_includes ''speed'' l \<or> str_includes ''rpm'' l then ''speed''
     else if ends_with ''_v'' l \<or> str_includes ''voltage'' l then ''voltage''
     else if ends_with ''_c'' l \<or> str_includes ''current'' l then ''current''
     else if str_includes ''power'' l then ''power'' else if str_includes ''temp'' l then ''temperature'' else ''value'')"

definition safe_file :: "string \<Rightarrow> string" where
  "safe_file s = (let k = trim_chars (\<lambda>c. c = CHR ''_'')
       (map (\<lambda>c. if is_alnum c \<or> c \<in> {CHR ''.'', CHR ''_'', CHR ''-''} then c else CHR ''_'') (filter (\<lambda>c. \<not> continuation c) s))
     in if k = [] then ''live'' else k)"

record lap_sample =
  lap_t :: rat
  lap_values :: "(string, json) jsmap"

definition samples_by_key :: "lap_sample list \<Rightarrow> rat \<Rightarrow> (string, sample list) jsmap" where
  "samples_by_key ss startMs =
     fold (\<lambda>s m. fold (\<lambda>(k, v) m. case to_number v of
             JFin n \<Rightarrow> jm_set k ((case jm_get m k of Some xs \<Rightarrow> xs | None \<Rightarrow> []) @ [\<lparr>s_t = (lap_t s - startMs) / 1000, s_value = JFin n\<rparr>]) m
           | _ \<Rightarrow> m) (lap_values s) m) ss []"

definition live_channel :: "string \<Rightarrow> sample list \<Rightarrow> chan" where
  "live_channel key ss = (case jm_get (channel_lookup ORION_CHANNELS) key of
       Some d \<Rightarrow> \<lparr>ch_name = cd_label d, ch_unit = cd_unit d, ch_quantity = cd_quantity d, samples = ss\<rparr>
     | None \<Rightarrow> \<lparr>ch_name = liveLabel key, ch_unit = liveUnit key, ch_quantity = liveQuantity key, samples = ss\<rparr>)"

definition datalogFromLiveSamples :: "lap_sample list \<Rightarrow> rat \<Rightarrow> string \<Rightarrow> data_log" where
  "datalogFromLiveSamples ss startMs car =
     \<lparr>log_name = car @ ''_live'',
      channels = map (\<lambda>(k, xs). (k, live_channel k xs)) (samples_by_key ss startMs),
      log_metadata = [(''source'', ''kafka_live'')]\<rparr>"

record lap_request =
  lr_car :: string
  lr_label :: string
  lr_track :: string
  lr_frequency :: "rat option"
  lr_samples :: "lap_sample list"
  lr_metadata :: "(string, string) jsmap"

record platform =
  pf_f32 :: "rat \<Rightarrow> 32 word"
  pf_crc32 :: "buffer \<Rightarrow> 32 word"
  pf_parse_date :: "string \<Rightarrow> utc_date option"
  pf_iso :: "rat \<Rightarrow> string"
  pf_utc_now :: utc_date
  pf_local_now :: local_date

definition capital :: "string \<Rightarrow> string" where
  "capital s = (case s of [] \<Rightarrow> [] | c # t \<Rightarrow> upper_char c # t)"

record live_export =
  le_id :: string
  le_files :: "entry list"
  le_zip :: buffer

definition lap_metadata :: "platform \<Rightarrow> lap_request \<Rightarrow> rat \<Rightarrow> (string, string) jsmap" where
  "lap_metadata pf r startMs = fold (\<lambda>(k, v) m. jm_set k v m) (lr_metadata r)
     [(''vehicle_id'', capital (lr_car r)), (''event'', ''Live Telemetry''), (''session'', lr_label r),
      (''short_comment'', lr_label r), (''datetime'', pf_iso pf startMs)]"

definition lap_log :: "lap_request \<Rightarrow> chart_entry list option \<Rightarrow> data_log" where
  "lap_log r chart = (let ss = sort_key lap_t (lr_samples r) in
     log_resample (Some (case lr_frequency r of Some f \<Rightarrow> f | None \<Rightarrow> 50))
       (fst (applyChannelChart (datalogFromLiveSamples ss (lap_t (hd ss)) (lr_car r)) chart)))"

definition exportLiveLap :: "platform \<Rightarrow> lap_request \<Rightarrow> chart_entry list option \<Rightarrow> js_error + live_export" where
  "exportLiveLap pf r chart =
     (if lr_samples r = [] then Inl (Thrown ''No live samples were supplied.'')
      else let ss = sort_key lap_t (lr_samples r); startMs = lap_t (hd ss); endMs = lap_t (last ss) in
        if endMs \<le> startMs then Inl (Thrown ''Live lap samples must span a positive time range.'')
        else let stem = safe_file (capital (lr_car r) @ ''__live_latest'') in
          case writeLd (pf_f32 pf) (pf_parse_date pf) (pf_utc_now pf) (lap_log r chart) (lap_metadata pf r startMs) of
            None \<Rightarrow> Inl RangeError
          | Some ld \<Rightarrow>
              let files = [(stem @ ''.ld'', ld), (stem @ ''.ldx'', utf8 (writeLdx [0, (endMs - startMs) / 1000] []))] in
              (case buildZip (pf_crc32 pf) (pf_local_now pf) files of
                 None \<Rightarrow> Inl RangeError
               | Some z \<Rightarrow> Inr \<lparr>le_id = safe_file (''live_'' @ lr_car r @ ''_'' @ (if lr_track r = [] then ''track'' else lr_track r) @ ''_latest''),
                   le_files = files, le_zip = z\<rparr>))"

subsection \<open>Missing fields\<close>

lemma num_null: "num JNull = Some 0"
  by (simp add: num_def)

text \<open>A field that is missing is read as zero, since the coercion turns the missing value \<^verbatim>\<open>null\<close> into 0. A payload
  without the plain position names is placed at the origin, whatever its \<^verbatim>\<open>gps\<close> pair says; one without a pack voltage
  or current has none even if the bus voltage and current are there, and its power is zero, never their product.\<close>

theorem live_missing_reads_zero:
  assumes "normalizeLivePayload now (Some (JObj m)) src = Some s"
  shows "(first_path (JObj m) LAT_PATHS = JNull \<and> first_path (JObj m) LON_PATHS = JNull \<longrightarrow>
            ls_lat s = Some 0 \<and> ls_lon s = Some 0)
     \<and> (first_path (JObj m) [''hv_pack_v'', ''pack_hv_pack_v'', ''pack.hv_pack_v''] = JNull \<longrightarrow> ls_hv_v s = Some 0)
     \<and> (first_path (JObj m) [''hv_c'', ''pack_hv_c'', ''pack.hv_c''] = JNull \<longrightarrow> ls_hv_c s = Some 0)
     \<and> (first_path (JObj m) [''power_kw'', ''pack.power_kw''] = JNull \<longrightarrow> ls_power s = Some 0)"
  using assms by (auto simp: normalizeLivePayload_def Let_def gpsOf_def live_hv_v_def live_hv_c_def live_power_def num_null or_else_def)

definition gps_payload :: "(string, json) jsmap" where
  "gps_payload = [(''gps'', JArr [JNum (JFin 30), JNum (JFin (- 97))]), (''dc_bus_v'', JNum (JFin 400))]"

theorem live_missing_reads_zero_witness:
  "\<exists>s. normalizeLivePayload 5 (Some (JObj gps_payload)) ''angelique'' = Some s
     \<and> ls_lat s = Some 0 \<and> ls_lon s = Some 0 \<and> ls_hv_v s = Some 0 \<and> ls_hv_c s = Some 0 \<and> ls_power s = Some 0"
proof -
  have none: "first_path (JObj gps_payload) LAT_PATHS = JNull" "first_path (JObj gps_payload) LON_PATHS = JNull"
    "first_path (JObj gps_payload) [''hv_pack_v'', ''pack_hv_pack_v'', ''pack.hv_pack_v''] = JNull"
    "first_path (JObj gps_payload) [''hv_c'', ''pack_hv_c'', ''pack.hv_c''] = JNull"
    "first_path (JObj gps_payload) [''power_kw'', ''pack.power_kw''] = JNull"
    by (simp_all add: first_path_def gps_payload_def LAT_PATHS_def LON_PATHS_def has_field_JObj jm_get_def)
  obtain s where "normalizeLivePayload 5 (Some (JObj gps_payload)) ''angelique'' = Some s"
    by (simp add: normalizeLivePayload_def Let_def)
  then show ?thesis using live_missing_reads_zero [of 5 gps_payload "''angelique''" s] none by blast
qed

subsection \<open>An exported lap\<close>

lemma zip_sizes:
  assumes "buildZip crc32 now es = Some z" "e \<in> set es"
  shows "length (snd e) < 2 ^ 32"
proof -
  have "zip_entries crc32 t d off es = Some r \<Longrightarrow> e \<in> set es \<Longrightarrow> length (snd e) < 2 ^ 32" for t d off r
    by (induction es arbitrary: off r) (auto split: option.splits prod.splits dest: local_header_fields(5))
  then show ?thesis using assms by (auto simp: buildZip_def split: option.splits prod.splits)
qed

text \<open>An exported live lap can be opened. The archive holds exactly the two files that were written, and the log file
  holds every channel of the resampled lap, with its name, its unit and all its samples.\<close>

theorem live_lap_readable:
  assumes "exportLiveLap pf r chart = Inr e"
  shows "\<exists>ld ldx stem. le_files e = [(stem @ ''.ld'', ld), (stem @ ''.ldx'', ldx)]
     \<and> readZip (le_zip e) = map (zip_view (pf_crc32 pf)) (le_files e)
     \<and> readLd ld = map (ld_view (pf_f32 pf)) (log_channels (lap_log r chart))"
proof -
  let ?ss = "sort_key lap_t (lr_samples r)"
  let ?m = "lap_metadata pf r (lap_t (hd ?ss))"
  let ?stem = "safe_file (capital (lr_car r) @ ''__live_latest'')"
  obtain ld z where ld: "writeLd (pf_f32 pf) (pf_parse_date pf) (pf_utc_now pf) (lap_log r chart) ?m = Some ld"
      and files: "le_files e = [(?stem @ ''.ld'', ld), (?stem @ ''.ldx'', utf8 (writeLdx [0, (lap_t (last ?ss) - lap_t (hd ?ss)) / 1000] []))]"
      and z: "buildZip (pf_crc32 pf) (pf_local_now pf) (le_files e) = Some (le_zip e)"
    using assms by (auto simp: exportLiveLap_def Let_def split: if_splits option.splits)
  have "length ld < 2 ^ 32" using zip_sizes [OF z, of "(?stem @ ''.ld'', ld)"] files by simp
  then have "readLd ld = map (ld_view (pf_f32 pf)) (log_channels (lap_log r chart))"
    using ld_readable ld by metis
  then show ?thesis using files zip_read [OF z] by blast
qed

definition demo_lap :: lap_request where
  "demo_lap = \<lparr>lr_car = ''orion'', lr_label = ''Lap 1'', lr_track = [], lr_frequency = Some 1,
     lr_samples = [\<lparr>lap_t = 0, lap_values = [(''v'', JNum (JFin 10))]\<rparr>, \<lparr>lap_t = 1000, lap_values = [(''v'', JNum (JFin 20))]\<rparr>],
     lr_metadata = []\<rparr>"

lemma ldx_demo: "length (writeLdx [0, 1] []) < 2 ^ 31"
  by (simp add: writeLdx_def markers_def normalTimes_def marker_xml_def attr_def Let_def to_fixed_def js_simps
    rat_to_fixed_def fixed_pos_def fixed_nat_def xmlEscape_def escape_char_def pad_start_def rat_round_def less_eq_prod_def upt_rec)

lemma demo_lap_log: "\<exists>c. log_channels (lap_log demo_lap None) = [c] \<and> length (samples c) = 2"
  by (simp add: lap_log_def demo_lap_def datalogFromLiveSamples_def samples_by_key_def applyChannelChart_def log_resample_def
      log_start_def log_end_def log_channels_def live_channel_def channel_lookup_def ORION_CHANNELS_def chan_def_def jm_get_def jm_set_def
      ch_start_def ch_end_def resample_def target_hz_def sample_count_def upt_rec value_at_def Let_def)

definition demo_platform :: platform where
  "demo_platform = \<lparr>pf_f32 = (\<lambda>r. word_of_int \<lfloor>r\<rfloor>), pf_crc32 = (\<lambda>b. of_nat (length b)), pf_parse_date = (\<lambda>_. None),
     pf_iso = (\<lambda>_. ''2026-03-01T12:00:00.000Z''), pf_utc_now = noon, pf_local_now = march_first\<rparr>"

lemma demo_stem: "safe_file (capital ''orion'' @ ''__live_latest'') = ''Orion__live_latest''"
  by code_simp

theorem live_lap_readable_witness:
  "\<exists>e ld. exportLiveLap demo_platform demo_lap None = Inr e \<and> (''Orion__live_latest.ld'', ld) \<in> set (le_files e)
     \<and> readLd ld = map (ld_view (pf_f32 demo_platform)) (log_channels (lap_log demo_lap None))"
proof -
  let ?m = "lap_metadata demo_platform demo_lap 0"
  obtain ld where ld: "writeLd (pf_f32 demo_platform) (pf_parse_date demo_platform) (pf_utc_now demo_platform) (lap_log demo_lap None) ?m = Some ld"
    using ld_total by blast
  have len: "length ld = 11468" using ld_length [OF ld] demo_lap_log by auto
  let ?files = "[(''Orion__live_latest.ld'', ld), (''Orion__live_latest.ldx'', utf8 (writeLdx [0, 1] []))]"
  have "buildZip (pf_crc32 demo_platform) (pf_local_now demo_platform) ?files \<noteq> None"
    using ldx_demo uint_bounded [of "of_nat (length (writeLdx [0, 1] [])) :: 32 word"]
    by (simp add: buildZip_def demo_platform_def march_first_def dos_time_def dos_date_def local_header_def central_header_def
        end_record_def packed_def checked_def len del: le_bytes.simps)
  then obtain z where z: "buildZip (pf_crc32 demo_platform) (pf_local_now demo_platform) ?files = Some z" by blast
  have e: "exportLiveLap demo_platform demo_lap None = Inr \<lparr>le_id = safe_file ''live_orion_track_latest'', le_files = ?files, le_zip = z\<rparr>"
    using ld z demo_stem by (simp add: exportLiveLap_def demo_lap_def Let_def)
  from live_lap_readable [OF e] e show ?thesis by (auto intro!: exI)
qed

end
