(* ===== verification/NumberText.thy ===== *)
theory NumberText
  imports LapTime
begin

text \<open>
  \<^verbatim>\<open>String(x)\<close> of a number with finitely many decimals, as ECMAScript's \<^verbatim>\<open>Number::toString\<close> prints its shortest
  digits: plainly between \<open>10\<^sup>-\<^sup>6\<close> and \<open>10\<^sup>2\<^sup>1\<close>, with an exponent otherwise. \<^verbatim>\<open>Number(text)\<close> reads the number back.
\<close>

subsection \<open>Printing\<close>

definition is_zero_char :: "char \<Rightarrow> bool" where
  "is_zero_char c \<longleftrightarrow> c = CHR ''0''"

definition exponent_text :: "int \<Rightarrow> string" where
  "exponent_text e = ''e'' @ (if e < 0 then ''-'' else ''+'') @ nat_text (nat \<bar>e\<bar>)"

text \<open>\<open>point_text ds n\<close> prints \<open>0.ds \<cdot> 10\<^sup>n\<close>.\<close>

definition point_text :: "string \<Rightarrow> int \<Rightarrow> string" where
  "point_text ds n =
     (let k = length ds in
      if int k \<le> n \<and> n \<le> 21 then ds @ replicate (nat n - k) (CHR ''0'')
      else if 0 < n \<and> n \<le> 21 then take (nat n) ds @ ''.'' @ drop (nat n) ds
      else if - 6 < n \<and> n \<le> 0 then ''0.'' @ replicate (nat (- n)) (CHR ''0'') @ ds
      else take 1 ds @ (if k = 1 then [] else ''.'' @ drop 1 ds) @ exponent_text (n - 1))"

text \<open>\<open>decimal_text k m\<close> prints \<open>m / 10\<^sup>k\<close>.\<close>

definition decimal_text :: "nat \<Rightarrow> int \<Rightarrow> string" where
  "decimal_text k m =
     (if m = 0 then ''0''
      else (if m < 0 then ''-'' else [])
        @ (let ds = nat_text (nat \<bar>m\<bar>) in point_text (trim_right is_zero_char ds) (int (length ds) - int k)))"

subsection \<open>Reading\<close>

lemma scale10_powi: "scale10 r e = r * 10 powi e"
  by (simp add: scale10_def power_int_def field_simps)

lemma exponent_read: "exponent_part ((if e < 0 then ''-'' else ''+'') @ nat_text (nat \<bar>e\<bar>)) = Some e"
proof (cases "e < 0")
  case True
  then show ?thesis
    using nat_text_digits [of "nat (- e)"] nat_text_not_Nil [of "nat (- e)"]
    by (simp add: exponent_part_def Let_def digits_val_nat_text)
next
  case False
  then show ?thesis
    using nat_text_digits [of "nat e"] nat_text_not_Nil [of "nat e"]
    by (simp add: exponent_part_def Let_def digits_val_nat_text)
qed

text \<open>A number text: digits, digits after a point, an exponent.\<close>

definition number_parts :: "string \<Rightarrow> string \<Rightarrow> int option \<Rightarrow> string" where
  "number_parts a b e = a @ (if b = [] then [] else CHR ''.'' # b) @ (case e of None \<Rightarrow> [] | Some x \<Rightarrow> exponent_text x)"

definition parts_value :: "string \<Rightarrow> string \<Rightarrow> int option \<Rightarrow> rat" where
  "parts_value a b e = of_nat (digits_val (a @ b)) / 10 ^ length b * 10 powi (case e of None \<Rightarrow> 0 | Some x \<Rightarrow> x)"

lemma not_digits: "\<not> is_digit (CHR ''.'')" "\<not> is_digit (CHR ''e'')"
  by (simp_all add: is_digit_def)

lemma takeWhile_stop: "list_all is_digit a \<Longrightarrow> \<not> is_digit c \<Longrightarrow>
    takeWhile is_digit (a @ c # t) = a \<and> dropWhile is_digit (a @ c # t) = c # t"
  by (simp add: list_all_iff)

lemma parts_read:
  assumes "a \<noteq> []" "list_all is_digit a" "list_all is_digit b"
  shows "unsigned_decimal (number_parts a b e) = Some (parts_value a b e)"
proof (cases e)
  case None
  show ?thesis
  proof (cases "b = []")
    case True
    then show ?thesis
      using assms(1) by (simp add: None number_parts_def parts_value_def unsigned_decimal_def takeWhile_digits [OF assms(2)] Let_def)
  next
    case False
    then show ?thesis
      using assms(1) takeWhile_stop [OF assms(2) not_digits(1), of b]
      by (simp add: None number_parts_def parts_value_def unsigned_decimal_def takeWhile_digits [OF assms(3)] Let_def)
  qed
next
  case (Some x)
  note stop = takeWhile_stop [OF _ not_digits(2)]
  obtain t where ex: "exponent_text x = CHR ''e'' # t" and t: "exponent_part t = Some x"
    using exponent_read [of x] by (simp add: exponent_text_def)
  show ?thesis
  proof (cases "b = []")
    case True
    then show ?thesis
      using assms(1) stop [OF assms(2)]
      by (simp add: Some number_parts_def parts_value_def unsigned_decimal_def ex t scale10_powi Let_def)
  next
    case False
    then show ?thesis
      using assms(1) takeWhile_stop [OF assms(2) not_digits(1)] stop [OF assms(3)]
      by (simp add: Some number_parts_def parts_value_def unsigned_decimal_def ex t scale10_powi Let_def)
  qed
qed


lemma exponent_digits: "is_digit (last (exponent_text x))" "exponent_text x \<noteq> []" "hd (exponent_text x) = CHR ''e''"
  using digits_hd [OF nat_text_not_Nil nat_text_digits, of "nat \<bar>x\<bar>"] nat_text_not_Nil
  by (simp_all add: exponent_text_def)

lemma parts_ends:
  assumes "a \<noteq> []" "list_all is_digit a" "list_all is_digit b"
  shows "number_parts a b e \<noteq> []" "is_digit (hd (number_parts a b e))" "is_digit (last (number_parts a b e))"
proof -
  show "number_parts a b e \<noteq> []" "is_digit (hd (number_parts a b e))"
    using assms digits_hd [OF assms(1,2)] by (simp_all add: number_parts_def)
  show "is_digit (last (number_parts a b e))"
  proof (cases e)
    case None
    then show ?thesis
      using assms digits_hd [OF assms(1,2)] digits_hd [OF _ assms(3)] by (cases "b = []") (simp_all add: number_parts_def)
  next
    case (Some x)
    then show ?thesis using exponent_digits(1,2) [of x] by (simp add: number_parts_def)
  qed
qed

lemma parts_prefix:
  assumes "a \<noteq> []" "list_all is_digit a"
  shows "take 2 (number_parts a b e) \<notin> {''0x'', ''0X'', ''0o'', ''0O'', ''0b'', ''0B''}"
proof -
  obtain c t where a: "a = c # t" using assms(1) by (cases a) auto
  have "is_digit d \<or> d = CHR ''.'' \<or> d = CHR ''e''" if "tl (number_parts a b e) = d # u" for d u
    using that assms(2) exponent_digits(3) [of "the e"] by (cases t; cases "b = []"; cases e) (auto simp: number_parts_def a)
  then show ?thesis
    by (cases "tl (number_parts a b e)") (auto simp: a number_parts_def is_digit_def)
qed

text \<open>\<open>Number\<close> reads a text of this form, with or without a sign, as the value of its parts.\<close>

lemma text_number_parts:
  assumes "a \<noteq> []" "list_all is_digit a" "list_all is_digit b"
  shows "text_number (number_parts a b e) = js_of_rat (parts_value a b e)"
    and "text_number (CHR ''-'' # number_parts a b e) = js_of_rat (- parts_value a b e)"
proof -
  note ends = parts_ends [OF assms, of e]
  have "trim (number_parts a b e) = number_parts a b e"
    using ends is_digit_not_space by (intro trim_id) blast+
  from text_number_unsigned [OF this ends(1,2) parts_prefix [OF assms(1,2)] parts_read [OF assms]]
  show "text_number (number_parts a b e) = js_of_rat (parts_value a b e)" .
  have t: "trim (CHR ''-'' # number_parts a b e) = CHR ''-'' # number_parts a b e"
    using ends is_digit_not_space by (intro trim_id) (auto simp: is_space_def)
  have "number_parts a b e \<noteq> ''Infinity''" using ends(2) by (auto simp: is_digit_def)
  moreover have "take 2 (CHR ''-'' # number_parts a b e) \<notin> {''0x'', ''0X'', ''0o'', ''0O'', ''0b'', ''0B''}"
    using ends(1) by (cases "number_parts a b e") simp_all
  moreover have "- js_of_rat r = js_of_rat (- r)" for r
    by (simp add: js_of_rat_def js_big_def)
  ultimately show "text_number (CHR ''-'' # number_parts a b e) = js_of_rat (- parts_value a b e)"
    by (simp add: text_number_def t Let_def unsigned_number_def parts_read [OF assms])
qed


text \<open>Every form of a printed number is such a text.\<close>

lemma zeros_digits: "list_all is_digit (replicate n (CHR ''0''))"
  by (simp add: list_all_iff is_digit_def)

lemma digits_val_trailing: "digits_val (s @ replicate n (CHR ''0'')) = digits_val s * 10 ^ n"
  using digits_val_zeros [of n "[]"] by (simp add: digits_val_append digits_val_def [of "[]"])

lemma point_text_parts:
  assumes ds: "ds \<noteq> []" "list_all is_digit ds"
  obtains a b e where "point_text ds n = number_parts a b e" "a \<noteq> []" "list_all is_digit a" "list_all is_digit b"
    "parts_value a b e = of_nat (digits_val ds) * 10 powi (n - int (length ds))"
proof -
  let ?k = "length ds"
  have split: "digits_val (take m ds @ drop m ds) = digits_val ds" for m by simp
  have lists: "list_all is_digit (take m ds)" "list_all is_digit (drop m ds)" for m
    using ds(2) by (auto simp: list_all_iff dest: in_set_takeD in_set_dropD)
  consider "int ?k \<le> n" "n \<le> 21" | "0 < n" "n < int ?k" "n \<le> 21" | "- 6 < n" "n \<le> 0" | "n \<le> - 6 \<or> 21 < n" by linarith
  then show ?thesis
  proof cases
    case 1
    let ?z = "replicate (nat n - ?k) (CHR ''0'')"
    have e: "10 ^ (nat n - ?k) = (10 :: rat) powi (n - int ?k)"
      using 1 by (simp add: power_int_def nat_diff_distrib)
    show ?thesis
      by (rule that [of "ds @ ?z" "[]" None])
        (use 1 ds zeros_digits in \<open>simp_all add: point_text_def Let_def number_parts_def parts_value_def digits_val_trailing e\<close>)
  next
    case 2
    have e: "1 / 10 ^ (?k - nat n) = (10 :: rat) powi (n - int ?k)"
      using 2 by (simp add: power_int_def nat_diff_distrib field_simps)
    have "drop (nat n) ds \<noteq> []" "take (nat n) ds \<noteq> []" using 2 by auto
    then show ?thesis
      by (intro that [of "take (nat n) ds" "drop (nat n) ds" None])
        (use 2 lists e [symmetric] in \<open>simp_all add: point_text_def Let_def number_parts_def parts_value_def split\<close>)
  next
    case 3
    let ?b = "replicate (nat (- n)) (CHR ''0'') @ ds"
    have e: "1 / 10 ^ (nat (- n) + ?k) = (10 :: rat) powi (n - int ?k)"
    proof -
      have "0 < int ?k" using ds(1) by simp
      then have "\<not> int ?k \<le> n" "nat (int ?k - n) = ?k + nat (- n)" using 3 by linarith+
      then show ?thesis by (simp add: power_int_def field_simps)
    qed
    have k: "\<not> int ?k \<le> n" using 3 ds(1) by (cases ds) simp_all
    have v: "digits_val (''0'' @ ?b) = digits_val ds"
      using digits_val_zeros [of "Suc (nat (- n))" ds] by simp
    show ?thesis
      by (rule that [of "''0''" ?b None])
        (use 3 ds k e [symmetric] v zeros_digits in \<open>simp_all add: point_text_def Let_def number_parts_def parts_value_def is_digit_def\<close>)
  next
    case 4
    have e: "10 powi (n - 1) / 10 ^ (?k - 1) = (10 :: rat) powi (n - int ?k)"
      using ds(1) by (simp add: power_int_diff of_nat_diff field_simps Suc_leI flip: power_int_of_nat)
    have guards: "\<not> (int ?k \<le> n \<and> n \<le> 21)" "\<not> (0 < n \<and> n \<le> 21)" "\<not> (- 6 < n \<and> n \<le> 0)" "drop 1 ds = [] \<longleftrightarrow> ?k = 1"
      using 4 ds(1) by (cases ds; force)+
    have "point_text ds n = number_parts (take 1 ds) (drop 1 ds) (Some (n - 1))"
      unfolding point_text_def Let_def number_parts_def guards(4) option.case
      using guards(1-3) by (simp only: if_False) (simp only: append_Cons append_Nil)
    moreover have "parts_value (take 1 ds) (drop 1 ds) (Some (n - 1)) = of_nat (digits_val ds) * 10 powi (n - int ?k)"
      using e [symmetric] by (simp add: parts_value_def split)
    ultimately show ?thesis using that lists ds(1) by (metis list.size(3) take_eq_Nil zero_neq_one)
  qed
qed


lemma trailing_zeros: "s = trim_right is_zero_char s @ replicate (length s - length (trim_right is_zero_char s)) (CHR ''0'')"
proof -
  let ?z = "takeWhile is_zero_char (rev s)"
  have "rev s = ?z @ dropWhile is_zero_char (rev s)" by simp
  then have s: "s = rev (dropWhile is_zero_char (rev s)) @ rev ?z" by (metis rev_append rev_rev_ident)
  have "\<forall>c \<in> set ?z. c = CHR ''0''" by (auto simp: is_zero_char_def dest: set_takeWhileD)
  then have "?z = replicate (length ?z) (CHR ''0'')" by (simp add: replicate_length_same)
  then have z: "rev ?z = replicate (length ?z) (CHR ''0'')" by (metis rev_replicate)
  have "length s = length (trim_right is_zero_char s) + length ?z"
    using s by (metis trim_right_def length_append length_rev)
  then show ?thesis using s z by (simp add: trim_right_def)
qed

text \<open>A printed decimal is read back as the number it was printed from.\<close>

lemma decimal_text_read: "text_number (decimal_text k m) = js_of_rat (of_int m / 10 ^ k)"
proof (cases "m = 0")
  case True
  then show ?thesis by (simp add: decimal_text_def js_simps)
next
  case False
  let ?s = "nat_text (nat \<bar>m\<bar>)"
  let ?d = "trim_right is_zero_char ?s"
  let ?j = "length ?s - length ?d"
  have s: "?s = ?d @ replicate ?j (CHR ''0'')" by (rule trailing_zeros)
  have val: "digits_val ?d * 10 ^ ?j = nat \<bar>m\<bar>"
    using digits_val_nat_text [of "nat \<bar>m\<bar>"] digits_val_trailing [of ?d ?j] s by metis
  have "?d \<noteq> []" using val False by (auto simp: digits_val_def)
  moreover have "list_all is_digit ?d"
    using nat_text_digits [of "nat \<bar>m\<bar>"] s by (metis list_all_append)
  ultimately obtain a b e where parts: "point_text ?d (int (length ?s) - int k) = number_parts a b e" "a \<noteq> []"
      "list_all is_digit a" "list_all is_digit b"
      "parts_value a b e = of_nat (digits_val ?d) * 10 powi (int (length ?s) - int k - int (length ?d))"
    using point_text_parts by metis
  have len: "int (length ?s) - int k - int (length ?d) = int ?j - int k"
    using arg_cong [OF s, of length] by simp
  have "parts_value a b e = of_nat (digits_val ?d * 10 ^ ?j) / 10 ^ k"
    by (simp add: parts(5) len power_int_diff)
  then have v: "parts_value a b e = \<bar>of_int m\<bar> / 10 ^ k" by (simp add: val)
  have printed: "decimal_text k m = (if m < 0 then ''-'' else []) @ number_parts a b e"
    using False by (simp only: decimal_text_def Let_def parts(1) if_False)
  show ?thesis
    using text_number_parts [OF parts(2,3,4), of e] unfolding printed v by (cases "m < 0") simp_all
qed

end
