(* ===== verification/MotecExport.thy ===== *)
theory MotecExport
  imports MotecTelemetry MotecLive NumberText
begin

text \<open>
  Exports of recorded telemetry, \<^verbatim>\<open>viewer_tool/src/lib/motec/exporter.ts\<close>: the CSV writer, the status file beside
  a log, the choice of an export id, and the loop over the segments of a request with the files it writes.
\<close>

subsection \<open>Names\<close>

definition safe_char :: "char \<Rightarrow> bool" where
  "safe_char c \<longleftrightarrow> is_alnum c \<or> c \<in> {CHR ''_'', CHR ''.'', CHR ''-''}"

definition safeName :: "string \<Rightarrow> string" where
  "safeName v = (let s = trim_chars (\<lambda>c. c = CHR ''_'') (collapse (\<lambda>c. \<not> safe_char c) (CHR ''_'') v)
     in if s = [] then ''export'' else s)"

definition stampUtc :: "int \<Rightarrow> bool \<Rightarrow> string" where
  "stampUtc ms withTime =
     (case civil_of_days (ms div DAY_MS) of (y, m, d) \<Rightarrow>
        let p = two_digits; s = ms mod DAY_MS div 1000; base = int_text y @ ''_'' @ p m @ ''_'' @ p d in
        if withTime then base @ ''__'' @ p (s div 3600) @ ''_'' @ p (s div 60 mod 60) @ ''_'' @ p (s mod 60) else base)"

subsection \<open>CSV\<close>

definition csvFloat :: "jsnum \<Rightarrow> string" where
  "csvFloat x = (case x of JFin r \<Rightarrow> decimal_text 9 (rat_round (r * 1000000000)) | _ \<Rightarrow> [])"

definition csvCell :: "string \<Rightarrow> string" where
  "csvCell v = (if list_ex (\<lambda>c. c \<in> {CHR 0x22, CHR '','', CHR 0x0A}) v
     then [CHR 0x22] @ replace_char (CHR 0x22) [CHR 0x22, CHR 0x22] v @ [CHR 0x22] else v)"

definition csv_base :: "string \<times> chan \<Rightarrow> string" where
  "csv_base kc = (let n = (if ch_name (snd kc) = [] then fst kc else ch_name (snd kc)) in
     if ch_unit (snd kc) \<noteq> [] then n @ '' ('' @ ch_unit (snd kc) @ '')'' else n)"

fun csv_names :: "(string, nat) jsmap \<Rightarrow> string list \<Rightarrow> string list" where
  "csv_names seen [] = []"
| "csv_names seen (b # bs) =
     (let count = (case jm_get seen b of Some n \<Rightarrow> n | None \<Rightarrow> 0) + 1
      in (if count = 1 then b else b @ '' '' @ nat_text count) # csv_names (jm_set b count seen) bs)"

definition csv_channels :: "data_log \<Rightarrow> (string \<times> chan) list" where
  "csv_channels l = filter (\<lambda>kc. samples (snd kc) \<noteq> []) (channels l)"

definition csv_headers :: "(string \<times> chan) list \<Rightarrow> string list" where
  "csv_headers cs = ''timestamp_ms'' # ''elapsed_s'' # csv_names [] (map csv_base cs)"

definition row_elapsed :: "(string \<times> chan) list \<Rightarrow> nat \<Rightarrow> rat" where
  "row_elapsed cs i = (case filter (\<lambda>c. i < length (samples c)) (map snd cs) of c # _ \<Rightarrow> s_t (samples c ! i) | [] \<Rightarrow> 0)"

definition csv_row :: "int \<Rightarrow> (string \<times> chan) list \<Rightarrow> nat \<Rightarrow> string list" where
  "csv_row startMs cs i =
     decimal_text 0 (rat_round (of_int startMs + row_elapsed cs i * 1000)) # csvFloat (JFin (row_elapsed cs i))
       # map (\<lambda>kc. if i < length (samples (snd kc)) then csvFloat (s_value (samples (snd kc) ! i)) else []) cs"

definition csv_length :: "(string \<times> chan) list \<Rightarrow> nat" where
  "csv_length cs = fold (\<lambda>kc m. max m (length (samples (snd kc)))) cs 0"

definition CRLF :: string where "CRLF = [CHR 0x0D, CHR 0x0A]"

definition writeCsv :: "data_log \<Rightarrow> int \<Rightarrow> string" where
  "writeCsv l startMs =
     (let cs = csv_channels l in
      join CRLF (join '','' (map csvCell (csv_headers cs))
        # map (\<lambda>i. join '','' (csv_row startMs cs i)) [0..<csv_length cs]) @ CRLF)"

subsection \<open>The status file\<close>

text \<open>\<^verbatim>\<open>JSON.stringify(v, null, 2)\<close>. Numbers are whole thousandths here.\<close>

definition hex_char :: "nat \<Rightarrow> char" where
  "hex_char d = (if d < 10 then digit_char d else char_of (87 + d))"

definition json_char :: "char \<Rightarrow> string" where
  "json_char c = (let n = of_char c :: nat in
     if c = CHR 0x22 then [CHR 0x5C, CHR 0x22] else if n = 92 then [CHR 0x5C, CHR 0x5C]
     else if n = 8 then [CHR 0x5C, CHR ''b''] else if n = 12 then [CHR 0x5C, CHR ''f'']
     else if n = 10 then [CHR 0x5C, CHR ''n''] else if n = 13 then [CHR 0x5C, CHR ''r'']
     else if n = 9 then [CHR 0x5C, CHR ''t'']
     else if n < 32 then [CHR 0x5C] @ ''u00'' @ [hex_char (n div 16), hex_char (n mod 16)] else [c])"

definition json_quote :: "string \<Rightarrow> string" where
  "json_quote s = [CHR 0x22] @ concat (map json_char s) @ [CHR 0x22]"

definition json_lines :: "nat \<Rightarrow> char \<Rightarrow> string list \<Rightarrow> char \<Rightarrow> string" where
  "json_lines n a items z = (if items = [] then [a, z]
     else [a, CHR 0x0A] @ join ('','' @ [CHR 0x0A]) (map (\<lambda>s. replicate (2 * n + 2) (CHR '' '') @ s) items)
       @ [CHR 0x0A] @ replicate (2 * n) (CHR '' '') @ [z])"

fun pretty :: "nat \<Rightarrow> json \<Rightarrow> string" where
  "pretty n JUndef = ''null''"
| "pretty n JNull = ''null''"
| "pretty n (JBool b) = (if b then ''true'' else ''false'')"
| "pretty n (JNum x) = (case x of JFin r \<Rightarrow> decimal_text 3 (rat_round (r * 1000)) | _ \<Rightarrow> ''null'')"
| "pretty n (JStr s) = json_quote s"
| "pretty n (JArr xs) = json_lines n (CHR ''['') (map (pretty (n + 1)) xs) (CHR '']'')"
| "pretty n (JObj m) = json_lines n (CHR ''{'') (map (\<lambda>kv. json_quote (fst kv) @ '': '' @ pretty (n + 1) (snd kv)) m) (CHR ''}'')"

record clamped_segment =
  cl_state :: string
  cl_start :: int
  cl_end :: int
  cl_faults :: "string list"

definition clamp_segment :: "int \<Rightarrow> int \<Rightarrow> status_segment \<Rightarrow> clamped_segment" where
  "clamp_segment startMs endMs s = \<lparr>cl_state = st_state s, cl_start = max (st_start s) startMs,
     cl_end = min (case st_end s of Some e \<Rightarrow> e | None \<Rightarrow> endMs) endMs, cl_faults = st_faults s\<rparr>"

definition moving_ms :: "clamped_segment list \<Rightarrow> int" where
  "moving_ms ss = sum_list (map (\<lambda>s. cl_end s - cl_start s) (filter (\<lambda>s. cl_state s = ''MOVING'') ss))"

definition jint :: "int \<Rightarrow> json" where "jint i = JNum (JFin (of_int i))"

definition jsecs :: "int \<Rightarrow> json" where "jsecs i = JNum (JFin (of_int i / 1000))"

definition segment_json :: "int \<Rightarrow> clamped_segment \<Rightarrow> json" where
  "segment_json startMs s = JObj [(''state'', JStr (cl_state s)), (''start_s'', jsecs (cl_start s - startMs)),
     (''end_s'', jsecs (cl_end s - startMs)), (''start_ms'', jint (cl_start s)), (''end_ms'', jint (cl_end s)),
     (''active_faults'', JArr (map JStr (cl_faults s)))]"

definition buildStatusSidecar :: "string \<Rightarrow> int \<Rightarrow> int \<Rightarrow> status_segment list \<Rightarrow> json option" where
  "buildStatusSidecar car startMs endMs segs =
     (if segs = [] then None
      else let cl = map (clamp_segment startMs endMs) segs in
        Some (JObj [(''car'', JStr (lower car)), (''window_start_ms'', jint startMs), (''window_end_ms'', jint endMs),
          (''window_duration_s'', jsecs (max 1 (endMs - startMs))), (''moving_s'', jsecs (moving_ms cl)),
          (''segments'', JArr (map (segment_json startMs) cl))]))"


subsection \<open>The export of a request\<close>

record segment_request =
  es_id :: string
  es_start :: int
  es_end :: int
  es_label :: string
  es_metadata :: "(string, string) jsmap"

record export_request =
  er_car :: string
  er_keys :: "string list"
  er_segments :: "segment_request list"
  er_csv :: bool
  er_frequency :: "rat option"
  er_metadata :: "(string, string) jsmap"

text \<open>What the database answers: the channels it has, and the rows of the log, position and status queries of a
  window, where a query may throw.\<close>

record recorder =
  rc_channels :: "channel_def list"
  rc_rows :: "int \<Rightarrow> int \<Rightarrow> js_error + (int \<times> (string, json) jsmap) list"
  rc_gps :: "int \<Rightarrow> int \<Rightarrow> js_error + (rat \<times> rat option \<times> rat option) list"
  rc_status :: "int \<Rightarrow> int \<Rightarrow> (string \<times> int \<times> int option \<times> string option) list option"

text \<open>A disk maps the names below the export directory to their content, a directory to \<open>None\<close>.\<close>

type_synonym disk = "(string, buffer option) jsmap"

definition taken :: "disk \<Rightarrow> string \<Rightarrow> bool" where
  "taken d n \<longleftrightarrow> jm_has d n \<or> jm_has d (n @ ''.zip'')"

partial_function (option) free_name :: "disk \<Rightarrow> string \<Rightarrow> string \<Rightarrow> nat \<Rightarrow> string option" where
  "free_name d base candidate index =
     (if taken d candidate then free_name d base (base @ ''_'' @ nat_text index) (index + 1) else Some candidate)"

definition text_or :: "string option \<Rightarrow> string \<Rightarrow> string" where
  "text_or v d = (case v of Some (c # s) \<Rightarrow> c # s | _ \<Rightarrow> d)"

definition export_base :: "export_request \<Rightarrow> string" where
  "export_base r =
     safeName (safeName (text_or (jm_get (er_metadata r) ''vehicle_id'') (capital (er_car r)))
       @ ''__'' @ stampUtc (Min (set (map es_start (er_segments r)))) False)"

definition exportId :: "disk \<Rightarrow> export_request \<Rightarrow> string option" where
  "exportId d r = free_name d (export_base r) (export_base r) 2"

definition assign :: "(string, 'v) jsmap \<Rightarrow> (string, 'v) jsmap \<Rightarrow> (string, 'v) jsmap" where
  "assign m s = fold (\<lambda>(k, v) m. jm_set k v m) s m"

definition segment_meta :: "export_request \<Rightarrow> segment_request \<Rightarrow> (string, string) jsmap" where
  "segment_meta r s = assign (assign [] (er_metadata r)) (es_metadata s)"

definition export_metadata :: "platform \<Rightarrow> export_request \<Rightarrow> segment_request \<Rightarrow> (string, string) jsmap" where
  "export_metadata pf r s =
     (let m = segment_meta r s; session = text_or (jm_get m ''session'') (es_label s);
          short = text_or (jm_get m ''short_comment'') (es_id s)
      in jm_set ''short_comment'' short (jm_set ''session'' session (assign
           [(''vehicle_id'', capital (er_car r)), (''event'', text_or (jm_get m ''event'') ''Telemetry Export''),
            (''session'', session), (''short_comment'', short),
            (''long_comment'', text_or (jm_get m ''long_comment'') []),
            (''datetime'', pf_iso pf (of_int (es_start s)))] m)))"

definition stem :: "export_request \<Rightarrow> nat \<Rightarrow> segment_request \<Rightarrow> string" where
  "stem r index s = safeName (capital (er_car r) @ ''__'' @ stampUtc (es_start s) True @ ''__part'' @ nat_text index)"

definition segment_log :: "settings \<Rightarrow> recorder \<Rightarrow> export_request \<Rightarrow> chart_entry list option \<Rightarrow> segment_request
    \<Rightarrow> (int \<times> (string, json) jsmap) list \<Rightarrow> js_error + data_log" where
  "segment_log st rc r chart s rows = (case datalog st (rc_channels rc) (er_keys r) (es_start s) (es_end s) rows of
       Inl e \<Rightarrow> Inl e
     | Inr l \<Rightarrow> Inr (log_resample (er_frequency r) (fst (applyChannelChart l chart))))"

text \<open>The crossings of the gates in seconds of the segment: of the start and finish gates, and of the others.\<close>

definition gate_times :: "settings \<Rightarrow> recorder \<Rightarrow> gate list option \<Rightarrow> segment_request \<Rightarrow> js_error + (rat list \<times> rat list)" where
  "gate_times st rc track s = (case track of
       None \<Rightarrow> Inr ([], [])
     | Some gates \<Rightarrow> (case rc_gps rc (es_start s) (es_end s) of
           Inl e \<Rightarrow> Inl e
         | Inr rows \<Rightarrow>
             let crossings = gateCrossingTimes (gps st rows) gates;
                 relative = (\<lambda>g. map (\<lambda>t. (t - of_int (es_start s)) / 1000)
                   (case jm_get crossings (g_id g) of Some ts \<Rightarrow> ts | None \<Rightarrow> []))
             in Inr (concat (map relative (filter g_start_finish gates)),
                     concat (map relative (filter (\<lambda>g. \<not> g_start_finish g) gates)))))"

text \<open>The files of a segment, as far as they are written, and the error that stopped it.\<close>

definition sidecar_entry :: "settings \<Rightarrow> recorder \<Rightarrow> export_request \<Rightarrow> string \<Rightarrow> segment_request \<Rightarrow> entry list" where
  "sidecar_entry st rc r stm s =
     (case buildStatusSidecar (er_car r) (es_start s) (es_end s) (carStatusSegments st (rc_status rc (es_start s) (es_end s))) of
        Some v \<Rightarrow> [(stm @ ''.status.json'', utf8 (pretty 0 v))]
      | None \<Rightarrow> [])"

definition export_segment :: "platform \<Rightarrow> settings \<Rightarrow> recorder \<Rightarrow> export_request \<Rightarrow> chart_entry list option \<Rightarrow> gate list option
    \<Rightarrow> nat \<Rightarrow> segment_request \<Rightarrow> entry list \<times> js_error option" where
  "export_segment pf st rc r chart track index s =
     (if es_end s \<le> es_start s then ([], Some (Thrown (''Segment '' @ es_id s @ '' has an invalid time range.'')))
      else if of_int (es_end s - es_start s) > maxExportSeconds st * 1000
      then ([], Some (Thrown ''Export range is too large. Narrow the range before exporting.''))
      else if \<not> usePostgres st then ([], Some (Thrown ''Telemetry database is not connected (set TELEMETRY_SOURCE=postgres).''))
      else case rc_rows rc (es_start s) (es_end s) of
        Inl e \<Rightarrow> ([], Some e)
      | Inr rows \<Rightarrow> (case segment_log st rc r chart s rows of
          Inl e \<Rightarrow> ([], Some e)
        | Inr l \<Rightarrow>
            let stm = stem r index s; side = sidecar_entry st rc r stm s in
            if er_csv r then (side @ [(stm @ ''.csv'', utf8 (writeCsv l (es_start s)))], None)
            else case writeLd (pf_f32 pf) (pf_parse_date pf) (pf_utc_now pf) l (export_metadata pf r s) of
              None \<Rightarrow> (side, Some RangeError)
            | Some ld \<Rightarrow> (case gate_times st rc track s of
                Inl e \<Rightarrow> (side @ [(stm @ ''.ld'', ld)], Some e)
              | Inr (primary, splits) \<Rightarrow>
                  (side @ [(stm @ ''.ld'', ld), (stm @ ''.ldx'', utf8 (writeLdx primary splits))], None))))"

fun export_loop :: "(nat \<Rightarrow> segment_request \<Rightarrow> entry list \<times> js_error option) \<Rightarrow> nat \<Rightarrow> segment_request list
    \<Rightarrow> entry list \<times> js_error option" where
  "export_loop f index [] = ([], None)"
| "export_loop f index (s # ss) = (case f index s of
       (es, Some e) \<Rightarrow> (es, Some e)
     | (es, None) \<Rightarrow> (case export_loop f (index + 1) ss of (es', e) \<Rightarrow> (es @ es', e)))"

definition write_files :: "string \<Rightarrow> entry list \<Rightarrow> disk \<Rightarrow> disk" where
  "write_files dir es d = fold (\<lambda>e. jm_set (dir @ ''/'' @ fst e) (Some (snd e))) es d"

record export_response =
  xr_id :: string
  xr_zip_path :: string
  xr_files :: "string list"
  xr_url :: string

text \<open>A track is used for logs only; an id has only characters that a URL takes as they are. \<open>None\<close> as the outcome is a
  search for an id that does not end.\<close>

definition Exporter_export :: "platform \<Rightarrow> settings \<Rightarrow> recorder \<Rightarrow> export_request \<Rightarrow> chart_entry list option \<Rightarrow> gate list option
    \<Rightarrow> disk \<Rightarrow> disk \<times> (js_error + export_response) option" where
  "Exporter_export pf st rc r chart track d =
     (if er_segments r = [] then (d, Some (Inl (Thrown ''No export segments were selected.'')))
      else case exportId d r of
        None \<Rightarrow> (d, None)
      | Some name \<Rightarrow>
          let out = export_loop (export_segment pf st rc r chart (if er_csv r then None else track)) 1 (er_segments r);
              d' = write_files name (fst out) (jm_set name None d)
          in case snd out of
            Some e \<Rightarrow> (d', Some (Inl e))
          | None \<Rightarrow> (case buildZip (pf_crc32 pf) (pf_local_now pf) (fst out) of
              None \<Rightarrow> (d', Some (Inl RangeError))
            | Some z \<Rightarrow> (jm_set (name @ ''.zip'') (Some z) d',
                Some (Inr \<lparr>xr_id = name, xr_zip_path = name @ ''.zip'', xr_files = map fst (fst out),
                  xr_url = ''/api/motec/export/download?id='' @ name\<rparr>))))"


subsection \<open>Reading a CSV file\<close>

text \<open>A reader after RFC 4180: a quote at the start of a cell opens it, a doubled quote inside stands for one.\<close>

fun csv_read :: "bool \<Rightarrow> string \<Rightarrow> string list \<Rightarrow> string \<Rightarrow> string list list" where
  "csv_read q cell row [] = (if row = [] \<and> cell = [] then [] else [row @ [cell]])"
| "csv_read q cell row (c # s) =
     (if q then
        (if c = CHR 0x22 then
           (case s of [] \<Rightarrow> [row @ [cell]]
            | d # t \<Rightarrow> if d = CHR 0x22 then csv_read True (cell @ [c]) row t else csv_read False cell row s)
         else csv_read True (cell @ [c]) row s)
      else if c = CHR 0x22 \<and> cell = [] then csv_read True [] row s
      else if c = CHR '','' then csv_read False [] (row @ [cell]) s
      else (case s of [] \<Rightarrow> [row @ [cell @ [c]]]
        | d # t \<Rightarrow> if c = CHR 0x0D \<and> d = CHR 0x0A then (row @ [cell]) # csv_read False [] [] t
                  else csv_read False (cell @ [c]) row s))"

definition readCsv :: "string \<Rightarrow> string list list" where
  "readCsv s = csv_read False [] [] s"

text \<open>What ends a cell: a comma or the end of the line.\<close>

definition cell_end :: "string \<Rightarrow> bool" where
  "cell_end s \<longleftrightarrow> (\<exists>t. s = CHR '','' # t) \<or> (\<exists>t. s = CRLF @ t)"

definition plain :: "string \<Rightarrow> bool" where
  "plain s \<longleftrightarrow> CHR 0x22 \<notin> set s \<and> CHR '','' \<notin> set s \<and> CHR 0x0A \<notin> set s"

lemma read_plain: "plain s \<Longrightarrow> cell_end t \<Longrightarrow> csv_read False cell row (s @ t) = csv_read False (cell @ s) row t"
proof (induction s arbitrary: cell)
  case (Cons c s)
  have p: "plain s" "c \<noteq> CHR 0x22" "c \<noteq> CHR '',''" using Cons.prems(1) by (auto simp: plain_def)
  obtain d u where st: "s @ t = d # u" and d: "c = CHR 0x0D \<Longrightarrow> d \<noteq> CHR 0x0A"
  proof (cases s)
    case Nil
    then show ?thesis using that Cons.prems by (auto simp: cell_end_def CRLF_def)
  next
    case (Cons d u)
    then show ?thesis using that Cons.prems p(1) by (auto simp: plain_def)
  qed
  have "csv_read False cell row ((c # s) @ t) = csv_read False (cell @ [c]) row (s @ t)"
    using p(2,3) d by (auto simp: st)
  then show ?case using Cons.IH [OF p(1) Cons.prems(2)] by simp
qed simp

lemma read_quoted: "cell_end t \<Longrightarrow>
    csv_read True cell row (replace_char (CHR 0x22) [CHR 0x22, CHR 0x22] s @ CHR 0x22 # t) = csv_read False (cell @ s) row t"
proof (induction s arbitrary: cell)
  case Nil
  then show ?case by (auto simp: replace_char_def cell_end_def CRLF_def)
next
  case (Cons c s)
  then show ?case by (cases "c = CHR 0x22") (simp_all add: replace_char_def)
qed

lemma read_cell: "cell_end t \<Longrightarrow> csv_read False [] row (csvCell s @ t) = csv_read False s row t"
proof (cases "plain s")
  case True
  moreover assume "cell_end t"
  moreover have "csvCell s = s" using True by (auto simp: csvCell_def plain_def list_ex_iff)
  ultimately show ?thesis using read_plain [of s t "[]" row] by simp
next
  case False
  moreover assume "cell_end t"
  moreover have "csvCell s = [CHR 0x22] @ replace_char (CHR 0x22) [CHR 0x22, CHR 0x22] s @ [CHR 0x22]"
    using False by (auto simp: csvCell_def plain_def list_ex_iff)
  ultimately show ?thesis using read_quoted [of t "[]" row s] by simp
qed

lemma cell_end_join: "cell_end t \<Longrightarrow> ss \<noteq> [] \<Longrightarrow> cell_end (CHR '','' # join '','' ss @ t)" "cell_end (CRLF @ u)"
  by (auto simp: cell_end_def)

lemma read_line: "ss \<noteq> [] \<Longrightarrow>
    csv_read False [] row (join '','' (map csvCell ss) @ CRLF @ t) = (row @ ss) # csv_read False [] [] t"
proof (induction ss arbitrary: row)
  case (Cons s ss)
  show ?case
  proof (cases "ss = []")
    case True
    have "csv_read False s row (CRLF @ t) = (row @ [s]) # csv_read False [] [] t" by (simp add: CRLF_def)
    then show ?thesis using True read_cell [OF cell_end_join(2), of row s t] by simp
  next
    case False
    let ?t = "CHR '','' # join '','' (map csvCell ss) @ CRLF @ t"
    have "join '','' (map csvCell (s # ss)) @ CRLF @ t = csvCell s @ ?t" using False by (simp add: join_Cons)
    moreover have "cell_end ?t" by (simp add: cell_end_def)
    ultimately have "csv_read False [] row (join '','' (map csvCell (s # ss)) @ CRLF @ t) = csv_read False s row ?t"
      using read_cell by simp
    also have "\<dots> = csv_read False [] (row @ [s]) (join '','' (map csvCell ss) @ CRLF @ t)"
      by simp
    finally show ?thesis using Cons.IH [OF False, of "row @ [s]"] by simp
  qed
qed simp

lemma read_lines: "rs \<noteq> [] \<Longrightarrow> list_all (\<lambda>r. r \<noteq> []) rs \<Longrightarrow>
    readCsv (join CRLF (map (\<lambda>r. join '','' (map csvCell r)) rs) @ CRLF) = rs"
proof (induction rs)
  case (Cons r rs)
  have r: "r \<noteq> []" "list_all (\<lambda>r. r \<noteq> []) rs" using Cons.prems(2) by simp_all
  show ?case
  proof (cases "rs = []")
    case True
    then show ?thesis using read_line [OF r(1), of "[]" "[]"] by (simp add: readCsv_def)
  next
    case False
    then show ?thesis
      using Cons.IH [OF False r(2)] read_line [OF r(1), of "[]" "join CRLF (map (\<lambda>r. join '','' (map csvCell r)) rs) @ CRLF"]
      by (simp add: readCsv_def join_Cons)
  qed
qed simp


text \<open>A printed number needs no quotes.\<close>

definition number_char :: "char \<Rightarrow> bool" where
  "number_char c \<longleftrightarrow> is_digit c \<or> c \<in> {CHR ''-'', CHR ''+'', CHR ''.'', CHR ''e''}"

lemma point_text_chars:
  assumes "list_all is_digit ds"
  shows "list_all number_char (point_text ds n)"
proof -
  have d: "list_all number_char ds" "list_all number_char (nat_text k)" for k
    using assms nat_text_digits [of k] by (auto simp: list_all_iff number_char_def)
  then have "list_all number_char (take k ds)" "list_all number_char (drop k ds)" for k
    by (auto simp: list_all_iff dest: in_set_takeD in_set_dropD)
  moreover have "list_all number_char (replicate k (CHR ''0''))" for k
    by (simp add: list_all_iff number_char_def is_digit_def)
  ultimately show ?thesis
    using d by (auto simp: point_text_def exponent_text_def Let_def number_char_def is_digit_def)
qed

lemma decimal_text_chars: "list_all number_char (decimal_text k m)"
proof -
  have "list_all is_digit (trim_right is_zero_char s)" if "list_all is_digit s" for s
    using that trailing_zeros [of s] by (metis list_all_append)
  from point_text_chars [OF this [OF nat_text_digits]]
  show ?thesis by (simp add: decimal_text_def Let_def number_char_def is_digit_def)
qed

lemma csvCell_plain: "list_all number_char s \<Longrightarrow> csvCell s = s"
  by (auto simp: csvCell_def list_ex_iff list_all_iff number_char_def is_digit_def)

lemma csv_row_plain: "map csvCell (csv_row startMs cs i) = csv_row startMs cs i"
proof -
  have "csvCell (csvFloat x) = csvFloat x" for x
    using csvCell_plain [OF decimal_text_chars] by (cases x) (simp_all add: csvFloat_def csvCell_def)
  moreover have "csvCell [] = []" by (simp add: csvCell_def)
  ultimately show ?thesis by (simp add: csv_row_def csvCell_plain [OF decimal_text_chars])
qed

lemma csv_table: "readCsv (writeCsv l startMs) =
    csv_headers (csv_channels l) # map (csv_row startMs (csv_channels l)) [0..<csv_length (csv_channels l)]"
proof -
  let ?cs = "csv_channels l"
  let ?rs = "csv_headers ?cs # map (csv_row startMs ?cs) [0..<csv_length ?cs]"
  have "writeCsv l startMs = join CRLF (map (\<lambda>r. join '','' (map csvCell r)) ?rs) @ CRLF"
    by (simp add: writeCsv_def Let_def csv_row_plain comp_def)
  moreover have "list_all (\<lambda>r. r \<noteq> []) ?rs" by (simp add: list_all_iff csv_headers_def csv_row_def)
  ultimately show ?thesis using read_lines [of ?rs] by simp
qed

lemma decimal_text_not_Nil: "decimal_text k m \<noteq> []"
proof (cases "m = 0")
  case False
  have "point_text ds n \<noteq> []" if "ds \<noteq> []" for ds n
    using that by (simp add: point_text_def Let_def)
  moreover have "trim_right is_zero_char (nat_text (nat \<bar>m\<bar>)) \<noteq> []"
    using trailing_zeros [of "nat_text (nat \<bar>m\<bar>)"] digits_val_trailing [of "[]"] digits_val_nat_text [of "nat \<bar>m\<bar>"] False
    by (metis append_Nil digits_val_def foldl_Nil mult_0 nat_zero_as_int zero_less_abs_iff zero_less_nat_eq less_not_refl)
  ultimately show ?thesis by (simp add: decimal_text_def Let_def)
qed (simp add: decimal_text_def)

definition round9 :: "rat \<Rightarrow> rat" where
  "round9 r = of_int (rat_round (r * 1000000000)) / 1000000000"

text \<open>The value of a sample in a table, and the value a reader finds in a cell.\<close>

definition table_value :: "nat \<Rightarrow> sample list \<Rightarrow> jsnum option" where
  "table_value i ss = (if i < length ss then (case s_value (ss ! i) of JFin r \<Rightarrow> Some (js_of_rat (round9 r)) | _ \<Rightarrow> None) else None)"

definition cell_value :: "string \<Rightarrow> jsnum option" where
  "cell_value c = (if c = [] then None else Some (text_number c))"

lemma csvFloat_read: "cell_value (csvFloat x) = (case x of JFin r \<Rightarrow> Some (js_of_rat (round9 r)) | _ \<Rightarrow> None)"
  by (cases x) (simp_all add: csvFloat_def cell_value_def decimal_text_not_Nil decimal_text_read round9_def)

text \<open>C34: A CSV export can be read. A reader that knows only the format finds the headers, and in the row of every index the
  time of the row, its elapsed seconds, and of every channel the value of its sample of that index, to nine decimals; the
  cell is empty exactly where the channel has no such sample or its value is not finite.\<close>

theorem csv_readable:
  "let cs = csv_channels l; table = readCsv (writeCsv l startMs); ix = [0..<csv_length cs] in
     hd table = csv_headers cs
     \<and> map (map cell_value) (tl table) = map (\<lambda>i. Some (js_of_rat (of_int (rat_round (of_int startMs + row_elapsed cs i * 1000))))
         # Some (js_of_rat (round9 (row_elapsed cs i))) # map (\<lambda>kc. table_value i (samples (snd kc))) cs) ix"
proof -
  have "cell_value [] = None" by (simp add: cell_value_def)
  moreover have "cell_value (decimal_text 0 m) = Some (js_of_rat (of_int m))" for m
    using decimal_text_read [of 0] by (simp add: cell_value_def decimal_text_not_Nil)
  ultimately have "map cell_value (csv_row startMs cs i) = Some (js_of_rat (of_int (rat_round (of_int startMs + row_elapsed cs i * 1000))))
      # Some (js_of_rat (round9 (row_elapsed cs i))) # map (\<lambda>kc. table_value i (samples (snd kc))) cs" for cs i
    by (simp add: csv_row_def csvFloat_read table_value_def)
  then show ?thesis by (simp add: Let_def csv_table)
qed


subsection \<open>The clock of a table\<close>

lemma resample_from_times: "map s_t (resample_from src ts i) = ts"
  by (induction ts arbitrary: i) (simp_all split: prod.splits)

lemma resample_times:
  assumes "samples c \<noteq> []" "0 < target_hz f c" "start < stop"
  shows "map s_t (samples (resample start stop f c))
    = map (sample_time start stop (target_hz f c)) [0..<sample_count start stop (target_hz f c)]"
  using assms by (simp add: resample_def Let_def resample_from_times)

lemma resampled_channels:
  assumes "0 < f" "log_start l < log_end l" "kc \<in> set (csv_channels (log_resample (Some f) l))"
  shows "map s_t (samples (snd kc))
    = map (sample_time (log_start l) (log_end l) f) [0..<sample_count (log_start l) (log_end l) f]"
proof -
  obtain c where c: "snd kc = resample (log_start l) (log_end l) (Some f) c" "samples (snd kc) \<noteq> []"
    using assms(3) by (auto simp: csv_channels_def log_resample_def)
  then have "samples c \<noteq> []" by (auto simp: resample_def)
  moreover have "target_hz (Some f) c = f" using assms(1) by (simp add: target_hz_def)
  ultimately show ?thesis using resample_times [of c "Some f"] assms(1,2) c(1) by simp
qed

lemma csv_length_ge: "kc \<in> set cs \<Longrightarrow> length (samples (snd kc)) \<le> csv_length cs"
proof -
  have "n \<le> fold (\<lambda>kc m. max m (length (samples (snd kc)))) cs n
      \<and> (\<forall>kc \<in> set cs. length (samples (snd kc)) \<le> fold (\<lambda>kc m. max m (length (samples (snd kc)))) cs n)" for n
  proof (induction cs arbitrary: n)
    case (Cons b cs)
    from Cons.IH [of "max n (length (samples (snd b)))"] show ?case by simp
  qed simp
  then show "kc \<in> set cs \<Longrightarrow> length (samples (snd kc)) \<le> csv_length cs" by (simp add: csv_length_def)
qed

lemma row_elapsed_first:
  assumes "kc \<in> set cs" "i < length (samples (snd kc))"
  obtains kd where "kd \<in> set cs" "i < length (samples (snd kd))" "row_elapsed cs i = s_t (samples (snd kd) ! i)"
proof -
  obtain d ds where ds: "filter (\<lambda>c. i < length (samples c)) (map snd cs) = d # ds"
    using assms by (cases "filter (\<lambda>c. i < length (samples c)) (map snd cs)") (auto simp: filter_empty_conv)
  then have "d \<in> set (filter (\<lambda>c. i < length (samples c)) (map snd cs))" by simp
  then obtain kd where "kd \<in> set cs" "d = snd kd" "i < length (samples d)" by auto
  then show ?thesis using that ds by (simp add: row_elapsed_def)
qed

text \<open>With a frequency all channels of a log are sampled at the same times, so that every value stands in the row of its
  time.\<close>

theorem csv_clock:
  assumes "0 < f" "log_start l < log_end l" "kc \<in> set (csv_channels (log_resample (Some f) l))" "i < length (samples (snd kc))"
  shows "i < csv_length (csv_channels (log_resample (Some f) l))
    \<and> row_elapsed (csv_channels (log_resample (Some f) l)) i = s_t (samples (snd kc) ! i)"
proof -
  let ?cs = "csv_channels (log_resample (Some f) l)"
  obtain kd where kd: "kd \<in> set ?cs" "i < length (samples (snd kd))" "row_elapsed ?cs i = s_t (samples (snd kd) ! i)"
    using row_elapsed_first [OF assms(3,4)] .
  have "map s_t (samples (snd kd)) ! i = map s_t (samples (snd kc)) ! i"
    by (simp only: resampled_channels [OF assms(1,2,3)] resampled_channels [OF assms(1,2) kd(1)])
  then show ?thesis using kd assms(4) csv_length_ge [OF assms(3)] by simp
qed

definition fast_slow :: data_log where
  "fast_slow = (let ticks = (\<lambda>n h v. map (\<lambda>i. \<lparr>s_t = of_nat i / h, s_value = JFin v\<rparr>) [0..<n]) in
     \<lparr>log_name = ''log'',
      channels = [(''fast'', \<lparr>ch_name = ''Fast'', ch_unit = [], ch_quantity = [], samples = ticks 3 2 7\<rparr>),
                  (''slow'', \<lparr>ch_name = ''Slow'', ch_unit = [], ch_quantity = [], samples = ticks 2 1 9\<rparr>)],
      log_metadata = []\<rparr>)"

lemma fast_slow_span: "log_start fast_slow = 0" "log_end fast_slow = 1"
  by (simp_all add: fast_slow_def log_start_def log_end_def log_channels_def ch_start_def ch_end_def upt_rec Let_def)

lemma fast_slow_resample: "log_resample f fast_slow = fast_slow\<lparr>channels := map (\<lambda>(k, c). (k, resample 0 1 f c)) (channels fast_slow)\<rparr>"
  by (simp only: log_resample_def fast_slow_span)

lemmas fast_slow_eval = fast_slow_def csv_channels_def resample_def target_hz_def sample_count_def
  sample_time_def ch_start_def ch_end_def averageFrequency_def rat_round_def value_at_def row_elapsed_def upt_rec

theorem csv_clock_witness:
  "row_elapsed (csv_channels (log_resample (Some 2) fast_slow)) 1 = 1 / 2"
proof -
  let ?kc = "csv_channels (log_resample (Some 2) fast_slow) ! 1"
  have "?kc \<in> set (csv_channels (log_resample (Some 2) fast_slow))" "1 < length (samples (snd ?kc))"
    "s_t (samples (snd ?kc) ! 1) = 1 / 2"
    unfolding fast_slow_resample by (simp_all add: fast_slow_eval Let_def)
  with csv_clock [of 2 fast_slow ?kc 1] show ?thesis by (simp add: fast_slow_span)
qed

text \<open>Without one every channel keeps the rate of its own, and a row mixes times: the value at one second stands in the row
  of half a second.\<close>

theorem csv_mixed_clock:
  "row_elapsed (csv_channels (log_resample None fast_slow)) 1 = 1 / 2
     \<and> s_t (samples (snd (csv_channels (log_resample None fast_slow) ! 1)) ! 1) = 1"
proof -
  have "\<lfloor>5 / 2 :: rat\<rfloor> = 2" by (simp add: floor_eq_iff)
  then show ?thesis unfolding fast_slow_resample by (simp add: fast_slow_eval Let_def)
qed


subsection \<open>The id of an export\<close>

declare free_name.simps [code]

lemma free_name_from:
  "\<not> taken d (base @ ''_'' @ nat_text j) \<Longrightarrow> i \<le> j \<Longrightarrow>
     \<exists>k. i \<le> k \<and> k \<le> j \<and> free_name d base (base @ ''_'' @ nat_text i) (i + 1) = Some (base @ ''_'' @ nat_text k)
       \<and> \<not> taken d (base @ ''_'' @ nat_text k) \<and> list_all (\<lambda>l. taken d (base @ ''_'' @ nat_text l)) [i..<k]"
proof (induction "j - i" arbitrary: i)
  case 0
  then show ?case by (intro exI [of _ j]) (auto simp: free_name.simps)
next
  case (Suc n)
  show ?case
  proof (cases "taken d (base @ ''_'' @ nat_text i)")
    case True
    have "n = j - (i + 1)" "i + 1 \<le> j" using Suc by simp_all
    from Suc.hyps(1) [OF this(1) Suc.prems(1) this(2)] obtain k where k: "i + 1 \<le> k" "k \<le> j"
        "free_name d base (base @ ''_'' @ nat_text (i + 1)) (i + 1 + 1) = Some (base @ ''_'' @ nat_text k)"
        "\<not> taken d (base @ ''_'' @ nat_text k)" "list_all (\<lambda>l. taken d (base @ ''_'' @ nat_text l)) [i + 1..<k]"
      by blast
    have "[i..<k] = i # [i + 1..<k]" using k(1) by (simp add: upt_rec)
    moreover have "free_name d base (base @ ''_'' @ nat_text i) (i + 1)
        = free_name d base (base @ ''_'' @ nat_text (i + 1)) (i + 1 + 1)"
      by (subst free_name.simps) (simp only: True if_True)
    ultimately show ?thesis using k True by (intro exI [of _ k]) simp
  next
    case False
    then show ?thesis using Suc.prems(2) by (intro exI [of _ i]) (auto simp: free_name.simps)
  qed
qed

lemma some_name_free: "\<exists>j \<ge> i. \<not> taken d (base @ ''_'' @ nat_text j)"
proof (rule ccontr)
  let ?nm = "\<lambda>j. base @ ''_'' @ nat_text j"
  let ?K = "set (map fst d)"
  assume "\<not> (\<exists>j \<ge> i. \<not> taken d (?nm j))"
  then have "?nm ` {i..} \<subseteq> ?K \<union> (\<lambda>n. take (length n - 4) n) ` ?K"
    by (force simp: taken_def jm_has_def)
  then have "finite (?nm ` {i..})" by (rule finite_subset) simp
  moreover have "inj_on ?nm {i..}" by (auto intro: inj_onI)
  ultimately show False using finite_imageD infinite_Ici by blast
qed

text \<open>C36: The search for an export id ends, and with the first name that is neither a directory nor an archive.\<close>

lemma export_id_found: "\<exists>n. exportId d r = Some n \<and> \<not> taken d n \<and> (n = export_base r \<or> taken d (export_base r)
    \<and> (\<exists>k \<ge> 2. n = export_base r @ ''_'' @ nat_text k \<and> list_all (\<lambda>l. taken d (export_base r @ ''_'' @ nat_text l)) [2..<k]))"
proof (cases "taken d (export_base r)")
  case True
  obtain j where j: "2 \<le> j" "\<not> taken d (export_base r @ ''_'' @ nat_text j)" using some_name_free by blast
  have "exportId d r = free_name d (export_base r) (export_base r @ ''_'' @ nat_text 2) (2 + 1)"
    using True by (simp add: exportId_def free_name.simps [of d _ "export_base r"])
  then show ?thesis using free_name_from [OF j(2,1)] True by auto
next
  case False
  then show ?thesis by (simp add: exportId_def free_name.simps)
qed

theorem exportId_terminates:
  "\<exists>n. exportId d r = Some n \<and> \<not> taken d n \<and> (n = export_base r \<or> taken d (export_base r)
    \<and> (\<exists>k. 2 \<le> k \<and> n = export_base r @ ''_'' @ nat_text k \<and> list_all (\<lambda>l. taken d (export_base r @ ''_'' @ nat_text l)) [2..<k]))"
  using export_id_found by blast


subsection \<open>The files of an export\<close>

lemma collapse_suffix: "list_all (\<lambda>c. \<not> P c) b \<Longrightarrow> collapse P d (a @ b) = collapse P d a @ b"
proof (induction P d a rule: collapse.induct)
  case (1 P d)
  then show ?case by (induction b) simp_all
next
  case (2 P d c s)
  have "dropWhile P (s @ b) = dropWhile P s @ b"
  proof (cases "list_all P s")
    case True
    have "dropWhile P b = b" using "2.prems" by (cases b) simp_all
    then show ?thesis using True by (simp add: list_all_iff dropWhile_append)
  next
    case False
    then show ?thesis by (auto simp: list_all_iff dropWhile_append)
  qed
  then show ?case using 2 by (cases "P c") simp_all
qed

lemma safe_letters: "list_all (\<lambda>c. \<not> \<not> safe_char c) (''part'' @ nat_text i)"
  using nat_text_digits [of i] by (auto simp: list_all_iff safe_char_def is_alnum_def is_lower_def)

lemma trim_right_id: "s \<noteq> [] \<Longrightarrow> \<not> P (last s) \<Longrightarrow> trim_right P s = s"
  by (cases s rule: rev_cases) (simp_all add: trim_right_def)

lemma stem_shape: "\<exists>p. stem r i s = p @ ''part'' @ nat_text i"
proof -
  let ?P = "\<lambda>c. c = CHR ''_''"
  let ?b = "''part'' @ nat_text i"
  obtain a where a: "capital (er_car r) @ ''__'' @ stampUtc (es_start s) True @ ''__part'' @ nat_text i = a @ ?b"
    by (metis append_assoc append_Cons append_Nil)
  let ?c = "collapse (\<lambda>c. \<not> safe_char c) (CHR ''_'') a"
  have c: "collapse (\<lambda>c. \<not> safe_char c) (CHR ''_'') (a @ ?b) = ?c @ ?b"
    using safe_letters by (rule collapse_suffix)
  have l: "trim_left ?P (?c @ ?b) = dropWhile ?P ?c @ ?b"
    by (simp add: trim_left_def dropWhile_append)
  have "\<not> ?P (last (p @ ?b))" for p
    using digits_hd [OF nat_text_not_Nil nat_text_digits, of i] nat_text_not_Nil [of i] by (auto simp: is_digit_def)
  then have "trim_right ?P (p @ ?b) = p @ ?b" for p
    by (intro trim_right_id) simp_all
  then show ?thesis
    unfolding stem_def a safeName_def c trim_chars_def l by (simp add: Let_def)
qed

lemma digit_suffix:
  assumes "p @ ''part'' @ nat_text i = q @ ''part'' @ nat_text j"
  shows "i = j"
proof -
  have tw: "takeWhile is_digit (rev (p @ ''part'' @ nat_text i)) = rev (nat_text i)" for p i
    using nat_text_digits [of i] by (simp add: list_all_iff is_digit_def takeWhile_append)
  have "rev (nat_text i) = rev (nat_text j)" by (metis assms tw)
  then show ?thesis by simp
qed


text \<open>The names of the files of a segment end in one of four suffixes, which tell them apart.\<close>

definition suffixes :: "string list" where
  "suffixes = [''.status.json'', ''.csv'', ''.ld'', ''.ldx'']"

lemma suffix_inject:
  assumes "p @ u = q @ v" "u \<in> set suffixes" "v \<in> set suffixes"
  shows "u = v \<and> p = q"
proof -
  have "last u = last v"
    using arg_cong [OF assms(1), of last] assms(2,3) by (auto simp: suffixes_def)
  then have "u = v" using assms(2,3) by (auto simp: suffixes_def)
  then show ?thesis using assms(1) by simp
qed

lemma segment_names:
  "\<exists>us. map fst (fst (export_segment pf st rc r chart track i s)) = map (\<lambda>u. stem r i s @ u) us \<and> distinct us \<and> set us \<subseteq> set suffixes"
proof -
  have side: "map fst (sidecar_entry st rc r m s) = map (\<lambda>u. m @ u) (if sidecar_entry st rc r m s = [] then [] else [''.status.json''])" for m
    by (simp add: sidecar_entry_def split: option.splits)
  show ?thesis
    unfolding export_segment_def Let_def
    by (auto simp: side suffixes_def split: sum.splits option.splits prod.splits
        intro: exI [of _ "[]"] exI [of _ "[''.csv'']"] exI [of _ "[''.status.json'']"] exI [of _ "[''.ld'']"]
          exI [of _ "[''.ld'', ''.ldx'']"] exI [of _ "[''.status.json'', ''.csv'']"] exI [of _ "[''.status.json'', ''.ld'']"]
          exI [of _ "[''.status.json'', ''.ld'', ''.ldx'']"])
qed

lemma loop_names:
  assumes f: "\<And>i s. \<exists>us. map fst (fst (f i s)) = map (\<lambda>u. stem r i s @ u) us \<and> distinct us \<and> set us \<subseteq> set suffixes"
  shows "distinct (map fst (fst (export_loop f i ss)))
    \<and> (\<forall>n \<in> fst ` set (fst (export_loop f i ss)). \<exists>j s u. i \<le> j \<and> n = stem r j s @ u \<and> u \<in> set suffixes)"
proof (induction ss arbitrary: i)
  case (Cons s ss)
  obtain us where us: "map fst (fst (f i s)) = map (\<lambda>u. stem r i s @ u) us" "distinct us" "set us \<subseteq> set suffixes"
    using f by blast
  have own: "distinct (map fst (fst (f i s)))" by (simp add: us(1) distinct_map us(2) inj_on_def)
  have mem: "fst ` set (fst (f i s)) = (\<lambda>u. stem r i s @ u) ` set us"
    using arg_cong [OF us(1), of set] by simp
  let ?rest = "fst (export_loop f (i + 1) ss)"
  have disj: "fst ` set (fst (f i s)) \<inter> fst ` set ?rest = {}"
  proof (rule ccontr)
    assume "fst ` set (fst (f i s)) \<inter> fst ` set ?rest \<noteq> {}"
    then obtain n where n: "n \<in> (\<lambda>u. stem r i s @ u) ` set us" "n \<in> fst ` set ?rest" unfolding mem by blast
    then obtain u where u: "u \<in> set suffixes" "n = stem r i s @ u" using us(3) by blast
    obtain j t v where v: "i + 1 \<le> j" "n = stem r j t @ v" "v \<in> set suffixes" using Cons.IH n(2) by blast
    have "stem r i s = stem r j t" using suffix_inject [of "stem r i s" u "stem r j t" v] u v by simp
    then have "i = j" using stem_shape digit_suffix by metis
    then show False using v(1) by simp
  qed
  obtain es e where fi: "f i s = (es, e)" by fastforce
  have first: "\<exists>j t u. i \<le> j \<and> n = stem r j t @ u \<and> u \<in> set suffixes" if n: "n \<in> fst ` set es" for n
  proof -
    obtain u where "u \<in> set us" "n = stem r i s @ u" using n mem fi by auto
    then show ?thesis using us(3) by blast
  qed
  show ?case
  proof (cases e)
    case None
    have later: "\<exists>j t u. i \<le> j \<and> n = stem r j t @ u \<and> u \<in> set suffixes" if "n \<in> fst ` set ?rest" for n
      using Cons.IH [of "i + 1"] that by (meson add_leD1)
    have "fst (export_loop f i (s # ss)) = es @ ?rest" by (simp add: fi None split: prod.splits)
    then show ?thesis using own disj Cons.IH [of "i + 1"] first later fi by (simp add: image_Un ball_Un)
  next
    case (Some x)
    then have "fst (export_loop f i (s # ss)) = es" by (simp add: fi)
    then show ?thesis using own first fi by simp
  qed
qed simp


text \<open>What a run of the exporter comes to: the request is empty, or there is a free id, the files of the loop are written
  below it, and an archive of them beside it unless there was an error.\<close>

abbreviation run_loop where
  "run_loop pf st rc r chart track \<equiv>
     export_loop (export_segment pf st rc r chart (if er_csv r then None else track)) 1 (er_segments r)"

lemma export_cases:
  assumes "Exporter_export pf st rc r chart track d = (d', out)" "er_segments r \<noteq> []"
  obtains (failed) n e where "\<not> taken d n" "d' = write_files n (fst (run_loop pf st rc r chart track)) (jm_set n None d)" "out = Some (Inl e)"
  | (finished) n z where "\<not> taken d n" "snd (run_loop pf st rc r chart track) = None"
      "buildZip (pf_crc32 pf) (pf_local_now pf) (fst (run_loop pf st rc r chart track)) = Some z"
      "d' = jm_set (n @ ''.zip'') (Some z) (write_files n (fst (run_loop pf st rc r chart track)) (jm_set n None d))"
      "out = Some (Inr \<lparr>xr_id = n, xr_zip_path = n @ ''.zip'', xr_files = map fst (fst (run_loop pf st rc r chart track)),
                  xr_url = ''/api/motec/export/download?id='' @ n\<rparr>)"
proof -
  obtain n where n: "exportId d r = Some n" "\<not> taken d n" using export_id_found by blast
  show ?thesis
  proof (cases "snd (run_loop pf st rc r chart track)")
    case None
    then show ?thesis
    proof (cases "buildZip (pf_crc32 pf) (pf_local_now pf) (fst (run_loop pf st rc r chart track))")
      case None
      then show ?thesis
        using failed [OF n(2), of RangeError] assms \<open>snd _ = None\<close> by (simp add: Exporter_export_def n(1) Let_def)
    next
      case (Some z)
      then show ?thesis
        using finished [OF n(2), of z] assms \<open>snd _ = None\<close> by (simp add: Exporter_export_def n(1) Let_def)
    qed
  next
    case (Some e)
    then show ?thesis using failed [OF n(2), of e] assms by (simp add: Exporter_export_def n(1) Let_def)
  qed
qed

lemma not_below: "n \<noteq> n @ ''/'' @ m" "n @ ''.zip'' \<noteq> n @ ''/'' @ m" "n @ ''.zip'' \<noteq> n"
  by simp_all

lemma write_files_other: "\<forall>m. p \<noteq> dir @ ''/'' @ m \<Longrightarrow> jm_get (write_files dir es d) p = jm_get d p"
  unfolding write_files_def by (intro jm.fold_store_other) auto

lemma write_files_own:
  assumes "distinct (map fst es)" "e \<in> set es"
  shows "jm_get (write_files dir es d) (dir @ ''/'' @ fst e) = Some (Some (snd e))"
proof -
  have "distinct (map (\<lambda>e. dir @ ''/'' @ fst e) es)"
    using assms(1) by (simp add: distinct_map inj_on_def)
  from jm.fold_store_distinct [OF this assms(2)] show ?thesis by (simp add: write_files_def)
qed

text \<open>A disk where whatever lies below a name has that name as a directory.\<close>

definition parents_exist :: "disk \<Rightarrow> bool" where
  "parents_exist d \<longleftrightarrow> list_all (\<lambda>p. list_all (\<lambda>i. p ! i = CHR ''/'' \<longrightarrow> jm_has d (take i p)) [0..<length p]) (map fst d)"

lemma parents_exist_below: "parents_exist d \<Longrightarrow> jm_has d (n @ ''/'' @ m) \<Longrightarrow> jm_has d n"
proof -
  assume d: "parents_exist d" "jm_has d (n @ ''/'' @ m)"
  from d(2) have mem: "n @ ''/'' @ m \<in> set (map fst d)" by (simp add: jm_has_def)
  have "length n \<in> set [0..<length (n @ ''/'' @ m)]" by simp
  from bspec [OF bspec [OF d(1) [unfolded parents_exist_def list_all_iff] mem] this]
  show "jm_has d n" by simp
qed

text \<open>An export never touches what is on the disk already, whether it ends well or not.\<close>

theorem export_keeps_disk:
  assumes "parents_exist d" "jm_has d p"
  shows "jm_get (fst (Exporter_export pf st rc r chart track d)) p = jm_get d p"
proof (cases "er_segments r = []")
  case True
  then show ?thesis by (simp add: Exporter_export_def)
next
  case False
  obtain d' out where run: "Exporter_export pf st rc r chart track d = (d', out)" by fastforce
  have keep: "p \<noteq> n" "p \<noteq> n @ ''.zip''" "\<forall>m. p \<noteq> n @ ''/'' @ m" if "\<not> taken d n" for n
    using that assms parents_exist_below [OF assms(1)] by (auto simp: taken_def)
  from run False have "jm_get d' p = jm_get d p"
  proof (cases rule: export_cases)
    case (failed n e)
    then show ?thesis using keep [OF failed(1)] by (simp add: write_files_other jm_get_set)
  next
    case (finished n z)
    then show ?thesis using keep [OF finished(1)] by (simp add: write_files_other jm_get_set)
  qed
  then show ?thesis by (simp add: run)
qed

text \<open>A failed export leaves no archive, but it leaves the directory it made, with the files that were written before the
  error, and so takes the id from the next export.\<close>

theorem export_failure:
  assumes "er_segments r \<noteq> []" "Exporter_export pf st rc r chart track d = (d', Some (Inl e))"
  shows "\<exists>n. \<not> taken d n \<and> taken d' n \<and> jm_get d' n = Some None \<and> jm_get d' (n @ ''.zip'') = None"
  using assms(2,1)
proof (cases rule: export_cases)
  case (failed n e')
  have "jm_get d' n = Some None" "jm_get d' (n @ ''.zip'') = jm_get d (n @ ''.zip'')"
    by (simp_all add: failed(2) write_files_other jm_get_set)
  then show ?thesis using failed(1) by (auto simp: taken_def jm_has_iff)
next
  case (finished n z)
  then show ?thesis by simp
qed


text \<open>The files of an export that hold the data of a segment: its table, or a log that a reader opens.\<close>

definition delivered :: "platform \<Rightarrow> settings \<Rightarrow> recorder \<Rightarrow> export_request \<Rightarrow> chart_entry list option \<Rightarrow> entry list
    \<Rightarrow> nat \<times> segment_request \<Rightarrow> bool" where
  "delivered pf st rc r chart es is =
     (case rc_rows rc (es_start (snd is)) (es_end (snd is)) of
        Inl e \<Rightarrow> False
      | Inr rows \<Rightarrow> (case segment_log st rc r chart (snd is) rows of
          Inl e \<Rightarrow> False
        | Inr l \<Rightarrow>
            if er_csv r then (stem r (fst is) (snd is) @ ''.csv'', utf8 (writeCsv l (es_start (snd is)))) \<in> set es
            else list_ex (\<lambda>e. fst e = stem r (fst is) (snd is) @ ''.ld''
                   \<and> (length (snd e) < 2 ^ 32 \<longrightarrow> readLd (snd e) = map (ld_view (pf_f32 pf)) (log_channels l))) es))"

lemma segment_delivers:
  assumes "export_segment pf st rc r chart track i s = (es, None)"
  shows "delivered pf st rc r chart es (i, s)"
proof -
  obtain rows l where rows: "rc_rows rc (es_start s) (es_end s) = Inr rows" "segment_log st rc r chart s rows = Inr l"
    using assms by (auto simp: export_segment_def split: if_splits sum.splits)
  show ?thesis
  proof (cases "er_csv r")
    case True
    then show ?thesis using assms rows by (auto simp: export_segment_def delivered_def Let_def split: if_splits)
  next
    case False
    obtain ld where ld: "writeLd (pf_f32 pf) (pf_parse_date pf) (pf_utc_now pf) l (export_metadata pf r s) = Some ld"
      using ld_total by blast
    have "(stem r i s @ ''.ld'', ld) \<in> set es"
      using assms rows ld False by (auto simp: export_segment_def Let_def split: if_splits sum.splits prod.splits)
    then show ?thesis
      using rows False ld_readable [OF ld] by (auto simp: delivered_def list_ex_iff intro!: bexI [of _ "(stem r i s @ ''.ld'', ld)"])
  qed
qed

lemma delivered_mono: "delivered pf st rc r chart es is \<Longrightarrow> set es \<subseteq> set fs \<Longrightarrow> delivered pf st rc r chart fs is"
  unfolding delivered_def by (auto simp: list_ex_iff split: sum.splits if_splits)

lemma loop_delivers:
  "export_loop (export_segment pf st rc r chart track) i ss = (es, None) \<Longrightarrow>
     list_all (delivered pf st rc r chart es) (enumerate i ss)"
proof (induction ss arbitrary: i es)
  case (Cons s ss)
  obtain fs gs where fs: "export_segment pf st rc r chart track i s = (fs, None)"
      "export_loop (export_segment pf st rc r chart track) (i + 1) ss = (gs, None)" "es = fs @ gs"
    using Cons.prems by (auto split: prod.splits option.splits)
  have "list_all (delivered pf st rc r chart es) (enumerate (i + 1) ss)"
    using Cons.IH [OF fs(2)] by (auto simp: list_all_iff fs(3) intro: delivered_mono)
  moreover have "delivered pf st rc r chart es (i, s)"
    using segment_delivers [OF fs(1)] by (rule delivered_mono) (simp add: fs(3))
  ultimately show ?case by simp
qed simp

text \<open>C35: An export that ends well delivers what was asked for. Its archive and its directory hold the same files, under
  distinct names, and among them the table or the log of every segment.\<close>

theorem export_delivers:
  assumes "Exporter_export pf st rc r chart track d = (d', Some (Inr x))"
  shows "\<exists>z es. jm_get d' (xr_zip_path x) = Some (Some z) \<and> readZip z = map (zip_view (pf_crc32 pf)) es
    \<and> map fst es = xr_files x \<and> distinct (xr_files x)
    \<and> list_all (\<lambda>e. jm_get d' (xr_id x @ ''/'' @ fst e) = Some (Some (snd e))) es
    \<and> list_all (\<lambda>e. length (snd e) < 2 ^ 32) es
    \<and> list_all (delivered pf st rc r chart es) (enumerate 1 (er_segments r))"
proof -
  have "er_segments r \<noteq> []" using assms by (auto simp: Exporter_export_def)
  from assms this show ?thesis
  proof (cases rule: export_cases)
    case (failed n e)
    then show ?thesis by simp
  next
    case (finished n z)
    let ?es = "fst (run_loop pf st rc r chart track)"
    have names: "distinct (map fst ?es)" by (rule conjunct1 [OF loop_names]) (rule segment_names)
    have own: "jm_get d' (n @ ''/'' @ fst e) = Some (Some (snd e))" if "e \<in> set ?es" for e
      using write_files_own [OF names that, of n] not_below(2) [of n "fst e"] by (simp add: finished(4) jm_get_set)
    have "run_loop pf st rc r chart track = (?es, None)" using finished(2) by (simp add: prod_eq_iff)
    then have "list_all (delivered pf st rc r chart ?es) (enumerate 1 (er_segments r))" by (rule loop_delivers)
    then show ?thesis
      using finished names own zip_read [OF finished(3)] zip_sizes [OF finished(3)]
      by (intro exI [of _ z] exI [of _ ?es]) (simp add: list_all_iff jm_get_set)
  qed
qed


subsection \<open>A small export\<close>

definition demo_recorder :: recorder where
  "demo_recorder = \<lparr>rc_channels = [chan_def ''v'' ''Volts'' ''pack'' ''v'' ''V'' ''voltage'' True False],
     rc_rows = (\<lambda>a b. Inr [(0, [(''v'', JNum (JFin 10))]), (1000, [(''v'', JNum (JFin (41 / 2)))])]),
     rc_gps = (\<lambda>a b. Inr []), rc_status = (\<lambda>a b. None)\<rparr>"

definition demo_request :: "int \<Rightarrow> export_request" where
  "demo_request stop = \<lparr>er_car = ''orion'', er_keys = [''v''],
     er_segments = [\<lparr>es_id = ''s'', es_start = 0, es_end = stop, es_label = [], es_metadata = []\<rparr>],
     er_csv = True, er_frequency = Some 1, er_metadata = []\<rparr>"

definition demo_log :: data_log where
  "demo_log = \<lparr>log_name = dbName pg_settings @ ''_postgres'',
     channels = [(''v'', \<lparr>ch_name = ''Volts'', ch_unit = ''V'', ch_quantity = ''voltage'',
       samples = [\<lparr>s_t = 0, s_value = JFin 10\<rparr>, \<lparr>s_t = 1, s_value = JFin (41 / 2)\<rparr>]\<rparr>)],
     log_metadata = [(''source'', ''postgres''), (''start_ms'', ''0''), (''end_ms'', ''1000'')]\<rparr>"

lemma pg: "usePostgres pg_settings"
  by (simp add: pg_settings_def baseSettings_def env_text_def Let_def) code_simp

lemma demo_datalog: "datalog pg_settings (rc_channels demo_recorder) [''v''] 0 1000
    [(0, [(''v'', JNum (JFin 10))]), (1000, [(''v'', JNum (JFin (41 / 2)))])] = Inr demo_log"
  by (simp add: datalog_def pg demo_recorder_def demo_log_def selected_channels_def channel_lookup_def chan_def_def jm_get_def jm_set_def
      row_samples_def List.map_filter_simps nullish_def to_number.simps int_text_def nat_text_small nat_text_step js_simps Let_def)

lemma demo_segment_log: "\<exists>c. segment_log pg_settings demo_recorder (demo_request 1000) None (hd (er_segments (demo_request 1000)))
    [(0, [(''v'', JNum (JFin 10))]), (1000, [(''v'', JNum (JFin (41 / 2)))])] = Inr c"
  using demo_datalog by (simp add: segment_log_def demo_request_def)


definition demo_csv :: string where
  "demo_csv = writeCsv (log_resample (Some 1) demo_log) 0"

lemma demo_resampled: "csv_channels (log_resample (Some 1) demo_log) = [(''v'', \<lparr>ch_name = ''Volts'', ch_unit = ''V'', ch_quantity = ''voltage'',
       samples = [\<lparr>s_t = 0, s_value = JFin 10\<rparr>, \<lparr>s_t = 1, s_value = JFin (41 / 2)\<rparr>]\<rparr>)]"
  by (simp add: demo_log_def csv_channels_def log_resample_def log_start_def log_end_def log_channels_def ch_start_def ch_end_def
      resample_def target_hz_def sample_count_def sample_time_def value_at_def upt_rec Let_def)

lemmas decimal_eval = decimal_text_def point_text_def exponent_text_def nat_text_step nat_text_small digit_chars
  trim_right_def is_zero_char_def Let_def

lemma round_numeral: "rat_round 0 = 0" "rat_round 1 = 1" "rat_round (numeral n) = numeral n"
  by (simp_all add: rat_round_def floor_eq_iff)

lemma replicate3: "replicate 3 x = [x, x, x]"
  by (simp add: numeral_eq_Suc)

lemma demo_numbers: "csvFloat (JFin 0) = ''0''" "csvFloat (JFin 1) = ''1''" "csvFloat (JFin 10) = ''10''" "csvFloat (JFin (41 / 2)) = ''20.5''"
    "decimal_text 0 0 = ''0''" "decimal_text 0 1000 = ''1000''"
  by (simp_all add: csvFloat_def round_numeral decimal_eval replicate3)

lemma demo_csv_text: "demo_csv = ''timestamp_ms,elapsed_s,Volts (V)'' @ CRLF @ ''0,0,10'' @ CRLF @ ''1000,1,20.5'' @ CRLF"
  by (simp add: demo_csv_def writeCsv_def demo_resampled Let_def csv_headers_def csv_base_def csvCell_def jm_get_def csv_length_def csv_row_def row_elapsed_def
     demo_numbers upt_rec round_numeral)

lemma demo_stem_csv: "stem (demo_request t) 1 (hd (er_segments (demo_request t))) = ''Orion__1970_01_01__00_00_00__part1''"
  unfolding demo_request_def by (simp add: stem_def capital_def del: append.simps) code_simp


lemma demo_id: "exportId [] r = Some (export_base r)"
  by (simp add: exportId_def free_name.simps taken_def jm_has_def)

lemma demo_max: "maxExportSeconds pg_settings = 1800"
  by (simp add: pg_settings_def baseSettings_def envNum_def Let_def)

lemma demo_run: "\<exists>d' x. Exporter_export demo_platform pg_settings demo_recorder (demo_request 1000) None None [] = (d', Some (Inr x))"
proof -
  let ?r = "demo_request 1000"
  let ?s = "hd (er_segments ?r)"
  have files: "export_segment demo_platform pg_settings demo_recorder ?r None None 1 ?s
      = ([(''Orion__1970_01_01__00_00_00__part1.csv'', utf8 demo_csv)], None)"
    using demo_datalog demo_stem_csv [of 1000]
    by (simp add: export_segment_def demo_max pg segment_log_def applyChannelChart_def sidecar_entry_def buildStatusSidecar_def
        carStatusSegments_def demo_csv_def demo_request_def demo_recorder_def)
  then have loop: "run_loop demo_platform pg_settings demo_recorder ?r None None
      = ([(''Orion__1970_01_01__00_00_00__part1.csv'', utf8 demo_csv)], None)"
    by (simp add: demo_request_def)
  have "buildZip (pf_crc32 demo_platform) (pf_local_now demo_platform)
      [(''Orion__1970_01_01__00_00_00__part1.csv'', utf8 demo_csv)] \<noteq> None"
    by (simp add: buildZip_def demo_platform_def march_first_def dos_time_def dos_date_def local_header_def central_header_def
        end_record_def packed_def checked_def demo_csv_text CRLF_def del: le_bytes.simps)
  then show ?thesis
    using loop by (auto simp: Exporter_export_def demo_id Let_def)
qed

theorem export_delivers_witness:
  "\<exists>d' x z. Exporter_export demo_platform pg_settings demo_recorder (demo_request 1000) None None [] = (d', Some (Inr x))
     \<and> jm_get d' (xr_zip_path x) = Some (Some z) \<and> map re_name (readZip z) = xr_files x"
proof -
  obtain d' x where run: "Exporter_export demo_platform pg_settings demo_recorder (demo_request 1000) None None [] = (d', Some (Inr x))"
    using demo_run by blast
  from export_delivers [OF run] obtain z es where z: "jm_get d' (xr_zip_path x) = Some (Some z)"
      "readZip z = map (zip_view (pf_crc32 demo_platform)) es" "map fst es = xr_files x" by blast
  have "map re_name (readZip z) = xr_files x" unfolding z(2,3) [symmetric] by (simp add: z(2) zip_view_def comp_def)
  then show ?thesis using run z(1) by blast
qed

definition old_export :: disk where
  "old_export = [(''Orion'', None), (''Orion/run.csv'', Some [1])]"

theorem export_keeps_disk_witness:
  "jm_get (fst (Exporter_export demo_platform pg_settings demo_recorder (demo_request 1000) None None old_export)) ''Orion/run.csv'' = Some (Some [1])"
proof -
  have "parents_exist old_export" "jm_has old_export ''Orion/run.csv''"
    by (simp_all add: old_export_def parents_exist_def jm_has_def upt_rec)
  from export_keeps_disk [OF this] show ?thesis by (simp add: old_export_def jm_get_def)
qed

theorem export_failure_witness:
  "\<exists>n. taken (fst (Exporter_export demo_platform pg_settings demo_recorder (demo_request 0) None None [])) n"
proof -
  have "er_segments (demo_request 0) \<noteq> []" by (simp add: demo_request_def)
  moreover have "Exporter_export demo_platform pg_settings demo_recorder (demo_request 0) None None []
      = (write_files (export_base (demo_request 0)) [] (jm_set (export_base (demo_request 0)) None []),
         Some (Inl (Thrown ''Segment s has an invalid time range.'')))"
    unfolding Exporter_export_def demo_id Let_def by (simp add: demo_request_def export_segment_def)
  ultimately show ?thesis using export_failure by (metis fst_conv)
qed

end
