(* ===== verification/MotecDb.thy ===== *)
theory MotecDb
  imports MotecStores
begin

text \<open>
  Read-only access to the telemetry database, \<^verbatim>\<open>viewer_tool/src/lib/motec/db.ts\<close>: the guard on the text of a query, the
  pools by connection, and the order of the calls to the database client.
\<close>

subsection \<open>The guard\<close>

definition word_char :: "char \<Rightarrow> bool" where
  "word_char c \<longleftrightarrow> is_alnum c \<or> c = CHR ''_''"

text \<open>\<^verbatim>\<open>\b\<close>: exactly one of the two neighbours of a position is a word character.\<close>

definition boundary :: "string \<Rightarrow> nat \<Rightarrow> bool" where
  "boundary s i \<longleftrightarrow> (0 < i \<and> i \<le> length s \<and> word_char (s ! (i - 1))) \<noteq> (i < length s \<and> word_char (s ! i))"

text \<open>The keyword stands at a position, without regard to case, and ends at a word boundary.\<close>

definition keyword_at :: "string \<Rightarrow> string \<Rightarrow> nat \<Rightarrow> bool" where
  "keyword_at k s i \<longleftrightarrow> starts_with k (lower (drop i s)) \<and> boundary s (i + length k)"

definition SELECT_RE :: "string \<Rightarrow> bool" where
  "SELECT_RE s \<longleftrightarrow> (let i = length (takeWhile is_space s) in keyword_at ''select'' s i \<or> keyword_at ''with'' s i)"

definition FORBIDDEN :: "string list" where
  "FORBIDDEN = [''insert'', ''update'', ''delete'', ''merge'', ''alter'', ''drop'', ''create'', ''truncate'', ''grant'', ''revoke'', ''vacuum'']"

text \<open>\<^verbatim>\<open>copy\s+[^()]*\s+from\<close>.\<close>

definition copy_from_at :: "string \<Rightarrow> nat \<Rightarrow> bool" where
  "copy_from_at s i \<longleftrightarrow> starts_with ''copy'' (lower (drop i s))
     \<and> list_ex (\<lambda>j. keyword_at ''from'' s j \<and> i + 6 \<le> j \<and> is_space (s ! (i + 4)) \<and> is_space (s ! (j - 1))
          \<and> list_all (\<lambda>c. c \<notin> {CHR ''('', CHR '')''}) (take (j - (i + 4)) (drop (i + 4) s))) [0..<length s]"

definition FORBIDDEN_RE :: "string \<Rightarrow> bool" where
  "FORBIDDEN_RE s \<longleftrightarrow> list_ex (\<lambda>i. boundary s i \<and> (list_ex (\<lambda>k. keyword_at k s i) FORBIDDEN \<or> copy_from_at s i)) [0..<length s]"

definition assertReadOnly :: "string \<Rightarrow> js_error option" where
  "assertReadOnly sql =
     (if \<not> SELECT_RE sql then Some (Thrown ''Only SELECT/CTE queries are allowed.'')
      else if FORBIDDEN_RE sql then Some (Thrown ''Query contains a forbidden mutating keyword.'') else None)"

subsection \<open>Pools\<close>

record pool =
  pl_host :: string
  pl_port :: rat
  pl_database :: string
  pl_user :: string
  pl_password :: string
  pl_ssl :: bool
  pl_timeout :: rat
  pl_max :: nat

type_synonym pools = "(string, pool) jsmap"

definition pool_key :: "(rat \<Rightarrow> string) \<Rightarrow> settings \<Rightarrow> string" where
  "pool_key num_text s = dbHost s @ '':'' @ num_text (dbPort s) @ ''/'' @ dbName s @ ''/'' @ dbUser s"

definition new_pool :: "settings \<Rightarrow> pool" where
  "new_pool s = \<lparr>pl_host = dbHost s, pl_port = dbPort s, pl_database = dbName s, pl_user = dbUser s, pl_password = dbPassword s,
     pl_ssl = (dbSslmode s \<noteq> [] \<and> dbSslmode s \<noteq> ''disable''), pl_timeout = dbConnectTimeout s * 1000, pl_max = 4\<rparr>"

definition poolFor :: "(rat \<Rightarrow> string) \<Rightarrow> settings \<Rightarrow> pools \<Rightarrow> pools \<times> pool" where
  "poolFor num_text s ps = (case jm_get ps (pool_key num_text s) of
       Some p \<Rightarrow> (ps, p)
     | None \<Rightarrow> (jm_set (pool_key num_text s) (new_pool s) ps, new_pool s))"

subsection \<open>A query\<close>

text \<open>The calls a query makes to the database client.\<close>

datatype db_call = Connect | Statement string "json list" | Release

definition BEGIN_RO :: db_call where "BEGIN_RO = Statement ''BEGIN TRANSACTION READ ONLY'' []"
definition SET_TIMEOUT :: db_call where "SET_TIMEOUT = Statement ''SET LOCAL statement_timeout = 30000'' []"
definition COMMIT :: db_call where "COMMIT = Statement ''COMMIT'' []"
definition ROLLBACK :: db_call where "ROLLBACK = Statement ''ROLLBACK'' []"

text \<open>The client answers the call of a given number with rows or with an error. Statements run in order up to the first
  error; the rows wanted are those of the query itself.\<close>

fun run_statements :: "(nat \<Rightarrow> js_error + 'r) \<Rightarrow> nat \<Rightarrow> db_call list \<Rightarrow> db_call list \<times> (js_error + 'r list)" where
  "run_statements ans n [] = ([], Inr [])"
| "run_statements ans n (c # cs) = (case ans n of
       Inl e \<Rightarrow> ([c], Inl e)
     | Inr r \<Rightarrow> (case run_statements ans (n + 1) cs of
           (t, Inl e) \<Rightarrow> (c # t, Inl e)
         | (t, Inr rs) \<Rightarrow> (c # t, Inr (r # rs))))"

definition query :: "(nat \<Rightarrow> js_error + 'r) \<Rightarrow> settings \<Rightarrow> string \<Rightarrow> json list \<Rightarrow> db_call list \<times> (js_error + 'r)" where
  "query ans s sql params =
     (case assertReadOnly sql of
        Some e \<Rightarrow> ([], Inl e)
      | None \<Rightarrow>
          if dbPassword s = [] then ([], Inl (Thrown ''ORION_DB_PASSWORD is not set.''))
          else case ans 0 of
            Inl e \<Rightarrow> ([Connect], Inl e)
          | Inr _ \<Rightarrow>
              (case run_statements ans 1 [BEGIN_RO, SET_TIMEOUT, Statement sql params, COMMIT] of
                 (t, Inr rs) \<Rightarrow> (Connect # t @ [Release], Inr (rs ! 2))
               | (t, Inl e) \<Rightarrow> (Connect # t @ [ROLLBACK, Release], Inl e)))"

subsection \<open>Reading stays reading\<close>

text \<open>What holds of the calls of a query: a connection that was made is released at the end, and a text is sent
  only if the guard lets it through, within a transaction that was opened for reading only and is closed by a commit or a
  rollback.\<close>

definition tidy :: "string \<Rightarrow> json list \<Rightarrow> db_call list \<Rightarrow> bool" where
  "tidy sql params t \<longleftrightarrow> t = [] \<or> t = [Connect]
     \<or> list_ex (\<lambda>k. t = Connect # take k [BEGIN_RO, SET_TIMEOUT, Statement sql params, COMMIT] @ [ROLLBACK, Release]) [1, 2, 3, 4]
     \<or> t = Connect # [BEGIN_RO, SET_TIMEOUT, Statement sql params, COMMIT] @ [Release]"

theorem query_tidy:
  "case query ans s sql params of (t, out) \<Rightarrow>
     tidy sql params t
     \<and> (case out of Inr r \<Rightarrow> assertReadOnly sql = None \<and> COMMIT \<in> set t \<and> ans 3 = Inr r | Inl e \<Rightarrow> last (COMMIT # t) \<noteq> COMMIT \<or> t = [])
     \<and> (case assertReadOnly sql of Some e \<Rightarrow> t = [] \<and> out = Inl e | None \<Rightarrow> True)"
  by (simp add: query_def tidy_def BEGIN_RO_def SET_TIMEOUT_def COMMIT_def ROLLBACK_def eval_nat_numeral
      split: option.splits sum.splits prod.splits)

text \<open>The guard works on the text alone. It takes a \<^verbatim>\<open>select\<close> that writes a table or calls a function that writes, which
  only the transaction keeps from happening, and refuses one that merely mentions a keyword in a literal.\<close>

theorem guard_is_textual:
  "assertReadOnly ''select setval(x, 1)'' = None \<and> assertReadOnly ''SELECT a into b from c'' = None
     \<and> assertReadOnly ''with x as (delete from t returning id) select id from x'' \<noteq> None
     \<and> assertReadOnly ''select lap from notes where kind = $update$'' \<noteq> None
     \<and> assertReadOnly ''select last_update from notes'' = None \<and> assertReadOnly ''update t set x = 1'' \<noteq> None
     \<and> assertReadOnly ''with x as (select 1) select copy t from x'' \<noteq> None"
  by code_simp

end
