(* ===== verification/DriveMath.thy ===== *)
theory DriveMath
  imports JsNumber "HOL-Library.Monad_Syntax"
begin

text \<open>
  The numeric helpers of the drive-day analysis, \<^verbatim>\<open>viewer_tool/src/lib/driveday/math.ts\<close>, and the windows of its
  timeline, \<^verbatim>\<open>timeline-window.ts\<close>.

  A read outside an array gives \<^verbatim>\<open>undefined\<close>, which arithmetic turns into \<open>NaN\<close>: a result that can be undefined is a
  \<^typ>\<open>jsnum\<close>.
\<close>

subsection \<open>Interpolation\<close>

text \<open>The bisection that both \<^verbatim>\<open>interp\<close> and \<^verbatim>\<open>timeAverage\<close> use.\<close>

function bisect :: "rat list \<Rightarrow> rat \<Rightarrow> nat \<Rightarrow> nat \<Rightarrow> nat \<times> nat" where
  "bisect xs x lo hi =
     (if hi - lo > 1
      then (let m = (lo + hi) div 2 in if xs ! m \<le> x then bisect xs x m hi else bisect xs x lo m)
      else (lo, hi))"
  by pat_completeness auto

termination by (relation "measure (\<lambda>(xs, x, lo, hi). hi - lo)") auto

declare bisect.simps [simp del]

text \<open>\<open>xs[i]\<close>, \<^verbatim>\<open>undefined\<close> outside the array.\<close>

definition num_at :: "rat list \<Rightarrow> nat \<Rightarrow> jsnum" where
  "num_at xs i = (if i < length xs then JFin (xs ! i) else JNaN)"

definition between :: "rat list \<Rightarrow> rat list \<Rightarrow> rat \<Rightarrow> nat \<times> nat \<Rightarrow> jsnum" where
  "between xs ys x lh =
     (let d = xs ! snd lh - xs ! fst lh in
      if d > 0 then num_at ys (fst lh) + ((num_at ys (snd lh) - num_at ys (fst lh)) * JFin (x - xs ! fst lh)) / JFin d
      else num_at ys (fst lh))"

definition interp :: "rat list \<Rightarrow> rat list \<Rightarrow> rat \<Rightarrow> jsnum" where
  "interp xs ys x =
     (if xs = [] \<or> x \<le> hd xs then num_at ys 0
      else if x \<ge> last xs then num_at ys (length xs - 1)
      else between xs ys x (bisect xs x 0 (length xs - 1)))"

subsection \<open>Averages\<close>

definition areas :: "rat list \<Rightarrow> rat list \<Rightarrow> rat list" where
  "areas ts vs = fold (\<lambda>i acc. acc @ [last acc + (ts ! i - ts ! (i - 1)) * (vs ! (i - 1) + vs ! i) / 2]) [1..<length ts] [0]"

definition integral_at :: "rat list \<Rightarrow> rat list \<Rightarrow> rat \<Rightarrow> rat" where
  "integral_at ts vs t =
     (let lh = bisect ts t 0 (length ts - 1); lo = fst lh; hi = snd lh; dt = ts ! hi - ts ! lo; elapsed = t - ts ! lo in
      areas ts vs ! lo + vs ! lo * elapsed + (if dt > 0 then (vs ! hi - vs ! lo) * elapsed ^ 2 / (2 * dt) else 0))"

definition timeAverage :: "rat list \<Rightarrow> rat list \<Rightarrow> rat \<Rightarrow> rat list" where
  "timeAverage ts vs half =
     (if length ts < 2 then vs
      else map (\<lambda>i. let a = max (hd ts) (ts ! i - half); b = min (last ts) (ts ! i + half) in
             if b > a then (integral_at ts vs b - integral_at ts vs a) / (b - a) else vs ! i) [0..<length ts])"

definition med :: "rat list \<Rightarrow> rat" where
  "med a = (let s = sort a; n = length s in
     if n = 0 then 0 else if n mod 2 \<noteq> 0 then s ! ((n - 1) div 2) else (s ! (n div 2 - 1) + s ! (n div 2)) / 2)"

definition pctl :: "rat list \<Rightarrow> rat \<Rightarrow> jsnum" where
  "pctl a p = (let s = sort a; i = \<lfloor>(of_nat (length s) - 1) * p\<rfloor>
     in if i < 0 then JNaN else num_at s (nat i))"

text \<open>The median of the slopes of all pairs of points with different abscissa.\<close>

definition slopes :: "rat list \<Rightarrow> rat list \<Rightarrow> rat list" where
  "slopes xs ys = concat (map (\<lambda>i. List.map_filter (\<lambda>j.
     if xs ! j \<noteq> xs ! i then Some ((ys ! j - ys ! i) / (xs ! j - xs ! i)) else None) [i + 1..<length xs]) [0..<length xs])"

definition theil :: "rat list \<Rightarrow> rat list \<Rightarrow> rat" where
  "theil xs ys = (let m = slopes xs ys in if m \<noteq> [] then med m else 0)"

definition clamp :: "rat \<Rightarrow> rat \<Rightarrow> rat \<Rightarrow> rat" where
  "clamp v lo hi = max lo (min hi v)"

subsection \<open>Loops\<close>

text \<open>JavaScript's remainder takes the sign of the dividend.\<close>

definition rem :: "rat \<Rightarrow> rat \<Rightarrow> rat" where
  "rem a b = (let q = a / b in a - b * of_int (if q \<ge> 0 then \<lfloor>q\<rfloor> else \<lceil>q\<rceil>))"

definition wrap :: "rat \<Rightarrow> rat \<Rightarrow> rat" where
  "wrap s len = rem (rem s len + len) len"

definition circDist :: "rat \<Rightarrow> rat \<Rightarrow> rat \<Rightarrow> rat" where
  "circDist a b len = \<bar>rem (rem (a - b + len / 2) len + len) len - len / 2\<bar>"

lemma floor_mult:
  assumes "0 < (len :: rat)"
  shows "len * of_int \<lfloor>s / len\<rfloor> \<le> s \<and> s < len * (of_int \<lfloor>s / len\<rfloor> + 1)"
proof -
  have "of_int \<lfloor>s / len\<rfloor> \<le> s / len" "s / len < of_int \<lfloor>s / len\<rfloor> + 1" by linarith+
  from mult_left_mono [OF this(1), of len] mult_strict_left_mono [OF this(2), of len] show ?thesis using assms by simp
qed

lemma wrap_eq:
  assumes "0 < len"
  shows "wrap s len = s - len * of_int \<lfloor>s / len\<rfloor>"
proof -
  let ?q = "s / len"
  have s: "s = len * ?q" using assms by simp
  have pos: "0 \<le> a \<Longrightarrow> rem a len = a - len * of_int \<lfloor>a / len\<rfloor>" for a
    using assms by (simp add: rem_def Let_def)
  show ?thesis
  proof (cases "0 \<le> ?q")
    case True
    have "0 \<le> s" using True s assms by (metis less_imp_le mult_nonneg_nonneg)
    moreover have r: "0 \<le> rem s len" "rem s len < len"
    proof -
      have "len * of_int \<lfloor>?q\<rfloor> \<le> s" "s < len * (of_int \<lfloor>?q\<rfloor> + 1)"
        using floor_mult [OF assms] by simp_all
      then show "0 \<le> rem s len" "rem s len < len" using \<open>0 \<le> s\<close> by (simp_all add: pos algebra_simps)
    qed
    have "\<lfloor>(rem s len + len) / len\<rfloor> = 1"
      using r assms by (simp add: floor_eq_iff add_divide_distrib)
    then show ?thesis using r \<open>0 \<le> s\<close> assms by (simp add: wrap_def pos)
  next
    case False
    have rem: "rem s len = s - len * of_int \<lceil>?q\<rceil>" using False by (simp add: rem_def Let_def)
    have q: "of_int \<lceil>?q\<rceil> - 1 < ?q" "?q \<le> of_int \<lceil>?q\<rceil>" by linarith+
    have "len * (of_int \<lceil>?q\<rceil> - 1) < s" "s \<le> len * of_int \<lceil>?q\<rceil>"
      using mult_strict_left_mono [OF q(1), of len] mult_left_mono [OF q(2), of len] assms by simp_all
    then have r: "- len < rem s len" "rem s len \<le> 0" unfolding rem by (simp_all add: algebra_simps)
    have w: "wrap s len = rem s len + len - len * of_int \<lfloor>(rem s len + len) / len\<rfloor>"
      using r by (simp add: wrap_def pos)
    show ?thesis
    proof (cases "rem s len = 0")
      case True
      then have "?q = of_int \<lceil>?q\<rceil>" using rem assms by (simp add: field_simps)
      then have "\<lfloor>?q\<rfloor> = \<lceil>?q\<rceil>" by (metis floor_of_int)
      then show ?thesis using True rem assms by (simp add: w)
    next
      case False
      then have "rem s len < 0" using r by simp
      have f0: "\<lfloor>(rem s len + len) / len\<rfloor> = 0"
        using r \<open>rem s len < 0\<close> assms by (simp add: floor_eq_iff field_simps)
      have f1: "\<lfloor>?q\<rfloor> = \<lceil>?q\<rceil> - 1"
      proof -
        have "?q \<noteq> of_int \<lceil>?q\<rceil>" using False rem assms by (auto simp: field_simps)
        then show ?thesis by linarith
      qed
      show ?thesis unfolding w f0 f1 by (simp add: rem algebra_simps)
    qed
  qed
qed

lemma wrap_range: "0 < len \<Longrightarrow> 0 \<le> wrap s len \<and> wrap s len < len"
proof -
  assume "0 < len"
  then have "len * of_int \<lfloor>s / len\<rfloor> \<le> s" "s < len * (of_int \<lfloor>s / len\<rfloor> + 1)"
    using floor_mult by simp_all
  then show ?thesis using \<open>0 < len\<close> by (simp add: wrap_eq) (simp add: algebra_simps)
qed

text \<open>The representative of a position is unique.\<close>

lemma wrap_unique: "0 < len \<Longrightarrow> 0 \<le> r \<Longrightarrow> r < len \<Longrightarrow> s = r + len * of_int k \<Longrightarrow> wrap s len = r"
proof -
  assume a: "0 < len" "0 \<le> r" "r < len" "s = r + len * of_int k"
  have "s / len = r / len + of_int k" using a(1,4) by (simp add: add_divide_distrib)
  moreover have "\<lfloor>r / len\<rfloor> = 0" using a by (simp add: floor_eq_iff field_simps)
  ultimately have "\<lfloor>s / len\<rfloor> = k" by simp
  then show "wrap s len = r" using a by (simp add: wrap_eq)
qed


subsection \<open>Interpolation is piecewise linear\<close>

lemma bisect_spec:
  "lo < hi \<Longrightarrow> xs ! lo \<le> x \<Longrightarrow> x < xs ! hi \<Longrightarrow>
     \<exists>l. bisect xs x lo hi = (l, l + 1) \<and> lo \<le> l \<and> l + 1 \<le> hi \<and> xs ! l \<le> x \<and> x < xs ! (l + 1)"
proof (induction xs x lo hi rule: bisect.induct)
  case (1 xs x lo hi)
  show ?case
  proof (cases "hi - lo > 1")
    case True
    let ?m = "(lo + hi) div 2"
    have m: "lo < ?m" "?m < hi" using True by linarith+
    show ?thesis
    proof (cases "xs ! ?m \<le> x")
      case le: True
      from 1(1) [OF True refl le m(2) le 1(5)] obtain l where
        "bisect xs x ?m hi = (l, l + 1)" "?m \<le> l" "l + 1 \<le> hi" "xs ! l \<le> x" "x < xs ! (l + 1)" by blast
      then show ?thesis using m True le by (intro exI [of _ l]) (simp add: bisect.simps [of xs x lo hi] Let_def)
    next
      case gt: False
      then have "x < xs ! ?m" by simp
      from 1(2) [OF True refl gt m(1) 1(4) this] obtain l where
        "bisect xs x lo ?m = (l, l + 1)" "lo \<le> l" "l + 1 \<le> ?m" "xs ! l \<le> x" "x < xs ! (l + 1)" by blast
      then show ?thesis using m True gt by (intro exI [of _ l]) (simp add: bisect.simps [of xs x lo hi] Let_def)
    qed
  next
    case False
    then have "hi = lo + 1" using 1(3) by simp
    then show ?thesis using 1(4,5) by (intro exI [of _ lo]) (simp add: bisect.simps)
  qed
qed

lemma interp_between_nodes:
  assumes xs: "sorted_wrt (<) xs" "length ys = length xs" "Suc i < length xs" and x: "xs ! i \<le> x" "x \<le> xs ! Suc i"
  shows "interp xs ys x = JFin (ys ! i + (ys ! Suc i - ys ! i) * (x - xs ! i) / (xs ! Suc i - xs ! i))"
proof -
  have mono: "xs ! a < xs ! b" if "a < b" "b < length xs" for a b
    using xs(1) that by (simp add: sorted_wrt_iff_nth_less)
  have le: "xs ! a \<le> xs ! b" if "a \<le> b" "b < length xs" for a b
    using mono that by (cases "a = b") (auto simp: less_imp_le)
  have ne: "xs \<noteq> []" "ys \<noteq> []" using xs(2,3) by auto
  have step: "xs ! i < xs ! Suc i" using mono xs(3) by simp
  consider "x \<le> hd xs" | "hd xs < x" "last xs \<le> x" | "hd xs < x" "x < last xs" by linarith
  then show ?thesis
  proof cases
    case 1
    then have "x \<le> xs ! 0" using ne by (simp add: hd_conv_nth)
    then have "i = 0" using x(1) mono [of 0 i] xs(3) by (cases i) auto
    then have "x = xs ! i" using x(1) \<open>x \<le> xs ! 0\<close> by simp
    then show ?thesis using 1 ne \<open>i = 0\<close> xs(2) by (simp add: interp_def num_at_def hd_conv_nth)
  next
    case 2
    then have l: "xs ! (length xs - 1) \<le> x" using ne by (simp add: last_conv_nth)
    have "\<not> Suc i < length xs - 1"
    proof
      assume "Suc i < length xs - 1"
      then have "xs ! Suc i < xs ! (length xs - 1)" using mono xs(3) by simp
      then show False using l x(2) by simp
    qed
    then have i: "Suc i = length xs - 1" using xs(3) by simp
    then have "x = xs ! Suc i" using l x(2) by simp
    moreover have "length xs - Suc 0 = Suc i" using i by simp
    ultimately show ?thesis using 2 ne step xs by (simp add: interp_def num_at_def)
  next
    case 3
    have ends: "xs ! 0 \<le> x" "x < xs ! (length xs - 1)" using 3 ne by (simp_all add: hd_conv_nth last_conv_nth)
    have "0 < length xs - 1" using xs(3) by simp
    from bisect_spec [OF this ends] obtain l where l: "bisect xs x 0 (length xs - 1) = (l, l + 1)" "l + 1 \<le> length xs - 1"
        "xs ! l \<le> x" "x < xs ! (l + 1)" by blast
    have lstep: "xs ! l < xs ! (l + 1)" using mono l(2) xs(3) by simp
    have "l + 1 < length xs" using l(2) xs(3) by linarith
    then have "interp xs ys x = JFin (ys ! l + (ys ! (l + 1) - ys ! l) * (x - xs ! l) / (xs ! (l + 1) - xs ! l))"
      using 3 ne xs(2) lstep by (simp add: interp_def l(1) [simplified] between_def num_at_def Let_def)
    moreover have "l = i \<or> l = Suc i \<and> x = xs ! Suc i"
    proof -
      have "\<not> Suc i < l"
      proof
        assume "Suc i < l"
        then have "xs ! Suc i < xs ! l" using mono l(2) xs(3) by simp
        then show False using l(3) x(2) by simp
      qed
      moreover have "\<not> l < i"
      proof
        assume "l < i"
        then have "xs ! (l + 1) \<le> xs ! i" using le xs(3) by simp
        then show False using l(4) x(1) by simp
      qed
      ultimately have "l = i \<or> l = Suc i" by linarith
      then show ?thesis using l(3) x(2) by auto
    qed
    ultimately show ?thesis using step by auto
  qed
qed


text \<open>Whatever the samples, over abscissas that do not decrease the value lies between those of two neighbours.\<close>

lemma interp_cases:
  assumes "xs \<noteq> []" "length ys = length xs"
  obtains i where "i < length xs" "interp xs ys x = JFin (ys ! i)" "x \<le> hd xs \<and> i = 0 \<or> last xs \<le> x \<and> hd xs < x \<and> i = length xs - 1"
    | i where "Suc i < length xs" "xs ! i \<le> x" "x < xs ! Suc i" "hd xs < x" "x < last xs"
        "interp xs ys x = JFin (ys ! i + (ys ! Suc i - ys ! i) * (x - xs ! i) / (xs ! Suc i - xs ! i))"
proof (cases "x \<le> hd xs \<or> last xs \<le> x")
  case True
  define i where "i = (if x \<le> hd xs then 0 else length xs - 1)"
  have "i < length xs" "interp xs ys x = JFin (ys ! i)" "x \<le> hd xs \<and> i = 0 \<or> last xs \<le> x \<and> hd xs < x \<and> i = length xs - 1"
    using True assms by (auto simp: i_def interp_def num_at_def)
  then show ?thesis by (rule that(1))
next
  case False
  have ends: "xs ! 0 \<le> x" "x < xs ! (length xs - 1)" using False assms(1) by (simp_all add: hd_conv_nth last_conv_nth)
  have "length xs \<noteq> 1" using False assms(1) by (auto simp: length_Suc_conv)
  then have "0 < length xs - 1" using assms(1) by (cases xs) auto
  from bisect_spec [OF this ends] obtain l where l: "bisect xs x 0 (length xs - 1) = (l, l + 1)" "l + 1 \<le> length xs - 1"
      "xs ! l \<le> x" "x < xs ! (l + 1)" by blast
  have "l + 1 < length xs" using l(2) \<open>0 < length xs - 1\<close> by linarith
  moreover from this have "interp xs ys x = JFin (ys ! l + (ys ! (l + 1) - ys ! l) * (x - xs ! l) / (xs ! (l + 1) - xs ! l))"
    using False assms l(3,4) by (simp add: interp_def l(1) [simplified] between_def num_at_def Let_def)
  ultimately show ?thesis using that(2) [of l] l(3,4) False by simp
qed

lemma interp_finite: "xs \<noteq> [] \<Longrightarrow> length ys = length xs \<Longrightarrow> interp xs ys x = JFin (js_val (interp xs ys x))"
  by (rule interp_cases [of xs ys x]) auto

text \<open>The value between two samples is between their values.\<close>

lemma line_between:
  fixes a b u v x :: rat
  assumes "a \<le> x" "x < b" "u \<le> v"
  shows "u \<le> u + (v - u) * (x - a) / (b - a)" "u + (v - u) * (x - a) / (b - a) \<le> v"
proof -
  have "0 \<le> (v - u) * (x - a) / (b - a)" using assms by simp
  then show "u \<le> u + (v - u) * (x - a) / (b - a)" by simp
  have "(v - u) * (x - a) \<le> (v - u) * (b - a)" using assms by (intro mult_left_mono) simp_all
  then have "(v - u) * (x - a) / (b - a) \<le> v - u" using assms by (simp add: pos_divide_le_eq)
  then show "u + (v - u) * (x - a) / (b - a) \<le> v" by simp
qed

text \<open>So the interpolation of values that do not decrease does not decrease, equal abscissas or not.\<close>

lemma sorted_at: "sorted xs \<Longrightarrow> i \<le> j \<Longrightarrow> j < length xs \<Longrightarrow> xs ! i \<le> xs ! j"
  by (rule sorted_nth_mono)

lemma interp_in_range:
  assumes "xs \<noteq> []" "length ys = length xs" "sorted ys"
  shows "hd ys \<le> js_val (interp xs ys x)" "js_val (interp xs ys x) \<le> last ys"
proof -
  have ne: "ys \<noteq> []" using assms by auto
  have ends: "hd ys \<le> ys ! i" "ys ! i \<le> last ys" if "i < length xs" for i
    using sorted_at [OF assms(3), of 0 i] sorted_at [OF assms(3), of i "length ys - 1"] that assms(2) ne
    by (simp_all add: hd_conv_nth last_conv_nth)
  have "hd ys \<le> js_val (interp xs ys x) \<and> js_val (interp xs ys x) \<le> last ys"
  proof (rule interp_cases [OF assms(1,2), of x])
    fix i assume "i < length xs" "interp xs ys x = JFin (ys ! i)"
    then show ?thesis using ends [of i] by simp
  next
    fix i assume i: "Suc i < length xs" "xs ! i \<le> x" "x < xs ! Suc i"
      "interp xs ys x = JFin (ys ! i + (ys ! Suc i - ys ! i) * (x - xs ! i) / (xs ! Suc i - xs ! i))"
    have "ys ! i \<le> ys ! Suc i" using sorted_at [OF assms(3)] i(1) assms(2) by simp
    from line_between [OF i(2,3) this] ends(1) [of i] ends(2) [of "Suc i"] i(1) show ?thesis by (simp add: i(4))
  qed
  then show "hd ys \<le> js_val (interp xs ys x)" "js_val (interp xs ys x) \<le> last ys" by simp_all
qed

lemma interp_mono:
  assumes xs: "xs \<noteq> []" "length ys = length xs" "sorted xs" "sorted ys" and "x \<le> y"
  shows "js_val (interp xs ys x) \<le> js_val (interp xs ys y)"
proof (cases "x \<le> hd xs \<or> last xs \<le> y \<and> hd xs < y")
  case True
  have "hd ys = ys ! 0" "last ys = ys ! (length xs - 1)" using xs(1,2) by (simp_all add: hd_conv_nth last_conv_nth flip: length_greater_0_conv)
  then have "x \<le> hd xs \<Longrightarrow> js_val (interp xs ys x) = hd ys" "\<not> x \<le> hd xs \<Longrightarrow> js_val (interp xs ys y) = last ys"
    using True xs(1,2) by (auto simp: interp_def num_at_def)
  then show ?thesis using interp_in_range [OF xs(1,2,4)] by metis
next
  case False
  then have r: "hd xs < x" "x < last xs" "hd xs < y" "y < last xs" using assms(5) by auto
  obtain i where i: "Suc i < length xs" "xs ! i \<le> x" "x < xs ! Suc i"
      "interp xs ys x = JFin (ys ! i + (ys ! Suc i - ys ! i) * (x - xs ! i) / (xs ! Suc i - xs ! i))"
    using interp_cases [OF xs(1,2), of x thesis] r by auto
  obtain j where j: "Suc j < length xs" "xs ! j \<le> y" "y < xs ! Suc j"
      "interp xs ys y = JFin (ys ! j + (ys ! Suc j - ys ! j) * (y - xs ! j) / (xs ! Suc j - xs ! j))"
    using interp_cases [OF xs(1,2), of y thesis] r by auto
  have steps: "ys ! i \<le> ys ! Suc i" "ys ! j \<le> ys ! Suc j" using sorted_at [OF xs(4)] i(1) j(1) xs(2) by simp_all
  consider "i = j" | "Suc i \<le> j" | "Suc j \<le> i" by linarith
  then show ?thesis
  proof cases
    case 1
    have "(ys ! Suc i - ys ! i) * (x - xs ! i) / (xs ! Suc i - xs ! i) \<le> (ys ! Suc i - ys ! i) * (y - xs ! i) / (xs ! Suc i - xs ! i)"
      using steps(1) i(2,3) assms(5) by (intro divide_right_mono mult_left_mono) simp_all
    then show ?thesis using 1 by (simp add: i(4) j(4))
  next
    case 2
    then have "ys ! Suc i \<le> ys ! j" using sorted_at [OF xs(4)] j(1) xs(2) by simp
    moreover note line_between(2) [OF i(2,3) steps(1)] line_between(1) [OF j(2,3) steps(2)]
    ultimately show ?thesis by (simp add: i(4) j(4))
  next
    case 3
    then have "xs ! Suc j \<le> xs ! i" using sorted_at [OF xs(3)] i(1) by simp
    then show ?thesis using i(2) j(3) assms(5) by simp
  qed
qed

text \<open>\<^verbatim>\<open>interp\<close> is the piecewise linear function through the points, for ascending abscissas: between two neighbours it runs
  straight from the one value to the other, and outside it keeps the first or the last.\<close>

theorem interp_piecewise_linear:
  assumes "sorted_wrt (<) xs" "length ys = length xs" "Suc i < length xs" "xs ! i \<le> x" "x \<le> xs ! Suc i"
  shows "interp xs ys x = JFin (ys ! i + (ys ! Suc i - ys ! i) * (x - xs ! i) / (xs ! Suc i - xs ! i))"
  using assms by (rule interp_between_nodes)

theorem interp_piecewise_linear_witness: "interp [0, 10, 30] [1, 5, 9] 15 = JFin 6"
  using interp_piecewise_linear [of "[0, 10, 30]" "[1, 5, 9]" 1 15] by simp

subsection \<open>Windows of a timeline\<close>

record window =
  wn_start :: rat
  wn_end :: rat
  wn_span :: rat

definition timelineWindow :: "rat \<Rightarrow> rat \<Rightarrow> rat \<Rightarrow> window" where
  "timelineWindow duration start stop =
     (let span = max (min 2000 duration) (min duration (stop - start)); a = max 0 (min (duration - span) start)
      in \<lparr>wn_start = a, wn_end = a + span, wn_span = span\<rparr>)"

definition zoomWindow :: "rat \<Rightarrow> rat \<Rightarrow> rat \<Rightarrow> rat \<Rightarrow> rat \<Rightarrow> window" where
  "zoomWindow duration start stop factor anchor =
     (let current = timelineWindow duration start stop;
          fraction = max 0 (min 1 ((anchor - wn_start current) / wn_span current));
          span = max (min 2000 duration) (min duration (wn_span current / factor))
      in timelineWindow duration (anchor - span * fraction) (anchor + span * (1 - fraction)))"

lemma window_bounds:
  assumes "0 \<le> duration"
  shows "let w = timelineWindow duration start stop in
     0 \<le> wn_start w \<and> wn_end w \<le> duration \<and> wn_end w = wn_start w + wn_span w \<and> min 2000 duration \<le> wn_span w"
  using assms by (simp add: timelineWindow_def Let_def max_def min_def)

lemma window_of_span:
  assumes "min 2000 duration \<le> S" "S \<le> duration"
  shows "timelineWindow duration x (x + S) = \<lparr>wn_start = max 0 (min (duration - S) x), wn_end = max 0 (min (duration - S) x) + S, wn_span = S\<rparr>"
proof -
  have "max (min 2000 duration) (min duration S) = S" using assms by linarith
  then show ?thesis by (simp add: timelineWindow_def Let_def)
qed

text \<open>A window that is shown lies in the recording and spans two seconds of it, or all of it. Zooming about a point of the
  window keeps the point where it is on the screen, unless the window runs into an end of the recording.\<close>

theorem zoom_keeps_anchor:
  assumes "0 < duration" "0 < factor" and cur: "current = timelineWindow duration start stop"
    and anchor: "wn_start current \<le> anchor" "anchor \<le> wn_end current"
  shows "let w = zoomWindow duration start stop factor anchor in
     0 \<le> wn_start w \<and> wn_end w \<le> duration \<and> min 2000 duration \<le> wn_span w
     \<and> wn_start w \<le> anchor \<and> anchor \<le> wn_end w
     \<and> (0 < wn_start w \<and> wn_end w < duration
          \<longrightarrow> (anchor - wn_start w) / wn_span w = (anchor - wn_start current) / wn_span current)"
proof -
  define F where "F = (anchor - wn_start current) / wn_span current"
  define S where "S = max (min 2000 duration) (min duration (wn_span current / factor))"
  define w where "w = zoomWindow duration start stop factor anchor"
  have c: "wn_end current = wn_start current + wn_span current" "0 < wn_span current"
    using window_bounds [of duration start stop] assms(1) by (auto simp: cur Let_def min_def split: if_splits)
  have f: "0 \<le> F" "F \<le> 1" using anchor c by (simp_all add: F_def field_simps)
  have S: "0 < S" "min 2000 duration \<le> S" "S \<le> duration"
    using assms(1) by (simp_all add: S_def less_max_iff_disj)
  have "w = timelineWindow duration (anchor - S * F) (anchor - S * F + S)"
    using f by (simp add: w_def zoomWindow_def cur [symmetric] Let_def F_def S_def algebra_simps)
  then have w: "wn_span w = S" "wn_start w = max 0 (min (duration - S) (anchor - S * F))" "wn_end w = wn_start w + S"
    using window_of_span [OF S(2,3)] by simp_all
  have a: "0 \<le> anchor" "anchor \<le> duration"
    using anchor window_bounds [of duration start stop] assms(1) by (auto simp: cur Let_def)
  have sf: "0 \<le> S * F" "S * F \<le> S" using f S(1) by (simp_all add: mult_left_le)
  have "wn_start w \<le> anchor" "anchor \<le> wn_end w" "0 \<le> wn_start w" "wn_end w \<le> duration"
    unfolding w(3) w(2) using a sf S by linarith+
  moreover have "(anchor - wn_start w) / wn_span w = F" if "0 < wn_start w" "wn_end w < duration"
  proof -
    have "wn_start w = anchor - S * F" using that unfolding w(3) w(2) by linarith
    then show ?thesis using S(1) by (simp add: w(1))
  qed
  ultimately show ?thesis unfolding Let_def w_def [symmetric] using S(2) by (simp add: w(1) F_def)
qed

theorem zoom_keeps_anchor_witness:
  "let w = zoomWindow 100000 20000 60000 2 30000 in wn_start w \<le> 30000 \<and> 30000 \<le> wn_end w"
  using zoom_keeps_anchor [of 100000 2 _ 20000 60000 30000, OF _ _ refl] by (simp add: timelineWindow_def Let_def)

text \<open>\<^verbatim>\<open>lower\<close>: the first index whose time is not before a value.\<close>

function lower_bound :: "rat list \<Rightarrow> rat \<Rightarrow> nat \<Rightarrow> nat \<Rightarrow> nat" where
  "lower_bound ts v a b =
     (if a < b then (let m = (a + b) div 2 in if ts ! m < v then lower_bound ts v (m + 1) b else lower_bound ts v a m) else a)"
  by pat_completeness auto

termination by (relation "measure (\<lambda>(ts, v, a, b). b - a)") auto

declare lower_bound.simps [simp del]

record envelope =
  ev_bucket :: "int option"
  ev_begin :: nat
  ev_min :: nat
  ev_max :: nat
  ev_finish :: nat
  ev_out :: "nat list"

definition ev_flush :: "envelope \<Rightarrow> nat list" where
  "ev_flush e = (if ev_bucket e = None then ev_out e
     else ev_out e @ sort (remdups [ev_begin e, ev_min e, ev_max e, ev_finish e]))"

definition ev_add :: "rat list \<Rightarrow> int \<Rightarrow> nat \<Rightarrow> envelope \<Rightarrow> envelope" where
  "ev_add ss bucket i e =
     (let e1 = (if ev_bucket e \<noteq> Some bucket
                then \<lparr>ev_bucket = Some bucket, ev_begin = i, ev_min = i, ev_max = i, ev_finish = ev_finish e, ev_out = ev_flush e\<rparr> else e)
      in e1\<lparr>ev_finish := i, ev_min := (if ss ! i < ss ! ev_min e1 then i else ev_min e1),
            ev_max := (if ss ! i > ss ! ev_max e1 then i else ev_max e1)\<rparr>)"

definition ev_step :: "rat list \<Rightarrow> rat list \<Rightarrow> rat \<Rightarrow> rat \<Rightarrow> rat \<Rightarrow> nat \<Rightarrow> envelope \<Rightarrow> envelope" where
  "ev_step ts ss start stop pixels i e =
     ev_add ss \<lfloor>(ts ! i - start) / max 1 (stop - start) * max 1 pixels\<rfloor> i e"

definition envelope_range :: "rat list \<Rightarrow> rat \<Rightarrow> rat \<Rightarrow> nat list" where
  "envelope_range ts start stop =
     [lower_bound ts start 0 (length ts) - 1..<min (length ts) (lower_bound ts stop 0 (length ts) + 1)]"

definition speedEnvelope :: "rat list \<Rightarrow> rat list \<Rightarrow> rat \<Rightarrow> rat \<Rightarrow> rat \<Rightarrow> nat list" where
  "speedEnvelope ts ss start stop pixels =
     (let is = envelope_range ts start stop; f = lower_bound ts start 0 (length ts) - 1 in
      ev_flush (fold (ev_step ts ss start stop pixels) is
        \<lparr>ev_bucket = None, ev_begin = f, ev_min = f, ev_max = f, ev_finish = f, ev_out = []\<rparr>))"


subsection \<open>The envelope keeps the extremes\<close>

text \<open>An index is represented when indices that are kept, or are to be kept with the open bucket, have values below and
  above its own.\<close>

definition ev_pending :: "envelope \<Rightarrow> nat set" where
  "ev_pending e = set (ev_out e) \<union> (if ev_bucket e = None then {} else {ev_begin e, ev_min e, ev_max e, ev_finish e})"

definition spanned :: "rat list \<Rightarrow> nat set \<Rightarrow> nat \<Rightarrow> bool" where
  "spanned ss I i \<longleftrightarrow> (\<exists>j \<in> I. ss ! j \<le> ss ! i) \<and> (\<exists>k \<in> I. ss ! i \<le> ss ! k)"

lemma set_flush: "set (ev_flush e) = ev_pending e"
  by (auto simp: ev_flush_def ev_pending_def simp del: remdups.simps)

lemma spanned_mono: "spanned ss I i \<Longrightarrow> I \<subseteq> J \<Longrightarrow> spanned ss J i"
  by (auto simp: spanned_def)

text \<open>Dropping an index for one with a smaller or a larger value keeps what is represented.\<close>

lemma spanned_trans:
  assumes "spanned ss I i" "\<forall>j \<in> I. spanned ss J j"
  shows "spanned ss J i"
  using assms unfolding spanned_def by (meson order_trans)

lemma spanned_self: "i \<in> I \<Longrightarrow> spanned ss I i"
  by (auto simp: spanned_def)

definition ev_inv :: "rat list \<Rightarrow> envelope \<Rightarrow> bool" where
  "ev_inv ss e \<longleftrightarrow> ev_bucket e = None
     \<or> (\<forall>j \<in> {ev_begin e, ev_finish e}. ss ! ev_min e \<le> ss ! j \<and> ss ! j \<le> ss ! ev_max e)"

lemma ev_add_inv: "ev_inv ss e \<Longrightarrow> ev_inv ss (ev_add ss b i e)"
  by (cases "ev_bucket e = Some b") (auto simp: ev_inv_def ev_add_def Let_def)

lemma ev_add_pending: "ev_pending (ev_add ss b i e) \<subseteq> insert i (ev_pending e)"
  by (cases "ev_bucket e = Some b") (auto simp: ev_add_def Let_def ev_pending_def set_flush)

lemma ev_add_keeps: "ev_inv ss e \<Longrightarrow> j \<in> insert i (ev_pending e) \<Longrightarrow> spanned ss (ev_pending (ev_add ss b i e)) j"
proof (cases "ev_bucket e = Some b")
  case True
  assume "ev_inv ss e" "j \<in> insert i (ev_pending e)"
  then show ?thesis using True by (auto simp: ev_inv_def ev_add_def Let_def ev_pending_def spanned_def)
next
  case False
  assume "j \<in> insert i (ev_pending e)"
  then show ?thesis
    using False by (intro spanned_self) (auto simp: ev_add_def Let_def ev_pending_def set_flush)
qed

lemma ev_fold:
  "ev_inv ss e \<Longrightarrow>
     (\<forall>j \<in> set is \<union> ev_pending e. spanned ss (ev_pending (fold (ev_step ts ss start stop pixels) is e)) j)
     \<and> ev_pending (fold (ev_step ts ss start stop pixels) is e) \<subseteq> set is \<union> ev_pending e"
proof (induction "is" arbitrary: e)
  case Nil
  then show ?case by (simp add: spanned_self)
next
  case (Cons i "is")
  let ?e = "ev_step ts ss start stop pixels i e"
  have st: "ev_inv ss ?e" "\<forall>j \<in> insert i (ev_pending e). spanned ss (ev_pending ?e) j" "ev_pending ?e \<subseteq> insert i (ev_pending e)"
    using ev_add_inv [OF Cons.prems] ev_add_keeps [OF Cons.prems] ev_add_pending by (simp_all add: ev_step_def)
  have ih: "\<forall>j \<in> set is \<union> ev_pending ?e. spanned ss (ev_pending (fold (ev_step ts ss start stop pixels) is ?e)) j"
     "ev_pending (fold (ev_step ts ss start stop pixels) is ?e) \<subseteq> set is \<union> ev_pending ?e"
    using Cons.IH [OF st(1)] by blast+
  have keep: "spanned ss (ev_pending (fold (ev_step ts ss start stop pixels) is ?e)) j" if "j \<in> insert i (ev_pending e)" for j
    using spanned_trans [OF st(2) [rule_format, OF that]] ih(1) by (simp add: ball_Un)
  have run: "fold (ev_step ts ss start stop pixels) (i # is) e = fold (ev_step ts ss start stop pixels) is ?e" by simp
  show ?case unfolding run list.set(2)
  proof (intro conjI ballI)
    fix j assume "j \<in> insert i (set is) \<union> ev_pending e"
    then show "spanned ss (ev_pending (fold (ev_step ts ss start stop pixels) is ?e)) j" using keep ih(1) by blast
  next
    show "ev_pending (fold (ev_step ts ss start stop pixels) is ?e) \<subseteq> insert i (set is) \<union> ev_pending e"
      using ih(2) st(3) by blast
  qed
qed

text \<open>The envelope of a trace is drawn from a selection of its samples that loses no peak and no trough: for every sample of
  the window it keeps one that is at most as fast and one that is at least as fast, and only samples of the window.\<close>

theorem envelope_keeps_extremes:
  "list_all (\<lambda>i. list_ex (\<lambda>j. ss ! j \<le> ss ! i) (speedEnvelope ts ss start stop pixels)
                \<and> list_ex (\<lambda>k. ss ! i \<le> ss ! k) (speedEnvelope ts ss start stop pixels)) (envelope_range ts start stop)
     \<and> set (speedEnvelope ts ss start stop pixels) \<subseteq> set (envelope_range ts start stop)"
proof -
  let ?f = "lower_bound ts start 0 (length ts) - 1"
  let ?e = "\<lparr>ev_bucket = None, ev_begin = ?f, ev_min = ?f, ev_max = ?f, ev_finish = ?f, ev_out = []\<rparr>"
  have out: "set (speedEnvelope ts ss start stop pixels)
      = ev_pending (fold (ev_step ts ss start stop pixels) (envelope_range ts start stop) ?e)"
    by (simp add: speedEnvelope_def Let_def set_flush)
  have "ev_pending ?e = {}" "ev_inv ss ?e" by (simp_all add: ev_pending_def ev_inv_def)
  then show ?thesis
    using ev_fold [of ss ?e "envelope_range ts start stop" ts start stop pixels]
    by (simp add: list_all_iff list_ex_iff out spanned_def)
qed


subsection \<open>Slopes\<close>

lemma med_const:
  assumes "m \<noteq> []" "set m \<subseteq> {a}"
  shows "med m = a"
proof -
  have s: "sort m ! i = a" if "i < length m" for i
    using that assms(2) nth_mem [of i "sort m"] by auto
  have n: "0 < length m" using assms(1) by simp
  then have "(length m - 1) div 2 < length m" "length m div 2 - 1 < length m" "length m div 2 < length m" by linarith+
  then show ?thesis using s n unfolding med_def Let_def length_sort by (simp only: s) simp
qed

lemma slopes_iff: "v \<in> set (slopes xs ys) \<longleftrightarrow>
    (\<exists>i j. i < j \<and> j < length xs \<and> xs ! j \<noteq> xs ! i \<and> v = (ys ! j - ys ! i) / (xs ! j - xs ! i))"
proof -
  have mf: "w \<in> set (List.map_filter f zs) \<longleftrightarrow> (\<exists>z \<in> set zs. f z = Some w)" for w and f :: "nat \<Rightarrow> rat option" and zs
    by (induction zs) (auto simp: List.map_filter_simps split: option.splits)
  let ?f = "\<lambda>i j. if xs ! j \<noteq> xs ! i then Some ((ys ! j - ys ! i) / (xs ! j - xs ! i)) else None"
  have "v \<in> set (slopes xs ys) \<longleftrightarrow> (\<exists>i \<in> set [0..<length xs]. \<exists>j \<in> set [i + 1..<length xs]. ?f i j = Some v)"
    unfolding slopes_def set_concat set_map by (simp only: UN_iff bex_simps mf)
  also have "\<dots> \<longleftrightarrow> (\<exists>i j. i < j \<and> j < length xs \<and> ?f i j = Some v)"
    (is "?l \<longleftrightarrow> ?r")
  proof
    assume ?l
    then obtain i j where "i \<in> set [0..<length xs]" "j \<in> set [i + 1..<length xs]" "?f i j = Some v" by blast
    moreover from this(1,2) have "i < j" "j < length xs" by simp_all
    ultimately show ?r by blast
  next
    assume ?r
    then obtain i j where ij: "i < j" "j < length xs" "?f i j = Some v" by blast
    then have "i \<in> set [0..<length xs]" "j \<in> set [i + 1..<length xs]" by simp_all
    then show ?l using ij(3) by blast
  qed
  finally show ?thesis by (simp only: if_split_eq1 option.inject option.distinct) metis
qed

text \<open>The slope of points on a line is the slope of the line.\<close>

theorem theil_line:
  assumes "i < j" "j < length xs" "xs ! i \<noteq> xs ! j"
  shows "theil xs (map (\<lambda>x. a * x + b) xs) = a"
proof -
  let ?m = "slopes xs (map (\<lambda>x. a * x + b) xs)"
  have slope: "(map (\<lambda>x. a * x + b) xs ! l - map (\<lambda>x. a * x + b) xs ! k) / (xs ! l - xs ! k) = a"
    if "k < l" "l < length xs" "xs ! l \<noteq> xs ! k" for k l
  proof -
    have "(a * xs ! l + b - (a * xs ! k + b)) = a * (xs ! l - xs ! k)" by (simp add: algebra_simps)
    then show ?thesis using that by simp
  qed
  have "set ?m \<subseteq> {a}" using slope by (auto simp: slopes_iff)
  moreover have "a \<in> set ?m" using slope [of i j] assms by (force simp: slopes_iff)
  ultimately show ?thesis using med_const [of ?m a] by (auto simp: theil_def Let_def)
qed

theorem theil_line_witness: "theil [0, 1, 2] [5, 3, 1] = - 2"
  using theil_line [of 0 1 "[0, 1, 2]" "- 2" 5] by simp

end
