(* ===== verification/DriveSegments.thy ===== *)
theory DriveSegments
  imports DriveMath JsText
begin

text \<open>
  Corners and straights of a course, \<^verbatim>\<open>viewer_tool/src/lib/driveday/segments.ts\<close>: the cut of a closed loop and of an open
  course at its curvature, the segment and the braking zone at a distance, and the zones found in the braking of the laps.

  The curvature of the course, which the source takes from the reference line with \<^verbatim>\<open>Math.atan2\<close>, is an argument: one
  rate for each of the equally long steps of the course, in degrees per metre.
\<close>

subsection \<open>Runs of curvature\<close>

record corner_run =
  cr_s :: int
  cr_e :: int
  cr_sign :: int

record corner_scan =
  sn_runs :: "corner_run list"
  sn_cur :: "corner_run option"

definition is_corner :: "rat \<Rightarrow> bool" where
  "is_corner r \<longleftrightarrow> \<bar>r\<bar> > 22 / 10"

definition sign_of :: "rat \<Rightarrow> int" where
  "sign_of r = (if r > 0 then 1 else - 1)"

definition scan_step :: "int \<times> rat \<Rightarrow> corner_scan \<Rightarrow> corner_scan" where
  "scan_step kr st =
     (if is_corner (snd kr)
      then let k = fst kr; sg = sign_of (snd kr); new = \<lparr>cr_s = k, cr_e = k, cr_sign = sg\<rparr> in
        (case sn_cur st of
           Some c \<Rightarrow> if cr_sign c = sg \<and> k - cr_e c \<le> 4 then st\<lparr>sn_cur := Some (c\<lparr>cr_e := k\<rparr>)\<rparr>
                     else \<lparr>sn_runs = sn_runs st @ [c], sn_cur = Some new\<rparr>
         | None \<Rightarrow> st\<lparr>sn_cur := Some new\<rparr>)
      else st)"

definition scan_runs :: "rat list \<Rightarrow> corner_run list" where
  "scan_runs rates =
     (let st = fold scan_step (map (\<lambda>k. (int k, rates ! k)) [0..<length rates]) \<lparr>sn_runs = [], sn_cur = None\<rparr>
      in sn_runs st @ (case sn_cur st of Some c \<Rightarrow> [c] | None \<Rightarrow> []))"

definition corners :: "rat list \<Rightarrow> corner_run list" where
  "corners rates = filter (\<lambda>r. cr_e r - cr_s r + 1 \<ge> 4) (scan_runs rates)"

subsection \<open>A closed loop\<close>

text \<open>The scan starts in the middle of the longest straight, which may wrap around.\<close>

record straight_scan =
  ss_best :: int
  ss_i0 :: nat
  ss_rs :: nat
  ss_rl :: nat

definition straight_step :: "rat list \<Rightarrow> nat \<Rightarrow> straight_scan \<Rightarrow> straight_scan" where
  "straight_step rates k st =
     (if \<not> is_corner (rates ! (k mod length rates))
      then let rs = (if ss_rl st = 0 then k else ss_rs st); rl = ss_rl st + 1 in
        if int rl > ss_best st \<and> rl \<le> length rates
        then \<lparr>ss_best = int rl, ss_i0 = (rs + rl div 2) mod length rates, ss_rs = rs, ss_rl = rl\<rparr>
        else st\<lparr>ss_rs := rs, ss_rl := rl\<rparr>
      else st\<lparr>ss_rl := 0\<rparr>)"

definition longest_straight :: "rat list \<Rightarrow> straight_scan" where
  "longest_straight rates = fold (straight_step rates) [0..<2 * length rates] \<lparr>ss_best = - 1, ss_i0 = 0, ss_rs = 0, ss_rl = 0\<rparr>"

definition rotated :: "rat list \<Rightarrow> rat list" where
  "rotated rates = map (\<lambda>k. rates ! ((ss_i0 (longest_straight rates) + k) mod length rates)) [0..<length rates]"

record piece =
  pc_k0 :: int
  pc_k1 :: int
  pc_corner :: bool
  pc_dir :: int

definition corner_piece :: "int \<Rightarrow> int \<Rightarrow> int \<Rightarrow> piece" where
  "corner_piece a b d = \<lparr>pc_k0 = a, pc_k1 = b, pc_corner = True, pc_dir = d\<rparr>"

definition straight_piece :: "int \<Rightarrow> int \<Rightarrow> piece" where
  "straight_piece a b = \<lparr>pc_k0 = a, pc_k1 = b, pc_corner = False, pc_dir = 0\<rparr>"

definition run_pieces :: "corner_run \<Rightarrow> int \<Rightarrow> piece list" where
  "run_pieces r next =
     (let gap = next - (cr_e r + 1) in
      if gap \<ge> 3 then [corner_piece (cr_s r) (cr_e r + 1) (cr_sign r), straight_piece (cr_e r + 1) (cr_e r + 1 + gap)]
      else if gap > 0 then [corner_piece (cr_s r) (cr_e r + 1 + gap div 2) (cr_sign r)]
      else [corner_piece (cr_s r) (cr_e r + 1) (cr_sign r)])"

text \<open>The run after the last one is the first, a turn later: \<open>turn\<close> is where it starts.\<close>

fun lay_runs :: "int \<Rightarrow> corner_run list \<Rightarrow> piece list" where
  "lay_runs turn [] = []"
| "lay_runs turn [r] = run_pieces r turn"
| "lay_runs turn (r # q # rs) = run_pieces r (cr_s q) @ lay_runs turn (q # rs)"

definition join_piece :: "piece \<Rightarrow> piece \<Rightarrow> piece" where
  "join_piece p q = (if pc_corner q \<and> pc_corner p \<and> pc_k1 p < pc_k0 q then q\<lparr>pc_k0 := pc_k1 p\<rparr> else q)"

fun join_pieces :: "piece \<Rightarrow> piece list \<Rightarrow> piece list" where
  "join_pieces p [] = []"
| "join_pieces p (q # qs) = join_piece p q # join_pieces (join_piece p q) qs"

definition loop_pieces :: "int \<Rightarrow> corner_run list \<Rightarrow> piece list" where
  "loop_pieces n cs = (let out = lay_runs (cr_s (hd cs) + n) cs in join_pieces (last out) out)"

record seg =
  sg_a :: rat
  sg_len :: rat
  sg_corner :: bool
  sg_dir :: int
  sg_name :: string

definition piece_seg :: "rat \<Rightarrow> nat \<Rightarrow> nat \<Rightarrow> piece \<Rightarrow> seg" where
  "piece_seg step n i0 p = \<lparr>sg_a = of_int ((int i0 + pc_k0 p) mod int n) * step, sg_len = of_int (pc_k1 p - pc_k0 p) * step,
     sg_corner = pc_corner p, sg_dir = pc_dir p, sg_name = []\<rparr>"

definition fix_total :: "rat \<Rightarrow> seg list \<Rightarrow> seg list" where
  "fix_total RL segs =
     (let total = sum_list (map sg_len segs) in
      if \<bar>total - RL\<bar> > 1 \<and> segs \<noteq> [] then butlast segs @ [(last segs)\<lparr>sg_len := sg_len (last segs) + (RL - total)\<rparr>] else segs)"

definition from_line :: "rat \<Rightarrow> seg list \<Rightarrow> seg list" where
  "from_line RL segs =
     (let first = (case List.find (\<lambda>i. wrap (0 - sg_a (segs ! i)) RL < sg_len (segs ! i)) [0..<length segs] of Some i \<Rightarrow> i | None \<Rightarrow> 0)
      in drop first segs @ take first segs)"

fun name_segs :: "nat \<Rightarrow> nat \<Rightarrow> seg list \<Rightarrow> seg list" where
  "name_segs nc ns [] = []"
| "name_segs nc ns (s # ss) =
     (if sg_corner s then s\<lparr>sg_name := ''T'' @ nat_text (nc + 1)\<rparr> # name_segs (nc + 1) ns ss
      else s\<lparr>sg_name := ''Str '' @ nat_text (ns + 1)\<rparr> # name_segs nc (ns + 1) ss)"

definition closed_segments :: "rat \<Rightarrow> rat list \<Rightarrow> seg list" where
  "closed_segments RL rates =
     (let n = length rates; step = RL / of_nat n; i0 = ss_i0 (longest_straight rates); cs = corners (rotated rates) in
      if cs = [] then [\<lparr>sg_a = 0, sg_len = RL, sg_corner = False, sg_dir = 0, sg_name = ''Str 1''\<rparr>]
      else name_segs 0 0 (from_line RL (fix_total RL (map (piece_seg step n i0) (loop_pieces (int n) cs)))))"

subsection \<open>An open course\<close>

definition extend_last :: "int \<Rightarrow> piece list \<Rightarrow> piece list" where
  "extend_last g ps = butlast ps @ [(last ps)\<lparr>pc_k1 := pc_k1 (last ps) + g\<rparr>]"

definition open_step :: "corner_run \<Rightarrow> piece list \<times> int \<Rightarrow> piece list \<times> int" where
  "open_step r op =
     (let gap = cr_s r - snd op;
          out = (if gap \<ge> 3 then fst op @ [straight_piece (snd op) (cr_s r)]
                 else if fst op \<noteq> [] then extend_last gap (fst op) else fst op);
          k0 = (if gap \<ge> 3 \<or> out = [] then cr_s r else snd op)
      in (out @ [corner_piece k0 (cr_e r + 1) (cr_sign r)], cr_e r + 1))"

definition open_pieces :: "int \<Rightarrow> corner_run list \<Rightarrow> piece list" where
  "open_pieces n cs =
     (let op = fold open_step cs ([], 0) in
      if n - snd op \<ge> 3 \<or> fst op = [] then fst op @ [straight_piece (snd op) n]
      else butlast (fst op) @ [(last (fst op))\<lparr>pc_k1 := n\<rparr>])"

definition open_seg :: "rat \<Rightarrow> piece \<Rightarrow> seg" where
  "open_seg step p = \<lparr>sg_a = of_int (pc_k0 p) * step, sg_len = of_int (pc_k1 p - pc_k0 p) * step,
     sg_corner = pc_corner p, sg_dir = pc_dir p, sg_name = []\<rparr>"

definition buildOpenSegments :: "rat \<Rightarrow> rat list \<Rightarrow> seg list" where
  "buildOpenSegments RL rates =
     name_segs 0 0 (map (open_seg (RL / of_nat (length rates))) (open_pieces (int (length rates)) (corners rates)))"

definition buildSegments :: "rat \<Rightarrow> bool \<Rightarrow> rat list \<Rightarrow> seg list" where
  "buildSegments RL opn rates = (if opn then buildOpenSegments RL rates else closed_segments RL rates)"

definition segAt :: "seg list \<Rightarrow> rat \<Rightarrow> rat \<Rightarrow> bool \<Rightarrow> nat option" where
  "segAt segs RL s opn =
     (if opn then (let s = max 0 (min (RL - 1 / 10000000) s) in
        List.find (\<lambda>i. s \<ge> sg_a (segs ! i) \<and> s < sg_a (segs ! i) + sg_len (segs ! i)) [0..<length segs])
      else (let s = wrap s RL in
        List.find (\<lambda>i. wrap (s - sg_a (segs ! i)) RL < sg_len (segs ! i)) [0..<length segs]))"


subsection \<open>What the scan finds\<close>

text \<open>Runs in order: not empty, apart, in the course, and with a corner at both ends.\<close>

definition run_ok :: "rat list \<Rightarrow> corner_run \<Rightarrow> bool" where
  "run_ok rates r \<longleftrightarrow> 0 \<le> cr_s r \<and> cr_s r \<le> cr_e r \<and> cr_e r < int (length rates)
     \<and> is_corner (rates ! nat (cr_s r)) \<and> is_corner (rates ! nat (cr_e r))"

definition runs_ok :: "rat list \<Rightarrow> corner_run list \<Rightarrow> bool" where
  "runs_ok rates rs \<longleftrightarrow> list_all (run_ok rates) rs \<and> sorted_wrt (\<lambda>r q. cr_e r < cr_s q) rs"

definition scan_list :: "corner_scan \<Rightarrow> corner_run list" where
  "scan_list st = sn_runs st @ (case sn_cur st of Some c \<Rightarrow> [c] | None \<Rightarrow> [])"

lemma scan_step_ok:
  assumes "runs_ok rates (scan_list st)" "list_all (\<lambda>r. cr_e r < int k) (scan_list st)" "k < length rates"
    "sn_cur st = None \<longrightarrow> sn_runs st = []"
  defines "st' \<equiv> scan_step (int k, rates ! k) st"
  shows "runs_ok rates (scan_list st') \<and> list_all (\<lambda>r. cr_e r < int (Suc k)) (scan_list st') \<and> (sn_cur st' = None \<longrightarrow> sn_runs st' = [])"
proof (cases "is_corner (rates ! k)")
  case False
  then show ?thesis using assms by (auto simp: st'_def scan_step_def list_all_iff)
next
  case True
  let ?new = "\<lparr>cr_s = int k, cr_e = int k, cr_sign = sign_of (rates ! k)\<rparr>"
  have new: "run_ok rates ?new" using True assms(3) by (simp add: run_ok_def)
  show ?thesis
  proof (cases "sn_cur st")
    case None
    then have "st' = st\<lparr>sn_cur := Some ?new\<rparr>" using True by (simp add: st'_def scan_step_def Let_def)
    then show ?thesis using new None assms(4) by (simp add: scan_list_def runs_ok_def)
  next
    case (Some c)
    have c: "run_ok rates c" "cr_e c < int k" "runs_ok rates (sn_runs st)" "\<forall>r \<in> set (sn_runs st). cr_e r < cr_s c"
        "\<forall>r \<in> set (sn_runs st). cr_e r < int k"
      using assms(1,2) Some by (auto simp: scan_list_def runs_ok_def list_all_iff sorted_wrt_append)
    show ?thesis
    proof (cases "cr_sign c = sign_of (rates ! k) \<and> int k - cr_e c \<le> 4")
      case merge: True
      then have st: "st' = st\<lparr>sn_cur := Some (c\<lparr>cr_e := int k\<rparr>)\<rparr>" using True Some by (simp add: st'_def scan_step_def Let_def)
      have "run_ok rates (c\<lparr>cr_e := int k\<rparr>)" using c(1,2) True assms(3) by (simp add: run_ok_def)
      then show ?thesis using c(3,4,5) by (auto simp: st scan_list_def runs_ok_def list_all_iff sorted_wrt_append)
    next
      case False
      then have st: "st' = \<lparr>sn_runs = sn_runs st @ [c], sn_cur = Some ?new\<rparr>" using True Some by (auto simp: st'_def scan_step_def Let_def)
      show ?thesis using c new by (auto simp: st scan_list_def runs_ok_def list_all_iff sorted_wrt_append)
    qed
  qed
qed

lemma corners_ok: "runs_ok rates (corners rates)"
proof -
  let ?st = "\<lambda>n. fold scan_step (map (\<lambda>k. (int k, rates ! k)) [0..<n]) \<lparr>sn_runs = [], sn_cur = None\<rparr>"
  have "n \<le> length rates \<Longrightarrow> runs_ok rates (scan_list (?st n)) \<and> list_all (\<lambda>r. cr_e r < int n) (scan_list (?st n))
      \<and> (sn_cur (?st n) = None \<longrightarrow> sn_runs (?st n) = [])" for n
  proof (induction n)
    case 0
    then show ?case by (simp add: scan_list_def runs_ok_def)
  next
    case (Suc n)
    then show ?case using scan_step_ok [of rates "?st n" n] by simp
  qed
  from this [of "length rates"] have "runs_ok rates (scan_runs rates)" by (simp add: scan_runs_def scan_list_def Let_def)
  then show ?thesis by (auto simp: corners_def runs_ok_def list_all_iff sorted_wrt_filter)
qed

subsection \<open>A chain of pieces\<close>

fun chain :: "int \<Rightarrow> piece list \<Rightarrow> int \<Rightarrow> bool" where
  "chain a [] b \<longleftrightarrow> a = b"
| "chain a (p # ps) b \<longleftrightarrow> pc_k0 p = a \<and> a < pc_k1 p \<and> chain (pc_k1 p) ps b"

lemma chain_append: "chain a (ps @ qs) b \<longleftrightarrow> (\<exists>c. chain a ps c \<and> chain c qs b)"
  by (induction ps arbitrary: a) auto

lemma chain_le: "chain a ps b \<Longrightarrow> a \<le> b"
  by (induction ps arbitrary: a) force+

lemma chain_bounds: "chain a ps b \<Longrightarrow> p \<in> set ps \<Longrightarrow> a \<le> pc_k0 p \<and> pc_k0 p < pc_k1 p \<and> pc_k1 p \<le> b"
proof (induction ps arbitrary: a)
  case (Cons q ps)
  then show ?case using chain_le [of "pc_k1 q" ps b] by force
qed simp

lemma chain_unique:
  fixes x :: rat
  shows "chain a ps b \<Longrightarrow> of_int a \<le> x \<Longrightarrow> x < of_int b \<Longrightarrow> length (filter (\<lambda>p. of_int (pc_k0 p) \<le> x \<and> x < of_int (pc_k1 p)) ps) = 1"
proof (induction ps arbitrary: a)
  case (Cons p ps)
  have c: "pc_k0 p = a" "chain (pc_k1 p) ps b" using Cons.prems(1) by simp_all
  have outside: "filter (\<lambda>p. of_int (pc_k0 p) \<le> x \<and> x < of_int (pc_k1 p)) qs = []" if "chain d qs e" "x < of_int d" for d e qs
  proof -
    have "\<not> of_int (pc_k0 q) \<le> x" if "q \<in> set qs" for q
    proof -
      have "of_int d \<le> (of_int (pc_k0 q) :: rat)" using chain_bounds [OF \<open>chain d qs e\<close> that] by simp
      then show ?thesis using \<open>x < of_int d\<close> by linarith
    qed
    then show ?thesis by (simp add: filter_empty_conv)
  qed
  show ?case
  proof (cases "x < of_int (pc_k1 p)")
    case True
    then show ?thesis using outside [OF c(2) True] c(1) Cons.prems(2) by simp
  next
    case False
    then show ?thesis using Cons.IH [OF c(2) _ Cons.prems(3)] by simp
  qed
qed simp

lemma chain_total: "chain a ps b \<Longrightarrow> sum_list (map (\<lambda>p. pc_k1 p - pc_k0 p) ps) = b - a"
  by (induction ps arbitrary: a) auto


subsection \<open>The pieces of a loop\<close>

lemma run_pieces_shape:
  assumes "cr_e r < next"
  shows "run_pieces r next = (if next - (cr_e r + 1) \<ge> 3
     then [corner_piece (cr_s r) (cr_e r + 1) (cr_sign r), straight_piece (cr_e r + 1) next]
     else [corner_piece (cr_s r) (cr_e r + 1 + (next - (cr_e r + 1)) div 2) (cr_sign r)])"
proof -
  have "next - (cr_e r + 1) = 0 \<or> next - (cr_e r + 1) > 0" using assms by linarith
  then show ?thesis by (auto simp: run_pieces_def Let_def)
qed

text \<open>Joined, the pieces of the runs follow each other without a hole, if the last gap is long enough for a straight.\<close>

lemma lay_chain:
  assumes "runs_ok rates (r # rs)" "cr_e (last (r # rs)) + 4 \<le> turn" "pc_corner p \<longrightarrow> cr_s r - 2 \<le> pc_k1 p"
  shows "chain (if pc_corner p \<and> pc_k1 p < cr_s r then pc_k1 p else cr_s r) (join_pieces p (lay_runs turn (r # rs))) turn"
  using assms
proof (induction rs arbitrary: r p)
  case Nil
  let ?C = "join_piece p (corner_piece (cr_s r) (cr_e r + 1) (cr_sign r))"
  have r: "cr_s r \<le> cr_e r" using Nil.prems(1) by (simp add: runs_ok_def run_ok_def)
  have "lay_runs turn [r] = [corner_piece (cr_s r) (cr_e r + 1) (cr_sign r), straight_piece (cr_e r + 1) turn]"
    using Nil.prems(2) by (simp add: run_pieces_shape)
  then show ?case
    using r Nil.prems(2) by (auto simp: join_piece_def corner_piece_def straight_piece_def)
next
  case (Cons q rs)
  define gap where "gap = cr_s q - (cr_e r + 1)"
  have r: "cr_s r \<le> cr_e r" "cr_e r < cr_s q" "runs_ok rates (q # rs)"
    using Cons.prems(1) by (auto simp: runs_ok_def run_ok_def)
  have last: "cr_e (last (q # rs)) + 4 \<le> turn" using Cons.prems(2) by simp
  let ?a = "if pc_corner p \<and> pc_k1 p < cr_s r then pc_k1 p else cr_s r"
  show ?case
  proof (cases "gap \<ge> 3")
    case True
    let ?C = "join_piece p (corner_piece (cr_s r) (cr_e r + 1) (cr_sign r))"
    let ?S = "straight_piece (cr_e r + 1) (cr_s q)"
    have lay: "lay_runs turn (r # q # rs) = corner_piece (cr_s r) (cr_e r + 1) (cr_sign r) # ?S # lay_runs turn (q # rs)"
      using r True by (simp add: run_pieces_shape gap_def)
    have C: "pc_k0 ?C = ?a" "pc_k1 ?C = cr_e r + 1" by (simp_all add: join_piece_def corner_piece_def)
    have S: "join_piece ?C ?S = ?S" by (simp add: join_piece_def straight_piece_def)
    have F: "pc_k0 ?S = cr_e r + 1" "pc_k1 ?S = cr_s q" "\<not> pc_corner ?S" by (simp_all add: straight_piece_def)
    have "chain (cr_s q) (join_pieces ?S (lay_runs turn (q # rs))) turn"
      using Cons.IH [OF r(3) last, of ?S] F(3) by simp
    then show ?thesis
      unfolding lay join_pieces.simps S chain.simps C F using r True by (simp add: gap_def)
  next
    case False
    let ?C = "join_piece p (corner_piece (cr_s r) (cr_e r + 1 + gap div 2) (cr_sign r))"
    have g: "gap = 0 \<or> gap = 1 \<or> gap = 2" using False r(2) by (auto simp: gap_def)
    have lay: "lay_runs turn (r # q # rs) = corner_piece (cr_s r) (cr_e r + 1 + gap div 2) (cr_sign r) # lay_runs turn (q # rs)"
      using r(2) False by (simp add: run_pieces_shape gap_def)
    have C: "pc_k0 ?C = ?a" "pc_k1 ?C = cr_e r + 1 + gap div 2" "pc_corner ?C" by (simp_all add: join_piece_def corner_piece_def)
    have "pc_corner ?C \<longrightarrow> cr_s q - 2 \<le> pc_k1 ?C" using g C(2) by (auto simp: gap_def)
    from Cons.IH [OF r(3) last this] have "chain (pc_k1 ?C) (join_pieces ?C (lay_runs turn (q # rs))) turn"
      using g C by (auto simp: gap_def split: if_splits)
    then show ?thesis unfolding lay join_pieces.simps chain.simps C(1) using r C(2) g by auto
  qed
qed

subsection \<open>Where the scan of a loop starts\<close>

abbreviation straight_at :: "rat list \<Rightarrow> nat \<Rightarrow> bool" where
  "straight_at rates i \<equiv> \<not> is_corner (rates ! (i mod length rates))"

definition straight_inv :: "rat list \<Rightarrow> nat \<Rightarrow> straight_scan \<Rightarrow> bool" where
  "straight_inv rates k st \<longleftrightarrow> ss_rl st \<le> k \<and> (\<forall>j. k - ss_rl st \<le> j \<and> j < k \<longrightarrow> straight_at rates j)
     \<and> (0 < ss_rl st \<longrightarrow> ss_rs st = k - ss_rl st)
     \<and> (ss_best st \<ge> 3 \<longrightarrow> (\<exists>p. ss_i0 st = (p + 1) mod length rates
           \<and> straight_at rates p \<and> straight_at rates (p + 1) \<and> straight_at rates (p + 2)))"

lemma straight_inv_step:
  assumes "straight_inv rates k st"
  shows "straight_inv rates (Suc k) (straight_step rates k st)"
proof (cases "straight_at rates k")
  case False
  then show ?thesis using assms by (auto simp: straight_inv_def straight_step_def)
next
  case True
  define rs where "rs = (if ss_rl st = 0 then k else ss_rs st)"
  define rl where "rl = ss_rl st + 1"
  have rs: "rs = Suc k - rl" "rl \<le> Suc k" using assms by (auto simp: straight_inv_def rs_def rl_def)
  have run: "straight_at rates j" if "Suc k - rl \<le> j" "j < Suc k" for j
    using assms True that by (cases "j = k") (auto simp: straight_inv_def rl_def)
  show ?thesis
  proof (cases "int rl > ss_best st \<and> rl \<le> length rates")
    case better: True
    then have st: "straight_step rates k st = \<lparr>ss_best = int rl, ss_i0 = (rs + rl div 2) mod length rates, ss_rs = rs, ss_rl = rl\<rparr>"
      using True by (simp add: straight_step_def Let_def rs_def rl_def)
    have "\<exists>p. (rs + rl div 2) mod length rates = (p + 1) mod length rates
        \<and> straight_at rates p \<and> straight_at rates (p + 1) \<and> straight_at rates (p + 2)" if "rl \<ge> 3"
    proof -
      have "1 \<le> rl div 2" "rl div 2 + 1 < rl" using that by linarith+
      then have "rs + rl div 2 = (rs + rl div 2 - 1) + 1" "Suc k - rl \<le> rs + rl div 2 - 1" "rs + rl div 2 - 1 + 2 < Suc k"
        using rs by linarith+
      then show ?thesis using run by (intro exI [of _ "rs + rl div 2 - 1"]) simp
    qed
    then show ?thesis using rs run by (simp add: straight_inv_def st)
  next
    case worse: False
    then have st: "straight_step rates k st = st\<lparr>ss_rs := rs, ss_rl := rl\<rparr>"
      using True by (auto simp: straight_step_def Let_def rs_def rl_def)
    then show ?thesis using rs run assms by (simp add: straight_inv_def st)
  qed
qed

lemma longest_straight_inv: "straight_inv rates (2 * length rates) (longest_straight rates)"
proof -
  have "straight_inv rates n (fold (straight_step rates) [0..<n] \<lparr>ss_best = - 1, ss_i0 = 0, ss_rs = 0, ss_rl = 0\<rparr>)" for n
  proof (induction n)
    case 0
    then show ?case by (simp add: straight_inv_def)
  next
    case (Suc n)
    then show ?case using straight_inv_step by simp
  qed
  then show ?thesis by (simp add: longest_straight_def)
qed

lemma rotated_straight:
  assumes "ss_best (longest_straight rates) \<ge> 3" "2 \<le> length rates"
  shows "\<not> is_corner (rotated rates ! 0)" "\<not> is_corner (rotated rates ! 1)" "\<not> is_corner (rotated rates ! (length rates - 1))"
proof -
  obtain p where p: "ss_i0 (longest_straight rates) = (p + 1) mod length rates"
      "straight_at rates p" "straight_at rates (p + 1)" "straight_at rates (p + 2)"
    using longest_straight_inv [of rates] assms(1) by (auto simp: straight_inv_def)
  have at: "rotated rates ! k = rates ! ((p + 1 + k) mod length rates)" if "k < length rates" for k
    using that by (simp add: rotated_def p(1) mod_simps)
  have n: "p + 1 + (length rates - 1) = p + length rates" using assms(2) by simp
  have "rotated rates ! 0 = rates ! ((p + 1) mod length rates)" using at [of 0] assms(2) by force
  then show "\<not> is_corner (rotated rates ! 0)" using p(3) by simp
  have "rotated rates ! 1 = rates ! ((p + 2) mod length rates)" using at [of 1] assms(2) by force
  then show "\<not> is_corner (rotated rates ! 1)" using p(4) by simp
  have "rotated rates ! (length rates - 1) = rates ! ((p + length rates) mod length rates)"
    using at [of "length rates - 1"] assms(2) unfolding n by force
  then show "\<not> is_corner (rotated rates ! (length rates - 1))" using p(2) by simp
qed


subsection \<open>The segments of a loop cover it once\<close>

lemma last_lay_straight: "cr_e (last (r # rs)) + 4 \<le> turn \<Longrightarrow> \<not> pc_corner (last (lay_runs turn (r # rs))) \<and> lay_runs turn (r # rs) \<noteq> []"
proof (induction rs arbitrary: r)
  case Nil
  then show ?case by (simp add: run_pieces_shape straight_piece_def)
next
  case (Cons q rs)
  then show ?case by simp
qed

lemma loop_chain:
  assumes "corners (rotated rates) \<noteq> []" "ss_best (longest_straight rates) \<ge> 3"
  shows "chain (cr_s (hd (corners (rotated rates)))) (loop_pieces (int (length rates)) (corners (rotated rates)))
    (cr_s (hd (corners (rotated rates))) + int (length rates))"
proof -
  obtain r rs where cs: "corners (rotated rates) = r # rs" using assms(1) by (cases "corners (rotated rates)") auto
  have len: "length (rotated rates) = length rates" by (simp add: rotated_def)
  have ok: "runs_ok (rotated rates) (r # rs)" using corners_ok [of "rotated rates"] by (simp add: cs)
  then have r: "run_ok (rotated rates) r" and l: "run_ok (rotated rates) (last (r # rs))"
    by (auto simp: runs_ok_def list_all_iff)
  have n: "2 \<le> length rates"
  proof (rule ccontr)
    assume "\<not> 2 \<le> length rates"
    then have "length rates = 1" using r by (auto simp: run_ok_def len)
    then have "straight_at rates j \<Longrightarrow> \<not> is_corner (rotated rates ! 0)" for j by (simp add: rotated_def)
    then have "\<not> is_corner (rotated rates ! 0)"
      using longest_straight_inv [of rates] assms(2) by (auto simp: straight_inv_def)
    then show False using r \<open>length rates = 1\<close> by (auto simp: run_ok_def len)
  qed
  note st = rotated_straight [OF assms(2) n]
  have "2 \<le> cr_s r"
  proof -
    have "cr_s r \<noteq> 0" "cr_s r \<noteq> 1" using r st(1,2) by (auto simp: run_ok_def)
    then show ?thesis using r by (simp add: run_ok_def)
  qed
  moreover have "cr_e (last (r # rs)) \<le> int (length rates) - 2"
  proof -
    have "cr_e (last (r # rs)) \<noteq> int (length rates) - 1"
    proof
      assume e: "cr_e (last (r # rs)) = int (length rates) - 1"
      have "nat (int (length rates) - 1) = length rates - 1" by simp
      then show False using l st(3) unfolding run_ok_def e by simp
    qed
    then show ?thesis using l by (simp add: run_ok_def len)
  qed
  ultimately have turn: "cr_e (last (r # rs)) + 4 \<le> cr_s r + int (length rates)" by simp
  let ?out = "lay_runs (cr_s r + int (length rates)) (r # rs)"
  have "\<not> pc_corner (last ?out)" using last_lay_straight [OF turn] by simp
  then show ?thesis
    using lay_chain [OF ok turn, of "last ?out"] by (simp add: cs loop_pieces_def Let_def)
qed

lemma seg_position:
  assumes "0 < step" "0 < n" and k: "K \<le> pc_k0 p" "pc_k0 p < pc_k1 p" "pc_k1 p \<le> K + int n"
    and x: "of_int K \<le> x" "x < of_int (K + int n)" and s: "s = (of_nat i0 + x) * step + of_nat n * step * of_int c"
  shows "wrap (s - sg_a (piece_seg step n i0 p)) (of_nat n * step) < sg_len (piece_seg step n i0 p)
    \<longleftrightarrow> of_int (pc_k0 p) \<le> x \<and> x < of_int (pc_k1 p)"
proof -
  define q where "q = (int i0 + pc_k0 p) div int n"
  have m: "(int i0 + pc_k0 p) mod int n = int i0 + pc_k0 p - int n * q"
    by (simp add: q_def minus_mult_div_eq_mod)
  have a: "sg_a (piece_seg step n i0 p) = (of_nat i0 + of_int (pc_k0 p) - of_nat n * of_int q) * step"
    unfolding piece_seg_def m by simp
  have len: "sg_len (piece_seg step n i0 p) = (of_int (pc_k1 p) - of_int (pc_k0 p)) * step" by (simp add: piece_seg_def)
  have RL: "0 < of_nat n * step" using assms(1,2) by simp
  have kr: "of_int K \<le> (of_int (pc_k0 p) :: rat)" "of_int (pc_k0 p) < (of_int (pc_k1 p) :: rat)" using k(1,2) by simp_all
  have "of_int (pc_k1 p) \<le> (of_int (K + int n) :: rat)" using k(3) by (simp only: of_int_le_iff)
  then have kn: "of_int (pc_k1 p) \<le> (of_int K + of_nat n :: rat)" by simp
  have xn: "x < of_int K + of_nat n" using x(2) by simp
  show ?thesis
  proof (cases "of_int (pc_k0 p) \<le> x")
    case True
    have "x - of_int (pc_k0 p) < of_nat n" using kr(1) xn by linarith
    then have "(x - of_int (pc_k0 p)) * step < of_nat n * step" using assms(1) by (rule mult_strict_right_mono)
    then have "wrap (s - sg_a (piece_seg step n i0 p)) (of_nat n * step) = (x - of_int (pc_k0 p)) * step"
      using assms(1) RL True by (intro wrap_unique [where k = "c + q"]) (simp_all add: s a algebra_simps)
    then show ?thesis using True assms(1) by (simp add: len)
  next
    case False
    have r: "0 \<le> x - of_int (pc_k0 p) + of_nat n" using kr(2) kn x(1) by linarith
    have "x - of_int (pc_k0 p) + of_nat n < of_nat n" using False by simp
    then have "(x - of_int (pc_k0 p) + of_nat n) * step < of_nat n * step" using assms(1) by (rule mult_strict_right_mono)
    moreover have "0 \<le> (x - of_int (pc_k0 p) + of_nat n) * step" using r assms(1) by simp
    ultimately have "wrap (s - sg_a (piece_seg step n i0 p)) (of_nat n * step) = (x - of_int (pc_k0 p) + of_nat n) * step"
      using RL by (intro wrap_unique [where k = "c + q - 1"]) (simp_all add: s a algebra_simps)
    moreover have "\<not> x - of_int (pc_k0 p) + of_nat n < of_int (pc_k1 p) - of_int (pc_k0 p)"
      using kn x(1) by linarith
    ultimately show ?thesis using False assms(1) by (simp add: len)
  qed
qed

lemma position_exists:
  fixes s step :: rat
  assumes "0 < step" "0 < n"
  obtains x c where "of_int K \<le> x" "x < of_int (K + int n)" "s = (of_nat i0 + x) * step + of_nat n * step * of_int c"
proof -
  define y where "y = s / step - of_nat i0 - of_int K"
  have n: "(0 :: rat) < of_nat n" using assms(2) by simp
  have "s = (of_nat i0 + (of_int K + wrap y (of_nat n))) * step + of_nat n * step * of_int \<lfloor>y / of_nat n\<rfloor>"
    using assms by (simp add: wrap_eq [OF n] y_def field_simps)
  moreover have "of_int K \<le> of_int K + wrap y (of_nat n)" "of_int K + wrap y (of_nat n) < of_int (K + int n)"
    using wrap_range [OF n, of y] by simp_all
  ultimately show ?thesis by (intro that)
qed

subsection \<open>Every point of a loop is in exactly one segment\<close>

definition seg_holds :: "rat \<Rightarrow> rat \<Rightarrow> seg \<Rightarrow> bool" where
  "seg_holds RL s g \<longleftrightarrow> wrap (s - sg_a g) RL < sg_len g"

lemma name_segs_place: "map (\<lambda>g. (sg_a g, sg_len g)) (name_segs nc ns segs) = map (\<lambda>g. (sg_a g, sg_len g)) segs"
  by (induction nc ns segs rule: name_segs.induct) simp_all

lemma name_segs_len: "sum_list (map sg_len (name_segs nc ns segs)) = sum_list (map sg_len segs)"
  by (induction nc ns segs rule: name_segs.induct) simp_all

lemma name_segs_holds: "length (filter (seg_holds RL s) (name_segs nc ns segs)) = length (filter (seg_holds RL s) segs)"
  by (induction nc ns segs rule: name_segs.induct) (simp_all add: seg_holds_def)

lemma from_line_rotates: "\<exists>k. from_line RL segs = drop k segs @ take k segs"
  by (auto simp: from_line_def Let_def)

lemma from_line_len: "sum_list (map sg_len (from_line RL segs)) = sum_list (map sg_len segs)"
proof -
  obtain k where "from_line RL segs = drop k segs @ take k segs" using from_line_rotates by blast
  moreover have "sum_list (map sg_len (take k segs @ drop k segs)) = sum_list (map sg_len segs)" by simp
  ultimately show ?thesis by (simp del: append_take_drop_id add: add.commute)
qed

lemma from_line_holds: "length (filter (seg_holds RL s) (from_line RL segs)) = length (filter (seg_holds RL s) segs)"
proof -
  obtain k where "from_line RL segs = drop k segs @ take k segs" using from_line_rotates by blast
  moreover have "length (filter (seg_holds RL s) (take k segs @ drop k segs)) = length (filter (seg_holds RL s) segs)" by simp
  ultimately show ?thesis by (simp del: append_take_drop_id)
qed

lemma chain_seg_total:
  assumes "chain K ps (K + int n)"
  shows "sum_list (map sg_len (map (piece_seg step n i0) ps)) = of_nat n * step"
proof -
  have "sum_list (map sg_len (map (piece_seg step n i0) ps)) = of_int (sum_list (map (\<lambda>p. pc_k1 p - pc_k0 p) ps)) * step"
    by (induction ps) (simp_all add: piece_seg_def algebra_simps)
  then show ?thesis by (simp add: chain_total [OF assms])
qed

lemma chain_seg_unique:
  fixes s step :: rat
  assumes "0 < step" "0 < n" "chain K ps (K + int n)"
  shows "length (filter (seg_holds (of_nat n * step) s) (map (piece_seg step n i0) ps)) = 1"
proof -
  obtain x c where x: "of_int K \<le> x" "x < of_int (K + int n)" "s = (of_nat i0 + x) * step + of_nat n * step * of_int c"
    using position_exists [OF assms(1,2)] by blast
  have "seg_holds (of_nat n * step) s (piece_seg step n i0 p) \<longleftrightarrow> of_int (pc_k0 p) \<le> x \<and> x < of_int (pc_k1 p)" if "p \<in> set ps" for p
    using seg_position [OF assms(1,2) _ _ _ x] chain_bounds [OF assms(3) that] by (simp add: seg_holds_def)
  then have "filter (\<lambda>p. seg_holds (of_nat n * step) s (piece_seg step n i0 p)) ps
      = filter (\<lambda>p. of_int (pc_k0 p) \<le> x \<and> x < of_int (pc_k1 p)) ps"
    by (intro filter_cong) simp_all
  then show ?thesis using chain_unique [OF assms(3) x(1,2)] by (simp add: filter_map o_def)
qed

lemma closed_segments_cover:
  assumes "0 < RL" "rates \<noteq> []" "corners (rotated rates) = [] \<or> ss_best (longest_straight rates) \<ge> 3"
  shows "sum_list (map sg_len (closed_segments RL rates)) = RL
    \<and> length (filter (seg_holds RL s) (closed_segments RL rates)) = 1"
proof (cases "corners (rotated rates) = []")
  case True
  have "wrap s RL < RL" using wrap_range [OF assms(1)] by simp
  then show ?thesis using True by (simp add: closed_segments_def Let_def seg_holds_def)
next
  case False
  define n where "n = length rates"
  define step where "step = RL / of_nat n"
  define ps where "ps = loop_pieces (int n) (corners (rotated rates))"
  define segs where "segs = map (piece_seg step n (ss_i0 (longest_straight rates))) ps"
  have n: "0 < n" using assms(2) by (simp add: n_def)
  have step: "0 < step" "of_nat n * step = RL" using n assms(1) by (simp_all add: step_def)
  have ch: "chain (cr_s (hd (corners (rotated rates)))) ps (cr_s (hd (corners (rotated rates))) + int n)"
    using loop_chain [OF False] False assms(3) by (simp add: ps_def n_def)
  have total: "sum_list (map sg_len segs) = RL" using chain_seg_total [OF ch] step(2) by (simp add: segs_def)
  then have fixed: "fix_total RL segs = segs" by (simp add: fix_total_def)
  have eq: "closed_segments RL rates = name_segs 0 0 (from_line RL segs)"
    using False fixed by (simp add: closed_segments_def Let_def segs_def ps_def step_def n_def)
  have "length (filter (seg_holds RL s) segs) = 1"
    using chain_seg_unique [OF step(1) n ch] by (simp add: step(2) segs_def)
  then show ?thesis unfolding eq name_segs_len from_line_len name_segs_holds from_line_holds using total by simp
qed

lemma wrap_shift: "0 < len \<Longrightarrow> wrap (wrap s len - a) len = wrap (s - a) len"
proof -
  assume l: "0 < len"
  have "wrap s len - a = wrap (s - a) len + len * of_int (\<lfloor>(s - a) / len\<rfloor> - \<lfloor>s / len\<rfloor>)"
    using l by (simp add: wrap_eq algebra_simps)
  then show ?thesis using wrap_unique [OF l] wrap_range [OF l, of "s - a"] by blast
qed

lemma find_index_None: "List.find (\<lambda>i. P (xs ! i)) [0..<length xs] = None \<longleftrightarrow> filter P xs = []"
  by (auto simp: find_None_iff filter_empty_conv all_set_conv_all_nth)

lemma segAt_closed_None: "0 < RL \<Longrightarrow> segAt segs RL s False = None \<longleftrightarrow> filter (seg_holds RL s) segs = []"
  using find_index_None [of "seg_holds RL s" segs] by (simp add: segAt_def Let_def seg_holds_def wrap_shift)

text \<open>C19: whenever a closed course has a straight of three samples (or no corner at all), its segments tile it:
  their lengths add up to the length of the course, and every position, wrapped or not, lies in exactly one
  segment, the one \<open>segAt\<close> returns.\<close>

theorem closed_segments_tile:
  assumes "0 < RL" "rates \<noteq> []" "corners (rotated rates) = [] \<or> ss_best (longest_straight rates) \<ge> 3"
  shows "sum_list (map sg_len (buildSegments RL False rates)) = RL
    \<and> length (filter (\<lambda>g. wrap (s - sg_a g) RL < sg_len g) (buildSegments RL False rates)) = 1
    \<and> segAt (buildSegments RL False rates) RL s False \<noteq> None"
proof -
  have c: "sum_list (map sg_len (closed_segments RL rates)) = RL" "length (filter (seg_holds RL s) (closed_segments RL rates)) = 1"
    using closed_segments_cover [OF assms] by simp_all
  moreover have "segAt (closed_segments RL rates) RL s False \<noteq> None" using c(2) segAt_closed_None [OF assms(1)] by force
  moreover have "seg_holds RL s = (\<lambda>g. wrap (s - sg_a g) RL < sg_len g)" by (rule ext) (simp add: seg_holds_def)
  ultimately show ?thesis by (simp add: buildSegments_def)
qed

lemma closed_segments_tile_witness:
  "sum_list (map sg_len (buildSegments 20 False [3, 3, 3, 3, 0, 0, 0, 0, 0, 0])) = 20
    \<and> length (filter (\<lambda>g. wrap (25 - sg_a g) 20 < sg_len g) (buildSegments 20 False [3, 3, 3, 3, 0, 0, 0, 0, 0, 0])) = 1
    \<and> segAt (buildSegments 20 False [3, 3, 3, 3, 0, 0, 0, 0, 0, 0]) 20 25 False \<noteq> None"
  by (rule closed_segments_tile) (simp_all add: longest_straight_def straight_step_def is_corner_def upt_rec)

subsection \<open>The segments of an open course\<close>

text \<open>No gap of one or two samples before a corner: the shape \<open>buildOpenSegments\<close> tiles.\<close>

fun gaps_ok :: "int \<Rightarrow> corner_run list \<Rightarrow> bool" where
  "gaps_ok pos [] \<longleftrightarrow> True"
| "gaps_ok pos (r # rs) \<longleftrightarrow> (cr_s r = pos \<or> cr_s r - pos \<ge> 3) \<and> cr_s r \<le> cr_e r \<and> gaps_ok (cr_e r + 1) rs"

lemma extend_last_0: "ps \<noteq> [] \<Longrightarrow> extend_last 0 ps = ps"
  by (simp add: extend_last_def)

lemma open_step_chain:
  assumes "chain 0 (fst op) (snd op)" "cr_s r = snd op \<or> cr_s r - snd op \<ge> 3" "cr_s r \<le> cr_e r"
  shows "chain 0 (fst (open_step r op)) (snd (open_step r op)) \<and> fst (open_step r op) \<noteq> []"
  using assms by (auto simp: open_step_def Let_def chain_append straight_piece_def corner_piece_def extend_last_0)

lemma open_fold_chain:
  "chain 0 (fst op) (snd op) \<Longrightarrow> gaps_ok (snd op) rs \<Longrightarrow> chain 0 (fst (fold open_step rs op)) (snd (fold open_step rs op))"
proof (induction rs arbitrary: op)
  case (Cons r rs)
  have c: "chain 0 (fst (open_step r op)) (snd (open_step r op))" using open_step_chain Cons.prems by simp
  have "snd (open_step r op) = cr_e r + 1" by (simp add: open_step_def Let_def)
  then show ?case using Cons.IH [OF c] Cons.prems(2) by simp
qed simp

lemma open_pos_bound: "snd (fold open_step rs op) = (if rs = [] then snd op else cr_e (last rs) + 1)"
  by (induction rs arbitrary: op) (simp_all add: open_step_def Let_def)

lemma chain_stretch: "chain a ps b \<Longrightarrow> ps \<noteq> [] \<Longrightarrow> b \<le> c \<Longrightarrow> chain a (butlast ps @ [(last ps)\<lparr>pc_k1 := c\<rparr>]) c"
  by (induction ps arbitrary: a) auto

lemma open_pieces_chain:
  assumes "runs_ok rates cs" "gaps_ok 0 cs" "rates \<noteq> []"
  shows "chain 0 (open_pieces (int (length rates)) cs) (int (length rates))"
proof -
  obtain out pos where f: "fold open_step cs ([], 0) = (out, pos)" by fastforce
  have c: "chain 0 out pos" using open_fold_chain [of "([], 0)" cs] assms(2) f by simp
  have e: "pos = (if cs = [] then 0 else cr_e (last cs) + 1)" using open_pos_bound [of cs "([], 0)"] f by simp
  have "cs \<noteq> [] \<Longrightarrow> run_ok rates (last cs)" using assms(1) by (simp add: runs_ok_def list_all_iff)
  then have p: "pos \<le> int (length rates)" using e by (auto simp: run_ok_def)
  have empty: "out = [] \<Longrightarrow> pos = 0" using c by simp
  show ?thesis
  proof (cases "int (length rates) - pos \<ge> 3 \<or> out = []")
    case True
    then have "pos < int (length rates)" using empty assms(3) by auto
    then show ?thesis using True c f by (auto simp: open_pieces_def Let_def chain_append straight_piece_def)
  next
    case False
    then show ?thesis using chain_stretch [OF c _ p] f by (auto simp: open_pieces_def Let_def)
  qed
qed

lemma open_seg_holds:
  assumes "0 < step"
  shows "sg_a (open_seg step p) \<le> s \<and> s < sg_a (open_seg step p) + sg_len (open_seg step p)
    \<longleftrightarrow> of_int (pc_k0 p) \<le> s / step \<and> s / step < of_int (pc_k1 p)"
  using assms by (simp add: open_seg_def field_simps)

lemma name_segs_at: "length (filter (\<lambda>g. sg_a g \<le> s \<and> s < sg_a g + sg_len g) (name_segs nc ns segs))
    = length (filter (\<lambda>g. sg_a g \<le> s \<and> s < sg_a g + sg_len g) segs)"
  by (induction nc ns segs rule: name_segs.induct) simp_all

text \<open>on an open course whose corners touch or lie three samples apart (the first one from the start as well),
  the segments lie end to end from the start line to the finish: the lengths add up, and every position on the
  course is in exactly one segment.\<close>

theorem open_segments_tile:
  assumes "0 < RL" "rates \<noteq> []" "gaps_ok 0 (corners rates)" "0 \<le> s" "s < RL"
  shows "sum_list (map sg_len (buildSegments RL True rates)) = RL
    \<and> length (filter (\<lambda>g. sg_a g \<le> s \<and> s < sg_a g + sg_len g) (buildSegments RL True rates)) = 1"
proof -
  define n where "n = length rates"
  define step where "step = RL / of_nat n"
  define ps where "ps = open_pieces (int n) (corners rates)"
  have n: "0 < n" using assms(2) by (simp add: n_def)
  have step: "0 < step" "of_nat n * step = RL" using n assms(1) by (simp_all add: step_def)
  have ch: "chain 0 ps (int n)" using open_pieces_chain [OF corners_ok assms(3,2)] by (simp add: ps_def n_def)
  have eq: "buildSegments RL True rates = name_segs 0 0 (map (open_seg step) ps)"
    by (simp add: buildSegments_def buildOpenSegments_def step_def ps_def n_def)
  have "sum_list (map sg_len (map (open_seg step) ps)) = of_int (sum_list (map (\<lambda>p. pc_k1 p - pc_k0 p) ps)) * step"
    by (induction ps) (simp_all add: open_seg_def algebra_simps)
  then have total: "sum_list (map sg_len (map (open_seg step) ps)) = RL" using step(2) by (simp add: chain_total [OF ch])
  have x: "of_int 0 \<le> s / step" "s / step < of_int (int n)" using assms(4,5) step n by (simp_all add: field_simps)
  have "length (filter (\<lambda>g. sg_a g \<le> s \<and> s < sg_a g + sg_len g) (map (open_seg step) ps)) = 1"
    using chain_unique [OF ch x] by (simp add: filter_map o_def open_seg_holds [OF step(1)])
  then show ?thesis unfolding eq name_segs_len name_segs_at using total by simp
qed

lemma open_segments_tile_witness:
  "sum_list (map sg_len (buildSegments 20 True [0, 0, 0, 3, 3, 3, 3, 0, 0, 0])) = 20
    \<and> length (filter (\<lambda>g. sg_a g \<le> 7 \<and> 7 < sg_a g + sg_len g) (buildSegments 20 True [0, 0, 0, 3, 3, 3, 3, 0, 0, 0])) = 1"
  by (rule open_segments_tile)
    (simp_all add: corners_def scan_runs_def scan_step_def is_corner_def sign_of_def Let_def upt_rec)

text \<open>two corners one sample apart on an open course overlap: the first is extended by the gap and the second
  starts before it as well, so the lengths exceed the course; and a corner on the second sample leaves the start
  line itself in no segment.\<close>

theorem open_short_gap:
  "map (\<lambda>g. (sg_name g, sg_a g, sg_len g)) (buildSegments 30 True [0, 0, 0, 3, 3, 3, 3, 0, - 3, - 3, - 3, - 3, 0, 0, 0])
      = [(''Str 1'', 0, 6), (''T1'', 6, 10), (''T2'', 14, 10), (''Str 2'', 24, 6)]
    \<and> segAt (buildSegments 16 True [0, 3, 3, 3, 3, 0, 0, 0]) 16 0 True = None"
  by (simp_all add: buildSegments_def buildOpenSegments_def open_pieces_def open_step_def open_seg_def extend_last_def
      straight_piece_def corner_piece_def corners_def scan_runs_def scan_step_def is_corner_def sign_of_def
      segAt_def Let_def upt_rec js_simps digit_char_def char_of_def bit_iff_odd)

end
