(* ===== verification/DriveLap.thy ===== *)
theory DriveLap
  imports DriveSegments
begin

text \<open>
  The laps of a run and their sectors: \<^verbatim>\<open>viewer_tool/src/lib/driveday/types.ts\<close>, \<^verbatim>\<open>geometry.ts\<close> and \<^verbatim>\<open>sectors.ts\<close>.

  A channel that the source indexes by its name (\<^verbatim>\<open>Record<ChKey, number[]>\<close>) is a function of the name. The channels of a lap
  have one entry for each of its fixes: \<open>lap_ok\<close> below.
\<close>

subsection \<open>Fixes, channels and laps\<close>

record gps_fix =
  fx_x :: rat
  fx_y :: rat
  fx_spd :: rat
  fx_s :: rat
  fx_dev :: rat

datatype ch_key = Thr | Brk | Brkr | Steer | Rpm | Trq | Dcv | Dca | Kw | Packv | Soc
  | MotT | InvT | GateT | CoolT | CellT | CellV | ModA | ModB | ModC | VmaxC | VavgC

definition CH_KEYS :: "ch_key list" where
  "CH_KEYS = [Thr, Brk, Brkr, Steer, Rpm, Trq, Dcv, Dca, Kw, Packv, Soc, MotT, InvT, GateT, CoolT, CellT, CellV,
     ModA, ModB, ModC, VmaxC, VavgC]"

record base_channels =
  ch_t :: "rat list"
  ch_u :: "rat list"
  ch_cells :: "rat list list"
  ch_of :: "ch_key \<Rightarrow> rat list"

datatype lap_kind = KLap | KOut | KPartial | KTheo

record raw_lap =
  lp_name :: string
  lp_kind :: lap_kind
  lp_t0 :: rat
  lp_t1 :: rat
  lp_dur :: rat
  lp_sec :: "rat option list"
  lp_pts :: "gps_fix list"
  lp_dist :: rat
  lp_vmax :: rat
  lp_vavg :: rat
  lp_dev :: rat
  lp_wh :: "rat option"
  lp_whOut :: "rat option"
  lp_whIn :: "rat option"
  lp_ch :: base_channels

text \<open>An opened lap carries the channels that are worked out from the stored ones.\<close>

record lap = raw_lap +
  lp_spd :: "rat list"
  lp_brkp :: "rat list"
  lp_brkrp :: "rat list"
  lp_acc :: "rat list"
  lp_gacc :: "rat list"
  lp_cellCols :: "rat list list"
  lp_cellAvg :: "rat list"
  lp_playback :: "gps_fix list"
  lp_curve :: "(rat \<times> rat) list list"

abbreviation lap_t :: "('a) raw_lap_scheme \<Rightarrow> rat list" where "lap_t L \<equiv> ch_t (lp_ch L)"

abbreviation lap_u :: "('a) raw_lap_scheme \<Rightarrow> rat list" where "lap_u L \<equiv> ch_u (lp_ch L)"

subsection \<open>Curves through the fixes\<close>

definition cr_axis :: "rat \<Rightarrow> rat \<Rightarrow> rat \<Rightarrow> rat \<Rightarrow> rat \<Rightarrow> rat" where
  "cr_axis p0 p1 p2 p3 t =
     1 / 2 * (2 * p1 + (- p0 + p2) * t + (2 * p0 - 5 * p1 + 4 * p2 - p3) * t ^ 2 + (- p0 + 3 * p1 - 3 * p2 + p3) * t ^ 3)"

definition cr :: "gps_fix \<Rightarrow> gps_fix \<Rightarrow> gps_fix \<Rightarrow> gps_fix \<Rightarrow> rat \<Rightarrow> rat \<times> rat" where
  "cr a b c d t = (cr_axis (fx_x a) (fx_x b) (fx_x c) (fx_x d) t, cr_axis (fx_y a) (fx_y b) (fx_y c) (fx_y d) t)"

text \<open>The neighbour at an index, the first or the last fix outside.\<close>

definition fix_near :: "gps_fix list \<Rightarrow> int \<Rightarrow> gps_fix" where
  "fix_near P i = P ! nat (max 0 (min (int (length P) - 1) i))"

definition fix_xy :: "gps_fix \<Rightarrow> rat \<times> rat" where
  "fix_xy p = (fx_x p, fx_y p)"

definition curveOf :: "gps_fix list \<Rightarrow> (rat \<times> rat) list list" where
  "curveOf P = map (\<lambda>i. map (\<lambda>k.
       if k = 0 then fix_xy (P ! i) else if k = 4 then fix_xy (P ! (i + 1))
       else cr (fix_near P (int i - 1)) (fix_near P (int i)) (fix_near P (int i + 1)) (fix_near P (int i + 2)) (of_nat k / 4))
     [0..<5]) [0..<length P - 1]"

definition posAt :: "lap \<Rightarrow> rat \<Rightarrow> rat \<times> rat" where
  "posAt L rel =
     (let pts = lp_playback L; ts = lap_t L; n = length ts in
      if rel \<le> hd ts then fix_xy (hd pts)
      else if rel \<ge> last ts then fix_xy (pts ! (n - 1))
      else let lh = bisect ts rel 0 (n - 1); lo = fst lh; hi = snd lh; d = ts ! hi - ts ! lo;
               f = (rel - ts ! lo) / (if d = 0 then 1 else d)
        in cr (fix_near pts (int lo - 1)) (fix_near pts (int lo)) (fix_near pts (int hi)) (fix_near pts (int hi + 1)) f)"

definition timeAtU :: "'a raw_lap_scheme \<Rightarrow> rat \<Rightarrow> jsnum" where
  "timeAtU L u = interp (lap_u L) (lap_t L) u"

definition speedAtU :: "lap \<Rightarrow> rat \<Rightarrow> jsnum" where
  "speedAtU L u = interp (lap_u L) (lp_spd L) u"

subsection \<open>Sector gates\<close>

definition validGates :: "jsnum list \<Rightarrow> rat \<Rightarrow> bool" where
  "validGates g len \<longleftrightarrow> length g = 2 \<and> list_all js_finite g \<and> g ! 0 > 0 \<and> g ! 1 > g ! 0 \<and> g ! 1 < JFin len"

text \<open>The ends of the longer straights, in the middle four fifths of the course.\<close>

definition gate_candidates :: "seg list \<Rightarrow> rat \<Rightarrow> rat list" where
  "gate_candidates segs len = filter (\<lambda>d. d > len * (1 / 10) \<and> d < len * (9 / 10))
     (concat (map (\<lambda>s. [sg_a s, rem (sg_a s + sg_len s) len])
       (filter (\<lambda>s. \<not> sg_corner s \<and> sg_len s \<ge> min 12 (len * (5 / 100))) segs)))"

definition closest :: "jsnum \<Rightarrow> rat list \<Rightarrow> rat" where
  "closest target ds = foldl (\<lambda>a b. if js_abs (JFin b - target) < js_abs (JFin a - target) then b else a) (hd ds) (tl ds)"

definition pick_gate :: "'a raw_lap_scheme \<Rightarrow> rat list \<Rightarrow> nat \<Rightarrow> jsnum" where
  "pick_gate L cands k =
     (let part = of_nat (k + 1) / 3;
          target = interp (lap_t L) (lap_u L) (lp_dur L * part);
          usable = filter (\<lambda>d. js_abs (interp (lap_u L) (lap_t L) d / JFin (lp_dur L) - JFin part) \<le> JFin (12 / 100)) cands
      in if usable \<noteq> [] then JFin (closest target usable) else target)"

definition suggestGates :: "'a raw_lap_scheme \<Rightarrow> seg list \<Rightarrow> rat \<Rightarrow> jsnum list" where
  "suggestGates L segs len =
     (let gates = map (pick_gate L (gate_candidates segs len)) [0, 1]
      in if validGates gates len then gates else [JFin (len / 3), JFin (2 * len / 3)])"

text \<open>The first pair of fixes around a gate; a gate that no pair straddles stays missing.\<close>

definition gate_cross :: "rat list \<Rightarrow> rat list \<Rightarrow> rat \<Rightarrow> rat option" where
  "gate_cross us ts gate =
     map_option (\<lambda>i. ts ! (i - 1) + (ts ! i - ts ! (i - 1)) * (gate - us ! (i - 1)) / (us ! i - us ! (i - 1)))
       (List.find (\<lambda>i. us ! (i - 1) \<le> gate \<and> us ! i \<ge> gate \<and> us ! i > us ! (i - 1)) [1..<length us])"

definition sectorTimes :: "rat list \<Rightarrow> rat list \<Rightarrow> rat \<Rightarrow> lap_kind \<Rightarrow> rat \<times> rat \<Rightarrow> rat option list" where
  "sectorTimes us ts dur kind gates =
     (let a = gate_cross us ts (fst gates); b = gate_cross us ts (snd gates) in
      [a, (case (a, b) of (Some x, Some y) \<Rightarrow> Some (y - x) | _ \<Rightarrow> None),
       (case b of Some y \<Rightarrow> if kind \<noteq> KPartial then Some (dur - y) else None | None \<Rightarrow> None)])"

definition elapsedAtDistance :: "'a raw_lap_scheme \<Rightarrow> rat \<Rightarrow> rat \<Rightarrow> jsnum" where
  "elapsedAtDistance L distance len =
     (if distance \<le> 0 then 0 else if distance \<ge> len then JFin (lp_dur L)
      else js_max 0 (js_min (JFin (lp_dur L)) (timeAtU L distance)))"

subsection \<open>Sectors\<close>

lemma interp_third: "0 < len \<Longrightarrow> validGates [JFin (len / 3), JFin (2 * len / 3)] len"
  by (simp add: validGates_def js_finite_def zero_jsnum_def)

text \<open>the suggested gates are always usable: two finite distances, in order, inside the course.\<close>

theorem suggested_gates_valid:
  assumes "0 < len"
  shows "validGates (suggestGates L segs len) len"
  using interp_third [OF assms] by (simp add: suggestGates_def Let_def)

definition straddles :: "rat list \<Rightarrow> rat \<Rightarrow> nat \<Rightarrow> bool" where
  "straddles us gate i \<longleftrightarrow> us ! (i - 1) \<le> gate \<and> us ! i \<ge> gate \<and> us ! i > us ! (i - 1)"

lemma straddle_exists:
  assumes "sorted us" "m < length us" "hd us \<le> gate" "gate \<le> us ! m" "hd us < us ! m"
  shows "\<exists>i. 1 \<le> i \<and> i \<le> m \<and> straddles us gate i"
proof -
  define P where "P = (\<lambda>i. gate \<le> us ! i \<and> hd us < us ! i)"
  define k where "k = (LEAST i. P i)"
  have "P m" using assms(4,5) by (simp add: P_def)
  then have k: "P k" "k \<le> m" unfolding k_def by (rule LeastI, rule Least_le)
  have hd: "hd us = us ! 0" using assms(2) by (cases us) simp_all
  then have "0 < k" using k(1) by (cases k) (simp_all add: P_def)
  moreover have "us ! (k - 1) \<le> us ! k" using sorted_at [OF assms(1)] k(2) assms(2) by simp
  moreover have "\<not> P (k - 1)" using not_less_Least [of "k - 1" P] \<open>0 < k\<close> by (simp add: k_def)
  moreover have "hd us \<le> us ! (k - 1)" using sorted_at [OF assms(1), of 0 "k - 1"] k(2) assms(2) hd by simp
  ultimately show ?thesis
    using k assms(3) by (intro exI [of _ k]) (auto simp: P_def straddles_def)
qed

lemma find_first:
  assumes "a \<le> i" "i < b" "P i"
  shows "\<exists>j. List.find P [a..<b] = Some j \<and> a \<le> j \<and> j \<le> i \<and> P j"
proof -
  define j where "j = (LEAST j. a \<le> j \<and> P j)"
  have "a \<le> i \<and> P i" using assms(1,3) by simp
  then have j: "a \<le> j \<and> P j" "j \<le> i" unfolding j_def by (rule LeastI, rule Least_le)
  have least: "\<not> P k" if "a \<le> k" "k < j" for k using not_less_Least that unfolding j_def by blast
  have "j - a < b - a" using j assms(2) by linarith
  then have "[a..<b] ! (j - a) = j" "j - a < length [a..<b]" using j assms(2) by simp_all
  moreover have "\<forall>k < j - a. \<not> P ([a..<b] ! k)" using least j assms(2) by (simp add: less_diff_conv)
  ultimately have "List.find P [a..<b] = Some j" using j(1) by (auto simp: find_Some_iff)
  then show ?thesis using j by blast
qed

definition cross_time :: "rat list \<Rightarrow> rat list \<Rightarrow> rat \<Rightarrow> nat \<Rightarrow> rat" where
  "cross_time us ts gate i = ts ! (i - 1) + (ts ! i - ts ! (i - 1)) * (gate - us ! (i - 1)) / (us ! i - us ! (i - 1))"

lemma gate_cross_first:
  assumes "sorted us" "m < length us" "hd us \<le> gate" "gate \<le> us ! m" "hd us < us ! m"
  shows "\<exists>i. 1 \<le> i \<and> i \<le> m \<and> straddles us gate i \<and> gate_cross us ts gate = Some (cross_time us ts gate i)"
proof -
  obtain i where i: "1 \<le> i" "i \<le> m" "straddles us gate i" using straddle_exists [OF assms] by blast
  have "i < length us" using i(2) assms(2) by simp
  from find_first [of 1 i "length us" "straddles us gate", OF i(1) this i(3)] obtain j where
    "List.find (straddles us gate) [1..<length us] = Some j" "1 \<le> j" "j \<le> i" "straddles us gate j" by blast
  then show ?thesis using i(2) by (intro exI [of _ j]) (simp add: gate_cross_def cross_time_def straddles_def [abs_def])
qed

lemma cross_time_between:
  assumes "sorted ts" "straddles us gate i" "1 \<le> i" "i < length ts"
  shows "ts ! (i - 1) \<le> cross_time us ts gate i" "cross_time us ts gate i \<le> ts ! i"
proof -
  have s: "us ! (i - 1) \<le> gate" "gate \<le> us ! i" "us ! (i - 1) < us ! i" using assms(2) by (simp_all add: straddles_def)
  have t: "ts ! (i - 1) \<le> ts ! i" using sorted_at [OF assms(1)] assms(4) by simp
  then show "ts ! (i - 1) \<le> cross_time us ts gate i" using s by (simp add: cross_time_def)
  have "(ts ! i - ts ! (i - 1)) * (gate - us ! (i - 1)) \<le> (ts ! i - ts ! (i - 1)) * (us ! i - us ! (i - 1))"
    using t s by (intro mult_left_mono) simp_all
  then have "(ts ! i - ts ! (i - 1)) * (gate - us ! (i - 1)) / (us ! i - us ! (i - 1)) \<le> ts ! i - ts ! (i - 1)"
    using s by (simp add: pos_divide_le_eq)
  then show "cross_time us ts gate i \<le> ts ! i" by (simp add: cross_time_def)
qed

text \<open>Gates in order are crossed in order.\<close>

lemma gates_crossed_in_order:
  assumes u: "sorted us" "length ts = length us" "us \<noteq> []" and t: "sorted ts"
    and g: "hd us \<le> g0" "g0 < g1" "g1 \<le> last us"
  obtains x y where "gate_cross us ts g0 = Some x" "gate_cross us ts g1 = Some y" "hd ts \<le> x" "x \<le> y" "y \<le> last ts"
proof -
  have last: "last us = us ! (length us - 1)" "last ts = ts ! (length us - 1)" "hd ts = ts ! 0"
    using u(2,3) by (simp_all add: last_conv_nth hd_conv_nth flip: length_greater_0_conv)
  have m: "length us - 1 < length us" using u(3) by (cases us) simp_all
  have b: "hd us < us ! (length us - 1)" using g last by linarith
  obtain j where j: "1 \<le> j" "j \<le> length us - 1" "straddles us g1 j" "gate_cross us ts g1 = Some (cross_time us ts g1 j)"
    using gate_cross_first [OF u(1) m, of g1 ts] g last b by auto
  have jl: "j < length us" using j(2) m by linarith
  have "g1 \<le> us ! j" using j(3) by (simp add: straddles_def)
  then have "g0 \<le> us ! j" "hd us < us ! j" using g by linarith+
  from gate_cross_first [OF u(1) jl g(1) this, of ts] obtain i where
    i: "1 \<le> i" "i \<le> j" "straddles us g0 i" "gate_cross us ts g0 = Some (cross_time us ts g0 i)" by blast
  have il: "i < length ts" "j < length ts" using i(2) jl u(2) by simp_all
  note x = cross_time_between [OF t i(3,1) il(1)]
  note y = cross_time_between [OF t j(3,1) il(2)]
  have "cross_time us ts g0 i \<le> cross_time us ts g1 j"
  proof (cases "i = j")
    case True
    have "ts ! (i - 1) \<le> ts ! i" using sorted_at [OF t] il(1) by simp
    then have "(ts ! i - ts ! (i - 1)) * (g0 - us ! (i - 1)) / (us ! i - us ! (i - 1))
        \<le> (ts ! i - ts ! (i - 1)) * (g1 - us ! (i - 1)) / (us ! i - us ! (i - 1))"
      using i(3) g(2) by (intro divide_right_mono mult_left_mono) (simp_all add: straddles_def)
    then show ?thesis using True by (simp add: cross_time_def)
  next
    case False
    then have "ts ! i \<le> ts ! (j - 1)" using sorted_at [OF t] i(2) il(2) by simp
    then show ?thesis using x(2) y(1) by linarith
  qed
  moreover have "hd ts \<le> cross_time us ts g0 i"
    using x(1) sorted_at [OF t, of 0 "i - 1"] il(1) last(3) by (simp add: less_imp_diff_less)
  moreover have "cross_time us ts g1 j \<le> last ts"
    using y(2) sorted_at [OF t, of j "length us - 1"] j(2) u(2) m last(2) by simp
  ultimately show thesis using i(4) j(4) that by blast
qed

text \<open>on a completed lap that covers both gates, three sector times come out, none is negative, and they add up to
  the lap time. The order of the fixes is all that is assumed; standing fixes, with the distance unchanged, included.\<close>

theorem sectors_add_up:
  assumes "sorted us" "length ts = length us" "us \<noteq> []" "sorted ts" "hd us \<le> g0" "g0 < g1" "g1 \<le> last us"
    "0 \<le> hd ts" "last ts \<le> dur" "kind \<noteq> KPartial"
  shows "\<exists>a b c. sectorTimes us ts dur kind (g0, g1) = [Some a, Some b, Some c] \<and> 0 \<le> a \<and> 0 \<le> b \<and> 0 \<le> c \<and> a + b + c = dur"
proof -
  obtain x y where "gate_cross us ts g0 = Some x" "gate_cross us ts g1 = Some y" "hd ts \<le> x" "x \<le> y" "y \<le> last ts"
    by (rule gates_crossed_in_order [OF assms(1-7)])
  then show ?thesis using assms(8-10) by (simp add: sectorTimes_def Let_def)
qed

lemma sectors_add_up_witness:
  "\<exists>a b c. sectorTimes [0, 10, 10, 40] [0, 1000, 2000, 5000] 5100 KLap (10, 30) = [Some a, Some b, Some c]
    \<and> 0 \<le> a \<and> 0 \<le> b \<and> 0 \<le> c \<and> a + b + c = 5100"
  by (rule sectors_add_up) simp_all

subsection \<open>The marker runs through the fixes\<close>

lemma cr_ends: "cr a b c d 0 = fix_xy b" "cr a b c d 1 = fix_xy c"
  by (simp_all add: cr_def cr_axis_def fix_xy_def)

text \<open>at the time of a fix the drawn car is exactly at that fix, whichever fixes are around it.\<close>

theorem posAt_through_fixes:
  assumes "sorted_wrt (<) (lap_t L)" "i < length (lap_t L)" "length (lp_playback L) = length (lap_t L)"
  shows "posAt L (lap_t L ! i) = fix_xy (lp_playback L ! i)"
proof -
  let ?t = "lap_t L"
  have mono: "?t ! a < ?t ! b" if "a < b" "b < length ?t" for a b using assms(1) that by (simp add: sorted_wrt_iff_nth_less)
  have ne: "?t \<noteq> []" "lp_playback L \<noteq> []" using assms(2,3) by auto
  consider "i = 0" | "0 < i" "i = length ?t - 1" | "0 < i" "i < length ?t - 1" using assms(2) by linarith
  then show ?thesis
  proof cases
    case 1
    then show ?thesis using ne by (simp add: posAt_def Let_def hd_conv_nth)
  next
    case 2
    then have "hd ?t < ?t ! i" "last ?t = ?t ! i" using mono [of 0 i] assms(2) ne by (simp_all add: hd_conv_nth last_conv_nth)
    then show ?thesis using 2 by (simp add: posAt_def Let_def)
  next
    case 3
    then have ends: "hd ?t < ?t ! i" "?t ! i < last ?t" using mono [of 0 i] mono [of i "length ?t - 1"] assms(2) ne
      by (simp_all add: hd_conv_nth last_conv_nth)
    then have "?t ! 0 \<le> ?t ! i" "?t ! i < ?t ! (length ?t - 1)" using ne by (simp_all add: hd_conv_nth last_conv_nth)
    moreover have "0 < length ?t - 1" using 3 by simp
    ultimately obtain l where l: "bisect ?t (?t ! i) 0 (length ?t - 1) = (l, l + 1)"
        "l + 1 \<le> length ?t - 1" "?t ! l \<le> ?t ! i" "?t ! i < ?t ! (l + 1)"
      using bisect_spec by blast
    have "l = i"
    proof (rule ccontr)
      assume "l \<noteq> i"
      then consider "i < l" | "l + 1 \<le> i" by linarith
      then show False
      proof cases
        case 1
        moreover have "l < length ?t" using l(2) 3 by linarith
        ultimately show False using mono [of i l] l(3) by simp
      next
        case 2
        then show False using mono [of "l + 1" i] l(4) assms(2) by (cases "l + 1 = i") auto
      qed
    qed
    then have b: "bisect ?t (?t ! i) 0 (length ?t - 1) = (i, i + 1)" using l(1) by simp
    have "\<not> ?t ! i \<le> hd ?t" "\<not> ?t ! i \<ge> last ?t" using ends by simp_all
    then show ?thesis
      using 3 assms(3) unfolding posAt_def Let_def b by (simp add: cr_ends fix_near_def)
  qed
qed

end
