(* ===== verification/DriveZones.thy ===== *)
theory DriveZones
  imports DriveLap
begin

text \<open>
  Braking zones and the figures of a lap through a segment or a zone: the second half of
  \<^verbatim>\<open>viewer_tool/src/lib/driveday/segments.ts\<close>.
\<close>

subsection \<open>Braking zones\<close>

record brake_run =
  br_lap :: nat
  br_s0 :: rat
  br_s1 :: rat
  br_peak :: rat

record brake_scan =
  bs_cur :: "(nat \<times> nat \<times> rat) option"
  bs_raw :: "brake_run list"

definition brake_close :: "nat \<Rightarrow> gps_fix list \<Rightarrow> brake_scan \<Rightarrow> brake_scan" where
  "brake_close li pts st = (case bs_cur st of None \<Rightarrow> st
     | Some (i0, i1, pk) \<Rightarrow> \<lparr>bs_cur = None, bs_raw = bs_raw st @ [\<lparr>br_lap = li, br_s0 = fx_s (pts ! i0), br_s1 = fx_s (pts ! i1), br_peak = pk\<rparr>]\<rparr>)"

definition brake_step :: "nat \<Rightarrow> lap \<Rightarrow> nat \<Rightarrow> brake_scan \<Rightarrow> brake_scan" where
  "brake_step li L i st =
     (let b = lp_brkp L ! i in
      if b > 8 then st\<lparr>bs_cur := Some (case bs_cur st of None \<Rightarrow> (i, i, b) | Some (i0, i1, pk) \<Rightarrow> (i0, i, max pk b))\<rparr>
      else brake_close li (lp_pts L) st)"

definition brake_runs :: "nat \<Rightarrow> lap \<Rightarrow> brake_run list" where
  "brake_runs li L = bs_raw (brake_close li (lp_pts L)
     (fold (brake_step li L) [0..<length (lp_pts L)] \<lparr>bs_cur = None, bs_raw = []\<rparr>))"

type_synonym cluster = "rat \<times> brake_run list"

definition mean_of :: "rat list \<Rightarrow> rat" where
  "mean_of xs = sum_list xs / of_nat (length xs)"

definition join_cluster :: "cluster \<Rightarrow> brake_run \<Rightarrow> cluster" where
  "join_cluster c z = (let m = snd c @ [z] in (mean_of (map br_s0 m), m))"

fun cluster_add :: "(rat \<Rightarrow> rat \<Rightarrow> rat) \<Rightarrow> brake_run \<Rightarrow> cluster list \<Rightarrow> cluster list" where
  "cluster_add df z [] = [join_cluster (br_s0 z, []) z]"
| "cluster_add df z (c # cs) = (if df (fst c) (br_s0 z) < 14 then join_cluster c z # cs else c # cluster_add df z cs)"

definition place_dist :: "rat \<Rightarrow> bool \<Rightarrow> rat \<Rightarrow> rat \<Rightarrow> rat" where
  "place_dist RL opn a b = (if opn then \<bar>a - b\<bar> else circDist a b RL)"

definition brake_clusters :: "rat \<Rightarrow> bool \<Rightarrow> brake_run list \<Rightarrow> cluster list" where
  "brake_clusters RL opn raw = fold (cluster_add (place_dist RL opn)) (sort_key br_s0 raw) []"

record zone =
  zn_s0 :: rat
  zn_len :: rat
  zn_s1 :: rat
  zn_n :: nat
  zn_peak :: rat
  zn_name :: string

definition cluster_laps :: "cluster \<Rightarrow> nat" where
  "cluster_laps c = length (remdups (map br_lap (snd c)))"

definition cluster_zone :: "rat \<Rightarrow> bool \<Rightarrow> cluster \<Rightarrow> zone" where
  "cluster_zone RL opn c =
     (let m = snd c;
          s0 = med (map br_s0 m);
          e = med (map (\<lambda>r. if br_s1 r \<ge> br_s0 r then br_s1 r else br_s0 r) m);
          b0 = max e (s0 + 5);
          a = (if b0 - s0 < 6 then s0 - 3 else s0);
          b = (if b0 - s0 < 6 then s0 + 3 else b0);
          w = (if opn then max 0 a else wrap a RL)
      in \<lparr>zn_s0 = w, zn_len = b - a, zn_s1 = w + (b - a), zn_n = cluster_laps c, zn_peak = mean_of (map br_peak m), zn_name = []\<rparr>)"

definition laps_needed :: "nat \<Rightarrow> int" where
  "laps_needed n = max 3 \<lceil>of_nat n * (1 / 4 :: rat)\<rceil>"

definition name_zones :: "zone list \<Rightarrow> zone list" where
  "name_zones zs = map (\<lambda>i. (zs ! i)\<lparr>zn_name := ''B'' @ nat_text (i + 1)\<rparr>) [0..<length zs]"

definition all_brakes :: "lap list \<Rightarrow> brake_run list" where
  "all_brakes runs = concat (map (\<lambda>li. brake_runs li (runs ! li)) [0..<length runs])"

definition buildZones :: "lap list \<Rightarrow> rat \<Rightarrow> bool \<Rightarrow> zone list" where
  "buildZones runs RL opn =
     name_zones (sort_key zn_s0 (map (cluster_zone RL opn)
       (filter (\<lambda>c. int (cluster_laps c) \<ge> laps_needed (length runs)) (brake_clusters RL opn (all_brakes runs)))))"

definition zoneAt :: "zone list \<Rightarrow> rat \<Rightarrow> rat \<Rightarrow> bool \<Rightarrow> nat option" where
  "zoneAt zones RL s opn =
     (if opn then List.find (\<lambda>i. s \<ge> zn_s0 (zones ! i) - 3 \<and> s < zn_s0 (zones ! i) + zn_len (zones ! i) + 4) [0..<length zones]
      else let s = wrap s RL in
        List.find (\<lambda>i. let d = wrap (s - zn_s0 (zones ! i)) RL in d < zn_len (zones ! i) + 4 \<or> d > RL - 3) [0..<length zones])"

subsection \<open>A lap through a segment or a zone\<close>

definition pieces :: "rat \<Rightarrow> rat \<Rightarrow> rat \<Rightarrow> (rat \<times> rat) list" where
  "pieces a len RL = (let e = a + len in if e \<le> RL then [(a, e)] else [(a, RL), (0, e - RL)])"

record seg_stats =
  st_t :: jsnum
  st_entry :: jsnum
  st_exit :: jsnum
  st_min :: jsnum

definition piece_time :: "lap \<Rightarrow> jsnum \<Rightarrow> rat \<times> rat \<Rightarrow> jsnum" where
  "piece_time L t p = t + (timeAtU L (snd p) - timeAtU L (fst p))"

definition piece_min :: "lap \<Rightarrow> jsnum \<Rightarrow> rat \<times> rat \<Rightarrow> jsnum" where
  "piece_min L mn p =
     foldl (\<lambda>m i. if lap_u L ! i \<ge> fst p \<and> lap_u L ! i \<le> snd p then js_min m (num_at (lp_spd L) i) else m)
       (js_min (js_min mn (speedAtU L (fst p))) (speedAtU L (snd p))) [0..<length (lap_u L)]"

definition segStats :: "lap \<Rightarrow> seg \<Rightarrow> rat \<Rightarrow> seg_stats" where
  "segStats L g RL =
     (let ps = pieces (sg_a g) (sg_len g) RL in
      \<lparr>st_t = foldl (piece_time L) 0 ps, st_entry = speedAtU L (fst (hd ps)), st_exit = speedAtU L (snd (last ps)),
       st_min = foldl (piece_min L) (JFin 1000000000) ps\<rparr>)"

record zone_stats =
  zs_peak :: jsnum
  zs_entry :: jsnum
  zs_min :: jsnum
  zs_dec :: jsnum

definition zone_step :: "lap \<Rightarrow> zone \<Rightarrow> jsnum \<times> jsnum \<times> jsnum \<Rightarrow> nat \<Rightarrow> jsnum \<times> jsnum \<times> jsnum" where
  "zone_step L z st i =
     (let s = fx_s (lp_pts L ! i); peak = fst st; mn = fst (snd st); dec = snd (snd st);
          wide = s \<ge> zn_s0 z - 3 \<and> s \<le> zn_s0 z + zn_len z + 3
      in (if wide then js_max peak (num_at (lp_brkp L) i) else peak,
          if s \<ge> zn_s0 z \<and> s \<le> zn_s0 z + zn_len z + 12 then js_min mn (num_at (lp_spd L) i) else mn,
          if wide then js_min dec (num_at (lp_gacc L) i) else dec))"

definition zoneStats :: "lap \<Rightarrow> zone \<Rightarrow> zone_stats" where
  "zoneStats L z =
     (let st = foldl (zone_step L z) (0, JFin 1000000000, 0) [0..<length (lp_pts L)]; mn = fst (snd st) in
      \<lparr>zs_peak = fst st, zs_entry = speedAtU L (zn_s0 z),
       zs_min = (if mn > JFin 100000000 then speedAtU L (zn_s0 z + zn_len z) else mn), zs_dec = snd (snd st)\<rparr>)"

subsection \<open>What a zone stands for\<close>

definition brakes :: "lap \<Rightarrow> bool" where
  "brakes L \<longleftrightarrow> (\<exists>i < length (lp_pts L). lp_brkp L ! i > 8)"

definition scan_braking :: "nat \<Rightarrow> lap \<Rightarrow> brake_scan \<Rightarrow> bool" where
  "scan_braking li L st \<longleftrightarrow> (\<forall>r \<in> set (bs_raw st). br_lap r = li \<and> br_peak r > 8 \<and> brakes L)
     \<and> (\<forall>c. bs_cur st = Some c \<longrightarrow> snd (snd c) > 8 \<and> brakes L)"

lemma brake_close_braking: "scan_braking li L st \<Longrightarrow> scan_braking li L (brake_close li (lp_pts L) st)"
  by (auto simp: scan_braking_def brake_close_def split: option.splits)

lemma brake_step_braking:
  assumes "scan_braking li L st" "i < length (lp_pts L)"
  shows "scan_braking li L (brake_step li L i st)"
proof (cases "lp_brkp L ! i > 8")
  case True
  then have "brakes L" using assms(2) by (auto simp: brakes_def)
  then show ?thesis using True assms(1) by (auto simp: scan_braking_def brake_step_def Let_def split: option.splits)
next
  case False
  then show ?thesis using brake_close_braking [OF assms(1)] by (simp add: brake_step_def)
qed

lemma brake_runs_braking: "r \<in> set (brake_runs li L) \<Longrightarrow> br_lap r = li \<and> br_peak r > 8 \<and> brakes L"
proof -
  have "scan_braking li L (fold (brake_step li L) is st)" if "scan_braking li L st" "\<forall>i \<in> set is. i < length (lp_pts L)" for "is" st
    using that brake_step_braking by (induction "is" arbitrary: st) simp_all
  from this [of "\<lparr>bs_cur = None, bs_raw = []\<rparr>" "[0..<length (lp_pts L)]"]
  have "scan_braking li L (fold (brake_step li L) [0..<length (lp_pts L)] \<lparr>bs_cur = None, bs_raw = []\<rparr>)"
    by (simp add: scan_braking_def)
  from brake_close_braking [OF this] show "r \<in> set (brake_runs li L) \<Longrightarrow> br_lap r = li \<and> br_peak r > 8 \<and> brakes L"
    by (simp add: scan_braking_def brake_runs_def)
qed

lemma all_brakes_braking: "r \<in> set (all_brakes runs) \<Longrightarrow> br_lap r < length runs \<and> br_peak r > 8 \<and> brakes (runs ! br_lap r)"
  using brake_runs_braking by (fastforce simp: all_brakes_def)

lemma cluster_add_members: "concat (map snd (cluster_add df z cs)) \<noteq> []
    \<and> set (concat (map snd (cluster_add df z cs))) = insert z (set (concat (map snd cs)))
    \<and> ((\<forall>c \<in> set cs. snd c \<noteq> []) \<longrightarrow> (\<forall>c \<in> set (cluster_add df z cs). snd c \<noteq> []))"
  by (induction cs) (auto simp: join_cluster_def Let_def)

lemma clusters_members: "set (concat (map snd (brake_clusters RL opn raw))) = set raw"
    "c \<in> set (brake_clusters RL opn raw) \<Longrightarrow> snd c \<noteq> []"
proof -
  have f: "set (concat (map snd (fold (cluster_add d) zs cs))) = set zs \<union> set (concat (map snd cs))
    \<and> ((\<forall>c \<in> set cs. snd c \<noteq> []) \<longrightarrow> (\<forall>c \<in> set (fold (cluster_add d) zs cs). snd c \<noteq> []))" for d zs cs
  proof (induction zs arbitrary: cs)
    case (Cons z zs)
    show ?case using Cons.IH [of "cluster_add d z cs"] cluster_add_members [of d z cs] by simp
  qed simp
  then show "set (concat (map snd (brake_clusters RL opn raw))) = set raw" by (simp add: brake_clusters_def)
  show "c \<in> set (brake_clusters RL opn raw) \<Longrightarrow> snd c \<noteq> []"
    using f [of "place_dist RL opn" "sort_key br_s0 raw" "[]"] by (simp add: brake_clusters_def)
qed

lemma sum_list_above:
  fixes k :: rat
  shows "\<forall>x \<in> set xs. k < x \<Longrightarrow> xs \<noteq> [] \<Longrightarrow> k * of_nat (length xs) < sum_list xs"
proof (induction xs)
  case (Cons x xs)
  then show ?case by (cases "xs = []") (simp_all add: algebra_simps add_strict_mono)
qed simp

lemma mean_above: "\<forall>x \<in> set xs. k < x \<Longrightarrow> xs \<noteq> [] \<Longrightarrow> k < mean_of xs"
  using sum_list_above [of xs k] by (simp add: mean_of_def pos_less_divide_eq)

definition zone_sound :: "lap list \<Rightarrow> rat \<Rightarrow> bool \<Rightarrow> zone \<Rightarrow> bool" where
  "zone_sound runs RL opn z \<longleftrightarrow> 6 \<le> zn_len z \<and> zn_s1 z = zn_s0 z + zn_len z \<and> 0 \<le> zn_s0 z \<and> (\<not> opn \<longrightarrow> zn_s0 z < RL)
     \<and> 3 \<le> zn_n z \<and> length runs \<le> 4 * zn_n z \<and> zn_n z \<le> card {i. i < length runs \<and> brakes (runs ! i)} \<and> 8 < zn_peak z"

lemma cluster_zone_sound:
  assumes "0 < RL" "c \<in> set (brake_clusters RL opn (all_brakes runs))" "int (cluster_laps c) \<ge> laps_needed (length runs)"
  shows "zone_sound runs RL opn (cluster_zone RL opn c)"
proof -
  have m: "r \<in> set (snd c) \<Longrightarrow> br_lap r < length runs \<and> br_peak r > 8 \<and> brakes (runs ! br_lap r)" for r
    using clusters_members(1) [of RL opn "all_brakes runs"] assms(2) all_brakes_braking by auto
  have "8 < mean_of (map br_peak (snd c))" using m clusters_members(2) [OF assms(2)] by (intro mean_above) auto
  moreover have "cluster_laps c \<le> card {i. i < length runs \<and> brakes (runs ! i)}"
  proof -
    have "set (map br_lap (snd c)) \<subseteq> {i. i < length runs \<and> brakes (runs ! i)}" using m by auto
    then have "card (set (map br_lap (snd c))) \<le> card {i. i < length runs \<and> brakes (runs ! i)}" by (intro card_mono) simp_all
    then show ?thesis by (simp only: cluster_laps_def card_set [symmetric])
  qed
  moreover have "3 \<le> cluster_laps c" "length runs \<le> 4 * cluster_laps c"
  proof -
    show "3 \<le> cluster_laps c" using assms(3) by (simp add: laps_needed_def)
    have "\<lceil>of_nat (length runs) * (1 / 4 :: rat)\<rceil> \<le> int (cluster_laps c)" using assms(3) by (simp add: laps_needed_def)
    then have "of_nat (length runs) * (1 / 4 :: rat) \<le> of_nat (cluster_laps c)" by (simp add: ceiling_le_iff)
    then have "(of_nat (length runs) :: rat) \<le> of_nat (4 * cluster_laps c)" by simp
    then show "length runs \<le> 4 * cluster_laps c" by (simp only: of_nat_le_iff)
  qed
  ultimately show ?thesis
    using wrap_range [OF assms(1)] by (auto simp: zone_sound_def cluster_zone_def Let_def)
qed

lemma name_zones_keep: "map zn_s0 (name_zones zs) = map zn_s0 zs"
    "z \<in> set (name_zones zs) \<Longrightarrow> \<exists>y \<in> set zs. \<exists>n. z = y\<lparr>zn_name := n\<rparr>"
  by (auto simp: name_zones_def intro: nth_equalityI)

text \<open>C23: the braking zones of a run come in the order of the course and are numbered in that order; every one is at
  least six metres long, starts on the course, has more than 8% of the peak brake, and repeats on at least three laps and a
  quarter of them, each of which really brakes.\<close>

theorem zones_sound:
  assumes "0 < RL"
  shows "sorted (map zn_s0 (buildZones runs RL opn))
    \<and> map zn_name (buildZones runs RL opn) = map (\<lambda>i. ''B'' @ nat_text (i + 1)) [0..<length (buildZones runs RL opn)]
    \<and> (\<forall>z \<in> set (buildZones runs RL opn). zone_sound runs RL opn z)"
proof -
  define zs where "zs = sort_key zn_s0 (map (cluster_zone RL opn)
       (filter (\<lambda>c. int (cluster_laps c) \<ge> laps_needed (length runs)) (brake_clusters RL opn (all_brakes runs))))"
  have b: "buildZones runs RL opn = name_zones zs" by (simp add: buildZones_def zs_def)
  have "sorted (map zn_s0 zs)" by (simp add: zs_def)
  moreover have "z \<in> set zs \<Longrightarrow> zone_sound runs RL opn z" for z
    using cluster_zone_sound [OF assms] by (auto simp: zs_def)
  then have "z \<in> set (name_zones zs) \<Longrightarrow> zone_sound runs RL opn z" for z
    using name_zones_keep(2) [of z zs] by (auto simp: zone_sound_def)
  ultimately show ?thesis unfolding b by (simp add: name_zones_keep) (simp add: name_zones_def)
qed

subsection \<open>Zones across the start line\<close>

text \<open>A lap of the example: the fixes at the given distances with the given brake pressures.\<close>

definition braking_lap :: "rat list \<Rightarrow> rat list \<Rightarrow> lap" where
  "braking_lap ss bs =
     \<lparr>lp_name = [], lp_kind = KLap, lp_t0 = 0, lp_t1 = 0, lp_dur = 0, lp_sec = [],
      lp_pts = map (\<lambda>s. \<lparr>fx_x = 0, fx_y = 0, fx_spd = 0, fx_s = s, fx_dev = 0\<rparr>) ss,
      lp_dist = 0, lp_vmax = 0, lp_vavg = 0, lp_dev = 0, lp_wh = None, lp_whOut = None, lp_whIn = None,
      lp_ch = \<lparr>ch_t = [], ch_u = [], ch_cells = [], ch_of = (\<lambda>_. [])\<rparr>,
      lp_spd = [], lp_brkp = bs, lp_brkrp = [], lp_acc = [], lp_gacc = [], lp_cellCols = [], lp_cellAvg = [],
      lp_playback = [], lp_curve = []\<rparr>"

lemma floor_minus_one: "\<lfloor>- 1 :: rat\<rfloor> = - 1"
  by (simp add: floor_eq_iff)

definition four_laps :: "rat \<Rightarrow> rat \<Rightarrow> lap list" where
  "four_laps a b = braking_lap [a] [20] # replicate 3 (braking_lap [b] [20])"

lemmas zone_eval = buildZones_def all_brakes_def brake_runs_def brake_step_def brake_close_def four_laps_def braking_lap_def
  brake_clusters_def place_dist_def circDist_def rem_def join_cluster_def mean_of_def cluster_laps_def laps_needed_def
  cluster_zone_def med_def name_zones_def Let_def upt_rec ceiling_def floor_minus_one numeral_3_eq_3 js_simps

lemma mid_zone: "map zn_n (buildZones (four_laps 51 49) 400 False) = [4]"
  by (simp add: zone_eval)

text \<open>four laps that all brake within two metres of one point of a 400 m loop give one zone when the point is in the
  middle of the lap and none when it is the start line: the centre of a cluster is the plain mean of its distances, 200 m away
  from both 1 m and 399 m, so the braking of the next lap no longer joins it.\<close>

theorem zone_lost_at_line:
  "map zn_n (buildZones (four_laps 51 49) 400 False) = [4] \<and> buildZones (four_laps 1 399) 400 False = []"
  using mid_zone by (simp add: zone_eval)

lemma zones_sound_witness:
  "\<exists>z. buildZones (four_laps 51 49) 400 False = [z] \<and> zone_sound (four_laps 51 49) 400 False z"
proof -
  obtain z where z: "buildZones (four_laps 51 49) 400 False = [z]" using mid_zone by auto
  then show ?thesis using zones_sound [of 400 "four_laps 51 49" False] by simp
qed

subsection \<open>The times of the segments add up to the lap\<close>

definition u_time :: "lap \<Rightarrow> rat \<Rightarrow> rat" where
  "u_time L u = js_val (timeAtU L u)"

definition stretch :: "lap \<Rightarrow> rat \<Rightarrow> rat \<Rightarrow> rat \<Rightarrow> rat" where
  "stretch L a len RL = (if a + len \<le> RL then u_time L (a + len) - u_time L a
     else (u_time L RL - u_time L a) + (u_time L (a + len - RL) - u_time L 0))"

lemma timeAtU_fin: "lap_u L \<noteq> [] \<Longrightarrow> length (lap_t L) = length (lap_u L) \<Longrightarrow> timeAtU L u = JFin (u_time L u)"
  unfolding timeAtU_def u_time_def by (rule interp_finite)

lemma segStats_time:
  assumes "lap_u L \<noteq> []" "length (lap_t L) = length (lap_u L)"
  shows "st_t (segStats L g RL) = JFin (stretch L (sg_a g) (sg_len g) RL)"
  using timeAtU_fin [OF assms] by (simp add: segStats_def pieces_def piece_time_def stretch_def Let_def zero_jsnum_def)

text \<open>The time at a step of the course, laps after the first added on.\<close>

definition step_time :: "lap \<Rightarrow> rat \<Rightarrow> nat \<Rightarrow> int \<Rightarrow> rat" where
  "step_time L step n k = u_time L (of_int (k mod int n) * step)
     + of_int (k div int n) * (u_time L (of_nat n * step) - u_time L 0)"

lemma stretch_step:
  assumes "0 < step" "0 < n" "pc_k0 p < pc_k1 p" "pc_k1 p \<le> pc_k0 p + int n"
  shows "stretch L (sg_a (piece_seg step n i0 p)) (sg_len (piece_seg step n i0 p)) (of_nat n * step)
    = step_time L step n (int i0 + pc_k1 p) - step_time L step n (int i0 + pc_k0 p)"
proof -
  define A d where "A = int i0 + pc_k0 p" and "d = pc_k1 p - pc_k0 p"
  define q r where "q = A div int n" and "r = A mod int n"
  have B: "int i0 + pc_k1 p = A + d" by (simp add: A_def d_def)
  have d: "0 < d" "d \<le> int n" using assms(3,4) by (simp_all add: d_def)
  have r: "0 \<le> r" "r < int n" "A = q * int n + r" using assms(2) by (simp_all add: q_def r_def)
  have end_: "of_int r * step + of_int d * step = of_int (r + d) * step" by (simp add: algebra_simps)
  have le: "of_int (r + d) * step \<le> of_nat n * step \<longleftrightarrow> r + d \<le> int n"
    using assms(1) of_int_le_iff [of "r + d" "int n", where ?'a = rat] by simp
  have a: "stretch L (sg_a (piece_seg step n i0 p)) (sg_len (piece_seg step n i0 p)) (of_nat n * step)
      = (if r + d \<le> int n then u_time L (of_int (r + d) * step) - u_time L (of_int r * step)
         else (u_time L (of_nat n * step) - u_time L (of_int r * step)) + (u_time L (of_int (r + d - int n) * step) - u_time L 0))"
    unfolding stretch_def piece_seg_def seg.simps A_def [symmetric] d_def [symmetric] r_def [symmetric] end_ le
    by (simp add: algebra_simps)
  consider "r + d < int n" | "r + d = int n" | "int n < r + d" by linarith
  then show ?thesis
  proof cases
    case 1
    have "(A + d) div int n = q" "(A + d) mod int n = r + d"
      using 1 r d by (simp_all add: add.assoc)
    then show ?thesis using 1 unfolding a B A_def [symmetric] by (simp add: step_time_def q_def [symmetric] r_def [symmetric])
  next
    case 2
    have "A + d = (q + 1) * int n" using 2 r(3) by (simp add: algebra_simps)
    then have "(A + d) div int n = q + 1" "(A + d) mod int n = 0" using assms(2) by simp_all
    then show ?thesis using 2 unfolding a B A_def [symmetric]
      by (simp add: step_time_def q_def [symmetric] r_def [symmetric] algebra_simps)
  next
    case 3
    have e: "A + d = (r + d - int n) + (q + 1) * int n" using r(3) by (simp add: algebra_simps)
    have s: "0 \<le> r + d - int n" "r + d - int n < int n" using 3 r(2) d(2) by linarith+
    have "A + d = int n * (q + 1) + (r + d - int n)" using e by (simp add: algebra_simps)
    then have "(A + d) div int n = q + 1" "(A + d) mod int n = r + d - int n"
      using int_div_pos_eq int_mod_pos_eq s by blast+
    then have "step_time L step n (A + d) = u_time L (of_int (r + d - int n) * step)
        + of_int (q + 1) * (u_time L (of_nat n * step) - u_time L 0)" by (simp only: step_time_def)
    moreover have "step_time L step n A = u_time L (of_int r * step) + of_int q * (u_time L (of_nat n * step) - u_time L 0)"
      by (simp only: step_time_def q_def r_def)
    ultimately show ?thesis using 3 unfolding a B A_def [symmetric] by (simp add: distrib_right)
  qed
qed

lemma chain_telescopes: "chain a ps b \<Longrightarrow> sum_list (map (\<lambda>p. F (pc_k1 p) - F (pc_k0 p)) ps) = F b - (F a :: rat)"
  by (induction ps arbitrary: a) auto

lemma name_segs_sum: "sum_list (map (\<lambda>g. F (sg_a g) (sg_len g)) (name_segs nc ns segs)) = sum_list (map (\<lambda>g. F (sg_a g) (sg_len g)) segs)"
  by (induction nc ns segs rule: name_segs.induct) simp_all

lemma from_line_sum: "sum_list (map F (from_line RL segs)) = (sum_list (map F segs) :: rat)"
proof -
  obtain k where "from_line RL segs = drop k segs @ take k segs" using from_line_rotates by blast
  moreover have "sum_list (map F (take k segs @ drop k segs)) = sum_list (map F segs)" by simp
  ultimately show ?thesis by (simp del: append_take_drop_id add: add.commute)
qed

lemma stretches_sum:
  assumes "0 < RL" "rates \<noteq> []" "corners (rotated rates) = [] \<or> ss_best (longest_straight rates) \<ge> 3"
  shows "sum_list (map (\<lambda>g. stretch L (sg_a g) (sg_len g) RL) (closed_segments RL rates)) = u_time L RL - u_time L 0"
proof (cases "corners (rotated rates) = []")
  case True
  then show ?thesis by (simp add: closed_segments_def Let_def stretch_def)
next
  case False
  define n where "n = length rates"
  define step where "step = RL / of_nat n"
  define i0 where "i0 = ss_i0 (longest_straight rates)"
  define ps where "ps = loop_pieces (int n) (corners (rotated rates))"
  define K where "K = cr_s (hd (corners (rotated rates)))"
  have n: "0 < n" using assms(2) by (simp add: n_def)
  have step: "0 < step" "of_nat n * step = RL" using n assms(1) by (simp_all add: step_def)
  have ch: "chain K ps (K + int n)" using loop_chain [OF False] False assms(3) by (simp add: ps_def n_def K_def)
  have fixed: "fix_total RL (map (piece_seg step n i0) ps) = map (piece_seg step n i0) ps"
    using chain_seg_total [OF ch, of step i0] step(2) by (simp add: fix_total_def)
  have eq: "closed_segments RL rates = name_segs 0 0 (from_line RL (map (piece_seg step n i0) ps))"
    using False fixed by (simp add: closed_segments_def Let_def ps_def step_def n_def i0_def)
  have "stretch L (sg_a (piece_seg step n i0 p)) (sg_len (piece_seg step n i0 p)) RL
      = step_time L step n (int i0 + pc_k1 p) - step_time L step n (int i0 + pc_k0 p)" if "p \<in> set ps" for p
    using stretch_step [OF step(1) n] chain_bounds [OF ch that] step(2) by force
  then have "sum_list (map (\<lambda>p. stretch L (sg_a (piece_seg step n i0 p)) (sg_len (piece_seg step n i0 p)) RL) ps)
      = sum_list (map (\<lambda>p. step_time L step n (int i0 + pc_k1 p) - step_time L step n (int i0 + pc_k0 p)) ps)"
    by (intro arg_cong [where f = sum_list] map_cong) simp_all
  also have "\<dots> = step_time L step n (int i0 + (K + int n)) - step_time L step n (int i0 + K)"
    by (rule chain_telescopes [OF ch, of "\<lambda>k. step_time L step n (int i0 + k)"])
  also have "\<dots> = u_time L RL - u_time L 0"
  proof -
    have "(int i0 + (K + int n)) div int n = (int i0 + K) div int n + 1" "(int i0 + (K + int n)) mod int n = (int i0 + K) mod int n"
      using n by (simp_all add: add.assoc [symmetric])
    then show ?thesis using step(2) by (simp add: step_time_def algebra_simps)
  qed
  finally show ?thesis
    unfolding eq name_segs_sum [where F = "\<lambda>a l. stretch L a l RL"] from_line_sum by (simp add: o_def)
qed

lemma name_segs_places: "(\<lambda>g. (sg_a g, sg_len g)) ` set (name_segs nc ns segs) = (\<lambda>g. (sg_a g, sg_len g)) ` set segs"
  using name_segs_place [of nc ns segs] by (metis list.set_map)

lemma from_line_set: "set (from_line RL segs) = set segs"
proof -
  obtain k where "from_line RL segs = drop k segs @ take k segs" using from_line_rotates by blast
  then have "set (from_line RL segs) = set (take k segs @ drop k segs)" by (simp only: set_append Un_commute)
  then show ?thesis by simp
qed

lemma closed_segment_place:
  assumes "0 < RL" "rates \<noteq> []" "corners (rotated rates) = [] \<or> ss_best (longest_straight rates) \<ge> 3"
    "g \<in> set (closed_segments RL rates)"
  shows "0 \<le> sg_a g \<and> sg_a g \<le> RL \<and> 0 \<le> sg_len g"
proof (cases "corners (rotated rates) = []")
  case True
  then show ?thesis using assms(1,4) by (simp add: closed_segments_def Let_def)
next
  case False
  define n where "n = length rates"
  define step where "step = RL / of_nat n"
  define i0 where "i0 = ss_i0 (longest_straight rates)"
  define ps where "ps = loop_pieces (int n) (corners (rotated rates))"
  define K where "K = cr_s (hd (corners (rotated rates)))"
  have n: "0 < n" using assms(2) by (simp add: n_def)
  have step: "0 < step" "of_nat n * step = RL" using n assms(1) by (simp_all add: step_def)
  have ch: "chain K ps (K + int n)" using loop_chain [OF False] False assms(3) by (simp add: ps_def n_def K_def)
  have fixed: "fix_total RL (map (piece_seg step n i0) ps) = map (piece_seg step n i0) ps"
    using chain_seg_total [OF ch, of step i0] step(2) by (simp add: fix_total_def)
  have "closed_segments RL rates = name_segs 0 0 (from_line RL (map (piece_seg step n i0) ps))"
    using False fixed by (simp add: closed_segments_def Let_def ps_def step_def n_def i0_def)
  then have "(sg_a g, sg_len g) \<in> (\<lambda>g. (sg_a g, sg_len g)) ` set (name_segs 0 0 (from_line RL (map (piece_seg step n i0) ps)))"
    using assms(4) by (intro image_eqI [where x = g]) simp_all
  then have "(sg_a g, sg_len g) \<in> (\<lambda>g. (sg_a g, sg_len g)) ` set (map (piece_seg step n i0) ps)"
    unfolding name_segs_places from_line_set .
  then obtain p where p: "p \<in> set ps" "sg_a g = sg_a (piece_seg step n i0 p)" "sg_len g = sg_len (piece_seg step n i0 p)" by auto
  have "(int i0 + pc_k0 p) mod int n \<le> int n" using n by (simp add: less_imp_le)
  then have "of_int ((int i0 + pc_k0 p) mod int n) \<le> (of_int (int n) :: rat)" by (simp only: of_int_le_iff)
  then have "of_int ((int i0 + pc_k0 p) mod int n) * step \<le> of_int (int n) * step" using step(1) by (intro mult_right_mono) simp_all
  moreover have "0 \<le> of_int ((int i0 + pc_k0 p) mod int n) * step" using n step(1) by simp
  moreover have "of_int (pc_k0 p) \<le> (of_int (pc_k1 p) :: rat)" using chain_bounds [OF ch p(1)] by simp
  ultimately show ?thesis using step p(2,3) by (simp add: piece_seg_def)
qed

lemma stretch_nonneg:
  assumes "lap_u L \<noteq> []" "length (lap_t L) = length (lap_u L)" "sorted (lap_u L)" "sorted (lap_t L)"
    "0 \<le> a" "a \<le> RL" "0 \<le> len"
  shows "0 \<le> stretch L a len RL"
proof -
  have mono: "x \<le> y \<Longrightarrow> u_time L x \<le> u_time L y" for x y
    using interp_mono [OF assms(1-4)] by (simp add: u_time_def timeAtU_def)
  show ?thesis
    using mono [of a "a + len"] mono [of a RL] mono [of 0 "a + len - RL"] assms(5-7) by (simp add: stretch_def)
qed


definition plain_lap :: "rat list \<Rightarrow> rat list \<Rightarrow> lap" where
  "plain_lap ts us = (braking_lap [] [])\<lparr>lp_ch := \<lparr>ch_t = ts, ch_u = us, ch_cells = [], ch_of = (\<lambda>_. [])\<rparr>\<rparr>"


end
