(* ===== verification/DriveSession.thy ===== *)
theory DriveSession
  imports DriveZones
begin

text \<open>
  An opened run, \<^verbatim>\<open>viewer_tool/src/lib/driveday/session.ts\<close> and \<^verbatim>\<open>comparison.ts\<close>: the channels that are worked out when it
  opens, its laps in time order, the gates of its sectors and the laps of another run of the same route.

  The session refers to its laps by identity (\<^verbatim>\<open>laps.indexOf\<close>); here a lap is its position in the list. The figures of the
  constructor that only scale the drawing, and the lateral g of a fix (\<^verbatim>\<open>Math.hypot\<close>), are left out.
\<close>

subsection \<open>The data of a run\<close>

record run_meta =
  rm_cellIdx :: "nat list"
  rm_sessId :: string
  rm_cutoff :: rat
  rm_planLaps :: rat
  rm_planKwh :: rat
  rm_name :: string
  rm_driver :: string
  rm_venue :: string
  rm_event :: string
  rm_trackId :: string
  rm_trackName :: string

record cone_event =
  ce_id :: string
  ce_t :: rat

record quality =
  q_sampleTimes :: "rat list"
  q_gpsTimes :: "rat list"
  q_positionUpdateTimes :: "rat list"
  q_interpolatedTimes :: "rat list"

record run_data =
  rd_quality :: "quality option"
  rd_coneEvents :: "cone_event list"
  rd_ref :: "(rat \<times> rat) list"
  rd_cum :: "rat list"
  rd_RL :: rat
  rd_open :: bool
  rd_laps :: "raw_lap list"
  rd_meta :: run_meta
  rd_warnings :: "string list"

subsection \<open>Opening a run\<close>

definition maxOf :: "rat list list \<Rightarrow> rat \<Rightarrow> rat" where
  "maxOf a f = foldl (foldl (\<lambda>m v. if v > m then v else m)) f a"

definition MPH :: rat where "MPH = 223694 / 100000"

definition lap_acc :: "rat list \<Rightarrow> rat list \<Rightarrow> rat list" where
  "lap_acc ts spd = map (\<lambda>i.
     let a = max (hd ts) (ts ! i - 250); b = min (last ts) (ts ! i + 250) in
     if b > a then (js_val (interp ts spd b) - js_val (interp ts spd a)) / ((b - a) / 1000) else 0) [0..<length spd]"

definition playback_pts :: "rat list \<Rightarrow> gps_fix list \<Rightarrow> gps_fix list" where
  "playback_pts ts pts =
     (let xs = timeAverage ts (map fx_x pts) 250; ys = timeAverage ts (map fx_y pts) 250 in
      map (\<lambda>i. if i = 0 \<or> i = length pts - 1 then pts ! i else (pts ! i)\<lparr>fx_x := xs ! i, fx_y := ys ! i\<rparr>) [0..<length pts])"

definition prepareLap :: "raw_lap \<Rightarrow> rat \<Rightarrow> rat \<Rightarrow> lap" where
  "prepareLap raw brkMax brkrMax =
     (let c = lp_ch raw; ts = ch_t c;
          spdMs = timeAverage ts (map fx_spd (lp_pts raw)) 250;
          smoothAcc = timeAverage ts (lap_acc ts spdMs) 250;
          play = playback_pts ts (lp_pts raw);
          cols = (case ch_cells c of [] \<Rightarrow> [] | r # rs \<Rightarrow> map (\<lambda>j. map (\<lambda>row. row ! j) (r # rs)) [0..<length r])
      in raw_lap.extend raw
           (lap.fields (map (\<lambda>v. v * MPH) spdMs) (map (\<lambda>v. v / brkMax * 100) (ch_of c Brk)) (map (\<lambda>v. v / brkrMax * 100) (ch_of c Brkr))
             smoothAcc (map (\<lambda>a. a / (980665 / 100000)) smoothAcc) cols
             (map (\<lambda>r. if r \<noteq> [] then mean_of r else 0) (ch_cells c)) play (curveOf play)))"

record session =
  se_data :: run_data
  se_RL :: rat
  se_open :: bool
  se_laps :: "lap list"
  se_runs :: "nat list"
  se_TLAPS :: "nat list"
  se_T0 :: rat
  se_TD :: rat
  se_brkMax :: rat
  se_brkrMax :: rat
  se_segs :: "seg list"
  se_zones :: "zone list"
  se_gates :: "rat \<times> rat"

definition lap_at :: "session \<Rightarrow> nat \<Rightarrow> lap" where
  "lap_at s i = se_laps s ! i"

definition run_laps :: "session \<Rightarrow> lap list" where
  "run_laps s = map (lap_at s) (se_runs s)"

definition setGates :: "jsnum list \<Rightarrow> session \<Rightarrow> bool \<times> session" where
  "setGates gates s =
     (if \<not> validGates gates (se_RL s) then (False, s)
      else let g = (js_val (gates ! 0), js_val (gates ! 1)) in
        (True, s\<lparr>se_gates := g,
           se_laps := map (\<lambda>L. L\<lparr>lp_sec := sectorTimes (lap_u L) (lap_t L) (lp_dur L) (lp_kind L) g\<rparr>) (se_laps s)\<rparr>))"

text \<open>The first of the quickest laps of a list of positions.\<close>

definition quickest :: "lap list \<Rightarrow> nat list \<Rightarrow> nat" where
  "quickest laps is = foldl (\<lambda>a b. if lp_dur (laps ! b) < lp_dur (laps ! a) then b else a) (hd is) (tl is)"

definition open_laps :: "run_data \<Rightarrow> lap list" where
  "open_laps D =
     (let brkMax = maxOf (map (\<lambda>l. ch_of (lp_ch l) Brk) (rd_laps D)) 1;
          brkrMax = maxOf (map (\<lambda>l. ch_of (lp_ch l) Brkr) (rd_laps D)) 1
      in map (\<lambda>l. prepareLap l brkMax brkrMax) (rd_laps D))"

definition timed :: "lap list \<Rightarrow> nat list" where
  "timed laps = filter (\<lambda>i. lp_kind (laps ! i) = KLap) [0..<length laps]"

definition in_time :: "lap list \<Rightarrow> nat list" where
  "in_time laps = sort_key (\<lambda>i. lp_t0 (laps ! i)) [0..<length laps]"

text \<open>A run without a timed lap does not open: \<^verbatim>\<open>reduce\<close> of an empty list raises.\<close>

definition open_session :: "run_data \<Rightarrow> rat list \<Rightarrow> session option" where
  "open_session D rates =
     (let laps = open_laps D; runs = timed laps; TL = in_time laps; T0 = lp_t0 (laps ! hd TL);
          segs = buildSegments (rd_RL D) (rd_open D) rates;
          zones = buildZones (map (\<lambda>i. laps ! i) runs) (rd_RL D) (rd_open D);
          gates = suggestGates (laps ! quickest laps runs) segs (rd_RL D)
      in if runs = [] then None
         else Some (snd (setGates gates
           \<lparr>se_data = D, se_RL = rd_RL D, se_open = rd_open D, se_laps = laps, se_runs = runs, se_TLAPS = TL,
            se_T0 = T0, se_TD = lp_t1 (laps ! last TL) - T0,
            se_brkMax = maxOf (map (\<lambda>l. ch_of (lp_ch l) Brk) (rd_laps D)) 1,
            se_brkrMax = maxOf (map (\<lambda>l. ch_of (lp_ch l) Brkr) (rd_laps D)) 1,
            se_segs = segs, se_zones = zones, se_gates = (js_val (gates ! 0), js_val (gates ! 1))\<rparr>)))"

definition sectorAt :: "session \<Rightarrow> rat \<Rightarrow> nat" where
  "sectorAt s distance = (if distance < fst (se_gates s) then 0 else if distance < snd (se_gates s) then 1 else 2)"

text \<open>The lap of a moment of the session clock: the first, in time order, that has not ended, or the last.\<close>

definition lapIndexAt :: "session \<Rightarrow> rat \<Rightarrow> nat" where
  "lapIndexAt s T =
     (case List.find (\<lambda>i. se_T0 s + T < lp_t1 (lap_at s i)) (se_TLAPS s) of Some i \<Rightarrow> i | None \<Rightarrow> last (se_TLAPS s))"

definition lapNo :: "nat \<Rightarrow> nat" where
  "lapNo i = i + 1"

text \<open>\<^verbatim>\<open>String.replace\<close> of a text takes its first occurrence.\<close>

fun replace_first :: "string \<Rightarrow> string \<Rightarrow> string \<Rightarrow> string" where
  "replace_first p r [] = (if p = [] then r else [])"
| "replace_first p r (c # s) = (if starts_with p (c # s) then r @ drop (length p) (c # s) else c # replace_first p r s)"

definition lap_label :: "lap \<Rightarrow> string" where
  "lap_label l = (if lp_kind l = KOut then ''Out lap''
     else if lp_kind l = KPartial then replace_first '' (in progress)'' [] (lp_name l) else lp_name l)"

subsection \<open>Another run of the same route\<close>

definition sameRoute :: "run_data \<Rightarrow> run_data \<Rightarrow> bool" where
  "sameRoute a b \<longleftrightarrow> rm_trackId (rd_meta a) \<noteq> [] \<and> rm_trackId (rd_meta a) = rm_trackId (rd_meta b) \<and> rd_open a = rd_open b
     \<and> \<bar>rd_RL a - rd_RL b\<bar> \<le> max 2 (rd_RL a * (2 / 100))"

datatype compare_error = Other_route | Not_completed

text \<open>The name joins driver and lap with a middle dot, two bytes of UTF-8.\<close>

definition comparisonLap :: "session \<Rightarrow> run_data \<Rightarrow> nat \<Rightarrow> compare_error + lap" where
  "comparisonLap s other index =
     (if \<not> sameRoute (se_data s) other then Inl Other_route
      else if index \<ge> length (rd_laps other) \<or> lp_kind (rd_laps other ! index) \<noteq> KLap then Inl Not_completed
      else let raw = rd_laps other ! index; lap = prepareLap raw (se_brkMax s) (se_brkrMax s);
               who = (if rm_driver (rd_meta other) \<noteq> [] then rm_driver (rd_meta other)
                      else if rm_name (rd_meta other) \<noteq> [] then rm_name (rd_meta other) else ''Other run'')
           in Inr (lap\<lparr>lp_name := who @ '' '' @ [CHR 0xC2, CHR 0xB7] @ '' '' @ lp_name raw,
                lp_sec := sectorTimes (lap_u lap) (lap_t lap) (lp_dur lap) (lp_kind lap) (se_gates s)\<rparr>))"

subsection \<open>What an open session keeps\<close>

definition laps_ok :: "session \<Rightarrow> bool" where
  "laps_ok s \<longleftrightarrow> se_runs s \<noteq> [] \<and> se_runs s = filter (\<lambda>i. lp_kind (se_laps s ! i) = KLap) [0..<length (se_laps s)]
     \<and> distinct (se_TLAPS s) \<and> set (se_TLAPS s) = {0..<length (se_laps s)}
     \<and> sorted (map (\<lambda>i. lp_t0 (se_laps s ! i)) (se_TLAPS s))"

definition session_ok :: "session \<Rightarrow> bool" where
  "session_ok s \<longleftrightarrow> laps_ok s \<and> 0 < fst (se_gates s) \<and> fst (se_gates s) < snd (se_gates s) \<and> snd (se_gates s) < se_RL s
     \<and> (\<forall>L \<in> set (se_laps s). lp_sec L = sectorTimes (lap_u L) (lap_t L) (lp_dur L) (lp_kind L) (se_gates s))"

lemma validGates_pair:
  assumes "validGates g len"
  shows "g = [JFin (js_val (g ! 0)), JFin (js_val (g ! 1))] \<and> 0 < js_val (g ! 0) \<and> js_val (g ! 0) < js_val (g ! 1) \<and> js_val (g ! 1) < len"
proof -
  obtain a b where g: "g = [a, b]" using assms by (auto simp: validGates_def length_Suc_conv numeral_2_eq_2)
  then obtain x y where "a = JFin x" "b = JFin y" using assms by (auto simp: validGates_def js_finite_iff)
  then show ?thesis using assms g by (simp add: validGates_def zero_jsnum_def)
qed

lemma setGates_fields:
  "se_RL (snd (setGates g s)) = se_RL s" "se_runs (snd (setGates g s)) = se_runs s" "se_TLAPS (snd (setGates g s)) = se_TLAPS s"
  "se_T0 (snd (setGates g s)) = se_T0 s" "se_TD (snd (setGates g s)) = se_TD s" "se_segs (snd (setGates g s)) = se_segs s"
  "length (se_laps (snd (setGates g s))) = length (se_laps s)" "se_data (snd (setGates g s)) = se_data s"
  by (simp_all add: setGates_def Let_def)

lemma setGates_lap:
  "i < length (se_laps s) \<Longrightarrow> \<exists>x. se_laps (snd (setGates g s)) ! i = (se_laps s ! i)\<lparr>lp_sec := x\<rparr>"
proof (cases "validGates g (se_RL s)")
  case False
  then show ?thesis by (intro exI [of _ "lp_sec (se_laps s ! i)"]) (simp add: setGates_def)
qed (auto simp: setGates_def Let_def)

lemma filter_upt_cong: "(\<And>i. i < n \<Longrightarrow> P i = Q i) \<Longrightarrow> filter P [0..<n] = filter Q [0..<n]"
  by (rule filter_cong) simp_all

lemma session_ok_laps: "session_ok s \<Longrightarrow> laps_ok s"
  by (simp add: session_ok_def)

lemma setGates_laps_ok:
  assumes "laps_ok s"
  shows "laps_ok (snd (setGates g s))"
proof -
  let ?s = "snd (setGates g s)"
  have same: "lp_kind (se_laps ?s ! i) = lp_kind (se_laps s ! i)" "lp_t0 (se_laps ?s ! i) = lp_t0 (se_laps s ! i)"
    if "i < length (se_laps s)" for i
    using setGates_lap [OF that, of g] by auto
  have "set (se_TLAPS s) = {0..<length (se_laps s)}" using assms by (simp add: laps_ok_def)
  then have "map (\<lambda>i. lp_t0 (se_laps ?s ! i)) (se_TLAPS s) = map (\<lambda>i. lp_t0 (se_laps s ! i)) (se_TLAPS s)"
    using same(2) by (intro map_cong) simp_all
  moreover have "filter (\<lambda>i. lp_kind (se_laps ?s ! i) = KLap) [0..<length (se_laps s)]
      = filter (\<lambda>i. lp_kind (se_laps s ! i) = KLap) [0..<length (se_laps s)]"
    using same(1) by (intro filter_upt_cong) simp
  ultimately show ?thesis using assms unfolding laps_ok_def setGates_fields by metis
qed

lemma setGates_ok:
  assumes "laps_ok s" "validGates g (se_RL s)"
  shows "fst (setGates g s) \<and> session_ok (snd (setGates g s))"
proof -
  have "laps_ok (snd (setGates g s))" by (rule setGates_laps_ok [OF assms(1)])
  moreover have "fst (setGates g s)" using assms(2) by (simp add: setGates_def Let_def)
  moreover have "se_gates (snd (setGates g s)) = (js_val (g ! 0), js_val (g ! 1))"
      "\<forall>L \<in> set (se_laps (snd (setGates g s))).
         lp_sec L = sectorTimes (lap_u L) (lap_t L) (lp_dur L) (lp_kind L) (js_val (g ! 0), js_val (g ! 1))"
    using assms(2) by (auto simp: setGates_def Let_def)
  ultimately show ?thesis using validGates_pair [OF assms(2)] by (simp add: session_ok_def setGates_fields)
qed

lemma open_session_Some:
  assumes "open_session D rates = Some s"
  shows "\<exists>s0 g0. s = snd (setGates g0 s0) \<and> se_RL s0 = rd_RL D \<and> se_laps s0 = open_laps D \<and> se_runs s0 = timed (open_laps D)
    \<and> se_TLAPS s0 = in_time (open_laps D) \<and> timed (open_laps D) \<noteq> []
    \<and> g0 = suggestGates (open_laps D ! quickest (open_laps D) (timed (open_laps D))) (buildSegments (rd_RL D) (rd_open D) rates) (rd_RL D)
    \<and> se_T0 s0 = lp_t0 (open_laps D ! hd (in_time (open_laps D)))
    \<and> se_TD s0 = lp_t1 (open_laps D ! last (in_time (open_laps D))) - se_T0 s0"
  using assms by (auto simp: open_session_def Let_def split: if_splits)

lemma session_gates_ok:
  assumes "0 < rd_RL D" "open_session D rates = Some s"
  shows "session_ok s"
proof -
  from open_session_Some [OF assms(2)] obtain s0 g0 where s0: "s = snd (setGates g0 s0)" "se_RL s0 = rd_RL D"
    "se_laps s0 = open_laps D" "se_runs s0 = timed (open_laps D)" "se_TLAPS s0 = in_time (open_laps D)" "timed (open_laps D) \<noteq> []"
    "g0 = suggestGates (open_laps D ! quickest (open_laps D) (timed (open_laps D))) (buildSegments (rd_RL D) (rd_open D) rates) (rd_RL D)"
    by blast
  have "laps_ok s0" using s0(6) by (simp add: laps_ok_def s0(3-5)) (simp add: timed_def in_time_def)
  moreover have "validGates g0 (se_RL s0)" using interp_third [OF assms(1)] by (simp add: s0(2,7) suggestGates_def Let_def)
  ultimately show ?thesis using setGates_ok s0(1) by blast
qed

text \<open>a run that opens has at least one timed lap, its laps in time order, and gates in order inside the course by which
  every lap, timed or not, is split; gates that are out of order or off the course are refused and change nothing, and
  all others leave the session in the same good order.\<close>

theorem session_gates_sound:
  assumes "0 < rd_RL D" "open_session D rates = Some s"
  shows "session_ok s \<and> (session_ok s' \<longrightarrow> session_ok (snd (setGates g s')))
    \<and> (\<not> validGates g (se_RL s') \<longrightarrow> setGates g s' = (False, s'))"
proof -
  have ok: "session_ok s" by (rule session_gates_ok [OF assms])
  have "session_ok (snd (setGates g s'))" if "session_ok s'"
    using that setGates_ok [OF session_ok_laps [OF that]] by (cases "validGates g (se_RL s')") (simp_all add: setGates_def)
  then show ?thesis using ok by (simp add: setGates_def)
qed

subsection \<open>The lap of a moment\<close>

text \<open>The laps follow each other without a gap.\<close>

definition seamless :: "session \<Rightarrow> bool" where
  "seamless s \<longleftrightarrow> se_TLAPS s \<noteq> [] \<and> se_T0 s = lp_t0 (lap_at s (hd (se_TLAPS s)))
     \<and> se_TD s = lp_t1 (lap_at s (last (se_TLAPS s))) - se_T0 s
     \<and> (\<forall>i. Suc i < length (se_TLAPS s) \<longrightarrow> lp_t1 (lap_at s (se_TLAPS s ! i)) = lp_t0 (lap_at s (se_TLAPS s ! Suc i)))"

text \<open>when the laps follow each other without a gap, every moment before the end of the run falls in the lap that
  \<open>lapIndexAt\<close> names: it has begun and has not ended. The end of the run itself belongs to the last lap.\<close>

theorem lapIndexAt_contains:
  assumes "seamless s" "0 \<le> T"
  shows "T < se_TD s \<longrightarrow> lp_t0 (lap_at s (lapIndexAt s T)) \<le> se_T0 s + T \<and> se_T0 s + T < lp_t1 (lap_at s (lapIndexAt s T))"
proof
  let ?ends = "\<lambda>i. se_T0 s + T < lp_t1 (lap_at s i)"
  assume "T < se_TD s"
  then have "?ends (last (se_TLAPS s))" using assms(1) by (simp add: seamless_def)
  then have "\<exists>i \<in> set (se_TLAPS s). ?ends i" using assms(1) last_in_set by (auto simp: seamless_def)
  then obtain x where x: "List.find ?ends (se_TLAPS s) = Some x" by (cases "List.find ?ends (se_TLAPS s)") (auto simp: find_None_iff)
  then obtain k where k: "k < length (se_TLAPS s)" "x = se_TLAPS s ! k" "?ends x" "\<forall>j < k. \<not> ?ends (se_TLAPS s ! j)"
    by (auto simp: find_Some_iff)
  have "lp_t0 (lap_at s x) \<le> se_T0 s + T"
  proof (cases k)
    case 0
    then have "lp_t0 (lap_at s x) = se_T0 s" using k(1,2) assms(1) by (simp add: seamless_def hd_conv_nth)
    then show ?thesis using assms(2) by simp
  next
    case (Suc j)
    then have "lp_t1 (lap_at s (se_TLAPS s ! j)) = lp_t0 (lap_at s x)" using k(1,2) assms(1) by (simp add: seamless_def)
    moreover have "\<not> ?ends (se_TLAPS s ! j)" using k(4) Suc by simp
    ultimately show ?thesis by simp
  qed
  then show "lp_t0 (lap_at s (lapIndexAt s T)) \<le> se_T0 s + T \<and> se_T0 s + T < lp_t1 (lap_at s (lapIndexAt s T))"
    using x k(3) by (simp add: lapIndexAt_def)
qed

subsection \<open>A small run\<close>

lemma prepareLap_raw:
  "lp_kind (prepareLap raw a b) = lp_kind raw" "lp_t0 (prepareLap raw a b) = lp_t0 raw" "lp_t1 (prepareLap raw a b) = lp_t1 raw"
  "lp_dur (prepareLap raw a b) = lp_dur raw" "lp_pts (prepareLap raw a b) = lp_pts raw" "lp_ch (prepareLap raw a b) = lp_ch raw"
  by (simp_all add: prepareLap_def Let_def raw_lap.defs lap.defs)

lemma open_session_None: "open_session D rates = None \<longleftrightarrow> (\<forall>l \<in> set (rd_laps D). lp_kind l \<noteq> KLap)"
proof -
  have "open_session D rates = None \<longleftrightarrow> timed (open_laps D) = []" by (simp add: open_session_def Let_def)
  also have "\<dots> \<longleftrightarrow> (\<forall>i < length (rd_laps D). lp_kind (rd_laps D ! i) \<noteq> KLap)"
    by (auto simp: timed_def filter_empty_conv open_laps_def Let_def prepareLap_raw)
  finally show ?thesis by (simp add: all_set_conv_all_nth)
qed

definition small_lap :: "rat \<Rightarrow> rat \<Rightarrow> raw_lap" where
  "small_lap t0 t1 =
     \<lparr>lp_name = ''Lap'', lp_kind = KLap, lp_t0 = t0, lp_t1 = t1, lp_dur = t1 - t0, lp_sec = [],
      lp_pts = [\<lparr>fx_x = 0, fx_y = 0, fx_spd = 10, fx_s = 0, fx_dev = 0\<rparr>, \<lparr>fx_x = 50, fx_y = 0, fx_spd = 10, fx_s = 50, fx_dev = 0\<rparr>],
      lp_dist = 50, lp_vmax = 10, lp_vavg = 10, lp_dev = 0, lp_wh = None, lp_whOut = None, lp_whIn = None,
      lp_ch = \<lparr>ch_t = [0, t1 - t0], ch_u = [0, 100], ch_cells = [], ch_of = (\<lambda>_. [0, 0])\<rparr>\<rparr>"

definition small_run :: run_data where
  "small_run =
     \<lparr>rd_quality = None, rd_coneEvents = [], rd_ref = [], rd_cum = [], rd_RL = 100, rd_open = False,
      rd_laps = [small_lap 0 5000, small_lap 5000 11000],
      rd_meta = \<lparr>rm_cellIdx = [], rm_sessId = ''s'', rm_cutoff = 3, rm_planLaps = 10, rm_planKwh = 6, rm_name = [], rm_driver = [],
        rm_venue = [], rm_event = [], rm_trackId = ''t'', rm_trackName = []\<rparr>, rd_warnings = []\<rparr>"

definition small_session :: session where
  "small_session = the (open_session small_run [0, 0, 0, 0, 0, 0, 0, 0])"

lemma small_session_opens: "open_session small_run [0, 0, 0, 0, 0, 0, 0, 0] = Some small_session"
  using open_session_None [of small_run "[0, 0, 0, 0, 0, 0, 0, 0]"]
  by (auto simp: small_session_def small_run_def small_lap_def)

lemma small_session_laps:
  "se_TLAPS small_session = [0, 1]" "se_T0 small_session = 0" "se_TD small_session = 11000"
  "lp_t0 (lap_at small_session 0) = 0" "lp_t1 (lap_at small_session 0) = 5000"
  "lp_t0 (lap_at small_session 1) = 5000" "lp_t1 (lap_at small_session 1) = 11000"
proof -
  let ?laps = "open_laps small_run"
  have laps: "length ?laps = 2" "lp_t0 (?laps ! 0) = 0" "lp_t1 (?laps ! 0) = 5000" "lp_t0 (?laps ! 1) = 5000" "lp_t1 (?laps ! 1) = 11000"
    by (simp_all add: open_laps_def Let_def small_run_def prepareLap_raw small_lap_def)
  have TL: "in_time ?laps = [0, 1]" using laps by (simp add: in_time_def upt_rec)
  from open_session_Some [OF small_session_opens] obtain s0 g0 where
    s0: "small_session = snd (setGates g0 s0)" "se_laps s0 = ?laps" "se_TLAPS s0 = in_time ?laps"
      "se_T0 s0 = lp_t0 (?laps ! hd (in_time ?laps))" "se_TD s0 = lp_t1 (?laps ! last (in_time ?laps)) - se_T0 s0" by blast
  have "lp_t0 (lap_at small_session i) = lp_t0 (?laps ! i)" "lp_t1 (lap_at small_session i) = lp_t1 (?laps ! i)" if "i < 2" for i
    using setGates_lap [of i s0 g0] that laps(1) s0(1,2) by (auto simp: lap_at_def)
  moreover have "se_TLAPS small_session = se_TLAPS s0" "se_T0 small_session = se_T0 s0" "se_TD small_session = se_TD s0"
    unfolding s0(1) by (rule setGates_fields)+
  ultimately show "se_TLAPS small_session = [0, 1]" "se_T0 small_session = 0" "se_TD small_session = 11000"
    "lp_t0 (lap_at small_session 0) = 0" "lp_t1 (lap_at small_session 0) = 5000"
    "lp_t0 (lap_at small_session 1) = 5000" "lp_t1 (lap_at small_session 1) = 11000"
    using laps s0(3-5) TL by simp_all
qed

lemma setGates_RL_small: "se_RL small_session = 100"
proof -
  from open_session_Some [OF small_session_opens] obtain s0 g0 where
    s0: "small_session = snd (setGates g0 s0)" "se_RL s0 = rd_RL small_run" by blast
  have "se_RL small_session = se_RL s0" unfolding s0(1) by (rule setGates_fields)
  then show ?thesis using s0(2) by (simp add: small_run_def)
qed

lemma session_gates_sound_witness:
  "session_ok small_session \<and> (session_ok small_session \<longrightarrow> session_ok (snd (setGates [JFin 20, JFin 70] small_session)))
    \<and> (\<not> validGates [JFin 20, JFin 70] (se_RL small_session) \<longrightarrow> setGates [JFin 20, JFin 70] small_session = (False, small_session))"
  using session_gates_sound [OF _ small_session_opens] by (simp add: small_run_def)

lemma lapIndexAt_contains_witness:
  "7000 < se_TD small_session \<longrightarrow> lp_t0 (lap_at small_session (lapIndexAt small_session 7000)) \<le> se_T0 small_session + 7000
    \<and> se_T0 small_session + 7000 < lp_t1 (lap_at small_session (lapIndexAt small_session 7000))"
proof (rule lapIndexAt_contains)
  show "seamless small_session" using small_session_laps by (simp add: seamless_def less_Suc_eq)
qed simp

end
