(* ===== verification/DriveRebuild.thy ===== *)
theory DriveRebuild
  imports DriveSession
begin

text \<open>
  The laps of a loop, made to meet: \<^verbatim>\<open>viewer_tool/src/lib/driveday/rebuild.ts\<close>.

  The distance between two fixes (\<^verbatim>\<open>Math.hypot\<close>) is an argument. A lap's \<^verbatim>\<open>cells\<close> have one row for each fix or none at all.
\<close>

subsection \<open>One stream of samples\<close>

record raw_sample =
  sm_t :: rat
  sm_x :: rat
  sm_y :: rat
  sm_spd :: rat
  sm_dev :: rat
  sm_s :: rat
  sm_v :: "ch_key \<Rightarrow> rat"
  sm_cells :: "rat list"
  sm_U :: rat

definition round_to :: "rat \<Rightarrow> nat \<Rightarrow> rat" where
  "round_to v d = of_int (rat_round (v * 10 ^ d)) / 10 ^ d"

definition sample_of :: "raw_lap \<Rightarrow> nat \<Rightarrow> raw_sample" where
  "sample_of l i =
     (let p = lp_pts l ! i; c = lp_ch l in
      \<lparr>sm_t = lp_t0 l + ch_t c ! i, sm_x = fx_x p, sm_y = fx_y p, sm_spd = fx_spd p, sm_dev = fx_dev p, sm_s = fx_s p,
       sm_v = (\<lambda>k. ch_of c k ! i), sm_cells = (if ch_cells c = [] then [] else ch_cells c ! i), sm_U = 0\<rparr>)"

definition push_sample :: "raw_sample \<Rightarrow> raw_sample list \<Rightarrow> raw_sample list" where
  "push_sample s ST = (if ST \<noteq> [] \<and> sm_t s \<le> sm_t (last ST) then ST else ST @ [s])"

definition lap_samples :: "raw_lap \<Rightarrow> raw_sample list \<Rightarrow> raw_sample list" where
  "lap_samples l ST = fold push_sample (map (sample_of l) [0..<length (ch_t (lp_ch l))]) ST"

definition raw_stream :: "raw_lap list \<Rightarrow> raw_sample list" where
  "raw_stream laps = fold lap_samples laps []"

definition shortest_step :: "rat \<Rightarrow> rat \<Rightarrow> rat" where
  "shortest_step RL d = (if d < - RL / 2 then d + RL else if d > RL / 2 then d - RL else d)"

fun unroll_from :: "rat \<Rightarrow> raw_sample \<Rightarrow> raw_sample list \<Rightarrow> raw_sample list" where
  "unroll_from RL p [] = []"
| "unroll_from RL p (s # ss) =
     (let s1 = s\<lparr>sm_U := sm_U p + shortest_step RL (sm_s s - sm_s p)\<rparr> in s1 # unroll_from RL s1 ss)"

definition unroll :: "rat \<Rightarrow> raw_sample list \<Rightarrow> raw_sample list" where
  "unroll RL ST = (case ST of [] \<Rightarrow> [] | s # ss \<Rightarrow> let s1 = s\<lparr>sm_U := sm_s s\<rparr> in s1 # unroll_from RL s1 ss)"

definition stream_of :: "run_data \<Rightarrow> raw_sample list" where
  "stream_of D = unroll (rd_RL D) (raw_stream (sort_key lp_t0 (rd_laps D)))"

subsection \<open>The lap of a source lap\<close>

definition mix :: "raw_sample \<Rightarrow> raw_sample \<Rightarrow> rat \<Rightarrow> rat \<Rightarrow> raw_sample" where
  "mix a b f t =
     \<lparr>sm_t = t, sm_x = sm_x a + (sm_x b - sm_x a) * f, sm_y = sm_y a + (sm_y b - sm_y a) * f,
      sm_spd = sm_spd a + (sm_spd b - sm_spd a) * f, sm_dev = sm_dev a + (sm_dev b - sm_dev a) * f, sm_s = sm_s a,
      sm_v = (\<lambda>k. sm_v a k + (sm_v b k - sm_v a k) * f),
      sm_cells = (if length (sm_cells a) = length (sm_cells b) then map2 (\<lambda>c d. c + (d - c) * f) (sm_cells a) (sm_cells b) else sm_cells a),
      sm_U = sm_U a + (sm_U b - sm_U a) * f\<rparr>"

definition mix_at :: "raw_sample list \<Rightarrow> nat \<Rightarrow> rat \<Rightarrow> raw_sample" where
  "mix_at ST i t = mix (ST ! (i - 1)) (ST ! i) ((t - sm_t (ST ! (i - 1))) / (sm_t (ST ! i) - sm_t (ST ! (i - 1)))) t"

definition first_at :: "raw_sample list \<Rightarrow> rat \<Rightarrow> nat" where
  "first_at ST t = lower_bound (map sm_t ST) t 0 (length ST)"

definition window_samples :: "raw_sample list \<Rightarrow> rat \<Rightarrow> rat \<Rightarrow> raw_sample list" where
  "window_samples ST t0 t1 =
     (let i0 = first_at ST t0; i1 = first_at ST t1;
          head = (if i0 > 0 \<and> i0 < length ST \<and> sm_t (ST ! i0) > t0 then [mix_at ST i0 t0] else []);
          sm = head @ map (\<lambda>i. ST ! i) [i0..<i1]
      in if i1 < length ST \<and> i1 > i0 \<and> sm \<noteq> [] \<and> sm_t (last sm) < t1 then sm @ [mix_at ST i1 t1] else sm)"

definition start_u :: "rat \<Rightarrow> raw_sample \<Rightarrow> rat" where
  "start_u RL s = (let q = wrap (sm_U s) RL in if q > RL / 2 then q - RL else q)"

text \<open>Distance along the lap: from the start, never back.\<close>

definition lap_distances :: "rat \<Rightarrow> raw_sample list \<Rightarrow> rat list" where
  "lap_distances v0 sm =
     fold (\<lambda>s us. us @ [max (last us) (v0 + (sm_U s - sm_U (hd sm)))]) (tl sm) [v0]"

definition sample_fix :: "rat \<Rightarrow> raw_sample \<Rightarrow> gps_fix" where
  "sample_fix RL s = \<lparr>fx_x = round_to (sm_x s) 2, fx_y = round_to (sm_y s) 2, fx_spd = round_to (sm_spd s) 2,
     fx_s = round_to (wrap (sm_U s) RL) 1, fx_dev = round_to (sm_dev s) 2\<rparr>"

definition path_length :: "(rat \<Rightarrow> rat \<Rightarrow> rat) \<Rightarrow> raw_sample list \<Rightarrow> rat" where
  "path_length hypot sm = foldl (\<lambda>d k. d + hypot (sm_x (sm ! k) - sm_x (sm ! (k - 1))) (sm_y (sm ! k) - sm_y (sm ! (k - 1)))) 0 [1..<length sm]"

definition mkLap :: "(rat \<Rightarrow> rat \<Rightarrow> rat) \<Rightarrow> rat \<Rightarrow> raw_sample list \<Rightarrow> raw_lap \<Rightarrow> raw_lap option" where
  "mkLap hypot RL ST src =
     (let sm = window_samples ST (lp_t0 src) (lp_t1 src); tt = map (\<lambda>s. sm_t s - lp_t0 src) sm;
          us = lap_distances (start_u RL (hd sm)) sm; d = path_length hypot sm
      in if length sm < 4 then None
         else Some (src\<lparr>
           lp_ch := \<lparr>ch_t = map (\<lambda>v. round_to v 0) tt, ch_u = map (\<lambda>v. round_to v 1) us, ch_cells = map sm_cells sm,
                     ch_of = (\<lambda>k. map (\<lambda>s. sm_v s k) sm)\<rparr>,
           lp_sec := sectorTimes us tt (lp_dur src) (lp_kind src) (RL / 3, 2 * RL / 3),
           lp_pts := map (sample_fix RL) sm, lp_dist := d,
           lp_vmax := foldl (\<lambda>v s. max v (sm_spd s)) 0 sm,
           lp_vavg := (if lp_dur src > 0 then d / (lp_dur src / 1000) else 0),
           lp_dev := foldl (\<lambda>a s. a + sm_dev s) 0 sm / of_nat (length sm)\<rparr>))"

subsection \<open>The run\<close>

definition kind_rank :: "lap_kind \<Rightarrow> nat" where
  "kind_rank k = (case k of KOut \<Rightarrow> 0 | KPartial \<Rightarrow> 1 | KLap \<Rightarrow> 2 | KTheo \<Rightarrow> 3)"

definition rebuild_laps :: "(rat \<Rightarrow> rat \<Rightarrow> rat) \<Rightarrow> run_data \<Rightarrow> raw_lap list" where
  "rebuild_laps hypot D = List.map_filter (mkLap hypot (rd_RL D) (stream_of D)) (sort_key lp_t0 (rd_laps D))"

definition rebuildRun :: "(rat \<Rightarrow> rat \<Rightarrow> rat) \<Rightarrow> run_data \<Rightarrow> run_data" where
  "rebuildRun hypot D =
     (if rd_laps D = [] \<or> rd_open D \<or> length (stream_of D) < 8 then D
      else let laps = rebuild_laps hypot D;
               timed = filter (\<lambda>l. lp_kind l = KLap) laps; others = filter (\<lambda>l. lp_kind l \<noteq> KLap) laps
           in if timed = [] then D else D\<lparr>rd_laps := timed @ sort_key (\<lambda>l. kind_rank (lp_kind l)) others\<rparr>)"

subsection \<open>The stream is in time order\<close>

abbreviation in_order :: "raw_sample list \<Rightarrow> bool" where
  "in_order ST \<equiv> sorted_wrt (<) (map sm_t ST)"

lemma sorted_le_last: "sorted xs \<Longrightarrow> x \<in> set xs \<Longrightarrow> x \<le> last xs"
  by (induction xs) force+

lemma push_sample_order: "in_order ST \<Longrightarrow> in_order (push_sample s ST)"
proof (cases "ST \<noteq> [] \<and> sm_t s \<le> sm_t (last ST)")
  case False
  assume o: "in_order ST"
  have "x < sm_t s" if "x \<in> set (map sm_t ST)" for x
  proof -
    have "x \<le> last (map sm_t ST)" using sorted_le_last [OF strict_sorted_imp_sorted [OF o] that] .
    moreover have "last (map sm_t ST) < sm_t s" using False that by (cases "ST = []") (auto simp: last_map)
    ultimately show ?thesis by linarith
  qed
  then show ?thesis using False o by (auto simp: push_sample_def sorted_wrt_append)
qed (simp add: push_sample_def)

lemma lap_samples_order: "in_order ST \<Longrightarrow> in_order (lap_samples l ST)"
proof -
  have "in_order ST \<Longrightarrow> in_order (fold push_sample ss ST)" for ss
    by (induction ss arbitrary: ST) (simp_all add: push_sample_order)
  then show "in_order ST \<Longrightarrow> in_order (lap_samples l ST)" by (simp add: lap_samples_def)
qed

lemma raw_stream_order: "in_order (raw_stream laps)"
proof -
  have "in_order ST \<Longrightarrow> in_order (fold lap_samples laps ST)" for ST
    by (induction laps arbitrary: ST) (simp_all add: lap_samples_order)
  then show ?thesis by (simp add: raw_stream_def)
qed

lemma unroll_times: "map sm_t (unroll RL ST) = map sm_t ST"
proof -
  have "map sm_t (unroll_from RL p ss) = map sm_t ss" for p ss
    by (induction ss arbitrary: p) (simp_all add: Let_def)
  then show ?thesis by (cases ST) (simp_all add: unroll_def Let_def)
qed

lemma stream_order: "in_order (stream_of D)"
  using raw_stream_order by (simp add: stream_of_def unroll_times)

lemma lower_bound_spec:
  "sorted_wrt (<) ts \<Longrightarrow> a \<le> b \<Longrightarrow> b \<le> length ts \<Longrightarrow> (\<forall>j < a. ts ! j < v) \<Longrightarrow> (\<forall>j. b \<le> j \<and> j < length ts \<longrightarrow> v \<le> ts ! j) \<Longrightarrow>
     lower_bound ts v a b \<le> length ts \<and> (\<forall>j < lower_bound ts v a b. ts ! j < v)
     \<and> (\<forall>j. lower_bound ts v a b \<le> j \<and> j < length ts \<longrightarrow> v \<le> ts ! j)"
proof (induction ts v a b rule: lower_bound.induct)
  case (1 ts v a b)
  show ?case
  proof (cases "a < b")
    case True
    let ?m = "(a + b) div 2"
    have m: "a \<le> ?m" "?m < b" "?m < length ts" using True 1(5) by linarith+
    have le: "ts ! i \<le> ts ! j" if "i \<le> j" "j < length ts" for i j
      using sorted_wrt_nth_less [OF 1(3)] that by (cases "i = j") (auto simp: less_imp_le)
    show ?thesis
    proof (cases "ts ! ?m < v")
      case lt: True
      have "\<forall>j < ?m + 1. ts ! j < v"
      proof (intro allI impI)
        fix j assume "j < ?m + 1"
        then have "ts ! j \<le> ts ! ?m" using le m(3) by simp
        then show "ts ! j < v" using lt by simp
      qed
      moreover have "lower_bound ts v a b = lower_bound ts v (?m + 1) b"
        using True lt by (subst lower_bound.simps) (simp add: Let_def)
      moreover have "?m + 1 \<le> b" using m(2) by simp
      ultimately show ?thesis using 1(1) [OF True refl lt 1(3) _ 1(5) _ 1(7)] by presburger
    next
      case ge: False
      have "\<forall>j. ?m \<le> j \<and> j < length ts \<longrightarrow> v \<le> ts ! j"
      proof (intro allI impI)
        fix j assume "?m \<le> j \<and> j < length ts"
        then have "ts ! ?m \<le> ts ! j" using le by simp
        then show "v \<le> ts ! j" using ge by simp
      qed
      moreover have "lower_bound ts v a b = lower_bound ts v a ?m"
        using True ge by (subst lower_bound.simps) (simp add: Let_def)
      moreover have "?m \<le> length ts" using m(3) by simp
      ultimately show ?thesis using 1(2) [OF True refl ge 1(3) m(1) _ 1(6)] by presburger
    qed
  next
    case False
    then have "a = b" using 1(4) by simp
    moreover from this have "lower_bound ts v a b = a" by (simp add: lower_bound.simps [of ts v b b])
    ultimately show ?thesis using 1(5-7) by simp
  qed
qed

lemma first_at_spec:
  assumes "in_order ST"
  shows "first_at ST t \<le> length ST" "j < first_at ST t \<Longrightarrow> sm_t (ST ! j) < t"
    "first_at ST t \<le> j \<Longrightarrow> j < length ST \<Longrightarrow> t \<le> sm_t (ST ! j)"
  using lower_bound_spec [OF assms, of 0 "length ST" t] by (auto simp: first_at_def)

subsection \<open>Neighbouring laps meet\<close>

lemma mix_end: "sm_v (mix a b 1 t) = sm_v b" "sample_fix RL (mix a b 1 t) = sample_fix RL b"
  by (simp_all add: mix_def sample_fix_def)

lemma window_last:
  assumes "in_order ST" "first_at ST t0 < first_at ST t1" "first_at ST t1 < length ST"
  shows "last (window_samples ST t0 t1) = mix_at ST (first_at ST t1) t1"
proof -
  let ?i0 = "first_at ST t0" and ?i1 = "first_at ST t1"
  define head where "head = (if ?i0 > 0 \<and> ?i0 < length ST \<and> sm_t (ST ! ?i0) > t0 then [mix_at ST ?i0 t0] else [])"
  have l: "last (head @ map (\<lambda>i. ST ! i) [?i0..<?i1]) = ST ! (?i1 - 1)" using assms(2) by (simp add: last_map)
  have "sm_t (ST ! (?i1 - 1)) < t1" using first_at_spec(2) [OF assms(1)] assms(2) by simp
  then show ?thesis
    using assms(2,3) l by (simp add: window_samples_def Let_def head_def [symmetric])
qed

lemma window_first:
  assumes "in_order ST" "0 < first_at ST t0" "first_at ST t0 < length ST" "window_samples ST t0 t1 \<noteq> []"
  shows "sample_fix RL (hd (window_samples ST t0 t1)) = sample_fix RL (mix_at ST (first_at ST t0) t0)
    \<and> sm_v (hd (window_samples ST t0 t1)) = sm_v (mix_at ST (first_at ST t0) t0)"
proof (cases "sm_t (ST ! first_at ST t0) > t0")
  case True
  then show ?thesis using assms(2,3) by (simp add: window_samples_def Let_def)
next
  case False
  let ?i0 = "first_at ST t0" and ?i1 = "first_at ST t1"
  have t: "sm_t (ST ! ?i0) = t0" using False first_at_spec(3) [OF assms(1), of t0 ?i0] assms(3) by simp
  have p: "sm_t (ST ! (?i0 - 1)) < t0" using first_at_spec(2) [OF assms(1), of "?i0 - 1" t0] assms(2) by simp
  have m: "mix_at ST ?i0 t0 = mix (ST ! (?i0 - 1)) (ST ! ?i0) 1 t0" using t p by (simp add: mix_at_def)
  have "?i0 < ?i1"
  proof (rule ccontr)
    assume "\<not> ?i0 < ?i1"
    then have "window_samples ST t0 t1 = []" using False by (simp add: window_samples_def Let_def)
    then show False using assms(4) by simp
  qed
  then have "hd (window_samples ST t0 t1) = ST ! ?i0" using False by (simp add: window_samples_def Let_def upt_rec)
  then show ?thesis using m by (simp add: mix_end)
qed

lemma mkLap_Some:
  assumes "mkLap hypot RL ST src = Some L"
  shows "4 \<le> length (window_samples ST (lp_t0 src) (lp_t1 src))"
    "lp_pts L = map (sample_fix RL) (window_samples ST (lp_t0 src) (lp_t1 src))"
    "ch_of (lp_ch L) k = map (\<lambda>s. sm_v s k) (window_samples ST (lp_t0 src) (lp_t1 src))"
    "lap_t L = map (\<lambda>s. round_to (sm_t s - lp_t0 src) 0) (window_samples ST (lp_t0 src) (lp_t1 src))"
    "lap_u L = map (\<lambda>v. round_to v 1) (lap_distances (start_u RL (hd (window_samples ST (lp_t0 src) (lp_t1 src))))
       (window_samples ST (lp_t0 src) (lp_t1 src)))"
    "lp_name L = lp_name src" "lp_kind L = lp_kind src" "lp_t0 L = lp_t0 src" "lp_t1 L = lp_t1 src" "lp_dur L = lp_dur src"
    "lp_wh L = lp_wh src" "lp_whOut L = lp_whOut src" "lp_whIn L = lp_whIn src"
  using assms by (auto simp: mkLap_def Let_def o_def split: if_splits)

text \<open>C22: on a loop, a lap ends exactly where the next one begins: when one lap ends at the moment the next starts, and the
  run was sampled in the first lap and after that moment, the last point of the one and the first point of the other are
  the same fix with the same channel values.\<close>

theorem rebuild_laps_meet:
  assumes A: "mkLap hypot (rd_RL D) (stream_of D) a = Some A" and B: "mkLap hypot (rd_RL D) (stream_of D) b = Some B"
    and t: "lp_t1 a = lp_t0 b"
    and s: "\<exists>s \<in> set (stream_of D). lp_t0 a \<le> sm_t s \<and> sm_t s < lp_t0 b" "\<exists>s \<in> set (stream_of D). lp_t0 b \<le> sm_t s"
  shows "last (lp_pts A) = hd (lp_pts B) \<and> last (ch_of (lp_ch A) k) = hd (ch_of (lp_ch B) k)"
proof -
  let ?ST = "stream_of D" and ?T = "lp_t0 b"
  let ?i = "first_at ?ST ?T"
  note o = stream_order [of D]
  obtain j where j: "j < length ?ST" "lp_t0 a \<le> sm_t (?ST ! j)" "sm_t (?ST ! j) < ?T" using s(1) by (auto simp: in_set_conv_nth)
  obtain m where m: "m < length ?ST" "?T \<le> sm_t (?ST ! m)" using s(2) by (auto simp: in_set_conv_nth)
  have ji: "j < ?i" using first_at_spec(3) [OF o, of ?T j] j(1,3) by (cases "j < ?i") simp_all
  have il: "?i < length ?ST" using first_at_spec(2) [OF o, of m ?T] m first_at_spec(1) [OF o, of ?T] by (cases "?i = length ?ST") auto
  have ij: "first_at ?ST (lp_t0 a) \<le> j" using first_at_spec(2) [OF o, of j "lp_t0 a"] j(2) by (cases "j < first_at ?ST (lp_t0 a)") simp_all
  have "window_samples ?ST (lp_t0 b) (lp_t1 b) \<noteq> []" using mkLap_Some(1) [OF B] by auto
  moreover have "window_samples ?ST (lp_t0 a) (lp_t1 a) \<noteq> []" using mkLap_Some(1) [OF A] by auto
  moreover have "last (window_samples ?ST (lp_t0 a) (lp_t1 a)) = mix_at ?ST ?i ?T"
    using window_last [OF o, of "lp_t0 a" ?T] ij ji il by (simp add: t)
  ultimately show ?thesis
    using window_first [OF o, of ?T "lp_t1 b" "rd_RL D"] ji il
    by (simp add: mkLap_Some(2) [OF A] mkLap_Some(2) [OF B] mkLap_Some(3) [OF A] mkLap_Some(3) [OF B] last_map hd_map)
qed

subsection \<open>The figures of the logger stay\<close>

lemma rat_round_mono: "a \<le> b \<Longrightarrow> rat_round a \<le> rat_round b"
  by (simp add: rat_round_def floor_mono)

lemma round_to_mono: "a \<le> b \<Longrightarrow> round_to a d \<le> round_to b d"
proof -
  assume "a \<le> b"
  then have "rat_round (a * 10 ^ d) \<le> rat_round (b * 10 ^ d)" by (intro rat_round_mono mult_right_mono) simp_all
  then have "of_int (rat_round (a * 10 ^ d)) \<le> (of_int (rat_round (b * 10 ^ d)) :: rat)" by (simp only: of_int_le_iff)
  then show ?thesis by (simp add: round_to_def divide_right_mono)
qed

lemma sorted_map_mono: "sorted xs \<Longrightarrow> (\<And>x y. x \<le> y \<Longrightarrow> f x \<le> f y) \<Longrightarrow> sorted (map f xs)"
  by (induction xs) auto

lemma lap_distances_ok: "sorted (lap_distances v0 sm) \<and> length (lap_distances v0 sm) = Suc (length sm - 1)"
proof -
  have "sorted us \<Longrightarrow> us \<noteq> [] \<Longrightarrow>
      sorted (fold (\<lambda>s us. us @ [max (last us) (v0 + (sm_U s - u))]) ss us)
      \<and> length (fold (\<lambda>s us. us @ [max (last us) (v0 + (sm_U s - u))]) ss us) = length us + length ss" for ss us u
  proof (induction ss arbitrary: us)
    case (Cons s ss)
    have "sorted (us @ [max (last us) (v0 + (sm_U s - u))])"
      using Cons.prems(1) sorted_le_last by (force simp: sorted_append le_max_iff_disj)
    then show ?case using Cons.IH [of "us @ [max (last us) (v0 + (sm_U s - u))]"] by simp
  qed simp
  from this [of "[v0]" "sm_U (hd sm)" "tl sm"] show ?thesis by (simp add: lap_distances_def)
qed

lemma window_sorted:
  assumes "in_order ST"
  shows "sorted (map sm_t (window_samples ST t0 t1))"
proof -
  let ?i0 = "first_at ST t0" and ?i1 = "first_at ST t1"
  define head where "head = (if ?i0 > 0 \<and> ?i0 < length ST \<and> sm_t (ST ! ?i0) > t0 then [mix_at ST ?i0 t0] else [])"
  define sm where "sm = head @ map (\<lambda>i. ST ! i) [?i0..<?i1]"
  have "sorted (map sm_t (map (\<lambda>i. ST ! i) [?i0..<?i1]))"
  proof -
    have le: "?i1 \<le> length ST" by (rule first_at_spec(1) [OF assms])
    have "sm_t (ST ! (?i0 + a)) \<le> sm_t (ST ! (?i0 + b))" if "a < b" "b < ?i1 - ?i0" for a b
      using sorted_wrt_nth_less [OF assms, of "?i0 + a" "?i0 + b"] that le by (simp add: less_diff_conv add.commute)
    then show ?thesis by (simp add: sorted_wrt_iff_nth_less)
  qed
  moreover have "t0 \<le> sm_t s" if "s \<in> set (map (\<lambda>i. ST ! i) [?i0..<?i1])" for s
    using that first_at_spec(1,3) [OF assms] order_less_le_trans by fastforce
  ultimately have sm: "sorted (map sm_t sm)" by (auto simp: sm_def head_def mix_at_def mix_def)
  have "sorted (map sm_t sm @ [t1])" if "sm \<noteq> []" "sm_t (last sm) < t1"
  proof -
    have "x \<le> t1" if "x \<in> set (map sm_t sm)" for x
      using sorted_le_last [OF sm that] \<open>sm_t (last sm) < t1\<close> \<open>sm \<noteq> []\<close> by (simp add: last_map)
    then show ?thesis using sm by (simp add: sorted_append)
  qed
  moreover have "sm_t (mix_at ST ?i1 t1) = t1" by (simp add: mix_at_def mix_def)
  moreover have "window_samples ST t0 t1 = (if ?i1 < length ST \<and> ?i1 > ?i0 \<and> sm \<noteq> [] \<and> sm_t (last sm) < t1
      then sm @ [mix_at ST ?i1 t1] else sm)"
    by (simp only: window_samples_def Let_def head_def sm_def)
  ultimately show ?thesis using sm by simp
qed

definition same_log :: "raw_lap \<Rightarrow> raw_lap \<Rightarrow> bool" where
  "same_log a b \<longleftrightarrow> lp_name a = lp_name b \<and> lp_kind a = lp_kind b \<and> lp_t0 a = lp_t0 b \<and> lp_t1 a = lp_t1 b \<and> lp_dur a = lp_dur b
     \<and> lp_wh a = lp_wh b \<and> lp_whOut a = lp_whOut b \<and> lp_whIn a = lp_whIn b"

definition lap_ok :: "raw_lap \<Rightarrow> bool" where
  "lap_ok L \<longleftrightarrow> sorted (lap_t L) \<and> sorted (lap_u L) \<and> lap_t L \<noteq> [] \<and> length (lap_u L) = length (lap_t L)
     \<and> length (lp_pts L) = length (lap_t L) \<and> (\<forall>k. length (ch_of (lp_ch L) k) = length (lap_t L))"

lemma mkLap_ok:
  assumes "mkLap hypot RL (stream_of D) src = Some L"
  shows "same_log L src \<and> lap_ok L"
proof -
  let ?sm = "window_samples (stream_of D) (lp_t0 src) (lp_t1 src)"
  note f = mkLap_Some [OF assms]
  have "sorted (map (\<lambda>x. round_to (x - lp_t0 src) 0) (map sm_t ?sm))"
    using round_to_mono by (intro sorted_map_mono window_sorted stream_order) simp
  then have "sorted (lap_t L)" by (simp add: f(4) o_def)
  moreover have "sorted (lap_u L)" using lap_distances_ok round_to_mono by (simp only: f(5)) (intro sorted_map_mono, simp_all)
  moreover have "length (lap_u L) = length ?sm" using f(1) lap_distances_ok by (simp add: f(5))
  moreover have "length (lap_t L) = length ?sm" "length (lp_pts L) = length ?sm" "lap_t L \<noteq> []"
    using f(1) by (auto simp: f(2,4))
  ultimately show ?thesis by (simp add: same_log_def lap_ok_def f(3) f(6-13))
qed

text \<open>a run is rebuilt from its own laps: every lap of the result is one of the run's, with the logger's name, kind, times
  and energy, and if the run changed at all its laps are well formed: time and distance never go back and every channel has
  a value for each fix. An open course is left as it is.\<close>

theorem rebuild_keeps_log:
  shows "(\<forall>L \<in> set (rd_laps (rebuildRun hypot D)). \<exists>src \<in> set (rd_laps D). same_log L src)
    \<and> (rebuildRun hypot D = D \<or> (\<forall>L \<in> set (rd_laps (rebuildRun hypot D)). lap_ok L))
    \<and> (rd_open D \<longrightarrow> rebuildRun hypot D = D)
    \<and> rd_meta (rebuildRun hypot D) = rd_meta D \<and> rd_RL (rebuildRun hypot D) = rd_RL D"
proof -
  have mf: "y \<in> set (List.map_filter f xs) \<Longrightarrow> \<exists>x \<in> set xs. f x = Some y" for f :: "raw_lap \<Rightarrow> raw_lap option" and xs y
    by (induction xs) (auto simp: map_filter_simps split: option.splits)
  have laps: "\<exists>src \<in> set (rd_laps D). same_log L src \<and> lap_ok L" if L: "L \<in> set (rebuild_laps hypot D)" for L
  proof -
    obtain src where "src \<in> set (rd_laps D)" "mkLap hypot (rd_RL D) (stream_of D) src = Some L"
      using mf [OF L [unfolded rebuild_laps_def]] by auto
    then show ?thesis using mkLap_ok by blast
  qed
  have self: "same_log L L" for L by (simp add: same_log_def)
  show ?thesis
  proof (cases "rebuildRun hypot D = D")
    case True
    then show ?thesis using self by auto
  next
    case False
    then have r: "\<not> rd_open D" "\<exists>ls. rebuildRun hypot D = D\<lparr>rd_laps := ls\<rparr>"
        "set (rd_laps (rebuildRun hypot D)) \<subseteq> set (rebuild_laps hypot D)"
      by (auto simp: rebuildRun_def Let_def split: if_splits)
    have "rd_meta (rebuildRun hypot D) = rd_meta D" "rd_RL (rebuildRun hypot D) = rd_RL D" using r(2) by auto
    then show ?thesis using r(1,3) laps by blast
  qed
qed

subsection \<open>A loop of two laps\<close>

definition loop_lap :: "rat \<Rightarrow> rat list \<Rightarrow> raw_lap" where
  "loop_lap t0 ss =
     (small_lap t0 (t0 + 1000))\<lparr>lp_pts := map (\<lambda>s. \<lparr>fx_x = s, fx_y = 0, fx_spd = 10, fx_s = s, fx_dev = 0\<rparr>) ss,
        lp_ch := \<lparr>ch_t = [100, 300, 500, 700, 900], ch_u = ss, ch_cells = [], ch_of = (\<lambda>_. ss)\<rparr>\<rparr>"

definition loop_run :: run_data where
  "loop_run = small_run\<lparr>rd_laps := [loop_lap 0 [10, 30, 50, 70, 90], loop_lap 1000 [12, 32, 52, 72, 92]]\<rparr>"

definition plain_hypot :: "rat \<Rightarrow> rat \<Rightarrow> rat" where
  "plain_hypot a b = \<bar>a\<bar> + \<bar>b\<bar>"

lemma loop_times: "map sm_t (stream_of loop_run) = [100, 300, 500, 700, 900, 1100, 1300, 1500, 1700, 1900]"
  by (simp add: stream_of_def unroll_times loop_run_def small_run_def loop_lap_def small_lap_def raw_stream_def lap_samples_def
      push_sample_def sample_of_def Let_def upt_rec)

lemma loop_first:
  "first_at (stream_of loop_run) 0 = 0" "first_at (stream_of loop_run) 1000 = 5" "first_at (stream_of loop_run) 2000 = 10"
proof -
  have l: "length (stream_of loop_run) = 10" using arg_cong [OF loop_times, of length] by simp
  show "first_at (stream_of loop_run) 0 = 0" "first_at (stream_of loop_run) 1000 = 5" "first_at (stream_of loop_run) 2000 = 10"
    by (simp_all add: first_at_def loop_times l lower_bound.simps Let_def)
qed

lemma loop_laps_built:
  "mkLap plain_hypot 100 (stream_of loop_run) (loop_lap 0 [10, 30, 50, 70, 90]) \<noteq> None"
  "mkLap plain_hypot 100 (stream_of loop_run) (loop_lap 1000 [12, 32, 52, 72, 92]) \<noteq> None"
proof -
  have n: "length (window_samples (stream_of loop_run) t0 t1) \<ge> first_at (stream_of loop_run) t1 - first_at (stream_of loop_run) t0" for t0 t1
    unfolding window_samples_def Let_def by (cases "first_at (stream_of loop_run) t0 < first_at (stream_of loop_run) t1") auto
  show "mkLap plain_hypot 100 (stream_of loop_run) (loop_lap 0 [10, 30, 50, 70, 90]) \<noteq> None"
    using n [of 1000 0] by (simp add: mkLap_def Let_def loop_lap_def small_lap_def loop_first)
  show "mkLap plain_hypot 100 (stream_of loop_run) (loop_lap 1000 [12, 32, 52, 72, 92]) \<noteq> None"
    using n [of 2000 1000] by (simp add: mkLap_def Let_def loop_lap_def small_lap_def loop_first)
qed

lemma rebuild_laps_meet_witness:
  "last (lp_pts (the (mkLap plain_hypot 100 (stream_of loop_run) (loop_lap 0 [10, 30, 50, 70, 90]))))
      = hd (lp_pts (the (mkLap plain_hypot 100 (stream_of loop_run) (loop_lap 1000 [12, 32, 52, 72, 92]))))
    \<and> last (ch_of (lp_ch (the (mkLap plain_hypot 100 (stream_of loop_run) (loop_lap 0 [10, 30, 50, 70, 90])))) Thr)
      = hd (ch_of (lp_ch (the (mkLap plain_hypot 100 (stream_of loop_run) (loop_lap 1000 [12, 32, 52, 72, 92])))) Thr)"
proof -
  have RL: "rd_RL loop_run = 100" by (simp add: loop_run_def small_run_def)
  have times: "900 \<in> sm_t ` set (stream_of loop_run)" "1100 \<in> sm_t ` set (stream_of loop_run)"
    using arg_cong [OF loop_times, of set] by simp_all
  show ?thesis
  proof (rule rebuild_laps_meet [where D = loop_run and hypot = plain_hypot, unfolded RL])
    show "\<exists>s \<in> set (stream_of loop_run). lp_t0 (loop_lap 0 [10, 30, 50, 70, 90]) \<le> sm_t s
        \<and> sm_t s < lp_t0 (loop_lap 1000 [12, 32, 52, 72, 92])"
      using times(1) by (force simp: loop_lap_def small_lap_def)
    show "\<exists>s \<in> set (stream_of loop_run). lp_t0 (loop_lap 1000 [12, 32, 52, 72, 92]) \<le> sm_t s"
      using times(2) by (force simp: loop_lap_def small_lap_def)
    show "lp_t1 (loop_lap 0 [10, 30, 50, 70, 90]) = lp_t0 (loop_lap 1000 [12, 32, 52, 72, 92])"
      by (simp add: loop_lap_def small_lap_def)
  qed (use loop_laps_built in auto)
qed

end
