(* ===== verification/DriveCourses.thy ===== *)
theory DriveCourses
  imports DriveRebuild "HOL-Library.Multiset"
begin

text \<open>
  The first half of the import of a logged session, \<^verbatim>\<open>viewer_tool/src/lib/driveday/convert.ts\<close>: the samples of the export are merged,
  positions are filled in between the fixes, the laps with a usable route are found, and the runs are grouped into courses.

  \<open>Math.hypot\<close>, \<open>Math.sqrt\<close>, the cosine of an angle in degrees and the metres of a degree are arguments, as are the calendar, the ids of
  new tracks and the clock: \<open>conv_env\<close>. A number of the export that is missing or not finite is \<^const>\<open>None\<close>; an entry of a list of
  samples that is \<^verbatim>\<open>null\<close> or has no finite time, which the code skips, is \<^const>\<open>None\<close> as well. The temperature of a cell is a number or
  missing.
\<close>

subsection \<open>Geometry\<close>

type_synonym xy = "rat \<times> rat"

record conv_env =
  cv_hypot :: "rat \<Rightarrow> rat \<Rightarrow> rat"
  cv_sqrt :: "rat \<Rightarrow> rat"
  cv_cos :: "rat \<Rightarrow> rat"
  cv_ky :: rat
  cv_date :: "rat \<Rightarrow> nat \<times> nat \<times> nat"
  cv_newId :: "nat \<Rightarrow> string"
  cv_now :: rat

definition dist2d :: "conv_env \<Rightarrow> xy \<Rightarrow> xy \<Rightarrow> rat" where
  "dist2d G a b = cv_hypot G (fst a - fst b) (snd a - snd b)"

definition cumOf :: "conv_env \<Rightarrow> xy list \<Rightarrow> rat list" where
  "cumOf G poly = foldl (\<lambda>c i. c @ [last c + dist2d G (poly ! i) (poly ! (i - 1))]) [0] [1..<length poly]"

text \<open>\<^verbatim>\<open>a || 1\<close>\<close>

definition or_one :: "rat \<Rightarrow> rat" where
  "or_one x = (if x = 0 then 1 else x)"

text \<open>The search for the piece that holds a position: it stops at the last piece.\<close>

function seek_from :: "rat list \<Rightarrow> nat \<Rightarrow> rat \<Rightarrow> nat \<Rightarrow> nat" where
  "seek_from cum n s i = (if i + 2 < n \<and> cum ! (i + 1) < s then seek_from cum n s (i + 1) else i)"
  by pat_completeness auto

termination by (relation "measure (\<lambda>(cum, n, s, i). n - i)") auto

declare seek_from.simps [simp del]

definition piece_ratio :: "rat list \<Rightarrow> nat \<Rightarrow> rat \<Rightarrow> rat" where
  "piece_ratio cum i s = (s - cum ! i) / or_one (cum ! (i + 1) - cum ! i)"

definition on_piece :: "xy list \<Rightarrow> nat \<Rightarrow> rat \<Rightarrow> xy" where
  "on_piece ref i f = (fst (ref ! i) + f * (fst (ref ! (i + 1)) - fst (ref ! i)), snd (ref ! i) + f * (snd (ref ! (i + 1)) - snd (ref ! i)))"

definition path_point :: "xy list \<Rightarrow> rat list \<Rightarrow> rat \<Rightarrow> xy" where
  "path_point ref cum s = (let i = seek_from cum (length cum) s 0 in on_piece ref i (max 0 (min 1 (piece_ratio cum i s))))"

definition subPath :: "conv_env \<Rightarrow> xy list \<Rightarrow> rat list \<Rightarrow> rat \<Rightarrow> rat \<Rightarrow> xy list \<times> rat list" where
  "subPath G ref cum a b =
     (let out = [path_point ref cum a]
            @ map (\<lambda>i. ref ! i) (filter (\<lambda>i. cum ! i > a + 1 / 1000000 \<and> cum ! i < b - 1 / 1000000) [0..<length ref])
            @ [path_point ref cum b]
      in (out, cumOf G out))"

definition foot :: "xy \<Rightarrow> xy \<Rightarrow> xy \<Rightarrow> rat" where
  "foot a b p =
     (let dx = fst b - fst a; dy = snd b - snd a; l2 = dx * dx + dy * dy;
          t = (if l2 \<noteq> 0 then ((fst p - fst a) * dx + (snd p - snd a) * dy) / l2 else 0)
      in if t < 0 then 0 else if t > 1 then 1 else t)"

definition segDist :: "conv_env \<Rightarrow> xy \<Rightarrow> xy \<Rightarrow> xy \<Rightarrow> rat" where
  "segDist G a b p = (let t = foot a b p in
     cv_hypot G (fst p - fst a - t * (fst b - fst a)) (snd p - snd a - t * (snd b - snd a)))"

definition near_step :: "conv_env \<Rightarrow> xy list \<Rightarrow> rat list \<Rightarrow> xy \<Rightarrow> rat \<times> rat \<Rightarrow> nat \<Rightarrow> rat \<times> rat" where
  "near_step G poly cum p sb i =
     (let a = poly ! i; b = poly ! (i + 1); d = segDist G a b p; l2 = (fst b - fst a) * (fst b - fst a) + (snd b - snd a) * (snd b - snd a)
      in if d < snd sb then (cum ! i + foot a b p * cv_sqrt G l2, d) else sb)"

definition nearOn :: "conv_env \<Rightarrow> xy list \<Rightarrow> rat list \<Rightarrow> xy \<Rightarrow> rat \<times> rat" where
  "nearOn G poly cum p = foldl (near_step G poly cum p) (0, 1000000000) [0..<length poly - 1]"

definition dirOf :: "conv_env \<Rightarrow> xy \<Rightarrow> xy \<Rightarrow> xy" where
  "dirOf G a b = (let d = or_one (dist2d G a b) in ((fst b - fst a) / d, (snd b - snd a) / d))"

definition turnSign :: "xy list \<Rightarrow> int" where
  "turnSign P = (if foldl (\<lambda>a k. a + (fst (P ! k) * snd (P ! (k + 1)) - fst (P ! (k + 1)) * snd (P ! k))) 0 [0..<length P - 1] \<ge> 0
     then 1 else - 1)"

definition path_len :: "conv_env \<Rightarrow> xy list \<Rightarrow> rat" where
  "path_len G P = foldl (\<lambda>l k. l + dist2d G (P ! k) (P ! (k - 1))) 0 [1..<length P]"

subsection \<open>The samples of the export\<close>

record log_sample =
  lg_t :: rat
  lg_lat :: "rat option"
  lg_lon :: "rat option"
  lg_hv :: "rat option option"
  lg_values :: "(string, rat option) jsmap"
  lg_cells :: "rat option list option"

record lap_export =
  lx_label :: string
  lx_start :: "rat option"
  lx_end :: "rat option"
  lx_duration :: rat
  lx_energy :: "rat option"
  lx_out :: "rat option"
  lx_in :: "rat option"
  lx_samples :: "log_sample option list option"

definition has_gps :: "log_sample \<Rightarrow> bool" where
  "has_gps s = (case (lg_lat s, lg_lon s) of
       (Some a, Some b) \<Rightarrow> \<bar>a\<bar> \<le> 90 \<and> \<bar>b\<bar> \<le> 180 \<and> (a \<noteq> 0 \<or> b \<noteq> 0)
     | _ \<Rightarrow> False)"

text \<open>A later sample of the same moment overrides an earlier one, but never takes its position or its temperatures away.\<close>

definition merge_sample :: "log_sample \<Rightarrow> log_sample \<Rightarrow> log_sample" where
  "merge_sample old s =
     \<lparr>lg_t = lg_t s, lg_lat = (if has_gps s then lg_lat s else lg_lat old), lg_lon = (if has_gps s then lg_lon s else lg_lon old),
      lg_hv = (case lg_hv s of None \<Rightarrow> lg_hv old | Some v \<Rightarrow> Some v),
      lg_values = fold (\<lambda>kv. jm_set (fst kv) (snd kv)) (lg_values s) (lg_values old),
      lg_cells = (case lg_cells s of Some (c # cs) \<Rightarrow> Some (c # cs) | _ \<Rightarrow> lg_cells old)\<rparr>"

definition add_sample :: "log_sample \<Rightarrow> (rat, log_sample) jsmap \<Rightarrow> (rat, log_sample) jsmap" where
  "add_sample s m = jm_set (lg_t s) (case jm_get m (lg_t s) of None \<Rightarrow> s | Some old \<Rightarrow> merge_sample old s) m"

definition exported_samples :: "lap_export list \<Rightarrow> log_sample option list option \<Rightarrow> log_sample option list \<Rightarrow> log_sample list" where
  "exported_samples laps current tail =
     List.map_filter (\<lambda>s. s) (concat (map (\<lambda>l. case lx_samples l of Some ss \<Rightarrow> ss | None \<Rightarrow> []) laps)
       @ (case current of Some ss \<Rightarrow> ss | None \<Rightarrow> []) @ tail)"

definition merged_samples :: "log_sample list \<Rightarrow> log_sample list" where
  "merged_samples ss = sort_key lg_t (map snd (fold add_sample ss []))"

subsection \<open>Positions between the fixes\<close>

definition fill_step :: "log_sample list \<Rightarrow> nat \<times> log_sample list \<times> rat list \<Rightarrow> log_sample \<Rightarrow> nat \<times> log_sample list \<times> rat list" where
  "fill_step fixes = (\<lambda>(i, out, times) s.
     if has_gps s \<or> lg_t s < lg_t (hd fixes) \<or> lg_t s > lg_t (last fixes) then (i, out @ [s], times)
     else let j = seek_from (map lg_t fixes) (length fixes) (lg_t s) i; a = fixes ! j; b = fixes ! (j + 1);
              f = (lg_t s - lg_t a) / (lg_t b - lg_t a)
          in if lg_t b - lg_t a > 3000 then (j, out @ [s], times)
             else (j, out @ [s\<lparr>lg_lat := Some (the (lg_lat a) + f * (the (lg_lat b) - the (lg_lat a))),
                             lg_lon := Some (the (lg_lon a) + f * (the (lg_lon b) - the (lg_lon a)))\<rparr>], times @ [lg_t s]))"

definition fill_positions :: "log_sample list \<Rightarrow> log_sample list \<times> rat list" where
  "fill_positions ss = snd (foldl (fill_step (filter has_gps ss)) (0, [], []) ss)"

definition update_times :: "log_sample list \<Rightarrow> rat list" where
  "update_times fixes = map (\<lambda>i. lg_t (fixes ! i))
     (filter (\<lambda>i. i = 0 \<or> lg_lat (fixes ! i) \<noteq> lg_lat (fixes ! (i - 1)) \<or> lg_lon (fixes ! i) \<noteq> lg_lon (fixes ! (i - 1))) [0..<length fixes])"

definition slice_gps :: "log_sample list \<Rightarrow> rat \<Rightarrow> rat \<Rightarrow> log_sample list" where
  "slice_gps st t0 t1 = filter (\<lambda>s. lg_t s \<ge> t0 \<and> lg_t s \<le> t1 \<and> has_gps s) st"

definition project :: "conv_env \<Rightarrow> rat \<Rightarrow> rat \<Rightarrow> log_sample \<Rightarrow> xy" where
  "project G lat0 lon0 s = ((the (lg_lon s) - lon0) * (cv_ky G * cv_cos G lat0), (the (lg_lat s) - lat0) * cv_ky G)"

subsection \<open>Laps with a route\<close>

record prepared =
  pp_lap :: lap_export
  pp_i :: nat
  pp_sm :: "log_sample list"

definition lap_start :: "lap_export \<Rightarrow> rat" where
  "lap_start l = the (lx_start l)"

definition lap_end :: "lap_export \<Rightarrow> rat" where
  "lap_end l = the (lx_end l)"

definition timed_laps :: "lap_export list \<Rightarrow> (lap_export \<times> nat) list" where
  "timed_laps laps = sort_key (\<lambda>x. lap_start (fst x))
     (filter (\<lambda>x. case (lx_start (fst x), lx_end (fst x)) of (Some a, Some b) \<Rightarrow> b > a | _ \<Rightarrow> False) (zip laps [0..<length laps]))"

definition prepare_laps :: "log_sample list \<Rightarrow> (lap_export \<times> nat) list \<Rightarrow> prepared list" where
  "prepare_laps st ls = map (\<lambda>(l, i). \<lparr>pp_lap = l, pp_i = i, pp_sm = slice_gps st (lap_start l) (lap_end l)\<rparr>) ls"

definition longest_gap :: "log_sample list \<Rightarrow> rat" where
  "longest_gap rec = foldl (\<lambda>g i. max g (lg_t (rec ! (i + 1)) - lg_t (rec ! i))) 0 [0..<length rec - 1]"

definition has_route :: "conv_env \<Rightarrow> log_sample list \<Rightarrow> prepared \<Rightarrow> bool" where
  "has_route G fixes x =
     (let rec = filter (\<lambda>s. lg_t s \<ge> lap_start (pp_lap x) \<and> lg_t s \<le> lap_end (pp_lap x)) fixes;
          pr = project G (the (lg_lat (hd rec))) (the (lg_lon (hd rec))); xs = map (fst \<circ> pr) rec; ys = map (snd \<circ> pr) rec;
          duration = lap_end (pp_lap x) - lap_start (pp_lap x)
      in length (pp_sm x) \<ge> 12 \<and> length rec \<ge> 12
         \<and> cv_hypot G (Max (set xs) - Min (set xs)) (Max (set ys) - Min (set ys)) \<ge> 10
         \<and> lg_t (last rec) - lg_t (hd rec) \<ge> duration * (8 / 10)
         \<and> longest_gap rec \<le> max 3000 (duration * (1 / 10)))"

subsection \<open>Runs and courses\<close>

record leg = prepared +
  leg_P :: "xy list"
  leg_len :: rat
  leg_start :: xy
  leg_end :: xy
  leg_speed :: rat
  leg_loop :: bool
  leg_returning :: bool

definition comes_back :: "conv_env \<Rightarrow> xy list \<Rightarrow> rat \<Rightarrow> bool" where
  "comes_back G P gap \<longleftrightarrow> dist2d G (P ! (length P - 5)) (P ! 0) > gap
     \<or> list_ex (\<lambda>k. of_nat k > 6 / 10 * (of_nat (length P) :: rat) \<and> segDist G (P ! (k - 1)) (P ! k) (P ! 0) < 6) [0..<length P]"

definition make_leg :: "conv_env \<Rightarrow> (log_sample \<Rightarrow> xy) \<Rightarrow> prepared \<Rightarrow> leg" where
  "make_leg G pr x =
     (let P = map pr (pp_sm x); len = path_len G P; gap = dist2d G (P ! 0) (P ! (length P - 1));
          sec = max 1 (lx_duration (pp_lap x) / 1000); back = comes_back G P gap
      in prepared.extend x
           (leg.fields P len (P ! 0) (P ! (length P - 1)) (len / sec) (gap < 15 \<or> gap < 8 / 100 * len \<and> back) back))"

definition upper_quartile :: "rat list \<Rightarrow> rat" where
  "upper_quartile v = sort v ! nat \<lfloor>75 / 100 * (of_nat (length v) - 1 :: rat)\<rfloor>"

definition driven_like_run :: "leg list \<Rightarrow> leg \<Rightarrow> bool" where
  "driven_like_run legs l \<longleftrightarrow> leg_len l \<ge> 6 / 10 * upper_quartile (map leg_len legs) \<and> leg_speed l \<ge> 4 / 10 * upper_quartile (map leg_speed legs)"

definition run_legs :: "leg list \<Rightarrow> leg list" where
  "run_legs legs = (let runs = filter (driven_like_run legs) legs in if runs = [] then legs else runs)"

definition left_legs :: "leg list \<Rightarrow> leg list" where
  "left_legs legs = (if filter (driven_like_run legs) legs = [] then [] else filter (\<lambda>l. \<not> driven_like_run legs l) legs)"

definition pass_step :: "conv_env \<Rightarrow> leg \<Rightarrow> xy \<Rightarrow> bool \<times> rat \<Rightarrow> nat \<Rightarrow> bool \<times> rat" where
  "pass_step G l p st i =
     (let a = leg_P l ! (i - 1); b = leg_P l ! i; dx = fst b - fst a; dy = snd b - snd a; len = cv_hypot G dx dy;
          f = (if len \<noteq> 0 then max 0 (min 1 (((fst p - fst a) * dx + (snd p - snd a) * dy) / (len * len))) else 0);
          margin = min 20 (max 8 (leg_len l * (5 / 100))); along = snd st + f * len
      in (fst st \<or> along > margin \<and> along < leg_len l - margin \<and> cv_hypot G (fst p - fst a - f * dx) (snd p - snd a - f * dy) < 3,
          snd st + len))"

definition passes :: "conv_env \<Rightarrow> leg \<Rightarrow> xy \<Rightarrow> bool" where
  "passes G l p = fst (foldl (pass_step G l p) (False, 0) [1..<length (leg_P l)])"

definition mark_loop :: "conv_env \<Rightarrow> leg list \<Rightarrow> nat \<Rightarrow> leg" where
  "mark_loop G runs i =
     (let l = runs ! i in
      if \<not> leg_loop l \<and> leg_returning l
      then l\<lparr>leg_loop := list_ex (\<lambda>j. j \<noteq> i \<and> leg_len (runs ! j) > leg_len l * (75 / 100) \<and> leg_len (runs ! j) < leg_len l * (135 / 100)
             \<and> (passes G (runs ! j) (leg_start l) \<or> passes G (runs ! j) (leg_end l))) [0..<length runs]\<rparr>
      else l)"

definition mark_loops :: "conv_env \<Rightarrow> leg list \<Rightarrow> leg list" where
  "mark_loops G runs = map (mark_loop G runs) [0..<length runs]"

definition is_open :: "leg list \<Rightarrow> bool" where
  "is_open runs \<longleftrightarrow> (of_nat (length (filter leg_loop runs)) :: rat) < of_nat (length runs) / 2"

definition line_radius :: "leg \<Rightarrow> leg \<Rightarrow> rat" where
  "line_radius a b = max 25 (1 / 10 * max (leg_len a) (leg_len b))"

definition same_course :: "conv_env \<Rightarrow> bool \<Rightarrow> leg \<Rightarrow> leg \<Rightarrow> bool" where
  "same_course G opn a b =
     (if \<not> opn then turnSign (leg_P a) = turnSign (leg_P b)
      else let r = line_radius a b; da = dirOf G (leg_start a) (leg_end a); db = dirOf G (leg_start b) (leg_end b)
           in dist2d G (leg_start a) (leg_start b) < r \<and> dist2d G (leg_end a) (leg_end b) < r \<and> fst da * fst db + snd da * snd db > 1 / 2)"

fun add_to_group :: "(leg \<Rightarrow> leg \<Rightarrow> bool) \<Rightarrow> leg \<Rightarrow> leg list list \<Rightarrow> leg list list" where
  "add_to_group same l [] = [[l]]"
| "add_to_group same l (g # gs) = (if same (hd g) l then (g @ [l]) # gs else g # add_to_group same l gs)"

definition group_legs :: "(leg \<Rightarrow> leg \<Rightarrow> bool) \<Rightarrow> leg list \<Rightarrow> leg list list" where
  "group_legs same runs = fold (add_to_group same) runs []"

definition reverse_course :: "conv_env \<Rightarrow> bool \<Rightarrow> leg \<Rightarrow> leg \<Rightarrow> bool" where
  "reverse_course G opn a b =
     (if opn then let r = line_radius a b in dist2d G (leg_start a) (leg_end b) < r \<and> dist2d G (leg_end a) (leg_start b) < r
      else turnSign (leg_P a) \<noteq> turnSign (leg_P b))"

definition reverseOf :: "conv_env \<Rightarrow> bool \<Rightarrow> leg list list \<Rightarrow> nat \<Rightarrow> nat option" where
  "reverseOf G opn groups k = List.find (\<lambda>j. reverse_course G opn (hd (groups ! j)) (hd (groups ! k))) [0..<k]"

record course =
  co_legs :: "leg list"
  co_open :: bool
  co_label :: string

definition course_label :: "conv_env \<Rightarrow> bool \<Rightarrow> leg list list \<Rightarrow> nat \<Rightarrow> string" where
  "course_label G opn groups k =
     (if length groups = 1 then []
      else ''Course '' @ nat_text (k + 1) @ (case reverseOf G opn groups k of None \<Rightarrow> [] | Some j \<Rightarrow> '' (reverse of '' @ nat_text (j + 1) @ '')''))"

definition planCourses :: "conv_env \<Rightarrow> (log_sample \<Rightarrow> xy) \<Rightarrow> prepared list \<Rightarrow> course list \<times> leg list" where
  "planCourses G pr prep =
     (let legs = map (make_leg G pr) prep; runs = mark_loops G (run_legs legs); opn = is_open runs; groups = group_legs (same_course G opn) runs
      in (map (\<lambda>k. \<lparr>co_legs = groups ! k, co_open = opn, co_label = course_label G opn groups k\<rparr>) [0..<length groups], left_legs legs))"


subsection \<open>The merged samples\<close>

definition samples_ok :: "log_sample list \<Rightarrow> (rat, log_sample) jsmap \<Rightarrow> bool" where
  "samples_ok ss m \<longleftrightarrow> jm_ok m \<and> dom (jm_get m) = lg_t ` set ss
     \<and> (\<forall>t s. jm_get m t = Some s \<longrightarrow> lg_t s = t \<and> (has_gps s \<longleftrightarrow> (\<exists>x \<in> set ss. lg_t x = t \<and> has_gps x)))"

lemma merge_gps: "has_gps (merge_sample old s) \<longleftrightarrow> has_gps old \<or> has_gps s"
  by (cases "has_gps s") (simp_all add: merge_sample_def has_gps_def)

lemma add_sample_ok:
  assumes "samples_ok ss m"
  shows "samples_ok (ss @ [s]) (add_sample s m)"
proof -
  let ?v = "case jm_get m (lg_t s) of None \<Rightarrow> s | Some old \<Rightarrow> merge_sample old s"
  have get: "jm_get (add_sample s m) = (jm_get m)(lg_t s \<mapsto> ?v)" by (simp add: add_sample_def jm_get_set)
  have t: "lg_t ?v = lg_t s" by (simp add: merge_sample_def split: option.split)
  have g: "has_gps ?v \<longleftrightarrow> (\<exists>x \<in> set (ss @ [s]). lg_t x = lg_t s \<and> has_gps x)"
  proof (cases "jm_get m (lg_t s)")
    case None
    then have "lg_t s \<notin> lg_t ` set ss" using assms by (auto simp: samples_ok_def)
    then have "\<not> (\<exists>x \<in> set ss. lg_t x = lg_t s \<and> has_gps x)" by (metis image_eqI)
    then show ?thesis using None by auto
  next
    case (Some old)
    then have "has_gps old \<longleftrightarrow> (\<exists>x \<in> set ss. lg_t x = lg_t s \<and> has_gps x)" using assms by (simp add: samples_ok_def)
    then show ?thesis using Some by (auto simp: merge_gps)
  qed
  have "jm_ok (add_sample s m)" using assms by (simp add: samples_ok_def add_sample_def jm_ok_set)
  moreover have "dom (jm_get (add_sample s m)) = lg_t ` set (ss @ [s])"
  proof -
    have "dom (jm_get m) = lg_t ` set ss" using assms by (simp add: samples_ok_def)
    then show ?thesis unfolding get by simp
  qed
  moreover have "lg_t x = t \<and> (has_gps x \<longleftrightarrow> (\<exists>y \<in> set (ss @ [s]). lg_t y = t \<and> has_gps y))"
    if "jm_get (add_sample s m) t = Some x" for t x
  proof (cases "t = lg_t s")
    case True
    then have "x = ?v" using that by (simp add: get)
    then show ?thesis using t g True by metis
  next
    case False
    then have "jm_get m t = Some x" using that by (simp add: get)
    then show ?thesis using assms False by (auto simp: samples_ok_def)
  qed
  ultimately show ?thesis unfolding samples_ok_def by blast
qed

lemma fold_samples_ok: "samples_ok ss (fold add_sample ss [])"
proof (induction ss rule: rev_induct)
  case Nil
  show ?case by (simp add: samples_ok_def jm_get_def [abs_def])
next
  case (snoc s ss)
  then show ?case using add_sample_ok by simp
qed

lemma merged_sorted: "sorted_wrt (<) (map lg_t (merged_samples ss))"
proof -
  let ?m = "fold add_sample ss []"
  have ok: "samples_ok ss ?m" by (rule fold_samples_ok)
  have k: "map lg_t (map snd ?m) = map fst ?m"
  proof -
    have "lg_t (snd p) = fst p" if "p \<in> set ?m" for p
      using ok that in_set_jm_get [of ?m "fst p" "snd p"] by (auto simp: samples_ok_def)
    then show ?thesis by simp
  qed
  have "distinct (map lg_t (map snd ?m))" using ok unfolding k by (simp add: samples_ok_def jm_ok_def)
  moreover have "mset (map lg_t (merged_samples ss)) = mset (map lg_t (map snd ?m))"
    unfolding merged_samples_def by (metis mset_map mset_sort)
  ultimately have "distinct (map lg_t (merged_samples ss))" by (metis mset_eq_imp_distinct_iff)
  then show ?thesis by (simp add: merged_samples_def strict_sorted_iff del: map_map)
qed

lemma merged_mem: "s \<in> set (merged_samples ss) \<longleftrightarrow> jm_get (fold add_sample ss []) (lg_t s) = Some s"
proof -
  have ok: "samples_ok ss (fold add_sample ss [])" by (rule fold_samples_ok)
  have "s \<in> set (merged_samples ss) \<longleftrightarrow> (\<exists>t. (t, s) \<in> set (fold add_sample ss []))" by (force simp: merged_samples_def)
  also have "\<dots> \<longleftrightarrow> (\<exists>t. jm_get (fold add_sample ss []) t = Some s)"
    using ok in_set_jm_get jm_get_in_set unfolding samples_ok_def by metis
  also have "\<dots> \<longleftrightarrow> jm_get (fold add_sample ss []) (lg_t s) = Some s" using ok unfolding samples_ok_def by metis
  finally show ?thesis .
qed

text \<open>One sample for every moment of the export, in order, and no fix is lost.\<close>

lemma merged_samples_sound:
  "sorted_wrt (<) (map lg_t (merged_samples ss)) \<and> lg_t ` set (merged_samples ss) = lg_t ` set ss
    \<and> (s \<in> set (merged_samples ss) \<longrightarrow> (has_gps s \<longleftrightarrow> (\<exists>x \<in> set ss. lg_t x = lg_t s \<and> has_gps x)))"
proof -
  have ok: "samples_ok ss (fold add_sample ss [])" by (rule fold_samples_ok)
  have "lg_t ` set (merged_samples ss) = dom (jm_get (fold add_sample ss []))"
  proof (rule set_eqI)
    fix t
    have "t \<in> lg_t ` set (merged_samples ss) \<longleftrightarrow> (\<exists>s. lg_t s = t \<and> jm_get (fold add_sample ss []) t = Some s)"
      using merged_mem by (auto simp: image_iff)
    also have "\<dots> \<longleftrightarrow> t \<in> dom (jm_get (fold add_sample ss []))" using ok unfolding samples_ok_def dom_def by blast
    finally show "t \<in> lg_t ` set (merged_samples ss) \<longleftrightarrow> t \<in> dom (jm_get (fold add_sample ss []))" .
  qed
  then show ?thesis using merged_sorted merged_mem ok unfolding samples_ok_def by metis
qed


subsection \<open>The positions that are filled in\<close>

lemma seek_from_spec:
  "i + 1 < n \<Longrightarrow> cum ! i < s \<Longrightarrow>
     i \<le> seek_from cum n s i \<and> seek_from cum n s i + 1 < n \<and> cum ! seek_from cum n s i < s
     \<and> (seek_from cum n s i + 2 < n \<longrightarrow> s \<le> cum ! (seek_from cum n s i + 1))"
proof (induction cum n s i rule: seek_from.induct)
  case (1 cum n s i)
  show ?case
  proof (cases "i + 2 < n \<and> cum ! (i + 1) < s")
    case True
    then have "seek_from cum n s i = seek_from cum n s (i + 1)" by (simp add: seek_from.simps [of cum n s i])
    then show ?thesis using 1(1) [OF True] True by auto
  next
    case False
    then have "seek_from cum n s i = i" by (simp only: seek_from.simps [of cum n s i] if_False)
    then show ?thesis using 1(2,3) False by auto
  qed
qed

text \<open>A sample keeps what it has, or lies on the straight between two neighbouring fixes at most three seconds apart.\<close>

definition filled_from :: "log_sample list \<Rightarrow> log_sample \<Rightarrow> log_sample \<Rightarrow> bool" where
  "filled_from fixes s s' \<longleftrightarrow> s' = s \<or> \<not> has_gps s \<and> (\<exists>j f. j + 1 < length fixes
     \<and> lg_t (fixes ! j) < lg_t s \<and> lg_t s < lg_t (fixes ! (j + 1)) \<and> lg_t (fixes ! (j + 1)) - lg_t (fixes ! j) \<le> 3000
     \<and> f = (lg_t s - lg_t (fixes ! j)) / (lg_t (fixes ! (j + 1)) - lg_t (fixes ! j)) \<and> 0 < f \<and> f < 1
     \<and> s' = s\<lparr>lg_lat := Some (the (lg_lat (fixes ! j)) + f * (the (lg_lat (fixes ! (j + 1))) - the (lg_lat (fixes ! j)))),
              lg_lon := Some (the (lg_lon (fixes ! j)) + f * (the (lg_lon (fixes ! (j + 1))) - the (lg_lon (fixes ! j))))\<rparr>)"

lemma fill_step_ok:
  assumes "i + 1 < length fixes" "has_gps s \<or> lg_t s \<notin> lg_t ` set fixes" "i = 0 \<or> lg_t (fixes ! i) < lg_t s"
  shows "\<exists>j s' ts. fill_step fixes (i, out, tms) s = (j, out @ [s'], tms @ ts) \<and> filled_from fixes s s'
    \<and> j + 1 < length fixes \<and> (j = 0 \<or> lg_t (fixes ! j) < lg_t s)"
proof (cases "has_gps s \<or> lg_t s < lg_t (hd fixes) \<or> lg_t s > lg_t (last fixes)")
  case True
  then have "fill_step fixes (i, out, tms) s = (i, out @ [s], tms @ [])" by (simp add: fill_step_def)
  then show ?thesis using assms unfolding filled_from_def by blast
next
  case False
  note nb = False
  let ?cum = "map lg_t fixes" and ?n = "length fixes"
  define j where "j = seek_from ?cum ?n (lg_t s) i"
  have ne: "fixes \<noteq> []" using assms(1) by auto
  have out: "lg_t s \<noteq> lg_t x" if "x \<in> set fixes" for x using False assms(2) that by (metis image_eqI)
  have "lg_t (fixes ! 0) < lg_t s" using False out [of "hd fixes"] ne by (simp add: hd_conv_nth not_less)
  then have "?cum ! i < lg_t s" using assms(1,3) by auto
  from seek_from_spec [OF assms(1) this] have j: "j + 1 < ?n" "?cum ! j < lg_t s" "j + 2 < ?n \<Longrightarrow> lg_t s \<le> ?cum ! (j + 1)"
    unfolding j_def by blast+
  have jt: "lg_t (fixes ! j) < lg_t s" using j(1,2) by simp
  have "lg_t s \<le> lg_t (fixes ! (j + 1))"
  proof (cases "j + 2 < ?n")
    case False
    then have "j + 1 = ?n - 1" using j(1) by linarith
    then show ?thesis using nb ne by (simp add: last_conv_nth not_less)
  qed (use j in simp)
  then have up: "lg_t s < lg_t (fixes ! (j + 1))" using out [of "fixes ! (j + 1)"] j(1) by simp
  let ?a = "fixes ! j" and ?b = "fixes ! (j + 1)"
  let ?f = "(lg_t s - lg_t ?a) / (lg_t ?b - lg_t ?a)"
  have f: "0 < ?f" "?f < 1" using jt up by (simp_all add: divide_less_eq_1)
  show ?thesis
  proof (cases "lg_t ?b - lg_t ?a > 3000")
    case True
    then have "fill_step fixes (i, out, tms) s = (j, out @ [s], tms @ [])" using False by (simp add: fill_step_def j_def Let_def)
    then show ?thesis using j(1) jt unfolding filled_from_def by blast
  next
    case near: False
    let ?s = "s\<lparr>lg_lat := Some (the (lg_lat ?a) + ?f * (the (lg_lat ?b) - the (lg_lat ?a))),
      lg_lon := Some (the (lg_lon ?a) + ?f * (the (lg_lon ?b) - the (lg_lon ?a)))\<rparr>"
    have "fill_step fixes (i, out, tms) s = (j, out @ [?s], tms @ [lg_t s])" using False near by (simp add: fill_step_def j_def Let_def)
    moreover have "filled_from fixes s ?s" using False j(1) jt up near f unfolding filled_from_def by (auto simp: not_less)
    ultimately show ?thesis using j(1) jt by blast
  qed
qed

lemma fill_steps:
  "sorted_wrt (<) (map lg_t xs) \<Longrightarrow> (\<And>s. s \<in> set xs \<Longrightarrow> has_gps s \<or> lg_t s \<notin> lg_t ` set fixes) \<Longrightarrow> i + 1 < length fixes
    \<Longrightarrow> (\<And>s. s \<in> set xs \<Longrightarrow> i = 0 \<or> lg_t (fixes ! i) < lg_t s)
    \<Longrightarrow> \<exists>ys. fst (snd (foldl (fill_step fixes) (i, out, tms) xs)) = out @ ys \<and> list_all2 (filled_from fixes) xs ys"
proof (induction xs arbitrary: i out tms)
  case (Cons s xs)
  from fill_step_ok [OF Cons.prems(3), of s out tms] Cons.prems(2,4)
  obtain j s' ts where st: "fill_step fixes (i, out, tms) s = (j, out @ [s'], tms @ ts)" "filled_from fixes s s'"
    "j + 1 < length fixes" "j = 0 \<or> lg_t (fixes ! j) < lg_t s" by auto
  have "j = 0 \<or> lg_t (fixes ! j) < lg_t x" if "x \<in> set xs" for x using st(4) Cons.prems(1) that by force
  then obtain ys where "fst (snd (foldl (fill_step fixes) (j, out @ [s'], tms @ ts) xs)) = (out @ [s']) @ ys"
    "list_all2 (filled_from fixes) xs ys"
    using Cons.IH [OF _ _ st(3), of "out @ [s']" "tms @ ts"] Cons.prems(1,2) by auto
  then show ?case using st(1,2) by (intro exI [of _ "s' # ys"]) simp
qed simp

lemma fill_positions_ok:
  assumes "sorted_wrt (<) (map lg_t ss)" "2 \<le> length (filter has_gps ss)"
  shows "list_all2 (filled_from (filter has_gps ss)) ss (fst (fill_positions ss))"
proof -
  have "has_gps s \<or> lg_t s \<notin> lg_t ` set (filter has_gps ss)" if "s \<in> set ss" for s
  proof -
    have "x = s" if "x \<in> set ss" "lg_t x = lg_t s" for x
      using that \<open>s \<in> set ss\<close> assms(1) strict_sorted_iff [of "map lg_t ss"] by (metis distinct_map inj_onD)
    then show ?thesis by auto
  qed
  then show ?thesis using fill_steps [OF assms(1), of "filter has_gps ss" 0 "[]" "[]"] assms(2) by (auto simp: fill_positions_def)
qed


subsection \<open>Every lap belongs to one course\<close>

lemma add_to_group_mset: "mset (concat (add_to_group same l gs)) = add_mset l (mset (concat gs))"
  by (induction gs) simp_all

lemma add_to_group_hd: "list_all (\<lambda>g. g \<noteq> []) gs \<Longrightarrow>
    list_all (\<lambda>g. g \<noteq> [] \<and> list_all (same (hd g)) (tl g)) gs \<Longrightarrow>
    list_all (\<lambda>g. g \<noteq> [] \<and> list_all (same (hd g)) (tl g)) (add_to_group same l gs)"
  by (induction gs) simp_all

lemma add_to_group_mem: "g \<in> set (add_to_group same l gs) \<Longrightarrow> list_all (\<lambda>g. g \<noteq> []) gs \<Longrightarrow>
    (\<exists>h \<in> set gs. hd g = hd h) \<or> hd g = l \<and> list_all (\<lambda>h. \<not> same (hd h) l) gs"
  by (induction gs) (auto split: if_splits)

definition apart :: "(leg \<Rightarrow> leg \<Rightarrow> bool) \<Rightarrow> leg list list \<Rightarrow> bool" where
  "apart same gs = sorted_wrt (\<lambda>g h. \<not> same (hd g) (hd h)) gs"

lemma add_to_group_apart: "list_all (\<lambda>g. g \<noteq> []) gs \<Longrightarrow> apart same gs \<Longrightarrow> apart same (add_to_group same l gs)"
proof (induction gs)
  case (Cons g gs)
  show ?case
  proof (cases "same (hd g) l")
    case True
    then show ?thesis using Cons.prems by (simp add: apart_def)
  next
    case False
    have "\<not> same (hd g) (hd h)" if "h \<in> set (add_to_group same l gs)" for h
      using add_to_group_mem [OF that] Cons.prems False by (auto simp: apart_def)
    then show ?thesis using Cons False by (simp add: apart_def)
  qed
qed (simp add: apart_def)

lemma group_legs_ok:
  "mset (concat (group_legs same runs)) = mset runs
    \<and> list_all (\<lambda>g. g \<noteq> [] \<and> list_all (same (hd g)) (tl g)) (group_legs same runs) \<and> apart same (group_legs same runs)"
proof (induction runs rule: rev_induct)
  case (snoc l runs)
  let ?gs = "group_legs same runs"
  have "list_all (\<lambda>g. g \<noteq> []) ?gs" using snoc by (simp add: list_all_iff)
  moreover have "group_legs same (runs @ [l]) = add_to_group same l ?gs" by (simp add: group_legs_def)
  ultimately show ?case using snoc by (simp add: add_to_group_mset add_to_group_hd add_to_group_apart)
qed (simp add: group_legs_def apart_def)

lemma leg_loop_pp: "pp_i (l\<lparr>leg_loop := b\<rparr>) = pp_i l" "pp_sm (l\<lparr>leg_loop := b\<rparr>) = pp_sm l" "pp_lap (l\<lparr>leg_loop := b\<rparr>) = pp_lap l" for l :: leg
  by (cases l; simp)+

lemma mark_loop_pp: "pp_i (mark_loop G runs i) = pp_i (runs ! i)" "pp_sm (mark_loop G runs i) = pp_sm (runs ! i)"
  "pp_lap (mark_loop G runs i) = pp_lap (runs ! i)"
  by (simp_all only: mark_loop_def Let_def leg_loop_pp split: if_split) simp_all

lemma mark_loops_pp: "map pp_i (mark_loops G runs) = map pp_i runs" "map pp_sm (mark_loops G runs) = map pp_sm runs"
  "map pp_lap (mark_loops G runs) = map pp_lap runs"
  by (rule nth_equalityI; simp add: mark_loops_def mark_loop_pp)+

lemma runs_and_left: "mset (run_legs legs @ left_legs legs) = mset legs"
  by (simp add: run_legs_def left_legs_def Let_def)

lemma make_leg_pp [simp]: "pp_i (make_leg G pr x) = pp_i x" "pp_sm (make_leg G pr x) = pp_sm x" "pp_lap (make_leg G pr x) = pp_lap x"
  by (simp_all add: make_leg_def Let_def prepared.defs leg.defs)

lemma planCourses_legs:
  fixes G pr prep
  defines "legs \<equiv> map (make_leg G pr) prep" and "runs \<equiv> mark_loops G (run_legs (map (make_leg G pr) prep))"
  shows "map co_legs (fst (planCourses G pr prep)) = group_legs (same_course G (is_open runs)) runs"
    "c \<in> set (fst (planCourses G pr prep)) \<Longrightarrow> co_open c = is_open runs"
    "snd (planCourses G pr prep) = left_legs legs"
proof -
  let ?gs = "group_legs (same_course G (is_open runs)) runs"
  have p: "planCourses G pr prep
      = (map (\<lambda>k. \<lparr>co_legs = ?gs ! k, co_open = is_open runs, co_label = course_label G (is_open runs) ?gs k\<rparr>) [0..<length ?gs], left_legs legs)"
    by (simp only: planCourses_def Let_def legs_def runs_def)
  have "map co_legs (map (\<lambda>k. \<lparr>co_legs = gs ! k, co_open = opn, co_label = lab k\<rparr>) [0..<length gs]) = gs" for gs opn lab
    by (simp add: o_def map_nth)
  then show "map co_legs (fst (planCourses G pr prep)) = ?gs" unfolding p fst_conv .
  show "c \<in> set (fst (planCourses G pr prep)) \<Longrightarrow> co_open c = is_open runs" unfolding p fst_conv by force
  show "snd (planCourses G pr prep) = left_legs legs" by (simp only: p snd_conv)
qed

text \<open>C15: every lap with a route is in exactly one course or among those left out; the laps of a course start, end and run like its first
  lap, and no two courses do.\<close>

theorem courses_partition:
  "mset (map pp_i (concat (map co_legs (fst (planCourses G pr prep)))) @ map pp_i (snd (planCourses G pr prep))) = mset (map pp_i prep)
    \<and> list_all (\<lambda>c. co_legs c \<noteq> [] \<and> list_all (same_course G (co_open c) (hd (co_legs c))) (tl (co_legs c))) (fst (planCourses G pr prep))
    \<and> sorted_wrt (\<lambda>c d. \<not> same_course G (co_open c) (hd (co_legs c)) (hd (co_legs d))) (fst (planCourses G pr prep))"
proof -
  define legs where "legs = map (make_leg G pr) prep"
  define runs where "runs = mark_loops G (run_legs legs)"
  define cs where "cs = fst (planCourses G pr prep)"
  note gs = group_legs_ok [of "same_course G (is_open runs)" runs]
  have cs: "map co_legs cs = group_legs (same_course G (is_open runs)) runs" "c \<in> set cs \<Longrightarrow> co_open c = is_open runs" for c
    unfolding cs_def runs_def legs_def by (rule planCourses_legs)+
  have "mset (map pp_i (concat (map co_legs cs))) = mset (map pp_i runs)" using gs unfolding cs(1) by (metis mset_map)
  moreover have "map pp_i runs = map pp_i (run_legs legs)" unfolding runs_def by (rule mark_loops_pp)
  moreover have "mset (map pp_i (run_legs legs) @ map pp_i (left_legs legs)) = mset (map pp_i legs)"
    using runs_and_left by (metis map_append mset_map)
  moreover have "map pp_i legs = map pp_i prep" by (simp add: legs_def)
  ultimately have part: "mset (map pp_i (concat (map co_legs cs)) @ map pp_i (snd (planCourses G pr prep))) = mset (map pp_i prep)"
    by (simp add: planCourses_legs(3) legs_def [symmetric])
  have "list_all (\<lambda>g. g \<noteq> [] \<and> list_all (same_course G (is_open runs) (hd g)) (tl g)) (map co_legs cs)" using gs unfolding cs(1) by simp
  then have alike: "list_all (\<lambda>c. co_legs c \<noteq> [] \<and> list_all (same_course G (co_open c) (hd (co_legs c))) (tl (co_legs c))) cs"
    using cs(2) by (simp add: list_all_iff)
  have "sorted_wrt (\<lambda>g h. \<not> same_course G (is_open runs) (hd g) (hd h)) (map co_legs cs)" using gs unfolding cs(1) by (simp add: apart_def)
  then have "sorted_wrt (\<lambda>c d. \<not> same_course G (is_open runs) (hd (co_legs c)) (hd (co_legs d))) cs" by (simp add: sorted_wrt_map)
  then have "sorted_wrt (\<lambda>c d. \<not> same_course G (co_open c) (hd (co_legs c)) (hd (co_legs d))) cs"
    by (rule sorted_wrt_mono_rel [rotated]) (simp add: cs(2))
  then show ?thesis using part alike by (simp add: cs_def)
qed

end
