(* ===== verification/DriveNotes.thy ===== *)
theory DriveNotes
  imports DriveSession NumberText
begin

text \<open>
  What a driver marks on a run and where it is kept: the notes of \<^verbatim>\<open>viewer_tool/src/lib/driveday/types.ts\<close> and the run store of
  \<^verbatim>\<open>storage.ts\<close>. A run has a lap (the import refuses one without), so the origin of its clock is the least of its lap starts.
\<close>

subsection \<open>Notes\<close>

record lap_flag =
  lf_include :: "bool option"
  lf_f :: "string option"
  lf_x :: "rat option"

record mark_video =
  mv_key :: string
  mv_name :: string
  mv_time :: rat

datatype mark_category = CNote | CBraking | CCone | COffcourse | CVideo

record mark =
  mk_video :: "mark_video option"
  mk_category :: "mark_category option"
  mk_id :: string
  mk_t :: rat
  mk_text :: string

record validity =
  va_cones :: bool
  va_offCourse :: bool
  va_incomplete :: bool

datatype setup_value = SText string | SNum jsnum

record user_state =
  us_validity :: "validity option"
  us_dismissed :: "string list"
  us_setup :: "(string, setup_value) jsmap"
  us_cones :: "(nat, rat) jsmap"
  us_flags :: "(nat, lap_flag) jsmap"
  us_marks :: "mark list"
  us_ce :: "cone_event list"

definition emptyUserState :: user_state where
  "emptyUserState = \<lparr>us_validity = None, us_dismissed = [], us_setup = [], us_cones = [], us_flags = [], us_marks = [], us_ce = []\<rparr>"

subsection \<open>Cone labels\<close>

definition is_sep :: "char \<Rightarrow> bool" where
  "is_sep c \<longleftrightarrow> is_space c \<or> c = CHR ''_'' \<or> c = CHR ''-''"

definition strip_prefix :: "string \<Rightarrow> string \<Rightarrow> string option" where
  "strip_prefix p s = (if starts_with p s then Some (drop (length p) s) else None)"

text \<open>The regular expression \<^verbatim>\<open>/^(?:hit[\s_-]*)?cones?(?:[\s_-]*hit)?$/i\<close>, read from left to right: none of its options overlaps
  with what may follow it.\<close>

definition cone_tail :: "string \<Rightarrow> bool" where
  "cone_tail s \<longleftrightarrow> s = [] \<or> dropWhile is_sep s = ''hit''"

definition cone_word :: "string \<Rightarrow> bool" where
  "cone_word s = (case strip_prefix ''cone'' s of None \<Rightarrow> False
     | Some r \<Rightarrow> cone_tail (case r of c # t \<Rightarrow> if c = CHR ''s'' then t else r | [] \<Rightarrow> r))"

definition isConeLabel :: "string \<Rightarrow> bool" where
  "isConeLabel label =
     (let s = lower (trim label) in
      case strip_prefix ''hit'' s of Some r \<Rightarrow> cone_word (dropWhile is_sep r) | None \<Rightarrow> cone_word s)"

subsection \<open>Imported flags and cones\<close>

record flag =
  fg_t :: rat
  fg_label :: string

text \<open>A flag time is a whole number of milliseconds, printed as such.\<close>

definition flag_id :: "flag \<Rightarrow> string" where
  "flag_id f = ''flag-'' @ decimal_text 0 (rat_round (fg_t f))"

definition seed_flag :: "string list \<Rightarrow> rat \<Rightarrow> flag \<Rightarrow> mark list \<Rightarrow> mark list" where
  "seed_flag have T0 f marks =
     (if flag_id f \<in> set have \<or> isConeLabel (fg_label f) then marks
      else marks @ [\<lparr>mk_video = None, mk_category = None, mk_id = flag_id f, mk_t = of_int (rat_round (fg_t f - T0)), mk_text = fg_label f\<rparr>])"

definition seedFlags :: "user_state \<Rightarrow> flag list \<Rightarrow> rat \<Rightarrow> user_state" where
  "seedFlags u flags T0 = u\<lparr>us_marks := fold (seed_flag (map mk_id (us_marks u)) T0) flags (us_marks u)\<rparr>"

definition run_origin :: "run_data \<Rightarrow> rat" where
  "run_origin D = foldl min (lp_t0 (hd (rd_laps D))) (map lp_t0 (tl (rd_laps D)))"

definition cone_map :: "cone_event list \<Rightarrow> (string, cone_event) jsmap" where
  "cone_map es = fold (\<lambda>e. jm_set (ce_id e) e) es []"

definition seedCones :: "run_data \<Rightarrow> user_state \<Rightarrow> user_state" where
  "seedCones D u =
     (let origin = run_origin D;
          new = filter (\<lambda>e. ce_id e \<notin> set (us_dismissed u)) (rd_coneEvents D);
          events = fold (\<lambda>e. jm_set (ce_id e) (e\<lparr>ce_t := ce_t e - origin\<rparr>)) new (cone_map (us_ce u))
      in u\<lparr>us_ce := sort_key ce_t (map snd events)\<rparr>)"

subsection \<open>The run list\<close>

record run_entry =
  re_id :: string
  re_name :: string
  re_driver :: string
  re_venue :: string
  re_event :: string
  re_track :: string
  re_trackId :: string
  re_ts :: rat
  re_laps :: nat
  re_best :: "rat option"
  re_added :: rat

definition min_of :: "rat list \<Rightarrow> rat option" where
  "min_of xs = (case xs of [] \<Rightarrow> None | y # ys \<Rightarrow> Some (foldl min y ys))"

definition metaOf :: "run_data \<Rightarrow> rat \<Rightarrow> run_entry" where
  "metaOf D now =
     (let m = rd_meta D; runs = filter (\<lambda>l. lp_kind l = KLap) (rd_laps D) in
      \<lparr>re_id = rm_sessId m, re_name = rm_name m, re_driver = rm_driver m, re_venue = rm_venue m, re_event = rm_event m,
       re_track = rm_trackName m, re_trackId = rm_trackId m,
       re_ts = (case min_of (map lp_t0 (rd_laps D)) of Some t \<Rightarrow> t | None \<Rightarrow> 0),
       re_laps = length runs, re_best = min_of (map lp_dur runs), re_added = now\<rparr>)"

text \<open>One set of stores: the browser's database and its replacement in memory have the same shape.\<close>

record run_stores =
  rs_meta :: "(string, run_entry) jsmap"
  rs_data :: "(string, run_data) jsmap"

record storage =
  sg_memory :: bool
  sg_problem :: "string option"
  sg_blocked :: bool
  sg_idb :: run_stores
  sg_mem :: run_stores

datatype store_error = Storage_error

definition blocked_text :: string where
  "blocked_text = ''Another tab with an older copy of this page is holding the run storage. Close it and reload to get your saved runs back. Imports last for this tab until then.''"

text \<open>An operation runs on the database when it opens and on the memory from the first time it does not. What the database answers
  is an argument: whether another tab was holding it (\<^verbatim>\<open>onblocked\<close>), whether it opened in the end, and whether the transaction went
  through; a transaction that fails changes nothing. The order of the run list, by id in the database and by age in memory, is
  not modelled.\<close>

datatype db_answer = Opens bool bool | Fails bool string

definition answer_blocked :: "db_answer \<Rightarrow> bool" where
  "answer_blocked a = (case a of Opens b _ \<Rightarrow> b | Fails b _ \<Rightarrow> b)"

definition guard_open :: "db_answer \<Rightarrow> storage \<Rightarrow> storage" where
  "guard_open a st =
     (if sg_memory st then st
      else let st1 = st\<lparr>sg_blocked := sg_blocked st \<or> answer_blocked a\<rparr> in
        (case a of Opens _ _ \<Rightarrow> st1
         | Fails _ e \<Rightarrow> st1\<lparr>sg_memory := True, sg_problem := Some (if sg_blocked st1 then blocked_text else e)\<rparr>))"

definition goes_through :: "db_answer \<Rightarrow> bool" where
  "goes_through a = (case a of Opens _ ok \<Rightarrow> ok | Fails _ _ \<Rightarrow> False)"

definition guarded :: "db_answer \<Rightarrow> (run_stores \<Rightarrow> 'a \<times> run_stores) \<Rightarrow> storage \<Rightarrow> (store_error + 'a) \<times> storage" where
  "guarded a f st =
     (let st1 = guard_open a st in
      if sg_memory st1 then (let (x, m) = f (sg_mem st1) in (Inr x, st1\<lparr>sg_mem := m\<rparr>))
      else if goes_through a then (let (x, d) = f (sg_idb st1) in (Inr x, st1\<lparr>sg_idb := d\<rparr>))
      else (Inl Storage_error, st1))"

definition notes_list :: "db_answer \<Rightarrow> storage \<Rightarrow> (store_error + run_entry list) \<times> storage" where
  "notes_list a = guarded a (\<lambda>s. (map snd (rs_meta s), s))"

definition store_get :: "string \<Rightarrow> db_answer \<Rightarrow> storage \<Rightarrow> (store_error + run_data option) \<times> storage" where
  "store_get i a = guarded a (\<lambda>s. (jm_get (rs_data s) i, s))"

definition store_put :: "run_entry \<Rightarrow> run_data \<Rightarrow> db_answer \<Rightarrow> storage \<Rightarrow> (store_error + unit) \<times> storage" where
  "store_put m D a = guarded a (\<lambda>s. ((), \<lparr>rs_meta = jm_set (re_id m) m (rs_meta s), rs_data = jm_set (re_id m) D (rs_data s)\<rparr>))"

definition store_del :: "string \<Rightarrow> db_answer \<Rightarrow> storage \<Rightarrow> (store_error + unit) \<times> storage" where
  "store_del i a = guarded a (\<lambda>s. ((), \<lparr>rs_meta = jm_delete i (rs_meta s), rs_data = jm_delete i (rs_data s)\<rparr>))"

subsection \<open>Importing the same file again\<close>

lemma seed_flag_ids:
  "set (map mk_id (fold (seed_flag have T0) flags marks)) =
     set (map mk_id marks) \<union> {flag_id f | f. f \<in> set flags \<and> flag_id f \<notin> set have \<and> \<not> isConeLabel (fg_label f)}"
proof (induction flags arbitrary: marks)
  case (Cons f flags)
  show ?case using Cons.IH [of "seed_flag have T0 f marks"] by (auto simp: seed_flag_def)
qed simp

lemma seed_flags_known:
  "(\<forall>f \<in> set flags. flag_id f \<in> set have \<or> isConeLabel (fg_label f)) \<Longrightarrow> fold (seed_flag have T0) flags marks = marks"
  by (induction flags) (simp_all add: seed_flag_def)

text \<open>importing the flags of the same file a second time adds nothing, and no cone flag becomes a mark.\<close>

theorem seedFlags_idempotent:
  "seedFlags (seedFlags u flags T0) flags T0 = seedFlags u flags T0
    \<and> (\<forall>m \<in> set (us_marks (seedFlags u flags T0)). m \<in> set (us_marks u) \<or> \<not> isConeLabel (mk_text m))"
proof -
  have "flag_id f \<in> set (map mk_id (us_marks (seedFlags u flags T0))) \<or> isConeLabel (fg_label f)" if "f \<in> set flags" for f
    using that seed_flag_ids [of "map mk_id (us_marks u)" T0 flags "us_marks u"] by (auto simp: seedFlags_def)
  then have "seedFlags (seedFlags u flags T0) flags T0 = seedFlags u flags T0"
    using seed_flags_known [of flags "map mk_id (us_marks (seedFlags u flags T0))"] by (simp add: seedFlags_def)
  moreover have "\<forall>m \<in> set (fold (seed_flag have T0) flags marks). m \<in> set marks \<or> \<not> isConeLabel (mk_text m)" for "have" marks
  proof (induction flags arbitrary: marks)
    case (Cons f flags)
    have "\<forall>m \<in> set (seed_flag have T0 f marks). m \<in> set marks \<or> \<not> isConeLabel (mk_text m)" by (simp add: seed_flag_def)
    then show ?case using Cons.IH [of "seed_flag have T0 f marks"] by auto
  qed simp
  ultimately show ?thesis by (simp add: seedFlags_def)
qed

lemma cone_label_examples:
  "isConeLabel ''Hit Cone''" "isConeLabel '' cones_hit ''" "isConeLabel ''HIT-CONES''" "\<not> isConeLabel ''iconed''" "\<not> isConeLabel ''cone 3''"
  by code_simp+

subsection \<open>Cones are merged by identity\<close>

definition keyed :: "(string, cone_event) jsmap \<Rightarrow> bool" where
  "keyed m \<longleftrightarrow> jm_ok m \<and> (\<forall>x \<in> set m. fst x = ce_id (snd x))"

lemma cones_keyed_set: "keyed m \<Longrightarrow> keyed (jm_set (ce_id e) e m)"
proof -
  assume k: "keyed m"
  have "x \<in> set (jm_set (ce_id e) e m) \<Longrightarrow> x \<in> set m \<or> x = (ce_id e, e)" for x
    by (induction m) (auto simp: jm_set_def split: if_splits)
  then show ?thesis using k by (fastforce simp: keyed_def jm_ok_set)
qed

lemma keyed_fold: "keyed m \<Longrightarrow> keyed (fold (\<lambda>e. jm_set (ce_id e) e) es m)"
  by (induction es arbitrary: m) (simp_all add: cones_keyed_set)

lemma keyed_cone_map: "keyed (cone_map es)"
  unfolding cone_map_def by (rule keyed_fold) (simp add: keyed_def)

lemma keyed_ids: "keyed m \<Longrightarrow> map ce_id (map snd m) = map fst m"
  by (auto simp: keyed_def)

lemma jm_get_Nil: "jm_get [] = Map.empty"
  by (simp add: jm_get_def fun_eq_iff)

lemma get_fold: "jm_get (fold (\<lambda>e. jm_set (ce_id e) e) es m) = jm_get m ++ jm_get (cone_map es)"
proof (induction es arbitrary: m rule: rev_induct)
  case (snoc e es)
  have "cone_map (es @ [e]) = jm_set (ce_id e) e (cone_map es)" by (simp add: cone_map_def)
  then show ?case using snoc.IH [of m] by (auto simp: jm_get_set map_add_def fun_eq_iff)
qed (simp add: cone_map_def jm_get_Nil)

lemma keys_fold: "ce_id ` set es \<subseteq> fst ` set m \<Longrightarrow> map fst (fold (\<lambda>e. jm_set (ce_id e) e) es m) = map fst m"
proof (induction es arbitrary: m)
  case (Cons e es)
  then have "jm_get m (ce_id e) \<noteq> None" by (simp add: jm_get_def map_of_eq_None_iff)
  then have k: "map fst (jm_set (ce_id e) e m) = map fst m" using keys_jm_set_old by force
  then have "fst ` set (jm_set (ce_id e) e m) = fst ` set m" by (metis list.set_map)
  then have "ce_id ` set es \<subseteq> fst ` set (jm_set (ce_id e) e m)" using Cons.prems by simp
  from Cons.IH [OF this] show ?case by (simp add: k)
qed simp

lemma jsmap_eq:
  assumes "jm_ok m" "map fst m' = map fst m" "jm_get m' = jm_get m"
  shows "m' = m"
proof (rule nth_equalityI)
  show l: "length m' = length m" using arg_cong [OF assms(2), of length] by simp
  have d: "distinct (map fst m)" "distinct (map fst m')" using assms(1,2) by (simp_all add: jm_ok_def)
  fix i assume i: "i < length m'"
  have f: "fst (m' ! i) = fst (m ! i)" using assms(2) i l by (metis nth_map)
  have "map_of m' (fst (m' ! i)) = Some (snd (m' ! i))" using d(2) i by (simp add: map_of_is_SomeI)
  moreover have "map_of m (fst (m ! i)) = Some (snd (m ! i))" using d(1) i l by (simp add: map_of_is_SomeI)
  ultimately show "m' ! i = m ! i" using fun_cong [OF assms(3), of "fst (m ! i)"] f
    by (simp add: jm_get_def prod_eq_iff)
qed

lemma cone_map_distinct: "distinct (map ce_id V) \<Longrightarrow> cone_map V = map (\<lambda>e. (ce_id e, e)) V"
proof -
  have "distinct (map fst m @ map ce_id V) \<Longrightarrow> fold (\<lambda>e. jm_set (ce_id e) e) V m = m @ map (\<lambda>e. (ce_id e, e)) V" for m
  proof (induction V arbitrary: m)
    case (Cons e V)
    have "ce_id e \<notin> set (map fst m)" using Cons.prems by auto
    then have "jm_set (ce_id e) e m = m @ [(ce_id e, e)]" by (induction m) (auto simp: jm_set_def)
    then show ?case using Cons by simp
  qed simp
  then show "distinct (map ce_id V) \<Longrightarrow> cone_map V = map (\<lambda>e. (ce_id e, e)) V" by (simp add: cone_map_def)
qed

definition shifted :: "run_data \<Rightarrow> user_state \<Rightarrow> cone_event list" where
  "shifted D u = map (\<lambda>e. e\<lparr>ce_t := ce_t e - run_origin D\<rparr>) (filter (\<lambda>e. ce_id e \<notin> set (us_dismissed u)) (rd_coneEvents D))"

lemma seedCones_fold: "us_ce (seedCones D u) = sort_key ce_t (map snd (fold (\<lambda>e. jm_set (ce_id e) e) (shifted D u) (cone_map (us_ce u))))"
  by (simp add: seedCones_def Let_def shifted_def fold_map o_def)

lemma seedCones_ids:
  "distinct (map ce_id (us_ce (seedCones D u)))"
  "ce_id ` set (us_ce (seedCones D u)) = ce_id ` set (us_ce u) \<union> ce_id ` set (shifted D u)"
proof -
  let ?m = "fold (\<lambda>e. jm_set (ce_id e) e) (shifted D u) (cone_map (us_ce u))"
  have k: "keyed ?m" by (rule keyed_fold [OF keyed_cone_map])
  have e: "us_ce (seedCones D u) = sort_key ce_t (map snd ?m)" by (rule seedCones_fold)
  have "distinct (map ce_id (map snd ?m))" using k by (simp only: keyed_ids) (simp add: keyed_def jm_ok_def)
  then have "distinct (map snd ?m)" "inj_on ce_id (set (map snd ?m))" by (simp_all only: distinct_map)
  then show "distinct (map ce_id (us_ce (seedCones D u)))" by (simp add: e distinct_map)
  have ids: "ce_id ` set es = dom (jm_get (cone_map es))" for es
  proof -
    have "dom (jm_get (fold (\<lambda>e. jm_set (ce_id e) e) es m)) = ce_id ` set es \<union> dom (jm_get m)" for m
      by (induction es arbitrary: m) (simp_all add: jm_get_set)
    from this [of "[]"] show ?thesis by (simp add: cone_map_def jm_get_Nil)
  qed
  have "ce_id ` set (us_ce (seedCones D u)) = set (map ce_id (map snd ?m))" by (simp add: e image_image)
  also have "\<dots> = dom (jm_get ?m)" using k by (simp only: keyed_ids set_jm_keys [symmetric] jm_keys_def)
  also have "\<dots> = ce_id ` set (us_ce u) \<union> ce_id ` set (shifted D u)" by (simp add: get_fold ids Un_commute)
  finally show "ce_id ` set (us_ce (seedCones D u)) = ce_id ` set (us_ce u) \<union> ce_id ` set (shifted D u)" .
qed

text \<open>opening a run merges the cones of its file with the driver's by identity, in time order: opening it again changes
  nothing, no identity occurs twice, and a hit the driver has removed does not come back.\<close>

theorem seedCones_merge:
  "seedCones D (seedCones D u) = seedCones D u
    \<and> sorted (map ce_t (us_ce (seedCones D u))) \<and> distinct (map ce_id (us_ce (seedCones D u)))
    \<and> (\<forall>i \<in> set (us_dismissed u). i \<notin> ce_id ` set (us_ce u) \<longrightarrow> i \<notin> ce_id ` set (us_ce (seedCones D u)))"
proof -
  let ?set = "\<lambda>e. jm_set (ce_id e) e"
  define m where "m = fold ?set (shifted D u) (cone_map (us_ce u))"
  define V where "V = sort_key ce_t (map snd m)"
  have V: "us_ce (seedCones D u) = V" by (simp add: seedCones_fold V_def m_def)
  have km: "keyed m" unfolding m_def by (rule keyed_fold [OF keyed_cone_map])
  have dV: "distinct (map ce_id V)" using seedCones_ids(1) [of D u] by (simp add: V)
  have mV: "cone_map V = map (\<lambda>e. (ce_id e, e)) V" by (rule cone_map_distinct [OF dV])
  have "set (cone_map V) = (\<lambda>x. (ce_id (snd x), snd x)) ` set m" unfolding mV by (simp add: V_def image_image)
  also have "\<dots> = id ` set m" using km by (intro image_cong) (simp_all add: keyed_def prod_eq_iff)
  finally have "set (cone_map V) = set m" by simp
  moreover have okV: "jm_ok (cone_map V)" using keyed_cone_map by (simp add: keyed_def)
  ultimately have "jm_get (cone_map V) = jm_get m"
    using km by (intro ext option_ext) (metis in_set_jm_get jm_get_in_set keyed_def)
  then have "jm_get (fold ?set (shifted D u) (cone_map V)) = jm_get (cone_map V)"
    by (simp add: get_fold) (simp add: m_def get_fold map_add_def fun_eq_iff split: option.splits)
  moreover have "map fst (fold ?set (shifted D u) (cone_map V)) = map fst (cone_map V)"
    using seedCones_ids(2) [of D u] by (intro keys_fold) (simp add: V mV image_image)
  ultimately have again: "fold ?set (shifted D u) (cone_map V) = cone_map V" by (intro jsmap_eq okV)
  have same: "shifted D (seedCones D u) = shifted D u" by (simp add: shifted_def seedCones_def Let_def)
  have "us_ce (seedCones D (seedCones D u)) = V"
    unfolding seedCones_fold [of D "seedCones D u"] same V again by (simp add: mV o_def) (simp add: V_def sort_key_id_if_sorted)
  then have "seedCones D (seedCones D u) = seedCones D u" using V by (simp add: seedCones_def Let_def)
  moreover have "sorted (map ce_t V)" by (simp add: V_def)
  moreover have "i \<notin> ce_id ` set (shifted D u)" if "i \<in> set (us_dismissed u)" for i using that by (auto simp: shifted_def)
  ultimately show ?thesis using dV seedCones_ids(2) [of D u] by (simp add: V)
qed

subsection \<open>The run store\<close>

text \<open>a run that was put is got back from the same store, other runs stay as they were, a transaction that fails changes
  nothing, and once the database has failed to open, the memory answers every later call.\<close>

theorem store_put_get:
  assumes "store_put m D a st = (r, st1)"
  shows "(r = Inl Storage_error \<longrightarrow> sg_idb st1 = sg_idb st \<and> sg_mem st1 = sg_mem st \<and> \<not> sg_memory st1)
    \<and> (r = Inr () \<longrightarrow> (sg_memory st1 \<or> goes_through b \<longrightarrow>
          fst (store_get (re_id m) b st1) = Inr (Some D)
        \<and> (i \<noteq> re_id m \<and> sg_memory st1 = sg_memory st \<longrightarrow> fst (store_get i b st1) = fst (store_get i b st))))
    \<and> (sg_memory st1 \<longrightarrow> sg_memory (snd (store_get i b st1)) \<and> sg_idb st1 = sg_idb st)"
  using assms
  by (cases "sg_memory st"; cases a; cases b)
    (auto simp: store_put_def store_get_def answer_blocked_def guarded_def guard_open_def goes_through_def Let_def jm_get_set split: if_splits)


lemma store_put_get_witness:
  "(fst (store_put (metaOf small_run 5) small_run (Opens False True) \<lparr>sg_memory = False, sg_problem = None, sg_blocked = False,
        sg_idb = \<lparr>rs_meta = [], rs_data = []\<rparr>, sg_mem = \<lparr>rs_meta = [], rs_data = []\<rparr>\<rparr>) = Inr ())
    \<and> fst (store_get ''s'' (Opens False True) (snd (store_put (metaOf small_run 5) small_run (Opens False True)
        \<lparr>sg_memory = False, sg_problem = None, sg_blocked = False,
         sg_idb = \<lparr>rs_meta = [], rs_data = []\<rparr>, sg_mem = \<lparr>rs_meta = [], rs_data = []\<rparr>\<rparr>))) = Inr (Some small_run)"
proof -
  let ?st = "\<lparr>sg_memory = False, sg_problem = None, sg_blocked = False,
      sg_idb = \<lparr>rs_meta = [], rs_data = []\<rparr>, sg_mem = \<lparr>rs_meta = [], rs_data = []\<rparr>\<rparr>"
  obtain r st1 where p: "store_put (metaOf small_run 5) small_run (Opens False True) ?st = (r, st1)" by fastforce
  have "r = Inr ()" using p by (auto simp: store_put_def guarded_def guard_open_def goes_through_def Let_def)
  moreover have "re_id (metaOf small_run 5) = ''s''" by (simp add: metaOf_def small_run_def Let_def)
  ultimately show ?thesis using store_put_get [OF p, of "Opens False True"] p by (simp add: goes_through_def)
qed

end
