(* ===== verification/DriveConvert.thy ===== *)
theory DriveConvert
  imports DriveCourses DriveNotes "HOL-Library.Sublist"
begin

text \<open>
  The second half of \<^verbatim>\<open>viewer_tool/src/lib/driveday/convert.ts\<close>: each course of a logged session is matched with a saved track or gives
  a new one, its laps are built with their channels and sector times, and the runs are put together with their warnings.

  A text of the export that is missing is empty, as the code treats both alike.
\<close>

subsection \<open>Tracks\<close>

record layout_track =
  tr_id :: string
  tr_name :: string
  tr_date :: string
  tr_event :: string
  tr_num :: nat
  tr_venue :: string
  tr_lat0 :: rat
  tr_lon0 :: rat
  tr_ref :: "xy list"
  tr_cum :: "rat list"
  tr_RL :: rat
  tr_gates :: "rat list option"
  tr_open :: bool
  tr_created :: rat
  tr_from :: string

definition or_text :: "string \<Rightarrow> string \<Rightarrow> string" where
  "or_text a b = (if a \<noteq> [] then a else b)"

definition middot :: string where
  "middot = CHR '' '' # map char_of [0xC2, 0xB7 :: nat] @ '' ''"

definition layout_num :: "layout_track list \<Rightarrow> string \<Rightarrow> string \<Rightarrow> nat" where
  "layout_num known date event = foldl (\<lambda>n t. if tr_date t = date \<and> tr_event t = event \<and> tr_num t \<ge> n then tr_num t + 1 else n) 1 known"

definition layoutName :: "layout_track list \<Rightarrow> string \<Rightarrow> string \<Rightarrow> layout_track \<Rightarrow> layout_track" where
  "layoutName known date event t =
     (let n = layout_num known date event
      in t\<lparr>tr_name := date @ middot @ event @ middot @ nat_text n, tr_date := date, tr_event := event, tr_num := n\<rparr>)"

definition date_text :: "nat \<times> nat \<times> nat \<Rightarrow> string" where
  "date_text = (\<lambda>(y, m, d). nat_text y @ ''-'' @ pad_start 2 (CHR ''0'') (nat_text m) @ ''-'' @ pad_start 2 (CHR ''0'') (nat_text d))"

subsection \<open>Is it a track that is known?\<close>

definition track_point :: "layout_track \<Rightarrow> rat \<Rightarrow> xy" where
  "track_point t s = (let i = seek_from (tr_cum t) (length (tr_ref t)) s 0 in on_piece (tr_ref t) i (piece_ratio (tr_cum t) i s))"

definition line_coverage :: "conv_env \<Rightarrow> layout_track \<Rightarrow> xy list list \<Rightarrow> rat" where
  "line_coverage G t laps =
     (let n = nat (max 2 (rat_round (tr_RL t / 3))) in
      of_nat (length (filter (\<lambda>i. list_ex (\<lambda>P. list_ex (\<lambda>k. segDist G (P ! (k - 1)) (P ! k) (track_point t (tr_RL t * of_nat i / of_nat n)) \<le> 6)
        [1..<length P]) laps) [0..<n])) / of_nat n)"

definition far_ends :: "conv_env \<Rightarrow> layout_track \<Rightarrow> xy list list \<Rightarrow> bool" where
  "far_ends G t laps \<longleftrightarrow> med (map (\<lambda>P. dist2d G (P ! 0) (hd (tr_ref t))) laps) > 6
     \<or> med (map (\<lambda>P. dist2d G (P ! (length P - 1)) (last (tr_ref t))) laps) > 6"

definition forward_progress :: "conv_env \<Rightarrow> layout_track \<Rightarrow> bool \<Rightarrow> xy list \<Rightarrow> rat" where
  "forward_progress G t opn P =
     foldl (\<lambda>d k. let ds = fst (nearOn G (tr_ref t) (tr_cum t) (P ! k)) - fst (nearOn G (tr_ref t) (tr_cum t) (P ! (k - 1)))
        in d + (if opn then ds else ds - tr_RL t * of_int (rat_round (ds / tr_RL t)))) 0 [1..<length P]"

definition sameTrack :: "conv_env \<Rightarrow> bool \<Rightarrow> log_sample list \<Rightarrow> log_sample list list \<Rightarrow> layout_track \<Rightarrow> rat" where
  "sameTrack G opn probe grp t =
     (if tr_open t \<noteq> opn then 0
      else let pr = project G (tr_lat0 t) (tr_lon0 t);
               near = of_nat (length (filter (\<lambda>s. snd (nearOn G (tr_ref t) (tr_cum t) (pr s)) \<le> 6) probe)) / of_nat (length probe);
               laps = map (map pr) grp; cov = line_coverage G t laps;
               lens = filter (\<lambda>l. l > tr_RL t * (1 / 2) \<and> l < tr_RL t * (3 / 2)) (map (path_len G) laps);
               fw = filter (\<lambda>d. \<bar>d\<bar> > tr_RL t * (4 / 10)) (map (forward_progress G t opn) laps)
        in if near < 9 / 10 then 0
           else if opn \<and> far_ends G t laps then 0
           else if cov < 9 / 10 then 0
           else if lens \<noteq> [] \<and> \<bar>med lens / tr_RL t - 1\<bar> > 12 / 100 then 0
           else if fw \<noteq> [] \<and> med fw < 0 then 0
           else near * cov)"

definition best_track :: "(layout_track \<Rightarrow> rat) \<Rightarrow> layout_track list \<Rightarrow> layout_track option" where
  "best_track score tracks = fst (foldl (\<lambda>(b, m) t. if score t > m then (Some t, score t) else (b, m)) (None, 0) tracks)"

subsection \<open>A new track\<close>

record cand =
  cd_P :: "xy list"
  cd_len :: rat
  cd_gap :: rat

record cut_state =
  ct_along :: rat
  ct_best :: rat
  ct_cut :: nat
  ct_end :: "xy option"

definition cut_step :: "conv_env \<Rightarrow> xy list \<Rightarrow> rat \<Rightarrow> cut_state \<Rightarrow> nat \<Rightarrow> cut_state" where
  "cut_step G P len st k =
     (let dir = dirOf G (P ! 0) (P ! min 3 (length P - 1)); a = P ! (k - 1); b = P ! k; dx = fst b - fst a; dy = snd b - snd a;
          l = cv_hypot G dx dy;
          f = (if l \<noteq> 0 then max 0 (min 1 (((fst (P ! 0) - fst a) * dx + (snd (P ! 0) - snd a) * dy) / (l * l))) else 0);
          p = (fst a + f * dx, snd a + f * dy); d = dist2d G p (P ! 0);
          st1 = (if ct_along st + f * l > len * (6 / 10) \<and> d < ct_best st \<and> l > 0 \<and> (fst dir * dx + snd dir * dy) / l > 2 / 10
                 then st\<lparr>ct_best := d, ct_cut := k, ct_end := Some p\<rparr> else st)
      in st1\<lparr>ct_along := ct_along st + l\<rparr>)"

definition cut_lap :: "conv_env \<Rightarrow> xy list \<Rightarrow> xy list" where
  "cut_lap G P = (let st = foldl (cut_step G P (path_len G P)) \<lparr>ct_along = 0, ct_best = 3, ct_cut = 0, ct_end = None\<rparr> [1..<length P]
     in case ct_end st of None \<Rightarrow> P | Some e \<Rightarrow> take (ct_cut st) P @ [e])"

definition make_cand :: "conv_env \<Rightarrow> bool \<Rightarrow> xy list \<Rightarrow> cand" where
  "make_cand G opn P0 = (let P = (if opn then P0 else cut_lap G P0)
     in \<lparr>cd_P = P, cd_len = path_len G P, cd_gap = dist2d G (P ! 0) (P ! (length P - 1))\<rparr>)"

definition typical_path :: "cand list \<Rightarrow> xy list" where
  "typical_path cs = (let lm = med (map cd_len cs)
     in cd_P (foldl (\<lambda>a b. if \<bar>cd_len b - lm\<bar> < \<bar>cd_len a - lm\<bar> then b else a) (hd cs) (tl cs)))"

definition smoothed :: "xy \<Rightarrow> xy \<Rightarrow> xy \<Rightarrow> xy" where
  "smoothed a p b = (1 / 4 * fst a + 1 / 2 * fst p + 1 / 4 * fst b, 1 / 4 * snd a + 1 / 2 * snd p + 1 / 4 * snd b)"

definition open_line :: "conv_env \<Rightarrow> cand list \<Rightarrow> xy list \<times> rat list" where
  "open_line G cs =
     (let BP = typical_path cs; n = length BP;
          ref = map (\<lambda>k. if k = 0 \<or> k = n - 1 then BP ! k else smoothed (BP ! (k - 1)) (BP ! k) (BP ! (k + 1))) [0..<n];
          cum = cumOf G ref;
          a0 = med (map (\<lambda>c. fst (nearOn G ref cum (cd_P c ! 0))) cs);
          b0 = med (map (\<lambda>c. fst (nearOn G ref cum (cd_P c ! (length (cd_P c) - 1)))) cs)
      in if b0 - a0 > 30 then subPath G ref cum a0 b0 else (ref, cum))"

definition closed_ring :: "cand list \<Rightarrow> xy list" where
  "closed_ring cs =
     (let pool = filter (\<lambda>c. cd_gap c < 15) cs; BP = typical_path (if pool = [] then cs else pool); n = length BP;
          ref = map (\<lambda>k. smoothed (BP ! ((k + n - 1) mod n)) (BP ! k) (BP ! ((k + 1) mod n))) [0..<n]
      in ref @ [hd ref])"

definition turn_ring :: "xy list \<Rightarrow> rat list \<Rightarrow> rat \<Rightarrow> xy list" where
  "turn_ring ref cum sf =
     (let i = seek_from cum (length ref) sf 0; p = on_piece ref i (piece_ratio cum i sf); body = butlast ref
      in [p] @ drop (i + 1) body @ take (i + 1) body @ [p])"

definition start_line :: "rat \<Rightarrow> rat list \<Rightarrow> rat" where
  "start_line RL0 ss = wrap (hd ss + med (map (\<lambda>v. (v - hd ss) - RL0 * of_int (rat_round ((v - hd ss) / RL0))) ss)) RL0"

definition closed_line :: "conv_env \<Rightarrow> cand list \<Rightarrow> xy list \<times> rat list" where
  "closed_line G cs =
     (let ref = closed_ring cs; cum = cumOf G ref; RL0 = last cum;
          ss = map (\<lambda>c. fst (nearOn G ref cum (cd_P c ! 0))) (filter (\<lambda>c. cd_len c > RL0 * (75 / 100) \<and> cd_len c < RL0 * (125 / 100)) cs)
      in if ss = [] then (ref, cum) else let rot = turn_ring ref cum (start_line RL0 ss) in (rot, cumOf G rot))"

fun cut_paren :: "string \<Rightarrow> string" where
  "cut_paren [] = []"
| "cut_paren (c # cs) = (if starts_with '' ('' (c # cs) then [] else c # cut_paren cs)"

record session_export =
  sx_laps :: "lap_export list option"
  sx_tail :: "log_sample option list option"
  sx_current :: "log_sample option list option"
  sx_flags :: "(string option \<times> rat option \<times> string option) list"
  sx_name :: string
  sx_savedAt :: "rat option"
  sx_targetLaps :: "rat option"
  sx_targetKwh :: "rat option"
  sx_cutoff :: "rat option"
  sx_infoId :: string
  sx_infoName :: string
  sx_infoDriver :: string
  sx_infoVenue :: string
  sx_infoEvent :: string
  sx_mdDriver :: string
  sx_mdVenue :: string
  sx_mdEvent :: string

definition mean_at :: "(log_sample \<Rightarrow> rat option) \<Rightarrow> log_sample list \<Rightarrow> rat" where
  "mean_at f ss = sum_list (map (\<lambda>s. the (f s)) ss) / of_nat (length ss)"

definition new_track :: "conv_env \<Rightarrow> session_export \<Rightarrow> string \<Rightarrow> string \<Rightarrow> string \<Rightarrow> layout_track list \<Rightarrow> nat \<Rightarrow> course \<Rightarrow> layout_track" where
  "new_track G J file date event known ci c =
     (let ss = concat (map pp_sm (co_legs c)); lat0 = mean_at lg_lat ss; lon0 = mean_at lg_lon ss;
          cs = map (\<lambda>l. make_cand G (co_open c) (map (project G lat0 lon0) (pp_sm l))) (co_legs c);
          line = (if co_open c then open_line G cs else closed_line G cs);
          t = layoutName known date event
            \<lparr>tr_id = cv_newId G ci, tr_name = [], tr_date = [], tr_event = [], tr_num = 0, tr_venue = trim (or_text (sx_infoVenue J) (sx_mdVenue J)),
             tr_lat0 = lat0, tr_lon0 = lon0, tr_ref = fst line, tr_cum = snd line, tr_RL = last (snd line), tr_gates = Some [1 / 3, 2 / 3],
             tr_open = co_open c, tr_created = cv_now G, tr_from = or_text (sx_infoName J) file\<rparr>
      in t\<lparr>tr_name := tr_name t @ (if co_open c \<and> co_label c \<noteq> [] then middot @ cut_paren (co_label c) else [])\<rparr>)"

subsection \<open>Building a lap\<close>

definition num_or_zero :: "rat option \<Rightarrow> rat" where
  "num_or_zero x = (case x of Some v \<Rightarrow> v | None \<Rightarrow> 0)"

definition sample_value :: "log_sample \<Rightarrow> string \<Rightarrow> rat" where
  "sample_value s key = (case jm_get (lg_values s) key of Some v \<Rightarrow> num_or_zero v | None \<Rightarrow> 0)"

definition channel_value :: "ch_key \<Rightarrow> log_sample \<Rightarrow> rat" where
  "channel_value k s = (case k of
       Thr \<Rightarrow> sample_value s ''accel_pedal_travel'' * 100 | Brk \<Rightarrow> sample_value s ''brake_pressure_f''
     | Brkr \<Rightarrow> sample_value s ''brake_pressure_rbll'' | Steer \<Rightarrow> sample_value s ''steer_col_angle''
     | Rpm \<Rightarrow> sample_value s ''motor_speed'' | Trq \<Rightarrow> sample_value s ''torque_feedback''
     | Dcv \<Rightarrow> sample_value s ''dc_bus_v'' | Dca \<Rightarrow> sample_value s ''dc_bus_current''
     | Kw \<Rightarrow> sample_value s ''dc_bus_v'' * sample_value s ''dc_bus_current'' / 1000
     | Packv \<Rightarrow> (case lg_hv s of Some v \<Rightarrow> num_or_zero v | None \<Rightarrow> 0) | Soc \<Rightarrow> sample_value s ''soc_estimate''
     | MotT \<Rightarrow> sample_value s ''motor_temp'' | InvT \<Rightarrow> sample_value s ''inverter_hotspot_temp''
     | GateT \<Rightarrow> sample_value s ''gate_driver_temp'' | CoolT \<Rightarrow> sample_value s ''coolant_temp''
     | CellT \<Rightarrow> sample_value s ''max_cell_temp'' | CellV \<Rightarrow> sample_value s ''min_cell_voltage''
     | ModA \<Rightarrow> sample_value s ''module_a_temp'' | ModB \<Rightarrow> sample_value s ''module_b_temp'' | ModC \<Rightarrow> sample_value s ''module_c_temp''
     | VmaxC \<Rightarrow> sample_value s ''max_cell_voltage'' | VavgC \<Rightarrow> sample_value s ''avg_cell_v_stat'')"

definition channel_digits :: "ch_key \<Rightarrow> nat" where
  "channel_digits k = (if k = Rpm then 0 else if k = Packv then 2 else if k \<in> {CellV, VmaxC, VavgC} then 3 else 1)"

definition cell_temp :: "log_sample \<Rightarrow> nat \<Rightarrow> rat" where
  "cell_temp s i = (case lg_cells s of Some cs \<Rightarrow> if i < length cs then num_or_zero (cs ! i) else 0 | None \<Rightarrow> 0)"

definition cell_index :: "log_sample list \<Rightarrow> log_sample list \<Rightarrow> nat list" where
  "cell_index st fixes =
     (let n = foldl (\<lambda>n s. max n (case lg_cells s of Some cs \<Rightarrow> length cs | None \<Rightarrow> 0)) 0 st;
          rows = filter (\<lambda>s. lg_cells s \<noteq> None) fixes
      in filter (\<lambda>i. rows \<noteq> [] \<and> of_nat (length (filter (\<lambda>s. cell_temp s i > 0) rows)) \<ge> (of_nat (length rows) * (1 / 2) :: rat)) [0..<n])"

text \<open>Distance along the lap: never back; on a loop the position is unrolled, and a lap that starts just before the line starts below zero.\<close>

definition first_u :: "bool \<Rightarrow> rat \<Rightarrow> rat \<Rightarrow> rat" where
  "first_u opn RL q = (if opn then q else if q > RL / 2 then q - RL else q)"

definition next_u :: "bool \<Rightarrow> rat \<Rightarrow> rat \<Rightarrow> rat \<Rightarrow> rat" where
  "next_u opn RL prev q = (if opn then max prev q else max prev (q + RL * of_int (rat_round ((prev - q) / RL))))"

fun progress_from :: "bool \<Rightarrow> rat \<Rightarrow> rat \<Rightarrow> rat list \<Rightarrow> rat list" where
  "progress_from opn RL prev [] = []"
| "progress_from opn RL prev (q # qs) = next_u opn RL prev q # progress_from opn RL (next_u opn RL prev q) qs"

definition progress :: "bool \<Rightarrow> rat \<Rightarrow> rat list \<Rightarrow> rat list" where
  "progress opn RL qs = (case qs of [] \<Rightarrow> [] | q # r \<Rightarrow> first_u opn RL q # progress_from opn RL (first_u opn RL q) r)"

definition fix_speed :: "conv_env \<Rightarrow> log_sample list \<Rightarrow> xy list \<Rightarrow> nat \<Rightarrow> rat" where
  "fix_speed G ss P k =
     (let a = k - 1; b = min (length ss - 1) (k + 1); dt = (lg_t (ss ! b) - lg_t (ss ! a)) / 1000
      in if dt > 0 then dist2d G (P ! b) (P ! a) / dt else 0)"

definition gate_pass :: "rat list \<Rightarrow> rat list \<Rightarrow> rat \<Rightarrow> rat option" where
  "gate_pass us ts th =
     map_option (\<lambda>k. ts ! (k - 1) + (ts ! k - ts ! (k - 1)) * (th - us ! (k - 1)) / (us ! k - us ! (k - 1)))
       (List.find (\<lambda>k. us ! (k - 1) < th \<and> us ! k \<ge> th) [1..<length us])"

record built =
  bl_lap :: raw_lap
  bl_span :: rat
  bl_odd :: bool

definition line_fix :: "bool \<Rightarrow> rat \<Rightarrow> xy \<Rightarrow> rat \<Rightarrow> rat \<times> rat \<Rightarrow> gps_fix" where
  "line_fix opn RL p v sd = \<lparr>fx_x = fst p, fx_y = snd p, fx_spd = round_to v 2,
     fx_s = (if opn then round_to (min (RL - 5 / 100) (fst sd)) 1 else round_to (wrap (fst sd) RL) 1), fx_dev = round_to (snd sd) 2\<rparr>"

definition build_sectors :: "rat list \<Rightarrow> rat list \<Rightarrow> rat \<Rightarrow> bool \<Rightarrow> rat \<times> rat \<Rightarrow> rat option list" where
  "build_sectors us tt dur whole gates =
     (let c1 = gate_pass us tt (fst gates); c2 = gate_pass us tt (snd gates) in
      [c1, (case (c1, c2) of (Some a, Some b) \<Rightarrow> Some (b - a) | _ \<Rightarrow> None),
       (case c2 of Some b \<Rightarrow> if whole then Some (dur - b) else None | None \<Rightarrow> None)])"

definition track_gates :: "layout_track \<Rightarrow> rat \<times> rat" where
  "track_gates t = (case tr_gates t of Some g \<Rightarrow> (g ! 0 * tr_RL t, g ! 1 * tr_RL t) | None \<Rightarrow> (1 / 3 * tr_RL t, 2 / 3 * tr_RL t))"

definition build_lap :: "conv_env \<Rightarrow> layout_track \<Rightarrow> bool \<Rightarrow> nat list \<Rightarrow> log_sample list \<Rightarrow> string \<Rightarrow> lap_kind \<Rightarrow> rat \<Rightarrow> rat
    \<Rightarrow> lap_export option \<Rightarrow> bool \<Rightarrow> built" where
  "build_lap G t opn cells ss name kind t0 t1 energy whole =
     (let m = length ss; P = map (project G (tr_lat0 t) (tr_lon0 t)) ss; spd = map (fix_speed G ss P) [0..<m];
          sd = map (nearOn G (tr_ref t) (tr_cum t)) P; us = progress opn (tr_RL t) (map fst sd); tt = map (\<lambda>s. lg_t s - t0) ss;
          dur = t1 - t0; gates = track_gates t; dist = path_len G P
      in \<lparr>bl_lap =
            \<lparr>lp_name = name, lp_kind = kind, lp_t0 = t0, lp_t1 = t1, lp_dur = dur, lp_sec = build_sectors us tt dur whole gates,
             lp_pts = map (\<lambda>k. line_fix opn (tr_RL t) (P ! k) (spd ! k) (sd ! k)) [0..<m], lp_dist = dist, lp_vmax = foldl max 0 spd,
             lp_vavg = (if dur > 0 then dist / (dur / 1000) else 0), lp_dev = sum_list (map snd sd) / of_nat m,
             lp_wh = map_option (\<lambda>l. num_or_zero (lx_energy l)) energy, lp_whOut = map_option (\<lambda>l. num_or_zero (lx_out l)) energy,
             lp_whIn = map_option (\<lambda>l. num_or_zero (lx_in l)) energy,
             lp_ch = \<lparr>ch_t = tt, ch_u = map (\<lambda>v. round_to v 1) us, ch_cells = map (\<lambda>s. map (\<lambda>i. round_to (cell_temp s i) 1) cells) ss,
                      ch_of = (\<lambda>k. map (\<lambda>s. round_to (channel_value k s) (channel_digits k)) ss)\<rparr>\<rparr>,
          bl_span = us ! (m - 1) - us ! 0,
          bl_odd = (whole \<and> (gate_pass us tt (fst gates) = None \<or> gate_pass us tt (snd gates) = None))\<rparr>)"

subsection \<open>The laps of a course\<close>

text \<open>What the courses of a session share.\<close>

record conv_input =
  ci_st :: "log_sample list"
  ci_gpsTimes :: "rat list"
  ci_updateTimes :: "rat list"
  ci_filledTimes :: "rat list"
  ci_cells :: "nat list"
  ci_date :: string
  ci_event :: string
  ci_nm :: string
  ci_file :: string
  ci_firstT :: rat
  ci_lastT :: rat
  ci_multi :: bool

definition lap_text :: "nat \<Rightarrow> string" where
  "lap_text i = ''Lap '' @ nat_text (i + 1)"

definition noun_of :: "bool \<Rightarrow> string" where
  "noun_of opn = (if opn then ''course'' else ''circuit'')"

record course_laps =
  cl_laps :: "raw_lap list"
  cl_odd :: "string list"
  cl_warn :: "string list"

definition lap_step :: "conv_env \<Rightarrow> conv_input \<Rightarrow> layout_track \<Rightarrow> bool \<Rightarrow> course_laps \<Rightarrow> leg \<Rightarrow> course_laps" where
  "lap_step G I t opn acc l =
     (let e = pp_lap l; ss = slice_gps (ci_st I) (lap_start e) (lap_end e); name = or_text (trim (lx_label e)) (lap_text (pp_i l)) in
      if length ss < 4
      then acc\<lparr>cl_warn := cl_warn acc @ [lap_text (pp_i l) @ '' skipped: only '' @ nat_text (length ss) @ '' GPS fixes'']\<rparr>
      else let b = build_lap G t opn (ci_cells I) ss name KLap (lap_start e) (lap_end e) (Some e) True;
               acc1 = (if bl_odd b then acc\<lparr>cl_odd := cl_odd acc @ [name]\<rparr> else acc)
           in if bl_span b > 3 / 2 * tr_RL t
              then acc1\<lparr>cl_warn := cl_warn acc @ [lap_text (pp_i l) @ '' skipped: it covers '' @ rat_to_fixed 1 (bl_span b / tr_RL t) @ '' ''
                     @ noun_of opn @ ''s of the track ('' @ decimal_text 3 (rat_round (lp_dur (bl_lap b))) @ '' s), probably a missed lap press'']\<rparr>
              else acc1\<lparr>cl_laps := cl_laps acc @ [bl_lap b],
                     cl_warn := cl_warn acc @ (if bl_span b < 6 / 10 * tr_RL t
                       then [lap_text (pp_i l) @ '' only covers '' @ int_text (rat_round (bl_span b / tr_RL t * 100)) @ ''% of the '' @ noun_of opn
                             @ '', check its GPS'']
                       else [])\<rparr>)"

definition timed_course_laps :: "conv_env \<Rightarrow> conv_input \<Rightarrow> layout_track \<Rightarrow> course \<Rightarrow> course_laps" where
  "timed_course_laps G I t c = foldl (lap_step G I t (co_open c)) \<lparr>cl_laps = [], cl_odd = [], cl_warn = []\<rparr> (co_legs c)"

definition odd_warning :: "string list \<Rightarrow> string list" where
  "odd_warning names = (if names = [] then []
     else [join '', '' names @ '': did not pass both initial sector gates; missing sector times are unavailable''])"

definition speed_at :: "conv_env \<Rightarrow> layout_track \<Rightarrow> log_sample list \<Rightarrow> nat \<Rightarrow> rat" where
  "speed_at G t arr k =
     (let a = arr ! (k - 1); b = arr ! min (length arr - 1) (k + 1); dt = (lg_t b - lg_t a) / 1000; pr = project G (tr_lat0 t) (tr_lon0 t)
      in if dt > 0 then dist2d G (pr b) (pr a) / dt else 0)"

fun out_start :: "conv_env \<Rightarrow> layout_track \<Rightarrow> log_sample list \<Rightarrow> rat \<Rightarrow> nat \<Rightarrow> nat" where
  "out_start G t ps t0 0 = 0"
| "out_start G t ps t0 (Suc k) =
     (if speed_at G t ps k \<ge> 3 \<and> lg_t (ps ! Suc k) - lg_t (ps ! k) < 8000 \<and> t0 - lg_t (ps ! k) < 180000
      then out_start G t ps t0 k else Suc k)"

definition out_lap :: "conv_env \<Rightarrow> conv_input \<Rightarrow> layout_track \<Rightarrow> rat \<Rightarrow> raw_lap list" where
  "out_lap G I t t0 =
     (let ps = filter (\<lambda>s. lg_t s \<le> t0 \<and> has_gps s) (ci_st I); out = drop (out_start G t ps t0 (length ps - 1)) ps;
          b = build_lap G t False (ci_cells I) out ''Out lap'' KOut (lg_t (hd out)) t0 None True
      in if length out \<ge> 8 \<and> bl_span b \<le> 3 / 2 * tr_RL t then [bl_lap b] else [])"

fun moving_part :: "conv_env \<Rightarrow> layout_track \<Rightarrow> log_sample list \<Rightarrow> nat \<Rightarrow> log_sample list" where
  "moving_part G t tail 0 = []"
| "moving_part G t tail (Suc n) =
     (if speed_at G t (take (Suc n) tail) n < 1 then moving_part G t tail n else take (Suc n) tail)"

definition last_part :: "conv_env \<Rightarrow> conv_input \<Rightarrow> layout_track \<Rightarrow> rat \<Rightarrow> raw_lap list \<Rightarrow> raw_lap list" where
  "last_part G I t t1 laps =
     (let ps = filter (\<lambda>s. lg_t s \<ge> t1 \<and> has_gps s) (ci_st I); tail = moving_part G t ps (length ps);
          b = build_lap G t False (ci_cells I) tail ''In progress'' KPartial (lg_t (hd tail)) (lg_t (last tail)) None False
      in if length tail \<ge> 8 \<and> lp_vavg (bl_lap b) \<ge> 4 / 10 * Max (set (map lp_vavg (filter (\<lambda>l. lp_kind l = KLap) laps))) then [bl_lap b] else [])"

definition loop_extras :: "conv_env \<Rightarrow> conv_input \<Rightarrow> layout_track \<Rightarrow> course \<Rightarrow> raw_lap list \<Rightarrow> raw_lap list" where
  "loop_extras G I t c laps =
     (if co_open c then laps
      else let laps1 = laps @ (if lap_start (pp_lap (hd (co_legs c))) = ci_firstT I then out_lap G I t (lp_t0 (hd laps)) else []);
               t1 = lap_end (pp_lap (last (co_legs c)))
           in laps1 @ (if t1 = ci_lastT I then last_part G I t t1 laps1 else []))"

subsection \<open>The run of a course\<close>

definition in_a_lap :: "raw_lap list \<Rightarrow> rat \<Rightarrow> bool" where
  "in_a_lap laps t \<longleftrightarrow> list_ex (\<lambda>l. lp_t0 l \<le> t \<and> t \<le> lp_t1 l) laps"

definition run_cones :: "(string option \<times> rat option \<times> string option) list \<Rightarrow> raw_lap list \<Rightarrow> cone_event list" where
  "run_cones flags laps = map snd (cone_map (List.map_filter (\<lambda>(i, t, label).
     case (t, label) of
       (Some x, Some txt) \<Rightarrow>
         if isConeLabel txt \<and> list_ex (\<lambda>l. lp_kind l = KLap \<and> lp_t0 l \<le> x \<and> x < lp_t1 l) laps
         then Some \<lparr>ce_id = ''export:cone:'' @ (case i of Some k \<Rightarrow> k | None \<Rightarrow> decimal_text 0 (rat_round x)), ce_t = x\<rparr> else None
     | _ \<Rightarrow> None) flags))"

definition or_num :: "rat option \<Rightarrow> rat \<Rightarrow> rat" where
  "or_num x d = (if num_or_zero x \<noteq> 0 then num_or_zero x else d)"

definition run_meta_of :: "session_export \<Rightarrow> conv_input \<Rightarrow> layout_track \<Rightarrow> nat \<Rightarrow> course \<Rightarrow> raw_lap list \<Rightarrow> run_meta" where
  "run_meta_of J I t ci c laps =
     (let base = or_text (sx_infoId J) (''file-'' @ ci_nm I @ ''-'' @ (case sx_savedAt J of Some x \<Rightarrow> if x = 0 then [] else decimal_text 0 (rat_round x) | None \<Rightarrow> []))
      in \<lparr>rm_cellIdx = ci_cells I, rm_sessId = (if ci_multi I then base @ ''~'' @ nat_text (ci + 1) else base), rm_cutoff = or_num (sx_cutoff J) (28 / 10),
          rm_planLaps = or_num (sx_targetLaps J) (of_nat (length (filter (\<lambda>l. lp_kind l = KLap) laps))), rm_planKwh = or_num (sx_targetKwh J) 0,
          rm_name = (if ci_multi I \<and> co_label c \<noteq> [] then ci_nm I @ middot @ co_label c else ci_nm I),
          rm_driver = or_text (sx_infoDriver J) (sx_mdDriver J), rm_venue = or_text (sx_infoVenue J) (sx_mdVenue J),
          rm_event = or_text (sx_infoEvent J) (sx_mdEvent J), rm_trackId = tr_id t, rm_trackName = tr_name t\<rparr>)"

definition run_of :: "session_export \<Rightarrow> conv_input \<Rightarrow> layout_track \<Rightarrow> nat \<Rightarrow> course \<Rightarrow> raw_lap list \<Rightarrow> string list \<Rightarrow> run_data" where
  "run_of J I t ci c laps warn =
     \<lparr>rd_quality = Some \<lparr>q_sampleTimes = filter (in_a_lap laps) (map lg_t (ci_st I)), q_gpsTimes = filter (in_a_lap laps) (ci_gpsTimes I),
        q_positionUpdateTimes = filter (in_a_lap laps) (ci_updateTimes I), q_interpolatedTimes = filter (in_a_lap laps) (ci_filledTimes I)\<rparr>,
      rd_coneEvents = run_cones (sx_flags J) laps, rd_ref = map (\<lambda>p. (round_to (fst p) 2, round_to (snd p) 2)) (tr_ref t),
      rd_cum = map (\<lambda>v. round_to v 2) (tr_cum t), rd_RL = tr_RL t, rd_open = co_open c, rd_laps = laps,
      rd_meta = run_meta_of J I t ci c laps, rd_warnings = warn\<rparr>"

record conv_result =
  cn_D :: run_data
  cn_track :: layout_track
  cn_isNew :: bool
  cn_renamed :: bool
  cn_label :: string

record conv_state =
  cx_known :: "layout_track list"
  cx_out :: "conv_result list"
  cx_skipped :: "string list"
  cx_noClean :: string

definition probe_samples :: "log_sample list \<Rightarrow> log_sample list" where
  "probe_samples ss = map (\<lambda>i. ss ! i) (filter (\<lambda>i. i mod (max 1 (length ss div 300)) = 0) [0..<length ss])"

definition course_track :: "conv_env \<Rightarrow> session_export \<Rightarrow> conv_input \<Rightarrow> layout_track list \<Rightarrow> layout_track list \<Rightarrow> nat \<Rightarrow> course
    \<Rightarrow> layout_track \<times> bool \<times> bool" where
  "course_track G J I tracks known ci c =
     (let grp = map pp_sm (co_legs c) in
      case best_track (sameTrack G (co_open c) (probe_samples (concat grp)) grp) tracks of
        Some t \<Rightarrow> if tr_num t = 0 then (layoutName known (ci_date I) (ci_event I) t, False, True) else (t, False, False)
      | None \<Rightarrow> (new_track G J (ci_file I) (ci_date I) (ci_event I) known ci c, True, False))"

definition course_step :: "conv_env \<Rightarrow> session_export \<Rightarrow> conv_input \<Rightarrow> layout_track list \<Rightarrow> conv_state \<Rightarrow> nat \<times> course \<Rightarrow> conv_state" where
  "course_step G J I tracks = (\<lambda>st (ci, c).
     let tr = course_track G J I tracks (cx_known st) ci c; t = fst tr; known = (if fst (snd tr) then cx_known st @ [t] else cx_known st);
         cl = timed_course_laps G I t c; laps = loop_extras G I t c (cl_laps cl)
     in if cl_laps cl = []
        then st\<lparr>cx_known := known, cx_noClean := ''No timed lap was a clean single '' @ noun_of (co_open c) @ '' of the track.'',
                cx_skipped := cx_skipped st @ [or_text (co_label c) ''A course'' @ '' was left out: none of its laps was a clean single ''
                  @ noun_of (co_open c) @ ''.'']\<rparr>
        else st\<lparr>cx_known := known, cx_out := cx_out st @ [\<lparr>cn_D = run_of J I t ci c laps (cl_warn cl @ odd_warning (cl_odd cl)), cn_track = t,
                cn_isNew = fst (snd tr), cn_renamed = snd (snd tr), cn_label = co_label c\<rparr>]\<rparr>)"

subsection \<open>The session\<close>

datatype convert_error = Not_an_export | No_fixes nat nat | No_timed_laps | No_route | No_clean_lap string

definition lap_ref :: "leg \<Rightarrow> string" where
  "lap_ref l = lap_text (pp_i l)"

definition route_warning :: "prepared list \<Rightarrow> string list" where
  "route_warning xs = (if xs = [] then []
     else [join '', '' (map (\<lambda>x. or_text (lx_label (pp_lap x)) (lap_text (pp_i x))) xs)
       @ '' have missing, frozen/stationary or incomplete GPS coverage and were not mapped. Their logged times are unchanged in the original export.''])"

definition courses_warning :: "course list \<Rightarrow> string list" where
  "courses_warning cs = (if length cs \<le> 1 then []
     else [nat_text (length cs) @ '' courses in this session: ''
       @ join ''; '' (map (\<lambda>c. or_text (co_label c) ''Course'' @ '' ('' @ join '', '' (map lap_ref (co_legs c)) @ '')'') cs)
       @ ''. Each is opened as its own run, because laps on different start and finish lines are not comparable.''])"

definition left_warning :: "leg list \<Rightarrow> string list" where
  "left_warning ls = (if ls = [] then []
     else [join '', '' (map lap_ref ls) @ (if length ls = 1 then '' is'' else '' are'')
       @ '' too short or slow to be a timed run (a drive back or a reposition), so ''
       @ (if length ls = 1 then ''it was'' else ''they were'') @ '' left out.''])"

definition strip_json :: "string \<Rightarrow> string" where
  "strip_json s = (if ends_with ''.json'' (lower s) then take (length s - 5) s else s)"

definition export_event :: "session_export \<Rightarrow> string" where
  "export_event J = or_text (trim (or_text (sx_infoEvent J) (or_text (sx_mdEvent J) ''Session''))) ''Session''"

definition prepend_warnings :: "string list \<Rightarrow> conv_result list \<Rightarrow> conv_result list" where
  "prepend_warnings ws rs = (case rs of [] \<Rightarrow> []
     | r # rest \<Rightarrow> r\<lparr>cn_D := (cn_D r)\<lparr>rd_warnings := ws @ rd_warnings (cn_D r)\<rparr>\<rparr> # rest)"

definition session_samples :: "session_export \<Rightarrow> log_sample list" where
  "session_samples J = merged_samples (exported_samples (the (sx_laps J)) (sx_current J) (the (sx_tail J)))"

definition session_input :: "conv_env \<Rightarrow> session_export \<Rightarrow> string \<Rightarrow> log_sample list \<Rightarrow> (lap_export \<times> nat) list \<Rightarrow> prepared list \<Rightarrow> bool \<Rightarrow> conv_input" where
  "session_input G J file st0 laps runnable multi =
     (let fixes = filter has_gps st0; filled = fill_positions st0 in
      \<lparr>ci_st = fst filled, ci_gpsTimes = map lg_t fixes, ci_updateTimes = update_times fixes, ci_filledTimes = snd filled,
       ci_cells = cell_index (fst filled) (concat (map pp_sm runnable)), ci_date = date_text (cv_date G (lap_start (fst (hd laps)))),
       ci_event = export_event J, ci_nm = or_text (sx_infoName J) (or_text (sx_name J) (strip_json (or_text file ''Session''))),
       ci_file = file, ci_firstT = lap_start (fst (hd laps)), ci_lastT = lap_end (fst (last laps)), ci_multi = multi\<rparr>)"

definition session_courses :: "conv_env \<Rightarrow> prepared list \<Rightarrow> course list \<times> leg list" where
  "session_courses G runnable =
     (let ss = concat (map pp_sm runnable) in planCourses G (project G (mean_at lg_lat ss) (mean_at lg_lon ss)) runnable)"

definition convertSession :: "conv_env \<Rightarrow> session_export \<Rightarrow> string \<Rightarrow> layout_track list \<Rightarrow> convert_error + conv_result list" where
  "convertSession G J file tracks =
     (if sx_tail J = None \<or> sx_laps J = None then Inl Not_an_export
      else let st0 = session_samples J; fixes = filter has_gps st0; laps = timed_laps (the (sx_laps J));
               prep = prepare_laps (fst (fill_positions st0)) laps; runnable = filter (has_route G fixes) prep;
               plan = session_courses G runnable; courses = fst plan;
               I = session_input G J file st0 laps runnable (length courses > 1);
               warn = route_warning (filter (\<lambda>x. \<not> has_route G fixes x) prep) @ courses_warning courses @ left_warning (snd plan);
               fin = foldl (course_step G J I tracks) \<lparr>cx_known = tracks, cx_out = [], cx_skipped = [], cx_noClean = []\<rparr>
                 (zip [0..<length courses] courses)
           in if length fixes < 30 then Inl (No_fixes (length fixes) (length st0))
              else if laps = [] then Inl No_timed_laps
              else if runnable = [] then Inl No_route
              else if cx_out fin = [] then Inl (No_clean_lap (cx_noClean fin))
              else Inr (prepend_warnings (warn @ cx_skipped fin) (cx_out fin)))"


subsection \<open>A lap that is built is well-formed\<close>

lemma progress_from_ok: "sorted (prev # progress_from opn RL prev qs) \<and> length (progress_from opn RL prev qs) = length qs"
proof (induction qs arbitrary: prev)
  case (Cons q qs)
  have "prev \<le> next_u opn RL prev q" by (simp add: next_u_def)
  then show ?case using Cons [of "next_u opn RL prev q"] by auto
qed simp

lemma progress_ok: "sorted (progress opn RL qs) \<and> length (progress opn RL qs) = length qs"
  using progress_from_ok by (cases qs) (simp_all add: progress_def)

lemma gate_pass_cross:
  assumes "gate_pass us ts g = Some x"
  obtains k where "1 \<le> k" "k < length us" "us ! (k - 1) < g" "straddles us g k" "x = cross_time us ts g k"
proof -
  obtain k where k: "List.find (\<lambda>k. us ! (k - 1) < g \<and> us ! k \<ge> g) [1..<length us] = Some k"
    "x = ts ! (k - 1) + (ts ! k - ts ! (k - 1)) * (g - us ! (k - 1)) / (us ! k - us ! (k - 1))"
    using assms by (auto simp: gate_pass_def)
  then have "k \<in> set [1..<length us]" "us ! (k - 1) < g \<and> us ! k \<ge> g" by (auto simp: find_Some_iff)
  then show thesis using that [of k] k(2) by (auto simp: straddles_def cross_time_def)
qed

lemma gates_passed_in_order:
  assumes u: "sorted us" "length ts = length us" and t: "sorted ts" and g: "g0 \<le> g1"
    and x: "gate_pass us ts g0 = Some x" and y: "gate_pass us ts g1 = Some y"
  shows "hd ts \<le> x \<and> x \<le> y \<and> y \<le> last ts"
proof -
  obtain i where i: "1 \<le> i" "i < length us" "us ! (i - 1) < g0" "straddles us g0 i" "x = cross_time us ts g0 i" by (rule gate_pass_cross [OF x])
  obtain j where j: "1 \<le> j" "j < length us" "us ! (j - 1) < g1" "straddles us g1 j" "y = cross_time us ts g1 j" by (rule gate_pass_cross [OF y])
  have ij: "i < length ts" "j < length ts" using i(2) j(2) u(2) by simp_all
  note ci = cross_time_between [OF t i(4,1) ij(1)] and cj = cross_time_between [OF t j(4,1) ij(2)]
  have le: "i \<le> j"
  proof (rule ccontr)
    assume "\<not> i \<le> j"
    then have "us ! j \<le> us ! (i - 1)" using i(2) by (intro sorted_nth_mono [OF u(1)]) simp_all
    then show False using i(3) j(4) g by (simp add: straddles_def)
  qed
  have "x \<le> y"
  proof (cases "i = j")
    case True
    have "ts ! (i - 1) \<le> ts ! i" by (rule sorted_nth_mono [OF t]) (use ij in simp_all)
    then have "(ts ! i - ts ! (i - 1)) * (g0 - us ! (i - 1)) / (us ! i - us ! (i - 1))
        \<le> (ts ! i - ts ! (i - 1)) * (g1 - us ! (i - 1)) / (us ! i - us ! (i - 1))"
      using i(4) g by (intro divide_right_mono mult_left_mono) (simp_all add: straddles_def)
    then show ?thesis using True i(5) j(5) by (simp add: cross_time_def)
  next
    case False
    have "ts ! i \<le> ts ! (j - 1)" by (rule sorted_nth_mono [OF t]) (use le False ij in simp_all)
    then show ?thesis using ci(2) cj(1) i(5) j(5) by linarith
  qed
  moreover have "hd ts \<le> ts ! (i - 1)" "ts ! j \<le> last ts"
    using sorted_nth_mono [OF t, of 0 "i - 1"] sorted_nth_mono [OF t, of j "length ts - 1"] ij
    by (simp_all add: hd_conv_nth last_conv_nth less_imp_diff_less flip: length_greater_0_conv)
  ultimately show ?thesis using ci(1) cj(2) i(5) j(5) by linarith
qed

definition sectors_fit :: "raw_lap \<Rightarrow> bool" where
  "sectors_fit l \<longleftrightarrow> (case lp_sec l of [Some a, Some b, Some c] \<Rightarrow> 0 \<le> a \<and> 0 \<le> b \<and> 0 \<le> c \<and> a + b + c = lp_dur l | _ \<Rightarrow> True)"

lemma build_sectors_fit:
  assumes "sorted us" "length ts = length us" "sorted ts" "fst g \<le> snd g" "0 \<le> hd ts" "last ts \<le> dur"
  shows "case build_sectors us ts dur whole g of [Some a, Some b, Some c] \<Rightarrow> 0 \<le> a \<and> 0 \<le> b \<and> 0 \<le> c \<and> a + b + c = dur | _ \<Rightarrow> True"
proof (cases "gate_pass us ts (fst g)")
  case (Some x)
  note x = Some
  show ?thesis
  proof (cases "gate_pass us ts (snd g)")
    case (Some y)
    then show ?thesis using gates_passed_in_order [OF assms(1-4) x Some] assms(5,6) x by (simp add: build_sectors_def Let_def)
  qed (simp add: build_sectors_def x Let_def)
qed (simp add: build_sectors_def Let_def split: option.split)

lemma build_lap_fields:
  "lp_t0 (bl_lap (build_lap G t opn cells ss name kind t0 t1 e whole)) = t0"
  "lp_t1 (bl_lap (build_lap G t opn cells ss name kind t0 t1 e whole)) = t1"
  "lp_dur (bl_lap (build_lap G t opn cells ss name kind t0 t1 e whole)) = t1 - t0"
  "lp_kind (bl_lap (build_lap G t opn cells ss name kind t0 t1 e whole)) = kind"
  "lap_t (bl_lap (build_lap G t opn cells ss name kind t0 t1 e whole)) = map (\<lambda>s. lg_t s - t0) ss"
  "lap_u (bl_lap (build_lap G t opn cells ss name kind t0 t1 e whole))
     = map (\<lambda>v. round_to v 1) (progress opn (tr_RL t) (map fst (map (nearOn G (tr_ref t) (tr_cum t)) (map (project G (tr_lat0 t) (tr_lon0 t)) ss))))"
  "length (lp_pts (bl_lap (build_lap G t opn cells ss name kind t0 t1 e whole))) = length ss"
  "length (ch_of (lp_ch (bl_lap (build_lap G t opn cells ss name kind t0 t1 e whole))) k) = length ss"
  "lp_sec (bl_lap (build_lap G t opn cells ss name kind t0 t1 e whole))
     = build_sectors (progress opn (tr_RL t) (map fst (map (nearOn G (tr_ref t) (tr_cum t)) (map (project G (tr_lat0 t) (tr_lon0 t)) ss))))
         (map (\<lambda>s. lg_t s - t0) ss) (t1 - t0) whole (track_gates t)"
  by (simp_all add: build_lap_def Let_def del: map_map)

lemma build_lap_ok:
  assumes "sorted (map lg_t ss)" "ss \<noteq> []"
  shows "lap_ok (bl_lap (build_lap G t opn cells ss name kind t0 t1 e whole))"
proof -
  have "sorted (map (\<lambda>v. v - t0) (map lg_t ss))" by (rule sorted_map_mono [OF assms(1)]) simp
  then have "sorted (map (\<lambda>s. lg_t s - t0) ss)" by (simp add: o_def)
  then show ?thesis
    using assms(2) progress_ok round_to_mono unfolding lap_ok_def build_lap_fields by (auto intro!: sorted_map_mono simp del: map_map)
qed

lemma build_lap_sectors:
  assumes "sorted (map lg_t ss)" "ss \<noteq> []" "t0 \<le> lg_t (hd ss)" "lg_t (last ss) \<le> t1" "fst (track_gates t) \<le> snd (track_gates t)"
  shows "sectors_fit (bl_lap (build_lap G t opn cells ss name kind t0 t1 e whole))"
proof -
  have "sorted (map (\<lambda>v. v - t0) (map lg_t ss))" by (rule sorted_map_mono [OF assms(1)]) simp
  then have "sorted (map (\<lambda>s. lg_t s - t0) ss)" by (simp add: o_def)
  then show ?thesis unfolding sectors_fit_def build_lap_fields
    using progress_ok assms(2-5) by (intro build_sectors_fit) (simp_all add: hd_map last_map del: map_map)
qed


subsection \<open>The laps of a run\<close>

definition span_of :: "raw_lap \<Rightarrow> rat \<times> rat" where
  "span_of l = (lp_t0 l, lp_t1 l)"

definition leg_span :: "leg \<Rightarrow> rat \<times> rat" where
  "leg_span l = (lap_start (pp_lap l), lap_end (pp_lap l))"

text \<open>A lap that holds together: channels and fixes of one length, times and distances in order, sector times that add up to its time
  when the gates of the track are in order.\<close>

definition lap_fits :: "layout_track \<Rightarrow> raw_lap \<Rightarrow> bool" where
  "lap_fits t l \<longleftrightarrow> lap_ok l \<and> lp_dur l = lp_t1 l - lp_t0 l \<and> (fst (track_gates t) \<le> snd (track_gates t) \<longrightarrow> sectors_fit l)"

lemma build_lap_fits:
  assumes "sorted (map lg_t ss)" "ss \<noteq> []" "t0 \<le> lg_t (hd ss)" "lg_t (last ss) \<le> t1"
  shows "lap_fits t (bl_lap (build_lap G t opn cells ss name kind t0 t1 e whole))"
  using build_lap_ok [OF assms(1,2)] build_lap_sectors [OF assms] by (simp add: lap_fits_def build_lap_fields)

lemma sorted_map_filter: "sorted (map f xs) \<Longrightarrow> sorted (map f (filter P xs))"
  by (induction xs) auto

lemma slice_gps_ok:
  assumes "sorted (map lg_t st)"
  shows "sorted (map lg_t (slice_gps st t0 t1))" "slice_gps st t0 t1 \<noteq> [] \<Longrightarrow> t0 \<le> lg_t (hd (slice_gps st t0 t1)) \<and> lg_t (last (slice_gps st t0 t1)) \<le> t1"
proof -
  show "sorted (map lg_t (slice_gps st t0 t1))" using assms by (simp add: slice_gps_def sorted_map_filter)
  assume "slice_gps st t0 t1 \<noteq> []"
  then have "hd (slice_gps st t0 t1) \<in> set (slice_gps st t0 t1)" "last (slice_gps st t0 t1) \<in> set (slice_gps st t0 t1)" by simp_all
  then show "t0 \<le> lg_t (hd (slice_gps st t0 t1)) \<and> lg_t (last (slice_gps st t0 t1)) \<le> t1" by (simp add: slice_gps_def)
qed

lemma lap_step_laps:
  assumes "sorted (map lg_t (ci_st I))"
  shows "cl_laps (lap_step G I t opn acc l) = cl_laps acc
    \<or> (\<exists>x. cl_laps (lap_step G I t opn acc l) = cl_laps acc @ [x] \<and> lap_fits t x \<and> lp_kind x = KLap \<and> span_of x = leg_span l)"
proof -
  let ?ss = "slice_gps (ci_st I) (lap_start (pp_lap l)) (lap_end (pp_lap l))"
  let ?x = "bl_lap (build_lap G t opn (ci_cells I) ?ss (or_text (trim (lx_label (pp_lap l))) (lap_text (pp_i l))) KLap
    (lap_start (pp_lap l)) (lap_end (pp_lap l)) (Some (pp_lap l)) True)"
  have "lap_fits t ?x \<and> lp_kind ?x = KLap \<and> span_of ?x = leg_span l" if "\<not> length ?ss < 4"
  proof -
    have "?ss \<noteq> []" using that by auto
    then show ?thesis using slice_gps_ok [OF assms] by (simp add: build_lap_fits span_of_def leg_span_def build_lap_fields)
  qed
  moreover have "cl_laps (lap_step G I t opn acc l) = cl_laps acc
      \<or> \<not> length ?ss < 4 \<and> cl_laps (lap_step G I t opn acc l) = cl_laps acc @ [?x]"
    unfolding lap_step_def Let_def by simp
  ultimately show ?thesis by blast
qed

lemma timed_course_laps_ok:
  assumes "sorted (map lg_t (ci_st I))"
  shows "list_all (\<lambda>x. lap_fits t x \<and> lp_kind x = KLap) (cl_laps (timed_course_laps G I t c))
    \<and> subseq (map span_of (cl_laps (timed_course_laps G I t c))) (map leg_span (co_legs c))"
proof -
  let ?run = "\<lambda>ls. foldl (lap_step G I t (co_open c)) \<lparr>cl_laps = [], cl_odd = [], cl_warn = []\<rparr> ls"
  have "list_all (\<lambda>x. lap_fits t x \<and> lp_kind x = KLap) (cl_laps (?run ls)) \<and> subseq (map span_of (cl_laps (?run ls))) (map leg_span ls)" for ls
  proof (induction ls rule: rev_induct)
    case (snoc l ls)
    have "subseq xs (ys @ [y])" if "subseq xs ys" for xs ys and y :: "rat \<times> rat"
      using that by (metis append_Nil2 list_emb_Nil list_emb_append_mono)
    then show ?case using snoc lap_step_laps [OF assms, of G t "co_open c" "?run ls" l] by (auto simp: subseq_append)
  qed simp
  then show ?thesis by (simp add: timed_course_laps_def)
qed


lemma out_lap_ok:
  assumes "sorted (map lg_t (ci_st I))"
  shows "list_all (\<lambda>x. lap_fits t x \<and> lp_kind x \<noteq> KLap) (out_lap G I t t0)"
proof -
  define ps where "ps = filter (\<lambda>s. lg_t s \<le> t0 \<and> has_gps s) (ci_st I)"
  define out where "out = drop (out_start G t ps t0 (length ps - 1)) ps"
  have o: "sorted (map lg_t out)" unfolding out_def ps_def using assms by (simp add: sorted_map_filter sorted_wrt_drop flip: drop_map)
  have "set out \<subseteq> set ps" by (simp add: out_def set_drop_subset)
  then have "lg_t (last out) \<le> t0" if "out \<noteq> []" using last_in_set [OF that] by (auto simp: ps_def)
  then have "lap_fits t (bl_lap (build_lap G t False (ci_cells I) out ''Out lap'' KOut (lg_t (hd out)) t0 None True))" if "out \<noteq> []"
    using o that by (intro build_lap_fits) simp_all
  then show ?thesis unfolding out_lap_def Let_def ps_def [symmetric] out_def [symmetric] by (cases "out = []") (auto simp: build_lap_fields)
qed

lemma moving_part_take: "\<exists>n. moving_part G t ps k = take n ps"
  by (induction k) (auto intro: exI [of _ 0])

lemma last_part_ok:
  assumes "sorted (map lg_t (ci_st I))"
  shows "list_all (\<lambda>x. lap_fits t x \<and> lp_kind x \<noteq> KLap) (last_part G I t t1 laps)"
proof -
  define ps where "ps = filter (\<lambda>s. lg_t s \<ge> t1 \<and> has_gps s) (ci_st I)"
  define tail where "tail = moving_part G t ps (length ps)"
  obtain n where "tail = take n ps" using moving_part_take unfolding tail_def by blast
  then have "sorted (map lg_t tail)" unfolding ps_def using assms by (simp add: sorted_map_filter sorted_wrt_take flip: take_map)
  then have "lap_fits t (bl_lap (build_lap G t False (ci_cells I) tail ''In progress'' KPartial (lg_t (hd tail)) (lg_t (last tail)) None False))" if "tail \<noteq> []"
    using that by (intro build_lap_fits) simp_all
  then show ?thesis unfolding last_part_def Let_def ps_def [symmetric] tail_def [symmetric] by (cases "tail = []") (auto simp: build_lap_fields)
qed

lemma loop_extras_ok:
  assumes "sorted (map lg_t (ci_st I))"
  shows "\<exists>es. loop_extras G I t c laps = laps @ es \<and> list_all (\<lambda>x. lap_fits t x \<and> lp_kind x \<noteq> KLap) es"
  unfolding loop_extras_def Let_def using out_lap_ok [OF assms] last_part_ok [OF assms] by (auto intro: exI [of _ "[]"])

subsection \<open>The runs of a session\<close>

definition timed_spans :: "run_data \<Rightarrow> (rat \<times> rat) list" where
  "timed_spans D = map span_of (filter (\<lambda>l. lp_kind l = KLap) (rd_laps D))"

definition run_fits :: "conv_result \<Rightarrow> bool" where
  "run_fits r \<longleftrightarrow> list_all (lap_fits (cn_track r)) (rd_laps (cn_D r)) \<and> timed_spans (cn_D r) \<noteq> [] \<and> rd_RL (cn_D r) = tr_RL (cn_track r)
     \<and> rd_meta (cn_D r) = (rd_meta (cn_D r))\<lparr>rm_trackId := tr_id (cn_track r), rm_trackName := tr_name (cn_track r)\<rparr>"

lemma course_step_out:
  assumes "sorted (map lg_t (ci_st I))"
  shows "cx_out (course_step G J I tracks st (ci, c)) = cx_out st
    \<or> (\<exists>r. cx_out (course_step G J I tracks st (ci, c)) = cx_out st @ [r] \<and> run_fits r \<and> subseq (timed_spans (cn_D r)) (map leg_span (co_legs c)))"
proof -
  define tr where "tr = course_track G J I tracks (cx_known st) ci c"
  define cl where "cl = timed_course_laps G I (fst tr) c"
  define laps where "laps = loop_extras G I (fst tr) c (cl_laps cl)"
  define r where "r = \<lparr>cn_D = run_of J I (fst tr) ci c laps (cl_warn cl @ odd_warning (cl_odd cl)), cn_track = fst tr,
    cn_isNew = fst (snd tr), cn_renamed = snd (snd tr), cn_label = co_label c\<rparr>"
  have cl: "list_all (\<lambda>x. lap_fits (fst tr) x \<and> lp_kind x = KLap) (cl_laps cl)" "subseq (map span_of (cl_laps cl)) (map leg_span (co_legs c))"
    using timed_course_laps_ok [OF assms] unfolding cl_def by blast+
  obtain es where es: "laps = cl_laps cl @ es" "list_all (\<lambda>x. lap_fits (fst tr) x \<and> lp_kind x \<noteq> KLap) es"
    using loop_extras_ok [OF assms] unfolding laps_def by blast
  have "filter (\<lambda>l. lp_kind l = KLap) laps = cl_laps cl"
    using cl(1) es(2) unfolding es(1) by (auto simp: list_all_iff filter_id_conv filter_empty_conv)
  then have s: "timed_spans (cn_D r) = map span_of (cl_laps cl)" by (simp add: timed_spans_def r_def run_of_def)
  have "list_all (lap_fits (fst tr)) laps" using cl(1) es(2) unfolding es(1) by (auto simp: list_all_iff)
  then have "run_fits r" if "cl_laps cl \<noteq> []"
    using that unfolding run_fits_def s by (simp add: r_def run_of_def run_meta_of_def Let_def)
  moreover have "cx_out (course_step G J I tracks st (ci, c)) = (if cl_laps cl = [] then cx_out st else cx_out st @ [r])"
    by (simp add: course_step_def Let_def tr_def [symmetric] cl_def [symmetric] laps_def [symmetric] r_def)
  ultimately show ?thesis using cl(2) s by auto
qed

lemma courses_out:
  assumes "sorted (map lg_t (ci_st I))" "cx_out st = []"
  shows "list_all run_fits (cx_out (foldl (course_step G J I tracks) st ps))
    \<and> mset (concat (map (timed_spans \<circ> cn_D) (cx_out (foldl (course_step G J I tracks) st ps))))
        \<subseteq># mset (concat (map (map leg_span \<circ> co_legs \<circ> snd) ps))"
proof (induction ps rule: rev_induct)
  case Nil
  then show ?case using assms(2) by simp
next
  case (snoc p ps)
  let ?st = "foldl (course_step G J I tracks) st ps"
  have sub: "mset xs \<subseteq># mset ys" if "subseq xs ys" for xs ys :: "(rat \<times> rat) list"
    using that by (induction rule: list_emb.induct) (auto intro: subset_mset.order_trans mset_subset_eq_add_right)
  obtain i c where p: "p = (i, c)" by (cases p)
  from course_step_out [OF assms(1), of G J tracks ?st i c] show ?case
  proof
    assume "cx_out (course_step G J I tracks ?st (i, c)) = cx_out ?st"
    then show ?thesis using snoc unfolding p by (simp add: subset_mset.add_increasing2)
  next
    assume "\<exists>r. cx_out (course_step G J I tracks ?st (i, c)) = cx_out ?st @ [r] \<and> run_fits r
      \<and> subseq (timed_spans (cn_D r)) (map leg_span (co_legs c))"
    then obtain r where "cx_out (course_step G J I tracks ?st (i, c)) = cx_out ?st @ [r]" "run_fits r"
      "mset (timed_spans (cn_D r)) \<subseteq># mset (map leg_span (co_legs c))" using sub by blast
    then show ?thesis using snoc unfolding p by (simp add: subset_mset.add_mono)
  qed
qed


definition export_span :: "lap_export \<Rightarrow> rat \<times> rat" where
  "export_span e = (lap_start e, lap_end e)"

lemma plan_spans:
  "mset (concat (map (map leg_span \<circ> co_legs) (fst (planCourses G pr prep)))) \<subseteq># mset (map (export_span \<circ> pp_lap) prep)"
proof -
  define legs where "legs = map (make_leg G pr) prep"
  define runs where "runs = mark_loops G (run_legs legs)"
  have "mset (concat (map co_legs (fst (planCourses G pr prep)))) = mset runs"
    using group_legs_ok unfolding planCourses_legs(1) legs_def [symmetric] runs_def [symmetric] by blast
  then have "mset (map leg_span (concat (map co_legs (fst (planCourses G pr prep))))) = mset (map leg_span runs)" by (metis mset_map)
  moreover have "map leg_span runs = map leg_span (run_legs legs)"
    using arg_cong [OF mark_loops_pp(3) [of G "run_legs legs"], of "map export_span"]
    by (simp add: runs_def leg_span_def [abs_def] export_span_def [abs_def] o_def)
  moreover have "mset (map leg_span (run_legs legs)) \<subseteq># mset (map leg_span legs)"
    using arg_cong [OF runs_and_left [of legs], of "image_mset leg_span"] by (metis mset_append image_mset_union mset_map mset_subset_eq_add_left)
  moreover have "map leg_span legs = map (export_span \<circ> pp_lap) prep" by (simp add: legs_def leg_span_def export_span_def)
  moreover have "concat (map (map leg_span \<circ> co_legs) cs) = map leg_span (concat (map co_legs cs))" for cs by (simp add: map_concat o_def)
  ultimately show ?thesis by metis
qed

lemma open_laps_kinds: "map lp_kind (open_laps D) = map lp_kind (rd_laps D)"
  by (simp add: open_laps_def Let_def prepareLap_def raw_lap.defs lap.defs)

definition run_opens :: "conv_result \<Rightarrow> bool" where
  "run_opens r \<longleftrightarrow> (0 < tr_RL (cn_track r) \<longrightarrow> (\<forall>rates. \<exists>s. open_session (cn_D r) rates = Some s \<and> session_ok s))"

lemma fitting_run_opens: "run_fits r \<Longrightarrow> run_opens r"
proof -
  assume r: "run_fits r"
  have "KLap \<in> lp_kind ` set (rd_laps (cn_D r))" using r by (force simp: run_fits_def timed_spans_def filter_empty_conv)
  then have "KLap \<in> set (map lp_kind (open_laps (cn_D r)))" by (simp only: open_laps_kinds set_map)
  then have t: "timed (open_laps (cn_D r)) \<noteq> []" by (force simp: timed_def filter_empty_conv in_set_conv_nth)
  have "\<exists>s. open_session (cn_D r) rates = Some s \<and> session_ok s" if "0 < tr_RL (cn_track r)" for rates
  proof -
    obtain s where s: "open_session (cn_D r) rates = Some s" using t by (simp add: open_session_def Let_def)
    have "0 < rd_RL (cn_D r)" using r that by (simp add: run_fits_def)
    then show ?thesis using session_gates_ok s by blast
  qed
  then show "run_opens r" by (simp add: run_opens_def)
qed

definition conversion_sound :: "session_export \<Rightarrow> conv_result list \<Rightarrow> bool" where
  "conversion_sound J rs \<longleftrightarrow> rs \<noteq> [] \<and> list_all run_fits rs \<and> list_all run_opens rs
     \<and> mset (concat (map (timed_spans \<circ> cn_D) rs)) \<subseteq># mset (map (export_span \<circ> fst) (timed_laps (the (sx_laps J))))"

lemma prepend_warnings_keeps:
  "prepend_warnings ws rs = [] \<longleftrightarrow> rs = []" "list_all run_fits (prepend_warnings ws rs) = list_all run_fits rs"
  "map (timed_spans \<circ> cn_D) (prepend_warnings ws rs) = map (timed_spans \<circ> cn_D) rs"
  by (cases rs; simp add: prepend_warnings_def run_fits_def timed_spans_def)+

lemma filled_times: "list_all2 (filled_from fixes) ss ys \<Longrightarrow> map lg_t ys = map lg_t ss"
  by (induction rule: list_all2_induct) (auto simp: filled_from_def)

lemma session_samples_sorted:
  assumes "2 \<le> length (filter has_gps (session_samples J))"
  shows "sorted (map lg_t (fst (fill_positions (session_samples J))))"
proof -
  have s: "sorted_wrt (<) (map lg_t (session_samples J))" unfolding session_samples_def by (rule merged_sorted)
  then show ?thesis using filled_times [OF fill_positions_ok [OF s assms]] by (simp add: strict_sorted_iff)
qed



subsection \<open>The samples of a session\<close>

text \<open>C16: the samples of an export become one sequence in time order with every moment once; no fix is lost, and a position is made up only
  between two fixes at most three seconds apart, on the straight between them.\<close>

theorem session_positions_sound:
  assumes "2 \<le> length (filter has_gps (merged_samples ss))"
  shows "sorted_wrt (<) (map lg_t (fst (fill_positions (merged_samples ss))))
    \<and> lg_t ` set (fst (fill_positions (merged_samples ss))) = lg_t ` set ss
    \<and> lg_t ` set (filter has_gps (merged_samples ss)) = lg_t ` set (filter has_gps ss)
    \<and> list_all2 (filled_from (filter has_gps (merged_samples ss))) (merged_samples ss) (fst (fill_positions (merged_samples ss)))"
proof -
  note m = merged_samples_sound [of ss]
  have f: "list_all2 (filled_from (filter has_gps (merged_samples ss))) (merged_samples ss) (fst (fill_positions (merged_samples ss)))"
    using m assms by (intro fill_positions_ok) blast+
  then have t: "map lg_t (fst (fill_positions (merged_samples ss))) = map lg_t (merged_samples ss)" by (rule filled_times)
  have "t \<in> lg_t ` set (filter has_gps (merged_samples ss)) \<longleftrightarrow> t \<in> lg_t ` set (filter has_gps ss)" for t
  proof -
    have "t \<in> lg_t ` set (filter has_gps (merged_samples ss)) \<longleftrightarrow> (\<exists>s \<in> set (merged_samples ss). lg_t s = t \<and> has_gps s)" by auto
    also have "\<dots> \<longleftrightarrow> (\<exists>s \<in> set (merged_samples ss). lg_t s = t) \<and> (\<exists>x \<in> set ss. lg_t x = t \<and> has_gps x)"
      using merged_samples_sound [of ss] by blast
    also have "\<dots> \<longleftrightarrow> (\<exists>x \<in> set ss. lg_t x = t \<and> has_gps x)" using m by (metis (no_types, lifting) image_iff)
    finally show ?thesis by (auto simp: image_iff)
  qed
  moreover have "lg_t ` set (fst (fill_positions (merged_samples ss))) = lg_t ` set ss" using m t by (metis set_map)
  ultimately show ?thesis using m t f by auto
qed

definition demo_sample :: "rat \<Rightarrow> rat option \<Rightarrow> log_sample" where
  "demo_sample t x = \<lparr>lg_t = t, lg_lat = x, lg_lon = x, lg_hv = None, lg_values = [], lg_cells = None\<rparr>"

definition demo_samples :: "log_sample list" where
  "demo_samples = [demo_sample 2000 (Some 30), demo_sample 1000 None, demo_sample 0 (Some 10), demo_sample 2000 None]"

lemma demo_merged: "merged_samples demo_samples = [demo_sample 0 (Some 10), demo_sample 1000 None, demo_sample 2000 (Some 30)]"
  by (simp add: merged_samples_def demo_samples_def add_sample_def merge_sample_def demo_sample_def jm_get_def jm_set_def has_gps_def)

lemma session_positions_sound_witness:
  "list_all2 (filled_from [demo_sample 0 (Some 10), demo_sample 2000 (Some 30)]) (merged_samples demo_samples)
    (fst (fill_positions (merged_samples demo_samples)))"
proof -
  have f: "filter has_gps (merged_samples demo_samples) = [demo_sample 0 (Some 10), demo_sample 2000 (Some 30)]"
    by (simp add: demo_merged demo_sample_def has_gps_def)
  show ?thesis using session_positions_sound [of demo_samples] by (simp add: f)
qed

text \<open>A saved track without a number gets the next free name when it is recognised, but the name is not entered among the known ones: the
  next track that the same session names gets the same name and number.\<close>

lemma renamed_track_not_known:
  assumes "snd (course_track G J I tracks (cx_known st) ci c) = (False, True)"
  shows "cx_known (course_step G J I tracks st (ci, c)) = cx_known st"
    "layout_num (cx_known (course_step G J I tracks st (ci, c))) date event = layout_num (cx_known st) date event"
  using assms by (simp_all add: course_step_def Let_def)

end
