(* ===== verification/DriveAnalysis.thy ===== *)
theory DriveAnalysis
  imports DriveNotes
begin

text \<open>
  What depends on the driver's notes: \<^verbatim>\<open>viewer_tool/src/lib/driveday/analysis.ts\<close>. Which laps count, the best sectors and the
  lap stitched from them, cone penalties, alerts, the gain against another lap.

  A missing figure, \<^verbatim>\<open>NaN\<close> in the source, is \<open>None\<close>. The spread of the brake and apex points (a square root) is left out.
\<close>

subsection \<open>Which laps count\<close>

definition numSetup :: "user_state \<Rightarrow> string \<Rightarrow> jsnum option" where
  "numSetup u k = (case jm_get (us_setup u) k of None \<Rightarrow> None
     | Some (SText s) \<Rightarrow> if s = [] \<or> text_number s = JNaN then None else Some (text_number s)
     | Some (SNum x) \<Rightarrow> if x = JNaN then None else Some x)"

definition coneEvIn :: "session \<Rightarrow> user_state \<Rightarrow> lap \<Rightarrow> cone_event list" where
  "coneEvIn s u l = filter (\<lambda>e. ce_t e \<ge> lp_t0 l - se_T0 s \<and> ce_t e < lp_t1 l - se_T0 s) (us_ce u)"

definition untimed_cones :: "user_state \<Rightarrow> nat \<Rightarrow> rat" where
  "untimed_cones u n = (case jm_get (us_cones u) n of Some c \<Rightarrow> c | None \<Rightarrow> 0)"

definition conesOf :: "session \<Rightarrow> user_state \<Rightarrow> nat \<Rightarrow> rat" where
  "conesOf s u i = (if lp_kind (lap_at s i) = KLap
     then untimed_cones u (lapNo i) + of_nat (length (coneEvIn s u (lap_at s i))) else 0)"

definition default_rules :: validity where
  "default_rules = \<lparr>va_cones = False, va_offCourse = True, va_incomplete = True\<rparr>"

definition rules_allow :: "session \<Rightarrow> user_state \<Rightarrow> nat \<Rightarrow> string option \<Rightarrow> bool" where
  "rules_allow s u i f =
     (let r = (case us_validity u of Some v \<Rightarrow> v | None \<Rightarrow> default_rules) in
      \<not> (va_cones r \<and> (conesOf s u i > 0 \<or> f = Some ''cone'')) \<and> \<not> (va_offCourse r \<and> f = Some ''offcourse'')
      \<and> \<not> (va_incomplete r \<and> f = Some ''incomplete''))"

definition valid :: "session \<Rightarrow> user_state \<Rightarrow> nat \<Rightarrow> bool" where
  "valid s u i =
     (if lp_kind (lap_at s i) \<noteq> KLap then False
      else case jm_get (us_flags u) (lapNo i) of
             None \<Rightarrow> rules_allow s u i None
           | Some f \<Rightarrow> if lf_x f \<noteq> None \<and> lf_x f \<noteq> Some 0 then False
                       else case lf_include f of Some b \<Rightarrow> b | None \<Rightarrow> rules_allow s u i (lf_f f))"

definition pen :: "user_state \<Rightarrow> jsnum" where
  "pen u = (case numSetup u ''pen'' of Some v \<Rightarrow> v | None \<Rightarrow> JFin 2)"

definition adj :: "session \<Rightarrow> user_state \<Rightarrow> nat \<Rightarrow> jsnum" where
  "adj s u i = JFin (lp_dur (lap_at s i)) + JFin (conesOf s u i) * pen u * JFin 1000"

subsection \<open>The best of the run\<close>

definition lap_pool :: "session \<Rightarrow> user_state \<Rightarrow> nat list" where
  "lap_pool s u = filter (valid s u) (se_runs s)"

definition sector :: "session \<Rightarrow> nat \<Rightarrow> nat \<Rightarrow> rat option" where
  "sector s k i = lp_sec (lap_at s i) ! k"

definition best_sector :: "session \<Rightarrow> user_state \<Rightarrow> nat \<Rightarrow> rat option" where
  "best_sector s u k = min_of (List.map_filter (sector s k) (lap_pool s u))"

definition best_lap :: "session \<Rightarrow> user_state \<Rightarrow> rat option" where
  "best_lap s u = min_of (map (\<lambda>i. lp_dur (lap_at s i)) (lap_pool s u))"

definition theo :: "session \<Rightarrow> user_state \<Rightarrow> rat option" where
  "theo s u = (case (best_sector s u 0, best_sector s u 1, best_sector s u 2) of
     (Some a, Some b, Some c) \<Rightarrow> Some (a + b + c) | _ \<Rightarrow> None)"

definition best_run :: "session \<Rightarrow> user_state \<Rightarrow> nat" where
  "best_run s u = quickest (se_laps s) (if lap_pool s u \<noteq> [] then lap_pool s u else se_runs s)"

record best_sec =
  bx_v :: "rat option"
  bx_lap :: nat
  bx_label :: string

definition better_sector :: "session \<Rightarrow> nat \<Rightarrow> nat \<Rightarrow> nat \<Rightarrow> nat" where
  "better_sector s k a b = (case sector s k b of None \<Rightarrow> a
     | Some v \<Rightarrow> (case sector s k a of None \<Rightarrow> b | Some w \<Rightarrow> if v < w then b else a))"

definition position :: "nat list \<Rightarrow> nat \<Rightarrow> nat" where
  "position is i = length (takeWhile (\<lambda>j. j \<noteq> i) is)"

definition best_sector_lap :: "session \<Rightarrow> user_state \<Rightarrow> nat \<Rightarrow> best_sec" where
  "best_sector_lap s u k = (case lap_pool s u of
     [] \<Rightarrow> \<lparr>bx_v = None, bx_lap = 0, bx_label = ''No eligible lap''\<rparr>
   | p # ps \<Rightarrow> let b = foldl (better_sector s k) p (p # ps) in
       \<lparr>bx_v = sector s k b, bx_lap = position (se_runs s) b + 1, bx_label = lp_name (lap_at s b)\<rparr>)"

datatype timing_colour = Purple | Green | Yellow | Untimed

definition sectorClass :: "session \<Rightarrow> user_state \<Rightarrow> nat \<Rightarrow> nat \<Rightarrow> timing_colour" where
  "sectorClass s u i k = (case sector s k i of None \<Rightarrow> Untimed
     | Some v \<Rightarrow> if lp_kind (lap_at s i) = KLap \<and> valid s u i \<and> (case best_sector s u k of Some b \<Rightarrow> \<bar>v - b\<bar> < 1 | None \<Rightarrow> False) then Purple
         else (case sector s k (hd (se_runs s)) of None \<Rightarrow> Untimed | Some base \<Rightarrow> if v \<le> base then Green else Yellow))"

subsection \<open>Alerts\<close>

record alert_def =
  ad_k :: string
  ad_ch :: ch_key
  ad_label :: string
  ad_above :: bool
  ad_temp :: bool

definition ALERT_DEFS :: "alert_def list" where
  "ALERT_DEFS =
     [\<lparr>ad_k = ''aCellT'', ad_ch = CellT, ad_label = ''Hottest cell'', ad_above = True, ad_temp = True\<rparr>,
      \<lparr>ad_k = ''aInvT'', ad_ch = InvT, ad_label = ''Inverter hotspot'', ad_above = True, ad_temp = True\<rparr>,
      \<lparr>ad_k = ''aMotT'', ad_ch = MotT, ad_label = ''Motor'', ad_above = True, ad_temp = True\<rparr>,
      \<lparr>ad_k = ''aCoolT'', ad_ch = CoolT, ad_label = ''Coolant'', ad_above = True, ad_temp = True\<rparr>,
      \<lparr>ad_k = ''aCellV'', ad_ch = CellV, ad_label = ''Lowest cell'', ad_above = False, ad_temp = False\<rparr>,
      \<lparr>ad_k = ''aPackV'', ad_ch = Packv, ad_label = ''Pack voltage'', ad_above = False, ad_temp = False\<rparr>]"

record alert =
  al_def :: alert_def
  al_t :: rat
  al_lap :: nat
  al_val :: rat
  al_lim :: jsnum

definition beyond :: "alert_def \<Rightarrow> jsnum \<Rightarrow> rat \<Rightarrow> bool" where
  "beyond d bound v = (if ad_above d then JFin v > bound else JFin v < bound \<and> v > 1 / 2)"

definition worse :: "alert_def \<Rightarrow> rat \<Rightarrow> rat \<Rightarrow> bool" where
  "worse d v w = (if ad_above d then v > w else v < w)"

text \<open>The open alert and the finished ones; an alert runs on into the next lap.\<close>

definition alert_step :: "alert_def \<Rightarrow> jsnum \<Rightarrow> rat \<times> nat \<times> rat \<Rightarrow> alert option \<times> alert list \<Rightarrow> alert option \<times> alert list" where
  "alert_step d bound p st =
     (let (t, l, v) = p; (cur, out) = st in
      if beyond d bound v
      then (Some (case cur of None \<Rightarrow> \<lparr>al_def = d, al_t = t, al_lap = l, al_val = v, al_lim = bound\<rparr>
              | Some c \<Rightarrow> if worse d v (al_val c) then c\<lparr>al_val := v\<rparr> else c), out)
      else (case cur of None \<Rightarrow> (None, out) | Some c \<Rightarrow> (None, out @ [c])))"

definition lap_points :: "session \<Rightarrow> ch_key \<Rightarrow> nat \<Rightarrow> (rat \<times> nat \<times> rat) list" where
  "lap_points s k l = (let L = lap_at s l; c = ch_of (lp_ch L) k in
     map (\<lambda>i. (lp_t0 L - se_T0 s + lap_t L ! i, l, c ! i)) [0..<length c])"

definition def_alerts :: "session \<Rightarrow> user_state \<Rightarrow> alert_def \<Rightarrow> alert list" where
  "def_alerts s u d = (case numSetup u (ad_k d) of None \<Rightarrow> []
     | Some bound \<Rightarrow> (let (cur, out) = fold (alert_step d bound) (concat (map (lap_points s (ad_ch d)) (se_TLAPS s))) (None, [])
         in out @ (case cur of None \<Rightarrow> [] | Some c \<Rightarrow> [c])))"

definition computeAlerts :: "session \<Rightarrow> user_state \<Rightarrow> alert list" where
  "computeAlerts s u = sort_key al_t (concat (map (def_alerts s u) ALERT_DEFS))"

definition activeAlerts :: "user_state \<Rightarrow> lap \<Rightarrow> rat \<Rightarrow> (alert_def \<times> jsnum) list" where
  "activeAlerts u L rel = List.map_filter (\<lambda>d. case numSetup u (ad_k d) of None \<Rightarrow> None
     | Some bound \<Rightarrow> let v = interp (lap_t L) (ch_of (lp_ch L) (ad_ch d)) rel in
         if (if ad_above d then v > bound else v < bound \<and> v > JFin (1 / 2)) then Some (d, v) else None) ALERT_DEFS"

subsection \<open>Gain against another lap\<close>

definition gainFor :: "lap \<Rightarrow> lap \<Rightarrow> rat \<Rightarrow> jsnum list" where
  "gainFor L R RL =
     (let dl = map (\<lambda>i. num_at (lap_t L) i - elapsedAtDistance R (lap_u L ! i) RL) [0..<length (lap_u L)]
      in map (\<lambda>i. dl ! (i + 1) - dl ! i) [0..<length dl - 1])"

definition segIndexAt :: "session \<Rightarrow> lap \<Rightarrow> rat \<Rightarrow> nat option" where
  "segIndexAt s L rel = segAt (se_segs s) (se_RL s) (js_val (interp (lap_t L) (lap_u L) rel)) (se_open s)"

subsection \<open>The rate of the fixes\<close>

definition gps_times :: "session \<Rightarrow> lap \<Rightarrow> rat list" where
  "gps_times s l = (case rd_quality (se_data s) of
     Some q \<Rightarrow> filter (\<lambda>t. t \<ge> lp_t0 l \<and> t \<le> lp_t1 l) (q_gpsTimes q) | None \<Rightarrow> lap_t l)"

definition gps_steps :: "session \<Rightarrow> rat list" where
  "gps_steps s = filter (\<lambda>d. d > 1) (concat (map (\<lambda>i. let t = gps_times s (lap_at s i) in
     map (\<lambda>j. t ! j - t ! (j - 1)) [1..<length t]) (se_TLAPS s)))"

definition gpsStats :: "session \<Rightarrow> rat \<times> nat" where
  "gpsStats s =
     (let ds = sort (gps_steps s); m = (if ds \<noteq> [] then ds ! (length ds div 2) else 0)
      in (if m \<noteq> 0 then 1000 / m else 0, length (filter (\<lambda>d. d > 1500) (gps_steps s))))"

subsection \<open>A lap of the best sectors\<close>

definition best_by :: "session \<Rightarrow> nat \<Rightarrow> nat list \<Rightarrow> nat" where
  "best_by s k is = foldl (\<lambda>a b. if the (sector s k b) < the (sector s k a) then b else a) (hd is) (tl is)"

definition theo_pick :: "session \<Rightarrow> user_state \<Rightarrow> nat \<Rightarrow> nat" where
  "theo_pick s u k = best_by s k (filter (\<lambda>i. sector s k i \<noteq> None) (lap_pool s u))"

definition theo_bounds :: "session \<Rightarrow> nat \<Rightarrow> rat \<times> rat" where
  "theo_bounds s k = (let g = [0, fst (se_gates s), snd (se_gates s), se_RL s] in (g ! k, g ! (k + 1)))"

definition theo_span :: "session \<Rightarrow> lap \<Rightarrow> nat \<Rightarrow> rat \<times> rat" where
  "theo_span s l k =
     (if k = 0 then 0 else js_val (timeAtU l (fst (theo_bounds s k))),
      if k = 2 then lp_dur l else js_val (timeAtU l (snd (theo_bounds s k))))"

definition theo_times :: "session \<Rightarrow> lap \<Rightarrow> nat \<Rightarrow> rat list" where
  "theo_times s l k =
     (let (tA, tB) = theo_span s l k; ts = tA # filter (\<lambda>t. t > tA + 1 \<and> t < tB - 1) (lap_t l) @ [tB]
      in if k > 0 then tl ts else ts)"

record theo_point =
  tp_t :: rat
  tp_u :: rat
  tp_fix :: gps_fix
  tp_ch :: "ch_key \<Rightarrow> rat"

definition theo_at :: "session \<Rightarrow> lap \<Rightarrow> nat \<Rightarrow> rat \<Rightarrow> rat \<Rightarrow> theo_point" where
  "theo_at s l k off t =
     (let (g0, g1) = theo_bounds s k; v = (\<lambda>ys. js_val (interp (lap_t l) ys t)); uu = max g0 (min g1 (v (lap_u l)))
      in \<lparr>tp_t = off + (t - fst (theo_span s l k)), tp_u = uu,
          tp_fix = \<lparr>fx_x = v (map fx_x (lp_pts l)), fx_y = v (map fx_y (lp_pts l)), fx_spd = v (lp_spd l) / MPH,
                    fx_s = rem uu (se_RL s), fx_dev = 0\<rparr>,
          tp_ch = (\<lambda>key. v (ch_of (lp_ch l) key))\<rparr>)"

definition theo_points :: "session \<Rightarrow> user_state \<Rightarrow> theo_point list" where
  "theo_points s u =
     (let l = (\<lambda>k. lap_at s (theo_pick s u k)); w = (\<lambda>k. snd (theo_span s (l k) k) - fst (theo_span s (l k) k))
      in map (theo_at s (l 0) 0 0) (theo_times s (l 0) 0)
       @ map (theo_at s (l 1) 1 (w 0)) (theo_times s (l 1) 1)
       @ map (theo_at s (l 2) 2 (w 0 + w 1)) (theo_times s (l 2) 2))"

definition theoLap :: "session \<Rightarrow> user_state \<Rightarrow> lap option" where
  "theoLap s u =
     (if length (lap_pool s u) < 2 \<or> theo s u = None then None
      else let ps = theo_points s u; dur = tp_t (last ps); pts = map tp_fix ps in
        Some (prepareLap
          \<lparr>lp_name = ''Best sectors'', lp_kind = KTheo, lp_t0 = 0, lp_t1 = dur, lp_dur = dur,
           lp_sec = map (\<lambda>k. sector s k (theo_pick s u k)) [0, 1, 2], lp_pts = pts, lp_dist = se_RL s,
           lp_vmax = foldl max (fx_spd (hd pts)) (map fx_spd (tl pts)), lp_vavg = se_RL s / (dur / 1000), lp_dev = 0,
           lp_wh = None, lp_whOut = None, lp_whIn = None,
           lp_ch = \<lparr>ch_t = map tp_t ps, ch_u = map tp_u ps, ch_cells = map (\<lambda>_. []) ps, ch_of = (\<lambda>k. map (\<lambda>p. tp_ch p k) ps)\<rparr>\<rparr>
          (se_brkMax s) (se_brkrMax s)))"

subsection \<open>The theoretical best\<close>

lemma foldl_min: "(foldl min m xs :: rat) \<le> m" "x \<in> set xs \<Longrightarrow> foldl min m xs \<le> x" "foldl min m xs \<in> insert m (set xs)"
proof (induction xs arbitrary: m)
  case (Cons y ys)
  { case 1 show ?case using Cons(1) [of "min m y"] by simp
  next case 2 then show ?case using Cons(1) [of "min m y"] Cons(2) [of "min m y"] by auto
  next case 3 show ?case using Cons(3) [of "min m y"] by (auto simp: min_def split: if_splits) }
qed simp_all

lemma min_of_le: "min_of xs = Some m \<Longrightarrow> x \<in> set xs \<Longrightarrow> m \<le> x"
  by (cases xs) (auto simp: min_of_def foldl_min)

lemma min_of_in: "min_of xs = Some m \<Longrightarrow> m \<in> set xs"
  using foldl_min(3) by (cases xs) (auto simp: min_of_def)

lemma min_of_None: "min_of xs = None \<longleftrightarrow> xs = []"
  by (simp add: min_of_def split: list.splits)

lemma set_map_filter: "set (List.map_filter f xs) = {y. \<exists>x \<in> set xs. f x = Some y}"
  by (induction xs) (auto simp: map_filter_simps split: option.splits)

lemma pool_lap:
  assumes "session_ok s" "i \<in> set (lap_pool s u)"
  shows "i < length (se_laps s)" "lp_kind (lap_at s i) = KLap" "i \<in> set (se_runs s)"
proof -
  have "se_runs s = filter (\<lambda>i. lp_kind (se_laps s ! i) = KLap) [0..<length (se_laps s)]" using assms(1) by (simp add: session_ok_def laps_ok_def)
  moreover have "i \<in> set (se_runs s)" using assms(2) by (simp add: lap_pool_def)
  ultimately show "i < length (se_laps s)" "lp_kind (lap_at s i) = KLap" "i \<in> set (se_runs s)" by (auto simp: lap_at_def)
qed

lemma session_sectors:
  assumes "session_ok s" "i < length (se_laps s)"
  shows "lp_sec (lap_at s i) = sectorTimes (lap_u (lap_at s i)) (lap_t (lap_at s i)) (lp_dur (lap_at s i)) (lp_kind (lap_at s i)) (se_gates s)"
  using assms by (auto simp: session_ok_def lap_at_def)

text \<open>The sectors of a timed lap, by its two crossings.\<close>

lemma timed_sectors:
  assumes "session_ok s" "i \<in> set (lap_pool s u)"
  defines "c0 \<equiv> gate_cross (lap_u (lap_at s i)) (lap_t (lap_at s i)) (fst (se_gates s))"
    and "c1 \<equiv> gate_cross (lap_u (lap_at s i)) (lap_t (lap_at s i)) (snd (se_gates s))"
  shows "sector s 0 i = c0" "sector s 1 i = Some v \<longleftrightarrow> (\<exists>a b. c0 = Some a \<and> c1 = Some b \<and> v = b - a)"
    "sector s 2 i = map_option (\<lambda>b. lp_dur (lap_at s i) - b) c1"
  using session_sectors [OF assms(1) pool_lap(1) [OF assms(1,2)]] pool_lap(2) [OF assms(1,2)]
  by (auto simp: sector_def sectorTimes_def Let_def c0_def c1_def split: option.splits)

lemma theo_bound:
  assumes "session_ok s" "i \<in> set (lap_pool s u)" "sector s 1 i \<noteq> None"
  shows "\<exists>t. theo s u = Some t \<and> t \<le> lp_dur (lap_at s i)"
proof -
  obtain a b where c: "sector s 0 i = Some a" "sector s 1 i = Some (b - a)" "sector s 2 i = Some (lp_dur (lap_at s i) - b)"
    using assms(3) timed_sectors [OF assms(1,2)] by fastforce
  have best: "\<exists>m. best_sector s u k = Some m \<and> m \<le> v" if "sector s k i = Some v" for k v
  proof -
    have v: "v \<in> set (List.map_filter (sector s k) (lap_pool s u))" using that assms(2) by (auto simp: set_map_filter)
    then obtain m where "best_sector s u k = Some m" by (cases "best_sector s u k") (auto simp: best_sector_def min_of_None)
    then show ?thesis using min_of_le v by (auto simp: best_sector_def)
  qed
  obtain x y z where "best_sector s u 0 = Some x" "x \<le> a" "best_sector s u 1 = Some y" "y \<le> b - a"
      "best_sector s u 2 = Some z" "z \<le> lp_dur (lap_at s i) - b"
    using best [OF c(1)] best [OF c(2)] best [OF c(3)] by blast
  then show ?thesis by (simp add: theo_def)
qed

text \<open>C21: the theoretical best, the sum of the best sectors, is never slower than a counting lap whose gates were both crossed,
  and it exists as soon as there is such a lap.\<close>

theorem theo_not_slower:
  assumes "session_ok s" "i \<in> set (lap_pool s u)" "sector s 1 i \<noteq> None"
  shows "\<exists>t. theo s u = Some t \<and> t \<le> lp_dur (lap_at s i)"
  using assms by (rule theo_bound)

subsection \<open>The lap of the best sectors\<close>

lemma cross_is_interp:
  assumes "sorted_wrt (<) us" "length ts = length us" "gate_cross us ts g = Some v"
  shows "v = js_val (interp us ts g)"
proof -
  obtain i where f: "List.find (\<lambda>i. us ! (i - 1) \<le> g \<and> us ! i \<ge> g \<and> us ! i > us ! (i - 1)) [1..<length us] = Some i"
      "v = ts ! (i - 1) + (ts ! i - ts ! (i - 1)) * (g - us ! (i - 1)) / (us ! i - us ! (i - 1))"
    using assms(3) by (auto simp: gate_cross_def)
  then have i: "1 \<le> i" "i < length us" "us ! (i - 1) \<le> g" "g \<le> us ! i" by (auto simp: find_Some_iff)
  then have "interp us ts g = JFin v"
    using interp_between_nodes [OF assms(1,2), of "i - 1" g] f(2) by simp
  then show ?thesis by simp
qed

lemma best_by_least:
  assumes "is \<noteq> []" "\<forall>i \<in> set is. sector s k i \<noteq> None"
  shows "best_by s k is \<in> set is \<and> (\<forall>i \<in> set is. the (sector s k (best_by s k is)) \<le> the (sector s k i))"
proof -
  let ?f = "\<lambda>a b. if the (sector s k b) < the (sector s k a) then b else a"
  have "foldl ?f a xs \<in> insert a (set xs) \<and> (\<forall>i \<in> insert a (set xs). the (sector s k (foldl ?f a xs)) \<le> the (sector s k i))" for a xs
  proof (induction xs arbitrary: a)
    case (Cons x xs)
    show ?case using Cons.IH [of "?f a x"] by (cases "the (sector s k x) < the (sector s k a)") force+
  qed simp
  from this [of "hd is" "tl is"] show ?thesis using assms(1) by (cases "is") (simp_all add: best_by_def)
qed

lemma theo_pick_best:
  assumes "best_sector s u k = Some v"
  shows "sector s k (theo_pick s u k) = Some v" "theo_pick s u k \<in> set (lap_pool s u)"
proof -
  let ?is = "filter (\<lambda>i. sector s k i \<noteq> None) (lap_pool s u)"
  have vals: "set (List.map_filter (sector s k) (lap_pool s u)) = (\<lambda>i. the (sector s k i)) ` set ?is"
    by (force simp: set_map_filter)
  have v: "v \<in> (\<lambda>i. the (sector s k i)) ` set ?is" "\<And>i. i \<in> set ?is \<Longrightarrow> v \<le> the (sector s k i)"
    using min_of_in [OF assms [unfolded best_sector_def]] min_of_le [OF assms [unfolded best_sector_def]] unfolding vals by blast+
  obtain j where "j \<in> set ?is" using v(1) by blast
  then have "?is \<noteq> []" by (metis empty_iff list.set(1))
  from best_by_least [OF this, of s k] have p: "theo_pick s u k \<in> set ?is" "\<forall>i \<in> set ?is. the (sector s k (theo_pick s u k)) \<le> the (sector s k i)"
    by (simp_all add: theo_pick_def)
  then have "the (sector s k (theo_pick s u k)) = v" using v by (metis (no_types, lifting) antisym image_iff)
  then show "sector s k (theo_pick s u k) = Some v" "theo_pick s u k \<in> set (lap_pool s u)" using p(1) by auto
qed

lemma last_theo_point: "tp_t (last (theo_points s u)) =
    (let l = (\<lambda>k. lap_at s (theo_pick s u k)); w = (\<lambda>k. snd (theo_span s (l k) k) - fst (theo_span s (l k) k)) in w 0 + w 1 + w 2)"
proof -
  have "theo_times s l 2 \<noteq> []" "last (theo_times s l 2) = snd (theo_span s l 2)" for l
    by (simp_all add: theo_times_def Let_def split: prod.splits)
  then show ?thesis by (simp add: theo_points_def theo_at_def Let_def last_map split: prod.splits)
qed

text \<open>the lap stitched from the best sectors takes exactly the sum of the best sectors, when the distances of the counting
  laps increase from fix to fix.\<close>

theorem theoLap_time:
  assumes "session_ok s" "theoLap s u = Some L"
    "\<forall>i \<in> set (lap_pool s u). sorted_wrt (<) (lap_u (lap_at s i)) \<and> length (lap_t (lap_at s i)) = length (lap_u (lap_at s i))"
  shows "theo s u = Some (lp_dur L)"
proof -
  have "theo s u \<noteq> None" "lp_dur L = tp_t (last (theo_points s u))"
    using assms(2) by (auto simp: theoLap_def Let_def prepareLap_raw split: if_splits)
  then obtain x y z where best: "best_sector s u 0 = Some x" "best_sector s u 1 = Some y" "best_sector s u 2 = Some z"
      "theo s u = Some (x + y + z)" and dur: "lp_dur L = tp_t (last (theo_points s u))"
    by (auto simp: theo_def split: option.splits)
  have cross: "c = js_val (timeAtU (lap_at s i) g)"
    if "i \<in> set (lap_pool s u)" "gate_cross (lap_u (lap_at s i)) (lap_t (lap_at s i)) g = Some c" for i g c
    using cross_is_interp [OF _ _ that(2)] assms(3) that(1) by (simp add: timeAtU_def)
  note p0 = theo_pick_best [OF best(1)] and p1 = theo_pick_best [OF best(2)] and p2 = theo_pick_best [OF best(3)]
  have "x = js_val (timeAtU (lap_at s (theo_pick s u 0)) (fst (se_gates s)))"
    using p0 timed_sectors(1) [OF assms(1) p0(2)] cross [OF p0(2)] by simp
  moreover have "y = js_val (timeAtU (lap_at s (theo_pick s u 1)) (snd (se_gates s))) - js_val (timeAtU (lap_at s (theo_pick s u 1)) (fst (se_gates s)))"
    using p1(1) timed_sectors(2) [OF assms(1) p1(2)] cross [OF p1(2)] by force
  moreover have "z = lp_dur (lap_at s (theo_pick s u 2)) - js_val (timeAtU (lap_at s (theo_pick s u 2)) (snd (se_gates s)))"
    using p2(1) timed_sectors(3) [OF assms(1) p2(2)] cross [OF p2(2)] by force
  ultimately show ?thesis
    using best(4) dur by (simp add: last_theo_point theo_span_def theo_bounds_def Let_def numeral_eq_Suc)
qed

subsection \<open>Alerts\<close>

definition alerts_of :: "alert option \<times> alert list \<Rightarrow> alert set" where
  "alerts_of st = set (snd st) \<union> set_option (fst st)"

definition alert_good :: "alert_def \<Rightarrow> jsnum \<Rightarrow> alert \<Rightarrow> bool" where
  "alert_good d bound a \<longleftrightarrow> al_def a = d \<and> al_lim a = bound \<and> beyond d bound (al_val a)"

lemma alert_step_cases:
  obtains "beyond d bound v" "cur = None" "alert_step d bound (t, l, v) (cur, out)
      = (Some \<lparr>al_def = d, al_t = t, al_lap = l, al_val = v, al_lim = bound\<rparr>, out)"
    | c where "beyond d bound v" "cur = Some c" "alert_step d bound (t, l, v) (cur, out)
      = (Some (if worse d v (al_val c) then c\<lparr>al_val := v\<rparr> else c), out)"
    | "\<not> beyond d bound v" "alerts_of (alert_step d bound (t, l, v) (cur, out)) = alerts_of (cur, out)"
  by (cases "beyond d bound v"; cases cur) (simp_all add: alert_step_def alerts_of_def)

lemma alert_step_sound:
  assumes "\<forall>a \<in> alerts_of st. alert_good d bound a"
  shows "\<forall>a \<in> alerts_of (alert_step d bound p st). alert_good d bound a"
proof -
  obtain t l v cur out where p: "p = (t, l, v)" "st = (cur, out)" by (metis surj_pair)
  show ?thesis
  proof (cases rule: alert_step_cases [of d bound v cur t l out])
    case 1
    then show ?thesis using assms by (simp add: p alerts_of_def alert_good_def)
  next
    case (2 c)
    have "alert_good d bound c" using assms 2(2) by (simp add: p alerts_of_def)
    then have "alert_good d bound (if worse d v (al_val c) then c\<lparr>al_val := v\<rparr> else c)" using 2(1) by (simp add: alert_good_def)
    then show ?thesis using assms 2(3) by (simp only: p) (simp add: alerts_of_def)
  next
    case 3
    then show ?thesis using assms by (simp only: p)
  qed
qed

lemma alert_step_some: "alerts_of (alert_step d bound p st) \<noteq> {} \<longleftrightarrow> alerts_of st \<noteq> {} \<or> beyond d bound (snd (snd p))"
proof -
  obtain t l v cur out where p: "p = (t, l, v)" "st = (cur, out)" by (metis surj_pair)
  show ?thesis by (cases rule: alert_step_cases [of d bound v cur t l out]) (simp_all add: p, simp_all add: alerts_of_def)
qed

lemma alert_fold:
  assumes "\<forall>a \<in> alerts_of st. alert_good d bound a"
  shows "\<forall>a \<in> alerts_of (fold (alert_step d bound) ps st). alert_good d bound a"
  using assms
proof (induction ps arbitrary: st)
  case (Cons p ps)
  show ?case using Cons.IH [OF alert_step_sound [OF Cons.prems]] by simp
qed simp

lemma alert_fold_some:
  "alerts_of (fold (alert_step d bound) ps st) \<noteq> {} \<longleftrightarrow> alerts_of st \<noteq> {} \<or> (\<exists>p \<in> set ps. beyond d bound (snd (snd p)))"
proof (induction ps arbitrary: st)
  case (Cons p ps)
  show ?case using Cons.IH [of "alert_step d bound p st"] alert_step_some [of d bound p st] by auto
qed simp

lemma def_alerts_alerts:
  assumes "numSetup u (ad_k d) = Some bound"
  shows "set (def_alerts s u d) = alerts_of (fold (alert_step d bound) (concat (map (lap_points s (ad_ch d)) (se_TLAPS s))) (None, []))"
proof -
  obtain cur out where "fold (alert_step d bound) (concat (map (lap_points s (ad_ch d)) (se_TLAPS s))) (None, []) = (cur, out)"
    by fastforce
  then show ?thesis using assms by (cases cur) (simp_all add: def_alerts_def alerts_of_def)
qed

text \<open>the alerts of a run come in time order, each with a value beyond its limit, and a limit that is set has an alert exactly
  when a sample of some lap is beyond it.\<close>

theorem alerts_sound:
  "sorted (map al_t (computeAlerts s u))
    \<and> (\<forall>a \<in> set (computeAlerts s u). numSetup u (ad_k (al_def a)) = Some (al_lim a) \<and> beyond (al_def a) (al_lim a) (al_val a))
    \<and> (d \<in> set ALERT_DEFS \<and> numSetup u (ad_k d) = Some bound \<longrightarrow>
        ((\<exists>a \<in> set (computeAlerts s u). al_def a = d) \<longleftrightarrow>
         (\<exists>l \<in> set (se_TLAPS s). \<exists>v \<in> set (ch_of (lp_ch (lap_at s l)) (ad_ch d)). beyond d bound v)))"
proof -
  have set: "set (computeAlerts s u) = (\<Union>d \<in> set ALERT_DEFS. set (def_alerts s u d))" by (simp add: computeAlerts_def)
  have none: "numSetup u (ad_k d) = None \<Longrightarrow> def_alerts s u d = []" for d by (simp add: def_alerts_def)
  have each: "a \<in> set (def_alerts s u d) \<Longrightarrow> numSetup u (ad_k d) = Some (al_lim a) \<and> al_def a = d \<and> beyond d (al_lim a) (al_val a)" for a d
  proof (cases "numSetup u (ad_k d)")
    case (Some bound)
    assume "a \<in> set (def_alerts s u d)"
    then have "alert_good d bound a"
      using alert_fold [of "(None, [])" d bound] unfolding def_alerts_alerts [OF Some] by (simp add: alerts_of_def)
    then show ?thesis using Some by (simp add: alert_good_def)
  qed (simp add: none)
  have points: "(\<exists>p \<in> set (lap_points s k l). P (snd (snd p))) \<longleftrightarrow> (\<exists>v \<in> set (ch_of (lp_ch (lap_at s l)) k). P v)" for k l and P :: "rat \<Rightarrow> bool"
  proof -
    have "(\<exists>v \<in> set xs. P v) \<longleftrightarrow> (\<exists>i < length xs. P (xs ! i))" for xs by (metis in_set_conv_nth)
    then show ?thesis by (auto simp: lap_points_def Let_def)
  qed
  have crossed: "set (def_alerts s u d) \<noteq> {} \<longleftrightarrow> (\<exists>l \<in> set (se_TLAPS s). \<exists>v \<in> set (ch_of (lp_ch (lap_at s l)) (ad_ch d)). beyond d bound v)"
    if "numSetup u (ad_k d) = Some bound" for d bound
    unfolding def_alerts_alerts [OF that] alert_fold_some by (simp add: alerts_of_def points)
  have some: "(\<exists>a \<in> set (computeAlerts s u). al_def a = d) \<longleftrightarrow> set (def_alerts s u d) \<noteq> {}" if d: "d \<in> set ALERT_DEFS" for d
  proof
    assume "\<exists>a \<in> set (computeAlerts s u). al_def a = d"
    then obtain a e where a: "a \<in> set (def_alerts s u e)" "al_def a = d" unfolding set by blast
    then have "e = d" using each [OF a(1)] by simp
    then show "set (def_alerts s u d) \<noteq> {}" using a(1) by (metis empty_iff)
  next
    assume "set (def_alerts s u d) \<noteq> {}"
    then have "\<exists>a. a \<in> set (def_alerts s u d)" by (simp only: ex_in_conv not_False_eq_True)
    then obtain a where a: "a \<in> set (def_alerts s u d)" ..
    then have "a \<in> set (computeAlerts s u)" "al_def a = d" using d each [OF a] unfolding set by (blast, simp)
    then show "\<exists>a \<in> set (computeAlerts s u). al_def a = d" by blast
  qed
  have "\<forall>a \<in> set (computeAlerts s u). numSetup u (ad_k (al_def a)) = Some (al_lim a) \<and> beyond (al_def a) (al_lim a) (al_val a)"
    unfolding set using each by fastforce
  moreover have "sorted (map al_t (computeAlerts s u))" by (simp add: computeAlerts_def)
  moreover have "d \<in> set ALERT_DEFS \<and> numSetup u (ad_k d) = Some bound \<longrightarrow>
        ((\<exists>a \<in> set (computeAlerts s u). al_def a = d) \<longleftrightarrow>
         (\<exists>l \<in> set (se_TLAPS s). \<exists>v \<in> set (ch_of (lp_ch (lap_at s l)) (ad_ch d)). beyond d bound v))"
    by (intro impI, elim conjE, subst some, assumption, rule crossed)
  ultimately show ?thesis by (intro conjI)
qed

subsection \<open>In the small run\<close>

lemma small_ok: "session_ok small_session"
  using session_gates_ok [OF _ small_session_opens] by (simp add: small_run_def)

lemma small_lap_at:
  assumes "i < 2"
  shows "lp_kind (lap_at small_session i) = KLap" "lap_u (lap_at small_session i) = [0, 100]" "length (lap_t (lap_at small_session i)) = 2"
    "sorted (lap_t (lap_at small_session i))"
proof -
  from open_session_Some [OF small_session_opens] obtain s0 g0 where
    s0: "small_session = snd (setGates g0 s0)" "se_laps s0 = open_laps small_run" by blast
  have "length (open_laps small_run) = 2" by (simp add: open_laps_def Let_def small_run_def)
  then obtain x where x: "lap_at small_session i = (open_laps small_run ! i)\<lparr>lp_sec := x\<rparr>"
    using setGates_lap [of i s0 g0] assms s0 by (auto simp: lap_at_def)
  have "i = 0 \<or> i = 1" using assms by linarith
  then show "lp_kind (lap_at small_session i) = KLap" "lap_u (lap_at small_session i) = [0, 100]" "length (lap_t (lap_at small_session i)) = 2"
      "sorted (lap_t (lap_at small_session i))"
    unfolding x by (auto simp: open_laps_def Let_def small_run_def prepareLap_raw small_lap_def)
qed

lemma small_pool: "lap_pool small_session emptyUserState = [0, 1]"
proof -
  from open_session_Some [OF small_session_opens] obtain s0 g0 where
    s0: "small_session = snd (setGates g0 s0)" "se_laps s0 = open_laps small_run" "se_runs s0 = timed (open_laps small_run)" by blast
  have "se_runs small_session = se_runs s0" unfolding s0(1) by (rule setGates_fields)
  also have "\<dots> = [0, 1]"
    unfolding s0(3) by (simp add: timed_def open_laps_def Let_def small_run_def prepareLap_raw small_lap_def upt_rec)
  finally show ?thesis
    using small_lap_at by (simp add: lap_pool_def valid_def emptyUserState_def rules_allow_def default_rules_def Let_def jm_get_Nil)
qed

lemma small_sectors:
  assumes "i < 2"
  shows "sector small_session 1 i \<noteq> None"
proof -
  have g: "0 < fst (se_gates small_session)" "fst (se_gates small_session) < snd (se_gates small_session)" "snd (se_gates small_session) < 100"
    using small_ok setGates_RL_small by (simp_all add: session_ok_def)
  note l = small_lap_at [OF assms]
  have "i \<in> set (lap_pool small_session emptyUserState)" using assms by (auto simp: small_pool)
  moreover obtain x y where "gate_cross (lap_u (lap_at small_session i)) (lap_t (lap_at small_session i)) (fst (se_gates small_session)) = Some x"
      "gate_cross (lap_u (lap_at small_session i)) (lap_t (lap_at small_session i)) (snd (se_gates small_session)) = Some y"
    by (rule gates_crossed_in_order [of "lap_u (lap_at small_session i)" "lap_t (lap_at small_session i)"
        "fst (se_gates small_session)" "snd (se_gates small_session)"]) (use l g in simp_all)
  ultimately show ?thesis using timed_sectors(2) [OF small_ok, of i emptyUserState "y - x"] by auto
qed

lemma theo_not_slower_witness: "\<exists>t. theo small_session emptyUserState = Some t \<and> t \<le> lp_dur (lap_at small_session 0)"
  using theo_not_slower [OF small_ok _ small_sectors [of 0]] by (simp add: small_pool)

lemma theoLap_time_witness:
  "theo small_session emptyUserState = Some (lp_dur (the (theoLap small_session emptyUserState)))"
proof (rule theoLap_time [OF small_ok])
  have "theo small_session emptyUserState \<noteq> None"
    using theo_bound [OF small_ok, of 0 emptyUserState] small_sectors [of 0] by (auto simp: small_pool)
  then show "theoLap small_session emptyUserState = Some (the (theoLap small_session emptyUserState))"
    by (simp add: theoLap_def small_pool Let_def)
qed (auto simp: small_pool small_lap_at)

end
