(* ===== verification/DrivePlayer.thy ===== *)
theory DrivePlayer
  imports DriveAnalysis
begin

text \<open>
  The player behind the drive-day screen, \<^verbatim>\<open>viewer_tool/src/lib/driveday/player.ts\<close>: the playhead and its loops, the frame
  step, the sector gates and what the driver marks.

  What the source reads from the outside is an argument: the time of a frame (\<^verbatim>\<open>performance.now\<close>) and the identity of a new
  mark. The camera, the painters, the messages on the screen and the browser's storage are left out; the analysis is a
  function of the session and the notes, so nothing has to recompute it.
\<close>

subsection \<open>State\<close>

datatype end_mode = Go | Stop | Loop

record player =
  pl_s :: session
  pl_user :: user_state
  pl_T :: rat
  pl_sel :: nat
  pl_playing :: bool
  pl_rate :: rat
  pl_end :: end_mode
  pl_loopA :: "rat option"
  pl_loopB :: "rat option"
  pl_manual :: bool
  pl_start :: rat
  pl_stop :: "rat option"
  pl_curSeg :: "nat option"
  pl_curZone :: "nat option"
  pl_lastTs :: rat

definition RATES :: "rat list" where
  "RATES = [1 / 4, 1 / 2, 1, 2, 4]"

definition the_lap :: "player \<Rightarrow> nat \<Rightarrow> lap" where
  "the_lap p i = lap_at (pl_s p) i"

definition lap_start :: "player \<Rightarrow> nat \<Rightarrow> rat" where
  "lap_start p i = lp_t0 (the_lap p i) - se_T0 (pl_s p)"

definition lap_stop :: "player \<Rightarrow> nat \<Rightarrow> rat" where
  "lap_stop p i = lp_t1 (the_lap p i) - se_T0 (pl_s p)"

text \<open>The watched lap and the time on it.\<close>

definition curState :: "player \<Rightarrow> lap \<times> rat" where
  "curState p = (let L = the_lap p (pl_sel p) in (L, max 0 (min (lp_dur L) (pl_T p + se_T0 (pl_s p) - lp_t0 L))))"

subsection \<open>The timeline\<close>

definition timelineRange :: "player \<Rightarrow> window" where
  "timelineRange p = timelineWindow (se_TD (pl_s p)) (pl_start p) (case pl_stop p of Some e \<Rightarrow> e | None \<Rightarrow> se_TD (pl_s p))"

definition setTimelineWindow :: "rat \<Rightarrow> rat \<Rightarrow> player \<Rightarrow> player" where
  "setTimelineWindow start stop p = (let r = timelineWindow (se_TD (pl_s p)) start stop in p\<lparr>pl_start := wn_start r, pl_stop := Some (wn_end r)\<rparr>)"

definition zoomTimeline :: "rat \<Rightarrow> rat \<Rightarrow> player \<Rightarrow> player" where
  "zoomTimeline factor anchor p =
     (let r = timelineRange p;
          next = zoomWindow (se_TD (pl_s p)) (wn_start r) (wn_end r) factor (max (wn_start r) (min (wn_end r) anchor))
      in setTimelineWindow (wn_start next) (wn_end next) p)"

subsection \<open>Playback\<close>

definition setT :: "rat \<Rightarrow> player \<Rightarrow> player" where
  "setT ms p = p\<lparr>pl_T := max 0 (min (se_TD (pl_s p)) ms)\<rparr>"

definition seekLap :: "nat \<Rightarrow> player \<Rightarrow> player" where
  "seekLap i p = setT (lap_start p i) p"

definition stepLap :: "int \<Rightarrow> player \<Rightarrow> player" where
  "stepLap d p =
     (let order = se_TLAPS (pl_s p); k = int (position order (pl_sel p)); rel = pl_T p - lap_start p (pl_sel p);
          n = (if d < 0 \<and> rel > 1500 then k else k + d);
          m = max 0 (min (int (length order) - 1) n)
      in seekLap (order ! nat m) p)"

definition play :: "bool \<Rightarrow> rat \<Rightarrow> player \<Rightarrow> player" where
  "play on now p =
     (let p1 = p\<lparr>pl_playing := on\<rparr>; stop = lap_stop p (pl_sel p); TD = se_TD (pl_s p) in
      if on
      then let p2 = (if pl_end p1 = Stop \<and> pl_T p1 \<ge> stop - 80 \<and> pl_T p1 < TD - 80 then p1\<lparr>pl_T := stop + 1\<rparr> else p1);
               p3 = (if pl_T p2 \<ge> TD - 50 then p2\<lparr>pl_T := 0\<rparr> else p2)
           in p3\<lparr>pl_lastTs := now\<rparr>
      else p1)"

text \<open>Where the clock goes in a frame: back to A from B, then past the end of the lap as the mode says.\<close>

definition loop_back :: "player \<Rightarrow> rat \<Rightarrow> rat" where
  "loop_back p nt = (case (pl_loopA p, pl_loopB p) of
     (Some a, Some b) \<Rightarrow> if b > a \<and> pl_T p \<le> b \<and> nt > b then a + (nt - b) else nt | _ \<Rightarrow> nt)"

definition tick :: "rat \<Rightarrow> player \<Rightarrow> player" where
  "tick now p =
     (if \<not> pl_playing p then p
      else let dt = (now - pl_lastTs p) * pl_rate p; p1 = p\<lparr>pl_lastTs := now\<rparr>;
               nt = loop_back p1 (pl_T p1 + dt); stop = lap_stop p1 (pl_sel p1); TD = se_TD (pl_s p1)
           in if nt \<ge> stop \<and> pl_end p1 = Stop then play False now (setT (stop - 1) p1)
              else let nt1 = (if nt \<ge> stop \<and> pl_end p1 = Loop then lap_start p1 (pl_sel p1) + (nt - stop) else nt) in
                if nt1 \<ge> TD then play False now (setT TD p1) else setT nt1 p1)"

definition find_last :: "(nat \<Rightarrow> bool) \<Rightarrow> nat \<Rightarrow> nat option" where
  "find_last P n = List.find P (rev [0..<n])"

definition stepFix :: "bool \<Rightarrow> player \<Rightarrow> player" where
  "stepFix forward p =
     (let L = the_lap p (pl_sel p); rel = pl_T p + se_T0 (pl_s p) - lp_t0 L; ts = lap_t L; n = length ts;
          i = (if forward then List.find (\<lambda>i. ts ! i > rel + 1) [0..<n]
               else case find_last (\<lambda>j. ts ! j < rel - 1) n of Some j \<Rightarrow> Some j | None \<Rightarrow> if n = 0 then None else Some (n - 1))
      in (case i of Some j \<Rightarrow> setT (lap_start p (pl_sel p) + ts ! j) p | None \<Rightarrow> p))"

definition cycleEnd :: "player \<Rightarrow> player" where
  "cycleEnd p = p\<lparr>pl_end := (case pl_end p of Go \<Rightarrow> Stop | Stop \<Rightarrow> Loop | Loop \<Rightarrow> Go)\<rparr>"

definition rate_index :: "rat \<Rightarrow> int" where
  "rate_index r = (if r \<in> set RATES then int (length (takeWhile (\<lambda>x. x \<noteq> r) RATES)) else - 1)"

definition cycleRate :: "int \<Rightarrow> player \<Rightarrow> player" where
  "cycleRate d p = p\<lparr>pl_rate := RATES ! nat (max 0 (min (int (length RATES) - 1) (rate_index (pl_rate p) + d)))\<rparr>"

subsection \<open>Loops\<close>

definition setLoopA :: "player \<Rightarrow> player" where
  "setLoopA p = (let p1 = p\<lparr>pl_loopA := Some (pl_T p)\<rparr> in
     case pl_loopB p of Some b \<Rightarrow> if b \<le> pl_T p then p1\<lparr>pl_loopB := None\<rparr> else p1 | None \<Rightarrow> p1)"

definition setLoopB :: "player \<Rightarrow> player" where
  "setLoopB p = (let p1 = p\<lparr>pl_loopB := Some (pl_T p)\<rparr> in
     case pl_loopA p of Some a \<Rightarrow> if a \<ge> pl_T p then p1\<lparr>pl_loopA := None\<rparr> else p1 | None \<Rightarrow> p1)"

definition clearLoop :: "player \<Rightarrow> player" where
  "clearLoop p = p\<lparr>pl_loopA := None, pl_loopB := None\<rparr>"

definition loopSegment :: "player \<Rightarrow> player" where
  "loopSegment p = (case pl_curSeg p of None \<Rightarrow> p
     | Some k \<Rightarrow>
        (let L = fst (curState p); g = se_segs (pl_s p) ! k; ps = pieces (sg_a g) (sg_len g) (se_RL (pl_s p));
             tA = js_val (timeAtU L (fst (hd ps))) - 500; tB = js_val (timeAtU L (snd (last ps))) + 500;
             start = lp_t0 L - se_T0 (pl_s p); a = max 0 (start + max 0 tA)
         in setT a (p\<lparr>pl_loopA := Some a, pl_loopB := Some (start + min (lp_dur L) tB)\<rparr>)))"

subsection \<open>The frame\<close>

definition updateLoc :: "player \<Rightarrow> player" where
  "updateLoc p =
     (let (L, rel) = curState p; s = js_val (interp (lap_t L) (lap_u L) rel); se = pl_s p in
      p\<lparr>pl_curSeg := segAt (se_segs se) (se_RL se) s (se_open se), pl_curZone := zoneAt (se_zones se) (se_RL se) s (se_open se)\<rparr>)"

definition runFrame :: "player \<Rightarrow> player" where
  "runFrame p = updateLoc (p\<lparr>pl_sel := lapIndexAt (pl_s p) (pl_T p)\<rparr>)"

definition seekToS :: "rat \<Rightarrow> rat \<Rightarrow> player \<Rightarrow> player" where
  "seekToS s lead p = setT (lap_start p (pl_sel p) + max 0 (js_val (timeAtU (the_lap p (pl_sel p)) s) - lead)) p"

subsection \<open>Sector gates\<close>

definition set_gate :: "nat \<Rightarrow> rat \<Rightarrow> rat \<times> rat \<Rightarrow> rat \<times> rat" where
  "set_gate index d g = (if index = 0 then (d, snd g) else (fst g, d))"

definition setSectorAtPlayhead :: "nat \<Rightarrow> player \<Rightarrow> player" where
  "setSectorAtPlayhead index p =
     (let (L, rel) = curState p; d = interp (lap_t L) (lap_u L) rel; RL = se_RL (pl_s p);
          g = set_gate index (js_val d) (se_gates (pl_s p)); gs = [JFin (fst g), JFin (snd g)]
      in if lp_kind L \<noteq> KLap then p
         else if \<not> js_finite d \<or> \<not> validGates gs RL \<or> min (fst g) (min (snd g - fst g) (RL - snd g)) < 5 then p
         else p\<lparr>pl_s := snd (setGates gs (pl_s p)), pl_manual := True\<rparr>)"

definition autoSectors :: "player \<Rightarrow> player" where
  "autoSectors p =
     (let s = pl_s p; L = lap_at s (best_run s (pl_user p)) in
      p\<lparr>pl_s := snd (setGates (suggestGates L (se_segs s) (se_RL s)) s), pl_manual := False\<rparr>)"

subsection \<open>What the driver marks\<close>

definition update :: "(user_state \<Rightarrow> user_state) \<Rightarrow> player \<Rightarrow> player" where
  "update f p = p\<lparr>pl_user := f (pl_user p)\<rparr>"

definition setSetup :: "string \<Rightarrow> setup_value option \<Rightarrow> user_state \<Rightarrow> user_state" where
  "setSetup k v u = (case v of
       Some (SText []) \<Rightarrow> u\<lparr>us_setup := jm_delete k (us_setup u)\<rparr>
     | Some (SNum JNaN) \<Rightarrow> u\<lparr>us_setup := jm_delete k (us_setup u)\<rparr>
     | None \<Rightarrow> u\<lparr>us_setup := jm_delete k (us_setup u)\<rparr>
     | Some x \<Rightarrow> u\<lparr>us_setup := jm_set k x (us_setup u)\<rparr>)"

definition no_flag :: lap_flag where
  "no_flag = \<lparr>lf_include = None, lf_f = None, lf_x = None\<rparr>"

definition flag_of :: "user_state \<Rightarrow> nat \<Rightarrow> lap_flag" where
  "flag_of u n = (case jm_get (us_flags u) n of Some f \<Rightarrow> f | None \<Rightarrow> no_flag)"

text \<open>A patch sets the fields it has; a field that is then empty goes, and so does a flag without fields.\<close>

definition patch_field :: "'a option option \<Rightarrow> 'a option \<Rightarrow> 'a option" where
  "patch_field p v = (case p of Some w \<Rightarrow> w | None \<Rightarrow> v)"

record flag_patch =
  fp_include :: "bool option option"
  fp_f :: "string option option"
  fp_x :: "rat option option"

definition patched :: "flag_patch \<Rightarrow> lap_flag \<Rightarrow> lap_flag" where
  "patched q f =
     (let fl = patch_field (fp_f q) (lf_f f); x = patch_field (fp_x q) (lf_x f) in
      \<lparr>lf_include = patch_field (fp_include q) (lf_include f), lf_f = (if fl = Some [] then None else fl),
       lf_x = (if x = Some 0 then None else x)\<rparr>)"

definition setFlag :: "nat \<Rightarrow> flag_patch \<Rightarrow> user_state \<Rightarrow> user_state" where
  "setFlag n q u = (let f = patched q (flag_of u n) in
     if f = no_flag then u\<lparr>us_flags := jm_delete n (us_flags u)\<rparr> else u\<lparr>us_flags := jm_set n f (us_flags u)\<rparr>)"

definition skipLaps :: "nat list \<Rightarrow> user_state \<Rightarrow> user_state" where
  "skipLaps ns u = fold (\<lambda>n u. u\<lparr>us_flags := jm_set n ((flag_of u n)\<lparr>lf_x := Some 1\<rparr>) (us_flags u)\<rparr>) ns u"

definition add_cone :: "string \<Rightarrow> rat \<Rightarrow> user_state \<Rightarrow> user_state" where
  "add_cone i tt u = u\<lparr>us_ce := sort_key ce_t (us_ce u @ [\<lparr>ce_id = i, ce_t = of_int (rat_round tt)\<rparr>])\<rparr>"

definition addConeAt :: "string \<Rightarrow> rat \<Rightarrow> player \<Rightarrow> bool \<times> player" where
  "addConeAt i tt p =
     (if lp_kind (the_lap p (lapIndexAt (pl_s p) tt)) \<noteq> KLap then (False, p) else (True, update (add_cone i tt) p))"

definition drop_index :: "nat \<Rightarrow> 'a list \<Rightarrow> 'a list" where
  "drop_index i xs = take i xs @ drop (i + 1) xs"

definition export_cone :: "string \<Rightarrow> bool" where
  "export_cone i = starts_with ''export:cone:'' i"

definition removeTimedCone :: "nat \<Rightarrow> user_state \<Rightarrow> user_state" where
  "removeTimedCone i u =
     (if i < length (us_ce u)
      then (let e = us_ce u ! i;
                u1 = (if export_cone (ce_id e) then u\<lparr>us_dismissed := js_add (ce_id e) (us_dismissed u)\<rparr> else u)
            in u1\<lparr>us_ce := drop_index i (us_ce u)\<rparr>)
      else u)"

definition index_of :: "cone_event \<Rightarrow> cone_event list \<Rightarrow> nat" where
  "index_of e es = length (takeWhile (\<lambda>x. x \<noteq> e) es)"

definition nearest_cone :: "rat \<Rightarrow> cone_event list \<Rightarrow> cone_event" where
  "nearest_cone T ev = foldl (\<lambda>b e. if \<bar>ce_t e - T\<bar> < \<bar>ce_t b - T\<bar> then e else b) (hd ev) ev"

definition setCone :: "string \<Rightarrow> nat \<Rightarrow> bool \<Rightarrow> player \<Rightarrow> player" where
  "setCone i n add p =
     (if n = 0 \<or> n > length (se_laps (pl_s p)) \<or> lp_kind (the_lap p (n - 1)) \<noteq> KLap then p
      else let l = the_lap p (n - 1); ev = coneEvIn (pl_s p) (pl_user p) l; c = untimed_cones (pl_user p) n in
        if add
        then (if pl_T p + se_T0 (pl_s p) \<ge> lp_t0 l \<and> pl_T p + se_T0 (pl_s p) < lp_t1 l then snd (addConeAt i (pl_T p) p)
              else update (\<lambda>u. u\<lparr>us_cones := jm_set n (c + 1) (us_cones u)\<rparr>) p)
        else update (\<lambda>u.
          if ev \<noteq> [] then removeTimedCone (index_of (last ev) (us_ce u)) u
          else if max 0 (c - 1) \<noteq> 0 then u\<lparr>us_cones := jm_set n (max 0 (c - 1)) (us_cones u)\<rparr>
          else u\<lparr>us_cones := jm_delete n (us_cones u)\<rparr>) p)"

definition coneKey :: "string \<Rightarrow> bool \<Rightarrow> player \<Rightarrow> player" where
  "coneKey i add p =
     (let L = the_lap p (pl_sel p); ev = coneEvIn (pl_s p) (pl_user p) L; n = lapNo (pl_sel p) in
      if lp_kind L \<noteq> KLap then p
      else if add then snd (addConeAt i (pl_T p) p)
      else if ev \<noteq> [] then update (\<lambda>u. removeTimedCone (index_of (nearest_cone (pl_T p) ev) (us_ce u)) u) p
      else if untimed_cones (pl_user p) n > 0 then setCone i n False p else p)"

definition deleteCone :: "nat \<Rightarrow> player \<Rightarrow> player" where
  "deleteCone i p = update (removeTimedCone i) p"

definition addMark :: "string \<Rightarrow> string \<Rightarrow> mark_category \<Rightarrow> mark_video option \<Rightarrow> player \<Rightarrow> player" where
  "addMark i txt cat video p = update (\<lambda>u. u\<lparr>us_marks := sort_key mk_t (us_marks u @
     [\<lparr>mk_video = video, mk_category = Some cat, mk_id = i, mk_t = of_int (rat_round (pl_T p)), mk_text = txt\<rparr>])\<rparr>) p"

definition seekMark :: "string \<Rightarrow> rat \<Rightarrow> player \<Rightarrow> player" where
  "seekMark i now p = (case List.find (\<lambda>m. mk_id m = i) (us_marks (pl_user p)) of None \<Rightarrow> p
     | Some m \<Rightarrow> setT (mk_t m) (play False now p))"

definition deleteMark :: "nat \<Rightarrow> player \<Rightarrow> player" where
  "deleteMark i p = update (\<lambda>u. u\<lparr>us_marks := drop_index i (us_marks u)\<rparr>) p"

subsection \<open>Everything the driver can do\<close>

datatype action = AWindow rat rat | AZoom rat rat | ASeek rat | ALap nat | AStepLap int | APlay bool rat | ATick rat | AFix bool
  | AEnd | ARate int | ALoopA | ALoopB | AClear | ALoopSegment | AFrame | ASeekS rat rat | AGate nat | AAuto
  | ASetup string "setup_value option" | AFlag nat flag_patch | ASkip "nat list" | AConeKey string bool | ACone string nat bool
  | ADropCone nat | AMark string string mark_category "mark_video option" | ADropMark nat | ASeekMark string rat

fun player_do :: "action \<Rightarrow> player \<Rightarrow> player" where
  "player_do (AWindow a b) p = setTimelineWindow a b p"
| "player_do (AZoom f a) p = zoomTimeline f a p"
| "player_do (ASeek t) p = setT t p"
| "player_do (ALap i) p = seekLap i p"
| "player_do (AStepLap d) p = stepLap d p"
| "player_do (APlay on now) p = play on now p"
| "player_do (ATick now) p = tick now p"
| "player_do (AFix f) p = stepFix f p"
| "player_do AEnd p = cycleEnd p"
| "player_do (ARate d) p = cycleRate d p"
| "player_do ALoopA p = setLoopA p"
| "player_do ALoopB p = setLoopB p"
| "player_do AClear p = clearLoop p"
| "player_do ALoopSegment p = loopSegment p"
| "player_do AFrame p = runFrame p"
| "player_do (ASeekS s l) p = seekToS s l p"
| "player_do (AGate k) p = setSectorAtPlayhead k p"
| "player_do AAuto p = autoSectors p"
| "player_do (ASetup k v) p = update (setSetup k v) p"
| "player_do (AFlag n q) p = update (setFlag n q) p"
| "player_do (ASkip ns) p = update (skipLaps ns) p"
| "player_do (AConeKey i m) p = coneKey i m p"
| "player_do (ACone i n m) p = setCone i n m p"
| "player_do (ADropCone i) p = deleteCone i p"
| "player_do (AMark i x c v) p = addMark i x c v p"
| "player_do (ADropMark i) p = deleteMark i p"
| "player_do (ASeekMark i now) p = seekMark i now p"

inductive reaches :: "player \<Rightarrow> player \<Rightarrow> bool" for p0 where
  begin_: "reaches p0 p0"
| act_: "reaches p0 p \<Longrightarrow> reaches p0 (player_do a p)"

inductive_cases reachesE: "reaches p0 p"

subsection \<open>The state stays in order\<close>

text \<open>Every lap ends after the run began.\<close>

definition clock_ok :: "session \<Rightarrow> bool" where
  "clock_ok s \<longleftrightarrow> 0 \<le> se_TD s \<and> (\<forall>L \<in> set (se_laps s). se_T0 s \<le> lp_t1 L) \<and> (\<forall>i. i < length (se_laps s) \<longrightarrow> lap_at s i \<in> set (se_laps s))"

definition session_fine :: "session \<Rightarrow> bool" where
  "session_fine s \<longleftrightarrow> session_ok s \<and> clock_ok s"

definition playhead_ok :: "player \<Rightarrow> bool" where
  "playhead_ok p \<longleftrightarrow> 0 \<le> pl_T p \<and> pl_T p \<le> se_TD (pl_s p) \<and> pl_sel p < length (se_laps (pl_s p))"

definition timeline_ok :: "player \<Rightarrow> bool" where
  "timeline_ok p \<longleftrightarrow> 0 \<le> pl_start p \<and> pl_start p \<le> se_TD (pl_s p)
     \<and> (\<forall>e. pl_stop p = Some e \<longrightarrow> pl_start p \<le> e \<and> e \<le> se_TD (pl_s p))"

definition notes_ok :: "player \<Rightarrow> bool" where
  "notes_ok p \<longleftrightarrow> sorted (map ce_t (us_ce (pl_user p))) \<and> sorted (map mk_t (us_marks (pl_user p)))"

definition player_ok :: "player \<Rightarrow> bool" where
  "player_ok p \<longleftrightarrow> session_fine (pl_s p) \<and> playhead_ok p \<and> timeline_ok p \<and> notes_ok p \<and> pl_rate p \<in> set RATES"

lemma setGates_fine: "session_fine s \<Longrightarrow> session_fine (snd (setGates g s))"
proof -
  assume f: "session_fine s"
  have "session_ok (snd (setGates g s))"
    using f setGates_ok [OF session_ok_laps] by (cases "validGates g (se_RL s)") (auto simp: session_fine_def setGates_def)
  moreover have "\<forall>L \<in> set (se_laps (snd (setGates g s))). se_T0 s \<le> lp_t1 L"
    using f by (auto simp: setGates_def Let_def session_fine_def clock_ok_def)
  ultimately show ?thesis using f by (simp add: session_fine_def clock_ok_def setGates_fields lap_at_def)
qed

lemma setT_ok: "player_ok p \<Longrightarrow> player_ok (setT ms p)"
  by (auto simp: player_ok_def setT_def playhead_ok_def timeline_ok_def notes_ok_def session_fine_def clock_ok_def)

text \<open>Changes that none of the invariant looks at.\<close>

definition untouched :: "player \<Rightarrow> player \<Rightarrow> bool" where
  "untouched p q \<longleftrightarrow> pl_s q = pl_s p \<and> pl_T q = pl_T p \<and> pl_sel q = pl_sel p \<and> pl_start q = pl_start p \<and> pl_stop q = pl_stop p
     \<and> pl_user q = pl_user p \<and> pl_rate q = pl_rate p"

lemma untouched_ok: "player_ok p \<Longrightarrow> untouched p q \<Longrightarrow> player_ok q"
  by (simp add: untouched_def player_ok_def playhead_ok_def timeline_ok_def notes_ok_def)

lemma timelineWindow_range:
  assumes "0 \<le> TD"
  shows "0 \<le> wn_start (timelineWindow TD a b)" "wn_start (timelineWindow TD a b) \<le> wn_end (timelineWindow TD a b)"
    "wn_end (timelineWindow TD a b) \<le> TD"
  using assms by (auto simp: timelineWindow_def Let_def min_def max_def)

lemma setTimelineWindow_ok: "player_ok p \<Longrightarrow> player_ok (setTimelineWindow a b p)"
  using timelineWindow_range [of "se_TD (pl_s p)" a b]
  by (simp add: player_ok_def setTimelineWindow_def Let_def playhead_ok_def timeline_ok_def notes_ok_def session_fine_def clock_ok_def)

lemma play_ok: "player_ok p \<Longrightarrow> player_ok (play on now p)"
proof -
  assume p: "player_ok p"
  have l: "pl_sel p < length (se_laps (pl_s p))" "0 \<le> pl_T p" "pl_T p \<le> se_TD (pl_s p)" "0 \<le> se_TD (pl_s p)"
    using p by (simp_all add: player_ok_def playhead_ok_def session_fine_def clock_ok_def)
  then have stop: "0 \<le> lap_stop p (pl_sel p)"
    using p by (simp add: player_ok_def session_fine_def clock_ok_def lap_stop_def the_lap_def)
  have "\<exists>t. untouched (p\<lparr>pl_T := t\<rparr>) (play on now p) \<and> 0 \<le> t \<and> t \<le> se_TD (pl_s p)"
  proof (cases on)
    case True
    define t where "t = (if pl_end p = Stop \<and> pl_T p \<ge> lap_stop p (pl_sel p) - 80 \<and> pl_T p < se_TD (pl_s p) - 80
      then lap_stop p (pl_sel p) + 1 else pl_T p)"
    have "0 \<le> t" using l stop by (simp add: t_def)
    moreover have "untouched (p\<lparr>pl_T := if t \<ge> se_TD (pl_s p) - 50 then 0 else t\<rparr>) (play on now p)"
      using True by (auto simp: untouched_def play_def Let_def t_def)
    ultimately show ?thesis using l by (intro exI [of _ "if t \<ge> se_TD (pl_s p) - 50 then 0 else t"]) auto
  next
    case False
    then show ?thesis using l by (intro exI [of _ "pl_T p"]) (simp add: untouched_def play_def)
  qed
  then obtain t where t: "untouched (p\<lparr>pl_T := t\<rparr>) (play on now p)" "0 \<le> t" "t \<le> se_TD (pl_s p)" by blast
  have "player_ok (p\<lparr>pl_T := t\<rparr>)" using p t(2,3) by (simp add: player_ok_def playhead_ok_def timeline_ok_def notes_ok_def)
  then show ?thesis using untouched_ok t(1) by blast
qed

lemma tick_ok: "player_ok p \<Longrightarrow> player_ok (tick now p)"
proof -
  assume p: "player_ok p"
  then have "player_ok (p\<lparr>pl_lastTs := now\<rparr>)" by (rule untouched_ok) (simp add: untouched_def)
  then show ?thesis using p by (auto simp: tick_def Let_def intro: play_ok setT_ok)
qed

lemma stepFix_ok: "player_ok p \<Longrightarrow> player_ok (stepFix f p)"
  by (auto simp: stepFix_def Let_def intro: setT_ok split: option.splits)

lemma cycleRate_ok: "player_ok p \<Longrightarrow> player_ok (cycleRate d p)"
proof -
  have "RATES ! nat (max 0 (min (int (length RATES) - 1) k)) \<in> set RATES" for k by (rule nth_mem) (simp add: RATES_def)
  then show "player_ok p \<Longrightarrow> player_ok (cycleRate d p)"
    by (simp add: player_ok_def cycleRate_def playhead_ok_def timeline_ok_def notes_ok_def)
qed

lemma loopSegment_ok: "player_ok p \<Longrightarrow> player_ok (loopSegment p)"
proof -
  assume p: "player_ok p"
  have "player_ok (setT a (p\<lparr>pl_loopA := x, pl_loopB := y\<rparr>))" for a x y
    by (rule setT_ok, rule untouched_ok [OF p]) (simp add: untouched_def)
  then show ?thesis using p by (simp add: loopSegment_def Let_def split: option.splits)
qed

lemma setLoop_ok: "player_ok p \<Longrightarrow> player_ok (setLoopA p)" "player_ok p \<Longrightarrow> player_ok (setLoopB p)" "player_ok p \<Longrightarrow> player_ok (clearLoop p)"
    "player_ok p \<Longrightarrow> player_ok (cycleEnd p)"
  by (auto simp: setLoopA_def setLoopB_def clearLoop_def cycleEnd_def Let_def untouched_def elim!: untouched_ok split: option.splits)

lemma lapIndexAt_range:
  assumes "session_ok s"
  shows "lapIndexAt s T < length (se_laps s)"
proof -
  have tl: "set (se_TLAPS s) = {0..<length (se_laps s)}" "se_TLAPS s \<noteq> []"
    using assms by (auto simp: session_ok_def laps_ok_def filter_empty_conv)
  show ?thesis
  proof (cases "List.find (\<lambda>i. se_T0 s + T < lp_t1 (lap_at s i)) (se_TLAPS s)")
    case None
    then show ?thesis using last_in_set [OF tl(2)] tl(1) by (simp add: lapIndexAt_def)
  next
    case (Some i)
    then have "i \<in> set (se_TLAPS s)" by (auto simp: find_Some_iff)
    then show ?thesis using Some tl(1) by (simp add: lapIndexAt_def)
  qed
qed

lemma runFrame_ok: "player_ok p \<Longrightarrow> player_ok (runFrame p)"
proof -
  assume p: "player_ok p"
  have "player_ok (p\<lparr>pl_sel := lapIndexAt (pl_s p) (pl_T p)\<rparr>)"
    using p lapIndexAt_range by (simp add: player_ok_def session_fine_def playhead_ok_def timeline_ok_def notes_ok_def)
  then show ?thesis
    by (rule untouched_ok) (simp add: runFrame_def updateLoc_def untouched_def Let_def split: prod.splits)
qed

lemma gates_ok: "player_ok p \<Longrightarrow> player_ok (p\<lparr>pl_s := snd (setGates g (pl_s p)), pl_manual := m\<rparr>)"
  using setGates_fine by (simp add: player_ok_def playhead_ok_def timeline_ok_def notes_ok_def setGates_fields)

lemma update_ok:
  "player_ok p \<Longrightarrow> sorted (map ce_t (us_ce (f (pl_user p)))) \<Longrightarrow> sorted (map mk_t (us_marks (f (pl_user p)))) \<Longrightarrow> player_ok (update f p)"
  by (simp add: player_ok_def update_def playhead_ok_def timeline_ok_def notes_ok_def)

lemma sorted_drop_index: "sorted (map f xs) \<Longrightarrow> sorted (map f (drop_index i xs))"
proof -
  assume "sorted (map f xs)"
  then have "sorted (map f (take i xs) @ map f (drop i xs))" by (simp flip: map_append)
  then have "sorted (map f (take i xs) @ tl (map f (drop i xs)))" by (cases "map f (drop i xs)") (auto simp: sorted_append)
  then show ?thesis by (simp add: drop_index_def drop_Suc tl_drop flip: map_tl)
qed

lemma removeTimedCone_sorted:
  "sorted (map ce_t (us_ce u)) \<Longrightarrow> sorted (map ce_t (us_ce (removeTimedCone i u)))" "us_marks (removeTimedCone i u) = us_marks u"
  by (simp_all add: removeTimedCone_def Let_def sorted_drop_index)

lemma skipLaps_keeps: "us_ce (skipLaps ns u) = us_ce u \<and> us_marks (skipLaps ns u) = us_marks u"
  unfolding skipLaps_def by (induction ns arbitrary: u) simp_all

lemma setSetup_keeps: "us_ce (setSetup k v u) = us_ce u \<and> us_marks (setSetup k v u) = us_marks u"
  by (simp add: setSetup_def split: option.splits setup_value.splits list.splits jsnum.splits)

lemma notes_sorted: "player_ok p \<Longrightarrow> sorted (map ce_t (us_ce (pl_user p))) \<and> sorted (map mk_t (us_marks (pl_user p)))"
  by (simp add: player_ok_def notes_ok_def)

lemma addConeAt_ok: "player_ok p \<Longrightarrow> player_ok (snd (addConeAt i tt p))"
  using notes_sorted by (simp add: addConeAt_def add_cone_def update_ok)

lemma setCone_ok: "player_ok p \<Longrightarrow> player_ok (setCone i n m p)"
proof -
  assume p: "player_ok p"
  note s = notes_sorted [OF p]
  show ?thesis
    unfolding setCone_def Let_def using p s removeTimedCone_sorted addConeAt_ok [OF p]
    by (auto intro!: update_ok)
qed

lemma coneKey_ok: "player_ok p \<Longrightarrow> player_ok (coneKey i m p)"
proof -
  assume p: "player_ok p"
  note s = notes_sorted [OF p]
  show ?thesis
    unfolding coneKey_def Let_def using p s removeTimedCone_sorted addConeAt_ok [OF p] setCone_ok [OF p]
    by (auto intro!: update_ok)
qed

lemma player_do_ok:
  assumes p: "player_ok p"
  shows "player_ok (player_do a p)"
proof (cases a)
  case (AGate k)
  then show ?thesis using p gates_ok by (simp add: setSectorAtPlayhead_def Let_def split: prod.splits)
next
  case AAuto
  then show ?thesis using p gates_ok by (simp add: autoSectors_def Let_def)
next
  case (AFlag n q)
  have "us_ce (setFlag n q u) = us_ce u" "us_marks (setFlag n q u) = us_marks u" for u by (simp_all add: setFlag_def Let_def)
  then show ?thesis using AFlag p notes_sorted [OF p] by (simp add: update_ok)
next
  case (AMark i x c v)
  then show ?thesis using p notes_sorted [OF p] by (simp add: addMark_def update_ok)
next
  case (ASeekMark i now)
  then show ?thesis using p by (simp add: seekMark_def play_ok setT_ok split: option.splits)
qed (use p notes_sorted [OF p] in \<open>simp_all add: setTimelineWindow_ok zoomTimeline_def Let_def setT_ok seekLap_def stepLap_def play_ok
  tick_ok stepFix_ok setLoop_ok cycleRate_ok loopSegment_ok runFrame_ok seekToS_def update_ok setSetup_keeps skipLaps_keeps coneKey_ok
  setCone_ok deleteCone_def removeTimedCone_sorted deleteMark_def sorted_drop_index\<close>)

text \<open>C17: whatever the driver does, and whenever frames come, the playhead stays inside the run, the timeline window inside the
  playhead's range, the cones and marks in time order, the rate one of the five, and the gates in order with every lap split
  by them.\<close>

theorem player_reachable_ok: "reaches p0 p \<Longrightarrow> player_ok p0 \<Longrightarrow> player_ok p"
  by (induction rule: reaches.induct) (simp_all add: player_do_ok)

definition small_player :: player where
  "small_player =
     \<lparr>pl_s = small_session, pl_user = emptyUserState, pl_T = 0, pl_sel = 0, pl_playing = True, pl_rate = 1, pl_end = Go,
      pl_loopA = None, pl_loopB = None, pl_manual = False, pl_start = 0, pl_stop = None, pl_curSeg = None, pl_curZone = None,
      pl_lastTs = 0\<rparr>"

lemma small_player_ok: "player_ok small_player"
proof -
  from open_session_Some [OF small_session_opens] obtain s0 g0 where
    s0: "small_session = snd (setGates g0 s0)" "se_laps s0 = open_laps small_run" by blast
  have len: "length (se_laps small_session) = 2"
    unfolding s0(1) setGates_fields s0(2) by (simp add: open_laps_def Let_def small_run_def)
  have "\<forall>i < 2. 0 \<le> lp_t1 (lap_at small_session i)" using small_session_laps by (auto simp: less_Suc_eq numeral_2_eq_2)
  then have "\<forall>L \<in> set (se_laps small_session). 0 \<le> lp_t1 L" using len by (auto simp: in_set_conv_nth lap_at_def)
  then have "session_fine small_session"
    using small_ok len small_session_laps by (simp add: session_fine_def clock_ok_def lap_at_def)
  then show ?thesis
    using len small_session_laps
    by (simp add: player_ok_def small_player_def playhead_ok_def timeline_ok_def notes_ok_def emptyUserState_def RATES_def)
qed

lemma player_reachable_ok_witness:
  "player_ok (player_do (ACone ''a'' 2 True) (player_do AFrame (player_do (ATick 6000) small_player)))"
  by (rule player_reachable_ok [OF act_ [OF act_ [OF act_ [OF begin_]]] small_player_ok])

subsection \<open>Playing comes to the end\<close>

text \<open>\<open>n\<close> frames, \<open>d\<close> milliseconds apart.\<close>

fun frames :: "nat \<Rightarrow> rat \<Rightarrow> rat \<Rightarrow> player \<Rightarrow> player" where
  "frames 0 now d p = p"
| "frames (Suc n) now d p = frames n (now + d) d (tick (now + d) p)"

definition plain_play :: "player \<Rightarrow> bool" where
  "plain_play p \<longleftrightarrow> pl_playing p \<and> pl_end p = Go \<and> (pl_loopA p = None \<or> pl_loopB p = None)"

lemma tick_plain:
  assumes "plain_play p" "0 \<le> pl_T p" "0 \<le> se_TD (pl_s p)" "0 \<le> (now - pl_lastTs p) * pl_rate p"
  shows "let nt = pl_T p + (now - pl_lastTs p) * pl_rate p in
    if nt \<ge> se_TD (pl_s p) then \<not> pl_playing (tick now p) \<and> pl_T (tick now p) = se_TD (pl_s p)
    else tick now p = p\<lparr>pl_lastTs := now, pl_T := nt\<rparr>"
proof -
  have "loop_back (p\<lparr>pl_lastTs := now\<rparr>) nt = nt" for nt
    using assms(1) by (auto simp: loop_back_def plain_play_def split: option.splits)
  then show ?thesis
    using assms by (auto simp: tick_def plain_play_def setT_def play_def Let_def)
qed

lemma stopped_frames: "\<not> pl_playing p \<Longrightarrow> frames n now d p = p"
  by (induction n now d p rule: frames.induct) (simp_all add: tick_def)

lemma frames_end:
  assumes "plain_play p" "0 \<le> pl_T p" "0 \<le> se_TD (pl_s p)" "0 < d" "0 < pl_rate p" "pl_lastTs p = now"
    "se_TD (pl_s p) \<le> pl_T p + of_nat n * (d * pl_rate p)" "0 < n"
  shows "\<not> pl_playing (frames n now d p) \<and> pl_T (frames n now d p) = se_TD (pl_s p)"
  using assms
proof (induction n arbitrary: now p)
  case (Suc n)
  define nt where "nt = pl_T p + d * pl_rate p"
  have dt: "0 < d * pl_rate p" "(now + d - pl_lastTs p) * pl_rate p = d * pl_rate p" using Suc.prems(4-6) by simp_all
  have step: "if nt \<ge> se_TD (pl_s p) then \<not> pl_playing (tick (now + d) p) \<and> pl_T (tick (now + d) p) = se_TD (pl_s p)
      else tick (now + d) p = p\<lparr>pl_lastTs := now + d, pl_T := nt\<rparr>"
    using tick_plain [OF Suc.prems(1-3), of "now + d"] dt unfolding nt_def Let_def by simp
  show ?case
  proof (cases "nt \<ge> se_TD (pl_s p)")
    case True
    then show ?thesis using step stopped_frames by simp
  next
    case False
    then have t: "tick (now + d) p = p\<lparr>pl_lastTs := now + d, pl_T := nt\<rparr>" using step by simp
    have bound: "se_TD (pl_s p) \<le> nt + of_nat n * (d * pl_rate p)" using Suc.prems(7) by (simp add: nt_def algebra_simps)
    have n: "0 < n" using bound False by (cases n) simp_all
    have "\<not> pl_playing (frames n (now + d) d (tick (now + d) p)) \<and> pl_T (frames n (now + d) d (tick (now + d) p)) = se_TD (pl_s (tick (now + d) p))"
      using Suc.prems dt(1) bound n by (intro Suc.IH) (simp_all add: t plain_play_def nt_def)
    then show ?thesis by (simp add: t)
  qed
qed simp



subsection \<open>Looping a segment across the start line\<close>

lemma loop_back_dead: "pl_loopA p = Some a \<Longrightarrow> pl_loopB p = Some b \<Longrightarrow> b \<le> a \<Longrightarrow> loop_back p nt = nt"
  by (simp add: loop_back_def)

text \<open>\<open>loopSegment\<close> takes the start of the segment's first piece and the end of its last. For a segment across the start line
  of a loop the last piece lies at the beginning of the lap, so B comes before A and the loop never brings the playhead
  back.\<close>

theorem loop_across_line_dead:
  assumes "pl_curSeg p = Some k" "g = se_segs (pl_s p) ! k" "se_RL (pl_s p) < sg_a g + sg_len g" "L = fst (curState p)"
    "js_val (timeAtU L (sg_a g + sg_len g - se_RL (pl_s p))) + 1000 \<le> js_val (timeAtU L (sg_a g))"
  shows "loop_back (loopSegment p) nt = nt"
proof -
  let ?start = "lp_t0 L - se_T0 (pl_s p)"
  let ?a = "max 0 (?start + max 0 (js_val (timeAtU L (sg_a g)) - 500))"
  let ?b = "?start + min (lp_dur L) (js_val (timeAtU L (sg_a g + sg_len g - se_RL (pl_s p))) + 500)"
  have "?b \<le> ?a" using assms(5) by linarith
  moreover have "pl_loopA (loopSegment p) = Some ?a" "pl_loopB (loopSegment p) = Some ?b"
    using assms(3) by (simp_all add: loopSegment_def assms(1) Let_def setT_def pieces_def flip: assms(2,4))
  ultimately show ?thesis by (rule loop_back_dead [rotated 2])
qed

definition line_player :: player where
  "line_player = small_player\<lparr>pl_s := small_session\<lparr>se_segs := [\<lparr>sg_a = 90, sg_len = 20, sg_corner = False, sg_dir = 0, sg_name = ''Str 1''\<rparr>]\<rparr>,
     pl_curSeg := Some 0\<rparr>"

lemma small_lap_times: "lap_t (lap_at small_session 0) = [0, 5000]"
proof -
  from open_session_Some [OF small_session_opens] obtain s0 g0 where
    s0: "small_session = snd (setGates g0 s0)" "se_laps s0 = open_laps small_run" by blast
  have "length (open_laps small_run) = 2" by (simp add: open_laps_def Let_def small_run_def)
  then obtain x where "lap_at small_session 0 = (open_laps small_run ! 0)\<lparr>lp_sec := x\<rparr>"
    using setGates_lap [of 0 s0 g0] s0 by (auto simp: lap_at_def)
  then show ?thesis by (simp add: open_laps_def Let_def small_run_def prepareLap_raw small_lap_def)
qed

lemma loop_across_line_dead_witness: "loop_back (loopSegment line_player) 3000 = 3000"
proof -
  let ?L = "lap_at small_session 0"
  have L: "fst (curState line_player) = ?L"
    by (simp add: curState_def line_player_def small_player_def the_lap_def lap_at_def Let_def)
  have "lap_u ?L = [0, 100]" using small_lap_at [of 0] by simp
  then have t: "timeAtU ?L u = interp [0, 100] [0, 5000] u" for u by (simp add: timeAtU_def small_lap_times)
  have "interp [0, 100] [0, 5000] 10 = JFin 500" "interp [0, 100] [0, 5000] 90 = JFin 4500"
    by (simp_all add: interp_def bisect.simps between_def num_at_def)
  then have "js_val (timeAtU ?L (90 + 20 - 100)) + 1000 \<le> js_val (timeAtU ?L 90)" unfolding t by simp
  moreover have "se_segs (pl_s line_player) ! 0 = \<lparr>sg_a = 90, sg_len = 20, sg_corner = False, sg_dir = 0, sg_name = ''Str 1''\<rparr>"
      "se_RL (pl_s line_player) = 100" "pl_curSeg line_player = Some 0"
    by (simp_all add: line_player_def setGates_RL_small)
  ultimately show ?thesis using loop_across_line_dead [of line_player 0, OF _ refl _ refl] by (simp add: L)
qed

subsection \<open>A removed cone\<close>

lemma removed_id:
  assumes "distinct (map ce_id (us_ce u))" "i < length (us_ce u)"
  shows "ce_id (us_ce u ! i) \<notin> ce_id ` set (us_ce (removeTimedCone i u))"
proof -
  have "us_ce u = take i (us_ce u) @ us_ce u ! i # drop (i + 1) (us_ce u)" using assms(2) by (simp add: id_take_nth_drop)
  then have "distinct (map ce_id (take i (us_ce u) @ us_ce u ! i # drop (i + 1) (us_ce u)))" using assms(1) by simp
  then show ?thesis using assms(2) by (auto simp: removeTimedCone_def drop_index_def Let_def)
qed

text \<open>an exported hit that the driver removes stays removed: opening the run again, with the same or any other file, does not
  bring it back, and every other cone of the notes stays.\<close>

theorem removed_cone_stays:
  assumes "distinct (map ce_id (us_ce u))" "i < length (us_ce u)" "export_cone (ce_id (us_ce u ! i))"
  shows "ce_id (us_ce u ! i) \<notin> ce_id ` set (us_ce (seedCones D (removeTimedCone i u)))
    \<and> (\<forall>j < length (us_ce u). j \<noteq> i \<longrightarrow> ce_id (us_ce u ! j) \<in> ce_id ` set (us_ce (seedCones D (removeTimedCone i u))))"
proof -
  have "ce_id (us_ce u ! i) \<in> set (us_dismissed (removeTimedCone i u))" using assms(2,3) by (simp add: removeTimedCone_def Let_def)
  then have "ce_id (us_ce u ! i) \<notin> ce_id ` set (shifted D (removeTimedCone i u))" by (auto simp: shifted_def)
  moreover have "us_ce u ! j \<in> set (us_ce (removeTimedCone i u))" if "j < length (us_ce u)" "j \<noteq> i" for j
  proof -
    have "us_ce u ! j \<in> set (take i (us_ce u)) \<or> us_ce u ! j \<in> set (drop (i + 1) (us_ce u))"
    proof (cases "j < i")
      case True
      then show ?thesis using that(1) by (auto simp: in_set_conv_nth)
    next
      case False
      then have "drop (i + 1) (us_ce u) ! (j - (i + 1)) = us_ce u ! j" "j - (i + 1) < length (drop (i + 1) (us_ce u))" using that by simp_all
      then show ?thesis by (metis nth_mem)
    qed
    then show ?thesis using assms(2) by (auto simp: removeTimedCone_def drop_index_def Let_def)
  qed
  ultimately show ?thesis
    using removed_id [OF assms(1,2)] seedCones_ids(2) [of D "removeTimedCone i u"] by blast
qed

definition two_cones :: user_state where
  "two_cones = emptyUserState\<lparr>us_ce := [\<lparr>ce_id = ''export:cone:7'', ce_t = 70\<rparr>, \<lparr>ce_id = ''m1'', ce_t = 90\<rparr>]\<rparr>"

lemma removed_cone_stays_witness:
  "ce_id (us_ce two_cones ! 0) \<notin> ce_id ` set (us_ce (seedCones small_run (removeTimedCone 0 two_cones)))
    \<and> ce_id (us_ce two_cones ! 1) \<in> ce_id ` set (us_ce (seedCones small_run (removeTimedCone 0 two_cones)))"
proof -
  have c: "distinct (map ce_id (us_ce two_cones))" "0 < length (us_ce two_cones)" "1 < length (us_ce two_cones)" "export_cone (ce_id (us_ce two_cones ! 0))"
    by (simp_all add: two_cones_def export_cone_def starts_with_def)
  show ?thesis using removed_cone_stays [OF c(1,2,4), of small_run] c(3) by (metis one_neq_zero)
qed

subsection \<open>Staying on the lap\<close>

text \<open>in the two modes that hold the lap, a frame no longer than the lap keeps the playhead on it: one stops a millisecond
  before its end, the other goes round.\<close>

theorem lap_mode_holds:
  assumes "pl_playing p" "pl_end p \<noteq> Go" "pl_loopA p = None" "0 \<le> lap_start p (pl_sel p)" "lap_stop p (pl_sel p) \<le> se_TD (pl_s p)"
    "lap_start p (pl_sel p) \<le> pl_T p" "pl_T p < lap_stop p (pl_sel p)" "lap_start p (pl_sel p) + 1 \<le> lap_stop p (pl_sel p)"
    "0 \<le> (now - pl_lastTs p) * pl_rate p" "(now - pl_lastTs p) * pl_rate p \<le> lap_stop p (pl_sel p) - lap_start p (pl_sel p)"
  shows "lap_start p (pl_sel p) \<le> pl_T (tick now p) \<and> pl_T (tick now p) < lap_stop p (pl_sel p)"
proof -
  define a b T dt TD where "a = lap_start p (pl_sel p)" and "b = lap_stop p (pl_sel p)" and "T = pl_T p"
    and "dt = (now - pl_lastTs p) * pl_rate p" and "TD = se_TD (pl_s p)"
  note defs = a_def [symmetric] b_def [symmetric] T_def [symmetric] dt_def [symmetric] TD_def [symmetric]
  have h: "0 \<le> a" "b \<le> TD" "a \<le> T" "T < b" "a + 1 \<le> b" "0 \<le> dt" "dt \<le> b - a" using assms(4-10) unfolding defs .
  have same: "lap_start (p\<lparr>pl_lastTs := now\<rparr>) i = lap_start p i" "lap_stop (p\<lparr>pl_lastTs := now\<rparr>) i = lap_stop p i" for i
    by (simp_all add: lap_start_def lap_stop_def the_lap_def)
  have nb: "loop_back (p\<lparr>pl_lastTs := now\<rparr>) nt = nt" for nt using assms(3) by (simp add: loop_back_def)
  have t: "pl_T (tick now p) = (if T + dt \<ge> b \<and> pl_end p = Stop then max 0 (min TD (b - 1))
      else let nt1 = (if T + dt \<ge> b \<and> pl_end p = Loop then a + (T + dt - b) else T + dt) in
        if nt1 \<ge> TD then max 0 (min TD TD) else max 0 (min TD nt1))"
    using assms(1) by (simp add: tick_def Let_def play_def setT_def same nb defs)
  show ?thesis
  proof (cases "pl_end p")
    case Stop
    then show ?thesis unfolding t defs using h by (auto simp: Let_def min_def max_def)
  next
    case Loop
    then show ?thesis unfolding t defs using h by (auto simp: Let_def min_def max_def)
  qed (use assms(2) in simp)
qed

lemma lap_mode_holds_witness:
  "lap_start (small_player\<lparr>pl_end := Loop, pl_T := 4900\<rparr>) 0 \<le> pl_T (tick 200 (small_player\<lparr>pl_end := Loop, pl_T := 4900\<rparr>))
    \<and> pl_T (tick 200 (small_player\<lparr>pl_end := Loop, pl_T := 4900\<rparr>)) < lap_stop (small_player\<lparr>pl_end := Loop, pl_T := 4900\<rparr>) 0"
  using lap_mode_holds [of "small_player\<lparr>pl_end := Loop, pl_T := 4900\<rparr>" 200]
  by (simp add: small_player_def lap_start_def lap_stop_def the_lap_def small_session_laps)

end
