(* ===== verification/DriveWorkspace.thy ===== *)
theory DriveWorkspace
  imports JsonValue
begin

text \<open>
  The panes of the drive-day screen, \<^verbatim>\<open>viewer_tool/src/lib/driveday/workspace.ts\<close>: the presets, the layout that is read back from
  the browser, moving and resizing panes. What the browser had stored is any JSON value.
\<close>

subsection \<open>Layouts\<close>

datatype pane_id = PVideo | PTrack | PAnalysis

instantiation pane_id :: enum
begin

definition enum_pane_id :: "pane_id list" where
  "enum_pane_id = [PVideo, PTrack, PAnalysis]"

definition enum_all_pane_id :: "(pane_id \<Rightarrow> bool) \<Rightarrow> bool" where
  "enum_all_pane_id P \<longleftrightarrow> P PVideo \<and> P PTrack \<and> P PAnalysis"

definition enum_ex_pane_id :: "(pane_id \<Rightarrow> bool) \<Rightarrow> bool" where
  "enum_ex_pane_id P \<longleftrightarrow> P PVideo \<or> P PTrack \<or> P PAnalysis"

instance
proof
  show univ: "UNIV = set (enum_class.enum :: pane_id list)"
    using pane_id.exhaust by (auto simp: enum_pane_id_def)
  show "distinct (enum_class.enum :: pane_id list)" by (simp add: enum_pane_id_def)
  show "enum_class.enum_all P \<longleftrightarrow> Ball UNIV P" for P :: "pane_id \<Rightarrow> bool"
    unfolding univ by (simp add: enum_all_pane_id_def enum_pane_id_def)
  show "enum_class.enum_ex P \<longleftrightarrow> Bex UNIV P" for P :: "pane_id \<Rightarrow> bool"
    unfolding univ by (simp add: enum_ex_pane_id_def enum_pane_id_def)
qed

end

record pane_state =
  pn_visible :: bool
  pn_floating :: bool
  pn_weight :: rat
  pn_x :: rat
  pn_y :: rat
  pn_width :: rat
  pn_height :: rat

record workspace =
  ws_order :: "pane_id list"
  ws_panes :: "pane_id \<Rightarrow> pane_state"

record saved_workspace =
  sw_layout :: workspace
  sw_height :: rat
  sw_full :: bool
  sw_panel :: "string option"

definition PANE_IDS :: "pane_id list" where
  "PANE_IDS = [PVideo, PTrack, PAnalysis]"

definition pane_index :: "pane_id \<Rightarrow> nat" where
  "pane_index i = (case i of PVideo \<Rightarrow> 0 | PTrack \<Rightarrow> 1 | PAnalysis \<Rightarrow> 2)"

definition default_pane :: "pane_id \<Rightarrow> pane_state" where
  "default_pane i =
     \<lparr>pn_visible = True, pn_floating = False, pn_weight = (if i = PTrack then 3 / 2 else 1),
      pn_x = 32 + of_nat (pane_index i) * 48, pn_y = 90 + of_nat (pane_index i) * 32,
      pn_width = (if i = PTrack then 640 else 420), pn_height = 560\<rparr>"

definition defaultWorkspace :: workspace where
  "defaultWorkspace = \<lparr>ws_order = PANE_IDS, ws_panes = default_pane\<rparr>"

datatype preset = Driving_review | Battery_analysis | Video_comparison

definition set_pane :: "pane_id \<Rightarrow> (pane_state \<Rightarrow> pane_state) \<Rightarrow> workspace \<Rightarrow> workspace" where
  "set_pane i f w = w\<lparr>ws_panes := (ws_panes w)(i := f (ws_panes w i))\<rparr>"

definition workspacePreset :: "preset \<Rightarrow> saved_workspace" where
  "workspacePreset name =
     (let l0 = defaultWorkspace;
          l1 = (if name = Battery_analysis
                then set_pane PTrack (\<lambda>p. p\<lparr>pn_weight := 1\<rparr>) (set_pane PAnalysis (\<lambda>p. p\<lparr>pn_weight := 2\<rparr>)
                  (set_pane PVideo (\<lambda>p. p\<lparr>pn_visible := False\<rparr>) l0)) else l0);
          l2 = (if name = Video_comparison
                then set_pane PTrack (\<lambda>p. p\<lparr>pn_weight := 6 / 5\<rparr>) (set_pane PVideo (\<lambda>p. p\<lparr>pn_weight := 2\<rparr>) l1) else l1)
      in \<lparr>sw_layout = l2, sw_height = 48, sw_full = True,
          sw_panel = Some (if name = Driving_review then ''driving'' else if name = Battery_analysis then ''cells'' else ''compare'')\<rparr>)"

subsection \<open>Reading a layout back\<close>

definition pane_name :: "pane_id \<Rightarrow> string" where
  "pane_name i = (case i of PVideo \<Rightarrow> ''video'' | PTrack \<Rightarrow> ''track'' | PAnalysis \<Rightarrow> ''analysis'')"

definition pane_of :: "json \<Rightarrow> pane_id option" where
  "pane_of v = (case v of JStr s \<Rightarrow> List.find (\<lambda>i. pane_name i = s) PANE_IDS | _ \<Rightarrow> None)"

definition saved_order :: "json \<Rightarrow> pane_id list option" where
  "saved_order v = (case v of JArr xs \<Rightarrow>
       if length xs = 3 \<and> list_all (\<lambda>x. pane_of x \<noteq> None) xs \<and> distinct (map pane_of xs) then Some (map (\<lambda>x. the (pane_of x)) xs) else None
     | _ \<Rightarrow> None)"

definition bool_or :: "bool \<Rightarrow> json \<Rightarrow> bool" where
  "bool_or d v = (case v of JBool b \<Rightarrow> b | _ \<Rightarrow> d)"

definition num_or :: "rat \<Rightarrow> json \<Rightarrow> rat" where
  "num_or d v = (case v of JNum (JFin r) \<Rightarrow> r | _ \<Rightarrow> d)"

definition restore_pane :: "json \<Rightarrow> pane_state \<Rightarrow> pane_state" where
  "restore_pane saved p =
     (if \<not> truthy saved then p
      else \<lparr>pn_visible = bool_or (pn_visible p) (field saved ''visible''), pn_floating = bool_or (pn_floating p) (field saved ''floating''),
            pn_weight = max (1 / 4) (min 5 (num_or (pn_weight p) (field saved ''weight''))),
            pn_x = num_or (pn_x p) (field saved ''x''), pn_y = num_or (pn_y p) (field saved ''y''),
            pn_width = max 260 (num_or (pn_width p) (field saved ''width'')),
            pn_height = max 280 (num_or (pn_height p) (field saved ''height''))\<rparr>)"

definition opt_field :: "json \<Rightarrow> string \<Rightarrow> json" where
  "opt_field v k = (if nullish v then JUndef else field v k)"

definition restoreWorkspace :: "json \<Rightarrow> workspace" where
  "restoreWorkspace raw =
     (if \<not> truthy raw then defaultWorkspace
      else \<lparr>ws_order = (case saved_order (field raw ''order'') of Some o1 \<Rightarrow> o1 | None \<Rightarrow> PANE_IDS),
            ws_panes = (\<lambda>i. restore_pane (opt_field (field raw ''panes'') (pane_name i)) (default_pane i))\<rparr>)"

subsection \<open>Moving and resizing\<close>

definition splice_out :: "nat \<Rightarrow> 'a list \<Rightarrow> 'a list" where
  "splice_out i xs = take i xs @ drop (i + 1) xs"

definition splice_in :: "nat \<Rightarrow> 'a \<Rightarrow> 'a list \<Rightarrow> 'a list" where
  "splice_in i x xs = take i xs @ x # drop i xs"

definition place_of :: "'a \<Rightarrow> 'a list \<Rightarrow> nat" where
  "place_of x xs = length (takeWhile (\<lambda>y. y \<noteq> x) xs)"

definition movePane :: "workspace \<Rightarrow> pane_id \<Rightarrow> pane_id \<Rightarrow> workspace" where
  "movePane w i target = (let from = place_of i (ws_order w); to = place_of target (ws_order w) in
     w\<lparr>ws_order := splice_in to i (splice_out from (ws_order w))\<rparr>)"

definition resizePair :: "workspace \<Rightarrow> pane_id \<Rightarrow> pane_id \<Rightarrow> rat \<Rightarrow> workspace" where
  "resizePair w left right fraction =
     (let total = pn_weight (ws_panes w left) + pn_weight (ws_panes w right); ratio = max (1 / 5) (min (4 / 5) fraction) in
      w\<lparr>ws_panes := (ws_panes w)(left := (ws_panes w left)\<lparr>pn_weight := total * ratio\<rparr>,
          right := (ws_panes w right)\<lparr>pn_weight := total * (1 - ratio)\<rparr>)\<rparr>)"

subsection \<open>Whatever was stored, the layout is usable\<close>

definition pane_fits :: "pane_state \<Rightarrow> bool" where
  "pane_fits p \<longleftrightarrow> 1 / 4 \<le> pn_weight p \<and> pn_weight p \<le> 5 \<and> 260 \<le> pn_width p \<and> 280 \<le> pn_height p"

definition workspace_ok :: "workspace \<Rightarrow> bool" where
  "workspace_ok w \<longleftrightarrow> length (ws_order w) = 3 \<and> distinct (ws_order w) \<and> (\<forall>i. pane_fits (ws_panes w i))"

definition pane_json :: "pane_state \<Rightarrow> json" where
  "pane_json p = JObj [(''visible'', JBool (pn_visible p)), (''floating'', JBool (pn_floating p)), (''weight'', JNum (JFin (pn_weight p))),
     (''x'', JNum (JFin (pn_x p))), (''y'', JNum (JFin (pn_y p))), (''width'', JNum (JFin (pn_width p))), (''height'', JNum (JFin (pn_height p)))]"

definition workspace_json :: "workspace \<Rightarrow> json" where
  "workspace_json w = JObj [(''order'', JArr (map (\<lambda>i. JStr (pane_name i)) (ws_order w))),
     (''panes'', JObj (map (\<lambda>i. (pane_name i, pane_json (ws_panes w i))) PANE_IDS))]"

lemma default_fits: "pane_fits (default_pane i)"
  by (simp add: pane_fits_def default_pane_def)

lemma restore_fits: "pane_fits p \<Longrightarrow> pane_fits (restore_pane v p)"
proof (cases "truthy v")
  case True
  have "1 / 4 \<le> max (1 / 4 :: rat) z" for z by (rule max.cobounded1)
  then show ?thesis using True by (simp add: restore_pane_def pane_fits_def del: divide_le_eq_numeral1)
qed (simp add: restore_pane_def)

lemma saved_order_ok: "saved_order v = Some is \<Longrightarrow> length is = 3 \<and> distinct is"
proof -
  assume "saved_order v = Some is"
  then obtain xs where xs: "length xs = 3" "list_all (\<lambda>x. pane_of x \<noteq> None) xs" "distinct (map pane_of xs)" "is = map (\<lambda>x. the (pane_of x)) xs"
    by (auto simp: saved_order_def split: json.splits if_splits)
  have "map pane_of xs = map Some is" using xs(2) by (auto simp: xs(4) list_all_iff)
  then have "distinct (map Some is)" using xs(3) by simp
  then have "distinct is" by (simp only: distinct_map)
  then show ?thesis using xs(1,4) by simp
qed

lemma pane_of_name: "pane_of (JStr (pane_name i)) = Some i"
  by (cases i) (simp_all add: pane_of_def pane_name_def PANE_IDS_def)

lemma saved_order_json: "length is = 3 \<Longrightarrow> distinct is \<Longrightarrow> saved_order (JArr (map (\<lambda>i. JStr (pane_name i)) is)) = Some is"
proof -
  assume a: "length is = 3" "distinct is"
  have "map pane_of (map (\<lambda>i. JStr (pane_name i)) is) = map Some is" by (simp add: pane_of_name)
  moreover have "distinct (map Some is)" using a(2) by (simp add: distinct_map)
  ultimately have "distinct (map pane_of (map (\<lambda>i. JStr (pane_name i)) is))" by (simp only:)
  then show ?thesis using a(1) by (simp add: saved_order_def list_all_iff pane_of_name o_def)
qed

lemma restore_saved_pane: "pane_fits p \<Longrightarrow> restore_pane (pane_json p) q = p"
  by (simp add: restore_pane_def pane_json_def field_def truthy_def bool_or_def num_or_def pane_fits_def jm_get_def)

text \<open>whatever the browser had stored, the layout that is read back shows each pane once, with weights between a quarter and
  five and no pane smaller than the least size; and a usable layout that was stored is read back unchanged.\<close>

theorem workspace_restored:
  "workspace_ok (restoreWorkspace raw) \<and> (workspace_ok w \<longrightarrow> restoreWorkspace (workspace_json w) = w)"
proof
  have "length (ws_order defaultWorkspace) = 3" "distinct (ws_order defaultWorkspace)" by (simp_all add: defaultWorkspace_def PANE_IDS_def)
  then show "workspace_ok (restoreWorkspace raw)"
    using saved_order_ok default_fits restore_fits
    by (auto simp: workspace_ok_def restoreWorkspace_def defaultWorkspace_def split: option.splits)
  show "workspace_ok w \<longrightarrow> restoreWorkspace (workspace_json w) = w"
  proof
    assume w: "workspace_ok w"
    have f: "field (workspace_json w) ''order'' = JArr (map (\<lambda>i. JStr (pane_name i)) (ws_order w))"
        "truthy (workspace_json w)"
      by (simp_all add: workspace_json_def field_def jm_get_def truthy_def)
    have p: "opt_field (field (workspace_json w) ''panes'') (pane_name i) = pane_json (ws_panes w i)" for i
      by (cases i) (simp_all add: workspace_json_def field_def jm_get_def opt_field_def nullish_def pane_name_def PANE_IDS_def)
    have "restore_pane (pane_json (ws_panes w i)) (default_pane i) = ws_panes w i" for i
      using w restore_saved_pane by (simp add: workspace_ok_def)
    then show "restoreWorkspace (workspace_json w) = w"
      using w f by (simp add: restoreWorkspace_def p saved_order_json workspace_ok_def)
  qed
qed

lemma workspace_restored_witness:
  "workspace_ok (restoreWorkspace JNull) \<and> restoreWorkspace (workspace_json defaultWorkspace) = defaultWorkspace"
proof -
  have "workspace_ok defaultWorkspace" using default_fits by (simp add: workspace_ok_def defaultWorkspace_def PANE_IDS_def)
  then show ?thesis using workspace_restored [of JNull defaultWorkspace] by simp
qed

lemma place_of_lt: "x \<in> set xs \<Longrightarrow> place_of x xs < length xs \<and> xs ! place_of x xs = x"
  by (induction xs) (auto simp: place_of_def)

text \<open>moving a pane keeps every pane once and puts the moved one where the target was; resizing two neighbours keeps their
  joint weight, gives each at least a fifth of it and leaves the other panes alone.\<close>

theorem panes_rearranged:
  assumes "workspace_ok w" "i \<noteq> j"
  shows "distinct (ws_order (movePane w i j)) \<and> set (ws_order (movePane w i j)) = UNIV
    \<and> ws_order (movePane w i j) ! place_of j (ws_order w) = i
    \<and> pn_weight (ws_panes (resizePair w i j f) i) + pn_weight (ws_panes (resizePair w i j f) j)
        = pn_weight (ws_panes w i) + pn_weight (ws_panes w j)
    \<and> (\<forall>k \<in> {i, j}. (pn_weight (ws_panes w i) + pn_weight (ws_panes w j)) / 5 \<le> pn_weight (ws_panes (resizePair w i j f) k))
    \<and> (\<forall>k. k \<noteq> i \<and> k \<noteq> j \<longrightarrow> ws_panes (resizePair w i j f) k = ws_panes w k)"
proof -
  have o3: "length (ws_order w) = 3" "distinct (ws_order w)" using assms(1) by (simp_all add: workspace_ok_def)
  have "card (set (ws_order w)) = card (UNIV :: pane_id set)" using o3 by (simp add: distinct_card card_UNIV_length_enum enum_pane_id_def)
  then have all: "set (ws_order w) = UNIV" by (intro card_subset_eq) simp_all
  obtain a b c where abc: "ws_order w = [a, b, c]" using o3(1) by (auto simp: length_Suc_conv numeral_3_eq_3)
  have d: "a \<noteq> b" "a \<noteq> c" "b \<noteq> c" using o3(2) abc by auto
  have ij: "i \<in> {a, b, c}" "j \<in> {a, b, c}" using all abc by auto
  have move: "distinct (ws_order (movePane w i j)) \<and> set (ws_order (movePane w i j)) = set (ws_order w)
      \<and> ws_order (movePane w i j) ! place_of j (ws_order w) = i"
    using ij d assms(2) by (auto simp: movePane_def Let_def abc place_of_def splice_in_def splice_out_def)
  define T r where "T = pn_weight (ws_panes w i) + pn_weight (ws_panes w j)" and "r = max (1 / 5) (min (4 / 5) f)"
  have T: "0 \<le> T"
  proof -
    have "0 \<le> pn_weight (ws_panes w k)" for k
    proof -
      have "1 / 4 \<le> pn_weight (ws_panes w k)" using assms(1) by (simp add: workspace_ok_def pane_fits_def)
      then show ?thesis by linarith
    qed
    then show ?thesis by (simp add: T_def)
  qed
  have r: "1 / 5 \<le> r" "r \<le> 4 / 5" by (simp_all add: r_def)
  have w: "pn_weight (ws_panes (resizePair w i j f) i) = T * r" "pn_weight (ws_panes (resizePair w i j f) j) = T * (1 - r)"
    using assms(2) by (simp_all add: resizePair_def Let_def T_def r_def)
  have "1 / 5 \<le> 1 - r" using r(2) by linarith
  then have "T * (1 / 5) \<le> T * r" "T * (1 / 5) \<le> T * (1 - r)" using T r(1) by (rule_tac [!] mult_left_mono)
  then show ?thesis
    using move all w assms(2) by (auto simp: T_def [symmetric] algebra_simps resizePair_def Let_def)
qed

lemma panes_rearranged_witness:
  "ws_order (movePane defaultWorkspace PVideo PAnalysis) ! place_of PAnalysis (ws_order defaultWorkspace) = PVideo"
proof -
  have "workspace_ok defaultWorkspace" using default_fits by (simp add: workspace_ok_def defaultWorkspace_def PANE_IDS_def)
  then show ?thesis using panes_rearranged [of defaultWorkspace PVideo PAnalysis 0] by simp
qed

text \<open>Three moves of the separators make a pane thinner than a stored layout may have it, so that it grows back on reload.\<close>

lemma thin_pane_grows_back:
  defines "w \<equiv> resizePair (resizePair (resizePair defaultWorkspace PTrack PVideo 1) PAnalysis PTrack 0) PAnalysis PVideo 0"
  shows "pn_weight (ws_panes w PAnalysis) < 1 / 4 \<and> pn_weight (ws_panes (restoreWorkspace (workspace_json w)) PAnalysis) = 1 / 4"
  by (simp add: w_def resizePair_def defaultWorkspace_def default_pane_def restoreWorkspace_def workspace_json_def truthy_def field_def
      jm_get_def opt_field_def nullish_def pane_name_def PANE_IDS_def restore_pane_def pane_json_def num_or_def Let_def)

end
