(* ===== verification/LiveLookup.thy ===== *)
theory LiveLookup
  imports MotecLive
begin

text \<open>
  What the live page reads out of a sample, \<^verbatim>\<open>viewer_tool/src/app/trackside-live/TracksideApp.tsx\<close>: the lookups that
  tolerate the spelling of a key, the pack's voltages, currents and temperatures, the energy counters of the car, and the
  smoothing of the feed.

  The values of a sample are finite numbers. The functions of \<^verbatim>\<open>Math\<close> that leave the rationals are a parameter.
\<close>

subsection \<open>Looking a value up\<close>

record js_math =
  m_sin :: "rat \<Rightarrow> rat"
  m_cos :: "rat \<Rightarrow> rat"
  m_sqrt :: "rat \<Rightarrow> rat"
  m_atan2 :: "rat \<Rightarrow> rat \<Rightarrow> rat"
  m_exp :: "rat \<Rightarrow> rat"
  m_PI :: rat

fun first_some :: "('a \<Rightarrow> 'b option) \<Rightarrow> 'a list \<Rightarrow> 'b option" where
  "first_some f [] = None"
| "first_some f (x # xs) = (case f x of Some y \<Rightarrow> Some y | None \<Rightarrow> first_some f xs)"

definition or_else :: "'a option \<Rightarrow> 'a option \<Rightarrow> 'a option" where
  "or_else x y = (case x of Some v \<Rightarrow> Some v | None \<Rightarrow> y)"

definition keep_if :: "('a \<Rightarrow> bool) \<Rightarrow> 'a option \<Rightarrow> 'a option" where
  "keep_if P x = (case x of Some v \<Rightarrow> if P v then Some v else None | None \<Rightarrow> None)"

type_synonym live_values = "(string, rat) jsmap"

definition normalizeLiveKey :: "string \<Rightarrow> string" where
  "normalizeLiveKey k = filter (\<lambda>c. is_lower c \<or> is_digit c) (lower k)"

definition index_step :: "live_values \<Rightarrow> string \<times> rat \<Rightarrow> live_values" where
  "index_step m kv = (let n = normalizeLiveKey (fst kv) in if jm_has m n then m else jm_set n (snd kv) m)"

definition liveValueIndex :: "live_values \<Rightarrow> live_values" where
  "liveValueIndex vs = foldl index_step [] vs"

definition firstLiveValue :: "live_values \<Rightarrow> string list \<Rightarrow> rat option" where
  "firstLiveValue vs keys =
     or_else (first_some (jm_get vs) keys) (first_some (\<lambda>k. jm_get (liveValueIndex vs) (normalizeLiveKey k)) keys)"

definition firstValidLiveValue :: "live_values \<Rightarrow> string list \<Rightarrow> (rat \<Rightarrow> bool) \<Rightarrow> rat option" where
  "firstValidLiveValue vs keys ok =
     or_else (first_some (\<lambda>k. keep_if ok (jm_get vs k)) keys)
             (first_some (\<lambda>k. keep_if ok (jm_get (liveValueIndex vs) (normalizeLiveKey k))) keys)"

definition validDcBusVoltage :: "rat \<Rightarrow> bool" where
  "validDcBusVoltage v \<longleftrightarrow> 100 \<le> v \<and> v \<le> 700"

definition validDcBusCurrent :: "rat \<Rightarrow> bool" where
  "validDcBusCurrent v \<longleftrightarrow> - 600 \<le> v \<and> v \<le> 600"

definition validCellVoltage :: "rat \<Rightarrow> bool" where
  "validCellVoltage v \<longleftrightarrow> 3 / 2 \<le> v \<and> v \<le> 9 / 2"

fun consider_currents :: "bool \<Rightarrow> rat option list \<Rightarrow> rat option" where
  "consider_currents sawZero [] = (if sawZero then Some 0 else None)"
| "consider_currents sawZero (v # vs) = (case keep_if validDcBusCurrent v of
       None \<Rightarrow> consider_currents sawZero vs
     | Some x \<Rightarrow> if x \<noteq> 0 then Some x else consider_currents True vs)"

definition liveCurrentFor :: "live_values \<Rightarrow> string list \<Rightarrow> rat option" where
  "liveCurrentFor vs keys =
     consider_currents False (map (jm_get vs) keys @ map (\<lambda>k. jm_get (liveValueIndex vs) (normalizeLiveKey k)) keys)"

definition sample_values :: "live_sample option \<Rightarrow> live_values" where
  "sample_values s = (case s of Some x \<Rightarrow> ls_values x | None \<Rightarrow> [])"

definition of_sample :: "(live_sample \<Rightarrow> rat option) \<Rightarrow> live_sample option \<Rightarrow> rat option" where
  "of_sample f s = (case s of Some x \<Rightarrow> f x | None \<Rightarrow> None)"

subsection \<open>Pack voltage and current\<close>

definition measuredPackVoltageFor :: "live_sample option \<Rightarrow> rat option" where
  "measuredPackVoltageFor s =
     or_else (firstValidLiveValue (sample_values s) [''hv_pack_v'', ''dc_bus_v'', ''bus_voltage'', ''pack_hv_pack_v'', ''pack_dc_bus_v'']
                validDcBusVoltage)
             (keep_if validDcBusVoltage (of_sample ls_hv_v s))"

definition packVoltageFor :: "live_sample option \<Rightarrow> rat option" where
  "packVoltageFor s = or_else (measuredPackVoltageFor s) (firstLiveValue (sample_values s) [''cell_pack_voltage_est''])"

datatype voltage_source = Measured | Cell_est | Missing

definition packVoltageSourceFor :: "live_sample option \<Rightarrow> voltage_source" where
  "packVoltageSourceFor s =
     (if measuredPackVoltageFor s \<noteq> None then Measured
      else if firstLiveValue (sample_values s) [''cell_pack_voltage_est''] = None then Missing else Cell_est)"

definition dcBusVoltageFor :: "live_sample option \<Rightarrow> rat option" where
  "dcBusVoltageFor s = firstValidLiveValue (sample_values s)
     [''dc_bus_v'', ''pack_dc_bus_v'', ''bus_voltage'', ''pack_bus_voltage'', ''inverter_dc_bus_v'', ''inverter_dc_bus_voltage'',
      ''inverter_dc_bus_voltage_v''] validDcBusVoltage"

definition dcBusCurrentFor :: "live_sample option \<Rightarrow> rat option" where
  "dcBusCurrentFor s = liveCurrentFor (sample_values s)
     [''dc_bus_current'', ''pack_dc_bus_current'', ''inverter_dc_bus_current'', ''inverter_dc_bus_current_a'', ''inverter_dc_bus_c'',
      ''hv_c'', ''pack_hv_c'']"

definition packCurrentFor :: "live_sample option \<Rightarrow> rat option" where
  "packCurrentFor s =
     or_else (liveCurrentFor (sample_values s)
                [''dc_bus_current'', ''hv_c'', ''pack_dc_bus_current'', ''pack_hv_c'', ''inverter_dc_bus_current'',
                 ''inverter_dc_bus_current_a'', ''inverter_dc_bus_c''])
             (keep_if validDcBusCurrent (of_sample ls_hv_c s))"

definition cellPackVoltageEstimateFor :: "live_sample option \<Rightarrow> rat option" where
  "cellPackVoltageEstimateFor s = keep_if validDcBusVoltage (firstLiveValue (sample_values s) [''cell_pack_voltage_est''])"

definition energyVoltageFor :: "live_sample option \<Rightarrow> rat option" where
  "energyVoltageFor s = or_else (dcBusVoltageFor s) (cellPackVoltageEstimateFor s)"

definition motorSpeedRpmFor :: "live_sample option \<Rightarrow> rat option" where
  "motorSpeedRpmFor s = firstLiveValue (sample_values s)
     [''controls_motor_speed'', ''motor_speed'', ''dynamics_inverter_rpm'', ''inverter_rpm'']"

definition torqueFeedbackNmFor :: "live_sample option \<Rightarrow> rat option" where
  "torqueFeedbackNmFor s = firstLiveValue (sample_values s)
     [''torque_feedback'', ''controls_torque_feedback'', ''inverter_torque_feedback'', ''inverter_feedback_torque'',
      ''feedback_torque'', ''actual_torque'', ''motor_torque'', ''dynamics_inverter_torque'', ''inverter_torque'',
      ''commanded_torque'', ''controls_commanded_torque'', ''torque_request'', ''controls_torque_request'']"

subsection \<open>Cells\<close>

definition cell_voltages :: "live_values \<Rightarrow> rat list" where
  "cell_voltages vs = filter validCellVoltage
     (map snd (filter (\<lambda>(k, v). str_includes ''cells_v'' k \<or> str_includes ''cell_voltage'' k) vs))"

definition minCellVoltageFor :: "live_sample option \<Rightarrow> rat option" where
  "minCellVoltageFor s = (case s of
       None \<Rightarrow> None
     | Some x \<Rightarrow> or_else (keep_if validCellVoltage (firstLiveValue (ls_values x)
           [''min_cell_voltage'', ''thermal_min_cell_voltage'', ''pack_min_cell_voltage'', ''min_cell_v'', ''pack_min_cell_v'']))
         (if cell_voltages (ls_values x) = [] then None else Some (Min (set (cell_voltages (ls_values x))))))"

definition maxCellVoltageFor :: "live_sample option \<Rightarrow> rat option" where
  "maxCellVoltageFor s = (case s of
       None \<Rightarrow> None
     | Some x \<Rightarrow> or_else (keep_if validCellVoltage (firstLiveValue (ls_values x)
           [''max_cell_voltage'', ''thermal_max_cell_voltage'', ''pack_max_cell_voltage'', ''max_cell_v'', ''pack_max_cell_v'']))
         (if cell_voltages (ls_values x) = [] then None else Some (Max (set (cell_voltages (ls_values x))))))"

definition validTemp :: "rat \<Rightarrow> bool" where
  "validTemp v \<longleftrightarrow> - 40 \<le> v \<and> v \<le> 180"

definition temp_candidates :: "live_values \<Rightarrow> rat list" where
  "temp_candidates vs = filter (\<lambda>t. t > 0) (List.map_filter (\<lambda>ks. keep_if validTemp (firstLiveValue vs ks))
     [[''max_cell_temp''], [''cell_top_temp'', ''thermal_cell_top_temp''], [''cell_bottom_temp'', ''thermal_cell_bottom_temp'']])"

definition maxCellTempFor :: "live_sample option \<Rightarrow> rat option" where
  "maxCellTempFor s = (case s of
       None \<Rightarrow> None
     | Some x \<Rightarrow>
         let arr = filter (\<lambda>t. t > 0) (case ls_cells x of Some ts \<Rightarrow> ts | None \<Rightarrow> []) in
         if arr \<noteq> [] then Some (Max (set arr))
         else if temp_candidates (ls_values x) \<noteq> [] then Some (Max (set (temp_candidates (ls_values x)))) else None)"

definition max_temp_step :: "rat option \<Rightarrow> live_sample \<Rightarrow> rat option" where
  "max_temp_step m s = (case maxCellTempFor (Some s) of
       None \<Rightarrow> m
     | Some t \<Rightarrow> (case m of None \<Rightarrow> Some t | Some u \<Rightarrow> if t > u then Some t else Some u))"

definition lapMaxCellTempC :: "live_sample list \<Rightarrow> rat option" where
  "lapMaxCellTempC ss = foldl max_temp_step None ss"

definition soe_step :: "rat \<Rightarrow> rat" where
  "soe_step v = clamp_rat 0 100 (if v > 1 then v else v * 100)"

definition carSoePercentFor :: "live_sample option \<Rightarrow> rat option" where
  "carSoePercentFor s = map_option soe_step
     (first_some (\<lambda>k. keep_if (\<lambda>v. v > 0) (jm_get (sample_values s) k)) [''soc_estimate'', ''pack_soc_estimate'', ''hv_soc'', ''pack_hv_soc''])"

subsection \<open>Energy counters\<close>

definition vcuEnergyDeltaWh :: "live_sample option \<Rightarrow> live_sample \<Rightarrow> rat \<times> rat" where
  "vcuEnergyDeltaWh prev s = (case prev of
       None \<Rightarrow> (0, 0)
     | Some p \<Rightarrow>
         (case (jm_get (ls_values p) ''net_energy'', jm_get (ls_values p) ''regen_energy'',
                jm_get (ls_values s) ''net_energy'', jm_get (ls_values s) ''regen_energy'') of
            (Some pn, Some pr, Some cn, Some cr) \<Rightarrow> (max 0 ((cn - pn) + (cr - pr)), max 0 (cr - pr))
          | _ \<Rightarrow> (0, 0)))"

definition seconds_between :: "live_sample \<Rightarrow> live_sample \<Rightarrow> rat" where
  "seconds_between p s = (rat_of_int (ls_t s) - rat_of_int (ls_t p)) / 1000"

definition signedVcuPowerKwFor :: "live_sample option \<Rightarrow> live_sample option \<Rightarrow> rat option" where
  "signedVcuPowerKwFor prev cur = (case (prev, cur) of
       (Some p, Some s) \<Rightarrow>
         let dt = seconds_between p s; (out, inn) = vcuEnergyDeltaWh prev s in
         if dt \<le> 0 \<or> (out = 0 \<and> inn = 0) then None else Some ((out - inn) * (36 / 10) / dt)
     | _ \<Rightarrow> None)"

record trace_point_live =
  tp_t :: int
  tp_net :: rat
  tp_out :: rat
  tp_in :: rat

fun energy_points :: "rat \<Rightarrow> rat \<Rightarrow> live_sample \<Rightarrow> live_sample list \<Rightarrow> trace_point_live list" where
  "energy_points eo ei p [] = []"
| "energy_points eo ei p (s # ss) =
     (let (o1, i1) = vcuEnergyDeltaWh (Some p) s
      in \<lparr>tp_t = ls_t s, tp_net = (eo + o1) - (ei + i1), tp_out = eo + o1, tp_in = ei + i1\<rparr> # energy_points (eo + o1) (ei + i1) s ss)"

definition window_of :: "live_sample list \<Rightarrow> rat \<Rightarrow> live_sample list" where
  "window_of ss windowS =
     (if ss = [] \<or> ls_t (last ss) = 0 then []
      else filter (\<lambda>s. rat_of_int (ls_t s) \<ge> rat_of_int (ls_t (last ss)) - windowS * 1000) ss)"

definition energyTrace :: "live_sample list \<Rightarrow> rat \<Rightarrow> trace_point_live list" where
  "energyTrace ss windowS = (case window_of ss windowS of
       [] \<Rightarrow> []
     | s # rest \<Rightarrow> \<lparr>tp_t = ls_t s, tp_net = 0, tp_out = 0, tp_in = 0\<rparr> # energy_points 0 0 s rest)"

subsection \<open>Position\<close>

definition hasGps :: "live_sample \<Rightarrow> bool" where
  "hasGps s = (case (ls_lat s, ls_lon s) of (Some a, Some b) \<Rightarrow> \<not> (a = 0 \<and> b = 0) | _ \<Rightarrow> False)"

text \<open>\<^verbatim>\<open>Math.hypot(lat, lon) > 0.001\<close> is compared by squares.\<close>

definition isReasonableGps :: "rat \<Rightarrow> rat \<Rightarrow> bool" where
  "isReasonableGps lat lon \<longleftrightarrow> \<bar>lat\<bar> \<le> 90 \<and> \<bar>lon\<bar> \<le> 180 \<and> lat * lat + lon * lon > (1 / 1000) * (1 / 1000)"

definition distanceMeters :: "js_math \<Rightarrow> rat \<Rightarrow> rat \<Rightarrow> rat \<Rightarrow> rat \<Rightarrow> rat" where
  "distanceMeters M lat1 lon1 lat2 lon2 =
     (let radius = 6371000; phi1 = (lat1 * m_PI M) / 180; phi2 = (lat2 * m_PI M) / 180;
          dPhi = ((lat2 - lat1) * m_PI M) / 180; dLambda = ((lon2 - lon1) * m_PI M) / 180;
          a = m_sin M (dPhi / 2) ^ 2 + m_cos M phi1 * m_cos M phi2 * m_sin M (dLambda / 2) ^ 2
      in radius * 2 * m_atan2 M (m_sqrt M a) (m_sqrt M (1 - a)))"

definition gps_distance :: "js_math \<Rightarrow> live_sample \<Rightarrow> live_sample \<Rightarrow> rat" where
  "gps_distance M p s = distanceMeters M (the (ls_lat p)) (the (ls_lon p)) (the (ls_lat s)) (the (ls_lon s))"

subsection \<open>Smoothing\<close>

definition alphaForDt :: "js_math \<Rightarrow> rat \<Rightarrow> rat \<Rightarrow> rat" where
  "alphaForDt M dt tau = clamp_rat (2 / 100) (45 / 100) (1 - m_exp M (- max (1 / 1000) dt / max (1 / 1000) tau))"

definition smoothNumber :: "js_math \<Rightarrow> rat option \<Rightarrow> rat option \<Rightarrow> rat \<Rightarrow> rat \<Rightarrow> rat option" where
  "smoothNumber M v prev dt tau = (case v of
       None \<Rightarrow> prev
     | Some x \<Rightarrow> (case prev of None \<Rightarrow> Some x | Some p \<Rightarrow> Some (p + (x - p) * alphaForDt M dt tau)))"

definition smoothPresentNumber :: "js_math \<Rightarrow> rat option \<Rightarrow> rat option \<Rightarrow> rat \<Rightarrow> rat \<Rightarrow> rat option" where
  "smoothPresentNumber M v prev dt tau = (if v = None then None else smoothNumber M v prev dt tau)"

definition sample_speed :: "live_sample \<Rightarrow> rat option" where
  "sample_speed s = or_else (ls_speed s) (jm_get (ls_values s) ''speed'')"

definition set_values :: "string list \<Rightarrow> rat \<Rightarrow> live_values \<Rightarrow> live_values" where
  "set_values ks v vs = fold (\<lambda>k. jm_set k v) ks vs"

definition smooth_voltage :: "rat option \<Rightarrow> live_sample \<Rightarrow> live_sample" where
  "smooth_voltage v s = (case v of None \<Rightarrow> s
     | Some x \<Rightarrow> s\<lparr>ls_hv_v := Some x, ls_values := set_values [''hv_pack_v'', ''dc_bus_v''] x (ls_values s)\<rparr>)"

definition smooth_current :: "rat option \<Rightarrow> live_sample \<Rightarrow> live_sample" where
  "smooth_current v s = (case v of None \<Rightarrow> s
     | Some x \<Rightarrow> s\<lparr>ls_hv_c := Some x, ls_values := set_values [''hv_c'', ''dc_bus_current''] x (ls_values s)\<rparr>)"

definition smooth_speed :: "rat option \<Rightarrow> live_sample \<Rightarrow> live_sample" where
  "smooth_speed v s = (case v of None \<Rightarrow> s
     | Some x \<Rightarrow> s\<lparr>ls_speed := Some x, ls_values := set_values [''speed''] x (ls_values s)\<rparr>)"

definition smooth_gps :: "js_math \<Rightarrow> live_sample \<Rightarrow> live_sample option \<Rightarrow> rat \<Rightarrow> rat option \<times> rat option" where
  "smooth_gps M s prev dt =
     (if hasGps s \<and> isReasonableGps (the (ls_lat s)) (the (ls_lon s))
      then (case prev of
              None \<Rightarrow> (ls_lat s, ls_lon s)
            | Some p \<Rightarrow>
                if \<not> hasGps p then (ls_lat s, ls_lon s)
                else if gps_distance M p s / dt > 85 then (ls_lat p, ls_lon p)
                else let al = alphaForDt M dt (65 / 100) in
                  (Some (the (ls_lat p) + (the (ls_lat s) - the (ls_lat p)) * al),
                   Some (the (ls_lon p) + (the (ls_lon s) - the (ls_lon p)) * al)))
      else (None, None))"

definition smooth_dt :: "live_sample \<Rightarrow> live_sample option \<Rightarrow> rat" where
  "smooth_dt s prev = (case prev of Some p \<Rightarrow> max (2 / 100) (seconds_between p s) | None \<Rightarrow> 1 / 10)"

definition smoothLiveSample :: "js_math \<Rightarrow> live_sample \<Rightarrow> live_sample option \<Rightarrow> live_sample" where
  "smoothLiveSample M s prev =
     (let dt = smooth_dt s prev;
          v = smoothPresentNumber M (measuredPackVoltageFor (Some s)) (packVoltageFor prev) dt (35 / 10);
          c = smoothPresentNumber M (packCurrentFor (Some s)) (packCurrentFor prev) dt (11 / 10);
          w = smoothPresentNumber M (sample_speed s) (of_sample sample_speed prev) dt (8 / 10);
          (lat, lon) = smooth_gps M s prev dt
      in (smooth_speed w (smooth_current c (smooth_voltage v s)))\<lparr>ls_lat := lat, ls_lon := lon\<rparr>)"

fun smooth_from :: "js_math \<Rightarrow> live_sample option \<Rightarrow> live_sample list \<Rightarrow> live_sample list" where
  "smooth_from M prev [] = []"
| "smooth_from M prev (s # ss) = (let x = smoothLiveSample M s prev in x # smooth_from M (Some x) ss)"

definition smoothLiveSamples :: "js_math \<Rightarrow> live_sample list \<Rightarrow> live_sample list" where
  "smoothLiveSamples M ss = smooth_from M None ss"

subsection \<open>A lookup finds a value under any spelling\<close>

definition first_spelled :: "live_values \<Rightarrow> string \<Rightarrow> rat option" where
  "first_spelled vs n = map_option snd (List.find (\<lambda>(k, v). normalizeLiveKey k = n) vs)"

lemma index_step_get: "jm_get (index_step m kv) n = or_else (jm_get m n) (if normalizeLiveKey (fst kv) = n then Some (snd kv) else None)"
  by (auto simp: index_step_def or_else_def jm_has_iff jm_get_set Let_def split: option.splits)

lemma or_else_assoc: "or_else (or_else x y) z = or_else x (or_else y z)"
  by (simp add: or_else_def split: option.splits)

lemma first_spelled_Cons: "first_spelled (kv # vs) n = or_else (if normalizeLiveKey (fst kv) = n then Some (snd kv) else None) (first_spelled vs n)"
  by (simp add: first_spelled_def or_else_def case_prod_beta)

lemma index_from: "jm_get (foldl index_step m vs) n = or_else (jm_get m n) (first_spelled vs n)"
proof (induction vs arbitrary: m)
  case Nil
  then show ?case by (simp add: first_spelled_def or_else_def split: option.splits)
next
  case (Cons kv vs)
  then show ?case by (simp add: index_step_get first_spelled_Cons or_else_assoc)
qed

lemma index_get: "jm_get (liveValueIndex vs) n = first_spelled vs n"
  using index_from [of "[]" vs n] by (simp add: liveValueIndex_def or_else_def jm_get_def)

lemma first_some_None: "first_some f xs = None \<longleftrightarrow> (\<forall>x \<in> set xs. f x = None)"
  by (induction xs) (auto split: option.splits)

lemma first_some_Some: "first_some f xs = Some y \<Longrightarrow> \<exists>x \<in> set xs. f x = Some y"
  by (induction xs) (auto split: option.splits)

lemma or_else_None [simp]: "or_else x y = None \<longleftrightarrow> x = None \<and> y = None"
  by (cases x) (simp_all add: or_else_def)

lemma or_else_SomeD: "or_else x y = Some v \<Longrightarrow> x = Some v \<or> y = Some v"
  by (cases x) (simp_all add: or_else_def)

lemma keep_if_Some [simp]: "keep_if P x = Some v \<longleftrightarrow> x = Some v \<and> P v"
  by (cases x) (auto simp: keep_if_def)

lemma keep_if_None: "keep_if P x = None \<longleftrightarrow> (\<forall>v. x = Some v \<longrightarrow> \<not> P v)"
  by (cases x) (auto simp: keep_if_def)

lemma first_spelled_None: "first_spelled vs n = None \<longleftrightarrow> (\<forall>k \<in> set (map fst vs). normalizeLiveKey k \<noteq> n)"
  by (auto simp: first_spelled_def find_None_iff)

lemma first_spelled_in: "first_spelled vs n = Some v \<Longrightarrow> \<exists>k. (k, v) \<in> set vs \<and> normalizeLiveKey k = n"
  by (auto simp: first_spelled_def find_Some_iff) (metis nth_mem prod.collapse case_prod_beta)

text \<open>the value that is found belongs to a key that is one of the wanted ones but for case and separators, and none is
  found exactly when the sample has no such key; when the sample has one value for a wanted key, that value is found.\<close>

theorem lookup_any_spelling:
  "(firstLiveValue vs keys = Some v \<longrightarrow> (\<exists>k q. (q, v) \<in> set vs \<and> k \<in> set keys \<and> normalizeLiveKey q = normalizeLiveKey k))
    \<and> (firstLiveValue vs keys = None \<longleftrightarrow> (\<forall>k \<in> set keys. \<forall>q \<in> set (map fst vs). normalizeLiveKey q \<noteq> normalizeLiveKey k))"
proof -
  have hit: "\<exists>k q. (q, v) \<in> set vs \<and> k \<in> set keys \<and> normalizeLiveKey q = normalizeLiveKey k" if f: "firstLiveValue vs keys = Some v"
    using or_else_SomeD [OF f [unfolded firstLiveValue_def]]
  proof
    assume "first_some (jm_get vs) keys = Some v"
    then show ?thesis using jm_get_in_set by (fastforce dest!: first_some_Some)
  next
    assume "first_some (\<lambda>k. jm_get (liveValueIndex vs) (normalizeLiveKey k)) keys = Some v"
    then obtain k where "k \<in> set keys" "first_spelled vs (normalizeLiveKey k) = Some v"
      by (auto simp: index_get dest!: first_some_Some)
    then show ?thesis using first_spelled_in by blast
  qed
  have direct: "first_spelled vs (normalizeLiveKey k) \<noteq> None" if "jm_get vs k = Some w" for k w
    using jm_get_in_set [OF that] unfolding first_spelled_None by (metis image_eqI set_map fst_conv)
  then have "firstLiveValue vs keys = None \<longleftrightarrow> (\<forall>k \<in> set keys. first_spelled vs (normalizeLiveKey k) = None)"
    unfolding firstLiveValue_def or_else_None first_some_None index_get by (meson not_None_eq)
  then show ?thesis using hit by (auto simp: first_spelled_None)
qed

lemma consider_currents_Some:
  "consider_currents z vs = Some x \<Longrightarrow> (x \<noteq> 0 \<and> Some x \<in> set vs \<and> validDcBusCurrent x)
     \<or> (x = 0 \<and> (z \<or> Some 0 \<in> set vs) \<and> (\<forall>y. Some y \<in> set vs \<and> validDcBusCurrent y \<longrightarrow> y = 0))"
proof (induction z vs rule: consider_currents.induct)
  case (2 z v vs)
  then show ?case
    by (cases v; cases "validDcBusCurrent (the v)") (auto simp: keep_if_def split: if_splits)
qed (auto split: if_splits)

lemma consider_currents_None:
  "consider_currents z vs = None \<longleftrightarrow> \<not> z \<and> (\<forall>y. Some y \<in> set vs \<longrightarrow> \<not> validDcBusCurrent y)"
proof (induction z vs rule: consider_currents.induct)
  case (2 z v vs)
  then show ?case
    by (cases v; cases "validDcBusCurrent (the v)") (auto simp: keep_if_def split: if_splits)
qed simp

definition readings :: "live_values \<Rightarrow> string list \<Rightarrow> rat set" where
  "readings vs keys = {x. validDcBusCurrent x \<and> (\<exists>k \<in> set keys. jm_get vs k = Some x \<or> first_spelled vs (normalizeLiveKey k) = Some x)}"

text \<open>a current channel that is stuck at zero never hides one that carries a current: zero is shown only when every valid
  reading is zero, and nothing only when there is no valid reading.\<close>

theorem current_not_shadowed:
  "(liveCurrentFor vs keys = None \<longleftrightarrow> readings vs keys = {})
    \<and> (liveCurrentFor vs keys = Some 0 \<longleftrightarrow> readings vs keys = {0})
    \<and> (liveCurrentFor vs keys = Some x \<longrightarrow> x \<in> readings vs keys)"
proof -
  let ?l = "map (jm_get vs) keys @ map (\<lambda>k. jm_get (liveValueIndex vs) (normalizeLiveKey k)) keys"
  have mem: "Some y \<in> set ?l \<and> validDcBusCurrent y \<longleftrightarrow> y \<in> readings vs keys" for y
    by (auto simp: readings_def index_get image_iff) metis+
  have none: "liveCurrentFor vs keys = None \<longleftrightarrow> readings vs keys = {}"
    unfolding liveCurrentFor_def consider_currents_None using mem by auto
  have some: "(y \<noteq> 0 \<and> y \<in> readings vs keys) \<or> (y = 0 \<and> readings vs keys = {0})" if l: "liveCurrentFor vs keys = Some y" for y
    using consider_currents_Some [OF l [unfolded liveCurrentFor_def]]
  proof
    assume "y = 0 \<and> (False \<or> Some 0 \<in> set ?l) \<and> (\<forall>w. Some w \<in> set ?l \<and> validDcBusCurrent w \<longrightarrow> w = 0)"
    then have y: "y = 0" and z: "Some 0 \<in> set ?l" and all: "\<forall>w. Some w \<in> set ?l \<and> validDcBusCurrent w \<longrightarrow> w = 0" by blast+
    have "validDcBusCurrent 0" by (simp add: validDcBusCurrent_def)
    then have "0 \<in> readings vs keys" using z mem by blast
    then have "readings vs keys = {0}" using all mem by blast
    then show ?thesis using y by simp
  qed (use mem in blast)
  have "liveCurrentFor vs keys = Some 0" if r: "readings vs keys = {0}"
  proof -
    obtain y where y: "liveCurrentFor vs keys = Some y" using none r by auto
    then show ?thesis using some [OF y] r by auto
  qed
  then show ?thesis using none some by blast
qed

subsection \<open>The energy of a window\<close>

definition drive_counter :: "live_sample \<Rightarrow> rat" where
  "drive_counter s = the (jm_get (ls_values s) ''net_energy'') + the (jm_get (ls_values s) ''regen_energy'')"

definition regen_counter :: "live_sample \<Rightarrow> rat" where
  "regen_counter s = the (jm_get (ls_values s) ''regen_energy'')"

definition has_counters :: "live_sample \<Rightarrow> bool" where
  "has_counters s \<longleftrightarrow> jm_get (ls_values s) ''net_energy'' \<noteq> None \<and> jm_get (ls_values s) ''regen_energy'' \<noteq> None"

lemma delta_counters: "has_counters p \<Longrightarrow> has_counters s \<Longrightarrow>
    vcuEnergyDeltaWh (Some p) s = (max 0 (drive_counter s - drive_counter p), max 0 (regen_counter s - regen_counter p))"
  by (auto simp: vcuEnergyDeltaWh_def has_counters_def drive_counter_def regen_counter_def algebra_simps)

lemma delta_nonneg: "0 \<le> fst (vcuEnergyDeltaWh p s)" "0 \<le> snd (vcuEnergyDeltaWh p s)"
  by (auto simp: vcuEnergyDeltaWh_def split: option.splits)

lemma energy_points_step: "energy_points a b p (s # ss) =
    (let d = vcuEnergyDeltaWh (Some p) s in
     \<lparr>tp_t = ls_t s, tp_net = (a + fst d) - (b + snd d), tp_out = a + fst d, tp_in = b + snd d\<rparr>
       # energy_points (a + fst d) (b + snd d) s ss)"
  by (simp add: case_prod_beta Let_def)

declare energy_points.simps(2) [simp del]

lemma energy_points_mono: "sorted (a # map tp_out (energy_points a b p ss)) \<and> sorted (b # map tp_in (energy_points a b p ss))"
proof (induction ss arbitrary: a b p)
  case (Cons s ss)
  define x y where xy: "x = fst (vcuEnergyDeltaWh (Some p) s)" "y = snd (vcuEnergyDeltaWh (Some p) s)"
  have "0 \<le> x" "0 \<le> y" using delta_nonneg [of "Some p" s] by (simp_all add: xy)
  then show ?case using Cons.IH [of "a + x" "b + y" s] unfolding energy_points_step Let_def xy [symmetric]
    by (auto intro: order_trans [rotated])
qed simp

lemma energy_points_count:
  assumes "\<forall>x \<in> set (p # ss). has_counters x" "sorted (map drive_counter (p # ss))" "sorted (map regen_counter (p # ss))" "ss \<noteq> []"
  shows "let z = last (energy_points a b p ss); l = last ss in
     tp_out z = a + (drive_counter l - drive_counter p) \<and> tp_in z = b + (regen_counter l - regen_counter p) \<and> tp_net z = tp_out z - tp_in z"
  using assms
proof (induction ss arbitrary: a b p)
  case (Cons s ss)
  have d: "vcuEnergyDeltaWh (Some p) s = (drive_counter s - drive_counter p, regen_counter s - regen_counter p)"
    using Cons.prems by (simp add: delta_counters)
  show ?case
  proof (cases "ss = []")
    case False
    then have "energy_points a' b' s ss \<noteq> []" for a' b' by (cases ss) (simp_all add: energy_points_step Let_def)
    then show ?thesis
      using Cons.IH [of s "a + (drive_counter s - drive_counter p)" "b + (regen_counter s - regen_counter p)"] Cons.prems False
      by (simp add: energy_points_step d Let_def)
  qed (simp add: energy_points_step d)
qed simp

text \<open>the energy that is drawn over a window never falls, whatever the car reports; and when every sample of the window
  has the car's counters and they only count up, its last point is exactly what the car counted from the first sample to the
  last.\<close>

theorem energyTrace_counts:
  assumes "window_of ss w = p # q # rest"
  shows "sorted (map tp_out (energyTrace ss w)) \<and> sorted (map tp_in (energyTrace ss w))
    \<and> ((\<forall>x \<in> set (p # q # rest). has_counters x) \<and> sorted (map drive_counter (p # q # rest)) \<and> sorted (map regen_counter (p # q # rest))
        \<longrightarrow> tp_out (last (energyTrace ss w)) = drive_counter (last (q # rest)) - drive_counter p
          \<and> tp_in (last (energyTrace ss w)) = regen_counter (last (q # rest)) - regen_counter p
          \<and> tp_net (last (energyTrace ss w)) = tp_out (last (energyTrace ss w)) - tp_in (last (energyTrace ss w)))"
proof -
  have e: "energyTrace ss w = \<lparr>tp_t = ls_t p, tp_net = 0, tp_out = 0, tp_in = 0\<rparr> # energy_points 0 0 p (q # rest)"
    by (simp only: energyTrace_def assms list.case)
  have ne: "energy_points 0 0 p (q # rest) \<noteq> []" by (simp add: energy_points_step Let_def)
  have l: "last (energyTrace ss w) = last (energy_points 0 0 p (q # rest))" unfolding e by (simp only: last_ConsR [OF ne])
  have "sorted (map tp_out (energyTrace ss w))" "sorted (map tp_in (energyTrace ss w))"
    unfolding e list.map trace_point_live.simps using energy_points_mono [of 0 0 p "q # rest"] by blast+
  then show ?thesis
    unfolding l using energy_points_count [of p "q # rest" 0 0] by (simp only: Let_def list.distinct add_0) blast
qed

definition counted :: "int \<Rightarrow> rat \<Rightarrow> rat \<Rightarrow> live_sample" where
  "counted t n r = \<lparr>ls_t = t, ls_source = [], ls_lat = None, ls_lon = None, ls_speed = None, ls_hv_v = None, ls_hv_c = None,
     ls_power = None, ls_values = [(''net_energy'', n), (''regen_energy'', r)], ls_cells = None\<rparr>"

lemma energyTrace_counts_witness:
  "tp_net (last (energyTrace [counted 1000 10 1, counted 2000 14 2, counted 3000 13 4] 60)) = 3"
proof -
  let ?ss = "[counted 1000 10 1, counted 2000 14 2, counted 3000 13 4]"
  have w: "window_of ?ss 60 = ?ss" by (simp add: window_of_def counted_def)
  show ?thesis using energyTrace_counts [OF w]
    by (simp add: counted_def has_counters_def drive_counter_def regen_counter_def jm_get_def)
qed

text \<open>one sample without the counters loses the energy of the two steps around it.\<close>

lemma gap_loses_energy:
  "tp_net (last (energyTrace [counted 1000 10 0, (counted 2000 14 0)\<lparr>ls_values := []\<rparr>, counted 3000 20 0] 60)) = 0"
  by (simp add: energyTrace_def window_of_def energy_points_step counted_def vcuEnergyDeltaWh_def jm_get_def Let_def)

subsection \<open>The smoothed feed stays in the range of the feed\<close>

definition in_range :: "rat \<Rightarrow> rat \<Rightarrow> rat option \<Rightarrow> bool" where
  "in_range lo hi x \<longleftrightarrow> (\<forall>v. x = Some v \<longrightarrow> lo \<le> v \<and> v \<le> hi)"

lemma alpha_bounds: "2 / 100 \<le> alphaForDt M dt tau \<and> alphaForDt M dt tau \<le> 45 / 100"
  unfolding alphaForDt_def by (rule clamp_rat_bounds) simp

lemma convex_range: "lo \<le> p \<Longrightarrow> p \<le> hi \<Longrightarrow> lo \<le> x \<Longrightarrow> x \<le> hi \<Longrightarrow> 0 \<le> a \<Longrightarrow> a \<le> 1 \<Longrightarrow>
    lo \<le> p + (x - p) * a \<and> p + (x - p) * a \<le> (hi :: rat)"
proof -
  assume r: "lo \<le> p" "p \<le> hi" "lo \<le> x" "x \<le> hi" "0 \<le> a" "a \<le> 1"
  have e: "p + (x - p) * a = (1 - a) * p + a * x" by (simp add: algebra_simps)
  have "(1 - a) * lo + a * lo \<le> (1 - a) * p + a * x" using r by (intro add_mono mult_left_mono) simp_all
  moreover have "(1 - a) * p + a * x \<le> (1 - a) * hi + a * hi" using r by (intro add_mono mult_left_mono) simp_all
  ultimately show ?thesis unfolding e by (simp add: algebra_simps)
qed

lemma smooth_range:
  assumes "in_range lo hi v" "in_range lo hi prev"
  shows "in_range lo hi (smoothPresentNumber M v prev dt tau)"
proof -
  have "0 \<le> alphaForDt M dt tau" "alphaForDt M dt tau \<le> 1" using alpha_bounds [of M dt tau] by linarith+
  then show ?thesis using assms convex_range [of lo _ hi _ "alphaForDt M dt tau"]
    by (auto simp: in_range_def smoothPresentNumber_def smoothNumber_def split: option.splits)
qed

lemma speed_of_smooth: "sample_speed (smoothLiveSample M s prev) =
    smoothPresentNumber M (sample_speed s) (of_sample sample_speed prev) (smooth_dt s prev) (8 / 10)"
proof -
  let ?w = "smoothPresentNumber M (sample_speed s) (of_sample sample_speed prev) (smooth_dt s prev) (8 / 10)"
  have keep: "sample_speed (smooth_voltage v x) = sample_speed x" "sample_speed (smooth_current v x) = sample_speed x" for v x
    by (auto simp: smooth_voltage_def smooth_current_def sample_speed_def set_values_def jm_get_set split: option.splits)
  have set: "sample_speed (smooth_speed v x) = (case v of None \<Rightarrow> sample_speed x | Some _ \<Rightarrow> v)" for v x
    by (auto simp: smooth_speed_def sample_speed_def or_else_def split: option.splits)
  have pos: "sample_speed (x\<lparr>ls_lat := a, ls_lon := b\<rparr>) = sample_speed x" for x a b by (simp add: sample_speed_def)
  have e: "sample_speed (smoothLiveSample M s prev) = (case ?w of None \<Rightarrow> sample_speed s | Some _ \<Rightarrow> ?w)"
    unfolding smoothLiveSample_def Let_def case_prod_beta pos set keep ..
  have "sample_speed s = None" if "?w = None"
    using that by (cases "sample_speed s") (auto simp: smoothPresentNumber_def smoothNumber_def split: option.splits)
  then show ?thesis unfolding e by (cases ?w) simp_all
qed

lemma smooth_from_range:
  assumes "\<forall>s \<in> set ss. in_range lo hi (sample_speed s)" "in_range lo hi (of_sample sample_speed prev)"
  shows "\<forall>s \<in> set (smooth_from M prev ss). in_range lo hi (sample_speed s)"
  using assms
proof (induction ss arbitrary: prev)
  case (Cons s ss)
  have r: "in_range lo hi (sample_speed (smoothLiveSample M s prev))"
    unfolding speed_of_smooth using Cons.prems by (intro smooth_range) simp_all
  moreover have "\<forall>x \<in> set (smooth_from M (Some (smoothLiveSample M s prev)) ss). in_range lo hi (sample_speed x)"
  proof (rule Cons.IH)
    show "\<forall>x \<in> set ss. in_range lo hi (sample_speed x)" using Cons.prems(1) by simp
    show "in_range lo hi (of_sample sample_speed (Some (smoothLiveSample M s prev)))"
      using r by (simp only: of_sample_def option.case)
  qed
  ultimately show ?case
    by (simp only: smooth_from.simps Let_def list.set ball_simps simp_thms)
qed simp

text \<open>the smoothed speed never leaves the range of the speeds that were received, and a sample without a speed stays without
  one, whatever the exponential function returns.\<close>

theorem smoothed_speed_in_range:
  assumes "\<forall>s \<in> set ss. in_range lo hi (sample_speed s)"
  shows "length (smoothLiveSamples M ss) = length ss
    \<and> (\<forall>s \<in> set (smoothLiveSamples M ss). in_range lo hi (sample_speed s))"
proof -
  have "length (smooth_from M prev ss) = length ss" for prev by (induction ss arbitrary: prev) (simp_all add: Let_def)
  then show ?thesis using smooth_from_range [OF assms, of None M] by (simp add: smoothLiveSamples_def in_range_def of_sample_def)
qed

lemma smoothed_speed_in_range_witness:
  "\<forall>s \<in> set (smoothLiveSamples M [(counted 0 0 0)\<lparr>ls_speed := Some 10\<rparr>, counted 50 0 0, (counted 100 0 0)\<lparr>ls_speed := Some 20\<rparr>]).
     in_range 10 20 (sample_speed s)"
  using smoothed_speed_in_range [of "[(counted 0 0 0)\<lparr>ls_speed := Some 10\<rparr>, counted 50 0 0, (counted 100 0 0)\<lparr>ls_speed := Some 20\<rparr>]" 10 20 M]
  by (simp add: in_range_def sample_speed_def counted_def or_else_def jm_get_def)

subsection \<open>Peaks\<close>

definition peak_of :: "rat option \<Rightarrow> live_sample list \<Rightarrow> rat option \<Rightarrow> bool" where
  "peak_of m ss p \<longleftrightarrow> (case p of
       None \<Rightarrow> m = None \<and> (\<forall>s \<in> set ss. maxCellTempFor (Some s) = None)
     | Some t \<Rightarrow> (m = Some t \<or> (\<exists>s \<in> set ss. maxCellTempFor (Some s) = Some t))
         \<and> (\<forall>u. m = Some u \<longrightarrow> u \<le> t) \<and> (\<forall>s \<in> set ss. \<forall>u. maxCellTempFor (Some s) = Some u \<longrightarrow> u \<le> t))"

lemma peak_step: "peak_of (max_temp_step m s) ss p \<Longrightarrow> peak_of m (s # ss) p"
proof (cases "maxCellTempFor (Some s)")
  case (Some t)
  assume a: "peak_of (max_temp_step m s) ss p"
  have st: "max_temp_step m s = (case m of None \<Rightarrow> Some t | Some u \<Rightarrow> if t > u then Some t else Some u)"
    by (simp add: max_temp_step_def Some)
  show ?thesis using a Some unfolding peak_of_def st by (cases p; cases m) (auto split: if_splits)
qed (simp add: peak_of_def max_temp_step_def split: option.splits)

lemma lap_peak: "peak_of None ss (lapMaxCellTempC ss)"
proof -
  have "peak_of m ss (foldl max_temp_step m ss)" for m
  proof (induction ss arbitrary: m)
    case Nil
    then show ?case by (simp add: peak_of_def split: option.splits)
  qed (simp add: peak_step)
  then show ?thesis by (simp add: lapMaxCellTempC_def)
qed

text \<open>The state of charge of the car is read as a fraction up to one and as a percentage above: a battery at one percent
  reads as full.\<close>

lemma soe_one_percent: "soe_step 1 = 100 \<and> soe_step (101 / 100) = 101 / 100"
  by (simp add: soe_step_def clamp_rat_def)

end
