(* ===== verification/LiveGates.thy ===== *)
theory LiveGates
  imports MotecStores "HOL-Library.Multiset"
begin

text \<open>
  Gates, tracks and the preview of the laps of a recording, from
  \<^verbatim>\<open>viewer_tool/src/app/trackside-live/TracksideApp.tsx\<close>. A point is a pair of longitude and latitude; times are
  milliseconds. The time stamps a stored track carries are not represented.
\<close>

subsection \<open>Crossing a gate\<close>

type_synonym point_live = "rat \<times> rat"

definition orientation_live :: "point_live \<Rightarrow> point_live \<Rightarrow> point_live \<Rightarrow> rat" where
  "orientation_live a b c = (snd b - snd a) * (fst c - fst b) - (fst b - fst a) * (snd c - snd b)"

definition segmentsCross_live :: "point_live \<Rightarrow> point_live \<Rightarrow> point_live \<Rightarrow> point_live \<Rightarrow> bool" where
  "segmentsCross_live a b c d =
     (let o1 = orientation_live a b c; o2 = orientation_live a b d; o3 = orientation_live c d a; o4 = orientation_live c d b
      in o1 * o2 < 0 \<and> o3 * o4 < 0)"

datatype gate_role = Start_finish | Split_gate

record gate_line =
  gl_id :: string
  gl_label :: string
  gl_lat1 :: rat
  gl_lon1 :: rat
  gl_lat2 :: rat
  gl_lon2 :: rat
  gl_role :: gate_role

record gps_point_live =
  gp_t :: rat
  gp_lat :: rat
  gp_lon :: rat

definition gate_ends :: "gate_line \<Rightarrow> point_live \<times> point_live" where
  "gate_ends g = ((gl_lon1 g, gl_lat1 g), (gl_lon2 g, gl_lat2 g))"

definition step_crosses :: "gate_line \<Rightarrow> gps_point_live \<Rightarrow> gps_point_live \<Rightarrow> bool" where
  "step_crosses g p q = segmentsCross_live (gp_lon p, gp_lat p) (gp_lon q, gp_lat q) (fst (gate_ends g)) (snd (gate_ends g))"

definition gateCrossingTimes_live :: "gps_point_live list \<Rightarrow> gate_line \<Rightarrow> rat list" where
  "gateCrossingTimes_live ps g = map (\<lambda>(p, q). gp_t q) (filter (\<lambda>(p, q). step_crosses g p q) (zip ps (tl ps)))"

definition dedupe_step :: "rat \<Rightarrow> rat list \<Rightarrow> rat \<Rightarrow> rat list" where
  "dedupe_step gap acc t = (if acc = [] \<or> t - last acc \<ge> gap then acc @ [t] else acc)"

definition dedupeCrossings :: "rat list \<Rightarrow> rat \<Rightarrow> rat list" where
  "dedupeCrossings ts gap = foldl (dedupe_step gap) [] ts"

subsection \<open>The preview of the laps\<close>

record segment_summary_live =
  sg_id :: string
  sg_label :: string
  sg_start :: rat
  sg_end :: rat
  sg_duration :: rat

record summary =
  su_start :: rat
  su_end :: rat
  su_duration :: rat

definition summarizeSegments :: "segment_summary_live list \<Rightarrow> summary option" where
  "summarizeSegments segs =
     (if segs = [] then None
      else Some \<lparr>su_start = Min (set (map sg_start segs)), su_end = Max (set (map sg_end segs)),
                 su_duration = sum_list (map sg_duration segs)\<rparr>)"

datatype row_kind = Row_lap | Row_out

record lap_row =
  rw_id :: string
  rw_label :: string
  rw_kind :: row_kind
  rw_start :: rat
  rw_end :: rat
  rw_dur :: rat

definition mk_row :: "string \<Rightarrow> string \<Rightarrow> row_kind \<Rightarrow> rat \<Rightarrow> rat \<Rightarrow> lap_row" where
  "mk_row i l k a b = \<lparr>rw_id = i, rw_label = l, rw_kind = k, rw_start = a, rw_end = b, rw_dur = b - a\<rparr>"

definition preview_window :: "gps_point_live list \<Rightarrow> summary option \<Rightarrow> rat \<times> rat" where
  "preview_window ps su = (case su of Some s \<Rightarrow> (su_start s, su_end s) | None \<Rightarrow> (gp_t (hd ps), gp_t (last ps)))"

definition preview_crossings :: "gps_point_live list \<Rightarrow> gate_line \<Rightarrow> rat \<Rightarrow> rat \<Rightarrow> rat list" where
  "preview_crossings ps g w0 w1 =
     sort (filter (\<lambda>t. t > w0 \<and> t < w1) (dedupeCrossings (gateCrossingTimes_live ps g) 1500))"

definition preview_rows :: "rat \<Rightarrow> rat \<Rightarrow> rat list \<Rightarrow> lap_row list" where
  "preview_rows w0 w1 cs =
     mk_row ''outlap-start'' ''Out lap'' Row_out w0 (hd cs)
     # map (\<lambda>i. mk_row (''lap-'' @ nat_text (i + 1)) (''Lap '' @ nat_text (i + 1)) Row_lap (cs ! i) (cs ! (i + 1)))
         [0..<length cs - 1]
     @ [mk_row ''outlap-end'' ''Out lap'' Row_out (last cs) w1]"

definition start_gate :: "gate_line list \<Rightarrow> gate_line option" where
  "start_gate gs = List.find (\<lambda>g. gl_role g = Start_finish) gs"

definition buildLapPreview :: "gps_point_live list \<Rightarrow> gate_line list \<Rightarrow> summary option \<Rightarrow> lap_row list" where
  "buildLapPreview ps gs su = (case start_gate gs of
       None \<Rightarrow> []
     | Some g \<Rightarrow>
         if length ps < 2 then []
         else let (w0, w1) = preview_window ps su; cs = preview_crossings ps g w0 w1
              in if cs = [] then [] else filter (\<lambda>r. rw_dur r > 0) (preview_rows w0 w1 cs))"

subsection \<open>Tracks\<close>

record track =
  tk_name :: string
  tk_slug :: string
  tk_notes :: string
  tk_gates :: "gate_line list"

definition slugifyTrackName :: "string \<Rightarrow> string" where
  "slugifyTrackName v = slugify v ''track''"

text \<open>\<^verbatim>\<open>/^Split\s+\d+$/i\<close>\<close>

definition auto_label :: "string \<Rightarrow> bool" where
  "auto_label s =
     (let r = drop 5 s; d = dropWhile is_space r
      in lower (take 5 s) = ''split'' \<and> r \<noteq> d \<and> d \<noteq> [] \<and> list_all is_digit d)"

fun label_gates :: "nat \<Rightarrow> gate_line list \<Rightarrow> gate_line list" where
  "label_gates n [] = []"
| "label_gates n (g # gs) =
     (let l = trim (gl_label g) in
      if gl_role g = Start_finish then g\<lparr>gl_label := (if l = [] then ''Start Finish'' else l)\<rparr> # label_gates n gs
      else g\<lparr>gl_label := (if l = [] \<or> auto_label l then ''Split '' @ nat_text n else l)\<rparr> # label_gates (n + 1) gs)"

definition normalizeGateLabels :: "gate_line list \<Rightarrow> gate_line list" where
  "normalizeGateLabels gs = label_gates 1 gs"

fun first_start_only :: "bool \<Rightarrow> gate_line list \<Rightarrow> gate_line list" where
  "first_start_only has [] = []"
| "first_start_only has (g # gs) =
     (if gl_role g \<noteq> Start_finish then g # first_start_only has gs
      else if has then first_start_only has gs else g # first_start_only True gs)"

definition normalizeTrack :: "track \<Rightarrow> track" where
  "normalizeTrack t =
     (let n = (if tk_name t = [] then ''New Track'' else tk_name t)
      in t\<lparr>tk_name := n, tk_slug := (if tk_slug t = [] then slugifyTrackName n else tk_slug t),
           tk_gates := normalizeGateLabels (first_start_only False (tk_gates t))\<rparr>)"

definition handleDrawGate :: "gate_line \<Rightarrow> track \<Rightarrow> track" where
  "handleDrawGate g t =
     (if gl_role g = Start_finish \<and> list_ex (\<lambda>h. gl_role h = Start_finish) (tk_gates t) then t
      else normalizeTrack (t\<lparr>tk_gates := tk_gates t @ [g]\<rparr>))"

definition updateGate :: "nat \<Rightarrow> (gate_line \<Rightarrow> gate_line) \<Rightarrow> track \<Rightarrow> track" where
  "updateGate i patch t = t\<lparr>tk_gates := map (\<lambda>j. if j = i then patch (tk_gates t ! j) else tk_gates t ! j) [0..<length (tk_gates t)]\<rparr>"

definition removeGate :: "nat \<Rightarrow> track \<Rightarrow> track" where
  "removeGate i t = normalizeTrack (t\<lparr>tk_gates := take i (tk_gates t) @ drop (i + 1) (tk_gates t)\<rparr>)"

definition split_indexes :: "gate_line list \<Rightarrow> nat list" where
  "split_indexes gs = filter (\<lambda>i. gl_role (gs ! i) = Split_gate) [0..<length gs]"

definition swap_gates :: "nat \<Rightarrow> nat \<Rightarrow> gate_line list \<Rightarrow> gate_line list" where
  "swap_gates i j gs = gs[i := gs ! j, j := gs ! i]"

text \<open>The direction is one step up (\<^verbatim>\<open>-1\<close>) or down (\<^verbatim>\<open>1\<close>).\<close>

definition moveSplitGate :: "nat \<Rightarrow> bool \<Rightarrow> track \<Rightarrow> track" where
  "moveSplitGate i down t =
     (let gs = tk_gates t; is = split_indexes gs; k = length (takeWhile (\<lambda>j. j \<noteq> i) is) in
      if \<not> (i < length gs \<and> gl_role (gs ! i) = Split_gate) then t
      else if down then (if k + 1 < length is then normalizeTrack (t\<lparr>tk_gates := swap_gates i (is ! (k + 1)) gs\<rparr>) else t)
      else if 0 < k then normalizeTrack (t\<lparr>tk_gates := swap_gates i (is ! (k - 1)) gs\<rparr>) else t)"

subsection \<open>The crossing test is the geometry\<close>

definition cross :: "point_live \<Rightarrow> point_live \<Rightarrow> rat" where
  "cross u v = fst u * snd v - snd u * fst v"

definition along :: "point_live \<Rightarrow> point_live \<Rightarrow> rat \<Rightarrow> point_live" where
  "along a b t = (fst a + t * (fst b - fst a), snd a + t * (snd b - snd a))"

lemma split_ratio: "x * y < 0 \<Longrightarrow> x - y \<noteq> 0 \<and> 0 < x / (x - y) \<and> x / (x - y) < (1 :: rat)"
  by (auto simp: mult_less_0_iff divide_simps)

lemma split_product: "0 < t \<Longrightarrow> t < 1 \<Longrightarrow> D \<noteq> 0 \<Longrightarrow> (t * D) * ((t - 1) * D) < (0 :: rat)"
proof -
  assume "0 < t" "t < 1" "D \<noteq> 0"
  then have "t * (t - 1) < 0" "0 < D * D" by (simp_all add: mult_less_0_iff zero_less_mult_iff) auto
  then have "(t * (t - 1)) * (D * D) < 0" by (simp add: mult_less_0_iff)
  then show ?thesis by (simp add: ac_simps)
qed

lemma orientation_cross:
  "orientation_live a b c - orientation_live a b d = cross (fst b - fst a, snd b - snd a) (fst d - fst c, snd d - snd c)"
  by (simp add: orientation_live_def cross_def algebra_simps)

text \<open>C40: a step of the car crosses a gate exactly when the two segments meet in one point that is inner to both: the
  test by four orientations is the geometric definition.\<close>

theorem segmentsCross_meets:
  "segmentsCross_live a b c d \<longleftrightarrow>
     cross (fst b - fst a, snd b - snd a) (fst d - fst c, snd d - snd c) \<noteq> 0
     \<and> (\<exists>u v. 0 < u \<and> u < 1 \<and> 0 < v \<and> v < 1 \<and> along a b u = along c d v)"
    (is "_ \<longleftrightarrow> ?D \<noteq> 0 \<and> ?meet")
proof
  obtain ax ay bx "by" cx cy dx dy where p: "a = (ax, ay)" "b = (bx, by)" "c = (cx, cy)" "d = (dx, dy)"
    by (cases a; cases b; cases c; cases d) blast
  let ?o1 = "orientation_live a b c" and ?o2 = "orientation_live a b d" and ?o3 = "orientation_live c d a" and ?o4 = "orientation_live c d b"
  have D12: "?o1 - ?o2 = ?D" and D34: "?o3 - ?o4 = - ?D"
    by (simp_all add: orientation_live_def cross_def algebra_simps)
  {
    assume "segmentsCross_live a b c d"
    then have s: "?o1 * ?o2 < 0" "?o3 * ?o4 < 0" by (simp_all add: segmentsCross_live_def Let_def)
    define u where "u = ?o3 / (?o3 - ?o4)"
    define v where "v = ?o1 / (?o1 - ?o2)"
    have D: "?D \<noteq> 0" using split_ratio [OF s(1)] D12 by simp
    have uD: "u * ?D = - ?o3" and vD: "v * ?D = ?o1" using D by (simp_all add: u_def v_def D12 D34)
    have "(fst (along a b u) - fst (along c d v)) * ?D = 0"
    proof -
      have "(fst (along a b u) - fst (along c d v)) * ?D
          = (ax - cx) * ?D + (u * ?D) * (bx - ax) - (v * ?D) * (dx - cx)"
        by (simp add: along_def p algebra_simps)
      also have "\<dots> = 0" unfolding uD vD by (simp add: p orientation_live_def cross_def algebra_simps)
      finally show ?thesis .
    qed
    moreover have "(snd (along a b u) - snd (along c d v)) * ?D = 0"
    proof -
      have "(snd (along a b u) - snd (along c d v)) * ?D
          = (ay - cy) * ?D + (u * ?D) * (by - ay) - (v * ?D) * (dy - cy)"
        by (simp add: along_def p algebra_simps)
      also have "\<dots> = 0" unfolding uD vD by (simp add: p orientation_live_def cross_def algebra_simps)
      finally show ?thesis .
    qed
    ultimately have "along a b u = along c d v" using D by (simp add: prod_eq_iff)
    then show "?D \<noteq> 0 \<and> ?meet" using D split_ratio [OF s(1)] split_ratio [OF s(2)] unfolding u_def v_def by blast
  }
  assume "?D \<noteq> 0 \<and> ?meet"
  then obtain u v where D: "?D \<noteq> 0" and uv: "0 < u" "u < 1" "0 < v" "v < 1" and m: "along a b u = along c d v" by blast
  have mx: "ax + u * (bx - ax) = cx + v * (dx - cx)" and my: "ay + u * (by - ay) = cy + v * (dy - cy)"
    using m by (simp_all add: along_def p)
  have o1: "?o1 = v * ?D"
  proof -
    have "?o1 - v * ?D = (by - ay) * (cx + v * (dx - cx) - ax) - (bx - ax) * (cy + v * (dy - cy) - ay)"
      by (simp add: p orientation_live_def cross_def algebra_simps)
    also have "\<dots> = 0" unfolding mx [symmetric] my [symmetric] by (simp add: algebra_simps)
    finally show ?thesis by simp
  qed
  have o3: "?o3 = - (u * ?D)"
  proof -
    have "?o3 + u * ?D = (dy - cy) * (ax + u * (bx - ax) - cx) - (dx - cx) * (ay + u * (by - ay) - cy)"
      by (simp add: p orientation_live_def cross_def algebra_simps)
    also have "\<dots> = 0" unfolding mx my by (simp add: algebra_simps)
    finally show ?thesis by simp
  qed
  have o2: "?o2 = (v - 1) * ?D" and o4: "?o4 = - ((u - 1) * ?D)" using o1 o3 D12 D34 by (simp_all add: algebra_simps)
  show "segmentsCross_live a b c d"
    using split_product [OF uv(3,4) D] split_product [OF uv(1,2) D] unfolding segmentsCross_live_def Let_def o1 o2 o3 o4 by simp
qed

text \<open>a fix exactly on the line of the gate belongs to neither of the two steps: the car passes the gate and no crossing
  is seen.\<close>

theorem fix_on_line_missed:
  assumes "orientation_live c d m = 0"
  shows "\<not> segmentsCross_live a m c d \<and> \<not> segmentsCross_live m b c d"
  using assms by (simp add: segmentsCross_live_def Let_def)

lemma fix_on_line_missed_witness:
  "gateCrossingTimes_live [\<lparr>gp_t = 0, gp_lat = 0, gp_lon = - 1\<rparr>, \<lparr>gp_t = 1, gp_lat = 0, gp_lon = 0\<rparr>, \<lparr>gp_t = 2, gp_lat = 0, gp_lon = 1\<rparr>]
     \<lparr>gl_id = [], gl_label = [], gl_lat1 = - 1, gl_lon1 = 0, gl_lat2 = 1, gl_lon2 = 0, gl_role = Start_finish\<rparr> = []"
  using fix_on_line_missed [of "(0, - 1)" "(0, 1)" "(0, 0)" "(- 1, 0)" "(1, 0)"]
  by (simp add: gateCrossingTimes_live_def step_crosses_def gate_ends_def orientation_live_def)

subsection \<open>The preview tiles its window\<close>

fun row_chain :: "rat \<Rightarrow> lap_row list \<Rightarrow> rat \<Rightarrow> bool" where
  "row_chain a [] b \<longleftrightarrow> a = b"
| "row_chain a (r # rs) b \<longleftrightarrow> rw_start r = a \<and> rw_dur r = rw_end r - rw_start r \<and> 0 < rw_dur r \<and> row_chain (rw_end r) rs b"

lemma row_chain_append: "row_chain a (rs @ qs) b \<longleftrightarrow> (\<exists>m. row_chain a rs m \<and> row_chain m qs b)"
  by (induction rs arbitrary: a) auto

lemma row_chain_sum: "row_chain a rs b \<Longrightarrow> sum_list (map rw_dur rs) = b - a"
  by (induction rs arbitrary: a) auto

lemma row_chain_pos: "row_chain a rs b \<Longrightarrow> r \<in> set rs \<Longrightarrow> 0 < rw_dur r"
  by (induction rs arbitrary: a) auto

lemma mk_row_simps [simp]:
  "rw_start (mk_row i l k a b) = a" "rw_end (mk_row i l k a b) = b" "rw_dur (mk_row i l k a b) = b - a" "rw_kind (mk_row i l k a b) = k"
  by (simp_all add: mk_row_def)

lemma dedupe_apart: "sorted_wrt (\<lambda>s t. s + gap \<le> t) (dedupeCrossings ts gap)" if "0 \<le> gap"
proof -
  have step: "sorted_wrt (\<lambda>s t. s + gap \<le> t) (dedupe_step gap acc t)" if a: "sorted_wrt (\<lambda>s t. s + gap \<le> t) acc" for acc t
  proof (cases "acc = [] \<or> t - last acc \<ge> gap")
    case True
    have "s + gap \<le> t" if s: "s \<in> set acc" for s
    proof -
      have "s \<le> last acc" using a s \<open>0 \<le> gap\<close>
        by (induction acc) (auto simp: dest!: bspec [OF _ last_in_set])
      then show ?thesis using True s by auto
    qed
    then show ?thesis using True a by (simp add: dedupe_step_def sorted_wrt_append)
  qed (use a in \<open>simp add: dedupe_step_def\<close>)
  have "sorted_wrt (\<lambda>s t. s + gap \<le> t) (foldl (dedupe_step gap) acc ts)" if "sorted_wrt (\<lambda>s t. s + gap \<le> t) acc" for acc
    using that by (induction ts arbitrary: acc) (simp_all add: step)
  then show ?thesis by (simp add: dedupeCrossings_def)
qed

lemma sorted_wrt_filter_apart: "sorted_wrt P xs \<Longrightarrow> sorted_wrt P (filter Q xs)"
  by (induction xs) auto

lemma preview_crossings_apart:
  "sorted_wrt (\<lambda>s t. s + 1500 \<le> t) (preview_crossings ps g w0 w1)" "\<forall>t \<in> set (preview_crossings ps g w0 w1). w0 < t \<and> t < w1"
proof -
  let ?cs = "filter (\<lambda>t. t > w0 \<and> t < w1) (dedupeCrossings (gateCrossingTimes_live ps g) 1500)"
  have a: "sorted_wrt (\<lambda>s t. s + 1500 \<le> t) ?cs" by (intro sorted_wrt_filter_apart dedupe_apart) simp
  then have "sorted ?cs" by (rule sorted_wrt_mono_rel [rotated]) simp
  then have "preview_crossings ps g w0 w1 = ?cs" by (simp add: preview_crossings_def sorted_sort_id)
  then show "sorted_wrt (\<lambda>s t. s + 1500 \<le> t) (preview_crossings ps g w0 w1)" "\<forall>t \<in> set (preview_crossings ps g w0 w1). w0 < t \<and> t < w1"
    using a by simp_all
qed

lemma laps_chain:
  assumes "sorted_wrt (\<lambda>s t. s + 1500 \<le> t) cs" "n < length cs"
  shows "row_chain (cs ! 0) (map (\<lambda>i. mk_row (f i) (h i) Row_lap (cs ! i) (cs ! (i + 1))) [0..<n]) (cs ! n)"
  using assms(2)
proof (induction n)
  case (Suc n)
  have "cs ! n + 1500 \<le> cs ! Suc n" using assms(1) Suc.prems by (auto simp: sorted_wrt_iff_nth_less)
  then show ?case using Suc by (auto simp: row_chain_append)
qed simp

lemma preview_rows_chain:
  assumes "sorted_wrt (\<lambda>s t. s + 1500 \<le> t) cs" "\<forall>t \<in> set cs. w0 < t \<and> t < w1" "cs \<noteq> []"
  shows "row_chain w0 (preview_rows w0 w1 cs) w1"
proof -
  let ?n = "length cs - 1"
  have "row_chain (cs ! 0) (map (\<lambda>i. mk_row (''lap-'' @ nat_text (i + 1)) (''Lap '' @ nat_text (i + 1)) Row_lap (cs ! i) (cs ! (i + 1))) [0..<?n]) (cs ! ?n)"
    using assms by (intro laps_chain) simp_all
  moreover have "cs ! 0 = hd cs" "cs ! ?n = last cs" using assms(3) by (simp_all add: hd_conv_nth last_conv_nth)
  moreover have "w0 < hd cs" "last cs < w1" using assms(2,3) by simp_all
  ultimately show ?thesis unfolding preview_rows_def by (auto simp: row_chain_append)
qed

lemma preview_rows_long:
  assumes "sorted_wrt (\<lambda>s t. s + 1500 \<le> t) cs" "r \<in> set (preview_rows w0 w1 cs)" "rw_kind r = Row_lap"
  shows "1500 \<le> rw_dur r"
proof -
  from assms(2,3) obtain i where i: "i < length cs - 1" and r: "rw_dur r = cs ! (i + 1) - cs ! i"
    by (auto simp: preview_rows_def)
  have "cs ! i + 1500 \<le> cs ! (i + 1)" using assms(1) i by (auto simp: sorted_wrt_iff_nth_less)
  then show ?thesis using r by simp
qed

text \<open>when the recording crosses the start line at all, the rows of the preview tile its window: they follow each other
  without a gap from the first moment to the last, every row takes time, their durations add up to the window, every lap
  takes at least a second and a half, and there is one lap less than there are crossings.\<close>

theorem lap_preview_tiles:
  assumes "buildLapPreview ps gs su \<noteq> []"
  shows "\<exists>g. start_gate gs = Some g \<and>
    (let (w0, w1) = preview_window ps su; rows = buildLapPreview ps gs su in
       row_chain w0 rows w1 \<and> sum_list (map rw_dur rows) = w1 - w0
       \<and> (\<forall>r \<in> set rows. rw_kind r = Row_lap \<longrightarrow> 1500 \<le> rw_dur r)
       \<and> length rows = length (preview_crossings ps g w0 w1) + 1)"
proof -
  obtain w0 w1 where w: "preview_window ps su = (w0, w1)" by fastforce
  obtain g where g: "start_gate gs = Some g" and n: "\<not> length ps < 2" and c: "preview_crossings ps g w0 w1 \<noteq> []"
    using assms by (auto simp: buildLapPreview_def Let_def w split: option.splits if_splits)
  let ?cs = "preview_crossings ps g w0 w1"
  have ch: "row_chain w0 (preview_rows w0 w1 ?cs) w1" by (rule preview_rows_chain [OF preview_crossings_apart c])
  then have "filter (\<lambda>r. rw_dur r > 0) (preview_rows w0 w1 ?cs) = preview_rows w0 w1 ?cs"
    using row_chain_pos by (intro filter_True) blast
  then have b: "buildLapPreview ps gs su = preview_rows w0 w1 ?cs" using g n c by (simp add: buildLapPreview_def w)
  have len: "length (preview_rows w0 w1 ?cs) = length ?cs + 1" using c by (cases ?cs) (simp_all add: preview_rows_def)
  show ?thesis unfolding w b using g ch row_chain_sum [OF ch] preview_rows_long [OF preview_crossings_apart(1)] len
    by (simp add: b)
qed

definition start_line :: gate_line where
  "start_line = \<lparr>gl_id = ''g'', gl_label = [], gl_lat1 = - 1, gl_lon1 = 0, gl_lat2 = 1, gl_lon2 = 0, gl_role = Start_finish\<rparr>"

definition two_passes :: "gps_point_live list" where
  "two_passes = [\<lparr>gp_t = 0, gp_lat = 0, gp_lon = - 1\<rparr>, \<lparr>gp_t = 1000, gp_lat = 0, gp_lon = 1\<rparr>, \<lparr>gp_t = 30000, gp_lat = 0, gp_lon = - 1\<rparr>,
     \<lparr>gp_t = 31000, gp_lat = 0, gp_lon = - 2\<rparr>]"

lemma two_passes_preview:
  "buildLapPreview two_passes [start_line] None =
     [mk_row ''outlap-start'' ''Out lap'' Row_out 0 1000, mk_row ''lap-1'' ''Lap 1'' Row_lap 1000 30000,
      mk_row ''outlap-end'' ''Out lap'' Row_out 30000 31000]"
  by (simp add: buildLapPreview_def start_gate_def start_line_def two_passes_def preview_window_def preview_crossings_def
      gateCrossingTimes_live_def step_crosses_def gate_ends_def segmentsCross_live_def orientation_live_def dedupeCrossings_def dedupe_step_def
      preview_rows_def js_simps)

lemma lap_preview_tiles_witness:
  "sum_list (map rw_dur (buildLapPreview two_passes [start_line] None)) = 31000"
proof -
  have ne: "buildLapPreview two_passes [start_line] None \<noteq> []" by (simp add: two_passes_preview)
  have "preview_window two_passes None = (0, 31000)" by (simp add: preview_window_def two_passes_def)
  then show ?thesis using lap_preview_tiles [OF ne] by (auto simp: Let_def)
qed

subsection \<open>A normalised track\<close>

lemma dropWhile_stable: "s = [] \<or> \<not> P (hd s) \<Longrightarrow> dropWhile P s = s"
  by (cases s) auto

lemma trim_hd_last: "trim s \<noteq> [] \<Longrightarrow> \<not> is_space (hd (trim s)) \<and> \<not> is_space (last (trim s))"
proof -
  assume ne: "trim s \<noteq> []"
  let ?l = "trim_left is_space s"
  have t: "trim s = trim_right is_space ?l" by (simp add: trim_def trim_chars_def)
  have l: "\<not> is_space (last (trim s))" using ne unfolding t by (rule trim_right_last)
  obtain z where z: "?l = trim_right is_space ?l @ z"
    unfolding trim_right_def by (metis rev_append rev_rev_ident takeWhile_dropWhile_id)
  have "?l \<noteq> []" using ne by (auto simp: t trim_right_def)
  then have "\<not> is_space (hd ?l)" unfolding trim_left_def by (rule hd_dropWhile)
  moreover have "hd ?l = hd (trim s)" using ne z unfolding t by (metis hd_append2)
  ultimately show "\<not> is_space (hd (trim s)) \<and> \<not> is_space (last (trim s))" using l by simp
qed

lemma trim_stable: "s = [] \<or> \<not> is_space (hd s) \<and> \<not> is_space (last s) \<Longrightarrow> trim s = s"
  by (auto simp: trim_def trim_chars_def trim_left_def trim_right_def dropWhile_stable hd_rev)

lemma trim_trim [simp]: "trim (trim s) = trim s"
  using trim_hd_last [of s] by (intro trim_stable) auto

lemma nat_text_no_space: "c \<in> set (nat_text n) \<Longrightarrow> \<not> is_space c"
  using nat_text_digits [of n] by (auto simp: list_all_iff is_digit_def is_space_def)

lemma auto_split: "auto_label (''Split '' @ nat_text n)" "trim (''Split '' @ nat_text n) = ''Split '' @ nat_text n"
proof -
  have h: "\<not> is_space (hd (nat_text n))" "\<not> is_space (last (nat_text n))"
    using nat_text_no_space [OF hd_in_set [OF nat_text_not_Nil]] nat_text_no_space [OF last_in_set [OF nat_text_not_Nil]] by blast+
  have d: "dropWhile is_space (nat_text n) = nat_text n" using h by (intro dropWhile_stable) auto
  have "lower ''Split'' = ''split''" by code_simp
  moreover have "dropWhile is_space ('' '' @ nat_text n) = nat_text n" using d by (simp add: is_space_def)
  ultimately show "auto_label (''Split '' @ nat_text n)"
    using nat_text_digits [of n] nat_text_not_Nil [of n] hd_in_set [OF nat_text_not_Nil, of n] h(1) by (auto simp: auto_label_def Let_def)
  have "\<not> is_space CHR ''S''" by (simp add: is_space_def)
  then show "trim (''Split '' @ nat_text n) = ''Split '' @ nat_text n" using h nat_text_not_Nil [of n] by (intro trim_stable) auto
qed

lemma trim_start: "trim ''Start Finish'' = ''Start Finish''"
  by (rule trim_stable) (simp add: is_space_def)

lemma label_gates_idem: "label_gates n (label_gates n gs) = label_gates n gs"
proof (induction n gs rule: label_gates.induct)
  case (2 n g gs)
  let ?l = "trim (gl_label g)"
  show ?case
  proof (cases "gl_role g")
    case Start_finish
    then show ?thesis using 2 by (cases "?l = []") (simp_all add: Let_def trim_start)
  next
    case Split_gate
    then show ?thesis using 2 auto_split [of n] by (cases "?l = [] \<or> auto_label ?l") (simp_all add: Let_def)
  qed
qed simp

definition strip_label :: "gate_line \<Rightarrow> gate_line" where
  "strip_label g = g\<lparr>gl_label := []\<rparr>"

lemma label_gates_strip: "map strip_label (label_gates n gs) = map strip_label gs"
  by (induction n gs rule: label_gates.induct) (simp_all add: Let_def strip_label_def)

lemma label_gates_role: "map gl_role (label_gates n gs) = map gl_role gs"
  by (induction n gs rule: label_gates.induct) (simp_all add: Let_def)

lemma label_gates_named: "g \<in> set (label_gates n gs) \<Longrightarrow> gl_label g \<noteq> []"
  by (induction n gs rule: label_gates.induct) (auto simp: Let_def split: if_splits)

definition roles_ok :: "bool \<Rightarrow> gate_role list \<Rightarrow> bool" where
  "roles_ok has rs \<longleftrightarrow> length (filter (\<lambda>r. r = Start_finish) rs) \<le> (if has then 0 else 1)"

lemma first_start_roles: "roles_ok has (map gl_role (first_start_only has gs))"
  by (induction has gs rule: first_start_only.induct) (auto simp: roles_ok_def)

lemma first_start_keep: "roles_ok has (map gl_role gs) \<Longrightarrow> first_start_only has gs = gs"
proof (induction has gs rule: first_start_only.induct)
  case (2 has g gs)
  then show ?case by (cases "gl_role g") (auto simp: roles_ok_def split: if_splits)
qed simp

lemma first_start_splits: "filter (\<lambda>g. gl_role g = Split_gate) (first_start_only has gs) = filter (\<lambda>g. gl_role g = Split_gate) gs"
proof (induction has gs rule: first_start_only.induct)
  case (2 has g gs)
  then show ?case by (cases "gl_role g") auto
qed simp

lemma slugify_not_Nil: "fb \<noteq> [] \<Longrightarrow> slugify v fb \<noteq> []"
  by (simp add: slugify_def Let_def)

lemma filter_split_strip: "filter (\<lambda>g. gl_role g = Split_gate) (map strip_label gs) = map strip_label (filter (\<lambda>g. gl_role g = Split_gate) gs)"
  by (induction gs) (simp_all add: strip_label_def)

text \<open>a track that was normalised stays as it is when it is normalised again. It has at most one start line, a name, a
  slug and a label for every gate, and exactly the splits it had, in their order.\<close>

theorem normalizeTrack_normal:
  "normalizeTrack (normalizeTrack t) = normalizeTrack t
    \<and> length (filter (\<lambda>g. gl_role g = Start_finish) (tk_gates (normalizeTrack t))) \<le> 1
    \<and> tk_name (normalizeTrack t) \<noteq> [] \<and> tk_slug (normalizeTrack t) \<noteq> []
    \<and> [] \<notin> gl_label ` set (tk_gates (normalizeTrack t))
    \<and> map strip_label (filter (\<lambda>g. gl_role g = Split_gate) (tk_gates (normalizeTrack t)))
        = map strip_label (filter (\<lambda>g. gl_role g = Split_gate) (tk_gates t))"
proof -
  define hs where "hs = label_gates 1 (first_start_only False (tk_gates t))"
  have g: "tk_gates (normalizeTrack t) = hs" by (simp add: normalizeTrack_def normalizeGateLabels_def hs_def Let_def)
  have roles: "map gl_role hs = map gl_role (first_start_only False (tk_gates t))" by (simp add: hs_def label_gates_role)
  then have ok: "roles_ok False (map gl_role hs)" using first_start_roles by metis
  have idem: "label_gates 1 (first_start_only False hs) = hs"
    using first_start_keep [OF ok] label_gates_idem [of 1] by (simp add: hs_def)
  have names: "tk_name (normalizeTrack t) \<noteq> []" "tk_slug (normalizeTrack t) \<noteq> []"
    by (simp_all add: normalizeTrack_def Let_def slugifyTrackName_def slugify_not_Nil)
  have "normalizeTrack u = u" if "tk_name u \<noteq> []" "tk_slug u \<noteq> []" "tk_gates u = hs" for u
    using that by (simp add: normalizeTrack_def normalizeGateLabels_def idem [unfolded One_nat_def])
  then have "normalizeTrack (normalizeTrack t) = normalizeTrack t" using names g by blast
  moreover have "length (filter (\<lambda>g. gl_role g = Start_finish) hs) \<le> 1"
    using ok by (simp add: roles_ok_def filter_map comp_def)
  moreover have "[] \<notin> gl_label ` set hs" using label_gates_named by (force simp: hs_def)
  moreover have "map strip_label (filter (\<lambda>g. gl_role g = Split_gate) hs) = map strip_label (filter (\<lambda>g. gl_role g = Split_gate) (tk_gates t))"
    unfolding filter_split_strip [symmetric] hs_def label_gates_strip by (simp add: filter_split_strip first_start_splits)
  ultimately show ?thesis using names g by simp
qed

lemma swap_gates_mset: "i < length gs \<Longrightarrow> j < length gs \<Longrightarrow> mset (swap_gates i j gs) = mset gs"
  unfolding swap_gates_def by (simp add: mset_swap)


lemma roles_ok_mset: "mset gs = mset hs \<Longrightarrow> roles_ok has (map gl_role gs) \<longleftrightarrow> roles_ok has (map gl_role hs)"
proof -
  assume "mset gs = mset hs"
  then have "mset (filter (\<lambda>r. r = Start_finish) (map gl_role gs)) = mset (filter (\<lambda>r. r = Start_finish) (map gl_role hs))"
    by (simp add: mset_filter)
  then have "length (filter (\<lambda>r. r = Start_finish) (map gl_role gs)) = length (filter (\<lambda>r. r = Start_finish) (map gl_role hs))"
    by (rule mset_eq_length)
  then show ?thesis by (simp add: roles_ok_def)
qed

lemma normalize_swapped:
  assumes "roles_ok False (map gl_role (tk_gates t))" "i < length (tk_gates t)" "j < length (tk_gates t)"
  shows "mset (map strip_label (tk_gates (normalizeTrack (t\<lparr>tk_gates := swap_gates i j (tk_gates t)\<rparr>)))) = mset (map strip_label (tk_gates t))"
proof -
  let ?gs = "swap_gates i j (tk_gates t)"
  have m: "mset ?gs = mset (tk_gates t)" by (rule swap_gates_mset [OF assms(2,3)])
  then have "first_start_only False ?gs = ?gs" using assms(1) roles_ok_mset first_start_keep by metis
  then have "map strip_label (tk_gates (normalizeTrack (t\<lparr>tk_gates := ?gs\<rparr>))) = map strip_label ?gs"
    by (simp add: normalizeTrack_def normalizeGateLabels_def Let_def label_gates_strip)
  then show ?thesis using m by (metis mset_map)
qed

text \<open>Moving a split along the lap rearranges the gates of the track: none is lost, doubled or bent.\<close>

theorem moveSplitGate_permutes:
  assumes "roles_ok False (map gl_role (tk_gates t))"
  shows "mset (map strip_label (tk_gates (moveSplitGate i down t))) = mset (map strip_label (tk_gates t))"
proof -
  have lt: "j < length (tk_gates t)" if "j \<in> set (split_indexes (tk_gates t))" for j using that by (simp add: split_indexes_def)
  have sw: "mset (map strip_label (tk_gates (normalizeTrack (t\<lparr>tk_gates := swap_gates i (split_indexes (tk_gates t) ! m) (tk_gates t)\<rparr>))))
      = mset (map strip_label (tk_gates t))" if "i < length (tk_gates t)" "m < length (split_indexes (tk_gates t))" for m
    by (rule normalize_swapped [OF assms that(1) lt [OF nth_mem [OF that(2)]]])
  define k where "k = length (takeWhile (\<lambda>j. j \<noteq> i) (split_indexes (tk_gates t)))"
  show ?thesis
  proof (cases "i < length (tk_gates t) \<and> gl_role (tk_gates t ! i) = Split_gate")
    case True
    have "k - 1 < length (split_indexes (tk_gates t))" if "0 < k"
    proof -
      have "k \<le> length (split_indexes (tk_gates t))" unfolding k_def by (rule length_takeWhile_le)
      then show ?thesis using that by linarith
    qed
    then show ?thesis using True sw [of "k + 1"] sw [of "k - 1"]
      unfolding moveSplitGate_def k_def [symmetric] Let_def by (cases down) simp_all
  qed (simp add: moveSplitGate_def Let_def)
qed

lemma moveSplitGate_permutes_witness:
  "mset (map strip_label (tk_gates (moveSplitGate 0 True \<lparr>tk_name = ''A'', tk_slug = ''a'', tk_notes = [],
      tk_gates = [start_line\<lparr>gl_role := Split_gate\<rparr>, start_line, start_line\<lparr>gl_id := ''h'', gl_role := Split_gate\<rparr>]\<rparr>)))
    = {#start_line\<lparr>gl_role := Split_gate\<rparr>, start_line, start_line\<lparr>gl_id := ''h'', gl_role := Split_gate\<rparr>#}"
  using moveSplitGate_permutes [of "\<lparr>tk_name = ''A'', tk_slug = ''a'', tk_notes = [],
      tk_gates = [start_line\<lparr>gl_role := Split_gate\<rparr>, start_line, start_line\<lparr>gl_id := ''h'', gl_role := Split_gate\<rparr>]\<rparr>" 0 True]
  by (simp add: roles_ok_def start_line_def strip_label_def)

end
