(* ===== verification/LiveSession.thy ===== *)
theory LiveSession
  imports LiveLookup LiveGates
begin

text \<open>
  The live session of the trackside page, \<^verbatim>\<open>viewer_tool/src/app/trackside-live/TracksideApp.tsx\<close>: the lap timing
  by the gates of the track and by the lap button, the energy of the laps, the edits of the leader, the mirror's copy, and
  the saving and restoring of the session.

  Times are whole milliseconds. The page keeps the session in a ref and a copy of it in React's state, which follows the ref
  at every render; the two are one value here. The status line, the browser's dialogs and the downloads are not represented.
  Whether a store takes a write is given with the write, so that a write may be lost.
\<close>

subsection \<open>State\<close>

datatype lap_kind_live = Flying | Manual

record live_lap =
  ll_id :: string
  ll_label :: string
  ll_kind :: lap_kind_live
  ll_start :: int
  ll_end :: int
  ll_dur :: int
  ll_sectors :: "int list"
  ll_energy :: rat
  ll_out :: "rat option"
  ll_in :: "rat option"
  ll_dist :: rat
  ll_avg :: "rat option"
  ll_temp :: "rat option"
  ll_notes :: "string option"
  ll_byHand :: bool

record lap_run =
  rn_start :: "int option"
  rn_sector :: "int option"
  rn_split :: nat
  rn_sectors :: "int list"
  rn_energy :: rat
  rn_out :: rat
  rn_in :: rat
  rn_dist :: rat
  rn_samples :: "live_sample list"
  rn_delta :: rat

record event_flag =
  ef_t :: int
  ef_label :: string
  ef_saved :: bool

record live_state =
  lv_running :: bool
  lv_connected :: bool
  lv_topic :: string
  lv_startedAt :: "int option"
  lv_last :: "live_sample option"
  lv_prev :: "live_sample option"
  lv_samples :: "live_sample list"
  lv_laps :: "live_lap list"
  lv_run :: lap_run
  lv_disarmed :: bool
  lv_total :: rat
  lv_out :: rat
  lv_in :: rat
  lv_rate :: "rat option"
  lv_flags :: "event_flag list"

record saved_lap =
  sc_start :: "int option"
  sc_sector :: "int option"
  sc_split :: nat
  sc_sectors :: "int list"
  sc_energy :: rat
  sc_out :: "rat option"
  sc_in :: "rat option"
  sc_dist :: rat
  sc_samples :: "live_sample list"
  sc_delta :: rat

type_synonym session_info = "(string, json) jsmap"

record saved_session =
  sv_version :: nat
  sv_savedAt :: int
  sv_source :: string
  sv_topic :: string
  sv_targetLaps :: rat
  sv_targetKwh :: "rat option"
  sv_cutoff :: "rat option"
  sv_total :: rat
  sv_out :: "rat option"
  sv_in :: "rat option"
  sv_laps :: "live_lap list"
  sv_selected :: "string list"
  sv_selectionSaved :: bool
  sv_tail :: "live_sample list"
  sv_current :: "saved_lap option"
  sv_hasSectors :: bool
  sv_info :: "session_info option"
  sv_flags :: "event_flag list option"

record page =
  pg_live :: live_state
  pg_mirror :: bool
  pg_selected :: "string list"
  pg_known :: "string list"
  pg_wall :: int
  pg_track :: track
  pg_info :: "session_info option"
  pg_source :: string
  pg_targetLaps :: rat
  pg_targetKwh :: rat
  pg_cutoff :: rat
  pg_metadata :: "(string, json) jsmap"
  pg_setup :: "(string, json) jsmap"
  pg_fromFile :: bool
  pg_offer :: "saved_session option"
  pg_ended :: bool
  pg_lastLocal :: int
  pg_lastBackend :: int
  pg_savedLaps :: nat
  pg_local :: "saved_session option"
  pg_idb :: "saved_session option"
  pg_backend :: "saved_session option"
  pg_endedAt :: int

definition SESSION_AUTOSAVE_SAMPLE_CAP :: nat where "SESSION_AUTOSAVE_SAMPLE_CAP = 1500"

definition LIVE_SAMPLE_MEMORY_CAP :: nat where "LIVE_SAMPLE_MEMORY_CAP = 6000"

definition LIVE_LAP_SAMPLE_MEMORY_CAP :: nat where "LIVE_LAP_SAMPLE_MEMORY_CAP = 6000"

definition no_run :: lap_run where
  "no_run = \<lparr>rn_start = None, rn_sector = None, rn_split = 0, rn_sectors = [], rn_energy = 0, rn_out = 0, rn_in = 0,
     rn_dist = 0, rn_samples = [], rn_delta = 0\<rparr>"

definition run_at :: "int \<Rightarrow> live_sample \<Rightarrow> lap_run" where
  "run_at t s = no_run\<lparr>rn_start := Some t, rn_sector := Some t, rn_samples := [s]\<rparr>"

definition EMPTY_LIVE_STATE :: live_state where
  "EMPTY_LIVE_STATE = \<lparr>lv_running = False, lv_connected = False, lv_topic = [], lv_startedAt = None, lv_last = None,
     lv_prev = None, lv_samples = [], lv_laps = [], lv_run = no_run, lv_disarmed = False, lv_total = 0, lv_out = 0, lv_in = 0,
     lv_rate = None, lv_flags = []\<rparr>"

text \<open>A time is tested for truth: \<^verbatim>\<open>null\<close> and 0 are false.\<close>

definition set_ms :: "int option \<Rightarrow> bool" where
  "set_ms t \<longleftrightarrow> t \<noteq> None \<and> t \<noteq> Some 0"

subsection \<open>Crossing the gates\<close>

definition sampleCrossesGate :: "live_sample \<Rightarrow> live_sample \<Rightarrow> gate_line \<Rightarrow> bool" where
  "sampleCrossesGate p s g \<longleftrightarrow> hasGps p \<and> hasGps s
     \<and> segmentsCross_live (the (ls_lon p), the (ls_lat p)) (the (ls_lon s), the (ls_lat s)) (gl_lon1 g, gl_lat1 g) (gl_lon2 g, gl_lat2 g)"

definition MAX_PLAUSIBLE_GPS_MPS :: rat where "MAX_PLAUSIBLE_GPS_MPS = 75"

definition step_seconds :: "live_sample option \<Rightarrow> live_sample \<Rightarrow> rat" where
  "step_seconds prev s = (case prev of Some p \<Rightarrow> max 0 (seconds_between p s) | None \<Rightarrow> 0)"

definition step_distance :: "js_math \<Rightarrow> live_sample option \<Rightarrow> live_sample \<Rightarrow> rat" where
  "step_distance M prev s = (case prev of Some p \<Rightarrow> if hasGps p \<and> hasGps s then gps_distance M p s else 0 | None \<Rightarrow> 0)"

definition gps_trustworthy :: "js_math \<Rightarrow> live_sample option \<Rightarrow> live_sample \<Rightarrow> bool" where
  "gps_trustworthy M prev s =
     (let dt = step_seconds prev s; v = (if dt > 0 then step_distance M prev s / dt else 0)
      in (case prev of Some p \<Rightarrow> hasGps p \<and> hasGps s | None \<Rightarrow> False) \<and> v \<le> MAX_PLAUSIBLE_GPS_MPS)"

definition carry_run :: "js_math \<Rightarrow> live_sample option \<Rightarrow> live_sample \<Rightarrow> lap_run \<Rightarrow> lap_run" where
  "carry_run M prev s r =
     (let (out, inn) = vcuEnergyDeltaWh prev s
      in r\<lparr>rn_energy := rn_energy r + (out - inn), rn_out := rn_out r + out, rn_in := rn_in r + inn,
           rn_dist := rn_dist r + step_distance M prev s,
           rn_samples := last_n LIVE_LAP_SAMPLE_MEMORY_CAP (rn_samples r @ [s])\<rparr>)"

definition avg_speed :: "int \<Rightarrow> rat \<Rightarrow> rat option" where
  "avg_speed dur d = (if dur > 0 \<and> d > 0 then Some (d / (rat_of_int dur / 1000)) else None)"

definition flying_lap :: "nat \<Rightarrow> int \<Rightarrow> gate_line list \<Rightarrow> lap_run \<Rightarrow> live_lap" where
  "flying_lap n t splits r =
     (let start = the (rn_start r); dur = t - start;
          final = (if set_ms (rn_sector r) then t - the (rn_sector r) else dur)
      in \<lparr>ll_id = ''live-lap-'' @ nat_text n @ ''-'' @ int_text t, ll_label = ''Lap '' @ nat_text n, ll_kind = Flying,
          ll_start = start, ll_end = t, ll_dur = dur,
          ll_sectors = (if splits \<noteq> [] \<and> final > 0 then rn_sectors r @ [final] else []),
          ll_energy = rn_energy r, ll_out = Some (rn_out r), ll_in = Some (rn_in r), ll_dist = rn_dist r,
          ll_avg = avg_speed dur (rn_dist r), ll_temp = lapMaxCellTempC (rn_samples r), ll_notes = None, ll_byHand = False\<rparr>)"

definition split_gates :: "gate_line list \<Rightarrow> gate_line list" where
  "split_gates gs = filter (\<lambda>g. gl_role g = Split_gate) gs"

definition split_step :: "gate_line list \<Rightarrow> live_sample \<Rightarrow> live_sample \<Rightarrow> lap_run \<Rightarrow> lap_run" where
  "split_step splits p s r =
     (if set_ms (rn_start r) \<and> rn_split r < length splits \<and> sampleCrossesGate p s (splits ! rn_split r)
      then let dur = ls_t s - (case rn_sector r of Some b \<Rightarrow> b | None \<Rightarrow> the (rn_start r)) in
        (if dur > 500 then r\<lparr>rn_sectors := rn_sectors r @ [dur], rn_sector := Some (ls_t s), rn_split := rn_split r + 1\<rparr> else r)
      else r)"

text \<open>The run after the gates, the lap that was closed, and whether the start line was crossed.\<close>

definition gate_step :: "js_math \<Rightarrow> track \<Rightarrow> live_state \<Rightarrow> live_sample \<Rightarrow> lap_run \<Rightarrow> lap_run \<times> live_lap option \<times> bool" where
  "gate_step M tr st s r = (case lv_last st of
       None \<Rightarrow> (r, None, False)
     | Some p \<Rightarrow>
         if \<not> gps_trustworthy M (Some p) s then (r, None, False)
         else let splits = split_gates (tk_gates tr) in
           if (case start_gate (tk_gates tr) of Some g \<Rightarrow> \<not> lv_disarmed st \<and> sampleCrossesGate p s g | None \<Rightarrow> False)
           then (run_at (ls_t s) s,
                 (if set_ms (rn_start r) \<and> ls_t s - the (rn_start r) > 5000
                  then Some (flying_lap (length (lv_laps st) + 1) (ls_t s) splits r) else None), True)
           else (split_step splits p s r, None, False))"

definition best_step :: "live_lap option \<Rightarrow> live_lap \<Rightarrow> live_lap option" where
  "best_step c l = (case c of None \<Rightarrow> Some l | Some b \<Rightarrow> if ll_dur l < ll_dur b then Some l else Some b)"

definition best_lap_of :: "live_lap list \<Rightarrow> live_lap option" where
  "best_lap_of ls = foldl best_step None ls"

definition estimateDeltaRate :: "live_sample \<Rightarrow> live_lap option \<Rightarrow> rat option" where
  "estimateDeltaRate s best = (case (best, ls_speed s) of
       (Some b, Some v) \<Rightarrow> if v \<le> 0 then None
         else Some (max (- (3 / 2)) (min (3 / 2) ((case ll_avg b of Some a \<Rightarrow> a | None \<Rightarrow> 20) / max (1 / 2) v - 1)))
     | _ \<Rightarrow> None)"

definition keep_sample :: "live_sample \<Rightarrow> live_state \<Rightarrow> live_state" where
  "keep_sample s st = st\<lparr>lv_prev := lv_last st, lv_last := Some s,
     lv_samples := last_n LIVE_SAMPLE_MEMORY_CAP (lv_samples st @ [s])\<rparr>"

definition count_energy :: "live_sample \<Rightarrow> live_state \<Rightarrow> live_state" where
  "count_energy s st = (let (out, inn) = vcuEnergyDeltaWh (lv_last st) s
     in st\<lparr>lv_total := lv_total st + (out - inn), lv_out := lv_out st + out, lv_in := lv_in st + inn\<rparr>)"

definition leader_sample :: "js_math \<Rightarrow> track \<Rightarrow> live_sample \<Rightarrow> live_state \<Rightarrow> live_state \<times> live_lap option" where
  "leader_sample M tr s st =
     (let r0 = carry_run M (lv_last st) s (lv_run st);
          (r1, closed, reset) = gate_step M tr st s r0;
          laps = lv_laps st @ (case closed of Some l \<Rightarrow> [l] | None \<Rightarrow> []);
          rate = estimateDeltaRate s (best_lap_of laps);
          delta = (if reset then 0
                   else if set_ms (rn_start r1) \<and> rate \<noteq> None then rn_delta (lv_run st) + the rate * step_seconds (lv_last st) s * 1000
                   else rn_delta (lv_run st))
      in ((keep_sample s (count_energy s st))\<lparr>lv_running := True, lv_connected := True, lv_laps := laps,
            lv_run := r1\<lparr>rn_delta := delta\<rparr>, lv_rate := rate\<rparr>, closed))"

definition mirror_sample :: "live_sample \<Rightarrow> live_state \<Rightarrow> live_state" where
  "mirror_sample s st = keep_sample s (count_energy s st)"

subsection \<open>Saving\<close>

record writes =
  wr_local :: bool
  wr_idb :: bool
  wr_backend :: bool

definition lap_ids :: "live_lap list \<Rightarrow> string list" where
  "lap_ids ls = map ll_id ls"

definition selectedLapIdsForSave :: "live_lap list \<Rightarrow> page \<Rightarrow> string list" where
  "selectedLapIdsForSave ls p =
     foldl (\<lambda>sel i. if i \<notin> set (pg_known p) then js_add i sel else sel)
       (filter (\<lambda>i. i \<in> set (lap_ids ls)) (pg_selected p)) (lap_ids ls)"

definition saved_run :: "nat option \<Rightarrow> lap_run \<Rightarrow> saved_lap option" where
  "saved_run cap r = (if set_ms (rn_start r) then Some
     \<lparr>sc_start = rn_start r, sc_sector = rn_sector r, sc_split = rn_split r, sc_sectors = rn_sectors r, sc_energy = rn_energy r,
      sc_out = Some (rn_out r), sc_in = Some (rn_in r), sc_dist = rn_dist r,
      sc_samples = (case cap of Some n \<Rightarrow> last_n n (rn_samples r) | None \<Rightarrow> rn_samples r), sc_delta = rn_delta r\<rparr>
     else None)"

definition spread_json :: "(string, json) jsmap \<Rightarrow> (string, json) jsmap \<Rightarrow> (string, json) jsmap" where
  "spread_json a b = fold (\<lambda>(k, v). jm_set k v) b a"

definition json_map :: "json \<Rightarrow> (string, json) jsmap" where
  "json_map v = (case v of JObj m \<Rightarrow> m | _ \<Rightarrow> [])"

definition plan_json :: "page \<Rightarrow> json" where
  "plan_json p = JObj [(''targetLaps'', JNum (JFin (pg_targetLaps p))), (''targetEnergyKwh'', JNum (JFin (pg_targetKwh p))),
     (''soeCutoffCellV'', JNum (JFin (pg_cutoff p)))]"

definition info_for_save :: "page \<Rightarrow> session_info option" where
  "info_for_save p = map_option (\<lambda>m.
     jm_set ''setup'' (JObj (spread_json (json_map (field (JObj m) ''setup'')) (pg_setup p)))
       (jm_set ''plan'' (plan_json p)
         (jm_set ''metadata'' (JObj (spread_json (json_map (field (JObj m) ''metadata'')) (pg_metadata p))) m))) (pg_info p)"

definition buildSavedSession :: "int \<Rightarrow> bool \<Rightarrow> live_state \<Rightarrow> page \<Rightarrow> saved_session" where
  "buildSavedSession now full st p =
     (let cap = (if full then None else Some SESSION_AUTOSAVE_SAMPLE_CAP) in
      \<lparr>sv_version = 1, sv_savedAt = now, sv_source = pg_source p, sv_topic = lv_topic st, sv_targetLaps = pg_targetLaps p,
       sv_targetKwh = Some (pg_targetKwh p), sv_cutoff = Some (pg_cutoff p), sv_total = lv_total st, sv_out = Some (lv_out st),
       sv_in = Some (lv_in st), sv_laps = lv_laps st, sv_selected = selectedLapIdsForSave (lv_laps st) p, sv_selectionSaved = True,
       sv_tail = (case cap of Some n \<Rightarrow> last_n n (lv_samples st) | None \<Rightarrow> lv_samples st), sv_current = saved_run cap (lv_run st),
       sv_hasSectors = (pg_fromFile p \<or> list_ex (\<lambda>l. ll_sectors l \<noteq> []) (lv_laps st)), sv_info = info_for_save p,
       sv_flags = Some (lv_flags st)\<rparr>)"

definition has_data :: "live_state \<Rightarrow> bool" where
  "has_data st \<longleftrightarrow> lv_laps st \<noteq> [] \<or> lv_samples st \<noteq> [] \<or> set_ms (rn_start (lv_run st))"

definition persistLiveSession :: "writes \<Rightarrow> int \<Rightarrow> bool \<Rightarrow> bool \<Rightarrow> page \<Rightarrow> page" where
  "persistLiveSession w now saveLocal saveBackend p =
     (if \<not> has_data (pg_live p) \<and> pg_info p = None then p
      else let doc = buildSavedSession now False (pg_live p) p in
        p\<lparr>pg_local := (if saveLocal \<and> wr_local w then Some doc else pg_local p),
          pg_idb := (if saveLocal \<and> wr_idb w then Some doc else pg_idb p),
          pg_backend := (if saveBackend \<and> \<not> pg_mirror p \<and> wr_backend w then Some doc else pg_backend p)\<rparr>)"

definition stamp_saves :: "int \<Rightarrow> page \<Rightarrow> page" where
  "stamp_saves now p = p\<lparr>pg_lastLocal := now, pg_lastBackend := now\<rparr>"

definition stamp_laps :: "page \<Rightarrow> page" where
  "stamp_laps p = p\<lparr>pg_savedLaps := length (lv_laps (pg_live p))\<rparr>"

definition autosave :: "writes \<Rightarrow> int \<Rightarrow> page \<Rightarrow> page" where
  "autosave w now p =
     (let st = pg_live p; changed = (length (lv_laps st) \<noteq> pg_savedLaps p);
          toLocal = (changed \<or> now - pg_lastLocal p \<ge> 500); toBackend = (changed \<or> now - pg_lastBackend p \<ge> 2500)
      in if lv_laps st = [] \<and> lv_samples st = [] \<and> pg_info p = None then p
         else if \<not> toLocal \<and> \<not> toBackend then p
         else let q = persistLiveSession w now toLocal toBackend p in
           stamp_laps (q\<lparr>pg_lastLocal := (if toLocal then now else pg_lastLocal q),
                         pg_lastBackend := (if toBackend then now else pg_lastBackend q)\<rparr>))"

subsection \<open>Samples and the lap button\<close>

text \<open>A lap that was just closed is known at once, but its selection reaches the page's state with the next render: the
  document that is saved in between is built from the selection before it.\<close>

definition know_lap :: "string \<Rightarrow> page \<Rightarrow> page" where
  "know_lap i p = p\<lparr>pg_known := js_add i (pg_known p)\<rparr>"

definition select_lap :: "string \<Rightarrow> page \<Rightarrow> page" where
  "select_lap i p = p\<lparr>pg_selected := js_add i (pg_selected p)\<rparr>"

definition processLiveSample :: "js_math \<Rightarrow> writes \<Rightarrow> int \<Rightarrow> live_sample \<Rightarrow> page \<Rightarrow> page" where
  "processLiveSample M w now s p =
     (if pg_mirror p then p\<lparr>pg_live := mirror_sample s (pg_live p)\<rparr>
      else let (st, closed) = leader_sample M (pg_track p) s (pg_live p); q = p\<lparr>pg_live := st\<rparr> in
        (case closed of None \<Rightarrow> q
         | Some l \<Rightarrow> select_lap (ll_id l) (stamp_laps (stamp_saves now (persistLiveSession w now True True (know_lap (ll_id l) q))))))"

definition press_time :: "int \<Rightarrow> page \<Rightarrow> live_sample \<Rightarrow> int" where
  "press_time now p s = (let since = now - pg_wall p in ls_t s + (if 0 \<le> since \<and> since < 2000 then since else 0))"

definition manual_lap :: "int \<Rightarrow> live_state \<Rightarrow> live_lap" where
  "manual_lap t st =
     (let r = lv_run st; n = length (lv_laps st) + 1; dur = t - the (rn_start r) in
      \<lparr>ll_id = ''manual-lap-'' @ nat_text n @ ''-'' @ int_text t, ll_label = ''Manual '' @ nat_text n, ll_kind = Manual,
       ll_start = the (rn_start r), ll_end = t, ll_dur = dur, ll_sectors = rn_sectors r, ll_energy = rn_energy r,
       ll_out = Some (rn_out r), ll_in = Some (rn_in r), ll_dist = rn_dist r, ll_avg = avg_speed dur (rn_dist r),
       ll_temp = lapMaxCellTempC (rn_samples r), ll_notes = None, ll_byHand = False\<rparr>)"

definition triggerManualLap :: "writes \<Rightarrow> int \<Rightarrow> page \<Rightarrow> page" where
  "triggerManualLap w now p =
     (let st = pg_live p in
      case lv_last st of
        None \<Rightarrow> p
      | Some s \<Rightarrow>
          if pg_mirror p then p
          else let t = press_time now p s in
            if \<not> set_ms (rn_start (lv_run st)) then
              stamp_saves now (persistLiveSession w now True True (p\<lparr>pg_live := st\<lparr>lv_run := run_at t s, lv_disarmed := False\<rparr>\<rparr>))
            else if t - the (rn_start (lv_run st)) \<le> 0 then p
            else let l = manual_lap t st; q = p\<lparr>pg_live := st\<lparr>lv_laps := lv_laps st @ [l], lv_run := run_at t s\<rparr>\<rparr> in
              select_lap (ll_id l) (stamp_laps (stamp_saves now (persistLiveSession w now True True (know_lap (ll_id l) q)))))"

definition stopLap :: "writes \<Rightarrow> int \<Rightarrow> page \<Rightarrow> page" where
  "stopLap w now p =
     (if pg_mirror p \<or> \<not> set_ms (rn_start (lv_run (pg_live p))) then p
      else let q = triggerManualLap w now p in
        if length (lv_laps (pg_live q)) = length (lv_laps (pg_live p)) then q
        else persistLiveSession w now True True (q\<lparr>pg_live := (pg_live q)\<lparr>lv_run := no_run, lv_disarmed := True\<rparr>\<rparr>))"

definition hand_lap :: "int \<Rightarrow> int \<Rightarrow> nat \<Rightarrow> live_lap" where
  "hand_lap now dur n =
     \<lparr>ll_id = ''manual-lap-'' @ nat_text n @ ''-'' @ int_text now, ll_label = ''Manual '' @ nat_text n, ll_kind = Manual,
      ll_start = now - dur, ll_end = now, ll_dur = dur, ll_sectors = [], ll_energy = 0, ll_out = None, ll_in = None, ll_dist = 0,
      ll_avg = None, ll_temp = None, ll_notes = Some ''entered by hand'', ll_byHand = True\<rparr>"

definition addManualLap :: "writes \<Rightarrow> int \<Rightarrow> int \<Rightarrow> page \<Rightarrow> page" where
  "addManualLap w now dur p =
     (if pg_mirror p \<or> \<not> dur > 0 then p
      else let st = pg_live p; l = hand_lap now dur (length (lv_laps st) + 1); q = p\<lparr>pg_live := st\<lparr>lv_laps := lv_laps st @ [l]\<rparr>\<rparr> in
        select_lap (ll_id l) (stamp_laps (persistLiveSession w now True True (know_lap (ll_id l) q))))"

subsection \<open>Edits\<close>

definition map_laps :: "(live_lap \<Rightarrow> live_lap) \<Rightarrow> page \<Rightarrow> page" where
  "map_laps f p = p\<lparr>pg_live := (pg_live p)\<lparr>lv_laps := map f (lv_laps (pg_live p))\<rparr>\<rparr>"

definition editLapDuration :: "writes \<Rightarrow> int \<Rightarrow> string \<Rightarrow> int \<Rightarrow> page \<Rightarrow> page" where
  "editLapDuration w now i dur p =
     (if pg_mirror p \<or> dur < 0 then p
      else persistLiveSession w now True True
        (map_laps (\<lambda>l. if ll_id l = i then l\<lparr>ll_dur := dur, ll_end := ll_start l + dur\<rparr> else l) p))"

definition editLapNote :: "writes \<Rightarrow> int \<Rightarrow> string \<Rightarrow> string \<Rightarrow> page \<Rightarrow> page" where
  "editLapNote w now i note p =
     (if pg_mirror p then p
      else persistLiveSession w now True True (map_laps (\<lambda>l. if ll_id l = i then l\<lparr>ll_notes := Some note\<rparr> else l) p))"

text \<open>The dialog is asked only when the lap exists.\<close>

definition deleteLap :: "writes \<Rightarrow> int \<Rightarrow> bool \<Rightarrow> string \<Rightarrow> page \<Rightarrow> page" where
  "deleteLap w now confirmed i p =
     (let st = pg_live p in
      if pg_mirror p \<or> (i \<in> set (lap_ids (lv_laps st)) \<and> \<not> confirmed) then p
      else (persistLiveSession w now True True (p\<lparr>pg_live := st\<lparr>lv_laps := filter (\<lambda>l. ll_id l \<noteq> i) (lv_laps st)\<rparr>\<rparr>))
             \<lparr>pg_selected := filter (\<lambda>j. j \<noteq> i) (pg_selected p)\<rparr>)"

definition toggleLapSelected :: "string \<Rightarrow> page \<Rightarrow> page" where
  "toggleLapSelected i p =
     p\<lparr>pg_selected := (if i \<in> set (pg_selected p) then filter (\<lambda>j. j \<noteq> i) (pg_selected p) else pg_selected p @ [i])\<rparr>"

definition auto_select :: "page \<Rightarrow> page" where
  "auto_select p = foldl (\<lambda>q i. if i \<in> set (pg_known q) then q else select_lap i (know_lap i q)) p (lap_ids (lv_laps (pg_live p)))"

subsection \<open>Event flags\<close>

definition eventFlag_record :: "writes \<Rightarrow> int \<Rightarrow> string \<Rightarrow> page \<Rightarrow> page" where
  "eventFlag_record w now label p =
     (if pg_mirror p \<or> trim label = [] \<or> pg_info p = None then p
      else persistLiveSession w now True False
        (p\<lparr>pg_live := (pg_live p)\<lparr>lv_flags := lv_flags (pg_live p) @ [\<lparr>ef_t = now, ef_label = label, ef_saved = False\<rparr>]\<rparr>\<rparr>))"

definition eventFlag_answer :: "writes \<Rightarrow> int \<Rightarrow> int \<Rightarrow> string \<Rightarrow> bool \<Rightarrow> page \<Rightarrow> page" where
  "eventFlag_answer w now t label saved p =
     persistLiveSession w now True True
       (p\<lparr>pg_live := (pg_live p)\<lparr>lv_flags :=
            map (\<lambda>f. if ef_t f = t \<and> ef_label f = label then f\<lparr>ef_saved := saved\<rparr> else f) (lv_flags (pg_live p))\<rparr>\<rparr>)"

definition pull_flags :: "int \<Rightarrow> (int \<times> string) list \<Rightarrow> page \<Rightarrow> page" where
  "pull_flags started fs p =
     (let cur = lv_flags (pg_live p);
          new = filter (\<lambda>(t, l). t \<ge> started \<and> (t, l) \<notin> set (map (\<lambda>f. (ef_t f, ef_label f)) cur)) fs
      in if new = [] then p
         else p\<lparr>pg_live := (pg_live p)\<lparr>lv_flags :=
                sort_key ef_t (cur @ map (\<lambda>(t, l). \<lparr>ef_t = t, ef_label = l, ef_saved = True\<rparr>) new)\<rparr>\<rparr>)"

subsection \<open>The feed\<close>

datatype live_event =
    Status_event bool string
  | Heartbeat_event string
  | Sample_event live_sample

definition topic_or :: "string \<Rightarrow> live_state \<Rightarrow> string" where
  "topic_or t st = (if t = [] then lv_topic st else t)"

definition handleLiveEvent :: "js_math \<Rightarrow> writes \<Rightarrow> int \<Rightarrow> live_event \<Rightarrow> page \<Rightarrow> page" where
  "handleLiveEvent M w now e p = (case e of
       Status_event ok t \<Rightarrow> p\<lparr>pg_live := (pg_live p)\<lparr>lv_running := ok \<and> lv_running (pg_live p), lv_connected := ok,
                                   lv_topic := topic_or t (pg_live p)\<rparr>\<rparr>
     | Heartbeat_event t \<Rightarrow> p\<lparr>pg_live := (pg_live p)\<lparr>lv_connected := True, lv_topic := topic_or t (pg_live p)\<rparr>\<rparr>
     | Sample_event s \<Rightarrow> processLiveSample M w now s (p\<lparr>pg_wall := now\<rparr>))"

definition startLiveData :: "int \<Rightarrow> page \<Rightarrow> page" where
  "startLiveData now p =
     (let st = pg_live p; base = (if has_data st then st else EMPTY_LIVE_STATE) in
      p\<lparr>pg_ended := False,
        pg_live := base\<lparr>lv_running := True, lv_connected := False,
          lv_startedAt := (case lv_startedAt st of Some t \<Rightarrow> Some t | None \<Rightarrow> Some now)\<rparr>\<rparr>)"

definition stopLiveData :: "page \<Rightarrow> page" where
  "stopLiveData p = p\<lparr>pg_live := (pg_live p)\<lparr>lv_running := False, lv_connected := False\<rparr>\<rparr>"

subsection \<open>Sessions\<close>

definition removed :: "bool \<Rightarrow> 'a option \<Rightarrow> 'a option" where
  "removed ok x = (if ok then None else x)"

definition clearLiveSessionState :: "writes \<Rightarrow> page \<Rightarrow> page" where
  "clearLiveSessionState w p =
     p\<lparr>pg_live := EMPTY_LIVE_STATE, pg_known := [], pg_lastLocal := 0, pg_lastBackend := 0, pg_savedLaps := 0, pg_selected := [],
       pg_offer := None, pg_local := removed (wr_local w) (pg_local p), pg_idb := removed (wr_idb w) (pg_idb p),
       pg_backend := removed (wr_backend w) (pg_backend p)\<rparr>"

definition markLiveSessionEnded :: "int \<Rightarrow> page \<Rightarrow> page" where
  "markLiveSessionEnded now p = p\<lparr>pg_endedAt := now\<rparr>"

definition clearLiveSessionEnded :: "page \<Rightarrow> page" where
  "clearLiveSessionEnded p = p\<lparr>pg_endedAt := 0\<rparr>"

definition resetLiveSession :: "writes \<Rightarrow> int \<Rightarrow> bool \<Rightarrow> page \<Rightarrow> page" where
  "resetLiveSession w now confirmed p =
     (if pg_mirror p \<or> (has_data (pg_live p) \<and> \<not> confirmed) then p
      else startLiveData now (clearLiveSessionState w (markLiveSessionEnded now (p\<lparr>pg_info := None\<rparr>))))"

record session_draft =
  sd_name :: string
  sd_car :: string
  sd_driver :: string
  sd_event :: string
  sd_venue :: string

text \<open>The random part of the id, the text of the clock and the id of the client are given.\<close>

definition new_session_info :: "int \<Rightarrow> string \<Rightarrow> string \<Rightarrow> string \<Rightarrow> session_draft \<Rightarrow> page \<Rightarrow> session_info" where
  "new_session_info now rid clock client d p =
     [(''id'', JStr (''sess-'' @ int_text now @ ''-'' @ rid)),
      (''name'', JStr (if trim (sd_name d) \<noteq> [] then trim (sd_name d) else (if sd_venue d \<noteq> [] then sd_venue d else ''Session'') @ '' '' @ clock)),
      (''car'', JStr (sd_car d)), (''driver'', JStr (trim (sd_driver d))), (''eventType'', JStr (sd_event d)), (''venue'', JStr (trim (sd_venue d))),
      (''startedAt'', JNum (JFin (rat_of_int now))), (''endedAt'', JNull), (''laps'', JNum (JFin 0)),
      (''metadata'', JObj (spread_json (pg_metadata p) [(''driver'', JStr (trim (sd_driver d))), (''venue'', JStr (trim (sd_venue d))),
         (''event'', JStr (sd_event d)), (''session'', JStr (trim (sd_name d)))])),
      (''plan'', plan_json p), (''setup'', JObj (pg_setup p)), (''starterId'', if client \<noteq> [] then JStr client else JUndef)]"

definition startNewSession :: "writes \<Rightarrow> int \<Rightarrow> string \<Rightarrow> string \<Rightarrow> string \<Rightarrow> session_draft \<Rightarrow> page \<Rightarrow> page" where
  "startNewSession w now rid clock client d p =
     (if pg_mirror p then p
      else let info = new_session_info now rid clock client d p; v = (\<lambda>k. field (JObj info) k) in
        startLiveData now ((clearLiveSessionEnded (clearLiveSessionState w p))\<lparr>pg_info := Some info, pg_source := sd_car d,
          pg_metadata := spread_json (pg_metadata p) [(''driver'', v ''driver''), (''venue'', v ''venue''), (''event'', v ''eventType''), (''session'', v ''name'')]\<rparr>))"

definition link_day :: "json \<Rightarrow> rat \<Rightarrow> page \<Rightarrow> page" where
  "link_day i day p = (case pg_info p of
       Some m \<Rightarrow> if field (JObj m) ''id'' = i then p\<lparr>pg_info := Some (jm_set ''dayId'' (JNum (JFin day)) m)\<rparr> else p
     | None \<Rightarrow> p)"

text \<open>The setup follows the session when another one is shown.\<close>

definition restore_setup :: "page \<Rightarrow> page" where
  "restore_setup p = (case pg_info p of
       Some m \<Rightarrow> if truthy (field (JObj m) ''setup'') then p\<lparr>pg_setup := json_map (field (JObj m) ''setup'')\<rparr> else p
     | None \<Rightarrow> p)"

definition stopEvent :: "writes \<Rightarrow> int \<Rightarrow> page \<Rightarrow> page" where
  "stopEvent w now p =
     (let st = pg_live p; hasData = (lv_laps st \<noteq> [] \<or> lv_samples st \<noteq> [] \<or> lv_flags st \<noteq> []) in
      if pg_mirror p \<or> (\<not> hasData \<and> pg_info p = None) then p
      else (clearLiveSessionState w (markLiveSessionEnded now (p\<lparr>pg_info := None\<rparr>)))\<lparr>pg_ended := True\<rparr>)"

definition lapEnergyOutWh :: "live_lap \<Rightarrow> rat" where
  "lapEnergyOutWh l = (case ll_out l of Some x \<Rightarrow> x | None \<Rightarrow> max 0 (ll_energy l))"

definition lapEnergyInWh :: "live_lap \<Rightarrow> rat" where
  "lapEnergyInWh l = (case ll_in l of Some x \<Rightarrow> x | None \<Rightarrow> 0)"

definition normalizeSavedLiveLap :: "live_lap \<Rightarrow> live_lap" where
  "normalizeSavedLiveLap l = l\<lparr>ll_out := Some (lapEnergyOutWh l), ll_in := Some (lapEnergyInWh l)\<rparr>"

definition restored_run :: "saved_lap option \<Rightarrow> lap_run" where
  "restored_run c = (case c of
       None \<Rightarrow> no_run
     | Some r \<Rightarrow> \<lparr>rn_start = sc_start r, rn_sector = sc_sector r, rn_split = sc_split r, rn_sectors = sc_sectors r,
          rn_energy = sc_energy r, rn_out = (case sc_out r of Some x \<Rightarrow> x | None \<Rightarrow> max 0 (sc_energy r)),
          rn_in = (case sc_in r of Some x \<Rightarrow> x | None \<Rightarrow> 0), rn_dist = sc_dist r, rn_samples = sc_samples r, rn_delta = sc_delta r\<rparr>)"

text \<open>A mirror takes the laps and the running lap of the leader, keeps its own samples, and its own energy once it has any.\<close>

definition adopt_state :: "saved_session \<Rightarrow> live_state \<Rightarrow> live_state" where
  "adopt_state sv st =
     st\<lparr>lv_laps := map normalizeSavedLiveLap (sv_laps sv),
        lv_run := (restored_run (sv_current sv))\<lparr>rn_samples := rn_samples (lv_run st)\<rparr>,
        lv_total := (if lv_total st \<noteq> 0 then lv_total st else sv_total sv),
        lv_out := (if lv_out st > 0 then lv_out st else (case sv_out sv of Some x \<Rightarrow> x | None \<Rightarrow> max 0 (sv_total sv))),
        lv_in := (if lv_in st > 0 then lv_in st else (case sv_in sv of Some x \<Rightarrow> x | None \<Rightarrow> 0)),
        lv_flags := (case sv_flags sv of Some fs \<Rightarrow> fs | None \<Rightarrow> lv_flags st)\<rparr>"

definition adoptSharedSession :: "saved_session \<Rightarrow> page \<Rightarrow> page" where
  "adoptSharedSession sv p =
     p\<lparr>pg_live := adopt_state sv (pg_live p), pg_known := map ll_id (sv_laps sv), pg_selected := sv_selected sv,
       pg_info := (case sv_info sv of Some i \<Rightarrow> Some i | None \<Rightarrow> pg_info p)\<rparr>"

definition PACK_ENERGY_KWH :: rat where
  "PACK_ENERGY_KWH = (130 * 5 * 3 * (36 / 10)) / 1000"

definition DEFAULT_SOE_CUTOFF_CELL_V :: rat where
  "DEFAULT_SOE_CUTOFF_CELL_V = 28 / 10"

definition normalizeSoeCutoffCellV :: "rat option \<Rightarrow> rat" where
  "normalizeSoeCutoffCellV v = (case v of None \<Rightarrow> DEFAULT_SOE_CUTOFF_CELL_V
     | Some x \<Rightarrow> if x \<le> 0 then DEFAULT_SOE_CUTOFF_CELL_V else clamp_rat 2 (42 / 10) x)"

definition isLegacyDefaultSoeCutoff :: "rat option \<Rightarrow> bool" where
  "isLegacyDefaultSoeCutoff v = (case v of None \<Rightarrow> False
     | Some x \<Rightarrow> \<bar>x - 25 / 10\<bar> < 1 / 1000 \<or> \<bar>x - 3\<bar> < 1 / 1000)"

definition normalizeSavedSoeCutoffCellV :: "rat option \<Rightarrow> rat" where
  "normalizeSavedSoeCutoffCellV v = (if isLegacyDefaultSoeCutoff v then DEFAULT_SOE_CUTOFF_CELL_V else normalizeSoeCutoffCellV v)"

definition defaultSelectedLapIds :: "live_lap list \<Rightarrow> string list \<Rightarrow> bool \<Rightarrow> string list" where
  "defaultSelectedLapIds ls saved selectionSaved =
     (let valid = filter (\<lambda>i. i \<in> set (lap_ids ls)) saved in
      if selectionSaved then valid else if valid \<noteq> [] then valid else lap_ids ls)"

definition saved_tail :: "saved_session \<Rightarrow> live_sample list" where
  "saved_tail sv = (if sv_tail sv \<noteq> [] then sv_tail sv else case sv_current sv of Some c \<Rightarrow> sc_samples c | None \<Rightarrow> [])"

definition restored_state :: "saved_session \<Rightarrow> live_state" where
  "restored_state sv =
     (let laps = map normalizeSavedLiveLap (sv_laps sv); ss = saved_tail sv in
      EMPTY_LIVE_STATE\<lparr>lv_topic := sv_topic sv,
        lv_startedAt := (case laps of l # _ \<Rightarrow> Some (ll_start l) | [] \<Rightarrow>
            (case (case sv_current sv of Some c \<Rightarrow> sc_start c | None \<Rightarrow> None) of Some t \<Rightarrow> Some t
             | None \<Rightarrow> (case ss of s # _ \<Rightarrow> Some (ls_t s) | [] \<Rightarrow> None))),
        lv_last := (if ss = [] then None else Some (last ss)),
        lv_prev := (if length ss > 1 then Some (ss ! (length ss - 2)) else None),
        lv_samples := ss, lv_laps := laps, lv_run := restored_run (sv_current sv), lv_total := sv_total sv,
        lv_out := (case sv_out sv of Some x \<Rightarrow> x | None \<Rightarrow> max 0 (sv_total sv)), lv_in := (case sv_in sv of Some x \<Rightarrow> x | None \<Rightarrow> 0),
        lv_flags := (case sv_flags sv of Some fs \<Rightarrow> fs | None \<Rightarrow> [])\<rparr>)"

definition restoreLiveState :: "saved_session \<Rightarrow> bool \<Rightarrow> page \<Rightarrow> page" where
  "restoreLiveState sv fromFile p =
     (let st = restored_state sv in
      p\<lparr>pg_known := lap_ids (lv_laps st), pg_live := st, pg_savedLaps := length (lv_laps st),
        pg_source := (if sv_source sv \<in> {''orion'', ''angelique''} then sv_source sv else pg_source p),
        pg_targetLaps := sv_targetLaps sv,
        pg_targetKwh := (case sv_targetKwh sv of Some x \<Rightarrow> if x > 0 then x else PACK_ENERGY_KWH | None \<Rightarrow> PACK_ENERGY_KWH),
        pg_cutoff := normalizeSavedSoeCutoffCellV (sv_cutoff sv),
        pg_selected := defaultSelectedLapIds (lv_laps st) (sv_selected sv) (sv_selectionSaved sv),
        pg_fromFile := (fromFile \<or> sv_hasSectors sv), pg_info := sv_info sv,
        pg_metadata := (case sv_info sv of
            Some m \<Rightarrow> (if truthy (field (JObj m) ''metadata'') then spread_json (pg_metadata p) (json_map (field (JObj m) ''metadata''))
                       else pg_metadata p)
          | None \<Rightarrow> pg_metadata p),
        pg_offer := None, pg_ended := False, pg_endedAt := 0\<rparr>)"

definition isRestorableSession :: "saved_session \<Rightarrow> bool" where
  "isRestorableSession sv \<longleftrightarrow> sv_version sv = 1
     \<and> (sv_info sv \<noteq> None \<or> sv_laps sv \<noteq> [] \<or> sv_tail sv \<noteq> [] \<or> (\<exists>c. sv_current sv = Some c \<and> sc_samples c \<noteq> []))"

definition restore_candidates :: "page \<Rightarrow> saved_session list" where
  "restore_candidates p =
     filter (\<lambda>sv. sv_savedAt sv > pg_endedAt p)
       (filter isRestorableSession (List.map_filter (\<lambda>x. x) [pg_local p, pg_idb p, pg_backend p]))"

definition later_saved :: "saved_session \<Rightarrow> saved_session \<Rightarrow> saved_session" where
  "later_saved best sv = (if sv_savedAt sv \<ge> sv_savedAt best then sv else best)"

definition SESSION_AUTO_RESTORE_MAX_AGE_MS :: int where "SESSION_AUTO_RESTORE_MAX_AGE_MS = 12 * 60 * 60 * 1000"

definition SESSION_RESUME_OFFER_MAX_AGE_MS :: int where "SESSION_RESUME_OFFER_MAX_AGE_MS = 24 * 60 * 60 * 1000"

definition restore_on_mount :: "int \<Rightarrow> page \<Rightarrow> page" where
  "restore_on_mount now p = (case restore_candidates p of
       [] \<Rightarrow> p
     | c # cs \<Rightarrow>
         let offer = foldl later_saved c (c # cs) in
         if now - sv_savedAt offer \<le> SESSION_AUTO_RESTORE_MAX_AGE_MS then restoreLiveState offer False p
         else if now - sv_savedAt offer \<le> SESSION_RESUME_OFFER_MAX_AGE_MS then p\<lparr>pg_offer := Some offer\<rparr>
         else p)"

text \<open>A reload throws the state of the page away and keeps what the browser and the server have stored.\<close>

definition EMPTY_METADATA :: "(string, json) jsmap" where
  "EMPTY_METADATA = [(''driver'', JStr []), (''vehicle_id'', JStr []), (''vehicle_weight'', JStr []), (''vehicle_type'', JStr ''EV''),
     (''vehicle_comment'', JStr []), (''venue'', JStr []), (''event'', JStr []), (''session'', JStr []), (''short_comment'', JStr []),
     (''long_comment'', JStr [])]"

definition fresh_page :: "page \<Rightarrow> page" where
  "fresh_page p = p\<lparr>pg_live := EMPTY_LIVE_STATE, pg_selected := [], pg_known := [], pg_wall := 0, pg_info := None,
     pg_metadata := EMPTY_METADATA, pg_setup := [], pg_fromFile := False, pg_offer := None, pg_ended := False, pg_lastLocal := 0, pg_lastBackend := 0, pg_savedLaps := 0\<rparr>"

definition reload :: "int \<Rightarrow> page \<Rightarrow> page" where
  "reload now p = restore_on_mount now (fresh_page p)"

definition resumeSavedSession :: "page \<Rightarrow> page" where
  "resumeSavedSession p = (case pg_offer p of Some sv \<Rightarrow> restoreLiveState sv False p | None \<Rightarrow> p)"

definition dismissSavedSession :: "writes \<Rightarrow> page \<Rightarrow> page" where
  "dismissSavedSession w p = p\<lparr>pg_offer := None, pg_local := removed (wr_local w) (pg_local p), pg_idb := removed (wr_idb w) (pg_idb p)\<rparr>"

definition loadSessionFile :: "saved_session option \<Rightarrow> page \<Rightarrow> js_error + page" where
  "loadSessionFile parsed p = (case parsed of
       None \<Rightarrow> Inl (Thrown ''SyntaxError'')
     | Some sv \<Rightarrow> if sv_version sv \<noteq> 1 then Inl (Thrown ''Unrecognized session file format.'') else Inr (restoreLiveState sv True p))"

text \<open>The laps that go to the database, and the sample window of an exported lap or recording.\<close>

definition synced_laps :: "live_state \<Rightarrow> (int \<times> int \<times> string) list" where
  "synced_laps st = map (\<lambda>l. (ll_start l, ll_end l, case ll_notes l of Some n \<Rightarrow> n | None \<Rightarrow> []))
     (filter (\<lambda>l. \<not> ll_byHand l) (lv_laps st))"

definition export_window :: "int \<Rightarrow> int \<Rightarrow> live_state \<Rightarrow> live_sample list option" where
  "export_window a b st =
     (let ss = filter (\<lambda>s. a \<le> ls_t s \<and> ls_t s \<le> b) (lv_samples st) in
      if length ss < 2 \<or> ls_t (last ss) \<le> ls_t (hd ss) then None else Some ss)"

text \<open>The count of the dash follows the selected laps, up with a card when one is wanted and down without; a car that shows fewer
  laps is told again.\<close>

datatype dash_command = Send_card nat | Publish_count nat

definition lap_count_sync :: "bool \<Rightarrow> nat \<Rightarrow> nat \<times> bool \<Rightarrow> (nat \<times> bool) \<times> dash_command list" where
  "lap_count_sync autoCard n = (\<lambda>(prev, force).
     if n = prev then ((prev, force), [])
     else ((n, False), [if n > prev \<and> (autoCard \<or> force) then Send_card n else Publish_count n]))"

definition lap_count_drain :: "nat option \<Rightarrow> nat \<Rightarrow> nat option" where
  "lap_count_drain car n = (case car of Some c \<Rightarrow> if n > c then Some n else None | None \<Rightarrow> None)"

subsection \<open>What the page can do\<close>

datatype page_op =
    Feed live_event
  | Lap_button
  | Stop_lap
  | Hand_lap int
  | Edit_time string int
  | Edit_note string string
  | Delete_lap bool string
  | Toggle_lap string
  | Auto_select
  | Autosave
  | Flag string
  | Flag_answered int string bool
  | Pull_flags int "(int \<times> string) list"
  | Start_feed
  | Stop_feed
  | Reset_session bool
  | New_session string string string session_draft
  | Link_day json rat
  | Restore_setup
  | Stop_event
  | Adopt saved_session
  | Load_file "saved_session option"
  | Reload
  | Resume
  | Dismiss
  | Lead bool
  | Choose_track track

definition perform :: "js_math \<Rightarrow> writes \<Rightarrow> int \<Rightarrow> page_op \<Rightarrow> page \<Rightarrow> page" where
  "perform M w now a p = (case a of
       Feed e \<Rightarrow> handleLiveEvent M w now e p
     | Lap_button \<Rightarrow> triggerManualLap w now p
     | Stop_lap \<Rightarrow> stopLap w now p
     | Hand_lap dur \<Rightarrow> addManualLap w now dur p
     | Edit_time i dur \<Rightarrow> editLapDuration w now i dur p
     | Edit_note i note \<Rightarrow> editLapNote w now i note p
     | Delete_lap confirmed i \<Rightarrow> deleteLap w now confirmed i p
     | Toggle_lap i \<Rightarrow> toggleLapSelected i p
     | Auto_select \<Rightarrow> auto_select p
     | Autosave \<Rightarrow> autosave w now p
     | Flag label \<Rightarrow> eventFlag_record w now label p
     | Flag_answered t label saved \<Rightarrow> eventFlag_answer w now t label saved p
     | Pull_flags started fs \<Rightarrow> pull_flags started fs p
     | Start_feed \<Rightarrow> startLiveData now p
     | Stop_feed \<Rightarrow> stopLiveData p
     | Reset_session confirmed \<Rightarrow> resetLiveSession w now confirmed p
     | New_session rid clock client d \<Rightarrow> startNewSession w now rid clock client d p
     | Link_day i day \<Rightarrow> link_day i day p
     | Restore_setup \<Rightarrow> restore_setup p
     | Stop_event \<Rightarrow> stopEvent w now p
     | Adopt sv \<Rightarrow> adoptSharedSession sv p
     | Load_file parsed \<Rightarrow> (case loadSessionFile parsed p of Inl _ \<Rightarrow> p | Inr q \<Rightarrow> q)
     | Reload \<Rightarrow> reload now p
     | Resume \<Rightarrow> resumeSavedSession p
     | Dismiss \<Rightarrow> dismissSavedSession w p
     | Lead leads \<Rightarrow> p\<lparr>pg_mirror := \<not> leads\<rparr>
     | Choose_track t \<Rightarrow> p\<lparr>pg_track := t\<rparr>)"

definition run_page :: "js_math \<Rightarrow> (writes \<times> int \<times> page_op) list \<Rightarrow> page \<Rightarrow> page" where
  "run_page M as p = foldl (\<lambda>q (w, now, a). perform M w now a q) p as"

subsection \<open>The invariant of the timing and of the energy\<close>

definition run_timed :: "lap_run \<Rightarrow> bool" where
  "run_timed r \<longleftrightarrow> (case rn_start r of
       None \<Rightarrow> rn_sectors r = [] \<and> rn_split r = 0
     | Some a \<Rightarrow> (\<exists>b. rn_sector r = Some b \<and> sum_list (rn_sectors r) = b - a)
         \<and> rn_split r = length (rn_sectors r) \<and> (\<forall>d \<in> set (rn_sectors r). 500 < d))
     \<and> length (rn_samples r) \<le> LIVE_LAP_SAMPLE_MEMORY_CAP"

definition lap_timed :: "live_lap \<Rightarrow> bool" where
  "lap_timed l \<longleftrightarrow> ll_end l = ll_start l + ll_dur l \<and> 0 \<le> ll_dur l"

definition timing_ok :: "live_state \<Rightarrow> bool" where
  "timing_ok st \<longleftrightarrow> run_timed (lv_run st) \<and> (\<forall>l \<in> set (lv_laps st). lap_timed l)
     \<and> length (lv_samples st) \<le> LIVE_SAMPLE_MEMORY_CAP
     \<and> lv_last st = (if lv_samples st = [] then None else Some (last (lv_samples st)))"

definition laps_out :: "live_lap list \<Rightarrow> rat" where
  "laps_out ls = sum_list (map lapEnergyOutWh ls)"

definition laps_in :: "live_lap list \<Rightarrow> rat" where
  "laps_in ls = sum_list (map lapEnergyInWh ls)"

definition lap_energy_ok :: "live_lap \<Rightarrow> bool" where
  "lap_energy_ok l \<longleftrightarrow> ll_energy l = lapEnergyOutWh l - lapEnergyInWh l \<and> 0 \<le> lapEnergyOutWh l \<and> 0 \<le> lapEnergyInWh l"

definition energy_ok :: "live_state \<Rightarrow> bool" where
  "energy_ok st \<longleftrightarrow> lv_total st = lv_out st - lv_in st
     \<and> rn_energy (lv_run st) = rn_out (lv_run st) - rn_in (lv_run st) \<and> 0 \<le> rn_out (lv_run st) \<and> 0 \<le> rn_in (lv_run st)
     \<and> (\<forall>l \<in> set (lv_laps st). lap_energy_ok l)
     \<and> laps_out (lv_laps st) + rn_out (lv_run st) \<le> lv_out st \<and> laps_in (lv_laps st) + rn_in (lv_run st) \<le> lv_in st"

lemma laps_sums [simp]:
  "laps_out [] = 0" "laps_in [] = 0" "laps_out (xs @ ys) = laps_out xs + laps_out ys" "laps_in (xs @ ys) = laps_in xs + laps_in ys"
  "laps_out (l # ls) = lapEnergyOutWh l + laps_out ls" "laps_in (l # ls) = lapEnergyInWh l + laps_in ls"
  by (simp_all add: laps_out_def laps_in_def)

lemma no_run_timed [simp]: "run_timed no_run"
  by (simp add: run_timed_def no_run_def)

lemma run_at_timed [simp]: "run_timed (run_at t s)"
  by (simp add: run_timed_def run_at_def no_run_def LIVE_LAP_SAMPLE_MEMORY_CAP_def)

lemma run_energy [simp]:
  "rn_out no_run = 0" "rn_in no_run = 0" "rn_energy no_run = 0" "rn_out (run_at t s) = 0" "rn_in (run_at t s) = 0" "rn_energy (run_at t s) = 0"
  by (simp_all add: no_run_def run_at_def)

lemma empty_ok: "timing_ok EMPTY_LIVE_STATE" "energy_ok EMPTY_LIVE_STATE"
  by (simp_all add: timing_ok_def energy_ok_def EMPTY_LIVE_STATE_def)

lemma carry_timed: "run_timed r \<Longrightarrow> run_timed (carry_run M p s r)"
  by (auto simp: run_timed_def carry_run_def case_prod_beta split: option.splits)

lemma delta_timed: "run_timed (r\<lparr>rn_delta := d\<rparr>) = run_timed r"
  by (simp add: run_timed_def split: option.splits)

lemma split_timed: "run_timed r \<Longrightarrow> run_timed (split_step gs p s r)"
  by (auto simp: run_timed_def split_step_def Let_def set_ms_def split: option.splits)

lemma flying_timed: "set_ms (rn_start r) \<and> t - the (rn_start r) > 5000 \<Longrightarrow> lap_timed (flying_lap n t gs r)"
  by (simp add: lap_timed_def flying_lap_def Let_def)

lemma gate_step_timed:
  assumes "run_timed r" "gate_step M tr st s r = (r1, cl, reset)"
  shows "run_timed r1" "cl = Some l \<Longrightarrow> lap_timed l"
  using assms split_timed flying_timed unfolding gate_step_def
  by (auto simp: Let_def split: option.splits if_splits)

lemma keep_sample_simps [simp]:
  "lv_run (keep_sample s st) = lv_run st" "lv_laps (keep_sample s st) = lv_laps st" "lv_total (keep_sample s st) = lv_total st"
  "lv_out (keep_sample s st) = lv_out st" "lv_in (keep_sample s st) = lv_in st" "lv_last (keep_sample s st) = Some s"
  "lv_flags (keep_sample s st) = lv_flags st" "lv_disarmed (keep_sample s st) = lv_disarmed st"
  "lv_samples (keep_sample s st) = last_n LIVE_SAMPLE_MEMORY_CAP (lv_samples st @ [s])"
  by (simp_all add: keep_sample_def)

lemma count_energy_simps [simp]:
  "lv_run (count_energy s st) = lv_run st" "lv_laps (count_energy s st) = lv_laps st" "lv_last (count_energy s st) = lv_last st"
  "lv_samples (count_energy s st) = lv_samples st" "lv_flags (count_energy s st) = lv_flags st" "lv_disarmed (count_energy s st) = lv_disarmed st"
  "lv_out (count_energy s st) = lv_out st + fst (vcuEnergyDeltaWh (lv_last st) s)"
  "lv_in (count_energy s st) = lv_in st + snd (vcuEnergyDeltaWh (lv_last st) s)"
  "lv_total (count_energy s st) = lv_total st + (fst (vcuEnergyDeltaWh (lv_last st) s) - snd (vcuEnergyDeltaWh (lv_last st) s))"
  by (simp_all add: count_energy_def case_prod_beta)

lemma last_n_last: "0 < n \<Longrightarrow> last_n n (xs @ [x]) \<noteq> [] \<and> last (last_n n (xs @ [x])) = x"
  by (auto simp: last_n_def last_drop)

lemma samples_kept: "length (last_n LIVE_SAMPLE_MEMORY_CAP (xs @ [s])) \<le> LIVE_SAMPLE_MEMORY_CAP"
    "last_n LIVE_SAMPLE_MEMORY_CAP (xs @ [s]) \<noteq> []" "last (last_n LIVE_SAMPLE_MEMORY_CAP (xs @ [s])) = s"
  using last_n_last [of LIVE_SAMPLE_MEMORY_CAP xs s] by (simp_all add: LIVE_SAMPLE_MEMORY_CAP_def)

definition leader_run :: "js_math \<Rightarrow> live_sample \<Rightarrow> live_state \<Rightarrow> lap_run" where
  "leader_run M s st = carry_run M (lv_last st) s (lv_run st)"

lemma leader_sample_eq:
  assumes "gate_step M tr st s (leader_run M s st) = (r1, cl, reset)"
  shows "\<exists>d rate. leader_sample M tr s st =
     ((keep_sample s (count_energy s st))\<lparr>lv_running := True, lv_connected := True,
        lv_laps := lv_laps st @ (case cl of Some l \<Rightarrow> [l] | None \<Rightarrow> []), lv_run := r1\<lparr>rn_delta := d\<rparr>, lv_rate := rate\<rparr>, cl)"
  using assms unfolding leader_sample_def leader_run_def Let_def by (simp only: prod.case) blast

lemma leader_timing: "timing_ok st \<Longrightarrow> timing_ok (fst (leader_sample M tr s st))"
proof -
  assume ok: "timing_ok st"
  obtain r1 cl reset where g: "gate_step M tr st s (leader_run M s st) = (r1, cl, reset)" by (metis prod_cases3)
  have r: "run_timed (leader_run M s st)" using ok carry_timed by (simp add: leader_run_def timing_ok_def)
  note t = gate_step_timed [OF r g]
  obtain d rate where e: "leader_sample M tr s st =
     ((keep_sample s (count_energy s st))\<lparr>lv_running := True, lv_connected := True,
        lv_laps := lv_laps st @ (case cl of Some l \<Rightarrow> [l] | None \<Rightarrow> []), lv_run := r1\<lparr>rn_delta := d\<rparr>, lv_rate := rate\<rparr>, cl)"
    using leader_sample_eq [OF g] by blast
  have laps: "\<forall>l \<in> set (lv_laps st @ (case cl of Some l \<Rightarrow> [l] | None \<Rightarrow> [])). lap_timed l"
    using ok t(2) by (cases cl) (auto simp: timing_ok_def)
  show ?thesis unfolding e using t(1) laps by (simp add: timing_ok_def delta_timed samples_kept)
qed

lemma mirror_timing: "timing_ok st \<Longrightarrow> timing_ok (mirror_sample s st)"
  by (simp add: timing_ok_def mirror_sample_def samples_kept)

lemma flying_energy:
  "lapEnergyOutWh (flying_lap n t gs r) = rn_out r" "lapEnergyInWh (flying_lap n t gs r) = rn_in r"
  "ll_energy (flying_lap n t gs r) = rn_energy r"
  by (simp_all add: flying_lap_def lapEnergyOutWh_def lapEnergyInWh_def Let_def)

lemma split_energy [simp]:
  "rn_out (split_step gs p s r) = rn_out r" "rn_in (split_step gs p s r) = rn_in r" "rn_energy (split_step gs p s r) = rn_energy r"
  by (simp_all add: split_step_def Let_def)

text \<open>The energy of a run is in the lap that is closed, stays in the run, or is dropped.\<close>

lemma gate_step_energy:
  assumes "gate_step M tr st s r = (r1, cl, reset)" "0 \<le> rn_out r" "0 \<le> rn_in r" "rn_energy r = rn_out r - rn_in r"
  shows "rn_energy r1 = rn_out r1 - rn_in r1" "0 \<le> rn_out r1" "0 \<le> rn_in r1"
    "laps_out (case cl of Some l \<Rightarrow> [l] | None \<Rightarrow> []) + rn_out r1 \<le> rn_out r"
    "laps_in (case cl of Some l \<Rightarrow> [l] | None \<Rightarrow> []) + rn_in r1 \<le> rn_in r"
    "cl = Some l \<Longrightarrow> lap_energy_ok l"
  using assms unfolding gate_step_def
  by (auto simp: Let_def flying_energy lap_energy_ok_def split: option.splits if_splits)

lemma leader_energy: "energy_ok st \<Longrightarrow> energy_ok (fst (leader_sample M tr s st))"
proof -
  assume ok: "energy_ok st"
  let ?d = "vcuEnergyDeltaWh (lv_last st) s" and ?r = "leader_run M s st"
  obtain r1 cl reset where g: "gate_step M tr st s ?r = (r1, cl, reset)" by (metis prod_cases3)
  have d: "0 \<le> fst ?d" "0 \<le> snd ?d" by (rule delta_nonneg)+
  have r: "rn_out ?r = rn_out (lv_run st) + fst ?d" "rn_in ?r = rn_in (lv_run st) + snd ?d"
    "rn_energy ?r = rn_energy (lv_run st) + (fst ?d - snd ?d)"
    by (simp_all add: leader_run_def carry_run_def case_prod_beta)
  have pos: "0 \<le> rn_out ?r" "0 \<le> rn_in ?r" "rn_energy ?r = rn_out ?r - rn_in ?r"
    using ok d unfolding r energy_ok_def by linarith+
  note t = gate_step_energy [OF g pos]
  obtain x rate where e: "leader_sample M tr s st =
     ((keep_sample s (count_energy s st))\<lparr>lv_running := True, lv_connected := True,
        lv_laps := lv_laps st @ (case cl of Some l \<Rightarrow> [l] | None \<Rightarrow> []), lv_run := r1\<lparr>rn_delta := x\<rparr>, lv_rate := rate\<rparr>, cl)"
    using leader_sample_eq [OF g] by blast
  have laps: "\<forall>l \<in> set (lv_laps st @ (case cl of Some l \<Rightarrow> [l] | None \<Rightarrow> [])). lap_energy_ok l"
    using ok t(6) by (cases cl) (auto simp: energy_ok_def)
  have "laps_out (lv_laps st @ (case cl of Some l \<Rightarrow> [l] | None \<Rightarrow> [])) + rn_out r1 \<le> lv_out st + fst ?d"
    "laps_in (lv_laps st @ (case cl of Some l \<Rightarrow> [l] | None \<Rightarrow> [])) + rn_in r1 \<le> lv_in st + snd ?d"
    using t(4,5) ok unfolding r energy_ok_def laps_sums by linarith+
  then show ?thesis unfolding e using t(1-3) laps ok by (simp add: energy_ok_def)
qed

lemma mirror_energy: "energy_ok st \<Longrightarrow> energy_ok (mirror_sample s st)"
  using delta_nonneg [of "lv_last st" s] by (simp add: energy_ok_def mirror_sample_def)

subsection \<open>An invariant of the session survives the page\<close>

lemma stored_member: "sv \<in> set (List.map_filter (\<lambda>x. x) [a, b, c]) \<Longrightarrow> a = Some sv \<or> b = Some sv \<or> c = Some sv"
  by (cases a; cases b; cases c) (auto simp: List.map_filter_simps)

lemma candidate_stored:
  assumes "sv \<in> set (restore_candidates p)"
  shows "pg_local p = Some sv \<or> pg_idb p = Some sv \<or> pg_backend p = Some sv" "pg_endedAt p < sv_savedAt sv"
proof -
  note h = assms [unfolded restore_candidates_def set_filter mem_Collect_eq]
  show "pg_local p = Some sv \<or> pg_idb p = Some sv \<or> pg_backend p = Some sv" by (rule stored_member) (rule h [THEN conjunct1, THEN conjunct1])
  show "pg_endedAt p < sv_savedAt sv" by (rule h [THEN conjunct2])
qed

text \<open>
  What a property of the session state has to satisfy to hold of whatever the page shows and of whatever it has stored:
  the operations on the state keep it, and a session that was saved has it when it is read back.
\<close>

locale session_invariant =
  fixes ok :: "live_state \<Rightarrow> bool"
  assumes ok_empty: "ok EMPTY_LIVE_STATE"
    and ok_feed: "ok (st\<lparr>lv_running := a\<rparr>) = ok st" "ok (st\<lparr>lv_connected := a\<rparr>) = ok st" "ok (st\<lparr>lv_topic := t\<rparr>) = ok st"
      "ok (st\<lparr>lv_startedAt := u\<rparr>) = ok st"
    and ok_flags: "ok (st\<lparr>lv_flags := fs\<rparr>) = ok st"
    and ok_leader: "ok st \<Longrightarrow> ok (fst (leader_sample M tr s st))"
    and ok_mirror: "ok st \<Longrightarrow> ok (mirror_sample s st)"
    and ok_start: "ok st \<Longrightarrow> ok (st\<lparr>lv_run := run_at n s, lv_disarmed := False\<rparr>)"
    and ok_close: "ok st \<Longrightarrow> rn_start (lv_run st) = Some m \<Longrightarrow> m < n \<Longrightarrow>
        ok (st\<lparr>lv_laps := lv_laps st @ [manual_lap n st], lv_run := run_at n s\<rparr>)"
    and ok_stop: "ok st \<Longrightarrow> ok (st\<lparr>lv_run := no_run, lv_disarmed := True\<rparr>)"
    and ok_hand: "ok st \<Longrightarrow> 0 < dur \<Longrightarrow> ok (st\<lparr>lv_laps := lv_laps st @ [hand_lap now dur k]\<rparr>)"
    and ok_edit: "ok st \<Longrightarrow> 0 \<le> dur \<Longrightarrow>
        ok (st\<lparr>lv_laps := map (\<lambda>l. if ll_id l = i then l\<lparr>ll_dur := dur, ll_end := ll_start l + dur\<rparr> else l) (lv_laps st)\<rparr>)"
    and ok_note: "ok st \<Longrightarrow> ok (st\<lparr>lv_laps := map (\<lambda>l. if ll_id l = i then l\<lparr>ll_notes := x\<rparr> else l) (lv_laps st)\<rparr>)"
    and ok_delete: "ok st \<Longrightarrow> ok (st\<lparr>lv_laps := filter (\<lambda>l. ll_id l \<noteq> i) (lv_laps st)\<rparr>)"
    and ok_saved: "ok st \<Longrightarrow> ok (restored_state (buildSavedSession now full st p))"
begin

definition stored_ok :: "saved_session option \<Rightarrow> bool" where
  "stored_ok x \<longleftrightarrow> (case x of None \<Rightarrow> True | Some sv \<Rightarrow> ok (restored_state sv))"

lemma stored_simps [simp]:
  "stored_ok None" "stored_ok (Some sv) = ok (restored_state sv)" "stored_ok x \<Longrightarrow> stored_ok (removed b x)"
  by (simp_all add: stored_ok_def removed_def)

definition page_ok :: "page \<Rightarrow> bool" where
  "page_ok p \<longleftrightarrow> ok (pg_live p) \<and> stored_ok (pg_local p) \<and> stored_ok (pg_idb p) \<and> stored_ok (pg_backend p) \<and> stored_ok (pg_offer p)"

lemma page_okI: "page_ok p \<Longrightarrow> ok st \<Longrightarrow> page_ok (p\<lparr>pg_live := st\<rparr>)"
  by (simp add: page_ok_def)

lemma page_ok_offer: "page_ok p \<Longrightarrow> ok (restored_state sv) \<Longrightarrow> page_ok (p\<lparr>pg_offer := Some sv\<rparr>)"
  by (simp add: page_ok_def)

lemma persist_ok: "page_ok p \<Longrightarrow> page_ok (persistLiveSession w now a b p)"
  by (simp add: page_ok_def persistLiveSession_def Let_def ok_saved)

lemma stamps_ok:
  "page_ok (stamp_saves now p) = page_ok p" "page_ok (stamp_laps p) = page_ok p" "page_ok (know_lap i p) = page_ok p"
  "page_ok (select_lap i p) = page_ok p" "page_ok (p\<lparr>pg_lastLocal := x, pg_lastBackend := y\<rparr>) = page_ok p"
  "page_ok (p\<lparr>pg_selected := is\<rparr>) = page_ok p" "page_ok (p\<lparr>pg_wall := x\<rparr>) = page_ok p"
  "page_ok (p\<lparr>pg_mirror := m\<rparr>) = page_ok p" "page_ok (p\<lparr>pg_track := tr\<rparr>) = page_ok p"
  by (simp_all add: page_ok_def stamp_saves_def stamp_laps_def know_lap_def select_lap_def)

lemma live_of: "page_ok p \<Longrightarrow> ok (pg_live p)"
  by (simp add: page_ok_def)

lemmas page_simps = stamps_ok persist_ok page_okI live_of

lemma sample_ok: "page_ok p \<Longrightarrow> page_ok (processLiveSample M w now s p)"
proof -
  assume p: "page_ok p"
  obtain st cl where l: "leader_sample M (pg_track p) s (pg_live p) = (st, cl)" by fastforce
  have "ok st" using ok_leader [OF live_of [OF p], of M "pg_track p" s] by (simp add: l)
  then show ?thesis using p unfolding processLiveSample_def l Let_def prod.case
    by (cases cl) (simp_all add: page_simps ok_mirror)
qed

lemma button_ok: "page_ok p \<Longrightarrow> page_ok (triggerManualLap w now p)"
proof (cases "lv_last (pg_live p)")
  case (Some s)
  assume p: "page_ok p"
  show ?thesis
  proof (cases "set_ms (rn_start (lv_run (pg_live p))) \<and> the (rn_start (lv_run (pg_live p))) < press_time now p s")
    case True
    then obtain m where "rn_start (lv_run (pg_live p)) = Some m" "m < press_time now p s" by (auto simp: set_ms_def)
    then have "ok ((pg_live p)\<lparr>lv_laps := lv_laps (pg_live p) @ [manual_lap (press_time now p s) (pg_live p)], lv_run := run_at (press_time now p s) s\<rparr>)"
      using ok_close live_of [OF p] by blast
    then show ?thesis using p by (simp add: triggerManualLap_def Some Let_def page_simps ok_start)
  next
    case False
    then show ?thesis using p by (auto simp: triggerManualLap_def Some Let_def page_simps ok_start)
  qed
qed (simp add: triggerManualLap_def)

lemma clear_ok: "page_ok p \<Longrightarrow> page_ok (clearLiveSessionState w p)"
  by (simp add: page_ok_def clearLiveSessionState_def ok_empty)

lemma start_feed_ok: "page_ok p \<Longrightarrow> page_ok (startLiveData now p)"
  by (simp add: page_ok_def startLiveData_def Let_def ok_feed ok_empty)

lemma ended_ok:
  "page_ok (markLiveSessionEnded now p) = page_ok p" "page_ok (clearLiveSessionEnded p) = page_ok p"
  "page_ok (p\<lparr>pg_info := i\<rparr>) = page_ok p" "page_ok (p\<lparr>pg_ended := b\<rparr>) = page_ok p"
  "page_ok (p\<lparr>pg_info := i, pg_source := c, pg_metadata := m\<rparr>) = page_ok p" "page_ok (p\<lparr>pg_setup := m\<rparr>) = page_ok p"
  by (simp_all add: page_ok_def markLiveSessionEnded_def clearLiveSessionEnded_def)

lemma restore_ok: "page_ok p \<Longrightarrow> ok (restored_state sv) \<Longrightarrow> page_ok (restoreLiveState sv f p)"
  by (simp add: page_ok_def restoreLiveState_def Let_def)

lemma later_in: "foldl later_saved c cs = c \<or> foldl later_saved c cs \<in> set cs"
  by (induction cs arbitrary: c) (auto simp: later_saved_def)

lemma candidate_ok: "page_ok p \<Longrightarrow> sv \<in> set (restore_candidates p) \<Longrightarrow> ok (restored_state sv)"
proof -
  assume p: "page_ok p" and c: "sv \<in> set (restore_candidates p)"
  from candidate_stored(1) [OF c] show ?thesis using p unfolding page_ok_def by (elim disjE) simp_all
qed

lemma mount_ok: "page_ok p \<Longrightarrow> page_ok (restore_on_mount now p)"
proof (cases "restore_candidates p")
  case (Cons c cs)
  assume p: "page_ok p"
  define offer where "offer = foldl later_saved c (c # cs)"
  have "offer \<in> set (restore_candidates p)" using later_in [of c "c # cs"] by (auto simp: offer_def Cons)
  then have "ok (restored_state offer)" by (rule candidate_ok [OF p])
  then show ?thesis using p unfolding restore_on_mount_def Cons list.case offer_def [symmetric] Let_def
    by (simp add: restore_ok page_ok_offer)
qed (simp add: restore_on_mount_def)

lemma fresh_ok: "page_ok p \<Longrightarrow> page_ok (fresh_page p)"
  by (simp add: page_ok_def fresh_page_def ok_empty)

lemma auto_select_ok: "page_ok p \<Longrightarrow> page_ok (auto_select p)"
proof -
  assume "page_ok p"
  then have "page_ok (foldl (\<lambda>q i. if i \<in> set (pg_known q) then q else select_lap i (know_lap i q)) p is)" for "is"
    by (induction "is" arbitrary: p) (simp_all add: page_simps)
  then show ?thesis by (simp add: auto_select_def)
qed

definition op_ok :: "page_op \<Rightarrow> bool" where
  "op_ok a \<longleftrightarrow> (\<forall>sv. a \<noteq> Adopt sv) \<and> (\<forall>sv. a = Load_file (Some sv) \<longrightarrow> ok (restored_state sv))"

lemma event_ok: "page_ok p \<Longrightarrow> page_ok (handleLiveEvent M w now e p)"
  by (cases e) (simp_all add: handleLiveEvent_def page_simps sample_ok ok_feed)

lemma stop_ok: "page_ok p \<Longrightarrow> page_ok (stopLap w now p)"
proof -
  assume p: "page_ok p"
  let ?q = "triggerManualLap w now p"
  have "page_ok (persistLiveSession w now True True (?q\<lparr>pg_live := (pg_live ?q)\<lparr>lv_run := no_run, lv_disarmed := True\<rparr>\<rparr>))"
    using button_ok [OF p] by (intro persist_ok page_okI ok_stop live_of)
  then show ?thesis using p button_ok [OF p] by (simp add: stopLap_def Let_def)
qed

lemma lap_edits_ok:
  "page_ok p \<Longrightarrow> page_ok (addManualLap w now dur p)" "page_ok p \<Longrightarrow> page_ok (editLapDuration w now i dur p)"
  "page_ok p \<Longrightarrow> page_ok (editLapNote w now i x p)" "page_ok p \<Longrightarrow> page_ok (deleteLap w now c i p)"
  "page_ok p \<Longrightarrow> page_ok (toggleLapSelected i p)"
  by (simp_all add: addManualLap_def editLapDuration_def editLapNote_def map_laps_def deleteLap_def toggleLapSelected_def Let_def
      page_simps ok_hand ok_edit ok_note ok_delete)

lemma autosave_ok: "page_ok p \<Longrightarrow> page_ok (autosave w now p)"
  by (simp add: autosave_def Let_def page_simps)

lemma flags_ok:
  "page_ok p \<Longrightarrow> page_ok (eventFlag_record w now x p)" "page_ok p \<Longrightarrow> page_ok (eventFlag_answer w now t x b p)"
  "page_ok p \<Longrightarrow> page_ok (pull_flags u fs p)"
  by (simp_all add: eventFlag_record_def eventFlag_answer_def pull_flags_def Let_def page_simps ok_flags)

lemma session_ok:
  "page_ok p \<Longrightarrow> page_ok (stopLiveData p)" "page_ok p \<Longrightarrow> page_ok (resetLiveSession w now c p)"
  "page_ok p \<Longrightarrow> page_ok (startNewSession w now rid clock client d p)" "page_ok p \<Longrightarrow> page_ok (stopEvent w now p)"
  by (simp_all add: stopLiveData_def resetLiveSession_def startNewSession_def stopEvent_def Let_def page_simps ok_feed
      start_feed_ok clear_ok ended_ok)

lemma info_ok: "page_ok p \<Longrightarrow> page_ok (link_day i day p)" "page_ok p \<Longrightarrow> page_ok (restore_setup p)"
  by (simp_all add: link_day_def restore_setup_def ended_ok split: option.split)

lemma file_ok: "page_ok p \<Longrightarrow> \<forall>sv. x = Some sv \<longrightarrow> ok (restored_state sv) \<Longrightarrow>
    page_ok (case loadSessionFile x p of Inl _ \<Rightarrow> p | Inr q \<Rightarrow> q)"
  by (cases x) (simp_all add: loadSessionFile_def restore_ok)

lemma offer_ok: "page_ok p \<Longrightarrow> page_ok (resumeSavedSession p)" "page_ok p \<Longrightarrow> page_ok (dismissSavedSession w p)"
proof -
  assume p: "page_ok p"
  show "page_ok (resumeSavedSession p)"
  proof (cases "pg_offer p")
    case (Some sv)
    then have "ok (restored_state sv)" using p by (simp add: page_ok_def)
    then show ?thesis using p by (simp add: resumeSavedSession_def Some restore_ok)
  qed (simp add: resumeSavedSession_def p)
  show "page_ok (dismissSavedSession w p)"
    using p by (simp add: dismissSavedSession_def page_ok_def)
qed

lemmas ops_ok = info_ok event_ok button_ok stop_ok lap_edits_ok autosave_ok auto_select_ok flags_ok session_ok start_feed_ok file_ok offer_ok stamps_ok

lemma perform_ok: "page_ok p \<Longrightarrow> op_ok a \<Longrightarrow> page_ok (perform M w now a p)"
  by (cases a) (simp_all add: perform_def op_ok_def ops_ok reload_def mount_ok fresh_ok)

lemma run_page_ok: "page_ok p \<Longrightarrow> \<forall>x \<in> set as. op_ok (snd (snd x)) \<Longrightarrow> page_ok (run_page M as p)"
  unfolding run_page_def
  by (induction as arbitrary: p) (simp_all add: perform_ok case_prod_beta)

end

locale adopting_session = session_invariant +
  assumes ok_adopt: "ok st \<Longrightarrow> ok (restored_state sv) \<Longrightarrow> ok (adopt_state sv st)"
begin

lemma adopt_ok: "page_ok p \<Longrightarrow> ok (restored_state sv) \<Longrightarrow> page_ok (adoptSharedSession sv p)"
  by (simp add: adoptSharedSession_def page_ok_def ok_adopt)

lemma perform_adopting: "page_ok p \<Longrightarrow> \<forall>sv. a = Adopt sv \<or> a = Load_file (Some sv) \<longrightarrow> ok (restored_state sv) \<Longrightarrow>
    page_ok (perform M w now a p)"
  by (cases a) (simp_all add: perform_def ops_ok reload_def mount_ok fresh_ok adopt_ok)

lemma run_adopting: "page_ok p \<Longrightarrow>
    \<forall>x \<in> set as. \<forall>sv. snd (snd x) = Adopt sv \<or> snd (snd x) = Load_file (Some sv) \<longrightarrow> ok (restored_state sv) \<Longrightarrow>
    page_ok (run_page M as p)"
  unfolding run_page_def
  by (induction as arbitrary: p) (simp_all add: perform_adopting case_prod_beta)

end

subsection \<open>The timing\<close>

lemma manual_timed: "rn_start (lv_run st) = Some m \<Longrightarrow> m < n \<Longrightarrow> lap_timed (manual_lap n st)"
  by (simp add: manual_lap_def lap_timed_def Let_def)

lemma hand_timed: "0 < dur \<Longrightarrow> lap_timed (hand_lap now dur k)"
  by (simp add: hand_lap_def lap_timed_def)

lemma normalize_timed: "lap_timed (normalizeSavedLiveLap l) = lap_timed l"
  by (simp add: normalizeSavedLiveLap_def lap_timed_def)

lemma normalize_energy: "lapEnergyOutWh (normalizeSavedLiveLap l) = lapEnergyOutWh l" "lapEnergyInWh (normalizeSavedLiveLap l) = lapEnergyInWh l"
  "ll_energy (normalizeSavedLiveLap l) = ll_energy l"
  by (simp_all add: normalizeSavedLiveLap_def lapEnergyOutWh_def lapEnergyInWh_def)

lemma last_n_length: "length (last_n n xs) \<le> length xs"
  by (simp add: last_n_def)

lemma saved_run_simps:
  "set_ms (rn_start r) \<Longrightarrow> restored_run (saved_run cap r) = r\<lparr>rn_samples := (case cap of Some n \<Rightarrow> last_n n (rn_samples r) | None \<Rightarrow> rn_samples r)\<rparr>"
  "\<not> set_ms (rn_start r) \<Longrightarrow> restored_run (saved_run cap r) = no_run"
  by (simp_all add: saved_run_def restored_run_def)

lemma run_timed_samples: "run_timed r \<Longrightarrow> length ss \<le> LIVE_LAP_SAMPLE_MEMORY_CAP \<Longrightarrow> run_timed (r\<lparr>rn_samples := ss\<rparr>)"
  by (cases "rn_start r") (simp_all add: run_timed_def)

lemma saved_timed: "run_timed r \<Longrightarrow> run_timed (restored_run (saved_run cap r))"
proof (cases "set_ms (rn_start r)")
  case True
  assume r: "run_timed r"
  have "length (case cap of Some n \<Rightarrow> last_n n (rn_samples r) | None \<Rightarrow> rn_samples r) \<le> length (rn_samples r)"
    by (cases cap) (simp_all add: last_n_length)
  then show ?thesis unfolding saved_run_simps(1) [OF True] using r by (intro run_timed_samples) (simp_all add: run_timed_def)
qed (simp add: saved_run_simps)

lemma saved_doc [simp]:
  "sv_laps (buildSavedSession now full st p) = lv_laps st" "sv_topic (buildSavedSession now full st p) = lv_topic st"
  "sv_current (buildSavedSession now full st p) = saved_run (if full then None else Some SESSION_AUTOSAVE_SAMPLE_CAP) (lv_run st)"
  "sv_tail (buildSavedSession now full st p) = (if full then lv_samples st else last_n SESSION_AUTOSAVE_SAMPLE_CAP (lv_samples st))"
  "sv_total (buildSavedSession now full st p) = lv_total st" "sv_out (buildSavedSession now full st p) = Some (lv_out st)"
  "sv_in (buildSavedSession now full st p) = Some (lv_in st)" "sv_flags (buildSavedSession now full st p) = Some (lv_flags st)"
  "sv_savedAt (buildSavedSession now full st p) = now" "sv_version (buildSavedSession now full st p) = 1"
  "sv_selected (buildSavedSession now full st p) = selectedLapIdsForSave (lv_laps st) p"
  "sv_selectionSaved (buildSavedSession now full st p)" "sv_info (buildSavedSession now full st p) = info_for_save p"
  by (simp_all add: buildSavedSession_def Let_def)

lemma tail_short:
  assumes "length (lv_samples st) \<le> LIVE_SAMPLE_MEMORY_CAP" "run_timed (lv_run st)"
  shows "length (saved_tail (buildSavedSession now full st p)) \<le> LIVE_SAMPLE_MEMORY_CAP"
proof -
  have a: "length (if full then lv_samples st else last_n SESSION_AUTOSAVE_SAMPLE_CAP (lv_samples st)) \<le> LIVE_SAMPLE_MEMORY_CAP"
    using assms(1) last_n_length [of SESSION_AUTOSAVE_SAMPLE_CAP "lv_samples st"] by (cases full) simp_all
  have "length (rn_samples (lv_run st)) \<le> LIVE_SAMPLE_MEMORY_CAP"
    using assms(2) by (simp add: run_timed_def LIVE_SAMPLE_MEMORY_CAP_def LIVE_LAP_SAMPLE_MEMORY_CAP_def)
  then have b: "sc_samples c \<in> {xs. length xs \<le> LIVE_SAMPLE_MEMORY_CAP}" if "saved_run cap (lv_run st) = Some c" for c cap
    using that last_n_length [of "the cap" "rn_samples (lv_run st)"] by (cases cap) (auto simp: saved_run_def split: if_splits)
  show ?thesis using a b unfolding saved_tail_def saved_doc by (simp split: option.splits)
qed

lemma timing_restored:
  assumes "\<forall>l \<in> set (sv_laps sv). lap_timed l" "run_timed (restored_run (sv_current sv))" "length (saved_tail sv) \<le> LIVE_SAMPLE_MEMORY_CAP"
  shows "timing_ok (restored_state sv)"
  using assms by (simp add: timing_ok_def restored_state_def Let_def normalize_timed)

lemma timing_adopt: "timing_ok st \<Longrightarrow> timing_ok (restored_state sv) \<Longrightarrow> timing_ok (adopt_state sv st)"
proof -
  assume st: "timing_ok st" and sv: "timing_ok (restored_state sv)"
  have "run_timed (restored_run (sv_current sv))" using sv by (simp add: timing_ok_def restored_state_def Let_def)
  moreover have "length (rn_samples (lv_run st)) \<le> LIVE_LAP_SAMPLE_MEMORY_CAP" using st by (simp add: timing_ok_def run_timed_def)
  ultimately have "run_timed ((restored_run (sv_current sv))\<lparr>rn_samples := rn_samples (lv_run st)\<rparr>)" by (rule run_timed_samples)
  then show ?thesis using st sv by (simp add: timing_ok_def restored_state_def adopt_state_def Let_def)
qed

lemma timing_laps: "timing_ok st \<Longrightarrow> (\<And>l. l \<in> set ls \<Longrightarrow> lap_timed l) \<Longrightarrow> timing_ok (st\<lparr>lv_laps := ls\<rparr>)"
  by (simp add: timing_ok_def)

lemma timing_run: "timing_ok st \<Longrightarrow> run_timed r \<Longrightarrow> timing_ok (st\<lparr>lv_run := r\<rparr>)"
  by (simp add: timing_ok_def)

lemma timing_other [simp]:
  "timing_ok (st\<lparr>lv_running := a\<rparr>) = timing_ok st" "timing_ok (st\<lparr>lv_connected := a\<rparr>) = timing_ok st"
  "timing_ok (st\<lparr>lv_topic := t\<rparr>) = timing_ok st" "timing_ok (st\<lparr>lv_startedAt := u\<rparr>) = timing_ok st"
  "timing_ok (st\<lparr>lv_flags := fs\<rparr>) = timing_ok st" "timing_ok (st\<lparr>lv_disarmed := a\<rparr>) = timing_ok st"
  by (simp_all add: timing_ok_def)

lemma timing_lap: "timing_ok st \<Longrightarrow> l \<in> set (lv_laps st) \<Longrightarrow> lap_timed l"
  by (simp add: timing_ok_def)

lemma timing_edits:
  assumes "timing_ok st"
  shows "0 \<le> dur \<Longrightarrow> timing_ok (st\<lparr>lv_laps := map (\<lambda>l. if ll_id l = i then l\<lparr>ll_dur := dur, ll_end := ll_start l + dur\<rparr> else l) (lv_laps st)\<rparr>)"
    "timing_ok (st\<lparr>lv_laps := map (\<lambda>l. if ll_id l = i then l\<lparr>ll_notes := x\<rparr> else l) (lv_laps st)\<rparr>)"
    "timing_ok (st\<lparr>lv_laps := filter (\<lambda>l. ll_id l \<noteq> i) (lv_laps st)\<rparr>)"
  using timing_lap [OF assms] by (auto intro!: timing_laps [OF assms] simp: lap_timed_def)

lemma timing_append: "timing_ok st \<Longrightarrow> lap_timed l \<Longrightarrow> timing_ok (st\<lparr>lv_laps := lv_laps st @ [l]\<rparr>)"
  by (rule timing_laps) (auto dest: timing_lap)

interpretation timing: adopting_session timing_ok
proof unfold_locales
  show "timing_ok (restored_state (buildSavedSession now full st p))" if "timing_ok st" for st now full p
    using that by (intro timing_restored) (simp_all add: timing_ok_def saved_timed tail_short)
  show "timing_ok (st\<lparr>lv_laps := lv_laps st @ [manual_lap n st], lv_run := run_at n s\<rparr>)"
    if "timing_ok st" "rn_start (lv_run st) = Some m" "m < n" for st m n s
    using timing_run [OF timing_append [OF that(1) manual_timed [OF that(2,3)]] run_at_timed] by simp
qed (simp_all add: leader_timing mirror_timing timing_adopt timing_append hand_timed timing_edits timing_run empty_ok)

subsection \<open>The energy\<close>

lemma energy_laps:
  assumes "energy_ok st" "\<And>l. l \<in> set ls \<Longrightarrow> lap_energy_ok l" "laps_out ls \<le> laps_out (lv_laps st)" "laps_in ls \<le> laps_in (lv_laps st)"
  shows "energy_ok (st\<lparr>lv_laps := ls\<rparr>)"
  using assms by (simp add: energy_ok_def)

lemma energy_other [simp]:
  "energy_ok (st\<lparr>lv_running := a\<rparr>) = energy_ok st" "energy_ok (st\<lparr>lv_connected := a\<rparr>) = energy_ok st"
  "energy_ok (st\<lparr>lv_topic := t\<rparr>) = energy_ok st" "energy_ok (st\<lparr>lv_startedAt := u\<rparr>) = energy_ok st"
  "energy_ok (st\<lparr>lv_flags := fs\<rparr>) = energy_ok st" "energy_ok (st\<lparr>lv_disarmed := a\<rparr>) = energy_ok st"
  by (simp_all add: energy_ok_def)

lemma energy_lap: "energy_ok st \<Longrightarrow> l \<in> set (lv_laps st) \<Longrightarrow> lap_energy_ok l"
  by (simp add: energy_ok_def)

lemma energy_run_cleared: "energy_ok st \<Longrightarrow> energy_ok (st\<lparr>lv_run := no_run\<rparr>) \<and> energy_ok (st\<lparr>lv_run := run_at t s\<rparr>)"
  by (auto simp: energy_ok_def)

lemma laps_map: "(\<And>l. lapEnergyOutWh (f l) = lapEnergyOutWh l) \<Longrightarrow> laps_out (map f ls) = laps_out ls"
    "(\<And>l. lapEnergyInWh (f l) = lapEnergyInWh l) \<Longrightarrow> laps_in (map f ls) = laps_in ls"
  by (simp_all add: laps_out_def laps_in_def comp_def)

lemma laps_filter:
  assumes "\<And>l. l \<in> set ls \<Longrightarrow> lap_energy_ok l"
  shows "laps_out (filter P ls) \<le> laps_out ls" "laps_in (filter P ls) \<le> laps_in ls"
  using assms by (induction ls) (auto simp: lap_energy_ok_def intro: add_increasing)

lemma energy_of_lap [simp]:
  "lapEnergyOutWh (l\<lparr>ll_dur := d, ll_end := e\<rparr>) = lapEnergyOutWh l" "lapEnergyInWh (l\<lparr>ll_dur := d, ll_end := e\<rparr>) = lapEnergyInWh l"
  "lapEnergyOutWh (l\<lparr>ll_notes := x\<rparr>) = lapEnergyOutWh l" "lapEnergyInWh (l\<lparr>ll_notes := x\<rparr>) = lapEnergyInWh l"
  by (simp_all add: lapEnergyOutWh_def lapEnergyInWh_def split: option.split)

lemma energy_map:
  assumes "energy_ok st" "\<And>l. lapEnergyOutWh (f l) = lapEnergyOutWh l" "\<And>l. lapEnergyInWh (f l) = lapEnergyInWh l" "\<And>l. ll_energy (f l) = ll_energy l"
  shows "energy_ok (st\<lparr>lv_laps := map f (lv_laps st)\<rparr>)"
  using energy_lap [OF assms(1)] laps_map [of f "lv_laps st"] assms(2-4)
  by (intro energy_laps [OF assms(1)]) (auto simp: lap_energy_ok_def)

lemma energy_edits:
  assumes "energy_ok st"
  shows "energy_ok (st\<lparr>lv_laps := map (\<lambda>l. if ll_id l = i then l\<lparr>ll_dur := dur, ll_end := ll_start l + dur\<rparr> else l) (lv_laps st)\<rparr>)"
    "energy_ok (st\<lparr>lv_laps := map (\<lambda>l. if ll_id l = i then l\<lparr>ll_notes := x\<rparr> else l) (lv_laps st)\<rparr>)"
    "energy_ok (st\<lparr>lv_laps := filter (\<lambda>l. ll_id l \<noteq> i) (lv_laps st)\<rparr>)"
proof -
  show "energy_ok (st\<lparr>lv_laps := filter (\<lambda>l. ll_id l \<noteq> i) (lv_laps st)\<rparr>)"
    using energy_lap [OF assms] laps_filter [OF energy_lap [OF assms]] by (intro energy_laps [OF assms]) simp_all
qed (rule energy_map [OF assms]; simp)+

lemma energy_hand: "energy_ok st \<Longrightarrow> energy_ok (st\<lparr>lv_laps := lv_laps st @ [hand_lap now dur k]\<rparr>)"
proof -
  assume st: "energy_ok st"
  have "lapEnergyOutWh (hand_lap now dur k) = 0" "lapEnergyInWh (hand_lap now dur k) = 0" "ll_energy (hand_lap now dur k) = 0"
    by (simp_all add: hand_lap_def lapEnergyOutWh_def lapEnergyInWh_def)
  then show ?thesis using energy_lap [OF st] by (intro energy_laps [OF st]) (auto simp: lap_energy_ok_def)
qed

lemma manual_energy:
  "lapEnergyOutWh (manual_lap n st) = rn_out (lv_run st)" "lapEnergyInWh (manual_lap n st) = rn_in (lv_run st)"
  "ll_energy (manual_lap n st) = rn_energy (lv_run st)"
  by (simp_all add: manual_lap_def lapEnergyOutWh_def lapEnergyInWh_def Let_def)

lemma energy_close: "energy_ok st \<Longrightarrow> energy_ok (st\<lparr>lv_laps := lv_laps st @ [manual_lap n st], lv_run := run_at n s\<rparr>)"
  by (auto simp: energy_ok_def lap_energy_ok_def manual_energy)

lemma saved_energy:
  assumes "0 \<le> rn_out r" "0 \<le> rn_in r" "rn_energy r = rn_out r - rn_in r"
  shows "rn_energy (restored_run (saved_run cap r)) = rn_out (restored_run (saved_run cap r)) - rn_in (restored_run (saved_run cap r))"
    "0 \<le> rn_out (restored_run (saved_run cap r))" "0 \<le> rn_in (restored_run (saved_run cap r))"
    "rn_out (restored_run (saved_run cap r)) \<le> rn_out r" "rn_in (restored_run (saved_run cap r)) \<le> rn_in r"
  using assms by (cases "set_ms (rn_start r)"; simp add: saved_run_simps)+

lemma energy_saved: "energy_ok st \<Longrightarrow> energy_ok (restored_state (buildSavedSession now full st p))"
proof -
  assume st: "energy_ok st"
  let ?sv = "buildSavedSession now full st p"
  let ?r = "restored_run (sv_current ?sv)"
  have e: "lv_total (restored_state ?sv) = lv_total st" "lv_out (restored_state ?sv) = lv_out st" "lv_in (restored_state ?sv) = lv_in st"
    "lv_laps (restored_state ?sv) = map normalizeSavedLiveLap (lv_laps st)" "lv_run (restored_state ?sv) = ?r"
    by (simp_all add: restored_state_def Let_def)
  have r: "rn_energy ?r = rn_out ?r - rn_in ?r" "0 \<le> rn_out ?r" "0 \<le> rn_in ?r" "rn_out ?r \<le> rn_out (lv_run st)" "rn_in ?r \<le> rn_in (lv_run st)"
    using st unfolding saved_doc energy_ok_def by (simp_all add: saved_energy)
  have l: "\<forall>l \<in> set (map normalizeSavedLiveLap (lv_laps st)). lap_energy_ok l"
    using energy_lap [OF st] by (auto simp: lap_energy_ok_def normalize_energy)
  have s: "laps_out (map normalizeSavedLiveLap (lv_laps st)) = laps_out (lv_laps st)" "laps_in (map normalizeSavedLiveLap (lv_laps st)) = laps_in (lv_laps st)"
    by (simp_all add: laps_map normalize_energy)
  show ?thesis unfolding energy_ok_def e s using st r l unfolding energy_ok_def by auto
qed

interpretation energy: session_invariant energy_ok
  by unfold_locales (simp_all add: leader_energy mirror_energy energy_hand energy_edits energy_run_cleared energy_close energy_saved empty_ok)

subsection \<open>A lap at the gate\<close>

lemma leader_parts:
  assumes "gate_step M tr st s (leader_run M s st) = (r1, cl, reset)"
  shows "snd (leader_sample M tr s st) = cl" "lv_laps (fst (leader_sample M tr s st)) = lv_laps st @ (case cl of Some l \<Rightarrow> [l] | None \<Rightarrow> [])"
    "rn_start (lv_run (fst (leader_sample M tr s st))) = rn_start r1"
  using leader_sample_eq [OF assms] by force+

lemma gate_step_closed:
  assumes "gate_step M tr st s r = (r1, Some l, reset)"
  shows "r1 = run_at (ls_t s) s" "set_ms (rn_start r)" "5000 < ls_t s - the (rn_start r)"
    "\<exists>n gs. l = flying_lap n (ls_t s) gs r"
  using assms unfolding gate_step_def by (auto simp: Let_def split: option.splits if_splits)

lemma carry_fields [simp]:
  "rn_start (carry_run M p s r) = rn_start r" "rn_sector (carry_run M p s r) = rn_sector r" "rn_sectors (carry_run M p s r) = rn_sectors r"
  by (simp_all add: carry_run_def case_prod_beta)

lemma sum_above: "(\<And>d. d \<in> set ds \<Longrightarrow> 500 < d) \<Longrightarrow> 0 \<le> sum_list (ds :: int list)"
  by (induction ds) force+

lemma flying_sectors:
  assumes "run_timed r" "rn_start r = Some a" "0 < a"
  shows "ll_sectors (flying_lap n t gs r) = [] \<or> sum_list (ll_sectors (flying_lap n t gs r)) = t - a"
proof -
  obtain b where b: "rn_sector r = Some b" "sum_list (rn_sectors r) = b - a" using assms(1,2) by (auto simp: run_timed_def)
  have "0 \<le> sum_list (rn_sectors r)" using assms(1,2) by (intro sum_above) (auto simp: run_timed_def)
  then have "set_ms (rn_sector r)" using b assms(3) by (simp add: set_ms_def)
  then show ?thesis using b assms(2) by (simp add: flying_lap_def Let_def)
qed

text \<open>C8: a lap that is closed at the start line ends where the next one starts, is longer than five seconds, joins the end of the
  list, and its sector times, when there are any, add up to its lap time.\<close>

theorem gate_lap_sound:
  assumes "timing_ok st" "rn_start (lv_run st) = Some a" "0 < a" "snd (leader_sample M tr s st) = Some l"
  shows "ll_start l = a \<and> ll_end l = ls_t s \<and> ll_dur l = ls_t s - a \<and> 5000 < ll_dur l
    \<and> lv_laps (fst (leader_sample M tr s st)) = lv_laps st @ [l]
    \<and> rn_start (lv_run (fst (leader_sample M tr s st))) = Some (ll_end l)
    \<and> (ll_sectors l = [] \<or> sum_list (ll_sectors l) = ll_dur l)"
proof -
  obtain r1 cl reset where g: "gate_step M tr st s (leader_run M s st) = (r1, cl, reset)" by (metis prod_cases3)
  have cl: "cl = Some l" using assms(4) leader_parts(1) [OF g] by simp
  note c = gate_step_closed [OF g [unfolded cl]]
  obtain n gs where l: "l = flying_lap n (ls_t s) gs (leader_run M s st)" using c(4) by blast
  have r: "rn_start (leader_run M s st) = Some a" "run_timed (leader_run M s st)"
    using assms(1,2) carry_timed by (simp_all add: leader_run_def timing_ok_def)
  have "ll_start l = a" "ll_end l = ls_t s" "ll_dur l = ls_t s - a" unfolding l using r(1) by (simp_all add: flying_lap_def Let_def)
  moreover have "rn_start (lv_run (fst (leader_sample M tr s st))) = Some (ls_t s)"
    unfolding leader_parts(3) [OF g] c(1) by (simp add: run_at_def)
  ultimately show ?thesis
    using c(3) r(1) leader_parts(2) [OF g] cl flying_sectors [OF r(2,1) assms(3), of n "ls_t s" gs] unfolding l by simp
qed

definition flat_math :: js_math where
  "flat_math = \<lparr>m_sin = (\<lambda>_. 0), m_cos = (\<lambda>_. 1), m_sqrt = (\<lambda>x. x), m_atan2 = (\<lambda>y x. y), m_exp = (\<lambda>_. 0), m_PI = 3\<rparr>"

definition fix_at :: "int \<Rightarrow> rat \<Rightarrow> live_sample" where
  "fix_at t x = (counted t 0 0)\<lparr>ls_lat := Some (1 / 2), ls_lon := Some x\<rparr>"

definition lap_under_way :: live_state where
  "lap_under_way = EMPTY_LIVE_STATE\<lparr>lv_last := Some (fix_at 61000 (- 1)), lv_samples := [fix_at 61000 (- 1)],
     lv_run := run_at 1000 (fix_at 1000 1)\<rparr>"

definition one_gate :: track where
  "one_gate = \<lparr>tk_name = ''A'', tk_slug = ''a'', tk_notes = [], tk_gates = [start_line]\<rparr>"

lemma under_way_ok: "timing_ok lap_under_way"
  by (simp add: lap_under_way_def timing_ok_def EMPTY_LIVE_STATE_def LIVE_SAMPLE_MEMORY_CAP_def)

lemma under_way_closes: "snd (gate_step flat_math one_gate lap_under_way (fix_at 62000 1) (leader_run flat_math (fix_at 62000 1) lap_under_way))
    = (Some (flying_lap 1 62000 [] (leader_run flat_math (fix_at 62000 1) lap_under_way)), True)"
proof -
  have s: "rn_start (leader_run flat_math (fix_at 62000 1) lap_under_way) = Some 1000"
    by (simp add: leader_run_def lap_under_way_def run_at_def)
  have t: "gps_trustworthy flat_math (Some (fix_at 61000 (- 1))) (fix_at 62000 1)"
    by (simp add: gps_trustworthy_def step_seconds_def step_distance_def gps_distance_def distanceMeters_def flat_math_def fix_at_def counted_def
        hasGps_def MAX_PLAUSIBLE_GPS_MPS_def seconds_between_def Let_def)
  have x: "sampleCrossesGate (fix_at 61000 (- 1)) (fix_at 62000 1) start_line"
    by (simp add: sampleCrossesGate_def segmentsCross_live_def orientation_live_def fix_at_def counted_def hasGps_def start_line_def Let_def)
  have g: "start_gate (tk_gates one_gate) = Some start_line" "split_gates (tk_gates one_gate) = []"
    by (simp_all add: one_gate_def start_gate_def split_gates_def start_line_def)
  have l: "lv_last lap_under_way = Some (fix_at 61000 (- 1))" "\<not> lv_disarmed lap_under_way" "lv_laps lap_under_way = []" "ls_t (fix_at 62000 1) = 62000"
    by (simp_all add: lap_under_way_def EMPTY_LIVE_STATE_def fix_at_def counted_def)
  show ?thesis by (simp add: gate_step_def l t x g s set_ms_def)
qed

lemma gate_lap_sound_witness:
  "lv_laps (fst (leader_sample flat_math one_gate (fix_at 62000 1) lap_under_way))
    = [the (snd (leader_sample flat_math one_gate (fix_at 62000 1) lap_under_way))]
   \<and> ll_dur (the (snd (leader_sample flat_math one_gate (fix_at 62000 1) lap_under_way))) = 61000"
proof -
  obtain r1 cl reset where g: "gate_step flat_math one_gate lap_under_way (fix_at 62000 1) (leader_run flat_math (fix_at 62000 1) lap_under_way) = (r1, cl, reset)"
    by (metis prod_cases3)
  then obtain l where l: "cl = Some l" using under_way_closes by simp
  have a: "rn_start (lv_run lap_under_way) = Some 1000" "lv_laps lap_under_way = []" by (simp_all add: lap_under_way_def run_at_def EMPTY_LIVE_STATE_def)
  have c: "snd (leader_sample flat_math one_gate (fix_at 62000 1) lap_under_way) = Some l" using leader_parts(1) [OF g] l by simp
  from gate_lap_sound [OF under_way_ok a(1) _ c] show ?thesis using c a(2) by (simp add: fix_at_def counted_def)
qed

subsection \<open>What holds of the page\<close>

definition new_page :: "page \<Rightarrow> page" where
  "new_page p = (fresh_page p)\<lparr>pg_local := None, pg_idb := None, pg_backend := None, pg_endedAt := 0\<rparr>"

lemma new_page_ok: "timing.page_ok (new_page p)" "energy.page_ok (new_page p)"
  by (simp_all add: timing.page_ok_def energy.page_ok_def new_page_def fresh_page_def empty_ok)

definition from_outside :: "(live_state \<Rightarrow> bool) \<Rightarrow> page_op \<Rightarrow> bool" where
  "from_outside P a \<longleftrightarrow> (\<forall>sv. a = Adopt sv \<or> a = Load_file (Some sv) \<longrightarrow> P (restored_state sv))"

text \<open>C6: whatever the page does, with whichever writes lost, every lap it shows ends its duration after it starts, the sectors of
  the running lap fill the time up to the last split and are longer than half a second, no more than six thousand samples are
  kept, and the newest of them is the last sample.\<close>

theorem session_timing_ok:
  assumes "\<forall>x \<in> set as. from_outside timing_ok (snd (snd x))"
  shows "timing_ok (pg_live (run_page M as (new_page p)))"
proof -
  have "timing.page_ok (run_page M as (new_page p))"
    using assms by (intro timing.run_adopting new_page_ok) (simp add: from_outside_def)
  then show ?thesis by (simp add: timing.page_ok_def)
qed

definition all_stored :: writes where
  "all_stored = \<lparr>wr_local = True, wr_idb = True, wr_backend = True\<rparr>"

definition blank_page :: page where
  "blank_page = \<lparr>pg_live = EMPTY_LIVE_STATE, pg_mirror = False, pg_selected = [], pg_known = [], pg_wall = 0, pg_track = one_gate,
     pg_info = None, pg_source = ''orion'', pg_targetLaps = 22, pg_targetKwh = 5, pg_cutoff = 3, pg_metadata = [], pg_setup = [],
     pg_fromFile = False, pg_offer = None, pg_ended = False, pg_lastLocal = 0, pg_lastBackend = 0, pg_savedLaps = 0,
     pg_local = None, pg_idb = None, pg_backend = None, pg_endedAt = 0\<rparr>"

definition hand_laps :: "(writes \<times> int \<times> page_op) list" where
  "hand_laps = [(all_stored, 70000, Hand_lap 60000), (all_stored, 71000, Edit_time ''manual-lap-1-70000'' 61000), (all_stored, 72000, Reload)]"

lemma session_timing_ok_witness: "timing_ok (pg_live (run_page flat_math hand_laps (new_page blank_page)))"
  by (rule session_timing_ok) (simp add: hand_laps_def from_outside_def)


definition fed_pages :: "(writes \<times> int \<times> page_op) list" where
  "fed_pages = [(all_stored, 1, Feed (Sample_event (counted 1000 5 1))), (all_stored, 1, Lap_button),
     (all_stored, 2, Feed (Sample_event (counted 2000 7 2))), (all_stored, 2, Lap_button)]"


text \<open>C9: a page that has a session to save and is reloaded within twelve hours shows the same laps with the same energy, the
  running lap with its last fifteen hundred samples, the same totals, flags, plan and selection.\<close>

theorem reload_restores:
  assumes "\<not> pg_mirror p" "lv_laps (pg_live p) \<noteq> [] \<or> lv_samples (pg_live p) \<noteq> [] \<or> pg_info p \<noteq> None"
    "pg_endedAt p < now" "later - now \<le> SESSION_AUTO_RESTORE_MAX_AGE_MS" "set_ms (rn_start (lv_run (pg_live p)))"
    "q = reload later (persistLiveSession all_stored now True True p)"
  shows "lv_laps (pg_live q) = map normalizeSavedLiveLap (lv_laps (pg_live p))
    \<and> lv_run (pg_live q) = (lv_run (pg_live p))\<lparr>rn_samples := last_n SESSION_AUTOSAVE_SAMPLE_CAP (rn_samples (lv_run (pg_live p)))\<rparr>
    \<and> lv_total (pg_live q) = lv_total (pg_live p) \<and> lv_out (pg_live q) = lv_out (pg_live p) \<and> lv_in (pg_live q) = lv_in (pg_live p)
    \<and> lv_flags (pg_live q) = lv_flags (pg_live p) \<and> lv_topic (pg_live q) = lv_topic (pg_live p)
    \<and> pg_targetLaps q = pg_targetLaps p \<and> pg_info q = info_for_save p
    \<and> pg_selected q = filter (\<lambda>i. i \<in> set (lap_ids (lv_laps (pg_live p)))) (selectedLapIdsForSave (lv_laps (pg_live p)) p)"
proof -
  let ?d = "buildSavedSession now False (pg_live p) p"
  let ?s = "persistLiveSession all_stored now True True p"
  have s: "pg_local ?s = Some ?d" "pg_idb ?s = Some ?d" "pg_backend ?s = Some ?d" "pg_endedAt ?s = pg_endedAt p"
    using assms(1,2) by (auto simp: persistLiveSession_def Let_def has_data_def all_stored_def)
  have t: "last_n SESSION_AUTOSAVE_SAMPLE_CAP xs = [] \<longleftrightarrow> xs = []" for xs :: "live_sample list"
    by (cases xs) (auto simp: last_n_def SESSION_AUTOSAVE_SAMPLE_CAP_def)
  have r: "isRestorableSession ?d" using assms(2) by (auto simp: isRestorableSession_def t info_for_save_def)
  have "restore_candidates (fresh_page ?s) = [?d, ?d, ?d]"
    using r assms(3) by (simp add: restore_candidates_def fresh_page_def s List.map_filter_simps)
  then have q: "q = restoreLiveState ?d False (fresh_page ?s)"
    using assms(4,6) by (simp add: reload_def restore_on_mount_def Let_def later_saved_def)
  have st: "pg_live q = restored_state ?d" "pg_info q = info_for_save p" "pg_targetLaps q = pg_targetLaps p"
    "pg_selected q = defaultSelectedLapIds (lv_laps (restored_state ?d)) (sv_selected ?d) (sv_selectionSaved ?d)"
    unfolding q by (simp_all add: restoreLiveState_def Let_def buildSavedSession_def)
  have ids: "lap_ids (map normalizeSavedLiveLap ls) = lap_ids ls" for ls
    by (induction ls) (simp_all add: lap_ids_def normalizeSavedLiveLap_def)
  have l: "lv_laps (restored_state ?d) = map normalizeSavedLiveLap (lv_laps (pg_live p))" by (simp add: restored_state_def Let_def)
  show ?thesis unfolding st l
    by (simp add: restored_state_def Let_def defaultSelectedLapIds_def ids saved_run_simps(1) [OF assms(5)])
qed

definition driven_page :: page where
  "driven_page = blank_page\<lparr>pg_live := EMPTY_LIVE_STATE\<lparr>lv_laps := [hand_lap 70000 60000 1], lv_run := run_at 80000 (counted 80000 5 1),
     lv_samples := [counted 80000 5 1], lv_total := 4, lv_out := 5, lv_in := 1\<rparr>\<rparr>"

lemma reload_restores_witness:
  "lv_total (pg_live (reload 95000 (persistLiveSession all_stored 90000 True True driven_page))) = 4
    \<and> lv_laps (pg_live (reload 95000 (persistLiveSession all_stored 90000 True True driven_page)))
        = [normalizeSavedLiveLap (hand_lap 70000 60000 1)]"
proof -
  have "\<not> pg_mirror driven_page" "lv_laps (pg_live driven_page) = [hand_lap 70000 60000 1]" "pg_endedAt driven_page < 90000"
    "set_ms (rn_start (lv_run (pg_live driven_page)))" "lv_total (pg_live driven_page) = 4"
    by (simp_all add: driven_page_def blank_page_def run_at_def set_ms_def)
  then show ?thesis using reload_restores [of driven_page 90000 95000, OF _ _ _ _ _ refl]
    by (simp add: SESSION_AUTO_RESTORE_MAX_AGE_MS_def)
qed

lemma stopped_no_candidate:
  assumes "\<And>sv. pg_local p = Some sv \<or> pg_idb p = Some sv \<or> pg_backend p = Some sv \<Longrightarrow> sv_savedAt sv \<le> pg_endedAt p"
  shows "restore_candidates p = []"
proof (rule ccontr)
  assume "restore_candidates p \<noteq> []"
  then obtain sv where "sv \<in> set (restore_candidates p)" using hd_in_set by blast
  from candidate_stored [OF this] assms show False by fastforce
qed




text \<open>A mirror that has counted energy of its own keeps its net total and takes the leader's recovered energy while its own is zero:
  its total is then no longer what was drawn less what was recovered.\<close>

lemma adopt_breaks_total:
  assumes "energy_ok st" "lv_out st > 0" "lv_in st = 0" "sv_in sv = Some x" "x \<noteq> 0"
  shows "lv_total (adopt_state sv st) \<noteq> lv_out (adopt_state sv st) - lv_in (adopt_state sv st)"
  using assms by (simp add: energy_ok_def adopt_state_def)

text \<open>The lap button's stop disarms the gate until the next lap is started by hand; a reload arms it again.\<close>

lemma reload_arms_gate: "\<not> lv_disarmed (pg_live (restoreLiveState sv f p))"
  by (simp add: restoreLiveState_def restored_state_def EMPTY_LIVE_STATE_def Let_def)

text \<open>The document that is written when a lap is closed has the lap unselected: it is known already, and not yet selected.\<close>

lemma closed_lap_saved_unselected:
  assumes "l \<in> set (lv_laps (pg_live p))" "ll_id l \<notin> set (pg_selected p)"
  shows "ll_id l \<notin> set (sv_selected (buildSavedSession now False (pg_live p) (know_lap (ll_id l) p)))"
proof -
  define add where "add = (\<lambda>sel i. if i \<noteq> ll_id l \<and> i \<notin> set (pg_known p) then js_add i sel else sel)"
  have step: "ll_id l \<notin> set (add sel i)" if "ll_id l \<notin> set sel" for sel i
    using that by (auto simp: add_def set_js_add)
  have "ll_id l \<notin> set (foldl add sel ls)" if "ll_id l \<notin> set sel" for sel ls
    using that by (induction ls arbitrary: sel) (simp_all add: step)
  then show ?thesis using assms(2) by (simp add: selectedLapIdsForSave_def know_lap_def set_js_add add_def [symmetric])
qed

subsection \<open>A mirror and the shared document\<close>

lemma persist_backend: "pg_mirror p \<Longrightarrow> pg_backend (persistLiveSession w now a b p) = pg_backend p"
  by (simp add: persistLiveSession_def Let_def)

lemma persist_mirror [simp]: "pg_mirror (persistLiveSession w now a b p) = pg_mirror p"
  by (simp add: persistLiveSession_def Let_def)

lemma restore_backend [simp]: "pg_backend (restoreLiveState sv f p) = pg_backend p"
  by (simp add: restoreLiveState_def Let_def)

lemma select_backend: "pg_backend (foldl (\<lambda>q i. if i \<in> set (pg_known q) then q else select_lap i (know_lap i q)) p ids) = pg_backend p"
  by (induction ids arbitrary: p) (simp_all add: select_lap_def know_lap_def)

lemma mirror_live_backend:
  assumes "pg_mirror p"
  shows "pg_backend (handleLiveEvent M w now e p) = pg_backend p" "pg_backend (triggerManualLap w now p) = pg_backend p"
    "pg_backend (autosave w now p) = pg_backend p" "pg_backend (eventFlag_answer w now t x s p) = pg_backend p"
    "pg_backend (pull_flags u fs p) = pg_backend p" "pg_backend (restore_on_mount now q) = pg_backend q"
  using assms
  by (simp_all add: handleLiveEvent_def processLiveSample_def triggerManualLap_def autosave_def eventFlag_answer_def pull_flags_def
      restore_on_mount_def persist_backend stamp_laps_def Let_def split: live_event.split option.split list.split)

text \<open>A page that mirrors the leader never changes the document that all pages share, whatever it does.\<close>

lemma mirror_keeps_backend: "pg_mirror p \<Longrightarrow> pg_backend (perform M w now a p) = pg_backend p"
  by (cases a) (simp_all add: perform_def mirror_live_backend stopLap_def addManualLap_def editLapDuration_def editLapNote_def deleteLap_def
      toggleLapSelected_def auto_select_def select_backend eventFlag_record_def startLiveData_def stopLiveData_def resetLiveSession_def
      startNewSession_def stopEvent_def link_day_def restore_setup_def adoptSharedSession_def loadSessionFile_def reload_def fresh_page_def
      resumeSavedSession_def dismissSavedSession_def Let_def split: option.split)

end
