(* ===== verification/LiveStrategy.thy ===== *)
theory LiveStrategy
  imports LiveSession
begin

text \<open>
  What the strategist reads off the live session, \<^verbatim>\<open>viewer_tool/src/app/trackside-live/TracksideApp.tsx\<close>: the energy budget of the
  remaining laps, the averages, the projection of the battery temperature, the estimate of the open-circuit cell voltage and the
  derating that follows from it, the torque the driver asks for, and the series of the charts.

  The tables and coefficients of the code are exact decimals here, and the exponents of its pedal curves are natural numbers.
\<close>

subsection \<open>The plan\<close>

definition selectedLaps :: "page \<Rightarrow> live_lap list" where
  "selectedLaps p = filter (\<lambda>l. ll_id l \<in> set (pg_selected p)) (lv_laps (pg_live p))"

definition targetEnergyPerLapWh :: "page \<Rightarrow> rat option" where
  "targetEnergyPerLapWh p = (if pg_targetLaps p > 0 \<and> pg_targetKwh p > 0 then Some (pg_targetKwh p * 1000 / pg_targetLaps p) else None)"

definition energyUsedWh :: "page \<Rightarrow> rat" where
  "energyUsedWh p = sum_list (map ll_energy (lv_laps (pg_live p)))"

definition lapsCompletedPlan :: "page \<Rightarrow> nat" where
  "lapsCompletedPlan p = length (selectedLaps p)"

definition totalBudgetWh :: "page \<Rightarrow> rat option" where
  "totalBudgetWh p = (if pg_targetKwh p > 0 then Some (pg_targetKwh p * 1000) else None)"

definition remainingBudgetWh :: "page \<Rightarrow> rat option" where
  "remainingBudgetWh p = map_option (\<lambda>b. b - energyUsedWh p) (totalBudgetWh p)"

definition lapsRemainingPlan :: "page \<Rightarrow> rat option" where
  "lapsRemainingPlan p = (if pg_targetLaps p > 0 then Some (max 0 (pg_targetLaps p - of_nat (lapsCompletedPlan p))) else None)"

definition dynamicLapBudgetWh :: "page \<Rightarrow> rat option" where
  "dynamicLapBudgetWh p = (case (remainingBudgetWh p, lapsRemainingPlan p) of
       (Some r, Some n) \<Rightarrow> if n > 0 then Some (r / n) else None
     | _ \<Rightarrow> None)"

definition budgetVsTargetWh :: "page \<Rightarrow> rat option" where
  "budgetVsTargetWh p = (case (dynamicLapBudgetWh p, targetEnergyPerLapWh p) of (Some d, Some t) \<Rightarrow> Some (d - t) | _ \<Rightarrow> None)"

definition lastLap :: "page \<Rightarrow> live_lap option" where
  "lastLap p = (if lv_laps (pg_live p) = [] then None else Some (last (lv_laps (pg_live p))))"

definition lapDeltaS :: "page \<Rightarrow> rat option" where
  "lapDeltaS p = (case (lastLap p, best_lap_of (lv_laps (pg_live p))) of
       (Some l, Some b) \<Rightarrow> Some (of_int (ll_dur l - ll_dur b) / 1000) | _ \<Rightarrow> None)"

definition energyDeltaWh :: "rat option \<Rightarrow> page \<Rightarrow> rat option" where
  "energyDeltaWh target p = (case (lastLap p, target) of (Some l, Some t) \<Rightarrow> Some (ll_energy l - t) | _ \<Rightarrow> None)"

definition avgLapTimeS :: "page \<Rightarrow> rat option" where
  "avgLapTimeS p = (let recent = last_n 3 (lv_laps (pg_live p)) in
     if recent = [] then None else Some (of_int (sum_list (map ll_dur recent)) / of_nat (length recent) / 1000))"

definition autoTargetPowerKw :: "page \<Rightarrow> rat option" where
  "autoTargetPowerKw p = (case (dynamicLapBudgetWh p, avgLapTimeS p) of
       (Some b, Some t) \<Rightarrow> if t > 0 then Some (b / (t / 3600) / 1000) else None
     | _ \<Rightarrow> None)"

record lap_averages =
  la_count :: nat
  la_ms :: "rat option"
  la_energy :: "rat option"
  la_out :: "rat option"
  la_in :: "rat option"

definition average_of :: "(live_lap \<Rightarrow> rat) \<Rightarrow> live_lap list \<Rightarrow> rat option" where
  "average_of f ls = (if ls = [] then None else Some (sum_list (map f ls) / of_nat (length ls)))"

definition lapAverages :: "page \<Rightarrow> lap_averages" where
  "lapAverages p = (let ls = selectedLaps p in
     \<lparr>la_count = length ls, la_ms = average_of (\<lambda>l. of_int (ll_dur l)) ls, la_energy = average_of ll_energy ls,
      la_out = average_of lapEnergyOutWh ls, la_in = average_of lapEnergyInWh ls\<rparr>)"

definition bestSectorTimes :: "live_lap list \<Rightarrow> int option list" where
  "bestSectorTimes ls =
     (let n = fold (\<lambda>l m. max m (length (ll_sectors l))) ls 0 in
      map (\<lambda>i. let vs = filter (\<lambda>v. v > 0) (map (\<lambda>l. ll_sectors l ! i) (filter (\<lambda>l. i < length (ll_sectors l)) ls))
               in if vs = [] then None else Some (Min (set vs))) [0..<n])"

subsection \<open>The temperature of the battery\<close>

definition medianOf :: "rat list \<Rightarrow> rat" where
  "medianOf vs = (if vs = [] then 0
     else let s = sort vs; m = length s div 2 in if length s mod 2 = 1 then s ! m else (s ! (m - 1) + s ! m) / 2)"

fun lap_deltas :: "rat list \<Rightarrow> rat list" where
  "lap_deltas (a # b # ts) = (b - a) # lap_deltas (b # ts)"
| "lap_deltas _ = []"

definition slopeDegPerLap :: "rat list \<Rightarrow> rat" where
  "slopeDegPerLap ts = max 0 (max (medianOf (last_n 3 (lap_deltas ts))) (last (lap_deltas ts)))"

datatype thermal_projection =
    Not_ready "rat list" "rat option"
  | Projected "rat list" rat rat "rat option"

definition batteryThermalProjection :: "live_sample option \<Rightarrow> page \<Rightarrow> thermal_projection" where
  "batteryThermalProjection s p =
     (let ts = List.map_filter ll_temp (selectedLaps p) in
      case maxCellTempFor s of
        None \<Rightarrow> Not_ready ts None
      | Some t \<Rightarrow> if length ts < 2 then Not_ready ts (Some t)
          else Projected ts t (slopeDegPerLap ts) (map_option (\<lambda>n. t + slopeDegPerLap ts * n) (lapsRemainingPlan p)))"

subsection \<open>The estimate of the pack\<close>

definition DEFAULT_SOE_DERATE_START_CELL_V :: rat where "DEFAULT_SOE_DERATE_START_CELL_V = 32 / 10"

definition OCV_UPDATE_CURRENT_THRESHOLD_A :: rat where "OCV_UPDATE_CURRENT_THRESHOLD_A = 1"

definition OCV_LPF_TIME_CONSTANT_S :: rat where "OCV_LPF_TIME_CONSTANT_S = 20"

definition OCV_INITIAL_SAMPLE_COUNT :: nat where "OCV_INITIAL_SAMPLE_COUNT = 4"

definition medianNumber :: "rat list \<Rightarrow> rat option" where
  "medianNumber vs = (if vs = [] then None else Some (sort vs ! (length vs div 2)))"

definition reported_speed :: "live_sample \<Rightarrow> rat option" where
  "reported_speed s = or_else (ls_speed s) (firstLiveValue (ls_values s) [''speed'', ''gps_speed'', ''dynamics_gps_speed''])"

definition phase_currents :: "live_values \<Rightarrow> rat list" where
  "phase_currents vs = List.map_filter (firstLiveValue vs)
     [[''phase_a_current'', ''pack_phase_a_current'', ''inverter_phase_a_current''],
      [''phase_b_current'', ''pack_phase_b_current'', ''inverter_phase_b_current''],
      [''phase_c_current'', ''pack_phase_c_current'', ''inverter_phase_c_current'']]"

definition stationary :: "live_sample \<Rightarrow> bool" where
  "stationary s \<longleftrightarrow> (case motorSpeedRpmFor (Some s) of None \<Rightarrow> True | Some r \<Rightarrow> \<bar>r\<bar> < 50)
     \<and> (case reported_speed s of None \<Rightarrow> True | Some v \<Rightarrow> \<bar>v\<bar> < 1)"

definition ocvRestCurrentFor :: "live_sample \<Rightarrow> rat option" where
  "ocvRestCurrentFor s = (case dcBusCurrentFor (Some s) of
       Some c \<Rightarrow> Some c
     | None \<Rightarrow> if \<not> stationary s then None
         else let cs = phase_currents (ls_values s) in if cs = [] then None else Some (Max (set (map abs cs))))"

definition lpfAlphaFromTau :: "rat \<Rightarrow> rat \<Rightarrow> rat" where
  "lpfAlphaFromTau dt tau = (if tau \<le> 0 then 1 else clamp_rat 0 1 (dt / (tau + dt)))"

definition lpfStepFirmware :: "rat \<Rightarrow> rat \<Rightarrow> rat \<Rightarrow> rat" where
  "lpfStepFirmware prev v alpha = alpha * v + (1 - alpha) * prev"

definition rest_voltage :: "live_sample \<Rightarrow> rat option" where
  "rest_voltage s = (case (keep_if validCellVoltage (minCellVoltageFor (Some s)), ocvRestCurrentFor s) of
       (Some v, Some c) \<Rightarrow> if \<bar>c\<bar> < OCV_UPDATE_CURRENT_THRESHOLD_A then Some v else None
     | _ \<Rightarrow> None)"

definition soe_cell_step :: "rat option \<times> int option \<times> rat list \<Rightarrow> live_sample \<Rightarrow> rat option \<times> int option \<times> rat list" where
  "soe_cell_step = (\<lambda>(est, prev, init) s. (case rest_voltage s of
       None \<Rightarrow> (est, Some (ls_t s), init)
     | Some v \<Rightarrow> (case est of
           None \<Rightarrow> (if length (init @ [v]) \<ge> OCV_INITIAL_SAMPLE_COUNT then medianNumber (init @ [v]) else None, Some (ls_t s), init @ [v])
         | Some e \<Rightarrow>
             let dt = (case prev of None \<Rightarrow> 0 | Some t \<Rightarrow> max 0 (of_int (ls_t s - t) / 1000))
             in (Some (lpfStepFirmware e v (lpfAlphaFromTau dt OCV_LPF_TIME_CONSTANT_S)), Some (ls_t s), init))))"

definition estimateSoeCellVoltage :: "live_sample list \<Rightarrow> rat option" where
  "estimateSoeCellVoltage ss = fst (foldl soe_cell_step (None, None, []) ss)"

definition lowVoltageDerateFromOcv :: "rat \<Rightarrow> rat \<Rightarrow> rat \<Rightarrow> rat" where
  "lowVoltageDerateFromOcv v start cutoff =
     (if start \<le> cutoff then (if v > cutoff then 1 else 0) else clamp_rat 0 1 ((v - cutoff) / (start - cutoff)))"

record pack_status =
  pk_voltage :: "rat option"
  pk_source :: voltage_source
  pk_bus :: "rat option"
  pk_cell :: "rat option"
  pk_percent :: "rat option"
  pk_fromCar :: bool
  pk_kwh :: "rat option"
  pk_derate :: "rat option"
  pk_min :: "rat option"
  pk_max :: "rat option"
  pk_temp :: "rat option"

definition packStatus :: "live_sample list \<Rightarrow> rat \<Rightarrow> live_sample option \<Rightarrow> pack_status" where
  "packStatus ss cutoff display =
     (let s = (case display of Some x \<Rightarrow> Some x | None \<Rightarrow> if ss = [] then None else Some (last ss));
          cell = estimateSoeCellVoltage ss; percent = carSoePercentFor s; lo = minCellVoltageFor s
      in \<lparr>pk_voltage = packVoltageFor s, pk_source = packVoltageSourceFor s, pk_bus = dcBusVoltageFor s, pk_cell = cell,
          pk_percent = percent, pk_fromCar = (percent \<noteq> None), pk_kwh = map_option (\<lambda>x. x / 100 * PACK_ENERGY_KWH) percent,
          pk_derate = map_option (\<lambda>v. lowVoltageDerateFromOcv v DEFAULT_SOE_DERATE_START_CELL_V cutoff * 100) cell,
          pk_min = lo,
          pk_max = (case (maxCellVoltageFor s, lo) of
              (Some h, Some l) \<Rightarrow> if h < l then Some l else Some h | (Some h, None) \<Rightarrow> Some h | (None, l) \<Rightarrow> l),
          pk_temp = maxCellTempFor s\<rparr>)"

subsection \<open>The driver's torque\<close>

record torque_params =
  tq_id :: string
  tq_label :: string
  tq_limit :: "rat list"
  tq_pedalX :: "rat list"
  tq_pedal :: "rat list"
  tq_exponent :: nat
  tq_derateStart :: rat
  tq_cutoff :: rat
  tq_minTravel :: rat
  tq_maxTravel :: rat

definition VCU_MAX_MOTOR_RPM :: rat where "VCU_MAX_MOTOR_RPM = 6000"

definition VCU_DEFAULT_TORQUE_PARAMS :: torque_params where
  "VCU_DEFAULT_TORQUE_PARAMS = \<lparr>tq_id = ''default'', tq_label = ''Default'',
     tq_limit = [210, 210, 210, 210, 210, 192, 166, 145, 129, 115, 103],
     tq_pedalX = [0, 1 / 10, 2 / 10, 3 / 10, 4 / 10, 5 / 10, 6 / 10, 7 / 10, 8 / 10, 9 / 10, 1],
     tq_pedal = [0, 1 / 10, 2 / 10, 3 / 10, 4 / 10, 5 / 10, 6 / 10, 7 / 10, 8 / 10, 9 / 10, 1],
     tq_exponent = 2, tq_derateStart = 32 / 10, tq_cutoff = 28 / 10, tq_minTravel = 9 / 100, tq_maxTravel = 88 / 100\<rparr>"

definition VCU_TORQUE_PARAM_SETS :: "torque_params list" where
  "VCU_TORQUE_PARAM_SETS = [VCU_DEFAULT_TORQUE_PARAMS,
     VCU_DEFAULT_TORQUE_PARAMS\<lparr>tq_id := ''acceleration'', tq_label := ''Acceleration''\<rparr>,
     VCU_DEFAULT_TORQUE_PARAMS\<lparr>tq_id := ''autocross'', tq_label := ''Autocross''\<rparr>,
     VCU_DEFAULT_TORQUE_PARAMS\<lparr>tq_id := ''endurance'', tq_label := ''Endurance''\<rparr>,
     VCU_DEFAULT_TORQUE_PARAMS\<lparr>tq_id := ''skidpad'', tq_label := ''Skidpad'',
       tq_pedalX := [0, 4 / 100, 16 / 100, 28 / 100, 40 / 100, 52 / 100, 64 / 100, 70 / 100, 80 / 100, 90 / 100, 1],
       tq_pedal := [0, 1904762 / 10000000, 2857143 / 10000000, 3809524 / 10000000, 4761905 / 10000000, 5714286 / 10000000,
         6666667 / 10000000, 7142857 / 10000000, 7142857 / 10000000, 7142857 / 10000000, 7142857 / 10000000],
       tq_exponent := 1\<rparr>]"

definition linearInterp :: "rat \<Rightarrow> rat \<Rightarrow> rat \<Rightarrow> rat" where
  "linearInterp a b t = a + (b - a) * clamp_rat 0 1 t"

definition lookupEvenlySpaced :: "rat list \<Rightarrow> rat \<Rightarrow> rat \<Rightarrow> rat \<Rightarrow> rat" where
  "lookupEvenlySpaced ys x lo hi =
     (if ys = [] then 0
      else if length ys = 1 \<or> x \<le> lo then hd ys
      else if x \<ge> hi then last ys
      else let step = (hi - lo) / of_nat (length ys - 1); i = nat (max 0 (min (int (length ys) - 2) \<lfloor>(x - lo) / step\<rfloor>))
           in linearInterp (ys ! i) (ys ! (i + 1)) ((x - (lo + of_nat i * step)) / step))"

definition lookupByBreakpoints :: "rat list \<Rightarrow> rat list \<Rightarrow> rat \<Rightarrow> rat" where
  "lookupByBreakpoints xs ys x =
     (let n = min (length xs) (length ys) in
      if n = 0 then 0
      else if n = 1 \<or> x \<le> xs ! 0 then ys ! 0
      else if x \<ge> xs ! (n - 1) then ys ! (n - 1)
      else case List.find (\<lambda>i. x \<le> xs ! i) [1..<n] of
             Some i \<Rightarrow> linearInterp (ys ! (i - 1)) (ys ! i) ((x - xs ! (i - 1)) / (xs ! i - xs ! (i - 1)))
           | None \<Rightarrow> ys ! (n - 1))"

definition inverseLinearInterp :: "rat \<Rightarrow> rat \<Rightarrow> rat \<Rightarrow> rat" where
  "inverseLinearInterp a b v = (if \<bar>b - a\<bar> < 1 / 1000000 then 0 else (v - a) / (b - a))"

definition applyAppsDeadzone :: "rat \<Rightarrow> rat \<Rightarrow> rat \<Rightarrow> rat" where
  "applyAppsDeadzone travel lo hi = (if travel \<le> lo then 0 else if travel \<ge> hi then 1 else (travel - lo) / (hi - lo))"

definition sensorVoltage :: "rat option \<Rightarrow> rat option" where
  "sensorVoltage v = map_option (\<lambda>x. if x > 5 \<and> x \<le> 4095 then x * (33 / 10) / 4095 else x) v"

definition averageValues :: "rat option list \<Rightarrow> rat option" where
  "averageValues vs = (let xs = List.map_filter (\<lambda>v. v) vs in if xs = [] then None else Some (sum_list xs / of_nat (length xs)))"

definition rawAppsTravelDetails :: "live_values \<Rightarrow> rat option" where
  "rawAppsTravelDetails vs =
     (case (sensorVoltage (firstLiveValue vs [''apps1_v'', ''controls_apps1_v'']),
            sensorVoltage (firstLiveValue vs [''apps2_v'', ''controls_apps2_v''])) of
        (Some a, Some b) \<Rightarrow> Some ((inverseLinearInterp (175 / 100) (152 / 100) a + inverseLinearInterp (19 / 100) (- (2 / 100)) b) / 2)
      | _ \<Rightarrow> None)"

definition rawAppsTravel :: "live_values \<Rightarrow> rat option" where
  "rawAppsTravel vs = map_option (clamp_rat 0 1)
     (or_else (rawAppsTravelDetails vs)
        (or_else (averageValues [firstLiveValue vs [''apps1_travel'', ''controls_apps1_travel''],
                                 firstLiveValue vs [''apps2_travel'', ''controls_apps2_travel'']])
          (firstLiveValue vs [''accel_pedal_travel'', ''dynamics_accel_pedal_travel''])))"

definition throttleTravelPercent :: "live_values \<Rightarrow> rat option" where
  "throttleTravelPercent vs = or_else (map_option (\<lambda>t. applyAppsDeadzone t (9 / 100) (88 / 100) * 100) (rawAppsTravel vs))
     (map_option (\<lambda>t. clamp_rat 0 100 (t * 100))
        (or_else (firstLiveValue vs [''accel_pedal_travel'', ''dynamics_accel_pedal_travel''])
           (averageValues [firstLiveValue vs [''apps1_travel'', ''controls_apps1_travel''],
                           firstLiveValue vs [''apps2_travel'', ''controls_apps2_travel'']])))"

definition liveRequestedTorqueNmFor :: "live_values \<Rightarrow> rat option" where
  "liveRequestedTorqueNmFor vs = keep_if (\<lambda>v. \<bar>v\<bar> \<le> 800) (firstLiveValue vs [''commanded_torque'', ''controls_commanded_torque'',
     ''torque_command'', ''controls_torque_command'', ''torque_request'', ''controls_torque_request''])"

definition computedDriverTorqueNmFor :: "live_sample option \<Rightarrow> torque_params \<Rightarrow> rat option" where
  "computedDriverTorqueNmFor s q = map_option (\<lambda>travel.
     let apps = applyAppsDeadzone travel (tq_minTravel q) (tq_maxTravel q);
         rpm = clamp_rat 0 VCU_MAX_MOTOR_RPM \<bar>case motorSpeedRpmFor s of Some r \<Rightarrow> r | None \<Rightarrow> 0\<bar>;
         available = lookupEvenlySpaced (tq_limit q) rpm 0 VCU_MAX_MOTOR_RPM;
         fraction = clamp_rat 0 1 (lookupByBreakpoints (tq_pedalX q) (tq_pedal q) apps) ^ tq_exponent q;
         derate = (case keep_if validCellVoltage (minCellVoltageFor s) of
             Some v \<Rightarrow> lowVoltageDerateFromOcv v (tq_derateStart q) (tq_cutoff q) | None \<Rightarrow> 1)
     in available * fraction * derate) (rawAppsTravel (sample_values s))"

datatype torque_source = Live_torque | Set_torque string | No_torque

definition driverTorqueRequestFor :: "live_sample option \<Rightarrow> torque_params \<Rightarrow> rat option \<times> torque_source" where
  "driverTorqueRequestFor s q =
     (let live = liveRequestedTorqueNmFor (sample_values s); calc = computedDriverTorqueNmFor s q;
          speed = or_else (of_sample ls_speed s) (firstLiveValue (sample_values s) [''speed'', ''gps_speed'', ''dynamics_gps_speed'']);
          moving = ((case motorSpeedRpmFor s of Some r \<Rightarrow> \<bar>r\<bar> > 50 | None \<Rightarrow> False) \<or> (case speed of Some v \<Rightarrow> \<bar>v\<bar> > 1 | None \<Rightarrow> False))
      in if moving \<and> live \<noteq> None then (live, Live_torque)
         else if calc \<noteq> None then (calc, Set_torque (tq_label q))
         else if live \<noteq> None then (live, Live_torque) else (None, No_torque))"

definition bse1Psi :: "rat \<Rightarrow> rat" where
  "bse1Psi v = clamp_rat 0 3000 (20006452 / 10000 * v - 6368984 / 10000)"

definition bse2Psi :: "rat \<Rightarrow> rat" where
  "bse2Psi v = clamp_rat 0 3000 (23093868 / 10000 * v - 7351852 / 10000)"

definition bse3Psi :: "rat \<Rightarrow> rat" where
  "bse3Psi v = bse2Psi v"

record driver_controls =
  dc_steering :: "rat option"
  dc_throttle :: "rat option"
  dc_torque :: "rat option \<times> torque_source"
  dc_bse1 :: "rat option"
  dc_bse2 :: "rat option"
  dc_bse3 :: "rat option"

definition driverControls :: "live_sample option \<Rightarrow> torque_params \<Rightarrow> driver_controls" where
  "driverControls s q = (let vs = sample_values s in
     \<lparr>dc_steering = firstLiveValue vs [''steer_col_angle'', ''dynamics_steer_col_angle'', ''steering_angle''],
      dc_throttle = map_option (clamp_rat 0 100) (throttleTravelPercent vs), dc_torque = driverTorqueRequestFor s q,
      dc_bse1 = map_option bse1Psi (firstLiveValue vs [''bse1_v'', ''controls_bse1_v'']),
      dc_bse2 = map_option bse2Psi (firstLiveValue vs [''bse2_v'', ''controls_bse2_v'']),
      dc_bse3 = or_else (firstLiveValue vs [''brake_pressure_rbll'', ''controls_brake_pressure_rbll'', ''bse3_psi'', ''controls_bse3_psi''])
        (map_option bse3Psi (firstLiveValue vs [''bse3_v'', ''controls_bse3_v'']))\<rparr>)"

subsection \<open>The series of the charts\<close>

record temp_status =
  ts_ambient :: "rat option"
  ts_coolant :: "rat option"
  ts_fan :: "rat option"
  ts_motor :: "rat option"
  ts_inverter :: "rat option"

definition tempStatus :: "live_sample option \<Rightarrow> temp_status" where
  "tempStatus s = (let vs = sample_values s; temp = (\<lambda>ks. keep_if validTemp (firstLiveValue vs ks)) in
     \<lparr>ts_ambient = temp [''ambient_temp'', ''thermal_ambient_temp''], ts_coolant = temp [''coolant_temp'', ''thermal_coolant_temp''],
      ts_fan = firstLiveValue vs [''fan_rpm'', ''thermal_fan_rpm'', ''battery_fan_rpm'', ''thermal_battery_fan_rpm''],
      ts_motor = temp [''motor_temp'', ''thermal_motor_temp''],
      ts_inverter = or_else (averageValues [temp [''module_b_temp'', ''thermal_module_b_temp''], temp [''module_c_temp'', ''thermal_module_c_temp'']])
        (temp [''inverter_temp'', ''thermal_inverter_temp''])\<rparr>)"

definition series_step :: "(live_sample \<Rightarrow> rat option) \<Rightarrow> (int \<times> rat) list list \<Rightarrow> live_sample \<Rightarrow> (int \<times> rat) list list" where
  "series_step f gs s = (case f s of
       None \<Rightarrow> if gs \<noteq> [] \<and> last gs \<noteq> [] then gs @ [[]] else gs
     | Some v \<Rightarrow> (let hs = (if gs = [] then [[]] else gs) in butlast hs @ [last hs @ [(ls_t s, v)]]))"

definition series_segments :: "(live_sample \<Rightarrow> rat option) \<Rightarrow> live_sample list \<Rightarrow> (int \<times> rat) list list" where
  "series_segments f ss = filter (\<lambda>g. g \<noteq> []) (foldl (series_step f) [] ss)"

definition window_samples_s :: "live_sample list \<Rightarrow> rat \<Rightarrow> live_sample list" where
  "window_samples_s ss w = (if ss = [] \<or> ls_t (last ss) = 0 then []
     else filter (\<lambda>s. of_int (ls_t s) \<ge> of_int (ls_t (last ss)) - w * 1000) ss)"

definition temperatureSeries :: "live_sample list \<Rightarrow> rat \<Rightarrow> (string \<times> (int \<times> rat) list list) list" where
  "temperatureSeries ss w = map (\<lambda>(k, f). (k, series_segments (\<lambda>s. f (tempStatus (Some s))) (window_samples_s ss w)))
     [(''ambient'', ts_ambient), (''coolant'', ts_coolant), (''motor'', ts_motor), (''inverter'', ts_inverter)]"

record vital_series =
  vt_segments :: "(int \<times> rat) list list"
  vt_min :: rat
  vt_max :: rat
  vt_latest :: "rat option"

definition vital_of :: "(live_sample \<Rightarrow> rat option) \<Rightarrow> live_sample list \<Rightarrow> vital_series" where
  "vital_of f ss = (let gs = series_segments f ss; vs = map snd (concat gs) in
     \<lparr>vt_segments = gs, vt_min = (if vs = [] then 0 else Min (set vs)), vt_max = (if vs = [] then 1 else Max (set vs)),
      vt_latest = (if gs = [] then None else Some (snd (last (last gs))))\<rparr>)"

definition vitalsSeries :: "live_sample list \<Rightarrow> rat \<Rightarrow> vital_series list" where
  "vitalsSeries ss w = map (\<lambda>f. vital_of f (window_samples_s ss w))
     [\<lambda>s. map_option (\<lambda>v. v * (223694 / 100000)) (ls_speed s), ls_power, \<lambda>s. torqueFeedbackNmFor (Some s)]"

subsection \<open>The budget\<close>

definition lap_done :: "live_lap \<Rightarrow> page \<Rightarrow> page" where
  "lap_done l p = p\<lparr>pg_live := (pg_live p)\<lparr>lv_laps := lv_laps (pg_live p) @ [l]\<rparr>, pg_selected := pg_selected p @ [ll_id l]\<rparr>"

lemma selected_after:
  assumes "ll_id l \<notin> set (lap_ids (lv_laps (pg_live p)))"
  shows "selectedLaps (lap_done l p) = selectedLaps p @ [l]"
proof -
  have "ll_id x \<noteq> ll_id l" if "x \<in> set (lv_laps (pg_live p))" for x
    using assms that unfolding lap_ids_def set_map by (metis imageI)
  then have "filter (\<lambda>x. ll_id x = ll_id l \<or> ll_id x \<in> set (pg_selected p)) (lv_laps (pg_live p)) = selectedLaps p"
    unfolding selectedLaps_def by (intro filter_cong) simp_all
  then show ?thesis by (simp add: selectedLaps_def lap_done_def)
qed

text \<open>A lap changes the budget of the laps that remain by what it saved, spread over them: a lap on budget leaves it, a lap over
  budget lowers it.\<close>

theorem budget_after_lap:
  assumes "dynamicLapBudgetWh p = Some b" "lapsRemainingPlan p = Some n" "1 < n" "ll_id l \<notin> set (lap_ids (lv_laps (pg_live p)))"
  shows "dynamicLapBudgetWh (lap_done l p) = Some (b + (b - ll_energy l) / (n - 1)) \<and> lapsRemainingPlan (lap_done l p) = Some (n - 1)"
proof -
  obtain r where r: "remainingBudgetWh p = Some r" "b = r / n"
    using assms(1-3) by (auto simp: dynamicLapBudgetWh_def split: option.splits if_splits)
  have t: "pg_targetLaps p > 0" "n = max 0 (pg_targetLaps p - of_nat (lapsCompletedPlan p))"
    using assms(2) by (auto simp: lapsRemainingPlan_def split: if_splits)
  have n: "n = pg_targetLaps p - of_nat (lapsCompletedPlan p)" using t(2) assms(3) by (simp add: max_def split: if_splits)
  have c: "lapsCompletedPlan (lap_done l p) = lapsCompletedPlan p + 1"
    by (simp add: lapsCompletedPlan_def selected_after [OF assms(4)])
  have k: "pg_targetLaps (lap_done l p) = pg_targetLaps p" "pg_targetKwh (lap_done l p) = pg_targetKwh p" by (simp_all add: lap_done_def)
  have n': "lapsRemainingPlan (lap_done l p) = Some (n - 1)"
    unfolding lapsRemainingPlan_def k c using t(1) n assms(3) by (simp add: max_def)
  have r': "remainingBudgetWh (lap_done l p) = Some (r - ll_energy l)"
    using r(1) by (auto simp: remainingBudgetWh_def totalBudgetWh_def k energyUsedWh_def lap_done_def split: if_splits)
  have e: "(r - ll_energy l) / (n - 1) = b + (b - ll_energy l) / (n - 1)"
    using assms(3) r(2) by (simp add: field_simps)
  show ?thesis using assms(3) by (simp add: dynamicLapBudgetWh_def n' r' e)
qed

definition planned_page :: page where
  "planned_page = driven_page\<lparr>pg_targetLaps := 10, pg_targetKwh := 5, pg_selected := [ll_id (hand_lap 70000 60000 1)]\<rparr>"

lemma budget_after_lap_witness:
  "dynamicLapBudgetWh (lap_done ((hand_lap 0 1 2)\<lparr>ll_id := ''x'', ll_energy := 1000\<rparr>) planned_page) = Some 500"
proof -
  have r: "lapsRemainingPlan planned_page = Some 9" "remainingBudgetWh planned_page = Some 5000"
    by (simp_all add: lapsRemainingPlan_def lapsCompletedPlan_def selectedLaps_def remainingBudgetWh_def totalBudgetWh_def energyUsedWh_def
        planned_page_def driven_page_def blank_page_def hand_lap_def)
  have "dynamicLapBudgetWh planned_page = Some (5000 / 9)" by (simp add: dynamicLapBudgetWh_def r)
  moreover have "ll_id ((hand_lap 0 1 2)\<lparr>ll_id := ''x'', ll_energy := 1000\<rparr>) \<notin> set (lap_ids (lv_laps (pg_live planned_page)))"
    by (simp add: planned_page_def driven_page_def lap_ids_def hand_lap_def)
  ultimately show ?thesis using budget_after_lap [OF _ r(1), of "5000 / 9"] by simp
qed

text \<open>The automatic power spends the budget of a lap in the average time of a lap.\<close>

lemma auto_power_spends_budget:
  assumes "autoTargetPowerKw p = Some k" "dynamicLapBudgetWh p = Some b" "avgLapTimeS p = Some t"
  shows "k * 1000 * (t / 3600) = b"
  using assms by (auto simp: autoTargetPowerKw_def split: if_splits)

text \<open>The projected temperature is never below the temperature now, nor below what the last lap's rise would give.\<close>

lemma projection_is_conservative:
  assumes "batteryThermalProjection s p = Projected ts t m (Some f)" "lapsRemainingPlan p = Some n"
  shows "0 \<le> m" "last (lap_deltas ts) \<le> m" "f = t + m * n" "t \<le> f"
proof -
  have m: "m = slopeDegPerLap ts" "f = t + m * n"
    using assms by (auto simp: batteryThermalProjection_def Let_def split: option.splits if_splits)
  show *: "0 \<le> m" "last (lap_deltas ts) \<le> m" "f = t + m * n" using m by (simp_all add: slopeDegPerLap_def)
  have "0 \<le> n" using assms(2) by (auto simp: lapsRemainingPlan_def split: if_splits)
  then show "t \<le> f" using *(1,3) by simp
qed

subsection \<open>The estimate stays in the range of the cells\<close>

lemma rest_voltage_valid: "rest_voltage s = Some v \<Longrightarrow> validCellVoltage v"
  by (auto simp: rest_voltage_def keep_if_def split: option.splits if_splits)

lemma median_member: "medianNumber vs = Some v \<Longrightarrow> v \<in> set vs"
proof -
  assume "medianNumber vs = Some v"
  then have "vs \<noteq> []" "v = sort vs ! (length vs div 2)" by (auto simp: medianNumber_def split: if_splits)
  moreover have "length vs div 2 < length (sort vs)" using \<open>vs \<noteq> []\<close> by (simp add: div_less_dividend)
  ultimately show ?thesis by (metis nth_mem set_sort)
qed

lemma lpf_between:
  assumes "lo \<le> e" "e \<le> hi" "lo \<le> v" "v \<le> hi"
  shows "lo \<le> lpfStepFirmware e v (lpfAlphaFromTau dt tau) \<and> lpfStepFirmware e v (lpfAlphaFromTau dt tau) \<le> hi"
proof -
  define a where "a = lpfAlphaFromTau dt tau"
  have a: "0 \<le> a" "a \<le> 1" by (simp_all add: a_def lpfAlphaFromTau_def clamp_rat_def)
  have "a * lo + (1 - a) * lo \<le> a * v + (1 - a) * e" using a assms by (intro add_mono mult_left_mono) simp_all
  moreover have "a * v + (1 - a) * e \<le> a * hi + (1 - a) * hi" using a assms by (intro add_mono mult_left_mono) simp_all
  ultimately show ?thesis by (simp add: lpfStepFirmware_def a_def [symmetric] algebra_simps)
qed

definition cell_inv :: "(rat \<Rightarrow> bool) \<Rightarrow> rat option \<times> int option \<times> rat list \<Rightarrow> bool" where
  "cell_inv P st \<longleftrightarrow> (case fst st of None \<Rightarrow> length (snd (snd st)) < OCV_INITIAL_SAMPLE_COUNT | Some e \<Rightarrow> P e)
     \<and> (\<forall>v \<in> set (snd (snd st)). P v)"

lemma cell_step_inv:
  assumes "cell_inv P st" "\<And>v. rest_voltage s = Some v \<Longrightarrow> P v"
    and mix: "\<And>e v dt tau. P e \<Longrightarrow> P v \<Longrightarrow> P (lpfStepFirmware e v (lpfAlphaFromTau dt tau))"
  shows "cell_inv P (soe_cell_step st s)"
proof (cases "rest_voltage s")
  case None
  then show ?thesis using assms(1) by (cases st) (auto simp: cell_inv_def soe_cell_step_def split: option.splits)
next
  case (Some v)
  obtain est prev ini where st: "st = (est, prev, ini)" by (metis prod_cases3)
  have v: "P v" "\<forall>x \<in> set ini. P x" using assms(1,2) Some by (auto simp: cell_inv_def st)
  show ?thesis
  proof (cases est)
    case None
    have "P m" if "medianNumber (ini @ [v]) = Some m" for m using median_member [OF that] v by auto
    moreover have "medianNumber (ini @ [v]) \<noteq> None" by (simp add: medianNumber_def)
    ultimately show ?thesis using v Some None by (auto simp: cell_inv_def soe_cell_step_def st split: option.splits)
  next
    case (Some e)
    then have "P e" using assms(1) by (simp add: cell_inv_def st)
    then show ?thesis using v mix Some \<open>rest_voltage s = Some v\<close> by (simp add: cell_inv_def soe_cell_step_def st Let_def)
  qed
qed

lemma estimate_inv:
  assumes "\<And>s v. s \<in> set ss \<Longrightarrow> rest_voltage s = Some v \<Longrightarrow> P v"
    and "\<And>e v dt tau. P e \<Longrightarrow> P v \<Longrightarrow> P (lpfStepFirmware e v (lpfAlphaFromTau dt tau))"
    and "estimateSoeCellVoltage ss = Some e"
  shows "P e"
proof -
  have "cell_inv P (foldl soe_cell_step st ss)" if "cell_inv P st" for st
    using that assms(1)
  proof (induction ss arbitrary: st)
    case (Cons s ss)
    have "cell_inv P (soe_cell_step st s)" by (rule cell_step_inv [OF Cons.prems(1) _ assms(2)]) (use Cons.prems(2) in auto)
    then have "cell_inv P (foldl soe_cell_step (soe_cell_step st s) ss)" by (rule Cons.IH) (use Cons.prems(2) in auto)
    then show ?case by simp
  qed simp
  moreover have "cell_inv P (None, None, [])" by (simp add: cell_inv_def OCV_INITIAL_SAMPLE_COUNT_def)
  ultimately have "cell_inv P (foldl soe_cell_step (None, None, []) ss)" .
  then show ?thesis using assms(3) by (simp add: cell_inv_def estimateSoeCellVoltage_def)
qed

text \<open>C13: the estimate of the open-circuit voltage never leaves the range of the lowest cell readings that were taken at rest, and the
  derating that follows from it lies between nothing and all.\<close>

theorem pack_estimate_in_range:
  assumes "\<And>s v. s \<in> set ss \<Longrightarrow> rest_voltage s = Some v \<Longrightarrow> lo \<le> v \<and> v \<le> hi"
    and "estimateSoeCellVoltage ss = Some e"
  shows "lo \<le> e \<and> e \<le> hi \<and> 3 / 2 \<le> e \<and> e \<le> 9 / 2
    \<and> (\<exists>d. pk_derate (packStatus ss cutoff display) = Some d \<and> 0 \<le> d \<and> d \<le> 100)"
proof -
  have "lo \<le> e \<and> e \<le> hi"
    by (rule estimate_inv [where P = "\<lambda>v. lo \<le> v \<and> v \<le> hi", OF _ _ assms(2)]) (use assms(1) lpf_between in blast)+
  moreover have "3 / 2 \<le> e \<and> e \<le> 9 / 2"
    by (rule estimate_inv [where P = "\<lambda>v. 3 / 2 \<le> v \<and> v \<le> 9 / 2", OF _ _ assms(2)])
      (use rest_voltage_valid lpf_between in \<open>blast dest: iffD1 [OF validCellVoltage_def]\<close>)+
  moreover have "0 \<le> lowVoltageDerateFromOcv e s c * 100 \<and> lowVoltageDerateFromOcv e s c * 100 \<le> 100" for s c
    by (simp add: lowVoltageDerateFromOcv_def clamp_rat_def)
  ultimately show ?thesis by (simp add: packStatus_def Let_def assms(2))
qed

definition rest_sample :: "int \<Rightarrow> rat \<Rightarrow> live_sample" where
  "rest_sample t v = \<lparr>ls_t = t, ls_source = ''live'', ls_lat = None, ls_lon = None, ls_speed = Some 0, ls_hv_v = None, ls_hv_c = None,
     ls_power = None, ls_values = [(''min_cell_voltage'', v), (''dc_bus_current'', 1 / 2)], ls_cells = None\<rparr>"

definition resting :: "live_sample list" where
  "resting = [rest_sample 1000 (36 / 10), rest_sample 2000 (35 / 10), rest_sample 3000 (37 / 10), rest_sample 4000 (36 / 10), rest_sample 5000 3]"

lemma first_key_hit: "jm_get vs k = Some v \<Longrightarrow> firstLiveValue vs (k # ks) = Some v"
  by (simp add: firstLiveValue_def or_else_def)

lemma first_current_hit: "jm_get vs k = Some c \<Longrightarrow> validDcBusCurrent c \<Longrightarrow> c \<noteq> 0 \<Longrightarrow> liveCurrentFor vs (k # ks) = Some c"
  by (simp add: liveCurrentFor_def keep_if_def)

lemma rest_voltage_sample: "validCellVoltage v \<Longrightarrow> rest_voltage (rest_sample t v) = Some v"
proof -
  assume v: "validCellVoltage v"
  have h: "firstLiveValue (ls_values (rest_sample t v)) (''min_cell_voltage'' # ks) = Some v" for ks
    by (rule first_key_hit) (simp add: rest_sample_def jm_get_def)
  have m: "minCellVoltageFor (Some (rest_sample t v)) = Some v"
    using h v by (simp add: minCellVoltageFor_def keep_if_def or_else_def)
  have "dcBusCurrentFor (Some (rest_sample t v)) = Some (1 / 2)"
    unfolding dcBusCurrentFor_def
    by (rule first_current_hit) (simp_all add: sample_values_def rest_sample_def validDcBusCurrent_def jm_get_def)
  then show ?thesis using v by (simp add: rest_voltage_def m ocvRestCurrentFor_def keep_if_def OCV_UPDATE_CURRENT_THRESHOLD_A_def)
qed

lemma pack_estimate_in_range_witness:
  "3 \<le> the (estimateSoeCellVoltage resting) \<and> the (estimateSoeCellVoltage resting) \<le> 37 / 10"
proof -
  have "estimateSoeCellVoltage resting \<noteq> None"
    by (simp add: resting_def estimateSoeCellVoltage_def soe_cell_step_def rest_voltage_sample validCellVoltage_def
        OCV_INITIAL_SAMPLE_COUNT_def medianNumber_def Let_def)
  then obtain e where e: "estimateSoeCellVoltage resting = Some e" by blast
  have "3 \<le> v \<and> v \<le> 37 / 10" if "s \<in> set resting" "rest_voltage s = Some v" for s v
    using that by (auto simp: resting_def rest_voltage_sample validCellVoltage_def)
  from pack_estimate_in_range [OF this e] show ?thesis by (simp add: e)
qed


subsection \<open>The tables\<close>

lemma linear_range: "lo \<le> a \<Longrightarrow> a \<le> hi \<Longrightarrow> lo \<le> b \<Longrightarrow> b \<le> hi \<Longrightarrow> lo \<le> linearInterp a b t \<and> linearInterp a b t \<le> hi"
proof -
  assume *: "lo \<le> a" "a \<le> hi" "lo \<le> b" "b \<le> hi"
  obtain u where u: "clamp_rat 0 1 t = u" "0 \<le> u" "u \<le> 1" by (simp add: clamp_rat_def)
  have "linearInterp a b t = (1 - u) * a + u * b" by (simp add: linearInterp_def u(1) algebra_simps)
  moreover have "(1 - u) * lo + u * lo \<le> (1 - u) * a + u * b" "(1 - u) * a + u * b \<le> (1 - u) * hi + u * hi"
    using * u(2,3) by (intro add_mono mult_left_mono; simp)+
  ultimately show ?thesis by (simp add: algebra_simps)
qed

lemma linear_mono: "a \<le> b \<Longrightarrow> t \<le> u \<Longrightarrow> linearInterp a b t \<le> linearInterp a b u"
  by (auto simp: linearInterp_def clamp_rat_def intro: mult_left_mono)

lemma evenly_range:
  assumes "ys \<noteq> []" "list_all (\<lambda>y. lo \<le> y \<and> y \<le> hi) ys"
  shows "lo \<le> lookupEvenlySpaced ys x a b \<and> lookupEvenlySpaced ys x a b \<le> hi"
proof -
  have i: "lo \<le> ys ! i \<and> ys ! i \<le> hi" if "i < length ys" for i using assms(2) that by (simp add: list_all_length)
  have e: "lo \<le> hd ys \<and> hd ys \<le> hi" "lo \<le> last ys \<and> last ys \<le> hi"
    using assms by (simp_all add: list_all_iff)
  have n: "nat (max 0 (min (int (length ys) - 2) k)) + 1 < length ys" if "length ys \<noteq> 1" for k
    using assms(1) that by (cases ys; cases "tl ys") auto
  show ?thesis
    unfolding lookupEvenlySpaced_def Let_def using assms(1) e linear_range i n
    by (simp only: if_False) (smt (verit) add_lessD1)
qed


lemma breakpoint_between:
  assumes "length xs = length ys" "1 < length xs" "xs ! 0 < x" "x < xs ! (length xs - 1)"
  obtains j where "0 < j" "j < length xs" "xs ! (j - 1) < x" "x \<le> xs ! j"
    "lookupByBreakpoints xs ys x = linearInterp (ys ! (j - 1)) (ys ! j) ((x - xs ! (j - 1)) / (xs ! j - xs ! (j - 1)))"
proof -
  let ?f = "List.find (\<lambda>i. x \<le> xs ! i) [1..<length xs]"
  have "?f \<noteq> None" using assms(2,4) by (auto simp: find_None_iff not_le Bex_def intro!: exI [of _ "length xs - 1"])
  then obtain j where j: "?f = Some j" by blast
  then obtain i where i: "i < length xs - 1" "x \<le> xs ! j" "j = 1 + i" "\<forall>k < i. \<not> x \<le> xs ! (1 + k)"
    by (auto simp: find_Some_iff)
  have "xs ! i < x" using i(4) assms(3) by (cases i) auto
  moreover have "lookupByBreakpoints xs ys x = linearInterp (ys ! (j - 1)) (ys ! j) ((x - xs ! (j - 1)) / (xs ! j - xs ! (j - 1)))"
    using assms j by (auto simp: lookupByBreakpoints_def Let_def)
  ultimately show thesis using i(1-3) that [of j] by simp
qed

lemma breakpoint_range:
  assumes "length xs = length ys" "ys \<noteq> []" "sorted ys"
  shows "ys ! 0 \<le> lookupByBreakpoints xs ys x \<and> lookupByBreakpoints xs ys x \<le> ys ! (length ys - 1)"
proof -
  have r: "ys ! 0 \<le> ys ! i \<and> ys ! i \<le> ys ! (length ys - 1)" if "i < length ys" for i
    using assms(3) that by (auto intro: sorted_nth_mono)
  have l: "length ys = 1 \<or> 1 < length ys" using assms(2) by (cases ys; cases "tl ys") auto
  consider "length ys = 1 \<or> x \<le> xs ! 0" | "x \<ge> xs ! (length ys - 1)" | "1 < length xs" "xs ! 0 < x" "x < xs ! (length xs - 1)"
    using l assms(1) by (metis linorder_not_le)
  then show ?thesis
  proof cases
    case 3
    obtain j where "j < length ys"
      "lookupByBreakpoints xs ys x = linearInterp (ys ! (j - 1)) (ys ! j) ((x - xs ! (j - 1)) / (xs ! j - xs ! (j - 1)))"
      using breakpoint_between [OF assms(1) 3] assms(1) by metis
    then show ?thesis using linear_range [of "ys ! 0" "ys ! (j - 1)" "ys ! (length ys - 1)" "ys ! j"] r by simp
  qed (use assms r in \<open>auto simp: lookupByBreakpoints_def Let_def\<close>)
qed

lemma breakpoint_mono:
  assumes "length xs = length ys" "ys \<noteq> []" "sorted xs" "sorted ys" "x \<le> x'"
  shows "lookupByBreakpoints xs ys x \<le> lookupByBreakpoints xs ys x'"
proof -
  note r = breakpoint_range [OF assms(1,2,4)]
  have l: "length ys = 1 \<or> 1 < length ys" using assms(2) by (cases ys; cases "tl ys") auto
  consider "length ys = 1 \<or> x \<le> xs ! 0" | "1 < length ys" "x' \<ge> xs ! (length ys - 1)" "xs ! 0 < x'"
    | "1 < length xs" "xs ! 0 < x" "x' < xs ! (length xs - 1)"
    using l assms(1,5) by (metis linorder_not_le order.strict_trans2)
  then show ?thesis
  proof cases
    case 1
    then show ?thesis using r [of x'] assms(1,2) by (auto simp: lookupByBreakpoints_def Let_def)
  next
    case 2
    then show ?thesis using r [of x] assms(1,2) by (simp add: lookupByBreakpoints_def)
  next
    case 3
    have "x < xs ! (length xs - 1)" "xs ! 0 < x'" using 3 assms(5) by simp_all
    then obtain j k where j: "0 < j" "j < length xs" "xs ! (j - 1) < x" "x \<le> xs ! j"
      "lookupByBreakpoints xs ys x = linearInterp (ys ! (j - 1)) (ys ! j) ((x - xs ! (j - 1)) / (xs ! j - xs ! (j - 1)))"
      and k: "0 < k" "k < length xs" "xs ! (k - 1) < x'" "x' \<le> xs ! k"
      "lookupByBreakpoints xs ys x' = linearInterp (ys ! (k - 1)) (ys ! k) ((x' - xs ! (k - 1)) / (xs ! k - xs ! (k - 1)))"
      using breakpoint_between [OF assms(1) 3(1,2)] breakpoint_between [OF assms(1) 3(1) _ 3(3)] by metis
    have up: "ys ! a \<le> ys ! b" if "a \<le> b" "b < length xs" for a b using assms(1,4) that by (simp add: sorted_nth_mono)
    have "j \<le> k"
    proof (rule ccontr)
      assume "\<not> j \<le> k"
      then have "xs ! k \<le> xs ! (j - 1)" using j(2) by (intro sorted_nth_mono [OF assms(3)]) simp_all
      then show False using j(3) k(4) assms(5) by simp
    qed
    then consider "j = k" | "j \<le> k - 1" by linarith
    then show ?thesis
    proof cases
      case 1
      then show ?thesis using j k(5) assms(5) up [of "j - 1" j] by (simp add: linear_mono divide_right_mono)
    next
      case 2
      have "lookupByBreakpoints xs ys x \<le> ys ! j" using j(5) linear_range [of "ys ! (j - 1)"] up [of "j - 1" j] j(2) by simp
      also have "\<dots> \<le> ys ! (k - 1)" using 2 k(2) up by simp
      also have "\<dots> \<le> lookupByBreakpoints xs ys x'" using k(5) linear_range [of _ "ys ! (k - 1)"] up [of "k - 1" k] k(2) by simp
      finally show ?thesis .
    qed
  qed
qed


subsection \<open>The torque the driver asks for\<close>

definition pedal_fraction :: "torque_params \<Rightarrow> rat \<Rightarrow> rat" where
  "pedal_fraction q travel =
     clamp_rat 0 1 (lookupByBreakpoints (tq_pedalX q) (tq_pedal q) (applyAppsDeadzone travel (tq_minTravel q) (tq_maxTravel q))) ^ tq_exponent q"

definition torque_limit :: "torque_params \<Rightarrow> live_sample option \<Rightarrow> rat" where
  "torque_limit q s = lookupEvenlySpaced (tq_limit q) (clamp_rat 0 VCU_MAX_MOTOR_RPM \<bar>case motorSpeedRpmFor s of Some r \<Rightarrow> r | None \<Rightarrow> 0\<bar>)
     0 VCU_MAX_MOTOR_RPM"

definition cell_derate :: "torque_params \<Rightarrow> live_sample option \<Rightarrow> rat" where
  "cell_derate q s = (case keep_if validCellVoltage (minCellVoltageFor s) of
     Some v \<Rightarrow> lowVoltageDerateFromOcv v (tq_derateStart q) (tq_cutoff q) | None \<Rightarrow> 1)"

lemma torque_product:
  "computedDriverTorqueNmFor s q = map_option (\<lambda>t. torque_limit q s * pedal_fraction q t * cell_derate q s) (rawAppsTravel (sample_values s))"
  by (simp add: computedDriverTorqueNmFor_def torque_limit_def pedal_fraction_def cell_derate_def Let_def)

definition tables_ok :: "torque_params \<Rightarrow> bool" where
  "tables_ok q \<longleftrightarrow> tq_limit q \<noteq> [] \<and> list_all (\<lambda>y. 0 \<le> y \<and> y \<le> 210) (tq_limit q)
     \<and> length (tq_pedalX q) = length (tq_pedal q) \<and> tq_pedal q \<noteq> [] \<and> sorted (tq_pedalX q) \<and> sorted (tq_pedal q)
     \<and> tq_pedalX q ! 0 = 0 \<and> tq_pedal q ! 0 = 0 \<and> 0 < tq_exponent q
     \<and> 0 < tq_minTravel q \<and> tq_minTravel q < tq_maxTravel q \<and> tq_maxTravel q < 1"

lemma param_sets_ok: "list_all tables_ok VCU_TORQUE_PARAM_SETS"
  by (simp add: VCU_TORQUE_PARAM_SETS_def VCU_DEFAULT_TORQUE_PARAMS_def tables_ok_def)

lemma fraction_range: "0 \<le> pedal_fraction q t \<and> pedal_fraction q t \<le> 1"
  by (simp add: pedal_fraction_def clamp_rat_def power_le_one)

lemma derate_range: "0 \<le> cell_derate q s \<and> cell_derate q s \<le> 1"
  by (simp add: cell_derate_def lowVoltageDerateFromOcv_def clamp_rat_def split: option.split)

lemma deadzone_mono: "lo < hi \<Longrightarrow> t \<le> u \<Longrightarrow> applyAppsDeadzone t lo hi \<le> applyAppsDeadzone u lo hi"
  by (auto simp: applyAppsDeadzone_def divide_right_mono)

lemma fraction_mono:
  assumes "tables_ok q" "t \<le> u"
  shows "pedal_fraction q t \<le> pedal_fraction q u"
proof -
  have "lookupByBreakpoints (tq_pedalX q) (tq_pedal q) (applyAppsDeadzone t (tq_minTravel q) (tq_maxTravel q))
      \<le> lookupByBreakpoints (tq_pedalX q) (tq_pedal q) (applyAppsDeadzone u (tq_minTravel q) (tq_maxTravel q))"
    using assms by (intro breakpoint_mono deadzone_mono) (simp_all add: tables_ok_def)
  then show ?thesis by (auto simp: pedal_fraction_def clamp_rat_def intro!: power_mono)
qed

lemma fraction_in_deadzone: "tables_ok q \<Longrightarrow> t \<le> tq_minTravel q \<Longrightarrow> pedal_fraction q t = 0"
  by (simp add: pedal_fraction_def applyAppsDeadzone_def lookupByBreakpoints_def tables_ok_def clamp_rat_def power_0_left)

text \<open>C12: for every parameter set of the page the torque it computes lies between nothing and the motor's limit, it is nothing while the pedal
  is in its dead zone, and at the same speed and cell voltage more pedal never asks for less.\<close>

theorem driver_torque_sound:
  assumes "q \<in> set VCU_TORQUE_PARAM_SETS"
    and "motorSpeedRpmFor s' = motorSpeedRpmFor s" "minCellVoltageFor s' = minCellVoltageFor s"
    and "rawAppsTravel (sample_values s) = Some p" "rawAppsTravel (sample_values s') = Some p'" "p \<le> p'"
    and "computedDriverTorqueNmFor s q = Some t" "computedDriverTorqueNmFor s' q = Some t'"
  shows "0 \<le> t \<and> t \<le> t' \<and> t' \<le> 210 \<and> (tq_minTravel q < p \<or> t = 0)"
proof -
  have q: "tables_ok q" using param_sets_ok assms(1) by (simp add: list_all_iff)
  have t: "t = torque_limit q s * pedal_fraction q p * cell_derate q s" using assms(4,7) by (simp add: torque_product)
  have t': "t' = torque_limit q s * pedal_fraction q p' * cell_derate q s"
    using assms(2,3,5,8) by (simp add: torque_product torque_limit_def cell_derate_def)
  have l: "0 \<le> torque_limit q s" "torque_limit q s \<le> 210"
    using evenly_range [of "tq_limit q" 0 210] q by (simp_all add: torque_limit_def tables_ok_def)
  have "torque_limit q s * pedal_fraction q p' * cell_derate q s \<le> 210 * 1 * 1"
    using l fraction_range derate_range by (intro mult_mono) simp_all
  moreover have "t \<le> t'"
    using t t' l(1) derate_range fraction_mono [OF q assms(6)] by (simp add: mult_left_mono mult_right_mono)
  ultimately show ?thesis
    using t t' l fraction_range [of q p] derate_range [of q s] fraction_in_deadzone [OF q, of p] by (auto simp: not_less)
qed

definition pedal_sample :: "rat \<Rightarrow> live_sample" where
  "pedal_sample v = \<lparr>ls_t = 1000, ls_source = ''live'', ls_lat = None, ls_lon = None, ls_speed = None, ls_hv_v = None, ls_hv_c = None,
     ls_power = None, ls_values = [(''accel_pedal_travel'', v)], ls_cells = None\<rparr>"

lemma pedal_readings:
  "rawAppsTravel (sample_values (Some (pedal_sample (1 / 20)))) = Some (1 / 20)"
  by code_simp

lemma driver_torque_sound_witness:
  "computedDriverTorqueNmFor (Some (pedal_sample (1 / 20))) VCU_DEFAULT_TORQUE_PARAMS = Some 0"
proof -
  have q: "VCU_DEFAULT_TORQUE_PARAMS \<in> set VCU_TORQUE_PARAM_SETS" by (simp add: VCU_TORQUE_PARAM_SETS_def)
  obtain t where t: "computedDriverTorqueNmFor (Some (pedal_sample (1 / 20))) VCU_DEFAULT_TORQUE_PARAMS = Some t"
    using torque_product by (simp add: torque_product pedal_readings)
  have "t = 0" using driver_torque_sound [OF q refl refl pedal_readings pedal_readings order_refl t t]
    by (simp add: VCU_DEFAULT_TORQUE_PARAMS_def clamp_rat_def)
  then show ?thesis using t by simp
qed


subsection \<open>The segments of a chart\<close>

text \<open>A chart shows every reading of its channel, in order, and breaks its line exactly at the samples without one.\<close>

lemma series_step_values: "concat (series_step f gs s) = concat gs @ (case f s of None \<Rightarrow> [] | Some v \<Rightarrow> [(ls_t s, v)])"
proof -
  have c: "concat (butlast hs @ [last hs @ x]) = concat hs @ x" if "hs \<noteq> []" for hs :: "(int \<times> rat) list list" and x
    using arg_cong [OF append_butlast_last_id [OF that], of concat] by simp
  show ?thesis
  proof (cases "f s")
    case (Some v)
    then show ?thesis by (cases "gs = []") (simp_all add: series_step_def c del: concat_append)
  qed (simp add: series_step_def)
qed

lemma series_values: "concat (series_segments f ss) = concat (map (\<lambda>s. case f s of None \<Rightarrow> [] | Some v \<Rightarrow> [(ls_t s, v)]) ss)"
proof -
  have "concat (foldl (series_step f) gs ss) = concat gs @ concat (map (\<lambda>s. case f s of None \<Rightarrow> [] | Some v \<Rightarrow> [(ls_t s, v)]) ss)" for gs
    by (induction ss arbitrary: gs) (simp_all add: series_step_values)
  moreover have "concat (filter (\<lambda>g. g \<noteq> []) gs) = concat gs" for gs :: "(int \<times> rat) list list" by (induction gs) simp_all
  ultimately show ?thesis by (simp add: series_segments_def)
qed

lemma series_prefix: "hs \<noteq> [] \<Longrightarrow> foldl (series_step f) (gs @ hs) ss = gs @ foldl (series_step f) hs ss"
proof (induction ss arbitrary: hs)
  case (Cons s ss)
  have "series_step f (gs @ hs) s = gs @ series_step f hs s" "series_step f hs s \<noteq> []"
    using Cons.prems by (simp_all add: series_step_def butlast_append Let_def split: option.split)
  then show ?case using Cons.IH by simp
qed simp

lemma series_fresh: "filter (\<lambda>g. g \<noteq> []) (foldl (series_step f) [[]] ss) = series_segments f ss"
proof (induction ss)
  case (Cons s ss)
  show ?case
  proof (cases "f s")
    case None
    then have "series_step f [[]] s = [[]]" "series_step f [] s = []" by (simp_all add: series_step_def)
    then show ?thesis using Cons by (simp add: series_segments_def)
  next
    case (Some v)
    then have "series_step f [[]] s = series_step f [] s" by (simp add: series_step_def)
    then show ?thesis by (simp add: series_segments_def)
  qed
qed (simp add: series_segments_def)

lemma series_breaks:
  assumes "f s = None"
  shows "series_segments f (xs @ s # ys) = series_segments f xs @ series_segments f ys"
proof -
  obtain gs where g: "series_step f (foldl (series_step f) [] xs) s = gs"
    "gs = [] \<or> (\<exists>hs. gs = hs @ [[]])" "filter (\<lambda>g. g \<noteq> []) gs = series_segments f xs"
    using assms by (cases "foldl (series_step f) [] xs" rule: rev_cases) (auto simp: series_step_def series_segments_def)
  from g(2) show ?thesis
  proof
    assume "gs = []"
    then show ?thesis using g by (simp add: series_segments_def)
  next
    assume "\<exists>hs. gs = hs @ [[]]"
    then obtain hs where "gs = hs @ [[]]" by blast
    then show ?thesis using g series_prefix [of "[[]]" f hs ys] series_fresh [of f ys] by (simp add: series_segments_def)
  qed
qed

end
