(* ===== verification/CarUplink.thy ===== *)
theory CarUplink
  imports LiveSession DashMessages
begin

text \<open>
  The uplink to the dash of the car, \<^verbatim>\<open>viewer_tool/src/lib/dash/dashSignals.ts\<close>, and the lap counter at its other end in
  \<^verbatim>\<open>apps/BEVO/dashd/main.rs\<close>.

  The broker client is the \<^verbatim>\<open>mqtt\<close> package: what it is asked to publish or to subscribe is the output of an operation, and
  its events are operations of their own. The text of a number on the wire is represented by the number. The counts of the
  car are unsigned integers of 64 bits and the value on the wire a float of 32 bits; both are exact for counts below 2^24.
\<close>

subsection \<open>State and messages\<close>

datatype link_status = Link_idle | Link_connecting | Link_connected | Link_error | Link_closed

datatype payload = Pay_number rat | Pay_json json | Pay_text string

datatype wire_out =
    Publish (wo_field: string) (wo_value: payload) (wo_qos: nat) (wo_retain: bool)
  | Subscribe "string list"

record dash_acks =
  ak_power :: "(rat \<times> int) option"
  ak_lap :: "(rat \<times> int) option"
  ak_gate :: "int option"

record uplink =
  ul_status :: link_status
  ul_error :: "string option"
  ul_client :: bool
  ul_online :: bool
  ul_ticking :: bool
  ul_lapsSent :: rat
  ul_counter :: rat
  ul_target :: "rat option"
  ul_lapDelta :: "rat option"
  ul_energyDelta :: "rat option"
  ul_energyStatic :: "rat option"
  ul_lapsRemaining :: "rat option"
  ul_state :: "json option"
  ul_stateAt :: "int option"
  ul_acks :: dash_acks

definition uplink_start :: uplink where
  "uplink_start = \<lparr>ul_status = Link_idle, ul_error = None, ul_client = False, ul_online = False, ul_ticking = False, ul_lapsSent = 0,
     ul_counter = 0, ul_target = None, ul_lapDelta = None, ul_energyDelta = None, ul_energyStatic = None, ul_lapsRemaining = None,
     ul_state = None, ul_stateAt = None, ul_acks = \<lparr>ak_power = None, ak_lap = None, ak_gate = None\<rparr>\<rparr>"

subsection \<open>Connection\<close>

definition publish_field :: "string \<Rightarrow> rat \<Rightarrow> nat \<Rightarrow> uplink \<Rightarrow> wire_out list" where
  "publish_field f v q u = (if ul_client u then [Publish f (Pay_number v) q False] else [])"

definition publish_set :: "string \<Rightarrow> rat option \<Rightarrow> uplink \<Rightarrow> wire_out list" where
  "publish_set f v u = (case v of Some x \<Rightarrow> publish_field f x 0 u | None \<Rightarrow> [])"

definition link_disconnect :: "uplink \<Rightarrow> uplink" where
  "link_disconnect u = u\<lparr>ul_ticking := False, ul_client := False, ul_online := False, ul_status := Link_closed\<rparr>"

text \<open>The package may refuse the address; then there is no client and no keepalive.\<close>

definition link_connect :: "string option \<Rightarrow> uplink \<Rightarrow> uplink" where
  "link_connect failure u = (case failure of
       None \<Rightarrow> u\<lparr>ul_client := True, ul_online := False, ul_ticking := True, ul_error := None, ul_status := Link_connecting\<rparr>
     | Some e \<Rightarrow> u\<lparr>ul_client := False, ul_online := False, ul_ticking := False, ul_error := Some e, ul_status := Link_error\<rparr>)"

definition on_connect :: "uplink \<Rightarrow> uplink \<times> wire_out list" where
  "on_connect u = (u\<lparr>ul_status := Link_connected, ul_error := None, ul_online := True\<rparr>,
     Subscribe [''state'', ''ack/#''] # publish_set ''targetPower'' (ul_target u) u)"

definition on_reconnect :: "uplink \<Rightarrow> uplink" where
  "on_reconnect u = u\<lparr>ul_status := Link_connecting\<rparr>"

definition on_close :: "uplink \<Rightarrow> uplink" where
  "on_close u = u\<lparr>ul_online := False, ul_status := (if ul_status u = Link_error then Link_error else Link_closed)\<rparr>"

definition link_failed :: "string \<Rightarrow> uplink \<Rightarrow> uplink" where
  "link_failed e u = u\<lparr>ul_status := Link_error, ul_error := Some e\<rparr>"

definition state_laps :: "json \<Rightarrow> rat option" where
  "state_laps j = (case as_num (field j ''lapCount'') of Some (JFin x) \<Rightarrow> Some x | _ \<Rightarrow> None)"

definition finite_number :: "string \<Rightarrow> rat option" where
  "finite_number s = (case text_number s of JFin x \<Rightarrow> Some x | _ \<Rightarrow> None)"

text \<open>The parsed text is given beside the text: \<^verbatim>\<open>None\<close> when it is no JSON.\<close>

definition link_message :: "int \<Rightarrow> string \<Rightarrow> string \<Rightarrow> json option \<Rightarrow> uplink \<Rightarrow> uplink" where
  "link_message now topic s parsed u =
     (if topic = ''lhre/dash/state'' then
        (case parsed of
           None \<Rightarrow> u
         | Some j \<Rightarrow> let v = u\<lparr>ul_state := Some j, ul_stateAt := Some now\<rparr> in
             (case state_laps j of
                Some n \<Rightarrow> if n > ul_counter u then v\<lparr>ul_counter := n, ul_lapsSent := n\<rparr> else v
              | None \<Rightarrow> v))
      else if topic = ''lhre/dash/ack/targetPower'' then
        (case finite_number s of Some x \<Rightarrow> u\<lparr>ul_acks := (ul_acks u)\<lparr>ak_power := Some (x, now)\<rparr>\<rparr> | None \<Rightarrow> u)
      else if topic = ''lhre/dash/ack/lapTrigger'' then
        (case finite_number s of Some x \<Rightarrow> u\<lparr>ul_acks := (ul_acks u)\<lparr>ak_lap := Some (x, now)\<rparr>\<rparr> | None \<Rightarrow> u)
      else if topic = ''lhre/dash/ack/sfGate'' then u\<lparr>ul_acks := (ul_acks u)\<lparr>ak_gate := Some now\<rparr>\<rparr>
      else u)"

definition keepalive_tick :: "uplink \<Rightarrow> wire_out list" where
  "keepalive_tick u = (if \<not> ul_ticking u then [] else
     publish_set ''targetPower'' (ul_target u) u @ publish_set ''lapDelta'' (ul_lapDelta u) u
       @ publish_set ''energyDelta'' (ul_energyDelta u) u @ publish_set ''energyDeltaStatic'' (ul_energyStatic u) u
       @ publish_set ''lapsRemaining'' (ul_lapsRemaining u) u)"

subsection \<open>Signals\<close>

definition publishTargetPower :: "rat \<Rightarrow> uplink \<Rightarrow> uplink \<times> wire_out list" where
  "publishTargetPower kw u = (u\<lparr>ul_target := Some kw\<rparr>, publish_field ''targetPower'' kw 0 u)"

definition publishLapDelta :: "rat option \<Rightarrow> uplink \<Rightarrow> uplink \<times> wire_out list" where
  "publishLapDelta v u = (u\<lparr>ul_lapDelta := v\<rparr>, publish_set ''lapDelta'' v u)"

definition publishEnergyDelta :: "rat option \<Rightarrow> uplink \<Rightarrow> uplink \<times> wire_out list" where
  "publishEnergyDelta v u = (u\<lparr>ul_energyDelta := v\<rparr>, publish_set ''energyDelta'' v u)"

definition publishEnergyDeltaStatic :: "rat option \<Rightarrow> uplink \<Rightarrow> uplink \<times> wire_out list" where
  "publishEnergyDeltaStatic v u = (u\<lparr>ul_energyStatic := v\<rparr>, publish_set ''energyDeltaStatic'' v u)"

definition publishLapsRemaining :: "rat option \<Rightarrow> uplink \<Rightarrow> uplink \<times> wire_out list" where
  "publishLapsRemaining v u = (u\<lparr>ul_lapsRemaining := v\<rparr>, publish_set ''lapsRemaining'' v u)"

definition publishEventMode :: "rat \<Rightarrow> uplink \<Rightarrow> wire_out list" where
  "publishEventMode mode u = publish_field ''eventMode'' (of_int (rat_round mode)) 1 u"

definition sendLap :: "jsnum option \<Rightarrow> uplink \<Rightarrow> uplink \<times> wire_out list" where
  "sendLap v u =
     (let desired = (case v of Some (JFin x) \<Rightarrow> x | _ \<Rightarrow> ul_counter u + 1); n = max desired (ul_counter u + 1)
      in (u\<lparr>ul_counter := n, ul_lapsSent := n\<rparr>, publish_field ''lapTrigger'' n 1 u))"

definition republishLap :: "jsnum \<Rightarrow> uplink \<Rightarrow> wire_out list" where
  "republishLap v u = (case v of JFin x \<Rightarrow> if x \<le> 0 then [] else publish_field ''lapTrigger'' x 1 u | _ \<Rightarrow> [])"

definition publishLapCount :: "rat \<Rightarrow> uplink \<Rightarrow> uplink \<times> wire_out list" where
  "publishLapCount laps u =
     (let v = max 0 (of_int (rat_round laps)) in (u\<lparr>ul_counter := v, ul_lapsSent := v\<rparr>, publish_field ''lapCount'' v 1 u))"

definition resetLapCounter :: "uplink \<Rightarrow> uplink \<times> wire_out list" where
  "resetLapCounter u = (u\<lparr>ul_counter := 0, ul_lapsSent := 0\<rparr>, publish_field ''lapReset'' 1 1 u)"

definition publish_online :: "string \<Rightarrow> payload \<Rightarrow> nat \<Rightarrow> bool \<Rightarrow> uplink \<Rightarrow> wire_out list \<times> bool" where
  "publish_online f v q held u = (if ul_client u \<and> ul_online u then ([Publish f v q held], True) else ([], False))"

definition publishGate :: "rat \<times> rat \<times> rat \<times> rat \<Rightarrow> uplink \<Rightarrow> wire_out list" where
  "publishGate g u = (case g of (a, b, c, d) \<Rightarrow>
     fst (publish_online ''sfGate'' (Pay_json (JArr (map (\<lambda>x. JNum (JFin x)) [a, b, c, d]))) 1 True u))"

definition publishLayout :: "json \<Rightarrow> uplink \<Rightarrow> wire_out list \<times> bool" where
  "publishLayout l = publish_online ''layout'' (Pay_json l) 1 True"

definition publishParkLayout :: "json \<Rightarrow> uplink \<Rightarrow> wire_out list \<times> bool" where
  "publishParkLayout l = publish_online ''parkLayout'' (Pay_json l) 1 True"

definition publishDrivingLayout :: "json \<Rightarrow> uplink \<Rightarrow> wire_out list \<times> bool" where
  "publishDrivingLayout l = publish_online ''drivingLayout'' (Pay_json l) 1 True"

definition publishLapBudget :: "rat \<Rightarrow> uplink \<Rightarrow> wire_out list \<times> bool" where
  "publishLapBudget wh = publish_online ''lapBudgetWh'' (Pay_number wh) 1 True"

definition publishLapCardMs :: "rat \<Rightarrow> uplink \<Rightarrow> wire_out list \<times> bool" where
  "publishLapCardMs ms = publish_online ''lapCardMs'' (Pay_number (of_int (rat_round ms))) 1 True"

definition publishMessages :: "dash_message list \<Rightarrow> uplink \<Rightarrow> wire_out list \<times> bool" where
  "publishMessages ms = publish_online ''messages'' (Pay_json (JArr (map message_json ms))) 1 True"

definition sendMessage :: "int \<Rightarrow> dash_message \<Rightarrow> jsnum option \<Rightarrow> uplink \<Rightarrow> wire_out list \<times> bool" where
  "sendMessage now m d = publish_online ''message'' (Pay_json (JObj [(''at'', JNum (JFin (of_int now))),
     (''durationS'', JNum (case d of Some x \<Rightarrow> x | None \<Rightarrow> m_durationS m)), (''msg'', message_json m)])) 0 False"

definition clearMessage :: "int \<Rightarrow> uplink \<Rightarrow> wire_out list \<times> bool" where
  "clearMessage now = publish_online ''message'' (Pay_json (JObj [(''at'', JNum (JFin (of_int now))), (''clear'', JBool True)])) 0 False"

definition publishScreen :: "string option \<Rightarrow> uplink \<Rightarrow> wire_out list \<times> bool" where
  "publishScreen s = publish_online ''screen'' (Pay_text (case s of Some x \<Rightarrow> x | None \<Rightarrow> ''auto'')) 1 False"

text \<open>The layout of a screen goes to the topic of that screen, from the leader's page and while the link is up.\<close>

definition sendDashLayout :: "bool \<Rightarrow> string \<Rightarrow> json \<Rightarrow> uplink \<Rightarrow> wire_out list \<times> bool" where
  "sendDashLayout mirror screen l u =
     (if mirror \<or> ul_status u \<noteq> Link_connected then ([], False)
      else if screen = ''park'' then publishParkLayout l u
      else if screen = ''driving'' then publishDrivingLayout l u else publishLayout l u)"

text \<open>The page closes: the client ends and the keepalive stops.\<close>

definition link_unmount :: "uplink \<Rightarrow> uplink" where
  "link_unmount u = u\<lparr>ul_ticking := False, ul_client := False, ul_online := False\<rparr>"

subsection \<open>What the strategist's page does with it\<close>

datatype uplink_op =
    Do_connect "string option"
  | Do_disconnect
  | Do_unmount
  | Broker_connected
  | Broker_reconnecting
  | Broker_closed
  | Broker_error string
  | Broker_message string string "json option"
  | Tick
  | Target_power rat
  | Lap_delta "rat option"
  | Energy_delta "rat option"
  | Energy_delta_static "rat option"
  | Laps_remaining "rat option"
  | Event_mode rat
  | Send_lap "jsnum option"
  | Republish_lap jsnum
  | Lap_count rat
  | Lap_reset
  | Gate "rat \<times> rat \<times> rat \<times> rat"
  | Screen_layout bool string json
  | Lap_budget rat
  | Card_time rat
  | Message_set "dash_message list"
  | Fire_message dash_message "jsnum option"
  | Clear_message
  | Show_screen "string option"

definition uplink_do :: "int \<Rightarrow> uplink_op \<Rightarrow> uplink \<Rightarrow> uplink \<times> wire_out list" where
  "uplink_do now a u = (case a of
       Do_connect e \<Rightarrow> (link_connect e u, [])
     | Do_disconnect \<Rightarrow> (link_disconnect u, [])
     | Do_unmount \<Rightarrow> (link_unmount u, [])
     | Broker_connected \<Rightarrow> on_connect u
     | Broker_reconnecting \<Rightarrow> (on_reconnect u, [])
     | Broker_closed \<Rightarrow> (on_close u, [])
     | Broker_error e \<Rightarrow> (link_failed e u, [])
     | Broker_message topic s j \<Rightarrow> (link_message now topic s j u, [])
     | Tick \<Rightarrow> (u, keepalive_tick u)
     | Target_power kw \<Rightarrow> publishTargetPower kw u
     | Lap_delta v \<Rightarrow> publishLapDelta v u
     | Energy_delta v \<Rightarrow> publishEnergyDelta v u
     | Energy_delta_static v \<Rightarrow> publishEnergyDeltaStatic v u
     | Laps_remaining v \<Rightarrow> publishLapsRemaining v u
     | Event_mode m \<Rightarrow> (u, publishEventMode m u)
     | Send_lap v \<Rightarrow> sendLap v u
     | Republish_lap v \<Rightarrow> (u, republishLap v u)
     | Lap_count n \<Rightarrow> publishLapCount n u
     | Lap_reset \<Rightarrow> resetLapCounter u
     | Gate g \<Rightarrow> (u, publishGate g u)
     | Screen_layout mirror s l \<Rightarrow> (u, fst (sendDashLayout mirror s l u))
     | Lap_budget wh \<Rightarrow> (u, fst (publishLapBudget wh u))
     | Card_time ms \<Rightarrow> (u, fst (publishLapCardMs ms u))
     | Message_set ms \<Rightarrow> (u, fst (publishMessages ms u))
     | Fire_message m d \<Rightarrow> (u, fst (sendMessage now m d u))
     | Clear_message \<Rightarrow> (u, fst (clearMessage now u))
     | Show_screen s \<Rightarrow> (u, fst (publishScreen s u)))"

definition run_uplink :: "(int \<times> uplink_op) list \<Rightarrow> uplink \<Rightarrow> uplink \<times> wire_out list" where
  "run_uplink as u = foldl (\<lambda>(v, out) (now, a). let (v', new) = uplink_do now a v in (v', out @ new)) (u, []) as"

definition held_fields :: "string set" where
  "held_fields = {''sfGate'', ''layout'', ''parkLayout'', ''drivingLayout'', ''lapBudgetWh'', ''lapCardMs'', ''messages''}"

definition one_shot_fields :: "string set" where
  "one_shot_fields = {''lapTrigger'', ''lapCount'', ''lapReset'', ''eventMode'', ''screen''}"

definition stream_fields :: "string set" where
  "stream_fields = {''targetPower'', ''lapDelta'', ''energyDelta'', ''energyDeltaStatic'', ''lapsRemaining''}"

text \<open>What the broker keeps for a car that starts later, what must not be lost, and what is only a reading.\<close>

definition wire_ok :: "wire_out \<Rightarrow> bool" where
  "wire_ok m = (case m of
       Subscribe ts \<Rightarrow> ts = [''state'', ''ack/#'']
     | Publish f v q r \<Rightarrow> (r \<longleftrightarrow> f \<in> held_fields) \<and> (q = 1 \<longleftrightarrow> f \<in> held_fields \<union> one_shot_fields)
         \<and> (q = 0 \<longleftrightarrow> f \<in> stream_fields \<union> {''message''}))"

lemmas wire_defs = wire_ok_def held_fields_def one_shot_fields_def stream_fields_def

lemma field_ok: "f \<in> one_shot_fields \<Longrightarrow> \<forall>m \<in> set (publish_field f v 1 u). wire_ok m"
    "f \<in> stream_fields \<Longrightarrow> \<forall>m \<in> set (publish_field f v 0 u). wire_ok m" "f \<in> stream_fields \<Longrightarrow> \<forall>m \<in> set (publish_set f w u). wire_ok m"
  by (auto simp: publish_field_def publish_set_def wire_defs split: option.splits)

lemma online_ok: "f \<in> held_fields \<Longrightarrow> \<forall>m \<in> set (fst (publish_online f v 1 True u)). wire_ok m"
    "\<forall>m \<in> set (fst (publish_online ''message'' v 0 False u)). wire_ok m" "\<forall>m \<in> set (fst (publish_online ''screen'' v 1 False u)). wire_ok m"
  by (auto simp: publish_online_def wire_defs)

lemma fields_in:
  "''lapTrigger'' \<in> one_shot_fields" "''lapCount'' \<in> one_shot_fields" "''lapReset'' \<in> one_shot_fields" "''eventMode'' \<in> one_shot_fields"
  "''targetPower'' \<in> stream_fields" "''lapDelta'' \<in> stream_fields" "''energyDelta'' \<in> stream_fields"
  "''energyDeltaStatic'' \<in> stream_fields" "''lapsRemaining'' \<in> stream_fields"
  "''sfGate'' \<in> held_fields" "''layout'' \<in> held_fields" "''parkLayout'' \<in> held_fields" "''drivingLayout'' \<in> held_fields"
  "''lapBudgetWh'' \<in> held_fields" "''lapCardMs'' \<in> held_fields" "''messages'' \<in> held_fields"
  by (simp_all add: held_fields_def one_shot_fields_def stream_fields_def)

lemmas wire_rules = field_ok(1) [OF fields_in(1)] field_ok(1) [OF fields_in(2)] field_ok(1) [OF fields_in(3)] field_ok(1) [OF fields_in(4)]
  field_ok(2,3) [OF fields_in(5)] field_ok(2,3) [OF fields_in(6)] field_ok(2,3) [OF fields_in(7)] field_ok(2,3) [OF fields_in(8)]
  field_ok(2,3) [OF fields_in(9)]
  online_ok(1) [OF fields_in(10)] online_ok(1) [OF fields_in(11)] online_ok(1) [OF fields_in(12)] online_ok(1) [OF fields_in(13)]
  online_ok(1) [OF fields_in(14)] online_ok(1) [OF fields_in(15)] online_ok(1) [OF fields_in(16)] online_ok(2,3)


lemmas signal_defs = publishTargetPower_def publishLapDelta_def publishEnergyDelta_def publishEnergyDeltaStatic_def
  publishLapsRemaining_def publishEventMode_def sendLap_def republishLap_def publishLapCount_def resetLapCounter_def
  publishGate_def sendDashLayout_def publishLayout_def publishParkLayout_def publishDrivingLayout_def publishLapBudget_def
  publishLapCardMs_def publishMessages_def sendMessage_def clearMessage_def publishScreen_def

lemma list_wire: "(\<forall>m \<in> set ms. wire_ok m) \<Longrightarrow> list_all wire_ok ms"
  by (simp add: list_all_iff)

lemmas wire_lists = wire_rules [THEN list_wire] wire_rules [THEN list_wire, unfolded One_nat_def]

lemma do_wire_ok: "list_all wire_ok (snd (uplink_do now a u))"
proof (cases a)
  case (Gate g)
  then show ?thesis by (cases g) (simp add: uplink_do_def publishGate_def wire_lists)
next
  case Broker_connected
  have "wire_ok (Subscribe [''state'', ''ack/#''])" by (simp add: wire_ok_def)
  then show ?thesis using Broker_connected by (simp add: uplink_do_def on_connect_def wire_lists)
next
  case (Send_lap v)
  then show ?thesis by (simp add: uplink_do_def sendLap_def Let_def wire_lists)
next
  case (Republish_lap v)
  then show ?thesis by (cases v) (simp_all add: uplink_do_def republishLap_def wire_lists)
qed (simp_all add: uplink_do_def signal_defs keepalive_tick_def wire_lists Let_def)

definition link_ok :: "uplink \<Rightarrow> bool" where
  "link_ok u \<longleftrightarrow> ul_lapsSent u = ul_counter u \<and> 0 \<le> ul_counter u \<and> (ul_ticking u \<longrightarrow> ul_client u)"

lemma message_ok_link: "link_ok u \<Longrightarrow> link_ok (link_message now topic s j u)"
  by (auto simp: link_ok_def link_message_def Let_def split: option.splits)

lemma do_link_ok: "link_ok u \<Longrightarrow> link_ok (fst (uplink_do now a u))"
proof (cases a)
  case (Send_lap v)
  assume "link_ok u"
  then show ?thesis using Send_lap by (auto simp: link_ok_def uplink_do_def sendLap_def Let_def)
next
  case (Broker_message topic s j)
  assume "link_ok u"
  then show ?thesis using Broker_message message_ok_link by (simp add: uplink_do_def)
next
  case (Do_connect e)
  assume "link_ok u"
  then show ?thesis using Do_connect by (cases e) (simp_all add: link_ok_def uplink_do_def link_connect_def)
qed (simp_all add: link_ok_def uplink_do_def signal_defs on_connect_def on_reconnect_def on_close_def link_failed_def
  link_disconnect_def link_unmount_def Let_def)


subsection \<open>The lap counter of the car\<close>

text \<open>The lap that is shown on the card, and the cards that were shown, oldest first.\<close>

record car_laps =
  cl_count :: nat
  cl_last :: "nat option"
  cl_cards :: "nat list"

definition complete_lap :: "nat option \<Rightarrow> car_laps \<Rightarrow> car_laps" where
  "complete_lap set_count c =
     (let n = (case set_count of Some k \<Rightarrow> k | None \<Rightarrow> cl_count c + 1)
      in c\<lparr>cl_count := n, cl_last := Some n, cl_cards := cl_cards c @ [n]\<rparr>)"

definition car_receive :: "wire_out \<Rightarrow> car_laps \<Rightarrow> car_laps" where
  "car_receive m c = (case m of
       Publish f (Pay_number v) _ _ \<Rightarrow>
         (let n = nat (rat_round v) in
          if f = ''lapTrigger'' then
            (if n > cl_count c + 1 then c\<lparr>cl_count := n\<rparr> else if n > cl_count c then complete_lap (Some n) c else c)
          else if f = ''lapCount'' then c\<lparr>cl_count := n\<rparr>
          else if f = ''lapReset'' then c\<lparr>cl_count := 0, cl_last := None\<rparr>
          else c)
     | _ \<Rightarrow> c)"

definition car_gate_crossed :: "car_laps \<Rightarrow> car_laps" where
  "car_gate_crossed c = complete_lap None c"

definition car_state_frame :: "car_laps \<Rightarrow> json" where
  "car_state_frame c = JObj [(''lapCount'', JNum (JFin (of_nat (cl_count c))))]"

subsection \<open>The page and the car\<close>

text \<open>The count the page follows, whether a card was asked for, the uplink and the car; what is sent arrives.\<close>

record lap_link =
  lk_prev :: nat
  lk_force :: bool
  lk_up :: uplink
  lk_car :: car_laps

datatype link_op =
    Selected_laps bool nat
  | Lap_logged
  | Car_reports
  | Drain_laps
  | New_laps
  | Car_gate
  | Car_restarts
  | Page_reloads

definition arrive :: "uplink \<times> wire_out list \<Rightarrow> lap_link \<Rightarrow> lap_link" where
  "arrive r s = s\<lparr>lk_up := fst r, lk_car := fold car_receive (snd r) (lk_car s)\<rparr>"

definition dash_command_do :: "dash_command \<Rightarrow> lap_link \<Rightarrow> lap_link" where
  "dash_command_do d s = (case d of
       Send_card n \<Rightarrow> arrive (sendLap (Some (JFin (of_nat n))) (lk_up s)) s
     | Publish_count n \<Rightarrow> arrive (publishLapCount (of_nat n) (lk_up s)) s)"

definition link_do :: "link_op \<Rightarrow> lap_link \<Rightarrow> lap_link" where
  "link_do a s = (case a of
       Selected_laps auto n \<Rightarrow>
         (let (pf, cmds) = lap_count_sync auto n (lk_prev s, lk_force s)
          in fold dash_command_do cmds (s\<lparr>lk_prev := fst pf, lk_force := snd pf\<rparr>))
     | Lap_logged \<Rightarrow> s\<lparr>lk_force := True\<rparr>
     | Car_reports \<Rightarrow> s\<lparr>lk_up := link_message 0 ''lhre/dash/state'' [] (Some (car_state_frame (lk_car s))) (lk_up s)\<rparr>
     | Drain_laps \<Rightarrow>
         (case lap_count_drain (map_option (\<lambda>x. nat \<lfloor>x\<rfloor>) (case ul_state (lk_up s) of Some j \<Rightarrow> state_laps j | None \<Rightarrow> None)) (lk_prev s) of
            Some k \<Rightarrow> s\<lparr>lk_car := fold car_receive (republishLap (JFin (of_nat k)) (lk_up s)) (lk_car s)\<rparr>
          | None \<Rightarrow> s)
     | New_laps \<Rightarrow> arrive (resetLapCounter (lk_up s)) (s\<lparr>lk_prev := 0\<rparr>)
     | Car_gate \<Rightarrow> s\<lparr>lk_car := car_gate_crossed (lk_car s)\<rparr>
     | Car_restarts \<Rightarrow> s\<lparr>lk_car := \<lparr>cl_count = 0, cl_last = None, cl_cards = []\<rparr>\<rparr>
     | Page_reloads \<Rightarrow> s\<lparr>lk_prev := 0, lk_force := False, lk_up := (uplink_start\<lparr>ul_client := True\<rparr>)\<rparr>)"

definition link_start :: lap_link where
  "link_start = \<lparr>lk_prev = 0, lk_force = False, lk_up = uplink_start\<lparr>ul_client := True\<rparr>,
     lk_car = \<lparr>cl_count = 0, cl_last = None, cl_cards = []\<rparr>\<rparr>"

definition in_step :: "lap_link \<Rightarrow> bool" where
  "in_step s \<longleftrightarrow> ul_client (lk_up s) \<and> ul_counter (lk_up s) = of_nat (lk_prev s) \<and> cl_count (lk_car s) = lk_prev s"

text \<open>The car neither counts laps of its own nor restarts, and the page is not reloaded.\<close>

fun undisturbed :: "link_op \<Rightarrow> bool" where
  "undisturbed Car_gate = False"
| "undisturbed Car_restarts = False"
| "undisturbed Page_reloads = False"
| "undisturbed _ = True"

lemma round_nat [simp]: "rat_round (of_nat n) = int n" "rat_round 1 = 1"
  using rat_round_int [of "int n"] rat_round_int [of 1] by simp_all

lemma send_card_step:
  assumes "ul_client (lk_up s)" "ul_counter (lk_up s) = of_nat p" "cl_count (lk_car s) = p" "p < n"
  shows "dash_command_do (Send_card n) s = s\<lparr>lk_up := (lk_up s)\<lparr>ul_counter := of_nat n, ul_lapsSent := of_nat n\<rparr>,
    lk_car := (if n = p + 1 then complete_lap (Some n) (lk_car s) else (lk_car s)\<lparr>cl_count := n\<rparr>)\<rparr>"
proof -
  have "(of_nat p + 1 :: rat) = of_nat (p + 1)" by simp
  also have "\<dots> \<le> of_nat n" using assms(4) by (simp only: of_nat_le_iff)
  finally have "max (of_nat n) (of_nat p + 1 :: rat) = of_nat n" by simp
  then show ?thesis using assms
    by (simp add: dash_command_do_def arrive_def sendLap_def publish_field_def car_receive_def Let_def)
qed

lemma publish_count_step:
  assumes "ul_client (lk_up s)"
  shows "dash_command_do (Publish_count n) s = s\<lparr>lk_up := (lk_up s)\<lparr>ul_counter := of_nat n, ul_lapsSent := of_nat n\<rparr>,
    lk_car := (lk_car s)\<lparr>cl_count := n\<rparr>\<rparr>"
  using assms by (simp add: dash_command_do_def arrive_def publishLapCount_def publish_field_def car_receive_def Let_def)

lemma selected_in_step:
  assumes "in_step s"
  shows "in_step (link_do (Selected_laps auto n) s)" "lk_prev (link_do (Selected_laps auto n) s) = n"
proof -
  have c: "ul_client (lk_up s)" "ul_counter (lk_up s) = of_nat (lk_prev s)" "cl_count (lk_car s) = lk_prev s"
    using assms by (simp_all add: in_step_def)
  note step = send_card_step [where p = "lk_prev s"] publish_count_step
  show "in_step (link_do (Selected_laps auto n) s)"
    using c by (simp add: link_do_def lap_count_sync_def step in_step_def complete_lap_def Let_def)
  show "lk_prev (link_do (Selected_laps auto n) s) = n"
    using c by (simp add: link_do_def lap_count_sync_def step Let_def)
qed

lemma frame_laps: "state_laps (car_state_frame c) = Some (of_nat (cl_count c))"
  by (simp add: state_laps_def car_state_frame_def field_def jm_get_def)

lemma link_do_in_step: "in_step s \<Longrightarrow> undisturbed a \<Longrightarrow> in_step (link_do a s)"
proof (cases a)
  case (Selected_laps auto n)
  assume "in_step s"
  then show ?thesis using Selected_laps selected_in_step(1) by simp
next
  case Car_reports
  assume "in_step s"
  then show ?thesis using Car_reports by (simp add: in_step_def link_do_def link_message_def frame_laps Let_def)
next
  case Drain_laps
  assume s: "in_step s"
  have "fold car_receive (republishLap (JFin (of_nat k)) (lk_up s)) (lk_car s) = lk_car s" if "k = lk_prev s" for k
    using s that by (simp add: in_step_def republishLap_def publish_field_def car_receive_def Let_def)
  then show ?thesis using s Drain_laps by (auto simp: link_do_def lap_count_drain_def in_step_def split: option.splits if_splits)
next
  case New_laps
  assume "in_step s"
  then show ?thesis using New_laps
    by (simp add: in_step_def link_do_def arrive_def resetLapCounter_def publish_field_def car_receive_def Let_def)
qed (simp_all add: in_step_def link_do_def)



subsection \<open>Where the two counts part\<close>

lemmas link_simps = link_do_def lap_count_sync_def dash_command_do_def arrive_def sendLap_def publishLapCount_def publish_field_def
  car_receive_def car_gate_crossed_def complete_lap_def link_message_def frame_laps lap_count_drain_def republishLap_def link_start_def
  uplink_start_def Let_def

text \<open>C39: a lap that the car counts at its own gate and reports before the page has selected it is counted twice: the page's counter
  is already the car's, so that the number of the page is raised by one. In the same way a page that is reloaded with the cards
  on, and hears the car before its laps are restored, pushes the car one lap ahead.\<close>

theorem reported_lap_counted_twice:
  assumes "in_step s" "0 < lk_prev s"
  shows "cl_count (lk_car (fold link_do [Car_gate, Car_reports, Selected_laps True (lk_prev s + 1)] s)) = lk_prev s + 2
    \<and> cl_count (lk_car (fold link_do [Page_reloads, Car_reports, Selected_laps True (lk_prev s)] s)) = lk_prev s + 1"
proof -
  have c: "ul_client (lk_up s)" "ul_counter (lk_up s) = of_nat (lk_prev s)" "cl_count (lk_car s) = lk_prev s"
    using assms by (simp_all add: in_step_def)
  have n: "rat_round (2 + of_nat k) = int k + 2" "rat_round (1 + of_nat k) = int k + 1" "rat_round (of_nat k + 2) = int k + 2"
      "rat_round (of_nat k + 1) = int k + 1" for k
    using rat_round_int [of "int k + 2"] rat_round_int [of "int k + 1"] by (simp_all add: add.commute)
  show ?thesis using c assms(2) by (simp add: link_simps n nat_add_distrib)
qed

lemma reported_lap_counted_twice_witness:
  "cl_count (lk_car (fold link_do [Car_gate, Car_reports, Selected_laps True 2] (link_do (Selected_laps False 1) link_start))) = 3"
proof -
  let ?s = "link_do (Selected_laps False 1) link_start"
  have i: "in_step link_start" by (simp add: in_step_def link_start_def uplink_start_def)
  have "lk_prev ?s = 1" "in_step ?s" using selected_in_step [OF i, of False 1] by simp_all
  then show ?thesis using reported_lap_counted_twice [of ?s] by (simp add: numeral_2_eq_2 numeral_3_eq_3)
qed

text \<open>A car that restarts after one lap is told the count again and shows a card for a lap that it did not drive; after more laps it
  takes the count silently.\<close>

lemma restarted_car_shows_card:
  "cl_cards (lk_car (fold link_do [Selected_laps False 1, Car_restarts, Car_reports, Drain_laps] link_start)) = [1]"
  "cl_cards (lk_car (fold link_do [Selected_laps False 2, Car_restarts, Car_reports, Drain_laps] link_start)) = []"
  using round_nat(1) [of 2] by (simp_all add: link_simps)

end
