(* ===== verification/Spec2Isabelle.thy ===== *)
theory Spec2Isabelle
  imports Presence DashRender LapTime DashStore SessionRegistry CarStatus KafkaStream MotecExport MotecDb
    DriveRebuild DriveConvert DrivePlayer DriveWorkspace LiveStrategy CarUplink
begin

text \<open>
  A model of the telemetry tools of the Longhorn Racing Electric repository: the web application in
  \<^verbatim>\<open>src/apps/telemetry/analysis/database/viewer_tool/src\<close> (all paths below are relative to it), with the lap counter of the dash
  daemon of the car at the other end of its uplink. Each theory follows one part of the program, in the order and with the names
  of its files; a name that Isabelle reserves or that two files share has a suffix.

  \<^bold>\<open>The program.\<close> A race engineer opens the trackside page. A server route decides which of the open pages leads
  (presence); the leader times the laps, counts their energy and saves the session to the browser and to a shared document that the
  other pages mirror. It sends layouts, messages, budgets and the lap count to the dash in the car. The telemetry arrives over Kafka
  or MQTT, is normalised, buffered and handed to the pages as an event stream. Recorded telemetry is cut into days, sessions and
  segments and exported as MoTeC logs, beacon files, tables and archives. The drive-day screen replays a recorded run: it cuts the
  course into segments, the laps at gates and sectors, finds braking zones, compares laps and keeps the driver's notes.

  \<^bold>\<open>The theories.\<close>

  \<^item> Shared vocabulary: \<^verbatim>\<open>Prelude\<close> (the \<^verbatim>\<open>Map\<close> and \<^verbatim>\<open>Set\<close> of JavaScript as lists in insertion order), \<^verbatim>\<open>JsNumber\<close> (numbers, \<^verbatim>\<open>NaN\<close> and
    the infinities, rounding and the text of numbers), \<^verbatim>\<open>JsText\<close> and \<^verbatim>\<open>NumberText\<close> (case, trimming, splitting, \<^verbatim>\<open>Number(text)\<close>,
    \<^verbatim>\<open>String(number)\<close>), \<^verbatim>\<open>JsonValue\<close> (values after \<^verbatim>\<open>JSON.parse\<close> and what is lost by \<^verbatim>\<open>JSON.stringify\<close>), \<^verbatim>\<open>Bytes\<close>.
  \<^item> \<^verbatim>\<open>Presence\<close>: \<^verbatim>\<open>app/api/motec/live/presence/route.ts\<close> as a server whose requests may be suspended and answered later, and the
    reading of its answers in \<^verbatim>\<open>lib/trackside/usePresence.ts\<close>. Invariant of the reachable states, one leader, the locked seat, the
    replacement of a silent leader, and who may transfer the seat.
  \<^item> \<^verbatim>\<open>DashLayout\<close>, \<^verbatim>\<open>DashRender\<close>: the layout schema \<^verbatim>\<open>lib/dash/dashLayout.ts\<close> and its renderer; \<^verbatim>\<open>DashMessages\<close>: the message library;
    \<^verbatim>\<open>DashStore\<close>: the routes under \<^verbatim>\<open>app/api/dash\<close> and the session cache over a file system, with a writer stopped between its
    version check and its rename, and the browser's stores. Type safety of the rendering, round trips of the stored documents, stale
    and overlapping saves, the names of files.
  \<^item> \<^verbatim>\<open>LapTime\<close>, \<^verbatim>\<open>SessionRegistry\<close>, \<^verbatim>\<open>CarStatus\<close>: the typed lap times, the registry of sessions with its merge of server and browser, the
    status feed with its retries.
  \<^item> \<^verbatim>\<open>KafkaRoutes\<close>, \<^verbatim>\<open>KafkaConsumer\<close>, \<^verbatim>\<open>KafkaStream\<close>: the consumer's routing, normalisation and derived values, the message buffers,
    the event stream of \<^verbatim>\<open>app/api/kafka-stream/route.ts\<close> and the subscriptions of the pages (a step relation with a refinement
    to the set of topics that have handlers).
  \<^item> \<^verbatim>\<open>MotecLog\<close>, \<^verbatim>\<open>MotecSplit\<close>, \<^verbatim>\<open>MotecLd\<close>, \<^verbatim>\<open>MotecLdx\<close>, \<^verbatim>\<open>MotecZip\<close>, \<^verbatim>\<open>MotecStores\<close>, \<^verbatim>\<open>MotecLive\<close>, \<^verbatim>\<open>MotecTelemetry\<close>, \<^verbatim>\<open>MotecExport\<close>, \<^verbatim>\<open>MotecDb\<close>:
    the files of \<^verbatim>\<open>lib/motec\<close>. Resampling against interpolation, splitting of motion, the binary log and the archive read back by a
    reader written from the format, the export of a live lap and of recorded segments with the errors of the disk.
  \<^item> \<^verbatim>\<open>DriveMath\<close> to \<^verbatim>\<open>DriveWorkspace\<close>: the files of \<^verbatim>\<open>lib/driveday\<close>. Segments tile a closed course, segment times add up to the lap,
    the theoretical lap is not slower than a lap driven, rebuilt laps meet, the player keeps its invariant and comes to an end. \<^verbatim>\<open>DriveCourses\<close> and
    \<^verbatim>\<open>DriveConvert\<close> are the import of a logged session, \<^verbatim>\<open>convert.ts\<close>: no lap is lost or doubled between its courses, the laps it
    builds hold together, and the runs open.
  \<^item> \<^verbatim>\<open>LiveGates\<close>, \<^verbatim>\<open>LiveLookup\<close>, \<^verbatim>\<open>LiveSession\<close>: the logic of \<^verbatim>\<open>app/trackside-live/TracksideApp.tsx\<close>. The session is the record
    \<^verbatim>\<open>page\<close>, its handlers are functions on it, \<^verbatim>\<open>page_op\<close> lists what can happen and \<^verbatim>\<open>run_page\<close> runs any sequence of it, each operation
    with its clock reading and with the writes that reach a store. The locale \<^verbatim>\<open>session_invariant\<close> states what a property of the
    session has to satisfy to hold of every page and of every stored document; it is interpreted by the timing and by the energy.
  \<^item> \<^verbatim>\<open>LiveStrategy\<close>: what the strategist reads off the session in the same file: the budget of the remaining laps, the projected
    battery temperature, the estimate of the pack, the torque the driver asks for with its tables, the series of the charts. The
    estimate stays in the range of its readings, the torque is bounded and grows with the pedal, a chart keeps every reading.
  \<^item> \<^verbatim>\<open>CarUplink\<close>: \<^verbatim>\<open>lib/dash/dashSignals.ts\<close> as a state machine with the messages it publishes, the lap counter of
    \<^verbatim>\<open>src/apps/BEVO/dashd/main.rs\<close>, and the two together with the effects of the page that keep the count of the dash.
  \<^item> This theory: what holds between the components.

  \<^bold>\<open>Conventions.\<close> State is passed explicitly; an exception, a rejected request or a missing value is a value of a sum or an option.
  Times are whole milliseconds. A loop is a recursion with a proof that it ends; the export id, which the code searches in a loop
  without a bound, is searched with one more attempt than there are files, and is proved to be found. Where the code awaits, the
  operations are split so that others may run in between. Locales state the interfaces; every property is a theorem over the
  model's own definitions.

  \<^bold>\<open>Idealisations.\<close> Numbers are exact rationals beside \<^verbatim>\<open>NaN\<close> and the infinities: the rounding of floating point is not represented,
  except where the code rounds. Strings are lists of bytes; the letters beyond ASCII keep their bytes and are not changed by case
  folding. The functions of \<^verbatim>\<open>Math\<close>, the checksum of the archive, the conversion to single precision, the offset of the time zone, the
  clock, random numbers, new ids, the answers of the database, of the file system and of the network, and the order in which they
  arrive are parameters. The laps of the live session carry no samples of their own, as the page never fills them.

  \<^bold>\<open>Not modelled.\<close> React markup, charts, canvas drawing and video; the pages for replay, log files and car status; the routes that only forward to
  the database or to another server; authentication; the clients of Kafka, MQTT and Prisma; generated protobuf code; the Grafana
  plugin, a fork of a third-party one; the display in the car, whose layout and message modules repeat the modelled ones; the
  software of the car in Rust and C beyond its lap counter.
\<close>

subsection \<open>Presence and the shared session\<close>

text \<open>C5: of all the pages that have read the same state of the presence server, only the leader's can change the shared session
  document, whatever each of them does and with whatever clock.\<close>

theorem shared_session_one_writer:
  assumes "pg_mirror p = view_isMirror (apply_answer (snapshot_json (take_snapshot s i t)) i n)"
    "pg_mirror q = view_isMirror (apply_answer (snapshot_json (take_snapshot s j u)) j m)"
    "pg_backend (perform M w now a p) \<noteq> pg_backend p" "pg_backend (perform M v later b q) \<noteq> pg_backend q"
  shows "i = j \<and> leaderId s = Some i"
proof -
  have "\<not> pg_mirror p" "\<not> pg_mirror q" using assms(3,4) mirror_keeps_backend by blast+
  then have "leaderId s = Some i" "leaderId s = Some j" using assms(1,2) by (simp_all add: presence_view_agrees)
  then show ?thesis by simp
qed

lemma shared_session_one_writer_witness: "leaderId alone = Some ''a''"
proof -
  have p: "pg_mirror driven_page = view_isMirror (apply_answer (snapshot_json (take_snapshot alone ''a'' 100)) ''a'' [])"
    by (simp add: presence_view_agrees driven_page_def blank_page_def alone_def leaderId_def designee_def)
  have c: "pg_backend (perform flat_math all_stored 95000 (Edit_note [] []) driven_page) \<noteq> pg_backend driven_page"
    by (simp add: perform_def editLapNote_def persistLiveSession_def map_laps_def has_data_def driven_page_def blank_page_def all_stored_def Let_def)
  show ?thesis using shared_session_one_writer [OF p p c c] by simp
qed

end
